(* ===== verification/Prelude.thy ===== *)
theory Prelude
  imports Main "HOL-Library.Word" "HOL-Library.AList" "HOL-Library.Char_ord"
begin

text \<open>
  Shared vocabulary of the development: names for the model's base types, the operations of
  the C++ standard library that the sources use (\<open>std::string\<close> searching, trimming,
  \<open>std::to_string\<close>, \<open>std::strtoull\<close>/\<open>std::stoul\<close>, \<open>operator[]\<close> of
  \<open>std::unordered_map\<close>), hexadecimal digits, and the generic lemmas on lists, words and
  association lists that the component theories share.

  Conventions.
  \<^item> \<open>std::string\<close> and byte buffers that are used as text are \<open>string\<close>: a
    \<open>char\<close> is exactly one byte.  Buffers of \<open>std::uint8_t\<close> are lists of
    \<open>8 word\<close>.
  \<^item> \<open>unsigned long\<close>, \<open>unsigned long long\<close> and \<open>std::size_t\<close> are 64 bits
    wide (LP64, the platform of the server).
  \<^item> An \<open>std::unordered_map\<close> is an association list: its order stands for the
    unspecified iteration order of the container.
  \<^item> A function that throws returns \<open>None\<close>.
\<close>

unbundle bit_operations_syntax

section \<open>Base types and collections of facts\<close>

type_synonym byte = "8 word"
type_synonym u16 = "16 word"
type_synonym u32 = "32 word"
type_synonym u64 = "64 word"
type_synonym bytes = "byte list"

named_theorems string_simps \<open>rewrite rules for the string operations\<close>
named_theorems alist_simps \<open>rewrite rules for association lists as maps\<close>
named_theorems succeeds_iff \<open>when a fallible operation succeeds\<close>

section \<open>Strings\<close>

abbreviation SP :: char where "SP \<equiv> CHR '' ''"
abbreviation TAB :: char where "TAB \<equiv> CHR 0x09"
abbreviation LF :: char where "LF \<equiv> CHR 0x0A"
abbreviation CR :: char where "CR \<equiv> CHR 0x0D"
abbreviation CRLF :: string where "CRLF \<equiv> [CR, LF]"

definition starts_with :: "string \<Rightarrow> string \<Rightarrow> bool" where
  "starts_with p s \<longleftrightarrow> take (length p) s = p"

text \<open>\<open>s.find(c)\<close>, \<open>s.find(c, pos)\<close>, \<open>s.rfind(c)\<close> and \<open>s.find(needle)\<close>;
  \<open>None\<close> is \<open>npos\<close>.\<close>

fun find_ch :: "char \<Rightarrow> string \<Rightarrow> nat option" where
  "find_ch c [] = None"
| "find_ch c (x # xs) = (if x = c then Some 0 else map_option Suc (find_ch c xs))"

definition find_ch_from :: "char \<Rightarrow> nat \<Rightarrow> string \<Rightarrow> nat option" where
  "find_ch_from c pos s = map_option (\<lambda>i. pos + i) (find_ch c (drop pos s))"

fun rfind_ch :: "char \<Rightarrow> string \<Rightarrow> nat option" where
  "rfind_ch c [] = None"
| "rfind_ch c (x # xs) =
     (case rfind_ch c xs of Some i \<Rightarrow> Some (Suc i) | None \<Rightarrow> if x = c then Some 0 else None)"

fun find_str :: "string \<Rightarrow> string \<Rightarrow> nat option" where
  "find_str p [] = (if p = [] then Some 0 else None)"
| "find_str p (x # xs) =
     (if starts_with p (x # xs) then Some 0 else map_option Suc (find_str p xs))"

definition find_str_from :: "string \<Rightarrow> nat \<Rightarrow> string \<Rightarrow> nat option" where
  "find_str_from p pos s = map_option (\<lambda>i. pos + i) (find_str p (drop pos s))"

text \<open>\<open>s.substr(pos, n)\<close> for \<open>pos \<le> s.size()\<close>.\<close>

definition substr :: "nat \<Rightarrow> nat \<Rightarrow> string \<Rightarrow> string" where
  "substr pos n s = take n (drop pos s)"

text \<open>\<open>while (!s.empty() && P(s.back())) s.pop_back();\<close>\<close>

definition rtrim :: "(char \<Rightarrow> bool) \<Rightarrow> string \<Rightarrow> string" where
  "rtrim P s = rev (dropWhile P (rev s))"

definition ltrim :: "(char \<Rightarrow> bool) \<Rightarrow> string \<Rightarrow> string" where
  "ltrim P s = dropWhile P s"

text \<open>\<open>std::tolower\<close>, \<open>std::isspace\<close> and \<open>std::isdigit\<close> in the default locale.\<close>

definition code_of :: "char \<Rightarrow> nat" where
  "code_of c = of_char c"

definition in_range :: "char \<Rightarrow> char \<Rightarrow> char \<Rightarrow> bool" where
  "in_range lo hi c \<longleftrightarrow> code_of lo \<le> code_of c \<and> code_of c \<le> code_of hi"

definition is_digit :: "char \<Rightarrow> bool" where
  "is_digit c \<longleftrightarrow> in_range CHR ''0'' CHR ''9'' c"

definition is_space :: "char \<Rightarrow> bool" where
  "is_space c \<longleftrightarrow> c = SP \<or> in_range CHR 0x09 CHR 0x0D c"

definition tolower :: "char \<Rightarrow> char" where
  "tolower c = (if in_range CHR ''A'' CHR ''Z'' c then char_of (code_of c + 32) else c)"

definition lowercase :: "string \<Rightarrow> string" where
  "lowercase s = map tolower s"

lemma starts_with_append [simp, string_simps]: "starts_with p (p @ s)"
  by (simp add: starts_with_def)

lemma starts_with_iff: "starts_with p s \<longleftrightarrow> (\<exists>r. s = p @ r)"
  by (metis append_eq_conv_conj append_take_drop_id starts_with_def)

lemma find_ch_None [simp, string_simps]: "find_ch c s = None \<longleftrightarrow> c \<notin> set s"
  by (induction s) auto

lemma find_ch_Some: "find_ch c s = Some i \<Longrightarrow> i < length s \<and> s ! i = c \<and> c \<notin> set (take i s)"
  by (induction s arbitrary: i) (auto split: if_splits)

lemma find_ch_append [string_simps]: "c \<notin> set p \<Longrightarrow> find_ch c (p @ c # s) = Some (length p)"
  by (induction p) auto

lemma find_ch_takeWhile: "find_ch c s = Some i \<Longrightarrow> take i s = takeWhile (\<lambda>x. x \<noteq> c) s"
  by (induction s arbitrary: i) (auto split: if_splits)

lemma rfind_ch_None [simp]: "rfind_ch c s = None \<longleftrightarrow> c \<notin> set s"
  by (induction s) (auto split: option.splits)

lemma rfind_ch_append: "c \<notin> set s \<Longrightarrow> rfind_ch c (p @ c # s) = Some (length p)"
  by (induction p) (auto split: option.splits)

lemma find_str_append_le: "\<exists>i. find_str p (q @ p @ s) = Some i \<and> i \<le> length q"
proof (induction q)
  case Nil
  have "find_str p (p @ s) = Some 0"
    by (cases "p @ s") (use starts_with_append [of p s] in auto)
  then show ?case by simp
next
  case (Cons x q)
  then show ?case by auto
qed

lemma rtrim_append_stop [string_simps]:
  "\<not> P c \<Longrightarrow> rtrim P (s @ [c]) = s @ [c]"
  by (simp add: rtrim_def)

lemma rtrim_Nil [simp]: "rtrim P [] = []"
  by (simp add: rtrim_def)

lemma rtrim_append_drop [string_simps]: "P c \<Longrightarrow> rtrim P (s @ [c]) = rtrim P s"
  by (simp add: rtrim_def)

lemma rtrim_id: "s = [] \<or> \<not> P (last s) \<Longrightarrow> rtrim P s = s"
  by (cases s rule: rev_cases) (auto simp: rtrim_def)

lemma rtrim_last: "rtrim P s \<noteq> [] \<Longrightarrow> \<not> P (last (rtrim P s))"
  by (simp add: rtrim_def last_rev hd_dropWhile)

lemma length_rtrim: "length (rtrim P s) \<le> length s"
  by (metis length_dropWhile_le length_rev rtrim_def)

lemma set_rtrim: "set (rtrim P s) \<subseteq> set s"
  by (auto simp: rtrim_def dest: set_dropWhileD)

section \<open>Decimal numbers\<close>

definition digit_char :: "nat \<Rightarrow> char" where
  "digit_char d = char_of (48 + d)"

definition digit_val :: "char \<Rightarrow> nat" where
  "digit_val c = code_of c - 48"

text \<open>\<open>std::to_string\<close> of an unsigned value.\<close>

fun show_nat :: "nat \<Rightarrow> string" where
  "show_nat n = (if n < 10 then [digit_char n] else show_nat (n div 10) @ [digit_char (n mod 10)])"

declare show_nat.simps [simp del]

definition show_int :: "int \<Rightarrow> string" where
  "show_int i = (if i < 0 then ''-'' @ show_nat (nat (- i)) else show_nat (nat i))"

definition dec_val :: "string \<Rightarrow> nat" where
  "dec_val ds = foldl (\<lambda>v c. v * 10 + digit_val c) 0 ds"

text \<open>
  \<open>strtoull(s, &end, 10)\<close>: skip white space, an optional sign, then digits; no digits is
  no conversion (\<open>None\<close>).  The result is the value, whether \<open>errno\<close> was set to
  \<open>ERANGE\<close>, and \<open>end - s\<close>.  A minus sign negates in the unsigned type.
\<close>

definition strtoull :: "string \<Rightarrow> (u64 \<times> bool \<times> nat) option" where
  "strtoull s =
     (let s1 = dropWhile is_space s;
          neg = (s1 \<noteq> [] \<and> hd s1 = CHR ''-'');
          s2 = (if s1 \<noteq> [] \<and> hd s1 \<in> {CHR ''-'', CHR ''+''} then tl s1 else s1);
          ds = takeWhile is_digit s2;
          m = dec_val ds
      in if ds = [] then None
         else Some (if 2 ^ 64 \<le> m then - 1 else if neg then - of_nat m else of_nat m,
                    2 ^ 64 \<le> m, length s - length s2 + length ds))"

text \<open>\<open>std::stoull\<close> and \<open>std::stoul\<close>: no conversion and \<open>ERANGE\<close> throw.\<close>

definition stoul_pos :: "string \<Rightarrow> (u64 \<times> nat) option" where
  "stoul_pos s =
     (case strtoull s of None \<Rightarrow> None
      | Some (v, erange, n) \<Rightarrow> if erange then None else Some (v, n))"

definition stoul :: "string \<Rightarrow> u64 option" where
  "stoul s = map_option fst (stoul_pos s)"

lemma code_of_digit_char [simp]: "d < 10 \<Longrightarrow> code_of (digit_char d) = 48 + d"
  by (simp add: code_of_def digit_char_def)

lemma digit_val_digit_char [simp]: "d < 10 \<Longrightarrow> digit_val (digit_char d) = d"
  by (simp add: digit_val_def)

lemma code_of_0_9 [simp]: "code_of CHR ''0'' = 48" "code_of CHR ''9'' = 57"
  by (simp_all add: code_of_def)

lemma is_digit_iff: "is_digit c \<longleftrightarrow> 48 \<le> code_of c \<and> code_of c \<le> 57"
  by (simp add: is_digit_def in_range_def)

lemma is_digit_digit_char [simp]: "d < 10 \<Longrightarrow> is_digit (digit_char d)"
  by (simp add: is_digit_iff)

lemma show_nat_digits: "\<forall>c \<in> set (show_nat n). is_digit c"
proof (induction n rule: show_nat.induct)
  case (1 n)
  then show ?case by (cases "n < 10") (auto simp: show_nat.simps [of n])
qed

lemma show_nat_nonempty [simp]: "show_nat n \<noteq> []"
  by (subst show_nat.simps) simp

lemma dec_val_snoc [simp]: "dec_val (ds @ [c]) = dec_val ds * 10 + digit_val c"
  by (simp add: dec_val_def)

lemma dec_val_Nil [simp]: "dec_val [] = 0"
  by (simp add: dec_val_def)

lemma dec_val_show_nat [simp]: "dec_val (show_nat n) = n"
proof (induction n rule: show_nat.induct)
  case (1 n)
  show ?case
  proof (cases "n < 10")
    case True
    then show ?thesis by (simp add: show_nat.simps [of n] dec_val_def)
  next
    case False
    with 1 show ?thesis by (simp add: show_nat.simps [of n])
  qed
qed

lemma is_digit_not_space: "is_digit c \<Longrightarrow> \<not> is_space c"
  by (auto simp: is_digit_iff is_space_def in_range_def code_of_def)

lemma is_digit_not_sign: "is_digit c \<Longrightarrow> c \<noteq> CHR ''-'' \<and> c \<noteq> CHR ''+''"
  by (auto simp: is_digit_iff code_of_def)

lemma show_nat_hd: "is_digit (hd (show_nat n))"
  using show_nat_digits [of n] by (cases "show_nat n") auto

text \<open>Reading back what \<open>std::to_string\<close> wrote, followed by anything but a digit.\<close>

lemma strtoull_digits:
  assumes "\<forall>c \<in> set ds. is_digit c" "ds \<noteq> []" "r = [] \<or> \<not> is_digit (hd r)"
  shows "strtoull (ds @ r) =
    Some (if 2 ^ 64 \<le> dec_val ds then - 1 else of_nat (dec_val ds), 2 ^ 64 \<le> dec_val ds, length ds)"
proof -
  obtain d ds' where ds: "ds = d # ds'" using assms(2) by (cases ds) auto
  have d: "is_digit d" using assms(1) ds by simp
  have "takeWhile is_digit (ds @ r) = ds"
    using assms(1,3) by (cases r) (auto simp: takeWhile_append)
  moreover have "dropWhile is_space (ds @ r) = ds @ r"
    using is_digit_not_space [OF d] ds by simp
  ultimately show ?thesis
    using is_digit_not_sign [OF d] ds by (simp add: strtoull_def Let_def)
qed

lemma strtoull_show_nat:
  assumes "n < 2 ^ 64" "r = [] \<or> \<not> is_digit (hd r)"
  shows "strtoull (show_nat n @ r) = Some (of_nat n, False, length (show_nat n))"
  using strtoull_digits [OF show_nat_digits show_nat_nonempty assms(2)] assms(1) by simp

lemma stoul_show_nat [simp]: "n < 2 ^ 64 \<Longrightarrow> stoul (show_nat n) = Some (of_nat n)"
  using strtoull_show_nat [of n "[]"] by (simp add: stoul_def stoul_pos_def)

lemma stoul_show_unat [simp]: "stoul (show_nat (unat (w :: u64))) = Some w"
proof -
  have "unat w < 2 ^ LENGTH(64)" by (rule unsigned_less)
  then show ?thesis by simp
qed

lemma length_show_nat: "n < 10 ^ Suc k \<Longrightarrow> length (show_nat n) \<le> Suc k"
proof (induction k arbitrary: n)
  case 0
  then show ?case by (simp add: show_nat.simps [of n])
next
  case (Suc k)
  then show ?case using Suc.IH [of "n div 10"]
    by (subst show_nat.simps) (auto simp: less_mult_imp_div_less algebra_simps)
qed

lemma length_show_unat: "length (show_nat (unat (w :: u64))) \<le> 20"
proof -
  have "unat w < 2 ^ LENGTH(64)" by (rule unsigned_less)
  then show ?thesis using length_show_nat [of "unat w" 19] by simp
qed

section \<open>Words\<close>

lemma unat_ucast_u32_u64 [simp]: "unat (ucast (w :: u32) :: u64) = unat w"
proof -
  have "unat w < 2 ^ LENGTH(32)" by (rule unsigned_less)
  then show ?thesis by (simp add: unsigned_ucast_eq take_bit_nat_eq_self)
qed

lemma unat_u32_less: "unat (w :: u32) < 4294967296"
proof -
  have "unat w < 2 ^ LENGTH(32)" by (rule unsigned_less)
  then show ?thesis by simp
qed

lemma unat_u64_less: "unat (w :: u64) < 18446744073709551616"
proof -
  have "unat w < 2 ^ LENGTH(64)" by (rule unsigned_less)
  then show ?thesis by simp
qed

lemma unat_byte_less: "unat (w :: byte) < 256"
proof -
  have "unat w < 2 ^ LENGTH(8)" by (rule unsigned_less)
  then show ?thesis by simp
qed

lemma unat_drop_bit: "unat (drop_bit k (w :: 'a::len word)) = unat w div 2 ^ k"
proof -
  have "take_bit LENGTH('a) (unat w) = unat w" by (rule take_bit_nat_eq_self) (rule unsigned_less)
  then show ?thesis by (simp add: unsigned_drop_bit_eq drop_bit_eq_div [of k "_ :: nat"])
qed

lemma unat_ucast: "unat (ucast (w :: 'a::len word) :: 'b::len word) = unat w mod 2 ^ LENGTH('b)"
  by (simp only: unsigned_ucast_eq take_bit_eq_mod)

lemma drop_bit_zero: "unat (w :: 'a::len word) < 2 ^ k \<Longrightarrow> drop_bit k w = 0"
  by (simp add: word_unat_eq_iff unat_drop_bit)

lemma ucast_u32_u64_u32 [simp]: "ucast (ucast (w :: u32) :: u64) = w"
proof -
  have "unat (ucast (ucast w :: u64) :: u32) = unat w"
    by (simp add: unsigned_ucast_eq take_bit_nat_eq_self_iff take_bit_word_eq_self)
  then show ?thesis by (simp add: word_unat_eq_iff)
qed

section \<open>Association lists as containers\<close>

text \<open>
  \<open>f(m[k])\<close>: \<open>operator[]\<close> finds the entry of key \<open>k\<close> or inserts one with the
  default value, and \<open>f\<close> modifies it in place.
\<close>

definition at_or :: "'v \<Rightarrow> 'k \<Rightarrow> ('k \<times> 'v) list \<Rightarrow> 'v" where
  "at_or d k m = (case map_of m k of None \<Rightarrow> d | Some v \<Rightarrow> v)"

definition upd_at :: "'v \<Rightarrow> 'k \<Rightarrow> ('v \<Rightarrow> 'v) \<Rightarrow> ('k \<times> 'v) list \<Rightarrow> ('k \<times> 'v) list" where
  "upd_at d k f m = AList.update k (f (at_or d k m)) m"

definition has_key :: "'k \<Rightarrow> ('k \<times> 'v) list \<Rightarrow> bool" where
  "has_key k m \<longleftrightarrow> map_of m k \<noteq> None"

definition keys_ok :: "('k \<times> 'v) list \<Rightarrow> bool" where
  "keys_ok m \<longleftrightarrow> distinct (map fst m)"

text \<open>\<open>m.erase(k)\<close>, and the erase-while-iterating loop.\<close>

definition erase :: "'k \<Rightarrow> ('k \<times> 'v) list \<Rightarrow> ('k \<times> 'v) list" where
  "erase k m = filter (\<lambda>(j, _). j \<noteq> k) m"

definition erase_if :: "('k \<Rightarrow> 'v \<Rightarrow> bool) \<Rightarrow> ('k \<times> 'v) list \<Rightarrow> ('k \<times> 'v) list" where
  "erase_if P m = filter (\<lambda>(k, v). \<not> P k v) m"

lemma has_key_iff: "has_key k m \<longleftrightarrow> k \<in> fst ` set m"
  by (auto simp: has_key_def map_of_eq_None_iff)

lemma keys_ok_Nil [simp]: "keys_ok []"
  by (simp add: keys_ok_def)

lemma keys_ok_Cons [simp]: "keys_ok ((k, v) # m) \<longleftrightarrow> \<not> has_key k m \<and> keys_ok m"
  by (auto simp: keys_ok_def has_key_iff)

lemma has_key_Nil [simp]: "\<not> has_key k []"
  by (simp add: has_key_def)

lemma has_key_Cons [simp]: "has_key k ((j, v) # m) \<longleftrightarrow> k = j \<or> has_key k m"
  by (auto simp: has_key_def)

lemma keys_ok_update [simp]: "keys_ok m \<Longrightarrow> keys_ok (AList.update k v m)"
  by (simp add: keys_ok_def distinct_update)

lemma keys_ok_upd_at [simp]: "keys_ok m \<Longrightarrow> keys_ok (upd_at d k f m)"
  by (simp add: upd_at_def)

lemma keys_ok_filter [simp]: "keys_ok m \<Longrightarrow> keys_ok (filter P m)"
  by (auto simp: keys_ok_def intro: distinct_map_filter)

lemma keys_ok_erase [simp]: "keys_ok m \<Longrightarrow> keys_ok (erase k m)"
  by (simp add: erase_def)

lemma keys_ok_erase_if [simp]: "keys_ok m \<Longrightarrow> keys_ok (erase_if P m)"
  by (simp add: erase_if_def)

lemma map_of_upd_at [alist_simps]: "map_of (upd_at d k f m) = (map_of m) (k \<mapsto> f (at_or d k m))"
  by (simp add: upd_at_def update_conv')

lemma map_of_filter_key [alist_simps]:
  "map_of (filter (\<lambda>(j, _). Q j) m) k = (if Q k then map_of m k else None)"
  by (induction m) auto

lemma map_of_erase [alist_simps]: "map_of (erase k m) = (map_of m) (k := None)"
  by (rule ext) (simp add: erase_def map_of_filter_key)

lemma map_of_erase_if [alist_simps]:
  assumes "keys_ok m"
  shows "map_of (erase_if P m) k =
    (case map_of m k of None \<Rightarrow> None | Some v \<Rightarrow> if P k v then None else Some v)"
  using assms
  by (induction m) (auto simp: erase_if_def has_key_def split: option.splits)

lemma length_update:
  "length (AList.update k v m) = (if has_key k m then length m else Suc (length m))"
  by (induction m) auto

lemma length_upd_at: "length (upd_at d k f m) = (if has_key k m then length m else Suc (length m))"
  by (simp add: upd_at_def length_update)

lemma has_key_upd_at [simp]: "has_key j (upd_at d k f m) \<longleftrightarrow> j = k \<or> has_key j m"
  by (simp add: has_key_def map_of_upd_at)

lemma length_erase_le: "length (erase k m) \<le> length m"
  by (simp add: erase_def)

lemma length_erase:
  "keys_ok m \<Longrightarrow> has_key k m \<Longrightarrow> Suc (length (erase k m)) = length m"
proof (induction m)
  case (Cons p m)
  obtain j v where p: "p = (j, v)" by (cases p)
  have "j = k \<Longrightarrow> erase k m = m"
    using Cons.prems p unfolding erase_def
    by (intro filter_True) (force simp: has_key_iff)
  with Cons p show ?case by (auto simp: erase_def)
qed simp

lemma at_or_upd_at [simp]:
  "at_or d j (upd_at d k f m) = (if j = k then f (at_or d k m) else at_or d j m)"
  by (simp add: at_or_def map_of_upd_at)

lemma at_or_Nil [simp]: "at_or d k [] = d"
  by (simp add: at_or_def)

lemma at_or_not_key: "\<not> has_key k m \<Longrightarrow> at_or d k m = d"
  by (simp add: at_or_def has_key_def)

lemma at_or_erase [simp]: "at_or d j (erase k m) = (if j = k then d else at_or d j m)"
  by (simp add: at_or_def map_of_erase)

lemma at_or_erase_key [simp]:
  "at_or d k (erase_if (\<lambda>j _. Q j) m) = (if Q k then d else at_or d k m)"
  by (simp add: at_or_def erase_if_def map_of_filter_key [where Q = "\<lambda>j. \<not> Q j"])

text \<open>Sums over the entries of an association list.\<close>

definition sum_al :: "('v \<Rightarrow> nat) \<Rightarrow> ('k \<times> 'v) list \<Rightarrow> nat" where
  "sum_al g m = sum_list (map (g \<circ> snd) m)"

lemma sum_al_Nil [simp]: "sum_al g [] = 0"
  by (simp add: sum_al_def)

lemma sum_al_Cons [simp]: "sum_al g ((k, v) # m) = g v + sum_al g m"
  by (simp add: sum_al_def)

lemma sum_al_upd_at:
  assumes "keys_ok m" "g d = 0"
  shows "sum_al g (upd_at d k f m) + g (at_or d k m) = sum_al g m + g (f (at_or d k m))"
proof -
  have "sum_al g (AList.update k w m) + g (at_or d k m) = sum_al g m + g w" for w
    using assms by (induction m) (auto simp: at_or_def has_key_def)
  then show ?thesis by (simp add: upd_at_def)
qed

lemma sum_al_erase_le: "sum_al g (erase k m) \<le> sum_al g m"
  by (induction m) (auto simp: erase_def)

lemma at_or_le_sum_al: "g d = 0 \<Longrightarrow> g (at_or d k m) \<le> sum_al g m"
  by (induction m) (auto simp: at_or_def split: if_splits option.splits intro: trans_le_add2)

lemma member_le_sum_al: "(k, v) \<in> set m \<Longrightarrow> g v \<le> sum_al g m"
  by (force simp: sum_al_def intro: member_le_sum_list)

lemma map_of_le_sum_al: "map_of m k = Some v \<Longrightarrow> g v \<le> sum_al g m"
  by (rule member_le_sum_al [OF map_of_SomeD])

section \<open>Interfaces: encoders and decoders\<close>

text \<open>
  The contract between the two ends of a connection: what one side writes the other side reads
  back.  \<open>codec\<close> is the contract of a self-contained message; \<open>stream_codec\<close> that of a
  message whose end the reader finds itself, so that messages can follow each other.
\<close>

locale codec =
  fixes valid :: "'a \<Rightarrow> bool" and enc :: "'a \<Rightarrow> 'b" and dec :: "'b \<Rightarrow> 'a option"
  assumes dec_enc: "valid x \<Longrightarrow> dec (enc x) = Some x"
begin

lemma enc_inj: "valid x \<Longrightarrow> valid y \<Longrightarrow> enc x = enc y \<Longrightarrow> x = y"
  by (metis dec_enc option.inject)

lemma inj_on_enc: "inj_on enc (Collect valid)"
  by (rule inj_onI) (simp add: enc_inj)

end

locale stream_codec =
  fixes valid :: "'a \<Rightarrow> bool" and enc :: "'a \<Rightarrow> 'b list" and dec :: "'b list \<Rightarrow> ('a \<times> 'b list) option"
  assumes dec_enc_append: "valid x \<Longrightarrow> dec (enc x @ r) = Some (x, r)"
begin

lemma enc_prefix_free:
  assumes "valid x" "valid y" "enc x @ r = enc y @ t"
  shows "x = y \<and> r = t"
proof -
  have "Some (x, r) = Some (y, t)"
    unfolding dec_enc_append [OF assms(1), of r, symmetric] dec_enc_append [OF assms(2), of t, symmetric]
    by (rule arg_cong [OF assms(3)])
  then show ?thesis by simp
qed

lemma enc_concat_inj:
  assumes "\<forall>x \<in> set xs. valid x" "\<forall>y \<in> set ys. valid y" "length xs = length ys"
    "concat (map enc xs) @ r = concat (map enc ys) @ t"
  shows "xs = ys \<and> r = t"
  using assms(3,1,2,4)
proof (induction xs ys rule: list_induct2)
  case (Cons x xs y ys)
  have "x = y \<and> concat (map enc xs) @ r = concat (map enc ys) @ t"
    using Cons.prems by (intro enc_prefix_free) simp_all
  with Cons show ?case by simp
qed simp

end

sublocale stream_codec \<subseteq> whole: codec valid enc "\<lambda>b. map_option fst (dec b)"
  using dec_enc_append [where r = "[]"] by unfold_locales simp

text \<open>
  The contract of a byte stream: \<open>holds s q\<close> says that the bytes \<open>q\<close> are still to come on
  \<open>s\<close>, and reading \<open>n\<close> of them yields exactly the next \<open>n\<close>, however the layers below cut the
  stream into frames, records or buffers.
\<close>

locale byte_stream =
  fixes holds :: "'s \<Rightarrow> bytes \<Rightarrow> bool" and readN :: "nat \<Rightarrow> 's \<Rightarrow> bytes option \<times> 's"
  assumes readN_ok: "holds s q \<Longrightarrow> n \<le> length q \<Longrightarrow>
    \<exists>s'. readN n s = (Some (take n q), s') \<and> holds s' (drop n q)"
begin

fun read_all :: "nat list \<Rightarrow> 's \<Rightarrow> bytes option \<times> 's" where
  "read_all [] s = (Some [], s)"
| "read_all (n # ns) s =
     (case readN n s of (None, s') \<Rightarrow> (None, s')
      | (Some x, s') \<Rightarrow> (case read_all ns s' of (y, s'') \<Rightarrow> (map_option (\<lambda>y. x @ y) y, s'')))"

lemma read_all_ok:
  "holds s q \<Longrightarrow> sum_list ns \<le> length q \<Longrightarrow>
    \<exists>s'. read_all ns s = (Some (take (sum_list ns) q), s') \<and> holds s' (drop (sum_list ns) q)"
proof (induction ns arbitrary: s q)
  case (Cons n ns)
  obtain s1 where s1: "readN n s = (Some (take n q), s1)" "holds s1 (drop n q)"
    using readN_ok [OF Cons.prems(1), of n] Cons.prems(2) by auto
  have "sum_list ns \<le> length (drop n q)" using Cons.prems(2) by simp
  from Cons.IH [OF s1(2) this]
  obtain s2 where "read_all ns s1 = (Some (take (sum_list ns) (drop n q)), s2)"
    "holds s2 (drop (sum_list ns) (drop n q))" by auto
  with s1 show ?case by (simp add: take_add add.commute)
qed simp

lemma read_append:
  assumes "holds s (x @ q)"
  shows "\<exists>s'. readN (length x) s = (Some x, s') \<and> holds s' q"
  using readN_ok [OF assms, of "length x"] by simp

end

end
