(* ===== verification/Codecs.thy ===== *)
theory Codecs
  imports Prelude
begin

text \<open>
  Text encodings of binary data: the hexadecimal encoder and decoder and the base64 decoder of
  \<open>server_upgrade.hpp\<close>.  The server also uses the hexadecimal encoder to turn a public key into
  a client id (\<open>server_core.cpp\<close>).
\<close>

section \<open>Hexadecimal\<close>

definition kHex :: string where
  "kHex = ''0123456789abcdef''"

definition hexEncode :: "bytes \<Rightarrow> string" where
  "hexEncode data = concat (map (\<lambda>b. [kHex ! unat (drop_bit 4 b AND 0xF), kHex ! unat (b AND 0xF)]) data)"

definition nibble :: "char \<Rightarrow> int" where
  "nibble c =
     (if in_range CHR ''0'' CHR ''9'' c then int (code_of c) - int (code_of CHR ''0'')
      else if in_range CHR ''a'' CHR ''f'' c then int (code_of c) - int (code_of CHR ''a'') + 10
      else if in_range CHR ''A'' CHR ''F'' c then int (code_of c) - int (code_of CHR ''A'') + 10
      else -1)"

fun hexLoop :: "string \<Rightarrow> bytes option" where
  "hexLoop [] = Some []"
| "hexLoop [c] = Some []"
| "hexLoop (h # l # r) =
     (let hi = nibble h; lo = nibble l in
      if hi < 0 \<or> lo < 0 then None
      else map_option (\<lambda>bs. (push_bit 4 (of_int hi) OR of_int lo) # bs) (hexLoop r))"

text \<open>An error gives the empty vector.\<close>

definition hexDecode :: "string \<Rightarrow> bytes" where
  "hexDecode hex =
     (if length hex mod 2 \<noteq> 0 then []
      else case hexLoop hex of None \<Rightarrow> [] | Some out \<Rightarrow> out)"

section \<open>Base64\<close>

text \<open>\<open>kTable\<close>: the value of a base64 digit, \<open>-2\<close> for padding and \<open>-1\<close> for any other byte.\<close>

definition kTable :: "char \<Rightarrow> int" where
  "kTable c =
     (if in_range CHR ''A'' CHR ''Z'' c then int (code_of c) - 65
      else if in_range CHR ''a'' CHR ''z'' c then int (code_of c) - 97 + 26
      else if in_range CHR ''0'' CHR ''9'' c then int (code_of c) - 48 + 52
      else if c = CHR ''+'' then 62
      else if c = CHR ''/'' then 63
      else if c = CHR ''='' then -2
      else -1)"

text \<open>The bit buffer is an \<open>int\<close>; its left shift is taken modulo \<open>2 ^ 32\<close>.\<close>

fun base64Loop :: "u32 \<Rightarrow> nat \<Rightarrow> string \<Rightarrow> bytes option" where
  "base64Loop buf bits [] = Some []"
| "base64Loop buf bits (c # enc) =
     (let v = kTable c in
      if v = -2 then Some []
      else if v = -1 then None
      else let buf' = push_bit 6 buf OR of_int v; bits' = bits + 6 in
           if bits' \<ge> 8
           then map_option (\<lambda>out. ucast (drop_bit (bits' - 8) buf' AND 0xFF) # out)
                  (base64Loop buf' (bits' - 8) enc)
           else base64Loop buf' bits' enc)"

definition base64Decode :: "string \<Rightarrow> bytes" where
  "base64Decode enc = (case base64Loop 0 0 enc of None \<Rightarrow> [] | Some out \<Rightarrow> out)"

text \<open>Standard base64 of RFC 4648, as the peers encode.\<close>

definition b64digit :: "u32 \<Rightarrow> char" where
  "b64digit v = ''ABCDEFGHIJKLMNOPQRSTUVWXYZabcdefghijklmnopqrstuvwxyz0123456789+/'' ! unat (v AND 63)"

definition b64word :: "byte \<Rightarrow> byte \<Rightarrow> byte \<Rightarrow> u32" where
  "b64word a b c = push_bit 16 (ucast a) OR push_bit 8 (ucast b) OR ucast c"

fun base64 :: "bytes \<Rightarrow> string" where
  "base64 [] = []"
| "base64 [a] = (let w = b64word a 0 0 in [b64digit (drop_bit 18 w), b64digit (drop_bit 12 w), CHR ''='', CHR ''=''])"
| "base64 [a, b] = (let w = b64word a b 0 in
     [b64digit (drop_bit 18 w), b64digit (drop_bit 12 w), b64digit (drop_bit 6 w), CHR ''=''])"
| "base64 (a # b # c # r) = (let w = b64word a b c in
     b64digit (drop_bit 18 w) # b64digit (drop_bit 12 w) # b64digit (drop_bit 6 w) # b64digit w # base64 r)"

section \<open>Lemmas\<close>

lemma nibble_kHex: "n < 16 \<Longrightarrow> nibble (kHex ! n) = int n"
proof -
  have "list_all (\<lambda>n. nibble (kHex ! n) = int n) [0..<16]" by code_simp
  then show "n < 16 \<Longrightarrow> ?thesis" by (simp add: list_all_iff)
qed

lemma unat_nibbles [simp]: "unat (drop_bit 4 (b :: byte) AND 0xF) < 16" "unat ((b :: byte) AND 0xF) < 16"
proof -
  have "x AND 0xF \<le> (0xF :: byte)" for x by (rule word_and_le1)
  then show "unat (drop_bit 4 b AND 0xF) < 16" "unat (b AND 0xF) < 16"
    by (simp_all add: word_le_nat_alt le_less_trans [where y = 15])
qed

lemma join_nibbles: "push_bit 4 (drop_bit 4 b AND 0xF) OR (b AND 0xF) = (b :: byte)"
proof -
  have m: "(0xF :: byte) = mask 4" by (simp add: mask_eq_exp_minus_1)
  show ?thesis unfolding m by (rule bit_word_eqI) (auto simp: bit_simps)
qed

lemma hexLoop_hexEncode: "hexLoop (hexEncode bs) = Some bs"
proof (induction bs)
  case (Cons b bs)
  with join_nibbles [of b] show ?case by (simp add: hexEncode_def nibble_kHex)
qed (simp add: hexEncode_def)

lemma length_hexEncode [simp]: "length (hexEncode bs) = 2 * length bs"
  by (induction bs) (simp_all add: hexEncode_def)

lemma hexEncode_Nil_iff [simp]: "hexEncode bs = [] \<longleftrightarrow> bs = []"
  by (cases bs) (simp_all add: hexEncode_def)

lemma kHex_set: "n < 16 \<Longrightarrow> kHex ! n \<in> set kHex"
proof -
  have "length kHex = 16" by (simp add: kHex_def)
  then show "n < 16 \<Longrightarrow> ?thesis" by (simp add: nth_mem)
qed

lemma set_hexEncode: "set (hexEncode bs) \<subseteq> set kHex"
  by (induction bs) (auto simp: hexEncode_def kHex_set)

lemma hexDecode_hexEncode [simp]: "hexDecode (hexEncode bs) = bs"
  by (simp add: hexDecode_def hexLoop_hexEncode)

interpretation hex: codec "\<lambda>_. True" hexEncode "\<lambda>s. Some (hexDecode s)"
  by unfold_locales simp

lemma hexLoop_length: "hexLoop s = Some bs \<Longrightarrow> even (length s) \<Longrightarrow> length s = 2 * length bs"
  by (induction s arbitrary: bs rule: hexLoop.induct) (auto simp: Let_def split: if_splits)

lemma kTable_alphabet:
  "list_all2 (\<lambda>c n. kTable c = int n) ''ABCDEFGHIJKLMNOPQRSTUVWXYZabcdefghijklmnopqrstuvwxyz0123456789+/'' [0..<64]"
  by (simp add: upt_conv_Cons kTable_def in_range_def code_of_def)

lemma kTable_b64digit: "kTable (b64digit v) = int (unat (v AND 63))"
proof -
  have "v AND 63 \<le> 63" by (rule word_and_le1)
  then have "unat (v AND 63) < 64" by (simp add: word_le_nat_alt)
  with list_all2_nthD2 [OF kTable_alphabet, of "unat (v AND 63)"] show ?thesis
    by (simp add: b64digit_def del: of_nat_unat)
qed

lemma base64Loop_digit:
  "base64Loop buf bits (b64digit v # enc) =
     (let buf' = push_bit 6 buf OR (v AND 63); bits' = bits + 6 in
      if bits' \<ge> 8
      then map_option (\<lambda>out. ucast (drop_bit (bits' - 8) buf' AND 0xFF) # out)
             (base64Loop buf' (bits' - 8) enc)
      else base64Loop buf' bits' enc)"
proof -
  have "kTable (b64digit v) \<noteq> -1" "kTable (b64digit v) \<noteq> -2" "of_int (kTable (b64digit v)) = v AND 63"
    by (simp_all only: kTable_b64digit) simp_all
  then show ?thesis by (simp add: Let_def)
qed

lemma base64Loop_pad: "base64Loop buf bits (CHR ''='' # enc) = Some []"
  by (simp add: kTable_def in_range_def code_of_def)

declare base64Loop.simps(2) [simp del]

lemma bit_byte_high: "8 \<le> k \<Longrightarrow> \<not> bit (a :: byte) k"
  using bit_imp_le_length [of a k] by auto

lemma byte_eqI:
  fixes x y :: byte
  assumes "bit x 0 = bit y 0" "bit x 1 = bit y 1" "bit x 2 = bit y 2" "bit x 3 = bit y 3"
    "bit x 4 = bit y 4" "bit x 5 = bit y 5" "bit x 6 = bit y 6" "bit x 7 = bit y 7"
  shows "x = y"
proof (rule bit_word_eqI)
  fix n
  assume "n < LENGTH(8)"
  then have "n \<in> {0, 1, 2, 3, 4, 5, 6, 7}" by auto
  with assms show "bit x n = bit y n" by auto
qed

lemma b64_masks: "(63 :: u32) = mask 6" "(0xFF :: u32) = mask 8"
  by (simp_all add: mask_eq_exp_minus_1)

lemma b64_bytes:
  fixes buf :: u32 and a b c :: byte
  defines "b1 \<equiv> push_bit 6 buf OR (drop_bit 18 (b64word a b c) AND 63)"
  defines "b2 \<equiv> push_bit 6 b1 OR (drop_bit 12 (b64word a b c) AND 63)"
  defines "b3 \<equiv> push_bit 6 b2 OR (drop_bit 6 (b64word a b c) AND 63)"
  defines "b4 \<equiv> push_bit 6 b3 OR (b64word a b c AND 63)"
  shows "ucast (drop_bit 4 b2 AND 0xFF) = a" "ucast (drop_bit 2 b3 AND 0xFF) = b" "ucast (b4 AND 0xFF) = c"
  unfolding b1_def b2_def b3_def b4_def b64_masks b64word_def
  by (rule byte_eqI; simp add: bit_simps bit_byte_high)+

lemma base64Loop_base64: "base64Loop buf 0 (base64 bs) = Some bs"
proof (induction bs arbitrary: buf rule: base64.induct)
  case (4 a b c r)
  then show ?case using b64_bytes [of buf a b c] by (simp add: base64Loop_digit Let_def)
next
  case (2 a)
  show ?case using b64_bytes(1) [of buf a 0 0] by (simp add: base64Loop_digit Let_def base64Loop_pad)
next
  case (3 a b)
  show ?case using b64_bytes(1,2) [of buf a b 0]
    by (simp add: base64Loop_digit Let_def base64Loop_pad)
qed simp

interpretation b64: codec "\<lambda>_. True" base64 "\<lambda>s. Some (base64Decode s)"
  by unfold_locales (simp add: base64Decode_def base64Loop_base64)

end
