(* ===== verification/Wire.thy ===== *)
theory Wire
  imports Prelude
begin

text \<open>
  The data-ingestion protocol of \<open>proto_client_server.hpp\<close>: the protocol constants, the choice
  of the ALPN protocol that multiplexes data clients and browsers on one port, the D-line parser
  of the server, and the D-line that the client's sender (\<open>client_impl.cpp\<close>) writes.
\<close>

section \<open>Constants\<close>

definition kAlpnNtmWire :: string where "kAlpnNtmWire = ''ntm-wire''"
definition kAlpnHttp11 :: string where "kAlpnHttp11 = ''http/1.1''"
definition kMaxIfaceLabelLen :: nat where "kMaxIfaceLabelLen = 64"
definition kMaxIpLabelLen :: nat where "kMaxIpLabelLen = 50"
definition kMaxAnnounceAddressesPerSession :: nat where "kMaxAnnounceAddressesPerSession = 64"
definition kAnnounceRateLimitSec :: int where "kAnnounceRateLimitSec = 30"
definition kHealthIntervalSec :: int where "kHealthIntervalSec = 30"
definition kMaxSessionSeconds :: int where "kMaxSessionSeconds = 6 * 3600"
definition kCtrlReqIdMaxLen :: nat where "kCtrlReqIdMaxLen = 32"
definition kDataLinePrefix :: string where "kDataLinePrefix = ''D ''"
definition kHealthLinePrefix :: string where "kHealthLinePrefix = ''H ''"
definition kExtIPLinePrefix :: string where "kExtIPLinePrefix = ''X ''"
definition kAddrLinePrefix :: string where "kAddrLinePrefix = ''A ''"
definition kCtrlLinePrefix :: string where "kCtrlLinePrefix = ''C ''"
definition kLogRespLinePrefix :: string where "kLogRespLinePrefix = ''L ''"
definition kExtIPNull :: string where "kExtIPNull = ''null''"

lemmas wire_prefix_defs = kDataLinePrefix_def kHealthLinePrefix_def kExtIPLinePrefix_def
  kAddrLinePrefix_def kCtrlLinePrefix_def kLogRespLinePrefix_def

section \<open>ALPN selection\<close>

definition str_bytes :: "string \<Rightarrow> bytes" where
  "str_bytes s = map (\<lambda>c. word_of_nat (code_of c)) s"

definition bytes_str :: "bytes \<Rightarrow> string" where
  "bytes_str bs = map (\<lambda>b. char_of (unat b)) bs"

text \<open>One pass of \<open>selectAlpnFromClientList\<close>: \<open>p\<close> walks the length-prefixed offers, and a
  length that points past the end stops the pass.\<close>

function alpn_offered :: "string \<Rightarrow> bytes \<Rightarrow> bool" where
  "alpn_offered proto [] = False"
| "alpn_offered proto (len # p) =
     (if length p < unat len then False
      else if len = 8 \<and> take 8 p = str_bytes proto then True
      else alpn_offered proto (drop (unat len) p))"
  by pat_completeness auto
termination by (relation "measure (length \<circ> snd)") auto

definition selectAlpnFromClientList :: "bytes \<Rightarrow> string" where
  "selectAlpnFromClientList inp =
     (if alpn_offered kAlpnNtmWire inp then kAlpnNtmWire
      else if alpn_offered kAlpnHttp11 inp then kAlpnHttp11
      else kAlpnHttp11)"

text \<open>The wire format of an offer list (what a TLS client sends).\<close>

definition alpn_entry :: "string \<Rightarrow> bytes" where
  "alpn_entry name = word_of_nat (length name) # str_bytes name"

definition alpn_name_ok :: "string \<Rightarrow> bool" where
  "alpn_name_ok name \<longleftrightarrow> length name < 256"

section \<open>D-lines\<close>

record PacketMeta =
  pm_iface :: string
  pm_srcIp :: string
  pm_dstIp :: string
  pm_bytes :: u32

definition isSep :: "char \<Rightarrow> bool" where
  "isSep c \<longleftrightarrow> c = SP \<or> c = TAB \<or> c = CR \<or> c = LF"

text \<open>\<open>nextTok\<close> on the rest of the line: the token, and the rest of the line from its first
  character on and from its end on.\<close>

definition nextTok :: "string \<Rightarrow> (string \<times> string \<times> string) option" where
  "nextTok p =
     (let b = dropWhile isSep p in
      if b = [] then None
      else Some (takeWhile (\<lambda>c. \<not> isSep c) b, b, dropWhile (\<lambda>c. \<not> isSep c) b))"

definition parseDataLine :: "string \<Rightarrow> nat \<Rightarrow> nat \<Rightarrow> PacketMeta option" where
  "parseDataLine line maxIface maxIp =
     (if line = [] then None else
      case nextTok line of None \<Rightarrow> None | Some (iface, _, r1) \<Rightarrow>
      (case nextTok r1 of None \<Rightarrow> None | Some (src, _, r2) \<Rightarrow>
      (case nextTok r2 of None \<Rightarrow> None | Some (dst, _, r3) \<Rightarrow>
      (case nextTok r3 of None \<Rightarrow> None | Some (_, bb, _) \<Rightarrow>
       (let maxIfaceLen = (if maxIface = 0 then kMaxIfaceLabelLen else maxIface);
            maxIpLen = (if maxIp = 0 then kMaxIpLabelLen else maxIp) in
        if length iface > maxIfaceLen \<or> length src > maxIpLen \<or> length dst > maxIpLen then None
        else (case strtoull bb of
                None \<Rightarrow> None
              | Some (val, _, _) \<Rightarrow>
                  if val > 0xFFFFFFFF then None
                  else Some \<lparr> pm_iface = iface, pm_srcIp = src, pm_dstIp = dst,
                              pm_bytes = ucast val \<rparr>))))))"

text \<open>The sender's \<open>snprintf(buf, 256, "D %.64s %.46s %.46s %llu\\n", ...)\<close>; a line that does
  not fit the buffer is not appended to the flush buffer.  \<open>c_str()\<close> ends at a NUL.\<close>

definition c_str :: "string \<Rightarrow> string" where
  "c_str s = takeWhile (\<lambda>c. c \<noteq> CHR 0x00) s"

definition dataLineBody :: "string \<Rightarrow> string \<Rightarrow> string \<Rightarrow> u64 \<Rightarrow> string" where
  "dataLineBody iface src dst n =
     take 64 (c_str iface) @ SP # take 46 (c_str src) @ SP # take 46 (c_str dst) @ SP #
     show_nat (unat n)"

definition encodeDataLine :: "string \<Rightarrow> string \<Rightarrow> string \<Rightarrow> u64 \<Rightarrow> string" where
  "encodeDataLine iface src dst n =
     (let buf = kDataLinePrefix @ dataLineBody iface src dst n @ [LF] in
      if length buf < 256 then buf else [])"

definition label_ok :: "nat \<Rightarrow> string \<Rightarrow> bool" where
  "label_ok n s \<longleftrightarrow> s \<noteq> [] \<and> length s \<le> n \<and> (\<forall>c \<in> set s. \<not> isSep c \<and> c \<noteq> CHR 0x00)"

definition packet_ok :: "PacketMeta \<Rightarrow> bool" where
  "packet_ok pm \<longleftrightarrow> label_ok 64 (pm_iface pm) \<and> label_ok 46 (pm_srcIp pm) \<and> label_ok 46 (pm_dstIp pm)"

definition packet_body :: "PacketMeta \<Rightarrow> string" where
  "packet_body pm = dataLineBody (pm_iface pm) (pm_srcIp pm) (pm_dstIp pm) (ucast (pm_bytes pm))"

section \<open>Lemmas: ALPN\<close>

lemma length_str_bytes [simp]: "length (str_bytes s) = length s"
  by (simp add: str_bytes_def)

lemma code_of_lt_256 [simp]: "code_of c < 256"
  by (simp add: code_of_def)

lemma code_of_inj [simp]: "code_of c = code_of d \<longleftrightarrow> c = d"
  by (simp add: code_of_def)

lemma unat_byte_length [simp]: "n < 256 \<Longrightarrow> unat (word_of_nat n :: byte) = n"
  by (simp add: unat_of_nat)

lemma word_of_code_inj [simp]:
  "(word_of_nat (code_of c) :: byte) = word_of_nat (code_of d) \<longleftrightarrow> c = d"
  by (metis code_of_inj code_of_lt_256 unat_byte_length)

lemma str_bytes_inj [simp]: "str_bytes s = str_bytes t \<longleftrightarrow> s = t"
  unfolding str_bytes_def by (intro inj_map_eq_map injI) simp

lemma bytes_str_str_bytes [simp]: "bytes_str (str_bytes s) = s"
  by (induction s) (simp_all add: bytes_str_def str_bytes_def code_of_def unsigned_of_nat take_bit_nat_eq_self)

lemma alpn_offered_entry:
  assumes "alpn_name_ok n" "length proto = 8"
  shows "alpn_offered proto (alpn_entry n @ r) \<longleftrightarrow> n = proto \<or> alpn_offered proto r"
proof -
  have "(word_of_nat (length n) :: byte) = 8 \<longleftrightarrow> length n = 8"
    using assms(1) by (metis alpn_name_ok_def of_nat_numeral unat_byte_length
        numeral_less_iff semiring_norm(76) semiring_norm(78) unat_numeral)
  with assms show ?thesis
    by (auto simp: alpn_entry_def alpn_name_ok_def)
qed

lemma alpn_offered_entries:
  assumes "\<forall>n \<in> set names. alpn_name_ok n" "length proto = 8"
  shows "alpn_offered proto (concat (map alpn_entry names)) \<longleftrightarrow> proto \<in> set names"
  using assms by (induction names) (auto simp: alpn_offered_entry)

section \<open>Lemmas: D-lines\<close>

lemma isSep_SP [simp]: "isSep SP"
  by (simp add: isSep_def)

lemma label_okD:
  assumes "label_ok n s"
  shows "s \<noteq> []" "length s \<le> n" "\<forall>c \<in> set s. \<not> isSep c" "take n (c_str s) = s"
  using assms by (auto simp: label_ok_def c_str_def takeWhile_eq_all_conv [THEN iffD2])

lemma nextTok_label:
  assumes "s \<noteq> []" "\<forall>c \<in> set s. \<not> isSep c" "r = [] \<or> isSep (hd r)"
  shows "nextTok (s @ r) = Some (s, s @ r, r)"
proof -
  have "dropWhile isSep (s @ r) = s @ r" using assms(1,2) by (cases s) auto
  moreover have "takeWhile (\<lambda>c. \<not> isSep c) (s @ r) = s \<and> dropWhile (\<lambda>c. \<not> isSep c) (s @ r) = r"
    using assms(2,3) by (cases r) (auto simp: takeWhile_append dropWhile_append)
  ultimately show ?thesis using assms(1) by (simp add: nextTok_def)
qed

lemma nextTok_skip [simp]: "isSep c \<Longrightarrow> nextTok (c # r) = nextTok r"
  by (simp add: nextTok_def)

lemma is_digit_not_sep: "is_digit c \<Longrightarrow> \<not> isSep c"
  by (auto simp: is_digit_iff isSep_def code_of_def)

lemma parseDataLine_body:
  assumes "label_ok 64 iface" "label_ok 46 src" "label_ok 46 dst"
  shows "parseDataLine (dataLineBody iface src dst n) 0 0 =
    (if n > 0xFFFFFFFF then None
     else Some \<lparr> pm_iface = iface, pm_srcIp = src, pm_dstIp = dst, pm_bytes = ucast n \<rparr>)"
proof -
  let ?num = "show_nat (unat n)"
  have num: "nextTok ?num = Some (?num, ?num, [])"
    using nextTok_label [of ?num "[]"] show_nat_digits is_digit_not_sep by auto
  have "unat n < 2 ^ LENGTH(64)" by (rule unsigned_less)
  then have "strtoull ?num = Some (n, False, length ?num)"
    using strtoull_show_nat [of "unat n" "[]"] by simp
  moreover note label_okD [OF assms(1)] label_okD [OF assms(2)] label_okD [OF assms(3)]
  ultimately show ?thesis
    by (simp add: parseDataLine_def dataLineBody_def nextTok_label num kMaxIfaceLabelLen_def
        kMaxIpLabelLen_def)
qed

interpretation dline: codec packet_ok packet_body "\<lambda>b. parseDataLine b 0 0"
proof
  fix pm :: PacketMeta
  assume "packet_ok pm"
  moreover have "\<not> (ucast (pm_bytes pm) :: u64) > 0xFFFFFFFF"
    using unat_u32_less [of "pm_bytes pm"] by (simp add: word_less_nat_alt)
  ultimately show "parseDataLine (packet_body pm) 0 0 = Some pm"
    by (simp add: packet_ok_def packet_body_def parseDataLine_body)
qed

lemma nextTok_SomeD:
  assumes "nextTok p = Some (t, b, r)"
  shows "t \<noteq> [] \<and> (\<forall>c \<in> set t. \<not> isSep c)"
  using assms hd_dropWhile [of isSep p]
  by (auto simp: nextTok_def Let_def takeWhile_eq_Nil_iff dest: set_takeWhileD split: if_splits)

lemma encodeDataLine_fits:
  "encodeDataLine iface src dst n = kDataLinePrefix @ dataLineBody iface src dst n @ [LF]"
  using length_show_unat [of n] by (simp add: encodeDataLine_def dataLineBody_def kDataLinePrefix_def)

section \<open>Properties\<close>

text \<open>
  The server picks the data protocol exactly for the clients whose TLS offer contains it:
  on every well-formed ALPN offer list \<open>selectAlpnFromClientList\<close> answers \<open>ntm-wire\<close> if it is
  among the offered names, at any position, and \<open>http/1.1\<close> otherwise.
\<close>

lemma selectAlpn_offers:
  assumes "\<forall>n \<in> set names. alpn_name_ok n"
  shows "selectAlpnFromClientList (concat (map alpn_entry names)) =
    (if kAlpnNtmWire \<in> set names then kAlpnNtmWire else kAlpnHttp11)"
  using alpn_offered_entries [OF assms, of kAlpnNtmWire]
  by (simp add: selectAlpnFromClientList_def kAlpnNtmWire_def)

lemma selectAlpn_offers_witness:
  "selectAlpnFromClientList (concat (map alpn_entry [''h2'', ''http/1.1'', ''ntm-wire''])) = ''ntm-wire''"
  using selectAlpn_offers [of "[''h2'', ''http/1.1'', ''ntm-wire'']"]
  by (simp add: alpn_name_ok_def kAlpnNtmWire_def)

text \<open>
  C36.  D-line round trip: for every flow whose labels are tokens within the sender's field
  widths, the client's \<open>snprintf\<close> line is complete, and the server's \<open>parseDataLine\<close> reads back
  exactly interface, addresses and byte count, provided the count fits 32 bits; a larger count
  makes the server drop the line (the flow is lost).
\<close>

theorem dataLine_roundtrip:
  assumes "label_ok 64 iface" "label_ok 46 src" "label_ok 46 dst"
  shows "\<exists>body. encodeDataLine iface src dst n = kDataLinePrefix @ body @ [LF] \<and>
    parseDataLine body 0 0 =
      (if n \<le> 0xFFFFFFFF
       then Some \<lparr> pm_iface = iface, pm_srcIp = src, pm_dstIp = dst, pm_bytes = ucast n \<rparr>
       else None)"
  using parseDataLine_body [OF assms, of n] encodeDataLine_fits [of iface src dst n]
  by (auto simp: not_le)

theorem dataLine_roundtrip_witness:
  "\<exists>body. encodeDataLine ''eth0'' ''10.0.0.1'' ''8.8.8.8'' 1500 = kDataLinePrefix @ body @ [LF] \<and>
    parseDataLine body 0 0 = Some \<lparr> pm_iface = ''eth0'', pm_srcIp = ''10.0.0.1'',
      pm_dstIp = ''8.8.8.8'', pm_bytes = 1500 \<rparr>"
  using dataLine_roundtrip [of "''eth0''" "''10.0.0.1''" "''8.8.8.8''" 1500]
  by (simp add: label_ok_def isSep_def)

text \<open>
  Whatever \<open>parseDataLine\<close> accepts respects the limits the rest of the server relies on:
  non-empty labels without separators, an interface of at most 64 and addresses of at most 50
  characters.
\<close>

lemma parseDataLine_bounds:
  assumes "parseDataLine line 0 0 = Some pm"
  shows "pm_iface pm \<noteq> [] \<and> length (pm_iface pm) \<le> kMaxIfaceLabelLen \<and>
    pm_srcIp pm \<noteq> [] \<and> length (pm_srcIp pm) \<le> kMaxIpLabelLen \<and>
    pm_dstIp pm \<noteq> [] \<and> length (pm_dstIp pm) \<le> kMaxIpLabelLen \<and>
    (\<forall>c \<in> set (pm_iface pm @ pm_srcIp pm @ pm_dstIp pm). \<not> isSep c)"
  using assms
  by (auto simp: parseDataLine_def Let_def dest!: nextTok_SomeD split: if_splits option.splits)

lemma parseDataLine_bounds_witness:
  "length (pm_iface \<lparr> pm_iface = ''eth0'', pm_srcIp = ''a'', pm_dstIp = ''b'', pm_bytes = 7 \<rparr>) \<le>
     kMaxIfaceLabelLen" (is "length (pm_iface ?pm) \<le> _")
proof -
  have "parseDataLine (packet_body ?pm) 0 0 = Some ?pm"
    by (rule dline.dec_enc) (simp add: packet_ok_def label_ok_def isSep_def)
  from parseDataLine_bounds [OF this] show ?thesis by simp
qed

end
