(* ===== verification/WebSocket.thy ===== *)
theory WebSocket
  imports Wire
begin

text \<open>
  The WebSocket transport (RFC 6455): frame building, the upgrade handshake and the
  \<open>FrameReader\<close> state machine of \<open>client_websocket.hpp\<close>, the client transport's buffered reads
  (\<open>client_transport_websocket.cpp\<close>) and the server's \<open>WsServerStream\<close> (\<open>server_core.cpp\<close>).

  The TLS connection below is a list of the bytes still to come, with the way it behaves when
  they are used up (a receive timeout or a closed connection) as an argument; SHA-1 with base64
  (OpenSSL) and the random key are parameters.
\<close>

section \<open>Frames\<close>

definition kOpcodeContinuation :: byte where "kOpcodeContinuation = 0x0"
definition kOpcodeBinary :: byte where "kOpcodeBinary = 0x2"
definition kOpcodeClose :: byte where "kOpcodeClose = 0x8"
definition kOpcodePing :: byte where "kOpcodePing = 0x9"
definition kOpcodePong :: byte where "kOpcodePong = 0xA"

lemmas opcode_defs = kOpcodeContinuation_def kOpcodeBinary_def kOpcodeClose_def kOpcodePing_def
  kOpcodePong_def

definition len_byte :: "nat \<Rightarrow> u64 \<Rightarrow> byte" where
  "len_byte i n = ucast (drop_bit (8 * i) n AND 0xFF)"

text \<open>Length field of a frame with the mask bit \<open>m\<close> (\<open>0x80\<close> or \<open>0\<close>).\<close>

definition frame_length :: "byte \<Rightarrow> u64 \<Rightarrow> bytes" where
  "frame_length m n =
     (if n < 126 then [m OR ucast n]
      else if n \<le> 0xFFFF then [m OR 126, len_byte 1 n, len_byte 0 n]
      else (m OR 127) # map (\<lambda>i. len_byte i n) [7, 6, 5, 4, 3, 2, 1, 0])"

definition mask_bytes :: "bytes \<Rightarrow> bytes \<Rightarrow> bytes" where
  "mask_bytes k p = map (\<lambda>i. (p ! i) XOR (k ! (i mod 4))) [0..<length p]"

definition buildClientFrame :: "bytes \<Rightarrow> bytes \<Rightarrow> bytes" where
  "buildClientFrame payload maskKey =
     (0x80 OR kOpcodeBinary) # frame_length 0x80 (of_nat (length payload)) @ maskKey @
     mask_bytes maskKey payload"

text \<open>The bytes that \<open>WsServerStream::writeFrame\<close> hands to \<open>SSL_write\<close>.\<close>

definition writeFrame :: "bytes \<Rightarrow> bytes" where
  "writeFrame payload = 0x82 # frame_length 0 (of_nat (length payload)) @ payload"

section \<open>The client's frame reader\<close>

datatype FrState = Byte0 | Byte1 | ExtLen16_Hi | ExtLen16_Lo | ExtLen64 | Payload

record FrameReader =
  fr_state :: FrState
  fr_opcode :: byte
  fr_fin :: bool
  fr_payloadLen :: u64
  fr_extLenBytesRead :: u64
  fr_payloadBytesRead :: u64
  fr_buf :: bytes
  fr_readPos :: nat

definition FrameReader0 :: FrameReader where
  "FrameReader0 = \<lparr> fr_state = Byte0, fr_opcode = 0, fr_fin = False, fr_payloadLen = 0,
     fr_extLenBytesRead = 0, fr_payloadBytesRead = 0, fr_buf = [], fr_readPos = 0 \<rparr>"

definition afterLength :: "FrameReader \<Rightarrow> FrameReader" where
  "afterLength r = r\<lparr> fr_payloadBytesRead := 0,
     fr_state := (if fr_payloadLen r = 0 then Byte0 else Payload) \<rparr>"

definition processByte :: "FrameReader \<Rightarrow> byte \<Rightarrow> FrameReader" where
  "processByte r b =
     (case fr_state r of
        Byte0 \<Rightarrow> r\<lparr> fr_fin := (b AND 0x80 \<noteq> 0), fr_opcode := b AND 0x0F, fr_state := Byte1 \<rparr>
      | Byte1 \<Rightarrow>
          (let len7 = b AND 0x7F in
           if len7 < 126 then afterLength (r\<lparr> fr_payloadLen := ucast len7 \<rparr>)
           else if len7 = 126
             then r\<lparr> fr_payloadLen := 0, fr_extLenBytesRead := 0, fr_state := ExtLen16_Hi \<rparr>
           else r\<lparr> fr_payloadLen := 0, fr_extLenBytesRead := 0, fr_state := ExtLen64 \<rparr>)
      | ExtLen16_Hi \<Rightarrow> r\<lparr> fr_payloadLen := push_bit 8 (ucast b), fr_state := ExtLen16_Lo \<rparr>
      | ExtLen16_Lo \<Rightarrow> afterLength (r\<lparr> fr_payloadLen := fr_payloadLen r OR ucast b \<rparr>)
      | ExtLen64 \<Rightarrow>
          (let r1 = r\<lparr> fr_payloadLen := push_bit 8 (fr_payloadLen r) OR ucast b,
                       fr_extLenBytesRead := fr_extLenBytesRead r + 1 \<rparr>
           in if fr_extLenBytesRead r1 = 8 then afterLength r1 else r1)
      | Payload \<Rightarrow>
          (let r1 = (if fr_opcode r = kOpcodeBinary \<or> fr_opcode r = kOpcodeContinuation
                     then r\<lparr> fr_buf := fr_buf r @ [b] \<rparr> else r);
               r2 = r1\<lparr> fr_payloadBytesRead := fr_payloadBytesRead r1 + 1 \<rparr>
           in if fr_payloadBytesRead r2 = fr_payloadLen r2 then r2\<lparr> fr_state := Byte0 \<rparr> else r2))"

definition feed :: "bytes \<Rightarrow> FrameReader \<Rightarrow> FrameReader" where
  "feed data r = foldl processByte r data"

definition available :: "FrameReader \<Rightarrow> nat" where
  "available r = length (fr_buf r) - fr_readPos r"

definition fr_take :: "nat \<Rightarrow> FrameReader \<Rightarrow> bytes \<times> FrameReader" where
  "fr_take n r =
     (let avail = available r;
          got = (if n < avail then n else avail);
          r1 = r\<lparr> fr_readPos := fr_readPos r + got \<rparr>
      in (take got (drop (fr_readPos r) (fr_buf r)),
          if fr_readPos r1 \<ge> length (fr_buf r1) div 2 \<and> fr_readPos r1 > 0
          then r1\<lparr> fr_buf := drop (fr_readPos r1) (fr_buf r1), fr_readPos := 0 \<rparr> else r1))"

section \<open>The server's stream\<close>

datatype StreamEnd = RecvTimeout | Disconnected

record WsServerStream =
  ws_buf :: bytes
  ws_bufPos :: nat
  ws_timedOut :: bool
  ws_in :: bytes

definition sslReadBlock :: "nat \<Rightarrow> bytes \<Rightarrow> (bytes \<times> bytes) option" where
  "sslReadBlock n inp = (if length inp < n then None else Some (take n inp, drop n inp))"

definition be_value :: "bytes \<Rightarrow> u64" where
  "be_value ext = foldl (\<lambda>v b. push_bit 8 v OR ucast b) 0 ext"

text \<open>The payload length: seven bits, or two or eight more bytes.\<close>

definition readLength :: "byte \<Rightarrow> bytes \<Rightarrow> (u64 \<times> bytes) option" where
  "readLength b1 inp =
     (let payLen = (ucast (b1 AND 0x7F) :: u64) in
      if payLen = 126 then
        (case sslReadBlock 2 inp of None \<Rightarrow> None
         | Some (ext, r) \<Rightarrow> Some (push_bit 8 (ucast (ext ! 0)) OR ucast (ext ! 1), r))
      else if payLen = 127 then
        (case sslReadBlock 8 inp of None \<Rightarrow> None | Some (ext, r) \<Rightarrow> Some (be_value ext, r))
      else Some (payLen, inp))"

definition kMaxWsPayload :: u64 where "kMaxWsPayload = 2 * 1024 * 1024"

text \<open>One frame from the stream: opcode and unmasked payload.  \<open>None\<close> is any of the \<open>return
  false\<close> exits before the opcode is looked at.\<close>

definition readFrame :: "byte \<Rightarrow> bytes \<Rightarrow> (byte \<times> bytes \<times> bytes) option" where
  "readFrame b0 inp =
     (case sslReadBlock 1 inp of None \<Rightarrow> None | Some (b1s, i1) \<Rightarrow>
       (let b1 = hd b1s; masked = (b1 AND 0x80 \<noteq> 0) in
        case readLength b1 i1 of None \<Rightarrow> None | Some (payLen, i2) \<Rightarrow>
        (case (if masked then sslReadBlock 4 i2 else Some ([0, 0, 0, 0], i2)) of
           None \<Rightarrow> None
         | Some (maskKey, i3) \<Rightarrow>
             if payLen > kMaxWsPayload then None
             else (case sslReadBlock (unat payLen) i3 of
                     None \<Rightarrow> None
                   | Some (p, i4) \<Rightarrow>
                       Some (b0 AND 0x0F, if masked then mask_bytes maskKey p else p, i4)))))"

lemma sslReadBlock_length: "sslReadBlock n inp = Some (x, r) \<Longrightarrow> length inp = n + length r \<and> length x = n"
  by (auto simp: sslReadBlock_def split: if_splits)

lemma readFrame_shorter: "readFrame b0 inp = Some (opc, p, r) \<Longrightarrow> length r < length inp"
  by (auto simp: readFrame_def readLength_def Let_def dest!: sslReadBlock_length
      split: option.splits if_splits prod.splits)

function fillFrames :: "StreamEnd \<Rightarrow> bytes \<Rightarrow> bool \<times> WsServerStream" where
  "fillFrames e [] = (False, \<lparr> ws_buf = [], ws_bufPos = 0, ws_timedOut = (e = RecvTimeout), ws_in = [] \<rparr>)"
| "fillFrames e (b0 # inp) =
     (case readFrame b0 inp of
        None \<Rightarrow> (False, \<lparr> ws_buf = [], ws_bufPos = 0, ws_timedOut = False, ws_in = [] \<rparr>)
      | Some (opc, p, r) \<Rightarrow>
          if opc = kOpcodeClose
          then (False, \<lparr> ws_buf = p, ws_bufPos = 0, ws_timedOut = False, ws_in = r \<rparr>)
          else if opc = kOpcodePing \<or> opc = kOpcodePong then fillFrames e r
          else (p \<noteq> [], \<lparr> ws_buf = p, ws_bufPos = 0, ws_timedOut = False, ws_in = r \<rparr>))"
  by pat_completeness auto
termination
  by (relation "measure (\<lambda>(e, i). length i)") (auto dest: readFrame_shorter)

text \<open>\<open>fillBuf\<close>, called when the buffer is used up (compaction then empties it).\<close>

definition fillBuf :: "StreamEnd \<Rightarrow> WsServerStream \<Rightarrow> bool \<times> WsServerStream" where
  "fillBuf e s = fillFrames e (ws_in s)"

definition ws_recv :: "StreamEnd \<Rightarrow> nat \<Rightarrow> WsServerStream \<Rightarrow> (int \<times> bytes) \<times> WsServerStream" where
  "ws_recv e maxLen s =
     (if maxLen = 0 then ((0, []), s)
      else let (ok, s1) = (if ws_bufPos s \<ge> length (ws_buf s) then fillBuf e s else (True, s)) in
           if \<not> ok then ((if ws_timedOut s1 then 0 else -1, []), s1)
           else let n = min maxLen (length (ws_buf s1) - ws_bufPos s1) in
                ((int n, take n (drop (ws_bufPos s1) (ws_buf s1))), s1\<lparr> ws_bufPos := ws_bufPos s1 + n \<rparr>))"

text \<open>\<open>readExact\<close>: at most one loop round per byte still wanted, as every fill leaves at least one
  byte; \<open>None\<close> in the first component is \<open>return false\<close>.\<close>

fun ws_readExact :: "nat \<Rightarrow> StreamEnd \<Rightarrow> nat \<Rightarrow> WsServerStream \<Rightarrow> bytes option \<times> WsServerStream" where
  "ws_readExact fuel e 0 s = (Some [], s)"
| "ws_readExact 0 e (Suc n) s = (None, s)"
| "ws_readExact (Suc fuel) e (Suc n) s =
     (let (ok, s1) = (if ws_bufPos s \<ge> length (ws_buf s) then fillBuf e s else (True, s)) in
      if \<not> ok then (None, s1)
      else let k = min (length (ws_buf s1) - ws_bufPos s1) (Suc n);
               got = take k (drop (ws_bufPos s1) (ws_buf s1));
               (rest, s2) = ws_readExact fuel e (Suc n - k) (s1\<lparr> ws_bufPos := ws_bufPos s1 + k \<rparr>)
           in (map_option (\<lambda>x. got @ x) rest, s2))"

section \<open>Lemmas: the length field\<close>

lemma len_byte_alt: "len_byte i n = ucast (drop_bit (8 * i) n)"
proof -
  have m: "(0xFF :: u64) = mask 8" by (simp add: mask_eq_exp_minus_1)
  show ?thesis
    unfolding len_byte_def m by (rule bit_word_eqI) (auto simp: bit_simps)
qed

lemma len_byte_step:
  "push_bit 8 (drop_bit (8 * Suc i) n) OR ucast (len_byte i n) = drop_bit (8 * i) (n :: u64)"
  unfolding len_byte_alt
proof (rule bit_word_eqI)
  fix k :: nat
  assume "k < LENGTH(64)"
  then show "bit (push_bit 8 (drop_bit (8 * Suc i) n) OR ucast (ucast (drop_bit (8 * i) n) :: byte)) k \<longleftrightarrow>
      bit (drop_bit (8 * i) n) k"
    by (cases "8 \<le> k") (auto simp: bit_simps)
qed

lemma be_value_len_bytes: "be_value (map (\<lambda>i. len_byte i n) [7, 6, 5, 4, 3, 2, 1, 0]) = n"
proof -
  have "drop_bit (8 * Suc 7) n = 0" by (rule drop_bit_zero) (simp add: unat_u64_less)
  then have "ucast (len_byte 7 n) = drop_bit (8 * 7) n" using len_byte_step [of 7 n] by simp
  moreover have "push_bit 8 (drop_bit (8 * j) n) OR ucast (len_byte i n) = drop_bit (8 * i) n"
    if "j = Suc i" for i j
    using that len_byte_step by simp
  note step = this [of 7 6] this [of 6 5] this [of 5 4] this [of 4 3] this [of 3 2] this [of 2 1]
    this [of 1 0]
  ultimately show ?thesis using step by (simp add: be_value_def)
qed

lemma len16_bytes:
  assumes "unat n < 2 ^ 16"
  shows "push_bit 8 (ucast (len_byte 1 n)) OR ucast (len_byte 0 n) = (n :: u64)"
proof -
  have "drop_bit (8 * Suc 1) n = 0" using drop_bit_zero [of n 16] assms by simp
  then have "ucast (len_byte 1 n) = drop_bit (8 * Suc 0) n" using len_byte_step [of 1 n] by simp
  then show ?thesis using len_byte_step [of 0 n] by simp
qed

lemma bit_0x80: "bit (0x80 :: byte) n \<longleftrightarrow> n = 7"
proof -
  have "bit (0x80 :: byte) n \<Longrightarrow> n < 8" using bit_imp_le_length [of "0x80 :: byte" n] by simp
  then show ?thesis by (auto simp: numeral_eq_Suc less_Suc_eq)
qed

lemma small_byte_bits:
  fixes x :: byte
  assumes "unat x < 128"
  shows "x AND 0x7F = x" "x AND 0x80 = 0" "(0x80 OR x) AND 0x7F = x" "(0x80 OR x) AND 0x80 = 0x80"
proof -
  have "drop_bit 7 x = 0" using assms by (intro drop_bit_zero) simp
  then have lo: "k < 7" if "bit x k" for k
    using that bit_drop_bit_eq [of 7 x, THEN fun_cong, of "k - 7"] by (cases "7 \<le> k") simp_all
  have m: "(0x7F :: byte) = mask 7" by (simp add: mask_eq_exp_minus_1)
  show "x AND 0x7F = x" "(0x80 OR x) AND 0x7F = x"
    unfolding m by (rule bit_word_eqI, auto simp: bit_simps bit_0x80 simp del: bit_numeral_word_iff dest: lo)+
  show "x AND 0x80 = 0" by (rule bit_word_eqI) (auto simp: bit_simps bit_0x80 simp del: bit_numeral_word_iff dest: lo)
  show "(0x80 OR x) AND 0x80 = 0x80" by (rule bit_word_eqI) (auto simp: bit_simps)
qed

lemma frame_length_bits:
  fixes n :: u64
  assumes "n < 126"
  shows "(ucast n :: byte) AND 0x7F = ucast n" "(0x80 OR ucast n :: byte) AND 0x7F = ucast n"
    "(0x80 OR ucast n :: byte) AND 0x80 = 0x80" "(ucast n :: byte) < 126" "ucast (ucast n :: byte) = n"
proof -
  have n: "unat n < 126" using assms by (simp add: word_less_nat_alt)
  then have u: "unat (ucast n :: byte) = unat n"
    by (simp add: unat_ucast)
  with n show "(ucast n :: byte) AND 0x7F = ucast n" "(0x80 OR ucast n :: byte) AND 0x7F = ucast n"
    "(0x80 OR ucast n :: byte) AND 0x80 = 0x80" "(ucast n :: byte) < 126"
    by (simp_all add: small_byte_bits word_less_nat_alt)
  have "unat (ucast (ucast n :: byte) :: u64) = unat n"
    using n by (simp only: unat_ucast u) simp
  then show "ucast (ucast n :: byte) = n" by (simp add: word_unat_eq_iff)
qed

text \<open>Reading back a length field.\<close>

lemma readLength_frame_length:
  assumes "m = 0 \<or> m = 0x80"
  shows "\<exists>b1 tl. frame_length m n = b1 # tl \<and> (b1 AND 0x80 \<noteq> 0 \<longleftrightarrow> m = 0x80) \<and>
    readLength b1 (tl @ r) = Some (n, r)"
proof -
  have hi: "(m OR 126) AND 0x80 \<noteq> 0 \<longleftrightarrow> m = 0x80" "(m OR 127) AND 0x80 \<noteq> 0 \<longleftrightarrow> m = 0x80"
    using assms by auto
  consider "n < 126" | "\<not> n < 126" "n \<le> 0xFFFF" | "\<not> n < 126" "\<not> n \<le> 0xFFFF" by blast
  then show ?thesis
  proof cases
    case 1
    let ?b1 = "m OR ucast n :: byte"
    have b: "ucast (?b1 AND 0x7F) = n" "?b1 AND 0x80 \<noteq> 0 \<longleftrightarrow> m = 0x80"
      using assms frame_length_bits [OF 1] small_byte_bits(2) [of "ucast n"]
      by (auto simp: word_less_nat_alt)
    have "n \<noteq> 126" "n \<noteq> 127" using 1 by auto
    then have "readLength ?b1 r = Some (n, r)" unfolding readLength_def b(1) by simp
    with 1 b(2) show ?thesis by (simp add: frame_length_def)
  next
    case 2
    have "unat n < 2 ^ 16" using 2(2) by (simp add: word_le_nat_alt)
    then have "readLength (m OR 126) ([len_byte 1 n, len_byte 0 n] @ r) = Some (n, r)"
      using assms len16_bytes by (auto simp: readLength_def sslReadBlock_def)
    with 2 hi show ?thesis by (simp add: frame_length_def)
  next
    case 3
    have "readLength (m OR 127) (map (\<lambda>i. len_byte i n) [7, 6, 5, 4, 3, 2, 1, 0] @ r) = Some (n, r)"
      using assms be_value_len_bytes [of n] by (auto simp: readLength_def sslReadBlock_def)
    with 3 hi show ?thesis by (simp add: frame_length_def)
  qed
qed

lemma mask_bytes_twice [simp]: "mask_bytes k (mask_bytes k p) = p"
  by (rule nth_equalityI) (simp_all add: mask_bytes_def xor.assoc)

lemma length_mask_bytes [simp]: "length (mask_bytes k p) = length p"
  by (simp add: mask_bytes_def)

lemma opcode_0x82: "(0x80 OR kOpcodeBinary) AND 0x0F = kOpcodeBinary" "(0x82 :: byte) AND 0x0F = kOpcodeBinary"
  by (simp_all add: opcode_defs)

lemma unat_of_length: "n < 2 ^ 64 \<Longrightarrow> unat (of_nat n :: u64) = n"
  by (simp add: unat_of_nat take_bit_nat_eq_self)

section \<open>Lemmas: the server reads the client's frames\<close>

lemma readFrame_client:
  assumes "length k = 4" "length p \<le> 2 * 1024 * 1024"
  shows "readFrame b0 (tl (buildClientFrame p k) @ r) = Some (b0 AND 0x0F, p, r)"
proof -
  let ?n = "of_nat (length p) :: u64"
  have n: "unat ?n = length p" using assms(2) by (intro unat_of_length) simp
  then have small: "\<not> ?n > kMaxWsPayload"
    using assms(2) by (simp add: word_less_nat_alt kMaxWsPayload_def)
  obtain b1 t where fl: "frame_length 0x80 ?n = b1 # t" "b1 AND 0x80 \<noteq> 0"
    and rl: "readLength b1 (t @ k @ mask_bytes k p @ r) = Some (?n, k @ mask_bytes k p @ r)"
    using readLength_frame_length [of "0x80" ?n "k @ mask_bytes k p @ r"] by auto
  show ?thesis
    using fl rl small n assms(1)
    by (simp add: readFrame_def buildClientFrame_def sslReadBlock_def)
qed

lemma fillFrames_client:
  assumes "length k = 4" "length p \<le> 2 * 1024 * 1024"
  shows "fillFrames e (buildClientFrame p k @ r) =
    (p \<noteq> [], \<lparr> ws_buf = p, ws_bufPos = 0, ws_timedOut = False, ws_in = r \<rparr>)"
proof -
  obtain t where t: "buildClientFrame p k = (0x80 OR kOpcodeBinary) # t"
    by (simp add: buildClientFrame_def)
  with readFrame_client [OF assms, of "0x80 OR kOpcodeBinary" r]
  have "readFrame (0x80 OR kOpcodeBinary) (t @ r) = Some (kOpcodeBinary, p, r)"
    by (simp add: opcode_0x82)
  then show ?thesis by (simp add: t) (simp add: opcode_defs)
qed

text \<open>The bytes still to come on the server's stream: the rest of its buffer and the payloads of the
  client frames not yet read.\<close>

definition client_frames :: "(bytes \<times> bytes) list \<Rightarrow> bytes" where
  "client_frames fs = concat (map (\<lambda>(p, k). buildClientFrame p k) fs)"

definition frames_ok :: "(bytes \<times> bytes) list \<Rightarrow> bool" where
  "frames_ok fs \<longleftrightarrow> (\<forall>(p, k) \<in> set fs. length k = 4 \<and> p \<noteq> [] \<and> length p \<le> 2 * 1024 * 1024)"

definition ws_holds :: "WsServerStream \<Rightarrow> bytes \<Rightarrow> bool" where
  "ws_holds s q \<longleftrightarrow> (\<exists>fs. frames_ok fs \<and> ws_in s = client_frames fs \<and>
     q = drop (ws_bufPos s) (ws_buf s) @ concat (map fst fs))"

lemma fill_or_buffered:
  assumes "ws_holds s q" "q \<noteq> []"
  shows "\<exists>s1. (if ws_bufPos s \<ge> length (ws_buf s) then fillBuf e s else (True, s)) = (True, s1) \<and>
    ws_holds s1 q \<and> ws_bufPos s1 < length (ws_buf s1)"
proof (cases "ws_bufPos s \<ge> length (ws_buf s)")
  case True
  then obtain fs where fs: "frames_ok fs" "ws_in s = client_frames fs" "q = concat (map fst fs)"
    using assms(1) by (auto simp: ws_holds_def)
  with assms(2) obtain p k fs' where c: "fs = (p, k) # fs'" by (cases fs) auto
  then have "fillBuf e s =
      (True, \<lparr> ws_buf = p, ws_bufPos = 0, ws_timedOut = False, ws_in = client_frames fs' \<rparr>)" "p \<noteq> []"
    using fs fillFrames_client by (auto simp: fillBuf_def client_frames_def frames_ok_def)
  moreover from c fs have "frames_ok fs'" by (simp add: frames_ok_def)
  ultimately show ?thesis using True c fs by (auto simp: ws_holds_def)
qed (use assms in auto)

lemma ws_holds_advance:
  assumes "ws_holds s q" "k \<le> length (ws_buf s) - ws_bufPos s"
  shows "take k (drop (ws_bufPos s) (ws_buf s)) = take k q"
    "ws_holds (s\<lparr> ws_bufPos := ws_bufPos s + k \<rparr>) (drop k q)"
  using assms by (auto simp: ws_holds_def add.commute)

lemma ws_readExact_ok:
  "ws_holds s q \<Longrightarrow> n \<le> length q \<Longrightarrow> n \<le> fuel \<Longrightarrow>
    \<exists>s'. ws_readExact fuel e n s = (Some (take n q), s') \<and> ws_holds s' (drop n q)"
proof (induction fuel e n s arbitrary: q rule: ws_readExact.induct)
  case (3 fuel e n s)
  then have "q \<noteq> []" by auto
  from fill_or_buffered [OF "3.prems"(1) this, of e] obtain s1
    where fill: "(if ws_bufPos s \<ge> length (ws_buf s) then fillBuf e s else (True, s)) = (True, s1)"
      and s1: "ws_holds s1 q" "ws_bufPos s1 < length (ws_buf s1)" by blast
  let ?k = "min (length (ws_buf s1) - ws_bufPos s1) (Suc n)"
  note adv = ws_holds_advance [OF s1(1), of ?k]
  have "0 < ?k" using s1(2) by simp
  then obtain s2 where "ws_readExact fuel e (Suc n - ?k) (s1\<lparr> ws_bufPos := ws_bufPos s1 + ?k \<rparr>) =
      (Some (take (Suc n - ?k) (drop ?k q)), s2)" "ws_holds s2 (drop (Suc n - ?k) (drop ?k q))"
    using "3.IH" [OF fill [symmetric] refl _ refl refl, of "drop ?k q"] adv(2) "3.prems" by fastforce
  moreover have "take ?k q @ take (Suc n - ?k) (drop ?k q) = take (Suc n) q"
    by (metis le_add_diff_inverse min.cobounded2 take_add)
  ultimately show ?case
    using adv(1) fill by (simp del: min_less_iff_conj)
qed auto

lemma ws_recv_ok:
  assumes "ws_holds s q" "q \<noteq> []" "0 < maxLen"
  shows "\<exists>k s'. ws_recv e maxLen s = ((int k, take k q), s') \<and> 0 < k \<and> k \<le> maxLen \<and> k \<le> length q \<and>
    ws_holds s' (drop k q)"
proof -
  from fill_or_buffered [OF assms(1,2), of e] obtain s1
    where fill: "(if ws_bufPos s \<ge> length (ws_buf s) then fillBuf e s else (True, s)) = (True, s1)"
      and s1: "ws_holds s1 q" "ws_bufPos s1 < length (ws_buf s1)" by blast
  let ?k = "min maxLen (length (ws_buf s1) - ws_bufPos s1)"
  note adv = ws_holds_advance [OF s1(1), of ?k]
  have "?k \<le> length q" using s1(1) by (auto simp: ws_holds_def)
  moreover have "ws_recv e maxLen s = ((int ?k, take ?k q), s1\<lparr> ws_bufPos := ws_bufPos s1 + ?k \<rparr>)"
    unfolding ws_recv_def fill using assms(3) adv(1) by (simp add: Let_def)
  ultimately show ?thesis
    using adv(2) s1(2) assms(3) by (intro exI [of _ ?k] exI conjI) auto
qed

text \<open>The server's stream keeps the byte-stream contract, whatever comes after the frames.\<close>

interpretation wsin: byte_stream ws_holds "\<lambda>n. ws_readExact n e n" for e
  by unfold_locales (simp add: ws_readExact_ok)

interpretation wsframe: stream_codec "\<lambda>p. length p \<le> 2 * 1024 * 1024"
  "\<lambda>p. buildClientFrame p [k0, k1, k2, k3]"
  "\<lambda>inp. case inp of [] \<Rightarrow> None | b0 # r \<Rightarrow> map_option snd (readFrame b0 r)" for k0 k1 k2 k3
proof
  fix p r :: bytes
  assume "length p \<le> 2 * 1024 * 1024"
  then show "(case buildClientFrame p [k0, k1, k2, k3] @ r of [] \<Rightarrow> None
      | b0 # r \<Rightarrow> map_option snd (readFrame b0 r)) = Some (p, r)"
    using readFrame_client [of "[k0, k1, k2, k3]" p "0x80 OR kOpcodeBinary" r]
    by (simp add: buildClientFrame_def)
qed

section \<open>Lemmas: the client reads the server's frames\<close>

lemma foldl_processByte_payload:
  "fr_state r = Payload \<Longrightarrow> fr_opcode r = kOpcodeBinary \<Longrightarrow> p \<noteq> [] \<Longrightarrow>
    unat (fr_payloadBytesRead r) + length p = unat (fr_payloadLen r) \<Longrightarrow>
    foldl processByte r p = r\<lparr> fr_buf := fr_buf r @ p, fr_payloadBytesRead := fr_payloadLen r, fr_state := Byte0 \<rparr>"
proof (induction p arbitrary: r)
  case (Cons b p)
  have inc: "unat (fr_payloadBytesRead r + 1) = unat (fr_payloadBytesRead r) + 1"
    using Cons.prems(4) unat_u64_less [of "fr_payloadLen r"] by (simp add: unat_word_ariths)
  then have last: "fr_payloadBytesRead r + 1 = fr_payloadLen r \<longleftrightarrow> p = []"
    using Cons.prems(4) [symmetric] by (simp add: word_unat_eq_iff)
  show ?case
  proof (cases "p = []")
    case True
    with last Cons.prems show ?thesis by (simp add: processByte_def Let_def)
  next
    case False
    let ?r = "r\<lparr> fr_buf := fr_buf r @ [b], fr_payloadBytesRead := fr_payloadBytesRead r + 1 \<rparr>"
    have "processByte r b = ?r" using False last Cons.prems by (simp add: processByte_def Let_def)
    with Cons.IH [of ?r] Cons.prems False inc show ?thesis by simp
  qed
qed simp

text \<open>After the length field the reader knows the payload length and is otherwise as before.\<close>

definition ready :: "FrameReader \<Rightarrow> u64 \<Rightarrow> FrameReader \<Rightarrow> bool" where
  "ready r n r' \<longleftrightarrow> fr_state r' = (if n = 0 then Byte0 else Payload) \<and> fr_opcode r' = fr_opcode r \<and>
     fr_payloadLen r' = n \<and> fr_payloadBytesRead r' = 0 \<and> fr_buf r' = fr_buf r \<and> fr_readPos r' = fr_readPos r"

lemma processByte_Byte1_short:
  "fr_state r = Byte1 \<Longrightarrow> b AND 0x7F < 126 \<Longrightarrow> ready r (ucast (b AND 0x7F)) (processByte r b)"
  by (simp add: processByte_def Let_def afterLength_def ready_def)

lemma foldl_processByte_len16:
  "fr_state r = Byte1 \<Longrightarrow> ready r (push_bit 8 (ucast h) OR ucast l) (foldl processByte r [126, h, l])"
  by (simp add: processByte_def Let_def afterLength_def ready_def)

lemma processByte_ExtLen64:
  "fr_state r = ExtLen64 \<Longrightarrow> processByte r b =
    (let r1 = r\<lparr> fr_payloadLen := push_bit 8 (fr_payloadLen r) OR ucast b,
                 fr_extLenBytesRead := fr_extLenBytesRead r + 1 \<rparr>
     in if fr_extLenBytesRead r1 = 8 then afterLength r1 else r1)"
  by (simp add: processByte_def)

lemma foldl_processByte_len64:
  "fr_state r = Byte1 \<Longrightarrow>
    ready r (be_value [b7, b6, b5, b4, b3, b2, b1, b0]) (foldl processByte r [127, b7, b6, b5, b4, b3, b2, b1, b0])"
proof -
  assume r: "fr_state r = Byte1"
  let ?r = "r\<lparr> fr_payloadLen := 0, fr_extLenBytesRead := 0, fr_state := ExtLen64 \<rparr>"
  have "processByte r 127 = ?r" using r by (simp add: processByte_def)
  then show ?thesis
    by (simp add: processByte_ExtLen64 Let_def afterLength_def ready_def be_value_def)
qed

lemma foldl_processByte_length:
  assumes "fr_state r = Byte1"
  shows "ready r n (foldl processByte r (frame_length 0 n))"
proof -
  consider "n < 126" | "\<not> n < 126" "n \<le> 0xFFFF" | "\<not> n < 126" "\<not> n \<le> 0xFFFF" by blast
  then show ?thesis
  proof cases
    case 1
    with processByte_Byte1_short [OF assms, of "ucast n"] frame_length_bits [OF 1] show ?thesis
      by (simp add: frame_length_def)
  next
    case 2
    have "unat n < 2 ^ 16" using 2(2) by (simp add: word_le_nat_alt)
    with foldl_processByte_len16 [OF assms, of "len_byte 1 n" "len_byte 0 n"] len16_bytes [of n] 2
    show ?thesis by (simp add: frame_length_def del: foldl_Cons)
  next
    case 3
    with foldl_processByte_len64 [OF assms] be_value_len_bytes [of n] show ?thesis
      by (simp add: frame_length_def del: foldl_Cons) metis
  qed
qed

lemma feed_writeFrame:
  assumes "fr_state r = Byte0" "length p < 2 ^ 64"
  shows "fr_state (feed (writeFrame p) r) = Byte0 \<and> fr_buf (feed (writeFrame p) r) = fr_buf r @ p \<and>
    fr_readPos (feed (writeFrame p) r) = fr_readPos r"
proof -
  let ?n = "of_nat (length p) :: u64"
  let ?r1 = "r\<lparr> fr_fin := True, fr_opcode := kOpcodeBinary, fr_state := Byte1 \<rparr>"
  let ?r2 = "foldl processByte ?r1 (frame_length 0 ?n)"
  have n: "unat ?n = length p" using assms(2) by (rule unat_of_length)
  have "processByte r 0x82 = ?r1" using assms(1) by (simp add: processByte_def opcode_defs)
  then have fd: "feed (writeFrame p) r = foldl processByte ?r2 p" by (simp add: feed_def writeFrame_def)
  have ready: "ready ?r1 ?n ?r2" by (rule foldl_processByte_length) simp
  show ?thesis
  proof (cases "p = []")
    case True
    with ready fd show ?thesis by (simp add: ready_def)
  next
    case False
    with n have "?n \<noteq> 0" by (metis length_0_conv unsigned_0)
    with foldl_processByte_payload [of ?r2 p] ready n False fd show ?thesis by (simp add: ready_def)
  qed
qed

lemma feed_writeFrames:
  assumes "fr_state r = Byte0" "\<forall>p \<in> set ps. length p < 2 ^ 64"
  shows "fr_state (feed (concat (map writeFrame ps)) r) = Byte0 \<and>
    fr_buf (feed (concat (map writeFrame ps)) r) = fr_buf r @ concat ps \<and>
    fr_readPos (feed (concat (map writeFrame ps)) r) = fr_readPos r"
  using assms
proof (induction ps arbitrary: r)
  case (Cons p ps)
  with feed_writeFrame [of r p] Cons.IH [of "feed (writeFrame p) r"] show ?case
    by (simp add: feed_def)
qed (simp add: feed_def)

lemma fr_take_contents:
  assumes "fr_readPos r \<le> length (fr_buf r)" "fr_take n r = (out, r')"
  shows "out = take n (drop (fr_readPos r) (fr_buf r))"
    "drop (fr_readPos r') (fr_buf r') = drop n (drop (fr_readPos r) (fr_buf r))"
    "fr_readPos r' \<le> length (fr_buf r')"
  using assms by (auto simp: fr_take_def available_def Let_def add.commute split: if_splits)

text \<open>A reader that asks for no more than what is available.\<close>

definition fr_holds :: "FrameReader \<Rightarrow> bytes \<Rightarrow> bool" where
  "fr_holds r q \<longleftrightarrow> fr_readPos r \<le> length (fr_buf r) \<and> q = drop (fr_readPos r) (fr_buf r)"

definition fr_readN :: "nat \<Rightarrow> FrameReader \<Rightarrow> bytes option \<times> FrameReader" where
  "fr_readN n r = (if available r < n then (None, r) else (case fr_take n r of (x, r') \<Rightarrow> (Some x, r')))"

interpretation frin: byte_stream fr_holds fr_readN
proof
  fix r q n
  assume h: "fr_holds r q" "n \<le> length q"
  obtain out r' where t: "fr_take n r = (out, r')" by fastforce
  from h fr_take_contents [OF _ t] have "fr_readN n r = (Some (take n q), r') \<and> fr_holds r' (drop n q)"
    by (auto simp: fr_holds_def fr_readN_def available_def t)
  then show "\<exists>r'. fr_readN n r = (Some (take n q), r') \<and> fr_holds r' (drop n q)" by blast
qed

section \<open>The upgrade handshake\<close>

definition kWsPath :: string where "kWsPath = ''/ntm-ws''"
definition kWsGuid :: string where "kWsGuid = ''258EAFA5-E914-47DA-95CA-C5AB0DC85B11''"

definition buildUpgradeRequest :: "string \<Rightarrow> string \<Rightarrow> string" where
  "buildUpgradeRequest host key =
     ''GET '' @ kWsPath @ '' HTTP/1.1'' @ CRLF @
     ''Host: '' @ host @ CRLF @
     ''Upgrade: websocket'' @ CRLF @
     ''Connection: Upgrade'' @ CRLF @
     ''Sec-WebSocket-Key: '' @ key @ CRLF @
     ''Sec-WebSocket-Version: 13'' @ CRLF @ CRLF"

datatype UpgradeError = NotHttp11 | Not101 string | AcceptMissing | AcceptMismatch

text \<open>\<open>response.substr(pos, end - pos)\<close> runs to the end of the response when no \<open>\\r\<close> is found.\<close>

definition upto_cr :: "string \<Rightarrow> string" where
  "upto_cr s = takeWhile (\<lambda>c. c \<noteq> CR) s"

definition parseUpgradeResponse :: "string \<Rightarrow> UpgradeError + string" where
  "parseUpgradeResponse response =
     (if length response < 12 \<or> substr 0 9 response \<noteq> ''HTTP/1.1 '' then Inl NotHttp11
      else if substr 9 3 response \<noteq> ''101'' then Inl (Not101 (upto_cr response))
      else (case find_str ''sec-websocket-accept: '' (lowercase response) of
              None \<Rightarrow> Inl AcceptMissing
            | Some pos \<Rightarrow> Inr (upto_cr (drop (pos + length ''sec-websocket-accept: '') response))))"

definition wsExtractKey :: "string \<Rightarrow> string" where
  "wsExtractKey request =
     (case find_str ''sec-websocket-key: '' (lowercase request) of
        None \<Rightarrow> []
      | Some p \<Rightarrow>
          (let pos = p + length ''sec-websocket-key: '' in
           case (case find_ch_from CR pos request of None \<Rightarrow> find_ch_from LF pos request | Some e \<Rightarrow> Some e) of
             None \<Rightarrow> []
           | Some e \<Rightarrow> rtrim (\<lambda>c. c = SP \<or> c = CR) (substr pos (e - pos) request)))"

text \<open>What \<open>wsConnectionThread\<close> answers to an upgrade request; \<open>computeAccept\<close> is base64 of SHA-1
  (OpenSSL) of key and GUID, the same expression on both sides.\<close>

definition resp101 :: "string \<Rightarrow> string" where
  "resp101 accept = ''HTTP/1.1 101 Switching Protocols'' @ CRLF @ ''Upgrade: websocket'' @ CRLF @
     ''Connection: Upgrade'' @ CRLF @ ''Sec-WebSocket-Accept: '' @ accept @ CRLF @ CRLF"

datatype UpgradeReply = Reply404 | Reply400 | Reply101 string

definition wsAnswer :: "(string \<Rightarrow> string) \<Rightarrow> string \<Rightarrow> UpgradeReply" where
  "wsAnswer sha1b64 httpReq =
     (if find_str (''GET '' @ kWsPath) httpReq = None then Reply404
      else let key = wsExtractKey httpReq in
           if key = [] then Reply400
           else Reply101 (resp101 (sha1b64 (key @ kWsGuid))))"

text \<open>The client's \<open>doHandshake\<close> after reading the response.\<close>

definition checkUpgrade :: "(string \<Rightarrow> string) \<Rightarrow> string \<Rightarrow> string \<Rightarrow> UpgradeError + unit" where
  "checkUpgrade sha1b64 key response =
     (case parseUpgradeResponse response of
        Inl e \<Rightarrow> Inl e
      | Inr serverAccept \<Rightarrow>
          if serverAccept \<noteq> sha1b64 (key @ kWsGuid) then Inl AcceptMismatch else Inr ())"

section \<open>Lemmas: the upgrade handshake\<close>

lemma find_str_skip:
  assumes "CR \<notin> set p" "SP \<in> set p" "SP \<notin> set h"
  shows "find_str p (h @ CR # y) = map_option ((+) (length h)) (find_str p (CR # y))"
  using assms(3)
proof (induction h)
  case Nil
  then show ?case by (simp add: option.map_ident)
next
  case (Cons c h)
  have "\<not> starts_with p ((c # h) @ CR # y)"
  proof
    assume "starts_with p ((c # h) @ CR # y)"
    then obtain r where "(c # h) @ CR # y = p @ r" by (auto simp: starts_with_iff)
    then consider us where "c # h = p @ us" | us where "p = (c # h) @ us" "CR # y = us @ r"
      using append_eq_append_conv2 [of "c # h" "CR # y" p r] by auto
    then show False
    proof cases
      case 1
      with assms(2) Cons.prems show False by (metis in_set_conv_decomp append_Cons append_assoc)
    next
      case 2
      with assms(1,2) Cons.prems show False by (cases us) auto
    qed
  qed
  with Cons show ?case by (auto simp: option.map_comp comp_def)
qed

lemma lowercase_append [simp]: "lowercase (a @ b) = lowercase a @ lowercase b"
  by (simp add: lowercase_def)

lemma tolower_SP [simp]: "tolower c = SP \<longleftrightarrow> c = SP"
proof -
  have "char_of (code_of c + 32) \<noteq> SP" if "in_range CHR ''A'' CHR ''Z'' c"
  proof
    assume "char_of (code_of c + 32) = SP"
    then have "of_char (char_of (code_of c + 32) :: char) = (of_char SP :: nat)" by simp
    with that show False by (simp add: in_range_def code_of_def)
  qed
  then show ?thesis by (auto simp: tolower_def in_range_def code_of_def)
qed

lemma SP_lowercase [simp]: "SP \<in> set (lowercase s) \<longleftrightarrow> SP \<in> set s"
  by (induction s) (auto simp: lowercase_def eq_commute [of SP])

lemma length_lowercase [simp]: "length (lowercase s) = length s"
  by (simp add: lowercase_def)

lemma wsExtractKey_request:
  assumes "SP \<notin> set host" "SP \<notin> set key" "CR \<notin> set key"
  shows "wsExtractKey (buildUpgradeRequest host key) = key"
proof -
  let ?n = "''sec-websocket-key: ''"
  let ?pre = "''GET '' @ kWsPath @ '' HTTP/1.1'' @ CRLF @ ''Host: ''"
  let ?mid = "[LF] @ ''Upgrade: websocket'' @ CRLF @ ''Connection: Upgrade'' @ CRLF"
  let ?post = "CRLF @ ''Sec-WebSocket-Version: 13'' @ CRLF @ CRLF"
  have req: "buildUpgradeRequest host key = ?pre @ host @ CR # ?mid @ ''Sec-WebSocket-Key: '' @ key @ ?post"
    by (simp add: buildUpgradeRequest_def)
  have skip: "find_str ?n (lowercase host @ CR # y) = map_option ((+) (length host)) (find_str ?n (CR # y))" for y
    using find_str_skip [of ?n "lowercase host" y] assms(1) by simp
  have "find_str ?n (lowercase (buildUpgradeRequest host key)) =
      Some (length (?pre @ host @ CR # ?mid))"
    unfolding req using skip
    by (simp add: kWsPath_def starts_with_def lowercase_def tolower_def in_range_def code_of_def)
      (simp add: char_of_def bit_0)
  moreover have "drop (length (?pre @ host @ CR # ?mid) + length ?n) (buildUpgradeRequest host key) = key @ ?post"
    unfolding req by (simp add: kWsPath_def)
  moreover have "rtrim (\<lambda>c. c = SP \<or> c = CR) key = key"
    using assms(2,3) by (intro rtrim_id) (use last_in_set in fastforce)
  ultimately show ?thesis
    using assms(3) by (simp add: wsExtractKey_def find_ch_from_def find_ch_append substr_def del: length_append)
qed

lemma parseUpgradeResponse_101:
  assumes "CR \<notin> set a"
  shows "parseUpgradeResponse (resp101 a) = Inr a"
proof -
  let ?pre = "''HTTP/1.1 101 Switching Protocols'' @ CRLF @ ''Upgrade: websocket'' @ CRLF @
    ''Connection: Upgrade'' @ CRLF"
  have "takeWhile (\<lambda>c. c \<noteq> CR) (a @ CR # r) = a" for r
    using assms by (induction a) auto
  moreover have "find_str ''sec-websocket-accept: '' (lowercase (?pre @ ''Sec-WebSocket-Accept: '' @ a @ CRLF @ CRLF)) =
      Some (length ?pre)"
    by (simp add: starts_with_def lowercase_def tolower_def in_range_def code_of_def)
      (simp add: char_of_def bit_0)
  ultimately show ?thesis
    by (simp add: parseUpgradeResponse_def substr_def upto_cr_def resp101_def)
qed

lemma get_path_found: "find_str (''GET '' @ kWsPath) (buildUpgradeRequest host key) \<noteq> None"
  by (simp add: buildUpgradeRequest_def kWsPath_def starts_with_def)

section \<open>Properties\<close>

text \<open>
  C23.  The WebSocket transport carries the client's byte stream unchanged: after any sequence of
  non-empty writes of up to 2 MiB, each framed and masked with any key, the server's \<open>readExact(n)\<close> returns
  exactly the next \<open>n\<close> payload bytes, across frame boundaries, and leaves the rest to come.
\<close>

theorem ws_server_reads_stream:
  assumes "frames_ok fs" "s = \<lparr> ws_buf = [], ws_bufPos = 0, ws_timedOut = False, ws_in = client_frames fs \<rparr>"
    and "sum_list ns \<le> length (concat (map fst fs))"
  shows "\<exists>s'. wsin.read_all e ns s = (Some (take (sum_list ns) (concat (map fst fs))), s') \<and>
    ws_holds s' (drop (sum_list ns) (concat (map fst fs)))"
proof -
  have "ws_holds s (concat (map fst fs))" using assms(1,2) by (auto simp: ws_holds_def)
  from wsin.read_all_ok [OF this assms(3)] show ?thesis .
qed

theorem ws_server_reads_stream_witness:
  "\<exists>s'. wsin.read_all Disconnected [1, 2] \<lparr> ws_buf = [], ws_bufPos = 0, ws_timedOut = False,
      ws_in = client_frames [([1, 2], [9, 8, 7, 6]), ([3, 4], [0, 1, 2, 3])] \<rparr> = (Some [1, 2, 3], s') \<and>
    ws_holds s' [4]"
  using ws_server_reads_stream [of "[([1, 2], [9, 8, 7, 6]), ([3, 4], [0, 1, 2, 3])]" _ "[1, 2]" Disconnected, OF _ refl]
  by (simp add: frames_ok_def)

text \<open>
  C34.  The client's \<open>FrameReader\<close> delivers the concatenated payloads of the server's frames, however
  the network cuts the frames into chunks, and its buffer compaction never loses or repeats a byte:
  reads of any sizes return consecutive pieces.
\<close>

theorem frameReader_delivers:
  assumes "\<forall>p \<in> set ps. length p < 2 ^ 64" "concat chunks = concat (map writeFrame ps)"
    and "sum_list ns \<le> length (concat ps)"
  shows "\<exists>r'. frin.read_all ns (foldl (\<lambda>r c. feed c r) FrameReader0 chunks) =
      (Some (take (sum_list ns) (concat ps)), r') \<and> fr_holds r' (drop (sum_list ns) (concat ps))"
proof -
  have "foldl (\<lambda>r c. feed c r) r cs = feed (concat cs) r" for r cs
    by (induction cs arbitrary: r) (simp_all add: feed_def)
  then have "fr_holds (foldl (\<lambda>r c. feed c r) FrameReader0 chunks) (concat ps)"
    using feed_writeFrames [of FrameReader0 ps] assms(1,2) by (simp add: fr_holds_def FrameReader0_def)
  from frin.read_all_ok [OF this assms(3)] show ?thesis .
qed

theorem frameReader_delivers_witness:
  "\<exists>r'. frin.read_all [1, 1] (foldl (\<lambda>r c. feed c r) FrameReader0 [[0x82], [2, 65], [66, 0x82, 0]]) =
     (Some [65, 66], r') \<and> fr_holds r' []"
  using frameReader_delivers [of "[[65, 66], []]" "[[0x82], [2, 65], [66, 0x82, 0]]" "[1, 1]"]
  by (simp add: writeFrame_def frame_length_def)

text \<open>
  The upgrade handshake of the two programs succeeds: for a host and a key without spaces and
  line breaks the server finds the client's key, and the client accepts the server's 101 response,
  as both compute the accept value in the same way; an accept value for anything else is refused.
\<close>

lemma ws_upgrade_agrees:
  assumes "SP \<notin> set host" "SP \<notin> set key" "CR \<notin> set key" "key \<noteq> []" "\<And>x. CR \<notin> set (sha1b64 x)"
  shows "\<exists>resp. wsAnswer sha1b64 (buildUpgradeRequest host key) = Reply101 resp \<and>
    checkUpgrade sha1b64 key' resp =
      (if sha1b64 (key @ kWsGuid) = sha1b64 (key' @ kWsGuid) then Inr () else Inl AcceptMismatch)"
  using wsExtractKey_request [OF assms(1-3)] get_path_found [of host key] assms(4)
    parseUpgradeResponse_101 [OF assms(5), of "key @ kWsGuid"]
  by (auto simp: wsAnswer_def checkUpgrade_def)

lemma ws_upgrade_agrees_witness:
  "\<exists>resp. wsAnswer (\<lambda>x. map (\<lambda>_. CHR ''a'') x) (buildUpgradeRequest ''ntm.example'' ''dGhlIHNhbXBsZQ=='') = Reply101 resp \<and>
    checkUpgrade (\<lambda>x. map (\<lambda>_. CHR ''a'') x) ''dGhlIHNhbXBsZQ=='' resp = Inr ()"
  using ws_upgrade_agrees [of "''ntm.example''" "''dGhlIHNhbXBsZQ==''" "\<lambda>x. map (\<lambda>_. CHR ''a'') x" "''dGhlIHNhbXBsZQ==''"]
  by auto

end
