(* ===== verification/Auth.thy ===== *)
theory Auth
  imports Codecs WebSocket
begin

text \<open>
  The Ed25519 challenge-response authentication of a data connection: the server's
  \<open>verifyClientAuth\<close> and result bytes (\<open>server_core.cpp\<close>) and the client's \<open>performClientAuth\<close>
  (\<open>client_core.cpp\<close>).

  Both ends are written over a \<open>readFn\<close>, as in the code, so that the same text serves raw TLS and
  WebSocket; their lemmas are proved for every stream that keeps the \<open>byte_stream\<close> contract.
  Signature verification and signing (OpenSSL), the random nonce and the outcome of a write are
  arguments.
\<close>

section \<open>Constants\<close>

definition kAuthVersionV2 :: byte where "kAuthVersionV2 = 2"
definition kAuthVersionV3 :: byte where "kAuthVersionV3 = 3"
definition kAuthResultOk :: byte where "kAuthResultOk = 0x00"
definition kAuthResultReject :: byte where "kAuthResultReject = 0x01"
definition kAuthPubkeyLen :: nat where "kAuthPubkeyLen = 32"
definition kAuthSignatureLen :: nat where "kAuthSignatureLen = 64"
definition kAuthNonceLen :: nat where "kAuthNonceLen = 32"
definition kAuthSignPrefixV2 :: bytes where "kAuthSignPrefixV2 = str_bytes ''NTM-AUTH-v2''"
definition kCapNone :: byte where "kCapNone = 0x00"
definition kCapZlib :: byte where "kCapZlib = 0x01"

lemmas auth_const_defs = kAuthVersionV2_def kAuthVersionV3_def kAuthResultOk_def kAuthResultReject_def
  kAuthPubkeyLen_def kAuthSignatureLen_def kAuthNonceLen_def kCapNone_def kCapZlib_def

section \<open>The server\<close>

type_synonym 's readFn = "nat \<Rightarrow> 's \<Rightarrow> bytes option \<times> 's"

definition allowedKeysContains :: "bytes list \<Rightarrow> bytes \<Rightarrow> bool" where
  "allowedKeysContains keys needle =
     (if length needle \<noteq> kAuthPubkeyLen then False
      else foldl (\<lambda>found k. if length k \<noteq> kAuthPubkeyLen then found else found \<or> k = needle) False keys)"

text \<open>What the caller learns: the client id (empty on failure), the unrecognised version byte,
  the negotiated capabilities, whether the client spoke version 3, and the bytes written.\<close>

record AuthRun =
  ar_clientId :: string
  ar_attemptedVersion :: byte
  ar_negotiatedCaps :: byte
  ar_isV3 :: bool
  ar_sent :: bytes

definition AuthRun0 :: AuthRun where
  "AuthRun0 = \<lparr> ar_clientId = [], ar_attemptedVersion = 0, ar_negotiatedCaps = kCapNone,
     ar_isV3 = False, ar_sent = [] \<rparr>"

text \<open>The part that versions 2 and 3 share: send the nonce, read key, signature and \<open>extra\<close> bytes,
  check the key and the signature.  The result is the key and the extra bytes.\<close>

definition authChallenge :: "'s readFn \<Rightarrow> bool \<Rightarrow> bytes option \<Rightarrow> (bytes \<Rightarrow> bytes \<Rightarrow> bytes \<Rightarrow> bool) \<Rightarrow>
    bytes list \<Rightarrow> nat \<Rightarrow> 's \<Rightarrow> ((bytes \<times> bytes) option \<times> bytes) \<times> 's" where
  "authChallenge readFn writeOk rand verify keys extra s =
     (case rand of None \<Rightarrow> ((None, []), s)
      | Some nonce \<Rightarrow>
          if \<not> writeOk then ((None, []), s)
          else (case readFn (kAuthPubkeyLen + kAuthSignatureLen + extra) s of
                  (None, s1) \<Rightarrow> ((None, nonce), s1)
                | (Some resp, s1) \<Rightarrow>
                    (let pubkeyRaw = take kAuthPubkeyLen resp;
                         sig = take kAuthSignatureLen (drop kAuthPubkeyLen resp)
                     in if \<not> allowedKeysContains keys pubkeyRaw then ((None, nonce), s1)
                        else if \<not> verify pubkeyRaw (kAuthSignPrefixV2 @ nonce) sig then ((None, nonce), s1)
                        else ((Some (pubkeyRaw, drop (kAuthPubkeyLen + kAuthSignatureLen) resp), nonce), s1))))"

definition verifyClientAuth :: "'s readFn \<Rightarrow> bool \<Rightarrow> bytes option \<Rightarrow> (bytes \<Rightarrow> bytes \<Rightarrow> bytes \<Rightarrow> bool) \<Rightarrow>
    bytes list \<Rightarrow> 's \<Rightarrow> AuthRun \<times> 's" where
  "verifyClientAuth readFn writeOk rand verify keys s =
     (if keys = [] then (AuthRun0, s)
      else case readFn 1 s of
        (None, s1) \<Rightarrow> (AuthRun0, s1)
      | (Some vs, s1) \<Rightarrow>
          (let version = hd vs in
           if version = kAuthVersionV2 then
             (case authChallenge readFn writeOk rand verify keys 0 s1 of
                ((None, sent), s2) \<Rightarrow> (AuthRun0\<lparr> ar_sent := sent \<rparr>, s2)
              | ((Some (pub, _), sent), s2) \<Rightarrow>
                  (AuthRun0\<lparr> ar_clientId := hexEncode pub, ar_sent := sent \<rparr>, s2))
           else if version = kAuthVersionV3 then
             (case authChallenge readFn writeOk rand verify keys 1 s1 of
                ((None, sent), s2) \<Rightarrow> (AuthRun0\<lparr> ar_sent := sent \<rparr>, s2)
              | ((Some (pub, ext), sent), s2) \<Rightarrow>
                  (AuthRun0\<lparr> ar_clientId := hexEncode pub, ar_negotiatedCaps := hd ext AND kCapZlib,
                            ar_isV3 := True, ar_sent := sent \<rparr>, s2))
           else (AuthRun0\<lparr> ar_attemptedVersion := version \<rparr>, s1)))"

text \<open>The result bytes that \<open>connectionThread\<close> and \<open>wsConnectionThread\<close> send.\<close>

definition authReply :: "AuthRun \<Rightarrow> bytes" where
  "authReply r =
     (if ar_clientId r = [] then [kAuthResultReject]
      else kAuthResultOk # (if ar_isV3 r then [ar_negotiatedCaps r] else []))"

section \<open>The client\<close>

datatype ClientAuthError =
  UnsafePermissions | CannotOpenIdentity | BadPrivateKey | NotEd25519 | PublicKeyFailed
| SendVersionFailed | ReadNonceFailed | SignFailed | SendMessageFailed | ReadResultFailed
| Rejected | ReadCapsFailed

record Identity =
  id_pubkey :: bytes
  id_sign :: "bytes \<Rightarrow> bytes option"

text \<open>\<open>identity = None\<close>: no identity file is configured and authentication is skipped.  The
  loading of the key (permissions, PEM, key type) is the argument's error.\<close>

definition performClientAuth :: "'s readFn \<Rightarrow> bool \<Rightarrow> (ClientAuthError + Identity) option \<Rightarrow> bool \<Rightarrow>
    's \<Rightarrow> ((ClientAuthError + byte) \<times> bytes) \<times> 's" where
  "performClientAuth readFn writeOk identity requestCompression s =
     (case identity of
        None \<Rightarrow> ((Inr kCapNone, []), s)
      | Some (Inl e) \<Rightarrow> ((Inl e, []), s)
      | Some (Inr key) \<Rightarrow>
          if \<not> writeOk then ((Inl SendVersionFailed, []), s)
          else (case readFn kAuthNonceLen s of
            (None, s1) \<Rightarrow> ((Inl ReadNonceFailed, [kAuthVersionV3]), s1)
          | (Some nonce, s1) \<Rightarrow>
              (case id_sign key (kAuthSignPrefixV2 @ nonce) of
                 None \<Rightarrow> ((Inl SignFailed, [kAuthVersionV3]), s1)
               | Some sig \<Rightarrow>
                   (let sent = kAuthVersionV3 # id_pubkey key @ sig @
                                 [if requestCompression then kCapZlib else kCapNone] in
                    case readFn 1 s1 of
                      (None, s2) \<Rightarrow> ((Inl ReadResultFailed, sent), s2)
                    | (Some res, s2) \<Rightarrow>
                        if hd res \<noteq> kAuthResultOk then ((Inl Rejected, sent), s2)
                        else (case readFn 1 s2 of
                                (None, s3) \<Rightarrow> ((Inl ReadCapsFailed, sent), s3)
                              | (Some caps, s3) \<Rightarrow> ((Inr (hd caps), sent), s3))))))"

section \<open>Lemmas\<close>

lemma allowedKeysContains_iff:
  "allowedKeysContains keys k \<longleftrightarrow> length k = kAuthPubkeyLen \<and> k \<in> set keys"
proof -
  have "foldl (\<lambda>found k'. if length k' \<noteq> kAuthPubkeyLen then found else found \<or> k' = k) b ks \<longleftrightarrow>
      b \<or> k \<in> set ks" if "length k = kAuthPubkeyLen" for b ks
    using that by (induction ks arbitrary: b) auto
  then show ?thesis by (auto simp: allowedKeysContains_def)
qed

definition client_ok :: "Identity \<Rightarrow> (bytes \<Rightarrow> bytes \<Rightarrow> bytes \<Rightarrow> bool) \<Rightarrow> bool" where
  "client_ok key verify \<longleftrightarrow> length (id_pubkey key) = kAuthPubkeyLen \<and>
     (\<forall>m. \<exists>sig. id_sign key m = Some sig \<and> length sig = kAuthSignatureLen \<and> verify (id_pubkey key) m sig)"

lemma authChallenge_SomeD:
  assumes "authChallenge readFn w rand verify keys n s = ((Some (pub, ext), sent), s')"
  shows "\<exists>nonce sig. rand = Some nonce \<and> sent = nonce \<and> pub \<in> set keys \<and> length pub = kAuthPubkeyLen \<and>
    verify pub (kAuthSignPrefixV2 @ nonce) sig"
  using assms
  by (auto simp: authChallenge_def Let_def allowedKeysContains_iff split: option.splits prod.splits if_splits)

lemma verifyClientAuth_acceptedD:
  assumes "verifyClientAuth readFn w rand verify keys s = (r, s')" "ar_clientId r \<noteq> []"
  shows "\<exists>nonce pub sig. rand = Some nonce \<and> ar_sent r = nonce \<and> pub \<in> set keys \<and>
    length pub = kAuthPubkeyLen \<and> verify pub (kAuthSignPrefixV2 @ nonce) sig \<and> ar_clientId r = hexEncode pub"
  using assms
  by (fastforce simp: verifyClientAuth_def Let_def AuthRun0_def dest: authChallenge_SomeD
      split: option.splits prod.splits if_splits)

lemma and_kCapZlib: "x AND kCapZlib = kCapNone \<or> x AND kCapZlib = kCapZlib"
  by (simp add: kCapZlib_def kCapNone_def and_one_eq mod2_eq_if)

lemma verifyClientAuth_caps:
  "verifyClientAuth readFn w rand verify keys s = (r, s') \<Longrightarrow>
    ar_negotiatedCaps r = kCapNone \<or> ar_isV3 r \<and> ar_negotiatedCaps r = kCapZlib"
  using and_kCapZlib
  by (fastforce simp: verifyClientAuth_def Let_def AuthRun0_def split: option.splits prod.splits if_splits)

context byte_stream
begin

lemma authChallenge_accepts:
  assumes "holds s (pub @ sig @ ext @ q)" "length pub = kAuthPubkeyLen" "length sig = kAuthSignatureLen"
    "pub \<in> set keys" "verify pub (kAuthSignPrefixV2 @ nonce) sig"
  shows "\<exists>s'. authChallenge readN True (Some nonce) verify keys (length ext) s =
    ((Some (pub, ext), nonce), s') \<and> holds s' q"
proof -
  obtain s' where "readN (length (pub @ sig @ ext)) s = (Some (pub @ sig @ ext), s')" "holds s' q"
    using read_append [of s "pub @ sig @ ext" q] assms(1) by auto
  with assms show ?thesis by (simp add: authChallenge_def allowedKeysContains_iff add.assoc)
qed

lemma verifyClientAuth_v3:
  assumes "holds s (kAuthVersionV3 # pub @ sig @ [caps] @ q)" "length pub = kAuthPubkeyLen"
    "length sig = kAuthSignatureLen" "pub \<in> set keys" "verify pub (kAuthSignPrefixV2 @ nonce) sig"
  shows "\<exists>s'. verifyClientAuth readN True (Some nonce) verify keys s =
    (\<lparr> ar_clientId = hexEncode pub, ar_attemptedVersion = 0, ar_negotiatedCaps = caps AND kCapZlib,
       ar_isV3 = True, ar_sent = nonce \<rparr>, s') \<and> holds s' q"
proof -
  obtain s1 where s1: "readN 1 s = (Some [kAuthVersionV3], s1)" "holds s1 (pub @ sig @ [caps] @ q)"
    using read_append [of s "[kAuthVersionV3]"] assms(1) by auto
  from authChallenge_accepts [of s1 pub sig "[caps]" q keys verify nonce, OF s1(2) assms(2-5)] s1(1) assms(4)
  show ?thesis by (auto simp: verifyClientAuth_def AuthRun0_def auth_const_defs)
qed

lemma performClientAuth_accepted:
  assumes "holds s (nonce @ kAuthResultOk # caps # q)" "length nonce = kAuthNonceLen" "client_ok key verify"
  shows "\<exists>s' sig. performClientAuth readN True (Some (Inr key)) compress s =
    ((Inr caps, kAuthVersionV3 # id_pubkey key @ sig @ [if compress then kCapZlib else kCapNone]), s') \<and>
    holds s' q \<and> id_sign key (kAuthSignPrefixV2 @ nonce) = Some sig"
proof -
  obtain s1 where s1: "readN kAuthNonceLen s = (Some nonce, s1)" "holds s1 ([kAuthResultOk] @ caps # q)"
    using read_append [OF assms(1)] assms(2) by auto
  obtain s2 where s2: "readN 1 s1 = (Some [kAuthResultOk], s2)" "holds s2 ([caps] @ q)"
    using read_append [OF s1(2)] by auto
  obtain s3 where s3: "readN 1 s2 = (Some [caps], s3)" "holds s3 q"
    using read_append [OF s2(2)] by auto
  obtain sig where "id_sign key (kAuthSignPrefixV2 @ nonce) = Some sig"
    using assms(3) by (auto simp: client_ok_def)
  with s1(1) s2(1) s3 show ?thesis by (simp add: performClientAuth_def)
qed

end

text \<open>Raw TLS: \<open>readExact\<close> on the connection itself.\<close>

definition tls_readExact :: "bytes readFn" where
  "tls_readExact n inp = (case sslReadBlock n inp of None \<Rightarrow> (None, []) | Some (x, r) \<Rightarrow> (Some x, r))"

interpretation tlsin: byte_stream "(=)" tls_readExact
  by unfold_locales (auto simp: tls_readExact_def sslReadBlock_def)

section \<open>Properties\<close>

text \<open>
  C5.  Authentication is sound: if \<open>verifyClientAuth\<close> returns a client id, over any transport, then
  it is the hexadecimal form of a 32-byte key of the allow list, and that key verified a signature
  over the protocol prefix and the very nonce the server generated for this connection and sent;
  compression is negotiated with version-3 clients only.
\<close>

theorem auth_sound:
  assumes "verifyClientAuth readFn writeOk rand verify keys s = (r, s')" "ar_clientId r \<noteq> []"
  shows "(\<exists>nonce pub sig. rand = Some nonce \<and> ar_sent r = nonce \<and> pub \<in> set keys \<and>
      length pub = kAuthPubkeyLen \<and> verify pub (kAuthSignPrefixV2 @ nonce) sig \<and>
      ar_clientId r = hexEncode pub) \<and>
    (ar_negotiatedCaps r = kCapNone \<or> ar_isV3 r \<and> ar_negotiatedCaps r = kCapZlib)"
  using verifyClientAuth_acceptedD [OF assms] verifyClientAuth_caps [OF assms(1)] by blast

theorem auth_sound_witness:
  "\<exists>r s'. verifyClientAuth tls_readExact True (Some (replicate 32 7)) (\<lambda>pub m sig. hd sig = hd pub)
      [replicate 32 5] (3 # replicate 32 5 @ replicate 64 5 @ [1]) = (r, s') \<and>
    (ar_negotiatedCaps r = kCapNone \<or> ar_isV3 r \<and> ar_negotiatedCaps r = kCapZlib)"
proof -
  let ?v = "\<lambda>pub m sig. hd sig = hd (pub :: bytes)"
  obtain s' where "verifyClientAuth tls_readExact True (Some (replicate 32 7)) ?v [replicate 32 5]
      (3 # replicate 32 5 @ replicate 64 5 @ [1]) =
    (\<lparr> ar_clientId = hexEncode (replicate 32 5), ar_attemptedVersion = 0, ar_negotiatedCaps = 1 AND kCapZlib,
       ar_isV3 = True, ar_sent = replicate 32 7 \<rparr>, s')"
    using tlsin.verifyClientAuth_v3 [of _ "replicate 32 5" "replicate 64 5" 1 "[]" "[replicate 32 5]" ?v "replicate 32 7"]
    by (auto simp: auth_const_defs)
  moreover from this have "hexEncode (replicate 32 (5 :: byte)) \<noteq> []"
    by (simp add: hexEncode_def)
  ultimately show ?thesis using auth_sound by fastforce
qed

text \<open>
  C31.  Authentication is complete, and the two programs agree: a client whose key is on the allow
  list and whose signatures verify is accepted by the server, over WebSocket frames of any sizes,
  under the id of its key; from the server's nonce and result bytes the client concludes success
  with the same capabilities, namely compression exactly if it asked for it.
\<close>

theorem auth_handshake_agrees:
  assumes "client_ok key verify" "id_pubkey key \<in> set keys" "length nonce = kAuthNonceLen"
    and "id_sign key (kAuthSignPrefixV2 @ nonce) = Some sig"
    and "msg = kAuthVersionV3 # id_pubkey key @ sig @ [if compress then kCapZlib else kCapNone]"
    and "ws_holds s msg"
  shows "\<exists>r s'. verifyClientAuth (\<lambda>n. ws_readExact n e n) True (Some nonce) verify keys s = (r, s') \<and>
    ar_clientId r = hexEncode (id_pubkey key) \<and> ar_sent r = nonce \<and>
    performClientAuth tls_readExact True (Some (Inr key)) compress (ar_sent r @ authReply r) =
      ((Inr (if compress then kCapZlib else kCapNone), msg), [])"
proof -
  let ?caps = "if compress then kCapZlib else kCapNone"
  have k: "length (id_pubkey key) = kAuthPubkeyLen" "length sig = kAuthSignatureLen"
    "verify (id_pubkey key) (kAuthSignPrefixV2 @ nonce) sig"
    using assms(1,4) by (auto simp: client_ok_def) (metis option.inject)+
  have "ws_holds s (kAuthVersionV3 # id_pubkey key @ sig @ [?caps] @ [])" using assms(5,6) by simp
  from wsin.verifyClientAuth_v3 [where verify = verify and nonce = nonce, OF this k(1,2) assms(2) k(3)] obtain s' where
    v: "verifyClientAuth (\<lambda>n. ws_readExact n e n) True (Some nonce) verify keys s =
      (\<lparr> ar_clientId = hexEncode (id_pubkey key), ar_attemptedVersion = 0, ar_negotiatedCaps = ?caps AND kCapZlib,
         ar_isV3 = True, ar_sent = nonce \<rparr>, s')" by blast
  have "?caps AND kCapZlib = ?caps" by (simp add: auth_const_defs)
  moreover have "hexEncode (id_pubkey key) \<noteq> []"
    using k(1) by (auto simp: kAuthPubkeyLen_def)
  ultimately show ?thesis
    using v tlsin.performClientAuth_accepted [of _ nonce ?caps "[]" key verify compress, OF refl assms(3,1)] assms(4,5)
    by (auto simp: authReply_def)
qed

theorem auth_handshake_agrees_witness:
  "\<exists>r s'. verifyClientAuth (\<lambda>n. ws_readExact n Disconnected n) True (Some (replicate 32 7))
      (\<lambda>pub m sig. hd sig = hd pub) [replicate 32 5]
      \<lparr> ws_buf = [], ws_bufPos = 0, ws_timedOut = False, ws_in =
        client_frames [([3], [1, 2, 3, 4]), (replicate 32 5 @ replicate 64 5 @ [1], [0, 0, 1, 1])] \<rparr> = (r, s') \<and>
    ar_clientId r = hexEncode (replicate 32 5)"
proof -
  let ?key = "\<lparr> id_pubkey = replicate 32 5, id_sign = (\<lambda>_. Some (replicate 64 5)) \<rparr>"
  let ?v = "\<lambda>pub m sig. hd sig = hd (pub :: bytes)"
  let ?fs = "[([3], [1, 2, 3, 4]), (replicate 32 5 @ replicate 64 5 @ [1], [0, 0, 1, 1])] :: (bytes \<times> bytes) list"
  have "client_ok ?key ?v" by (simp add: client_ok_def auth_const_defs)
  moreover have "ws_holds \<lparr> ws_buf = [], ws_bufPos = 0, ws_timedOut = False, ws_in = client_frames ?fs \<rparr>
      (kAuthVersionV3 # id_pubkey ?key @ replicate 64 5 @ [if True then kCapZlib else kCapNone])"
    unfolding ws_holds_def by (rule exI [of _ ?fs]) (simp add: frames_ok_def auth_const_defs)
  ultimately show ?thesis
    using auth_handshake_agrees [of ?key ?v "[replicate 32 5]" "replicate 32 7" "replicate 64 5" _ True _ Disconnected, OF _ _ _ _ refl]
    by (fastforce simp: auth_const_defs)
qed

end
