(* ===== verification/FlowAgg.thy ===== *)
theory FlowAgg
  imports Wire
begin

text \<open>
  Flow aggregation of the client: the adaptive flush interval of \<open>flow_aggregator.hpp\<close>, and the way
  of a captured packet into the flow table (\<open>handlePacket\<close>, \<open>accumulateFlow\<close> of
  \<open>client_impl.cpp\<close>).

  The interval is smoothed with 32-bit floating-point arithmetic, which is modelled exactly: a
  non-negative float is an integer in a fixed binary unit, rounded to 24 significant bits, ties to
  even.  \<open>inet_ntop\<close> is an argument.
\<close>

section \<open>Binary floating point\<close>

fun bitlen :: "nat \<Rightarrow> nat" where
  "bitlen n = (if n = 0 then 0 else Suc (bitlen (n div 2)))"

declare bitlen.simps [simp del]

text \<open>Rounding of an exact result to \<open>float\<close> (round to nearest, ties to even).\<close>

definition round24 :: "nat \<Rightarrow> nat" where
  "round24 n =
     (if n < 2 ^ 24 then n
      else let sh = bitlen n - 24; q = n div 2 ^ sh; r = n mod 2 ^ sh; half = 2 ^ (sh - 1)
           in (if half < r \<or> r = half \<and> odd q then q + 1 else q) * 2 ^ sh)"

text \<open>\<open>0.7f\<close> is \<open>11744051 / 2 ^ 24\<close> and \<open>0.3f\<close> is \<open>10066330 / 2 ^ 25\<close>.  The sum is in units of
  \<open>2 ^ -25\<close>; the conversion to an integer truncates.\<close>

definition ema :: "nat \<Rightarrow> nat \<Rightarrow> nat" where
  "ema cur desired =
     (let p = round24 (round24 cur * 11744051);
          q = round24 (round24 desired * 10066330)
      in round24 (2 * p + q) div 2 ^ 25)"

section \<open>The adaptive interval\<close>

record AdaptiveInterval =
  targetLinesPerSec :: u32
  minIntervalMs :: u32
  maxIntervalMs :: u32
  currentMs :: u32

definition newInterval :: "u32 \<Rightarrow> u32 \<Rightarrow> u32 \<Rightarrow> AdaptiveInterval" where
  "newInterval target mn mx =
     \<lparr> targetLinesPerSec = target, minIntervalMs = mn, maxIntervalMs = mx, currentMs = mn \<rparr>"

definition desiredMs :: "u32 \<Rightarrow> AdaptiveInterval \<Rightarrow> u32" where
  "desiredMs flowsEmitted a =
     (if flowsEmitted = 0 \<or> targetLinesPerSec a = 0 then maxIntervalMs a
      else let d = (ucast flowsEmitted * 1000 :: u64) div ucast (targetLinesPerSec a)
           in if d > ucast (maxIntervalMs a) then maxIntervalMs a
              else if d < ucast (minIntervalMs a) then minIntervalMs a else ucast d)"

text \<open>\<open>std::clamp\<close> requires \<open>lo \<le> hi\<close>; \<open>None\<close> stands for the undefined behaviour otherwise, and for
  that of converting a float beyond the range of the integer.\<close>

definition clampU :: "u32 \<Rightarrow> u32 \<Rightarrow> u32 \<Rightarrow> u32 option" where
  "clampU v lo hi = (if hi < lo then None else Some (if v < lo then lo else if hi < v then hi else v))"

definition updateInterval :: "u32 \<Rightarrow> AdaptiveInterval \<Rightarrow> AdaptiveInterval option" where
  "updateInterval flowsEmitted a =
     (let n = ema (unat (currentMs a)) (unat (desiredMs flowsEmitted a)) in
      if n \<ge> 2 ^ 32 then None
      else map_option (\<lambda>c. a\<lparr> currentMs := c \<rparr>) (clampU (of_nat n) (minIntervalMs a) (maxIntervalMs a)))"

definition resetInterval :: "AdaptiveInterval \<Rightarrow> AdaptiveInterval" where
  "resetInterval a = a\<lparr> currentMs := minIntervalMs a \<rparr>"

section \<open>From packet to flow table\<close>

record AggFlowKey =
  ak_iface :: string
  ak_srcIp :: string
  ak_dstIp :: string

type_synonym AggFlowMap = "(AggFlowKey \<times> u64) list"

datatype LinkType = DLT_EN10MB | DLT_LINUX_SLL | DLT_LINUX_SLL2 | DLT_OTHER

definition ipv4_header_size :: nat where "ipv4_header_size = 20"
definition ipv6_header_size :: nat where "ipv6_header_size = 40"

definition be16 :: "bytes \<Rightarrow> nat \<Rightarrow> nat" where
  "be16 p i = unat (p ! i) * 256 + unat (p ! (i + 1))"

definition slice :: "nat \<Rightarrow> nat \<Rightarrow> bytes \<Rightarrow> bytes" where
  "slice i n p = take n (drop i p)"

text \<open>The offset of the IP header and whether it is IPv6.\<close>

definition etherType :: "nat \<Rightarrow> nat \<Rightarrow> bytes \<Rightarrow> (nat \<times> bool) option" where
  "etherType at off packet =
     (if be16 packet at = 0x0800 then Some (off, False)
      else if be16 packet at = 0x86DD then Some (off, True) else None)"

definition l3Offset :: "LinkType \<Rightarrow> nat \<Rightarrow> bytes \<Rightarrow> (nat \<times> bool) option" where
  "l3Offset linkType caplen packet =
     (case linkType of
        DLT_EN10MB \<Rightarrow> if caplen < 14 then None else etherType 12 14 packet
      | DLT_LINUX_SLL \<Rightarrow> if caplen < 16 then None else etherType 14 16 packet
      | DLT_LINUX_SLL2 \<Rightarrow> if caplen < 16 then None else etherType 14 16 packet
      | DLT_OTHER \<Rightarrow> None)"

definition handlePacket :: "(bytes \<Rightarrow> string option) \<Rightarrow> (bytes \<Rightarrow> string option) \<Rightarrow> LinkType \<Rightarrow> string \<Rightarrow>
    nat \<Rightarrow> u32 \<Rightarrow> bytes \<Rightarrow> PacketMeta option" where
  "handlePacket ntop4 ntop6 linkType label caplen wireLen packet =
     (case l3Offset linkType caplen packet of None \<Rightarrow> None
      | Some (l3, isV6) \<Rightarrow>
          if \<not> isV6 \<and> caplen < l3 + ipv4_header_size then None
          else if isV6 \<and> caplen < l3 + ipv6_header_size then None
          else
            (case (if isV6 then ntop6 (slice (l3 + 8) 16 packet) else ntop4 (slice (l3 + 12) 4 packet)) of None \<Rightarrow> None
             | Some src \<Rightarrow>
               (case (if isV6 then ntop6 (slice (l3 + 24) 16 packet) else ntop4 (slice (l3 + 16) 4 packet)) of None \<Rightarrow> None
                | Some dst \<Rightarrow> Some \<lparr> pm_iface = label, pm_srcIp = src, pm_dstIp = dst, pm_bytes = wireLen \<rparr>)))"

definition flowKey :: "PacketMeta \<Rightarrow> AggFlowKey" where
  "flowKey m = \<lparr> ak_iface = pm_iface m, ak_srcIp = pm_srcIp m, ak_dstIp = pm_dstIp m \<rparr>"

text \<open>The result says whether the sender is notified because the table is full.\<close>

definition accumulateFlow :: "u32 \<Rightarrow> PacketMeta \<Rightarrow> AggFlowMap \<Rightarrow> bool \<times> AggFlowMap" where
  "accumulateFlow aggMaxFlows meta table =
     (let t = upd_at 0 (flowKey meta) (\<lambda>n. n + ucast (pm_bytes meta)) table
      in (length t \<ge> unat aggMaxFlows, t))"

section \<open>Lemmas: rounding\<close>

lemma bitlen_bounds: "0 < n \<Longrightarrow> 2 ^ (bitlen n - 1) \<le> n \<and> n < 2 ^ bitlen n \<and> 0 < bitlen n"
proof (induction n rule: bitlen.induct)
  case (1 n)
  show ?case
  proof (cases "n div 2 = 0")
    case True
    then have "n = 1" using 1(2) by simp
    then show ?thesis by (simp add: bitlen.simps)
  next
    case False
    with 1 have i: "2 ^ (bitlen (n div 2) - 1) \<le> n div 2" "n div 2 < 2 ^ bitlen (n div 2)" "0 < bitlen (n div 2)"
      by auto
    have b: "bitlen n = Suc (bitlen (n div 2))" using 1(2) by (subst bitlen.simps) simp
    obtain k where k: "bitlen (n div 2) = Suc k" using i(3) by (cases "bitlen (n div 2)") auto
    have "x \<le> n div 2 \<Longrightarrow> n div 2 < 2 * x \<Longrightarrow> 2 * x \<le> n \<and> n < 4 * x" for x by presburger
    from this [of "2 ^ k"] show ?thesis using i unfolding b k by simp
  qed
qed

text \<open>Rounding changes a value by at most one part in \<open>2 ^ 24\<close>.\<close>

lemma round24_error: "2 ^ 24 * round24 n \<le> (2 ^ 24 + 1) * n" "(2 ^ 24 - 1) * n \<le> 2 ^ 24 * round24 n"
proof -
  have "2 ^ 24 * round24 n \<le> (2 ^ 24 + 1) * n \<and> (2 ^ 24 - 1) * n \<le> 2 ^ 24 * round24 n"
  proof (cases "n < 2 ^ 24")
    case True
    then show ?thesis by (simp add: round24_def)
  next
    case False
    define sh where "sh = bitlen n - 24"
    define q where "q = n div 2 ^ sh"
    define r where "r = n mod 2 ^ sh"
    have b: "2 ^ (bitlen n - 1) \<le> n" "n < 2 ^ bitlen n" using bitlen_bounds [of n] False by auto
    have len: "24 < bitlen n"
    proof (rule ccontr)
      assume "\<not> 24 < bitlen n"
      then have "(2 :: nat) ^ bitlen n \<le> 2 ^ 24" by (intro power_increasing) auto
      with b(2) False show False by simp
    qed
    define k where "k = bitlen n - 25"
    have k: "sh = Suc k" "bitlen n = 25 + k" using len by (simp_all add: k_def sh_def)
    have n: "n = q * 2 ^ sh + r" unfolding q_def r_def by (rule div_mult_mod_eq [symmetric])
    have r: "r < 2 * 2 ^ k" by (simp add: r_def k)
    have h: "2 ^ 24 * 2 ^ k \<le> n" using b(1) by (simp add: k power_add)
    have R: "round24 n = (if 2 ^ k < r \<or> r = 2 ^ k \<and> odd q then q + 1 else q) * 2 ^ sh"
    proof -
      have "round24 n = (if 2 ^ (sh - 1) < r \<or> r = 2 ^ (sh - 1) \<and> odd q then q + 1 else q) * 2 ^ sh"
        by (simp only: round24_def Let_def False if_False sh_def q_def r_def)
      then show ?thesis by (simp only: k(1) diff_Suc_1)
    qed
    let ?p = "2 ^ k :: nat"
    have n': "n = q * (2 * ?p) + r" using n by (simp add: k(1))
    have "round24 n = (if ?p < r \<or> r = ?p \<and> odd q then q + 1 else q) * (2 * ?p)" using R by (simp add: k(1))
    then have up: "round24 n \<le> n + ?p" and down: "n \<le> round24 n + ?p"
      using r n' by (auto simp: algebra_simps split: if_splits)
    have "2 ^ 24 * ?p \<le> n" using h .
    with up down show ?thesis by simp
  qed
  then show "2 ^ 24 * round24 n \<le> (2 ^ 24 + 1) * n" "(2 ^ 24 - 1) * n \<le> 2 ^ 24 * round24 n" by auto
qed

lemma round24_near: "n \<le> 16777216 * k \<Longrightarrow> round24 n \<le> n + k \<and> n \<le> round24 n + k"
  using round24_error [of n] by simp

text \<open>One step of the moving average, up to eleven thousandths, for values up to a minute.\<close>

lemma ema_bounds:
  assumes "c \<le> 60000" "d \<le> 60000"
  shows "1000 * ema c d \<le> 700 * c + 300 * d + 11" "700 * c + 300 * d < 1000 * ema c d + 1011"
proof -
  define p where "p = round24 (c * 11744051)"
  define q where "q = round24 (d * 10066330)"
  define s where "s = round24 (2 * p + q)"
  have "round24 c = c" "round24 d = d" using assms by (simp_all add: round24_def)
  then have e: "ema c d = s div 33554432" by (simp add: ema_def Let_def p_def q_def s_def)
  have "c * 11744051 \<le> 16777216 * 42000" "d * 10066330 \<le> 16777216 * 36001" using assms by linarith+
  then have p: "p \<le> c * 11744051 + 42000" "c * 11744051 \<le> p + 42000"
    and q: "q \<le> d * 10066330 + 36001" "d * 10066330 \<le> q + 36001"
    using round24_near by (simp_all add: p_def q_def)
  then have "2 * p + q \<le> 16777216 * 120001" using assms by linarith
  then have s: "s \<le> 2 * p + q + 120001" "2 * p + q \<le> s + 120001"
    using round24_near [of "2 * p + q"] by (simp_all add: s_def)
  have s': "s \<le> 23488102 * c + 10066330 * d + 240005" "23488102 * c + 10066330 * d \<le> s + 240005"
    using p q s by linarith+
  have E: "33554432 * ema c d \<le> s" "s < 33554432 * (ema c d + 1)" unfolding e by simp_all
  show "1000 * ema c d \<le> 700 * c + 300 * d + 11" using s'(1) E(1) assms by linarith
  have "33554432 * (700 * c + 300 * d) \<le> 1000 * (23488102 * c + 10066330 * d) + 24000000"
    using assms(1) by simp
  also have "1000 * (23488102 * c + 10066330 * d) \<le> 1000 * (s + 240005)" by (rule mult_le_mono2 [OF s'(2)])
  also have "1000 * (s + 240005) + 24000000 < 33554432 * (1000 * ema c d + 1008)" using E(2) by simp
  finally show "700 * c + 300 * d < 1000 * ema c d + 1011" by simp
qed

section \<open>Lemmas: the controller\<close>

lemma ema_step:
  assumes "c \<le> 60000" "d \<le> 60000" "c \<le> d + A" "d \<le> c + B" "3 \<le> B"
  shows "ema c d \<le> d + (700 * A + 11) div 1000" "d \<le> ema c d + (700 * B + 1010) div 1000"
proof -
  note e = ema_bounds [OF assms(1,2)]
  have "1000 * ema c d \<le> 1000 * d + (700 * A + 11)" using e(1) assms(3) by simp
  then show "ema c d \<le> d + (700 * A + 11) div 1000" by linarith
  have "1000 * d \<le> 1000 * ema c d + (700 * B + 1010)" using e(2) assms(4) by simp
  then show "d \<le> ema c d + (700 * B + 1010) div 1000" by linarith
qed

lemma ema_stalls: "c + 3 \<le> d \<Longrightarrow> d \<le> 60000 \<Longrightarrow> ema c d + 3 \<le> d"
  using ema_bounds(1) [of c d] by simp

definition interval_ok :: "AdaptiveInterval \<Rightarrow> bool" where
  "interval_ok a \<longleftrightarrow> minIntervalMs a \<le> currentMs a \<and> currentMs a \<le> maxIntervalMs a \<and>
     unat (maxIntervalMs a) \<le> 60000"

fun runUpdates :: "u32 list \<Rightarrow> AdaptiveInterval \<Rightarrow> AdaptiveInterval option" where
  "runUpdates [] a = Some a"
| "runUpdates (f # fs) a = (case updateInterval f a of None \<Rightarrow> None | Some a' \<Rightarrow> runUpdates fs a')"

lemma desiredMs_update [simp]: "desiredMs f (a\<lparr> currentMs := k \<rparr>) = desiredMs f a"
  by (simp add: desiredMs_def Let_def)

lemma desiredMs_range:
  assumes "minIntervalMs a \<le> maxIntervalMs a"
  shows "minIntervalMs a \<le> desiredMs f a \<and> desiredMs f a \<le> maxIntervalMs a"
proof -
  have "unat (ucast d :: u32) = unat d" if "unat d \<le> unat (m :: u32)" for d :: u64 and m
    using that unat_u32_less [of m] by (simp add: unat_ucast)
  then show ?thesis
    using assms
    by (auto simp: desiredMs_def Let_def word_less_nat_alt word_le_nat_alt not_less split: if_splits)
qed

lemma updateInterval_cases:
  assumes "interval_ok a"
  shows "\<exists>a'. updateInterval f a = Some a' \<and> interval_ok a' \<and>
    (\<exists>c. a' = a\<lparr> currentMs := c \<rparr>) \<and>
    (let e = ema (unat (currentMs a)) (unat (desiredMs f a)) in
     unat (currentMs a') = (if e < unat (minIntervalMs a) then unat (minIntervalMs a)
        else if unat (maxIntervalMs a) < e then unat (maxIntervalMs a) else e))"
proof -
  let ?e = "ema (unat (currentMs a)) (unat (desiredMs f a))"
  have ok: "minIntervalMs a \<le> maxIntervalMs a" "unat (currentMs a) \<le> 60000" "unat (maxIntervalMs a) \<le> 60000"
    using assms by (auto simp: interval_ok_def word_le_nat_alt)
  have d: "unat (desiredMs f a) \<le> 60000"
    using desiredMs_range [OF ok(1), of f] ok(3) by (simp add: word_le_nat_alt)
  have e: "?e \<le> 60001" using ema_bounds(1) [OF ok(2) d] ok(2) d by simp
  then have u: "unat (of_nat ?e :: u32) = ?e" by (simp add: unat_of_nat)
  have e32: "\<not> 2 ^ 32 \<le> ?e" using e by simp
  obtain v where v: "clampU (of_nat ?e) (minIntervalMs a) (maxIntervalMs a) = Some v"
    "unat v = (if ?e < unat (minIntervalMs a) then unat (minIntervalMs a)
        else if unat (maxIntervalMs a) < ?e then unat (maxIntervalMs a) else ?e)"
    using ok(1) u by (auto simp: clampU_def word_less_nat_alt word_le_nat_alt)
  have "updateInterval f a = Some (a\<lparr> currentMs := v \<rparr>)"
    using e32 v(1) by (simp add: updateInterval_def)
  moreover have "interval_ok (a\<lparr> currentMs := v \<rparr>)"
    using ok v(2) by (auto simp: interval_ok_def word_le_nat_alt)
  moreover have "\<exists>c. a\<lparr> currentMs := v \<rparr> = a\<lparr> currentMs := c \<rparr>" by (rule exI) (rule refl)
  ultimately show ?thesis using v(2)
    by (intro exI [of _ "a\<lparr> currentMs := v \<rparr>"]) (simp add: Let_def)
qed

lemma runUpdates_ok: "interval_ok a \<Longrightarrow>
  \<exists>a'. runUpdates fs a = Some a' \<and> interval_ok a' \<and> (\<exists>c. a' = a\<lparr> currentMs := c \<rparr>)"
proof (induction fs arbitrary: a)
  case Nil
  have "a = a\<lparr> currentMs := currentMs a \<rparr>" by simp
  then have "\<exists>c. a = a\<lparr> currentMs := c \<rparr>" by (rule exI)
  with Nil show ?case by simp
next
  case (Cons f fs)
  from updateInterval_cases [OF Cons.prems, of f] obtain a1 c where a1: "updateInterval f a = Some a1"
    "interval_ok a1" "a1 = a\<lparr> currentMs := c \<rparr>" by blast
  from Cons.IH [OF a1(2)] a1 show ?case by auto
qed

text \<open>The distance to the desired interval after \<open>n\<close> steps, above and below.\<close>

fun dist_up :: "nat \<Rightarrow> nat \<Rightarrow> nat" where
  "dist_up 0 A = A"
| "dist_up (Suc n) A = dist_up n ((700 * A + 11) div 1000)"

fun dist_down :: "nat \<Rightarrow> nat \<Rightarrow> nat" where
  "dist_down 0 B = B"
| "dist_down (Suc n) B = dist_down n ((700 * B + 1010) div 1000)"

lemma dist_fix: "dist_up n 0 = 0" "dist_down n 3 = 3"
  by (induction n) simp_all

lemma dist_add: "dist_up (m + n) A = dist_up n (dist_up m A)" "dist_down (m + n) B = dist_down n (dist_down m B)"
  by (induction m arbitrary: A B) simp_all

lemma dist_numeral:
  "dist_up (numeral k) A = dist_up (pred_numeral k) ((700 * A + 11) div 1000)"
  "dist_down (numeral k) B = dist_down (pred_numeral k) ((700 * B + 1010) div 1000)"
  unfolding numeral_eq_Suc [of k] by simp_all

lemma dist_40: "dist_up 40 60000 = 0" "dist_down 40 60000 = 3"
  by (simp_all add: dist_numeral)

lemma dist_settles: "40 \<le> n \<Longrightarrow> dist_up n 60000 = 0 \<and> dist_down n 60000 = 3"
  using dist_add(1) [of 40 "n - 40" 60000] dist_add(2) [of 40 "n - 40" 60000] by (simp add: dist_40 dist_fix)

lemma run_same_flows:
  assumes "interval_ok a" "d = unat (desiredMs f a)" "unat (currentMs a) \<le> d + A" "d \<le> unat (currentMs a) + B" "3 \<le> B"
  shows "\<exists>a'. runUpdates (replicate n f) a = Some a' \<and>
    unat (currentMs a') \<le> d + dist_up n A \<and> d \<le> unat (currentMs a') + dist_down n B"
  using assms
proof (induction n arbitrary: a A B)
  case (Suc n)
  let ?c = "unat (currentMs a)"
  from updateInterval_cases [OF Suc.prems(1), of f] obtain a1 k where a1: "updateInterval f a = Some a1"
    "interval_ok a1" "a1 = a\<lparr> currentMs := k \<rparr>"
    and v: "unat (currentMs a1) = (if ema ?c d < unat (minIntervalMs a) then unat (minIntervalMs a)
        else if unat (maxIntervalMs a) < ema ?c d then unat (maxIntervalMs a) else ema ?c d)"
    by (auto simp: Let_def Suc.prems(2))
  have mm: "minIntervalMs a \<le> maxIntervalMs a" "?c \<le> 60000" "unat (maxIntervalMs a) \<le> 60000"
    using Suc.prems(1) by (auto simp: interval_ok_def word_le_nat_alt)
  have d: "unat (minIntervalMs a) \<le> d" "d \<le> unat (maxIntervalMs a)"
    using desiredMs_range [OF mm(1), of f] by (simp_all add: Suc.prems(2) word_le_nat_alt)
  have d1: "d = unat (desiredMs f a1)"
    using Suc.prems(2) a1(3) by simp
  note e = ema_step [OF mm(2) _ Suc.prems(3-5)]
  have "unat (currentMs a1) \<le> d + (700 * A + 11) div 1000" "d \<le> unat (currentMs a1) + (700 * B + 1010) div 1000"
    using e d mm(3) unfolding v by auto
  moreover have "3 \<le> (700 * B + 1010) div 1000" using Suc.prems(5) by simp
  ultimately show ?case using Suc.IH [OF a1(2) d1] a1(1) by simp
qed simp

lemma run_idle_below:
  assumes "interval_ok a" "unat (currentMs a) + 3 \<le> unat (maxIntervalMs a)" "runUpdates (replicate n 0) a = Some a'"
  shows "unat (currentMs a') + 3 \<le> unat (maxIntervalMs a)"
  using assms
proof (induction n arbitrary: a)
  case (Suc n)
  have d: "desiredMs 0 a = maxIntervalMs a" by (simp add: desiredMs_def)
  from updateInterval_cases [OF Suc.prems(1), of 0] obtain a1 k where a1: "updateInterval 0 a = Some a1"
    "interval_ok a1" "a1 = a\<lparr> currentMs := k \<rparr>"
    and v: "let e = ema (unat (currentMs a)) (unat (maxIntervalMs a)) in
       unat (currentMs a1) = (if e < unat (minIntervalMs a) then unat (minIntervalMs a)
        else if unat (maxIntervalMs a) < e then unat (maxIntervalMs a) else e)"
    unfolding d by blast
  have m: "maxIntervalMs a1 = maxIntervalMs a" using a1(3) by simp
  have "unat (maxIntervalMs a) \<le> 60000" "unat (minIntervalMs a) \<le> unat (currentMs a)"
    using Suc.prems(1) by (auto simp: interval_ok_def word_le_nat_alt)
  then have "unat (currentMs a1) + 3 \<le> unat (maxIntervalMs a1)"
    using ema_stalls [OF Suc.prems(2)] Suc.prems(2) v unfolding m Let_def by (auto split: if_splits)
  with Suc.IH [OF a1(2)] Suc.prems(3) a1(1) m show ?case by simp
qed simp

section \<open>Properties\<close>

text \<open>
  The adaptive interval is a stable controller.  With bounds in order and of at most a minute,
  any sequence of flush counts keeps it defined and within its bounds; under a constant load it comes
  within three milliseconds below the desired interval in at most forty flushes and stays there; and
  without traffic, where it should back off to the maximum, it settles at exactly three milliseconds
  less and never reaches it, because the average is truncated.
\<close>

lemma interval_settles:
  assumes "interval_ok a" "d = unat (desiredMs f a)" "40 \<le> n"
  shows "(\<forall>fs. \<exists>a'. runUpdates fs a = Some a' \<and> interval_ok a' \<and> (\<exists>c. a' = a\<lparr> currentMs := c \<rparr>)) \<and>
    (\<exists>a'. runUpdates (replicate n f) a = Some a' \<and> unat (currentMs a') \<le> d \<and> d \<le> unat (currentMs a') + 3) \<and>
    (unat (currentMs a) + 3 \<le> unat (maxIntervalMs a) \<longrightarrow>
       (\<exists>a'. runUpdates (replicate n 0) a = Some a' \<and> unat (currentMs a') + 3 = unat (maxIntervalMs a)))"
proof -
  have c: "unat (currentMs a) \<le> 60000" using assms(1) by (auto simp: interval_ok_def word_le_nat_alt)
  have mm: "minIntervalMs a \<le> maxIntervalMs a" "unat (maxIntervalMs a) \<le> 60000"
    using assms(1) by (auto simp: interval_ok_def)
  have settle: "\<exists>a'. runUpdates (replicate n g) a = Some a' \<and> unat (currentMs a') \<le> unat (desiredMs g a) \<and>
      unat (desiredMs g a) \<le> unat (currentMs a') + 3" for g
  proof -
    have "unat (desiredMs g a) \<le> 60000"
      using desiredMs_range [OF mm(1), of g] mm(2) by (simp add: word_le_nat_alt)
    then show ?thesis
      using run_same_flows [OF assms(1) refl, of g 60000 60000 n] c dist_settles [OF assms(3)] by auto
  qed
  have "\<exists>a'. runUpdates (replicate n 0) a = Some a' \<and> unat (currentMs a') + 3 = unat (maxIntervalMs a)"
    if "unat (currentMs a) + 3 \<le> unat (maxIntervalMs a)"
  proof -
    obtain a' where a': "runUpdates (replicate n 0) a = Some a'"
      "unat (desiredMs 0 a) \<le> unat (currentMs a') + 3" using settle by blast
    from run_idle_below [OF assms(1) that a'(1)] a' show ?thesis by (auto simp: desiredMs_def)
  qed
  then show ?thesis using settle [of f] runUpdates_ok [OF assms(1)] assms(2) by blast
qed

lemma interval_settles_witness:
  "\<exists>a'. runUpdates (replicate 40 0) (newInterval 500 100 5000) = Some a' \<and> unat (currentMs a') = 4997"
proof -
  have "interval_ok (newInterval 500 100 5000)" "unat (currentMs (newInterval 500 100 5000)) + 3 \<le>
      unat (maxIntervalMs (newInterval 500 100 5000))"
    by (simp_all add: interval_ok_def newInterval_def)
  then show ?thesis
    using interval_settles [OF _ refl, of "newInterval 500 100 5000" 40 0] by (auto simp: newInterval_def)
qed

end
