(* ===== verification/Health.thy ===== *)
theory Health
  imports Wire
begin

text \<open>
  Health reports: \<open>parseHealthLine\<close> of \<open>ntm_types.hpp\<close> and the H-line that the client's sender
  loop (\<open>client_impl.cpp\<close>) writes every thirty seconds.
\<close>

section \<open>Data\<close>

record ClientHealthStats =
  pcapRecv :: u64
  pcapDrop :: u64
  bufDrop :: u64
  reportedAtSec :: int
  hs_version :: string
  hs_platform :: string
  wireProtoVersion :: u32
  aggIntervalMs :: u32
  aggFlows :: u32
  cfgTransport :: string
  cfgCompress :: int
  cfgSendBuffer :: u32
  cfgAutoUpdate :: int
  cfgReconnectAttempts :: u32
  cfgReconnectInterval :: u32
  cfgAggTarget :: u32
  cfgAggMinMs :: u32
  cfgAggMaxMs :: u32
  cfgAggMaxFlows :: u32
  cfgLogLevel :: string

definition ClientHealthStats0 :: ClientHealthStats where
  "ClientHealthStats0 = \<lparr> pcapRecv = 0, pcapDrop = 0, bufDrop = 0, reportedAtSec = -1,
     hs_version = [], hs_platform = [], wireProtoVersion = 0, aggIntervalMs = 0, aggFlows = 0,
     cfgTransport = [], cfgCompress = -1, cfgSendBuffer = 0, cfgAutoUpdate = -1,
     cfgReconnectAttempts = 0, cfgReconnectInterval = 0, cfgAggTarget = 0, cfgAggMinMs = 0,
     cfgAggMaxMs = 0, cfgAggMaxFlows = 0, cfgLogLevel = [] \<rparr>"

section \<open>Parsing\<close>

definition isHealthSep :: "char \<Rightarrow> bool" where
  "isHealthSep c \<longleftrightarrow> c = SP \<or> c = CR"

text \<open>The conversion lambdas: a throwing \<open>stoull\<close> leaves the field as it was.\<close>

definition toU64 :: "string \<Rightarrow> u64 \<Rightarrow> u64" where
  "toU64 val dst = (case stoul val of None \<Rightarrow> dst | Some v \<Rightarrow> v)"

definition toU32 :: "string \<Rightarrow> u32 \<Rightarrow> u32" where
  "toU32 val dst = (case stoul val of None \<Rightarrow> dst
     | Some v \<Rightarrow> if v > 0xFFFFFFFF then 0xFFFFFFFF else ucast v)"

definition toUint :: "string \<Rightarrow> u32 \<Rightarrow> u32" where
  "toUint val dst = (case stoul val of None \<Rightarrow> dst | Some v \<Rightarrow> ucast v)"

definition toI8Bool :: "string \<Rightarrow> int \<Rightarrow> int" where
  "toI8Bool val dst = (if val = ''1'' then 1 else if val = ''0'' then 0 else dst)"

definition applyField :: "string \<Rightarrow> string \<Rightarrow> ClientHealthStats \<Rightarrow> ClientHealthStats" where
  "applyField key val hs =
     (if key = ''pcap_recv'' then hs\<lparr> pcapRecv := toU64 val (pcapRecv hs) \<rparr>
      else if key = ''pcap_drop'' then hs\<lparr> pcapDrop := toU64 val (pcapDrop hs) \<rparr>
      else if key = ''buf_drop'' then hs\<lparr> bufDrop := toU64 val (bufDrop hs) \<rparr>
      else if key = ''wire_proto'' then hs\<lparr> wireProtoVersion := toUint val (wireProtoVersion hs) \<rparr>
      else if key = ''ver'' then hs\<lparr> hs_version := take 64 val \<rparr>
      else if key = ''platform'' then hs\<lparr> hs_platform := take 64 val \<rparr>
      else if key = ''agg_interval_ms'' then hs\<lparr> aggIntervalMs := toU32 val (aggIntervalMs hs) \<rparr>
      else if key = ''agg_flows'' then hs\<lparr> aggFlows := toU32 val (aggFlows hs) \<rparr>
      else if key = ''cfg_transport''
        then (if val = ''tcp'' \<or> val = ''websocket'' then hs\<lparr> cfgTransport := val \<rparr> else hs)
      else if key = ''cfg_compress'' then hs\<lparr> cfgCompress := toI8Bool val (cfgCompress hs) \<rparr>
      else if key = ''cfg_send_buffer'' then hs\<lparr> cfgSendBuffer := toU32 val (cfgSendBuffer hs) \<rparr>
      else if key = ''cfg_auto_update'' then hs\<lparr> cfgAutoUpdate := toI8Bool val (cfgAutoUpdate hs) \<rparr>
      else if key = ''cfg_reconnect_attempts''
        then hs\<lparr> cfgReconnectAttempts := toU32 val (cfgReconnectAttempts hs) \<rparr>
      else if key = ''cfg_reconnect_interval''
        then hs\<lparr> cfgReconnectInterval := toU32 val (cfgReconnectInterval hs) \<rparr>
      else if key = ''cfg_agg_target'' then hs\<lparr> cfgAggTarget := toU32 val (cfgAggTarget hs) \<rparr>
      else if key = ''cfg_agg_min_ms'' then hs\<lparr> cfgAggMinMs := toU32 val (cfgAggMinMs hs) \<rparr>
      else if key = ''cfg_agg_max_ms'' then hs\<lparr> cfgAggMaxMs := toU32 val (cfgAggMaxMs hs) \<rparr>
      else if key = ''cfg_agg_max_flows'' then hs\<lparr> cfgAggMaxFlows := toU32 val (cfgAggMaxFlows hs) \<rparr>
      else if key = ''cfg_log_level''
        then (if val = ''Info'' \<or> val = ''Warn'' \<or> val = ''Err'' then hs\<lparr> cfgLogLevel := val \<rparr> else hs)
      else hs)"

function healthLoop :: "string \<Rightarrow> ClientHealthStats \<Rightarrow> ClientHealthStats" where
  "healthLoop s hs =
     (let b = dropWhile isHealthSep s in
      if b = [] then hs
      else let tok = takeWhile (\<lambda>c. \<not> isHealthSep c) b;
               rest = dropWhile (\<lambda>c. \<not> isHealthSep c) b
           in case find_ch CHR ''='' tok of
                None \<Rightarrow> healthLoop rest hs
              | Some eq \<Rightarrow>
                  if drop (eq + 1) tok = [] then healthLoop rest hs
                  else healthLoop rest (applyField (take eq tok) (drop (eq + 1) tok) hs))"
  by pat_completeness auto

lemma health_rest_shorter:
  assumes "dropWhile isHealthSep s \<noteq> []"
  shows "length (dropWhile (\<lambda>c. \<not> isHealthSep c) (dropWhile isHealthSep s)) < length s"
proof -
  obtain c r where "dropWhile isHealthSep s = c # r" using assms by (cases "dropWhile isHealthSep s") auto
  moreover from this have "\<not> isHealthSep c" using hd_dropWhile [OF assms] by simp
  ultimately show ?thesis
    using length_dropWhile_le [of isHealthSep s] length_dropWhile_le [of "\<lambda>c. \<not> isHealthSep c" r]
    by simp
qed

termination healthLoop by (relation "measure (length \<circ> fst)") (auto simp: health_rest_shorter)

declare healthLoop.simps [simp del]

definition parseHealthLine :: "string \<Rightarrow> ClientHealthStats" where
  "parseHealthLine body = healthLoop body ClientHealthStats0"

section \<open>The client's report\<close>

datatype ClientLogLevel = LvInfo | LvWarn | LvErr

text \<open>The sender's members that go into the report; \<open>kClientVersion\<close> and \<open>kClientPlatform\<close>
  are build constants.\<close>

record HealthReport =
  r_pcapRecv :: u64
  r_pcapDrop :: u64
  r_bufDrop :: u64
  r_version :: string
  r_wireProto :: u32
  r_platform :: string
  r_aggIntervalMs :: u32
  r_aggFlows :: u32
  r_webSocket :: bool
  r_compress :: bool
  r_sendBuffer :: u64
  r_autoUpdate :: bool
  r_reconnectAttempts :: u32
  r_reconnectInterval :: u32
  r_aggTarget :: u32
  r_aggMinMs :: u32
  r_aggMaxMs :: u32
  r_aggMaxFlows :: u32
  r_logLevel :: ClientLogLevel

definition show_bit :: "bool \<Rightarrow> string" where
  "show_bit b = (if b then ''1'' else ''0'')"

definition levelName :: "ClientLogLevel \<Rightarrow> string" where
  "levelName lv = (case lv of LvWarn \<Rightarrow> ''Warn'' | LvErr \<Rightarrow> ''Err'' | LvInfo \<Rightarrow> ''Info'')"

definition healthFields :: "HealthReport \<Rightarrow> (string \<times> string) list" where
  "healthFields r =
     [(''pcap_recv'', show_nat (unat (r_pcapRecv r))), (''pcap_drop'', show_nat (unat (r_pcapDrop r))),
      (''buf_drop'', show_nat (unat (r_bufDrop r))), (''ver'', r_version r),
      (''wire_proto'', show_nat (unat (r_wireProto r))), (''platform'', r_platform r),
      (''agg_interval_ms'', show_nat (unat (r_aggIntervalMs r))), (''agg_flows'', show_nat (unat (r_aggFlows r))),
      (''cfg_transport'', if r_webSocket r then ''websocket'' else ''tcp''),
      (''cfg_compress'', show_bit (r_compress r)), (''cfg_send_buffer'', show_nat (unat (r_sendBuffer r))),
      (''cfg_auto_update'', show_bit (r_autoUpdate r)),
      (''cfg_reconnect_attempts'', show_nat (unat (r_reconnectAttempts r))),
      (''cfg_reconnect_interval'', show_nat (unat (r_reconnectInterval r))),
      (''cfg_agg_target'', show_nat (unat (r_aggTarget r))), (''cfg_agg_min_ms'', show_nat (unat (r_aggMinMs r))),
      (''cfg_agg_max_ms'', show_nat (unat (r_aggMaxMs r))),
      (''cfg_agg_max_flows'', show_nat (unat (r_aggMaxFlows r))), (''cfg_log_level'', levelName (r_logLevel r))]"

definition fieldText :: "string \<times> string \<Rightarrow> string" where
  "fieldText kv = SP # fst kv @ CHR ''='' # snd kv"

definition healthBody :: "HealthReport \<Rightarrow> string" where
  "healthBody r = tl (concat (map fieldText (healthFields r)))"

definition encodeHealthLine :: "HealthReport \<Rightarrow> string" where
  "encodeHealthLine r = kHealthLinePrefix @ healthBody r @ [LF]"

section \<open>Lemmas\<close>

definition token_ok :: "string \<Rightarrow> bool" where
  "token_ok s \<longleftrightarrow> s \<noteq> [] \<and> (\<forall>c \<in> set s. \<not> isHealthSep c)"

lemma healthLoop_Nil [simp]: "healthLoop [] hs = hs"
  by (simp add: healthLoop.simps)

lemma healthLoop_SP [simp]: "healthLoop (SP # s) hs = healthLoop s hs"
  by (simp add: healthLoop.simps [of "SP # s"] healthLoop.simps [of s] isHealthSep_def)

lemma healthLoop_field:
  assumes "\<forall>c \<in> set k. \<not> isHealthSep c" "CHR ''='' \<notin> set k" "token_ok v" "r = [] \<or> isHealthSep (hd r)"
  shows "healthLoop (k @ CHR ''='' # v @ r) hs = healthLoop r (applyField k v hs)"
proof -
  let ?tok = "k @ CHR ''='' # v"
  have sep: "\<forall>c \<in> set ?tok. \<not> isHealthSep c"
    using assms(1,3) by (auto simp: token_ok_def isHealthSep_def)
  have "dropWhile isHealthSep (?tok @ r) = ?tok @ r"
    using sep by (cases k) auto
  moreover have "takeWhile (\<lambda>c. \<not> isHealthSep c) (?tok @ r) = ?tok"
    "dropWhile (\<lambda>c. \<not> isHealthSep c) (?tok @ r) = r"
    using sep assms(4) by (cases r; auto simp: takeWhile_append dropWhile_append)+
  ultimately show ?thesis
    using assms(2,3) by (subst healthLoop.simps) (simp add: find_ch_append token_ok_def)
qed

lemma healthLoop_fields:
  assumes "\<forall>(k, v) \<in> set fs. (\<forall>c \<in> set k. \<not> isHealthSep c) \<and> CHR ''='' \<notin> set k \<and> token_ok v"
  shows "healthLoop (concat (map fieldText fs)) hs = foldl (\<lambda>h (k, v). applyField k v h) hs fs"
  using assms
proof (induction fs arbitrary: hs)
  case (Cons kv fs)
  obtain k v where kv: "kv = (k, v)" by (cases kv)
  let ?r = "concat (map fieldText fs)"
  have "?r = [] \<or> isHealthSep (hd ?r)" by (cases fs) (auto simp: fieldText_def isHealthSep_def)
  then have "healthLoop (fieldText (k, v) @ ?r) hs = healthLoop ?r (applyField k v hs)"
    using Cons.prems kv healthLoop_field [of k v ?r hs] by (simp add: fieldText_def)
  with Cons kv show ?case by simp
qed simp

lemma is_digit_not_healthSep: "is_digit c \<Longrightarrow> \<not> isHealthSep c"
  by (auto simp: is_digit_iff isHealthSep_def code_of_def)

lemma token_ok_show_nat [simp]: "token_ok (show_nat n)"
  using show_nat_digits is_digit_not_healthSep by (auto simp: token_ok_def)

lemma toU64_show [simp]: "toU64 (show_nat (unat w)) d = w"
  by (simp add: toU64_def)

lemma stoul_show_u32 [simp]: "stoul (show_nat (unat (w :: u32))) = Some (ucast w)"
  using stoul_show_unat [of "ucast w"] by simp

lemma toU32_show [simp]: "toU32 (show_nat (unat w)) d = w"
  using unat_u32_less [of w] by (simp add: toU32_def word_less_nat_alt)

lemma toUint_show [simp]: "toUint (show_nat (unat w)) d = w"
  by (simp add: toUint_def)

lemma toU32_show_u64 [simp]:
  "toU32 (show_nat (unat (w :: u64))) d = (if w > 0xFFFFFFFF then 0xFFFFFFFF else ucast w)"
  by (simp add: toU32_def)

lemma toI8Bool_show [simp]: "toI8Bool (show_bit b) d = (if b then 1 else 0)"
  by (simp add: toI8Bool_def show_bit_def)

lemma token_ok_consts [simp]: "token_ok (show_bit b)" "token_ok (levelName lv)"
  "token_ok ''websocket''" "token_ok ''tcp''"
  by (auto simp: token_ok_def show_bit_def levelName_def isHealthSep_def split: ClientLogLevel.splits)

definition report_ok :: "HealthReport \<Rightarrow> bool" where
  "report_ok r \<longleftrightarrow> token_ok (r_version r) \<and> token_ok (r_platform r) \<and>
     length (r_version r) \<le> 64 \<and> length (r_platform r) \<le> 64"

lemma healthFields_wf:
  assumes "report_ok r"
  shows "\<forall>(k, v) \<in> set (healthFields r). (\<forall>c \<in> set k. \<not> isHealthSep c) \<and> CHR ''='' \<notin> set k \<and> token_ok v"
  using assms by (simp add: healthFields_def report_ok_def isHealthSep_def)

lemma parseHealthLine_body:
  assumes "report_ok r"
  shows "parseHealthLine (healthBody r) =
    foldl (\<lambda>h (k, v). applyField k v h) ClientHealthStats0 (healthFields r)"
proof -
  have "concat (map fieldText (healthFields r)) = SP # healthBody r"
    by (simp add: healthBody_def healthFields_def fieldText_def)
  then show ?thesis
    using healthLoop_fields [OF healthFields_wf [OF assms]] by (simp add: parseHealthLine_def)
qed

section \<open>Properties\<close>

text \<open>
  Health round trip: the server stores exactly what the client reported.  Every counter and
  setting of the client's H-line is read back, an oversized send-buffer setting saturating at
  \<open>UINT32_MAX\<close>, whatever the numbers, switches and log level are.
\<close>

lemma health_roundtrip:
  assumes "report_ok r"
  shows "\<exists>body. encodeHealthLine r = kHealthLinePrefix @ body @ [LF] \<and> parseHealthLine body =
    \<lparr> pcapRecv = r_pcapRecv r, pcapDrop = r_pcapDrop r, bufDrop = r_bufDrop r, reportedAtSec = -1,
      hs_version = r_version r, hs_platform = r_platform r, wireProtoVersion = r_wireProto r,
      aggIntervalMs = r_aggIntervalMs r, aggFlows = r_aggFlows r,
      cfgTransport = (if r_webSocket r then ''websocket'' else ''tcp''),
      cfgCompress = (if r_compress r then 1 else 0),
      cfgSendBuffer = (if r_sendBuffer r > 0xFFFFFFFF then 0xFFFFFFFF else ucast (r_sendBuffer r)),
      cfgAutoUpdate = (if r_autoUpdate r then 1 else 0),
      cfgReconnectAttempts = r_reconnectAttempts r, cfgReconnectInterval = r_reconnectInterval r,
      cfgAggTarget = r_aggTarget r, cfgAggMinMs = r_aggMinMs r, cfgAggMaxMs = r_aggMaxMs r,
      cfgAggMaxFlows = r_aggMaxFlows r, cfgLogLevel = levelName (r_logLevel r) \<rparr>"
proof -
  have "levelName (r_logLevel r) \<in> {''Info'', ''Warn'', ''Err''}"
    by (cases "r_logLevel r") (simp_all add: levelName_def)
  with assms show ?thesis
    by (intro exI [of _ "healthBody r"]) (auto simp: encodeHealthLine_def parseHealthLine_body
        healthFields_def applyField_def ClientHealthStats0_def report_ok_def)
qed

lemma health_roundtrip_witness:
  "cfgLogLevel (parseHealthLine (healthBody
     \<lparr> r_pcapRecv = 10, r_pcapDrop = 2, r_bufDrop = 0, r_version = ''1.2.3'', r_wireProto = 4,
       r_platform = ''linux-amd64'', r_aggIntervalMs = 100, r_aggFlows = 7, r_webSocket = True,
       r_compress = True, r_sendBuffer = 0, r_autoUpdate = False, r_reconnectAttempts = 10,
       r_reconnectInterval = 60, r_aggTarget = 500, r_aggMinMs = 100, r_aggMaxMs = 5000,
       r_aggMaxFlows = 10000, r_logLevel = LvWarn \<rparr>)) = ''Warn''" (is "cfgLogLevel (parseHealthLine (healthBody ?r)) = _")
proof -
  have "report_ok ?r" by (simp add: report_ok_def token_ok_def isHealthSep_def)
  from health_roundtrip [OF this] show ?thesis
    by (auto simp: encodeHealthLine_def levelName_def)
qed

end
