(* ===== verification/FileLog.thy ===== *)
theory FileLog
  imports Health "HOL-Library.List_Lexorder"
begin

text \<open>
  The client's file logger (\<open>client_filelog.hpp\<close>, \<open>client_filelog.cpp\<close>): one date-named file
  per day with a size cap, three days of retention, and the listing and deletion that the control
  commands of theory \<open>LogCtl\<close> use.  Every operation runs under the logger's mutex.

  The file system is an association list from the paths of regular files to their contents; the
  clock, as the strings \<open>strftime\<close> yields, and the outcome of every file operation are arguments.
\<close>

section \<open>State and environment\<close>

record FileLogger =
  lg_logDir :: string
  lg_currentPath :: string
  lg_open :: bool
  lg_currentSize :: nat
  lg_currentDateStr :: string
  lg_active :: bool
  lg_level :: ClientLogLevel

definition FileLogger0 :: FileLogger where
  "FileLogger0 = \<lparr> lg_logDir = [], lg_currentPath = [], lg_open = False, lg_currentSize = 0,
     lg_currentDateStr = [], lg_active = False, lg_level = LvInfo \<rparr>"

definition kMaxFileSizeBytes :: nat where "kMaxFileSizeBytes = 50 * 1024 * 1024"
definition kRetainDays :: int where "kRetainDays = 3"

type_synonym Files = "(string \<times> string) list"

text \<open>
  The outcomes of the calls below: which \<open>fopen\<close> succeed (path and mode), how many of \<open>n\<close> bytes
  \<open>fread\<close> and \<open>fwrite\<close> transfer, whether \<open>file_size\<close>, \<open>remove\<close>, \<open>create_directories\<close> and the
  directory iterator succeed.
\<close>

record FsEnv =
  fe_fopen :: "string \<Rightarrow> string \<Rightarrow> bool"
  fe_fread :: "nat \<Rightarrow> nat"
  fe_fwrite :: "nat \<Rightarrow> nat"
  fe_size :: "string \<Rightarrow> bool"
  fe_remove :: "string \<Rightarrow> bool"
  fe_mkdir :: bool
  fe_dir :: bool

type_synonym Logger = "FileLogger \<times> Files"

section \<open>Files of the log directory\<close>

definition logPrefix :: string where "logPrefix = ''ntm-client-''"

definition entryName :: "string \<Rightarrow> string \<Rightarrow> string option" where
  "entryName dir p =
     (if starts_with (dir @ ''/'') p
      then let n = drop (length dir + 1) p in if n \<noteq> [] \<and> CHR ''/'' \<notin> set n then Some n else None
      else None)"

definition dirEntries :: "FsEnv \<Rightarrow> string \<Rightarrow> Files \<Rightarrow> string list" where
  "dirEntries io dir fs = (if fe_dir io then List.map_filter (entryName dir \<circ> fst) fs else [])"

definition isLogName :: "string \<Rightarrow> bool" where
  "isLogName name \<longleftrightarrow> starts_with logPrefix name \<and> \<not> length name < 11 \<and> drop (length name - 4) name = ''.log''"

definition fileOf :: "string \<Rightarrow> string \<Rightarrow> string" where
  "fileOf dir name = dir @ ''/'' @ name"

definition pathForDate :: "string \<Rightarrow> string \<Rightarrow> string" where
  "pathForDate dir date = dir @ ''/ntm-client-'' @ date @ ''.log''"

definition fileSize :: "FsEnv \<Rightarrow> string \<Rightarrow> Files \<Rightarrow> nat" where
  "fileSize io p fs = (if fe_size io p then length (at_or [] p fs) else 0)"

section \<open>Private helpers\<close>

definition openFile :: "FsEnv \<Rightarrow> string \<Rightarrow> Logger \<Rightarrow> bool \<times> Logger" where
  "openFile io date = (\<lambda>(l, fs).
     let path = pathForDate (lg_logDir l) date in
     if fe_fopen io path ''a'' then
       let fs1 = upd_at [] path (\<lambda>c. c) fs in
       (True, l\<lparr> lg_open := True, lg_currentSize := fileSize io path fs1, lg_currentPath := path,
                 lg_currentDateStr := date \<rparr>, fs1)
     else (False, l\<lparr> lg_open := False \<rparr>, fs))"

definition closeFile :: "FileLogger \<Rightarrow> FileLogger" where
  "closeFile l = l\<lparr> lg_open := False, lg_currentPath := [], lg_currentDateStr := [], lg_currentSize := 0 \<rparr>"

text \<open>Names of at least 25 characters carry their date at offset 11.\<close>

definition isExpired :: "string \<Rightarrow> string \<Rightarrow> bool" where
  "isExpired cutoffDate name \<longleftrightarrow>
     starts_with logPrefix name \<and> \<not> length name < 25 \<and> substr 11 10 name < cutoffDate"

definition removeNames :: "FsEnv \<Rightarrow> string \<Rightarrow> (string \<Rightarrow> bool) \<Rightarrow> Files \<Rightarrow> Files" where
  "removeNames io dir P fs =
     (if fe_dir io
      then erase_if (\<lambda>p _. case entryName dir p of None \<Rightarrow> False | Some n \<Rightarrow> P n \<and> fe_remove io p) fs
      else fs)"

definition pruneOldFiles :: "FsEnv \<Rightarrow> string \<Rightarrow> Logger \<Rightarrow> Logger" where
  "pruneOldFiles io cutoffDate = (\<lambda>(l, fs).
     if lg_logDir l = [] then (l, fs)
     else (l, removeNames io (lg_logDir l) (isExpired cutoffDate) fs))"

text \<open>The offset from which \<open>rotateInPlace\<close> keeps a buffer: after the first line feed at or after
  the middle.\<close>

fun skipLine :: "nat \<Rightarrow> string \<Rightarrow> nat" where
  "skipLine k [] = k"
| "skipLine k (c # r) = (if c = LF then k + 1 else skipLine (k + 1) r)"

definition keepFrom :: "string \<Rightarrow> nat" where
  "keepFrom buf = skipLine (length buf div 2) (drop (length buf div 2) buf)"

definition rotateInPlace :: "FsEnv \<Rightarrow> Logger \<Rightarrow> Logger" where
  "rotateInPlace io = (\<lambda>(l, fs).
     if \<not> lg_open l \<or> lg_currentPath l = [] then (l, fs)
     else
       let path = lg_currentPath l; l1 = l\<lparr> lg_open := False \<rparr> in
       if \<not> (fe_fopen io path ''rb'' \<and> has_key path fs)
       then snd (openFile io (lg_currentDateStr l1) (l1, fs))
       else
         let content = at_or [] path fs in
         if content = [] then snd (openFile io (lg_currentDateStr l1) (l1, fs))
         else
           let buf = take (fe_fread io (length content)) content;
               keep = drop (keepFrom buf) buf;
               fs1 = (if fe_fopen io path ''wb''
                      then upd_at [] path (\<lambda>_. take (fe_fwrite io (length keep)) keep) fs else fs)
           in if fe_fopen io path ''a''
              then (let fs2 = upd_at [] path (\<lambda>c. c) fs1
                    in (l1\<lparr> lg_open := True, lg_currentSize := fileSize io path fs2 \<rparr>, fs2))
              else (l1\<lparr> lg_currentSize := 0 \<rparr>, fs1))"

section \<open>Public operations\<close>

definition initLogger :: "FsEnv \<Rightarrow> string \<Rightarrow> string \<Rightarrow> string \<Rightarrow> ClientLogLevel \<Rightarrow> Logger \<Rightarrow> bool \<times> Logger" where
  "initLogger io today cutoffDate logDir initialLevel = (\<lambda>(l, fs).
     let l1 = l\<lparr> lg_logDir := logDir, lg_level := initialLevel \<rparr> in
     if \<not> fe_mkdir io then (False, l1, fs)
     else case openFile io today (pruneOldFiles io cutoffDate (l1, fs)) of
            (False, s) \<Rightarrow> (False, s)
          | (True, l2, fs2) \<Rightarrow> (True, l2\<lparr> lg_active := True \<rparr>, fs2))"

fun levelRank :: "ClientLogLevel \<Rightarrow> nat" where
  "levelRank LvInfo = 0"
| "levelRank LvWarn = 1"
| "levelRank LvErr = 2"

fun levelToStr :: "ClientLogLevel \<Rightarrow> string" where
  "levelToStr LvInfo = ''INFO''"
| "levelToStr LvWarn = ''WARN''"
| "levelToStr LvErr = ''ERR ''"

definition logLine :: "string \<Rightarrow> ClientLogLevel \<Rightarrow> string \<Rightarrow> string" where
  "logLine timeStr level msg =
     (let line = ''['' @ timeStr @ '' '' @ levelToStr level @ ''] '' @ msg
      in if line = [] \<or> last line \<noteq> LF then line @ [LF] else line)"

text \<open>The end of \<open>write\<close>: the bytes that \<open>fwrite\<close> takes are appended.\<close>

definition appendLine :: "FsEnv \<Rightarrow> string \<Rightarrow> Logger \<Rightarrow> Logger" where
  "appendLine io line = (\<lambda>(l, fs).
     if \<not> lg_open l then (l, fs)
     else let w = take (fe_fwrite io (length line)) line in
          (l\<lparr> lg_currentSize := lg_currentSize l + length w \<rparr>,
           upd_at [] (lg_currentPath l) (\<lambda>c. c @ w) fs))"

definition capAndAppend :: "FsEnv \<Rightarrow> string \<Rightarrow> Logger \<Rightarrow> Logger" where
  "capAndAppend io line s =
     (if lg_currentSize (fst s) + length line > kMaxFileSizeBytes
      then appendLine io line (rotateInPlace io s) else appendLine io line s)"

definition writeLog :: "FsEnv \<Rightarrow> string \<Rightarrow> string \<Rightarrow> string \<Rightarrow> ClientLogLevel \<Rightarrow> string \<Rightarrow> Logger \<Rightarrow> Logger" where
  "writeLog io timeStr dateStr cutoffDate level msg = (\<lambda>(l, fs).
     if \<not> lg_active l then (l, fs)
     else if levelRank level < levelRank (lg_level l) then (l, fs)
     else let line = logLine timeStr level msg in
     if \<not> lg_open l then (l, fs)
     else if dateStr \<noteq> lg_currentDateStr l then
       (case openFile io dateStr (pruneOldFiles io cutoffDate (closeFile l, fs)) of
          (False, s) \<Rightarrow> s
        | (True, s) \<Rightarrow> capAndAppend io line s)
     else capAndAppend io line (l, fs))"

definition stopLogger :: "FileLogger \<Rightarrow> FileLogger" where
  "stopLogger l = closeFile (l\<lparr> lg_active := False \<rparr>)"

record FileInfo =
  fi_name :: string
  fi_size :: nat
  fi_mtime :: string

definition fileInfo :: "FsEnv \<Rightarrow> string \<Rightarrow> Files \<Rightarrow> string \<Rightarrow> FileInfo" where
  "fileInfo io dir fs name =
     \<lparr> fi_name = name, fi_size = fileSize io (fileOf dir name) fs,
       fi_mtime = (if length name \<ge> 21 then substr 11 10 name else ''unknown'') \<rparr>"

definition listFiles :: "FsEnv \<Rightarrow> Logger \<Rightarrow> FileInfo list" where
  "listFiles io = (\<lambda>(l, fs).
     if lg_logDir l = [] then []
     else rev (sort_key fi_name
            (map (fileInfo io (lg_logDir l) fs) (filter isLogName (dirEntries io (lg_logDir l) fs)))))"

definition deleteFile :: "FsEnv \<Rightarrow> string \<Rightarrow> Logger \<Rightarrow> bool \<times> Logger" where
  "deleteFile io name = (\<lambda>(l, fs).
     if CHR ''/'' \<in> set name \<or> CHR 0x5C \<in> set name then (False, l, fs)
     else if \<not> starts_with logPrefix name \<or> length name < 12 then (False, l, fs)
     else if lg_logDir l = [] then (False, l, fs)
     else
       let path = fileOf (lg_logDir l) name;
           l1 = (if path = lg_currentPath l then closeFile l else l) in
       if has_key path fs \<and> fe_remove io path then (True, l1, erase path fs) else (False, l1, fs))"

definition deleteAllFiles :: "FsEnv \<Rightarrow> string \<Rightarrow> Logger \<Rightarrow> nat \<times> Logger" where
  "deleteAllFiles io today = (\<lambda>(l, fs).
     if lg_logDir l = [] then (0, l, fs)
     else
       let l1 = closeFile l;
           fs1 = removeNames io (lg_logDir l) isLogName fs;
           count = length fs - length fs1 in
       if lg_active l1 then (count, snd (openFile io today (l1, fs1))) else (count, l1, fs1))"

section \<open>Lemmas\<close>

text \<open>Every call succeeds and transfers everything.\<close>

definition io_ok :: "FsEnv \<Rightarrow> bool" where
  "io_ok io \<longleftrightarrow> (\<forall>p m. fe_fopen io p m) \<and> (\<forall>p. fe_size io p) \<and> (\<forall>n. n \<le> fe_fread io n) \<and>
     (\<forall>n. n \<le> fe_fwrite io n)"

text \<open>An open logger appends to the file of its date and knows its size.\<close>

definition logger_ok :: "Logger \<Rightarrow> bool" where
  "logger_ok s \<longleftrightarrow> keys_ok (snd s) \<and>
     (lg_open (fst s) \<longrightarrow>
        lg_currentPath (fst s) = pathForDate (lg_logDir (fst s)) (lg_currentDateStr (fst s)) \<and>
        has_key (lg_currentPath (fst s)) (snd s) \<and>
        lg_currentSize (fst s) = length (at_or [] (lg_currentPath (fst s)) (snd s)))"

definition under_cap :: "Files \<Rightarrow> bool" where
  "under_cap fs \<longleftrightarrow> (\<forall>p c. map_of fs p = Some c \<longrightarrow> length c \<le> kMaxFileSizeBytes)"

lemma pathForDate_nonempty [simp]: "pathForDate d x \<noteq> []"
  by (simp add: pathForDate_def)

lemma skipLine_bounds: "k \<le> skipLine k s \<and> skipLine k s \<le> k + length s"
proof (induction k s rule: skipLine.induct)
  case (2 k c r)
  then show ?case by auto
qed simp

lemma skipLine_cut:
  "drop (skipLine k s - k) s = [] \<or>
   (take (skipLine k s - k) s \<noteq> [] \<and> last (take (skipLine k s - k) s) = LF)"
proof (induction k s rule: skipLine.induct)
  case (2 k c r)
  show ?case
  proof (cases "c = LF")
    case False
    have b: "k + 1 \<le> skipLine (k + 1) r" using skipLine_bounds by blast
    then have "skipLine (k + 1) r - k = Suc (skipLine (k + 1) r - (k + 1))" by simp
    with 2 [OF False] False show ?thesis by auto
  qed simp
qed simp

text \<open>What \<open>rotateInPlace\<close> keeps is a suffix that starts on a line, of at most half the buffer.\<close>

lemma keepFrom_spec:
  "length (drop (keepFrom buf) buf) \<le> (length buf + 1) div 2 \<and>
   (drop (keepFrom buf) buf = [] \<or> last (take (keepFrom buf) buf) = LF)"
proof -
  let ?m = "length buf div 2" and ?t = "drop (length buf div 2) buf"
  have b: "?m \<le> keepFrom buf" using skipLine_bounds [of ?m ?t] by (simp add: keepFrom_def)
  have "take (keepFrom buf) buf = take ?m buf @ take (keepFrom buf - ?m) ?t"
    using take_add [of ?m "keepFrom buf - ?m" buf] b by simp
  moreover have "drop (keepFrom buf) buf = drop (keepFrom buf - ?m) ?t" using b by simp
  ultimately have "drop (keepFrom buf) buf = [] \<or> last (take (keepFrom buf) buf) = LF"
    using skipLine_cut [of ?m ?t] by (auto simp: keepFrom_def simp del: take_eq_Nil)
  moreover have "length (drop (keepFrom buf) buf) \<le> (length buf + 1) div 2" using b by simp
  ultimately show ?thesis by blast
qed

lemma openFile_ok:
  assumes "io_ok io" "keys_ok fs"
  shows "openFile io date (l, fs) = (True,
    l\<lparr> lg_open := True, lg_currentSize := length (at_or [] (pathForDate (lg_logDir l) date) fs),
       lg_currentPath := pathForDate (lg_logDir l) date, lg_currentDateStr := date \<rparr>,
    upd_at [] (pathForDate (lg_logDir l) date) (\<lambda>c. c) fs)"
  using assms by (simp add: openFile_def io_ok_def fileSize_def Let_def)

lemma map_of_touch: "map_of (upd_at [] p (\<lambda>c. c) fs) q = (if q = p then Some (at_or [] p fs) else map_of fs q)"
  by (simp add: map_of_upd_at)

lemma map_of_removeNames:
  assumes "keys_ok fs"
  shows "map_of (removeNames io dir P fs) p =
    (if fe_dir io \<and> (\<exists>n. entryName dir p = Some n \<and> P n) \<and> fe_remove io p then None else map_of fs p)"
  using assms by (auto simp: removeNames_def map_of_erase_if split: option.splits)

lemma keys_ok_removeNames [simp]: "keys_ok fs \<Longrightarrow> keys_ok (removeNames io dir P fs)"
  by (simp add: removeNames_def)

lemma rotateInPlace_ok:
  assumes "io_ok io" "logger_ok (l, fs)" "lg_open l"
  shows "rotateInPlace io (l, fs) =
    (let path = lg_currentPath l; c = at_or [] path fs; kept = drop (keepFrom c) c
     in (l\<lparr> lg_open := True, lg_currentSize := length kept \<rparr>,
         upd_at [] path (\<lambda>c. c) (if c = [] then fs else upd_at [] path (\<lambda>_. kept) fs)))"
proof -
  let ?p = "lg_currentPath l" and ?c = "at_or [] (lg_currentPath l) fs"
  have p: "?p = pathForDate (lg_logDir l) (lg_currentDateStr l)" "has_key ?p fs" "keys_ok fs"
    using assms(2,3) by (auto simp: logger_ok_def)
  have f: "fe_fopen io q m" "fe_size io q" for q m using assms(1) by (auto simp: io_ok_def)
  have r: "take (fe_fread io (length c)) c = c" "take (fe_fwrite io (length c)) c = c" for c :: string
    using assms(1) by (auto simp: io_ok_def)
  show ?thesis
  proof (cases "?c = []")
    case True
    have d: "pathForDate (lg_logDir l) (lg_currentDateStr l) = ?p" using p by simp
    have o: "openFile io (lg_currentDateStr l) (l\<lparr> lg_open := False \<rparr>, fs) =
        (True, l\<lparr> lg_open := True, lg_currentSize := 0 \<rparr>, upd_at [] ?p (\<lambda>c. c) fs)"
      using openFile_ok [OF assms(1) p(3), of "lg_currentDateStr l" "l\<lparr> lg_open := False \<rparr>"] d True
      by (cases l) simp
    then show ?thesis
      using assms(3) p f True by (simp add: rotateInPlace_def Let_def keepFrom_def)
  next
    case False
    then show ?thesis
      using assms(3) p f r by (simp add: rotateInPlace_def Let_def fileSize_def)
  qed
qed

lemma rotateInPlace_spec:
  assumes "io_ok io" "logger_ok (l, fs)" "lg_open l" "rotateInPlace io (l, fs) = (l', fs')"
  shows "\<exists>kept. logger_ok (l', fs') \<and>
    l' = l\<lparr> lg_open := True, lg_currentSize := length kept \<rparr> \<and>
    map_of fs' = (map_of fs)(lg_currentPath l \<mapsto> kept) \<and>
    kept = drop (keepFrom (at_or [] (lg_currentPath l) fs)) (at_or [] (lg_currentPath l) fs)"
proof -
  let ?p = "lg_currentPath l" and ?c = "at_or [] (lg_currentPath l) fs"
  let ?kept = "drop (keepFrom ?c) ?c"
  have p: "?p = pathForDate (lg_logDir l) (lg_currentDateStr l)" "has_key ?p fs" "keys_ok fs"
    using assms(2,3) by (auto simp: logger_ok_def)
  have e: "l' = l\<lparr> lg_open := True, lg_currentSize := length ?kept \<rparr>"
    "fs' = upd_at [] ?p (\<lambda>c. c) (if ?c = [] then fs else upd_at [] ?p (\<lambda>_. ?kept) fs)"
    using assms(4) unfolding rotateInPlace_ok [OF assms(1-3)] Let_def by auto
  have m: "map_of fs' = (map_of fs)(?p \<mapsto> ?kept)"
    by (rule ext) (auto simp: e(2) map_of_upd_at at_or_def)
  then have "at_or [] ?p fs' = ?kept" "has_key ?p fs'" by (simp_all add: at_or_def has_key_def)
  moreover have "keys_ok fs'" using p(3) by (simp add: e(2))
  ultimately have "logger_ok (l', fs')" using p(1) by (simp add: logger_ok_def e(1))
  with e(1) m show ?thesis by blast
qed

lemma appendLine_spec:
  assumes "io_ok io" "logger_ok (l, fs)" "lg_open l" "appendLine io line (l, fs) = (l', fs')"
  shows "logger_ok (l', fs') \<and> lg_open l' \<and> lg_logDir l' = lg_logDir l \<and>
    map_of fs' = (map_of fs)(lg_currentPath l \<mapsto> at_or [] (lg_currentPath l) fs @ line)"
proof -
  have "take (fe_fwrite io (length line)) line = line" using assms(1) by (auto simp: io_ok_def)
  then have "l' = l\<lparr> lg_currentSize := lg_currentSize l + length line \<rparr>"
    "fs' = upd_at [] (lg_currentPath l) (\<lambda>c. c @ line) fs"
    using assms(3,4) by (auto simp: appendLine_def)
  then show ?thesis using assms(2,3) by (auto simp: logger_ok_def map_of_upd_at)
qed

lemma capAndAppend_spec:
  assumes "io_ok io" "logger_ok (l, fs)" "lg_open l" "capAndAppend io line (l, fs) = (l', fs')"
  defines "p \<equiv> lg_currentPath l" and "old \<equiv> at_or [] (lg_currentPath l) fs"
  shows "logger_ok (l', fs') \<and> lg_logDir l' = lg_logDir l \<and>
    map_of fs' = (map_of fs)(p \<mapsto>
      (if length old + length line > kMaxFileSizeBytes then drop (keepFrom old) old else old) @ line)"
proof -
  have size: "lg_currentSize l = length old"
    using assms(2,3) by (simp add: logger_ok_def old_def)
  show ?thesis
  proof (cases "length old + length line > kMaxFileSizeBytes")
    case True
    obtain l1 fs1 where r: "rotateInPlace io (l, fs) = (l1, fs1)" by fastforce
    from rotateInPlace_spec [OF assms(1-3) r] have ok: "logger_ok (l1, fs1)" "lg_open l1"
      "lg_currentPath l1 = p" "lg_logDir l1 = lg_logDir l"
      and m: "map_of fs1 = (map_of fs)(p \<mapsto> drop (keepFrom old) old)"
      by (auto simp: p_def old_def)
    have a: "appendLine io line (l1, fs1) = (l', fs')"
      using assms(4) True size r by (simp add: capAndAppend_def)
    show ?thesis using appendLine_spec [OF assms(1) ok(1,2) a] ok m True by (simp add: at_or_def)
  next
    case False
    then have a: "appendLine io line (l, fs) = (l', fs')"
      using assms(4) size by (simp add: capAndAppend_def)
    show ?thesis using appendLine_spec [OF assms(1-3) a] False by (simp add: p_def old_def)
  qed
qed

lemma openFile_spec:
  assumes "io_ok io" "keys_ok fs" "openFile io date (l, fs) = (b, l', fs')"
  shows "b \<and> logger_ok (l', fs') \<and> lg_open l' \<and> lg_logDir l' = lg_logDir l \<and>
    lg_currentPath l' = pathForDate (lg_logDir l) date \<and>
    map_of fs' = (map_of fs)(pathForDate (lg_logDir l) date \<mapsto> at_or [] (pathForDate (lg_logDir l) date) fs)"
  using assms(3) unfolding openFile_ok [OF assms(1,2)]
  by (auto simp: logger_ok_def map_of_upd_at assms(2))

lemma closed_write: "\<not> lg_open (fst s) \<Longrightarrow> writeLog io t d c level msg s = s"
  by (cases s) (simp add: writeLog_def Let_def)

text \<open>Files of the log directory that a prune at \<open>cutoffDate\<close> removes.\<close>

definition expired_path :: "FsEnv \<Rightarrow> string \<Rightarrow> string \<Rightarrow> string \<Rightarrow> bool" where
  "expired_path io dir cutoffDate p \<longleftrightarrow>
     fe_dir io \<and> (\<exists>n. entryName dir p = Some n \<and> isExpired cutoffDate n) \<and> fe_remove io p"

lemma pruneOldFiles_spec:
  assumes "keys_ok fs" "pruneOldFiles io cutoffDate (l, fs) = (l', fs')"
  shows "l' = l \<and> keys_ok fs' \<and>
    (\<forall>p. map_of fs' p = (if lg_logDir l \<noteq> [] \<and> expired_path io (lg_logDir l) cutoffDate p then None
                         else map_of fs p))"
  using assms
  by (auto simp: pruneOldFiles_def expired_path_def map_of_removeNames split: if_splits)

lemma not_expired_today:
  assumes "length d = 10" "cutoffDate \<le> d"
  shows "\<not> expired_path io dir cutoffDate (pathForDate dir d)"
proof
  assume "expired_path io dir cutoffDate (pathForDate dir d)"
  then obtain n where n: "entryName dir (pathForDate dir d) = Some n" "isExpired cutoffDate n"
    by (auto simp: expired_path_def)
  have "pathForDate dir d = (dir @ ''/'') @ ''ntm-client-'' @ d @ ''.log''" by (simp add: pathForDate_def)
  then have "n = ''ntm-client-'' @ d @ ''.log''"
    using n(1) by (auto simp: entryName_def Let_def split: if_splits)
  then have "substr 11 10 n = d" using assms(1) by (simp add: substr_def)
  then have "d < cutoffDate" using n(2) by (simp add: isExpired_def)
  with assms(2) show False by (meson leD)
qed

lemma writeLog_spec:
  assumes "io_ok io" "logger_ok (l, fs)" "lg_active l" "lg_open l" "levelRank (lg_level l) \<le> levelRank level"
    and "length d = 10" "cutoffDate \<le> d" "writeLog io t d cutoffDate level msg (l, fs) = (l', fs')"
  defines "p \<equiv> pathForDate (lg_logDir l) d"
  defines "old \<equiv> at_or [] p fs"
  shows "logger_ok (l', fs') \<and>
    map_of fs' p = Some ((if length old + length (logLine t level msg) > kMaxFileSizeBytes
                          then drop (keepFrom old) old else old) @ logLine t level msg) \<and>
    (\<forall>q. q \<noteq> p \<longrightarrow> map_of fs' q =
       (if d \<noteq> lg_currentDateStr l \<and> lg_logDir l \<noteq> [] \<and> expired_path io (lg_logDir l) cutoffDate q
        then None else map_of fs q))"
proof (cases "d = lg_currentDateStr l")
  case True
  have p: "lg_currentPath l = p" using assms(2,4) True by (simp add: logger_ok_def p_def)
  have "capAndAppend io (logLine t level msg) (l, fs) = (l', fs')"
    using assms(3-5,8) True by (simp add: writeLog_def Let_def)
  from capAndAppend_spec [OF assms(1,2,4) this] show ?thesis using True by (simp add: p old_def)
next
  case False
  obtain l1 fs1 where pr: "pruneOldFiles io cutoffDate (closeFile l, fs) = (l1, fs1)" by fastforce
  have k: "keys_ok fs" using assms(2) by (simp add: logger_ok_def)
  have pr': "l1 = closeFile l" "keys_ok fs1"
    and m1: "\<And>q. map_of fs1 q = (if lg_logDir l \<noteq> [] \<and> expired_path io (lg_logDir l) cutoffDate q
      then None else map_of fs q)"
    using pruneOldFiles_spec [OF k pr] by (auto simp: closeFile_def)
  have dir: "lg_logDir l1 = lg_logDir l" by (simp add: pr' closeFile_def)
  obtain b l2 fs2 where o: "openFile io d (l1, fs1) = (b, l2, fs2)" by (metis prod_cases3)
  from openFile_spec [OF assms(1) pr'(2) o] have o': b "logger_ok (l2, fs2)" "lg_open l2"
    "lg_logDir l2 = lg_logDir l" "lg_currentPath l2 = p"
    and m2: "map_of fs2 = (map_of fs1)(p \<mapsto> at_or [] p fs1)"
    by (auto simp: dir p_def)
  have "capAndAppend io (logLine t level msg) (l2, fs2) = (l', fs')"
    using assms(3-5,8) False pr o o'(1) by (simp add: writeLog_def Let_def)
  note cap = capAndAppend_spec [OF assms(1) o'(2,3) this]
  have "map_of fs1 p = map_of fs p"
    using not_expired_today [OF assms(6,7), of io "lg_logDir l"] by (simp add: m1 p_def)
  then have old: "at_or [] p fs1 = old" by (simp add: at_or_def old_def)
  have old2: "at_or [] p fs2 = old" by (simp add: at_or_def m2 old [unfolded at_or_def])
  show ?thesis using cap False by (simp add: o'(5) old2 m2 m1)
qed

definition demo_io :: FsEnv where
  "demo_io = \<lparr> fe_fopen = (\<lambda>_ _. True), fe_fread = (\<lambda>n. n), fe_fwrite = (\<lambda>n. n), fe_size = (\<lambda>_. True),
     fe_remove = (\<lambda>_. True), fe_mkdir = True, fe_dir = True \<rparr>"

definition demo_logger :: Logger where
  "demo_logger =
     (\<lparr> lg_logDir = ''/l'', lg_currentPath = ''/l/ntm-client-2026-01-02.log'', lg_open = True,
        lg_currentSize = 3, lg_currentDateStr = ''2026-01-02'', lg_active = True, lg_level = LvInfo \<rparr>,
      [(''/l/ntm-client-2026-01-02.log'', ''old'')])"

lemma demo_logger_ok: "io_ok demo_io" "logger_ok demo_logger"
  by (simp_all add: io_ok_def demo_io_def logger_ok_def demo_logger_def pathForDate_def at_or_def)

text \<open>
  Confinement: the files that an operation can change are those of the log directory whose name has
  the logger's prefix.  \<open>path_ok\<close> is the part of \<open>logger_ok\<close> that holds whatever calls fail.
\<close>

definition log_file :: "string \<Rightarrow> string \<Rightarrow> bool" where
  "log_file dir p \<longleftrightarrow> (\<exists>n. p = fileOf dir n \<and> starts_with logPrefix n \<and> CHR ''/'' \<notin> set n)"

definition path_ok :: "FileLogger \<Rightarrow> bool" where
  "path_ok l \<longleftrightarrow> CHR ''/'' \<notin> set (lg_currentDateStr l) \<and>
     (lg_currentPath l = [] \<and> \<not> lg_open l \<or> lg_currentPath l = pathForDate (lg_logDir l) (lg_currentDateStr l))"

definition confined :: "Logger \<Rightarrow> Logger \<Rightarrow> bool" where
  "confined s s' \<longleftrightarrow> lg_logDir (fst s') = lg_logDir (fst s) \<and> path_ok (fst s') \<and>
     (\<forall>p. map_of (snd s') p \<noteq> map_of (snd s) p \<longrightarrow> log_file (lg_logDir (fst s)) p)"

lemma confined_refl: "path_ok (fst s) \<Longrightarrow> confined s s"
  by (simp add: confined_def)

lemma confined_trans: "confined s t \<Longrightarrow> confined t u \<Longrightarrow> confined s u"
  unfolding confined_def by metis

lemma log_file_date: "CHR ''/'' \<notin> set d \<Longrightarrow> log_file dir (pathForDate dir d)"
  unfolding log_file_def
  by (rule exI [of _ "''ntm-client-'' @ d @ ''.log''"])
    (simp add: fileOf_def pathForDate_def logPrefix_def starts_with_def)

lemma entryName_Some: "entryName dir p = Some n \<Longrightarrow> p = fileOf dir n \<and> CHR ''/'' \<notin> set n \<and> n \<noteq> []"
  by (auto simp: entryName_def fileOf_def starts_with_iff Let_def split: if_splits)

lemma entryName_fileOf: "CHR ''/'' \<notin> set n \<Longrightarrow> n \<noteq> [] \<Longrightarrow> entryName dir (fileOf dir n) = Some n"
  using starts_with_append [of "dir @ ''/''" n] by (simp add: entryName_def fileOf_def)

lemma removeNames_log_file:
  assumes "map_of (removeNames io dir P fs) p \<noteq> map_of fs p" "\<And>n. P n \<Longrightarrow> starts_with logPrefix n"
  shows "log_file dir p"
proof -
  have "\<exists>n. entryName dir p = Some n \<and> P n"
  proof (rule ccontr)
    assume "\<nexists>n. entryName dir p = Some n \<and> P n"
    then show False
      using assms(1) map_of_filter_key [of "\<lambda>q. \<not> (case entryName dir q of None \<Rightarrow> False | Some n \<Rightarrow> P n \<and> fe_remove io q)" fs p]
      by (auto simp: removeNames_def erase_if_def split: if_splits option.splits)
  qed
  with entryName_Some assms(2) show ?thesis unfolding log_file_def by metis
qed

lemma openFile_confined:
  assumes "path_ok l" "CHR ''/'' \<notin> set date"
  shows "confined (l, fs) (snd (openFile io date (l, fs)))"
  using assms log_file_date [OF assms(2), of "lg_logDir l"]
  by (auto simp: openFile_def confined_def path_ok_def map_of_touch Let_def)

lemma closeFile_confined: "path_ok l \<Longrightarrow> confined (l, fs) (closeFile l, fs)"
  by (auto simp: confined_def path_ok_def closeFile_def)

lemma prune_confined: "path_ok l \<Longrightarrow> confined (l, fs) (pruneOldFiles io c (l, fs))"
  using removeNames_log_file [of io "lg_logDir l" "isExpired c" fs]
  by (auto simp: confined_def pruneOldFiles_def isExpired_def)

lemma rotate_confined:
  assumes "path_ok l"
  shows "confined (l, fs) (rotateInPlace io (l, fs))"
proof (cases "\<not> lg_open l \<or> lg_currentPath l = []")
  case False
  have p: "lg_currentPath l = pathForDate (lg_logDir l) (lg_currentDateStr l)" "CHR ''/'' \<notin> set (lg_currentDateStr l)"
    using assms False by (auto simp: path_ok_def)
  let ?l1 = "l\<lparr> lg_open := False \<rparr>"
  have ok: "path_ok ?l1" using p by (simp add: path_ok_def)
  have o: "confined (l, fs) (snd (openFile io (lg_currentDateStr ?l1) (?l1, fs)))"
  proof -
    have "confined (?l1, fs) (snd (openFile io (lg_currentDateStr ?l1) (?l1, fs)))"
      by (rule openFile_confined [OF ok]) (simp add: p(2))
    then show ?thesis by (simp add: confined_def)
  qed
  have f: "log_file (lg_logDir l) (lg_currentPath l)" using log_file_date [OF p(2)] p(1) by simp
  show ?thesis
    using False o f ok p
    by (auto simp: rotateInPlace_def Let_def confined_def path_ok_def map_of_upd_at split: if_splits)
qed (simp add: rotateInPlace_def confined_refl assms)

lemma append_confined: "path_ok l \<Longrightarrow> confined (l, fs) (appendLine io line (l, fs))"
  using log_file_date [of "lg_currentDateStr l" "lg_logDir l"]
  by (auto simp: appendLine_def confined_def path_ok_def map_of_upd_at Let_def)

lemma capAndAppend_confined:
  assumes "path_ok (fst s)"
  shows "confined s (capAndAppend io line s)"
proof -
  have r: "confined s (rotateInPlace io s)" using rotate_confined [of "fst s" "snd s"] assms by simp
  then have "path_ok (fst (rotateInPlace io s))" by (simp add: confined_def)
  then show ?thesis
    using r append_confined [of "fst (rotateInPlace io s)" "snd (rotateInPlace io s)"]
      append_confined [of "fst s" "snd s"] assms
    by (auto simp: capAndAppend_def intro: confined_trans)
qed

lemma writeLog_confined:
  assumes "path_ok (fst s)" "CHR ''/'' \<notin> set d"
  shows "confined s (writeLog io t d c level msg s)"
proof (cases s)
  case (Pair l fs)
  obtain b s2 where o: "openFile io d (pruneOldFiles io c (closeFile l, fs)) = (b, s2)" by (meson surj_pair)
  have l: "path_ok l" using assms(1) Pair by simp
  have 1: "confined (l, fs) (closeFile l, fs)" by (rule closeFile_confined [OF l])
  then have "path_ok (closeFile l)" by (simp add: confined_def)
  from prune_confined [OF this] have 2: "confined (closeFile l, fs) (pruneOldFiles io c (closeFile l, fs))" .
  then have "path_ok (fst (pruneOldFiles io c (closeFile l, fs)))" by (simp add: confined_def)
  from openFile_confined [OF this assms(2), of "snd (pruneOldFiles io c (closeFile l, fs))" io] o
  have "confined (pruneOldFiles io c (closeFile l, fs)) s2" by simp
  with 1 2 have 3: "confined (l, fs) s2" by (blast intro: confined_trans)
  then have "path_ok (fst s2)" by (simp add: confined_def)
  from capAndAppend_confined [OF this] 3 have 4: "confined (l, fs) (capAndAppend io x s2)" for x
    by (blast intro: confined_trans)
  have 5: "confined (l, fs) (capAndAppend io x (l, fs))" for x by (rule capAndAppend_confined) (simp add: l)
  show ?thesis
    using o 3 4 5 confined_refl [of "(l, fs)"] l
    by (auto simp: Pair writeLog_def Let_def split: bool.splits)
qed

lemma deleteFile_confined:
  assumes "path_ok (fst s)" "deleteFile io name s = (b, s')"
  shows "confined s s'"
proof (cases s)
  case (Pair l fs)
  have f: "starts_with logPrefix name \<Longrightarrow> CHR ''/'' \<notin> set name \<Longrightarrow> log_file (lg_logDir l) (fileOf (lg_logDir l) name)"
    by (auto simp: log_file_def)
  have "path_ok l" "path_ok (closeFile l)" using assms(1) Pair by (simp_all add: path_ok_def closeFile_def)
  then show ?thesis
    using assms(2) f
    by (auto simp: Pair deleteFile_def confined_def closeFile_def map_of_erase Let_def split: if_splits)
qed

lemma deleteAllFiles_confined:
  assumes "path_ok (fst s)" "CHR ''/'' \<notin> set d" "deleteAllFiles io d s = (n, s')"
  shows "confined s s'"
proof (cases s)
  case (Pair l fs)
  let ?fs1 = "removeNames io (lg_logDir l) isLogName fs"
  have l: "path_ok (closeFile l)" by (simp add: path_ok_def closeFile_def)
  have 1: "confined (l, fs) (closeFile l, ?fs1)"
    using removeNames_log_file [of io "lg_logDir l" isLogName fs] l
    by (auto simp: confined_def closeFile_def isLogName_def)
  have "confined (closeFile l, ?fs1) (snd (openFile io d (closeFile l, ?fs1)))"
    by (rule openFile_confined [OF l assms(2)])
  then show ?thesis
    using assms Pair 1 confined_refl by (auto simp: deleteAllFiles_def Let_def intro: confined_trans split: if_splits)
qed

section \<open>Properties\<close>

text \<open>
  Writing to the client's log keeps every file within the cap of fifty megabytes and loses
  nothing but what rotation and retention are for: with calls that succeed and a line of at most half
  the cap, the day's file ends with the new line, preceded by its whole old content or, when that
  would exceed the cap, by a suffix of it that starts on a line; any other file is untouched, except
  those beyond the retention period when the day changes.
\<close>

lemma log_write_capped:
  assumes "io_ok io" "logger_ok (l, fs)" "lg_active l" "lg_open l" "levelRank (lg_level l) \<le> levelRank level"
    and "length d = 10" "cutoffDate \<le> d" "under_cap fs" "2 * length (logLine t level msg) \<le> kMaxFileSizeBytes"
    and "writeLog io t d cutoffDate level msg (l, fs) = (l', fs')" "p = pathForDate (lg_logDir l) d"
  shows "logger_ok (l', fs') \<and> under_cap fs' \<and>
    (\<exists>cut kept. at_or [] p fs = cut @ kept \<and> map_of fs' p = Some (kept @ logLine t level msg) \<and>
       (cut = [] \<or> kept = [] \<or> last cut = LF) \<and>
       (length (at_or [] p fs) + length (logLine t level msg) \<le> kMaxFileSizeBytes \<longrightarrow> cut = [])) \<and>
    (\<forall>q. q \<noteq> p \<longrightarrow> map_of fs' q = map_of fs q \<or>
       d \<noteq> lg_currentDateStr l \<and> expired_path io (lg_logDir l) cutoffDate q \<and> map_of fs' q = None)"
proof -
  let ?old = "at_or [] p fs" and ?line = "logLine t level msg"
  define kept where "kept = (if length ?old + length ?line > kMaxFileSizeBytes
    then drop (keepFrom ?old) ?old else ?old)"
  note w = writeLog_spec [OF assms(1-7,10), folded assms(11)]
  have m: "map_of fs' p = Some (kept @ ?line)" using w by (simp add: kept_def)
  have old_cap: "length ?old \<le> kMaxFileSizeBytes"
    using assms(8) by (auto simp: under_cap_def at_or_def kMaxFileSizeBytes_def split: option.splits)
  have "length (kept @ ?line) \<le> kMaxFileSizeBytes"
  proof (cases "length ?old + length ?line > kMaxFileSizeBytes")
    case True
    then have "length kept \<le> (length ?old + 1) div 2"
      using keepFrom_spec [of ?old] by (simp add: kept_def)
    with old_cap assms(9) show ?thesis by (simp add: kMaxFileSizeBytes_def)
  qed (simp add: kept_def)
  then have cap_p: "length c \<le> kMaxFileSizeBytes" if "map_of fs' p = Some c" for c using m that by simp
  have cap_q: "length c \<le> kMaxFileSizeBytes" if "map_of fs' q = Some c" "q \<noteq> p" for q c
  proof -
    have "map_of fs q = Some c" using w that by (auto split: if_splits)
    then show ?thesis using assms(8) by (auto simp: under_cap_def)
  qed
  have "under_cap fs'" unfolding under_cap_def using cap_p cap_q by metis
  moreover have "\<exists>cut. ?old = cut @ kept \<and> (cut = [] \<or> kept = [] \<or> last cut = LF) \<and>
      (length ?old + length ?line \<le> kMaxFileSizeBytes \<longrightarrow> cut = [])"
  proof (cases "length ?old + length ?line > kMaxFileSizeBytes")
    case True
    then show ?thesis using keepFrom_spec [of ?old]
      by (intro exI [of _ "take (keepFrom ?old) ?old"]) (auto simp: kept_def)
  qed (simp add: kept_def)
  moreover have "logger_ok (l', fs')" using w by blast
  moreover have "\<forall>q. q \<noteq> p \<longrightarrow> map_of fs' q = map_of fs q \<or>
       d \<noteq> lg_currentDateStr l \<and> expired_path io (lg_logDir l) cutoffDate q \<and> map_of fs' q = None"
    using w by (auto split: if_splits)
  ultimately show ?thesis using m by blast
qed

lemma log_write_capped_witness:
  "\<exists>kept. map_of (snd (writeLog demo_io ''2026-01-02 10:00:00'' ''2026-01-02'' ''2025-12-30'' LvErr ''up'' demo_logger))
     ''/l/ntm-client-2026-01-02.log'' = Some (kept @ ''[2026-01-02 10:00:00 ERR ] up'' @ [LF])"
proof -
  let ?s' = "writeLog demo_io ''2026-01-02 10:00:00'' ''2026-01-02'' ''2025-12-30'' LvErr ''up'' demo_logger"
  have line: "logLine ''2026-01-02 10:00:00'' LvErr ''up'' = ''[2026-01-02 10:00:00 ERR ] up'' @ [LF]"
    by (simp add: logLine_def)
  have "logger_ok (fst demo_logger, snd demo_logger)" using demo_logger_ok by simp
  moreover have "under_cap (snd demo_logger)"
    by (simp add: under_cap_def demo_logger_def kMaxFileSizeBytes_def)
  moreover have "''2025-12-30'' \<le> ''2026-01-02''" by code_simp
  ultimately show ?thesis
    using log_write_capped [of demo_io "fst demo_logger" "snd demo_logger" LvErr "''2026-01-02''"
        "''2025-12-30''" "''2026-01-02 10:00:00''" "''up''" "fst ?s'" "snd ?s'", OF demo_logger_ok(1)]
    by (auto simp: line demo_logger_def pathForDate_def kMaxFileSizeBytes_def)
qed

text \<open>
  Deleting the current day's log file silences the logger (a defect): \<open>deleteFile\<close> closes the
  file and does not open it again, so that from then on no write, of whatever day, changes anything.
\<close>

lemma delete_current_silences:
  assumes "starts_with logPrefix name" "12 \<le> length name" "CHR ''/'' \<notin> set name" "CHR 0x5C \<notin> set name"
    and "lg_logDir l \<noteq> []" "lg_currentPath l = fileOf (lg_logDir l) name"
    and "deleteFile io name (l, fs) = (b, s')"
  shows "foldl (\<lambda>s (io, t, d, c, level, msg). writeLog io t d c level msg s) s' ws = s'"
proof -
  have "\<not> lg_open (fst s')"
    using assms by (auto simp: deleteFile_def closeFile_def Let_def split: if_splits)
  then show ?thesis by (induction ws) (auto simp: closed_write)
qed

lemma delete_current_silences_witness:
  "let s' = snd (deleteFile demo_io ''ntm-client-2026-01-02.log'' demo_logger)
   in writeLog demo_io ''2026-01-03 10:00:00'' ''2026-01-03'' ''2025-12-31'' LvErr ''lost'' s' = s'"
  using delete_current_silences [of "''ntm-client-2026-01-02.log''" "fst demo_logger" demo_io "snd demo_logger" _ _
      "[(demo_io, ''2026-01-03 10:00:00'', ''2026-01-03'', ''2025-12-31'', LvErr, ''lost'')]",
      OF _ _ _ _ _ _ prod.collapse [symmetric]]
  by (simp add: demo_logger_def starts_with_def logPrefix_def fileOf_def Let_def)

end
