(* ===== verification/Registry.thy ===== *)
theory Registry
  imports Health
begin

text \<open>
  The shared registries of \<open>ntm_types.hpp\<close>: the client registry (addresses, external addresses,
  health, rejected protocol versions), the hidden entities, the monitoring addresses, the control
  channels with their pending log commands, and the update status of each client.  Every operation
  runs under its registry's mutex.
\<close>

section \<open>The client registry\<close>

record ProtoRejectionRecord =
  pr_peerIp :: string
  pr_attemptedVersion :: byte
  pr_atSec :: int

record ClientRegistry =
  ipToClientId :: "(string \<times> string) list"
  clientToExternalIp :: "(string \<times> string) list"
  clientHealth :: "(string \<times> ClientHealthStats) list"
  protoRejections :: "ProtoRejectionRecord list"

definition removeClient :: "string \<Rightarrow> ClientRegistry \<Rightarrow> ClientRegistry" where
  "removeClient clientId r =
     (if clientId = [] then r
      else r\<lparr> ipToClientId := erase_if (\<lambda>_ c. c = clientId) (ipToClientId r),
              clientToExternalIp := erase clientId (clientToExternalIp r),
              clientHealth := erase clientId (clientHealth r) \<rparr>)"

text \<open>The rejection list of \<open>connectionThread\<close>: the twenty most recent.\<close>

definition recordRejection :: "string \<Rightarrow> byte \<Rightarrow> int \<Rightarrow> ClientRegistry \<Rightarrow> ClientRegistry" where
  "recordRejection ip v now r =
     (if v = 0 then r
      else let q = protoRejections r @ [\<lparr> pr_peerIp = ip, pr_attemptedVersion = v, pr_atSec = now \<rparr>]
           in r\<lparr> protoRejections := (if length q > 20 then tl q else q) \<rparr>)"

text \<open>Session start: the peer's address belongs to the client.\<close>

definition registerSession :: "string \<Rightarrow> string \<Rightarrow> ClientRegistry \<Rightarrow> ClientRegistry" where
  "registerSession clientId clientIp r =
     (if clientIp = [] then r
      else r\<lparr> ipToClientId := AList.update clientIp clientId (ipToClientId r) \<rparr>)"

text \<open>The registry part of an accepted X-line.\<close>

definition announceExternal :: "string \<Rightarrow> string \<Rightarrow> string \<Rightarrow> ClientRegistry \<Rightarrow> ClientRegistry" where
  "announceExternal clientId clientIp extIp r =
     (let ips = erase_if (\<lambda>_ c. c = clientId) (ipToClientId r);
          ips' = (if clientIp = [] then ips else AList.update clientIp clientId ips)
      in r\<lparr> ipToClientId := ips',
            clientToExternalIp := AList.update clientId extIp (erase clientId (clientToExternalIp r)) \<rparr>)"

definition setHealth :: "string \<Rightarrow> ClientHealthStats \<Rightarrow> ClientRegistry \<Rightarrow> ClientRegistry" where
  "setHealth clientId hs r = r\<lparr> clientHealth := AList.update clientId hs (clientHealth r) \<rparr>"

section \<open>Hidden entities and monitoring addresses\<close>

record HiddenEntitiesStore =
  hiddenClients :: "string list"
  hiddenIfaces :: "(string \<times> string) list"

definition isClientHidden :: "HiddenEntitiesStore \<Rightarrow> string \<Rightarrow> bool" where
  "isClientHidden h c \<longleftrightarrow> c \<in> set (hiddenClients h)"

definition isIfaceHidden :: "HiddenEntitiesStore \<Rightarrow> string \<Rightarrow> string \<Rightarrow> bool" where
  "isIfaceHidden h c iface \<longleftrightarrow> c \<in> set (hiddenClients h) \<or> (c, iface) \<in> set (hiddenIfaces h)"

type_synonym MonitoringIpSet = "(string \<times> int) list"

definition monitoringAdd :: "string \<Rightarrow> int \<Rightarrow> MonitoringIpSet \<Rightarrow> MonitoringIpSet" where
  "monitoringAdd ip now ips = AList.update ip now ips"

definition monitoringIpSet :: "MonitoringIpSet \<Rightarrow> string list" where
  "monitoringIpSet ips = map fst ips"

section \<open>Control channels\<close>

record LogCmdResponse =
  lcr_lines :: "string list"
  lcr_done :: bool
  lcr_isError :: bool
  lcr_errorCode :: string
  lcr_errorDetail :: string

definition LogCmdResponse0 :: LogCmdResponse where
  "LogCmdResponse0 = \<lparr> lcr_lines = [], lcr_done = False, lcr_isError = False, lcr_errorCode = [],
     lcr_errorDetail = [] \<rparr>"

text \<open>A response is shared between \<open>pending\<close> and the admin request that waits for it, so it lives
  in a store and is referred to by its address.\<close>

record ClientCtrlChannel =
  cc_pending :: "(string \<times> nat) list"
  cc_store :: "nat \<Rightarrow> LogCmdResponse"
  cc_next :: nat
  cc_ackedLevel :: string
  cc_gotAck :: bool

definition ClientCtrlChannel0 :: ClientCtrlChannel where
  "ClientCtrlChannel0 = \<lparr> cc_pending = [], cc_store = (\<lambda>_. LogCmdResponse0), cc_next = 0,
     cc_ackedLevel = [], cc_gotAck = False \<rparr>"

definition registerPending :: "string \<Rightarrow> ClientCtrlChannel \<Rightarrow> nat \<times> ClientCtrlChannel" where
  "registerPending reqId ch =
     (cc_next ch, ch\<lparr> cc_pending := AList.update reqId (cc_next ch) (cc_pending ch),
                      cc_store := (cc_store ch)(cc_next ch := LogCmdResponse0),
                      cc_next := cc_next ch + 1 \<rparr>)"

definition removePending :: "string \<Rightarrow> ClientCtrlChannel \<Rightarrow> ClientCtrlChannel" where
  "removePending reqId ch = ch\<lparr> cc_pending := erase reqId (cc_pending ch) \<rparr>"

definition isEol :: "char \<Rightarrow> bool" where
  "isEol c \<longleftrightarrow> c = CR \<or> c = LF"

definition llineEnds :: "string \<Rightarrow> nat \<Rightarrow> string \<Rightarrow> bool" where
  "llineEnds body sp1 subtype \<longleftrightarrow>
     (find_str_from '' end'' sp1 body \<noteq> None \<and> subtype = ''list'') \<or>
     (find_str_from '' end'' sp1 body \<noteq> None \<and> subtype = ''get'') \<or>
     subtype = ''del'' \<or> subtype = ''del_all'' \<or> subtype = ''err''"

definition routeLLine :: "string \<Rightarrow> ClientCtrlChannel \<Rightarrow> ClientCtrlChannel" where
  "routeLLine body ch =
     (if starts_with ''ack set_loglevel '' body
      then ch\<lparr> cc_ackedLevel := rtrim isEol (drop 17 body), cc_gotAck := True \<rparr>
      else case find_ch SP body of
        None \<Rightarrow> ch
      | Some sp1 \<Rightarrow>
          (let reqId = (case find_ch_from SP (sp1 + 1) body of
                          None \<Rightarrow> drop (sp1 + 1) body
                        | Some sp2 \<Rightarrow> substr (sp1 + 1) (sp2 - sp1 - 1) body)
           in case map_of (cc_pending ch) reqId of
                None \<Rightarrow> ch
              | Some a \<Rightarrow>
                  (let subtype = take sp1 body;
                       resp = cc_store ch a;
                       resp1 = resp\<lparr> lcr_lines := lcr_lines resp @ [body] \<rparr>;
                       resp2 = (if subtype = ''err'' then resp1\<lparr> lcr_isError := True, lcr_done := True \<rparr>
                                else if llineEnds body sp1 subtype then resp1\<lparr> lcr_done := True \<rparr>
                                else resp1)
                   in ch\<lparr> cc_store := (cc_store ch)(a := resp2) \<rparr>)))"

type_synonym ClientControlChannels = "(string \<times> ClientCtrlChannel) list"

definition channelAdd :: "string \<Rightarrow> ClientCtrlChannel \<Rightarrow> ClientControlChannels \<Rightarrow> ClientControlChannels" where
  "channelAdd c ch chs = AList.update c ch chs"

definition channelRemove :: "string \<Rightarrow> ClientControlChannels \<Rightarrow> ClientControlChannels" where
  "channelRemove c chs = erase c chs"

definition channelGet :: "string \<Rightarrow> ClientControlChannels \<Rightarrow> ClientCtrlChannel option" where
  "channelGet c chs = map_of chs c"

section \<open>Update status\<close>

record UpdateStatus =
  us_req_id :: string
  us_stage :: string
  us_error :: string
  us_new_version :: string
  us_started_at :: int
  us_updated_at :: int
  us_terminal :: bool

type_synonym ClientUpdateRegistry = "(string \<times> UpdateStatus) list"

text \<open>Times are in seconds; five whole minutes are 300 of them.\<close>

definition purgeExpired :: "int \<Rightarrow> ClientUpdateRegistry \<Rightarrow> ClientUpdateRegistry" where
  "purgeExpired now u = erase_if (\<lambda>_ s. us_terminal s \<and> (now - us_updated_at s) div 60 \<ge> 5) u"

definition updateSet :: "string \<Rightarrow> UpdateStatus \<Rightarrow> int \<Rightarrow> ClientUpdateRegistry \<Rightarrow> ClientUpdateRegistry" where
  "updateSet c s now u = purgeExpired now (AList.update c (s\<lparr> us_updated_at := now \<rparr>) u)"

definition applyUpdLine :: "string \<Rightarrow> string \<Rightarrow> string \<Rightarrow> string \<Rightarrow> string \<Rightarrow> bool \<Rightarrow> int \<Rightarrow>
    ClientUpdateRegistry \<Rightarrow> bool \<times> ClientUpdateRegistry" where
  "applyUpdLine c reqId stage error newVersion terminal now u =
     (case map_of u c of
        None \<Rightarrow> (False, u)
      | Some s \<Rightarrow>
          if us_req_id s \<noteq> reqId then (False, u)
          else (True, AList.update c (s\<lparr> us_stage := stage, us_error := error, us_new_version := newVersion,
                                        us_terminal := terminal, us_updated_at := now \<rparr>) u))"

definition updateGet :: "string \<Rightarrow> ClientUpdateRegistry \<Rightarrow> UpdateStatus option" where
  "updateGet c u = map_of u c"

text \<open>An \<open>L upd\<close> line of the client (\<open>runWireDataLoop\<close>): \<open>rest\<close> is what follows \<open>upd\<close>.\<close>

definition splitSp :: "string \<Rightarrow> string \<times> string" where
  "splitSp s = (case find_ch SP s of None \<Rightarrow> (s, []) | Some i \<Rightarrow> (take i s, drop (i + 1) s))"

definition applyUpd :: "string \<Rightarrow> string \<Rightarrow> int \<Rightarrow> ClientUpdateRegistry \<Rightarrow> ClientUpdateRegistry" where
  "applyUpd c rest now u =
     (case find_ch SP rest of
        None \<Rightarrow> u
      | Some sp1 \<Rightarrow>
          (let reqId = take sp1 rest;
               (verb, arg) = splitSp (rtrim isEol (drop (sp1 + 1) rest))
           in if verb = ''ack'' then snd (applyUpdLine c reqId ''ack'' [] [] False now u)
              else if verb = ''stage'' then snd (applyUpdLine c reqId arg [] [] False now u)
              else if verb = ''noop'' then snd (applyUpdLine c reqId (''noop_'' @ arg) [] [] True now u)
              else if verb = ''done'' then snd (applyUpdLine c reqId ''done'' [] arg True now u)
              else if verb = ''err''
                then (let (errStage, errMsg) = splitSp arg
                      in snd (applyUpdLine c reqId (''err_'' @ errStage) errMsg [] True now u))
              else u))"

section \<open>Lemmas\<close>

definition registry_ok :: "ClientRegistry \<Rightarrow> bool" where
  "registry_ok r \<longleftrightarrow> keys_ok (ipToClientId r) \<and> keys_ok (clientToExternalIp r) \<and>
     keys_ok (clientHealth r) \<and> length (protoRejections r) \<le> 20"

lemma registry_ok_ops [simp]:
  assumes "registry_ok r"
  shows "registry_ok (removeClient c r)" "registry_ok (recordRejection ip v now r)"
    "registry_ok (registerSession c ip r)" "registry_ok (announceExternal c ip e r)"
    "registry_ok (setHealth c hs r)"
  using assms
  by (auto simp: registry_ok_def removeClient_def recordRejection_def registerSession_def
      announceExternal_def setHealth_def Let_def)

lemma map_of_update: "map_of (AList.update k v m) = (map_of m)(k \<mapsto> v)"
  by (rule update_conv')

lemma splitSp_no_space: "SP \<notin> set a \<Longrightarrow> splitSp (a @ SP # b) = (a, b)"
  by (simp add: splitSp_def find_ch_append)

lemma routeLLine_reqId:
  assumes "SP \<notin> set sub" "SP \<notin> set reqId" "\<not> starts_with ''ack set_loglevel '' (sub @ SP # reqId @ rest)"
    and "rest = [] \<or> hd rest = SP"
  shows "routeLLine (sub @ SP # reqId @ rest) ch =
    (case map_of (cc_pending ch) reqId of
       None \<Rightarrow> ch
     | Some a \<Rightarrow>
         (let body = sub @ SP # reqId @ rest;
              resp = (cc_store ch a)\<lparr> lcr_lines := lcr_lines (cc_store ch a) @ [body] \<rparr>;
              resp' = (if sub = ''err'' then resp\<lparr> lcr_isError := True, lcr_done := True \<rparr>
                       else if llineEnds body (length sub) sub then resp\<lparr> lcr_done := True \<rparr> else resp)
          in ch\<lparr> cc_store := (cc_store ch)(a := resp') \<rparr>))"
proof -
  let ?body = "sub @ SP # reqId @ rest"
  have d: "drop (length sub + 1) ?body = reqId @ rest" by simp
  have n: "find_ch SP reqId = None" using assms(2) by simp
  have "(case find_ch_from SP (length sub + 1) ?body of None \<Rightarrow> drop (length sub + 1) ?body
      | Some sp2 \<Rightarrow> substr (length sub + 1) (sp2 - length sub - 1) ?body) = reqId"
    using assms(2,4)
    by (cases rest) (auto simp: find_ch_from_def substr_def d n find_ch_append)
  then show ?thesis
    using assms(1,3) by (simp add: routeLLine_def find_ch_append Let_def split: option.splits)
qed

section \<open>Properties\<close>

text \<open>
  A log response reaches exactly the request it answers: an L-line \<open>sub reqId ...\<close> is appended
  to the response registered under \<open>reqId\<close>, which is then complete exactly for \<open>del\<close>, \<open>del_all\<close>,
  \<open>err\<close> and for a \<open>list\<close> or \<open>get\<close> line with an end marker (and was complete before otherwise); every
  other response is untouched, and a line for a request that nobody waits for changes nothing.
\<close>

lemma routeLLine_delivers:
  assumes "SP \<notin> set sub" "SP \<notin> set reqId" "\<not> starts_with ''ack set_loglevel '' (sub @ SP # reqId @ rest)"
    and "rest = [] \<or> hd rest = SP" "body = sub @ SP # reqId @ rest" "ch' = routeLLine body ch"
  shows "(map_of (cc_pending ch) reqId = None \<longrightarrow> ch' = ch) \<and>
    (\<forall>a. map_of (cc_pending ch) reqId = Some a \<longrightarrow>
       lcr_lines (cc_store ch' a) = lcr_lines (cc_store ch a) @ [body] \<and>
       (lcr_done (cc_store ch' a) \<longleftrightarrow> lcr_done (cc_store ch a) \<or> llineEnds body (length sub) sub) \<and>
       (lcr_isError (cc_store ch' a) \<longleftrightarrow> lcr_isError (cc_store ch a) \<or> sub = ''err'') \<and>
       (\<forall>b. b \<noteq> a \<longrightarrow> cc_store ch' b = cc_store ch b) \<and> cc_pending ch' = cc_pending ch)"
proof (cases "map_of (cc_pending ch) reqId")
  case None
  then show ?thesis unfolding assms(5,6) routeLLine_reqId [OF assms(1-4)] by simp
next
  case (Some a)
  have "sub = ''err'' \<Longrightarrow> llineEnds (sub @ SP # reqId @ rest) (length sub) sub" by (simp add: llineEnds_def)
  with Some show ?thesis
    unfolding assms(5,6) routeLLine_reqId [OF assms(1-4)] Let_def
    by (cases "sub = ''err''"; cases "llineEnds (sub @ SP # reqId @ rest) (length sub) sub") simp_all
qed

lemma routeLLine_delivers_witness:
  "lcr_done (cc_store (routeLLine ''get r1 end'' (snd (registerPending ''r1'' ClientCtrlChannel0))) 0)"
proof -
  let ?ch = "snd (registerPending ''r1'' ClientCtrlChannel0)"
  have m: "map_of (cc_pending ?ch) ''r1'' = Some 0"
    by (simp add: registerPending_def ClientCtrlChannel0_def)
  have l: "llineEnds ''get r1 end'' (length ''get'') ''get''"
    by (simp add: llineEnds_def find_str_from_def starts_with_def)
  have "SP \<notin> set ''get''" "SP \<notin> set ''r1''"
    "\<not> starts_with ''ack set_loglevel '' (''get'' @ SP # ''r1'' @ '' end'')"
    "'' end'' = [] \<or> hd '' end'' = SP" "''get r1 end'' = ''get'' @ SP # ''r1'' @ '' end''"
    by (simp_all add: starts_with_def)
  from routeLLine_delivers [OF this refl, of ?ch] m l show ?thesis by blast
qed

text \<open>
  The end of a session removes the client from the registry and nothing else: afterwards no
  address, external address or health report is attributed to it, and every entry of any other
  client is as before.
\<close>

lemma removeClient_exact:
  assumes "registry_ok r" "c \<noteq> []" "r' = removeClient c r"
  shows "registry_ok r' \<and>
    (\<forall>ip. map_of (ipToClientId r') ip =
       (if map_of (ipToClientId r) ip = Some c then None else map_of (ipToClientId r) ip)) \<and>
    (\<forall>c'. map_of (clientToExternalIp r') c' = (if c' = c then None else map_of (clientToExternalIp r) c') \<and>
          map_of (clientHealth r') c' = (if c' = c then None else map_of (clientHealth r) c')) \<and>
    protoRejections r' = protoRejections r"
proof -
  have k: "keys_ok (ipToClientId r)" using assms(1) by (simp add: registry_ok_def)
  have "registry_ok r'" using assms(1,3) by simp
  with assms(2,3) show ?thesis
    by (auto simp: removeClient_def map_of_erase_if [OF k] map_of_erase split: option.splits)
qed

lemma removeClient_exact_witness:
  "map_of (ipToClientId (removeClient ''a'' \<lparr> ipToClientId = [(''10.0.0.1'', ''a''), (''10.0.0.2'', ''b'')],
     clientToExternalIp = [(''a'', ''null'')], clientHealth = [], protoRejections = [] \<rparr>)) ''10.0.0.2'' = Some ''b''"
  using removeClient_exact [of "\<lparr> ipToClientId = [(''10.0.0.1'', ''a''), (''10.0.0.2'', ''b'')],
     clientToExternalIp = [(''a'', ''null'')], clientHealth = [], protoRejections = [] \<rparr>" "''a''", OF _ _ refl]
  by (simp add: registry_ok_def)

end
