(* ===== verification/LogCtl.thy ===== *)
theory LogCtl
  imports FileLog Registry Codecs
begin

text \<open>
  Remote log management, from the administrator's request to the client's disk and back: the five
  log handlers and the update handlers of \<open>web_dashboard.cpp\<close>, the client's \<open>processCtrlLine\<close>
  (\<open>client_impl.cpp\<close>) over the file logger of theory \<open>FileLog\<close>, and the response channels of theory
  \<open>Registry\<close> between them.

  \<open>EVP_EncodeBlock\<close>/\<open>EVP_DecodeBlock\<close>, SHA-256, the outcome of a write and the random request id are
  arguments.  So is, here, the update cycle that \<open>update_now\<close> runs: a function on the client's files
  that reports progress events; theory \<open>UpdateFlow\<close> puts the model of \<open>updater.cpp\<close> in its place
  (\<open>pushedCycle\<close>).  File names and paths hold no NUL.
\<close>

section \<open>The client: control lines\<close>

datatype UpdEvent = UpdStage string | UpdErr string string | UpdNoop string | UpdDone string

record CtrlEnv =
  ce_io :: FsEnv
  ce_timeStr :: string
  ce_dateStr :: string
  ce_cutoffDate :: string
  ce_encode :: "string \<Rightarrow> string"
  ce_sha256 :: "string \<Rightarrow> bytes"
  ce_write :: "string \<Rightarrow> bool"
  ce_cycle :: "Logger \<Rightarrow> UpdEvent list \<times> Logger"
  ce_auto_update :: bool

text \<open>\<open>ntmLog\<close> is also a write to the file logger.\<close>

definition ntmLog :: "CtrlEnv \<Rightarrow> ClientLogLevel \<Rightarrow> string \<Rightarrow> Logger \<Rightarrow> Logger" where
  "ntmLog env lv msg = writeLog (ce_io env) (ce_timeStr env) (ce_dateStr env) (ce_cutoffDate env) lv msg"

definition respLine :: "string \<Rightarrow> string" where
  "respLine s = kLogRespLinePrefix @ s @ [LF]"

definition errLine :: "string \<Rightarrow> string \<Rightarrow> string \<Rightarrow> string" where
  "errLine reqId code msg = respLine (''err '' @ reqId @ '' '' @ code @ '' '' @ msg)"

fun updLine :: "string \<Rightarrow> UpdEvent \<Rightarrow> string" where
  "updLine reqId (UpdStage s) = respLine (''upd '' @ reqId @ '' stage '' @ s)"
| "updLine reqId (UpdErr s m) = respLine (''upd '' @ reqId @ '' err '' @ s @ '' '' @ m)"
| "updLine reqId (UpdNoop r) = respLine (''upd '' @ reqId @ '' noop '' @ r)"
| "updLine reqId (UpdDone v) = respLine (''upd '' @ reqId @ '' done '' @ v)"

definition kRawChunk :: nat where "kRawChunk = 32768"

text \<open>The \<open>fread\<close> loop: the pieces of a file.\<close>

function chunksOf :: "nat \<Rightarrow> string \<Rightarrow> string list" where
  "chunksOf n s = (if s = [] \<or> n = 0 then [] else take n s # chunksOf n (drop n s))"
  by pat_completeness auto
termination chunksOf
  by (relation "measure (length \<circ> snd)") auto

declare chunksOf.simps [simp del]

text \<open>Sending chunk lines: a failed write ends the transfer.\<close>

fun sendChunks :: "(string \<Rightarrow> bool) \<Rightarrow> string list \<Rightarrow> string list \<times> bool" where
  "sendChunks wr [] = ([], True)"
| "sendChunks wr (l # ls) =
     (if wr l then (case sendChunks wr ls of (out, ok) \<Rightarrow> (l # out, ok)) else ([l], False))"

definition setLogLevel :: "CtrlEnv \<Rightarrow> string \<Rightarrow> Logger \<Rightarrow> string list \<times> Logger" where
  "setLogLevel env arg s =
     (let lv = (if arg = ''Warn'' then LvWarn else if arg = ''Err'' then LvErr else LvInfo);
          level = (if arg = ''Warn'' \<or> arg = ''Err'' then arg else ''Info'');
          s1 = (case s of (l, fs) \<Rightarrow> (l\<lparr> lg_level := lv \<rparr>, fs))
      in ([respLine (''ack set_loglevel '' @ level)],
          ntmLog env lv (''ntm-client: log level changed to '' @ level @ '' by admin'') s1))"

definition logList :: "CtrlEnv \<Rightarrow> string \<Rightarrow> Logger \<Rightarrow> string list" where
  "logList env reqId s =
     (let files = listFiles (ce_io env) s in
      [respLine (''list '' @ reqId @ '' begin '' @ show_nat (length files))] @
      map (\<lambda>f. respLine (''list '' @ reqId @ '' file '' @ fi_name f @ '' '' @ show_nat (fi_size f) @ '' '' @
             fi_mtime f)) files @
      [respLine (''list '' @ reqId @ '' end'')])"

definition badFilename :: "string \<Rightarrow> bool" where
  "badFilename f \<longleftrightarrow> f = [] \<or> CHR ''/'' \<in> set f \<or> CHR 0x5C \<in> set f \<or> find_str ''..'' f \<noteq> None"

definition getLines :: "CtrlEnv \<Rightarrow> string \<Rightarrow> string \<Rightarrow> string \<Rightarrow> string list" where
  "getLines env reqId filename content =
     (let data = take (fe_fread (ce_io env) (length content)) content;
          hdr = respLine (''get '' @ reqId @ '' begin '' @ filename @ '' '' @ show_nat (length content) @
                  '' '' @ hexEncode (ce_sha256 env data));
          chunks = map (\<lambda>c. respLine (''get '' @ reqId @ '' chunk '' @ ce_encode env c)) (chunksOf kRawChunk data);
          (out, ok) = sendChunks (ce_write env) chunks
      in if ok then hdr # out @ [respLine (''get '' @ reqId @ '' end'')] else hdr # out)"

definition logGet :: "CtrlEnv \<Rightarrow> string \<Rightarrow> string \<Rightarrow> Logger \<Rightarrow> string list" where
  "logGet env reqId filename = (\<lambda>(l, fs).
     let path = fileOf (lg_logDir l) filename in
     case map_of fs path of
       None \<Rightarrow> [errLine reqId ''not_found'' ''file-not-found'']
     | Some content \<Rightarrow>
         if \<not> fe_fopen (ce_io env) path ''rb'' then [errLine reqId ''not_found'' ''file-not-found'']
         else if \<not> fe_size (ce_io env) path then [errLine reqId ''io_error'' ''cannot-stat-file'']
         else getLines env reqId filename content)"

text \<open>With automatic updates the line runs a whole update cycle, which changes the client's files.\<close>

definition updateNow :: "CtrlEnv \<Rightarrow> string \<Rightarrow> Logger \<Rightarrow> string list \<times> Logger" where
  "updateNow env reqId s =
     (if \<not> ce_auto_update env then
        ([respLine (''upd '' @ reqId @ '' noop auto_update_disabled'')],
         ntmLog env LvWarn (''ntm-client: update_now received but auto_update is disabled '' @
           [CHR 0xE2, CHR 0x80, CHR 0x94] @ '' add auto_update=true to config to enable'') s)
      else case ce_cycle env s of (evs, s1) \<Rightarrow>
        (respLine (''upd '' @ reqId @ '' ack'') # map (updLine reqId) evs, s1))"

text \<open>The part of \<open>processCtrlLine\<close> after the request id, with \<open>args\<close> the text after the second
  space if there is one.\<close>

definition ctrlCommand :: "CtrlEnv \<Rightarrow> string \<Rightarrow> string \<Rightarrow> string option \<Rightarrow> Logger \<Rightarrow> string list \<times> Logger" where
  "ctrlCommand env cmd reqId args s =
     (let unavailable = [errLine reqId ''unavailable'' ''file-logging-not-active''] in
      if cmd = ''log_list'' then
        if \<not> lg_active (fst s) then (unavailable, s) else (logList env reqId s, s)
      else if cmd = ''log_delete_all'' then
        if \<not> lg_active (fst s) then (unavailable, s)
        else (case deleteAllFiles (ce_io env) (ce_dateStr env) s of
                (n, s1) \<Rightarrow> ([respLine (''del_all '' @ reqId @ '' ok '' @ show_nat n)], s1))
      else case args of None \<Rightarrow> ([], s)
      | Some filename \<Rightarrow>
        if badFilename filename then ([errLine reqId ''bad_filename'' ''invalid-or-missing-filename''], s)
        else if cmd = ''log_delete'' then
          if \<not> lg_active (fst s) then (unavailable, s)
          else (case deleteFile (ce_io env) filename s of
                  (True, s1) \<Rightarrow> ([respLine (''del '' @ reqId @ '' ok '' @ filename)], s1)
                | (False, s1) \<Rightarrow> ([respLine (''del '' @ reqId @ '' err '' @ filename @ '' not-found'')], s1))
        else if cmd = ''log_get'' then
          if \<not> lg_active (fst s) then (unavailable, s) else (logGet env reqId filename s, s)
        else if cmd = ''update_now'' then updateNow env reqId s
        else ([], s))"

text \<open>The lines handed to \<open>deflateAndWrite\<close>, in order, and the new state of the logger.\<close>

definition processCtrlLine :: "CtrlEnv \<Rightarrow> string \<Rightarrow> Logger \<Rightarrow> string list \<times> Logger" where
  "processCtrlLine env line s =
     (if length line < 2 \<or> line ! 0 \<noteq> CHR ''C'' \<or> line ! 1 \<noteq> SP then ([], s)
      else let body = drop 2 line in
      if starts_with ''set_loglevel '' body then setLogLevel env (drop 13 body) s
      else case find_ch SP body of None \<Rightarrow> ([], s)
      | Some sp1 \<Rightarrow>
          (let cmd = take sp1 body;
               sp2 = find_ch_from SP (sp1 + 1) body;
               reqId = (case sp2 of None \<Rightarrow> drop (sp1 + 1) body
                        | Some j \<Rightarrow> substr (sp1 + 1) (j - sp1 - 1) body)
           in if reqId = [] \<or> length reqId > kCtrlReqIdMaxLen then ([], s)
              else ctrlCommand env cmd reqId (map_option (\<lambda>j. drop (j + 1) body) sp2) s))"

section \<open>The server: the administrator's handlers\<close>

text \<open>A response is a status and a body.\<close>

type_synonym HttpResponse = "nat \<times> string"

record AdminWorld =
  aw_registry :: ClientRegistry
  aw_channels :: ClientControlChannels
  aw_updates :: ClientUpdateRegistry

definition jsonEsc :: "string \<Rightarrow> string" where
  "jsonEsc s = concat (map (\<lambda>c.
     if c = CHR 0x22 then [CHR 0x5C, CHR 0x22]
     else if c = CHR 0x5C then [CHR 0x5C, CHR 0x5C]
     else if c = LF then [CHR 0x5C, CHR ''n'']
     else if c = CR then [CHR 0x5C, CHR ''r'']
     else if c = TAB then [CHR 0x5C, CHR ''t'']
     else if code_of c < 0x20 then []
     else [c]) s)"

definition errorBody :: "string \<Rightarrow> string" where
  "errorBody e = ''{\"error\":\"'' @ e @ ''\"}'' @ [LF]"

definition generateReqId :: "bytes \<Rightarrow> string" where
  "generateReqId buf = hexEncode buf"

text \<open>\<open>validateClientId\<close> and \<open>validateUpdClientId\<close> have the same text.\<close>

definition validateClientId :: "(string \<times> string) list \<Rightarrow> HttpResponse + string" where
  "validateClientId params =
     (case map_of params ''client_id'' of
        None \<Rightarrow> Inl (400, errorBody ''invalid client_id'')
      | Some c \<Rightarrow>
          if length c \<noteq> 64 \<or> \<not> set c \<subseteq> set ''0123456789abcdef''
          then Inl (400, errorBody ''invalid client_id'') else Inr c)"

definition isalnum :: "char \<Rightarrow> bool" where
  "isalnum c \<longleftrightarrow> in_range CHR ''A'' CHR ''Z'' c \<or> in_range CHR ''a'' CHR ''z'' c \<or> is_digit c"

definition filenameAllowed :: "string \<Rightarrow> bool" where
  "filenameAllowed f \<longleftrightarrow> f \<noteq> [] \<and>
     (\<forall>c \<in> set f. isalnum c \<or> c = CHR ''-'' \<or> c = CHR ''_'' \<or> c = CHR ''.'')"

text \<open>
  Sending a C-line for a fresh request and waiting: \<open>peer\<close> is what the world does to the channel
  between the write of the line and the end of the wait.  The result is the response object as the
  handler then finds it.
\<close>

type_synonym Peer = "string \<Rightarrow> ClientCtrlChannel \<Rightarrow> ClientCtrlChannel"

definition exchange :: "Peer \<Rightarrow> string \<Rightarrow> string \<Rightarrow> string \<Rightarrow> ClientCtrlChannel \<Rightarrow> AdminWorld \<Rightarrow>
    LogCmdResponse \<times> AdminWorld" where
  "exchange peer reqId cLine clientId ch w =
     (let (a, ch1) = registerPending reqId ch;
          ch2 = peer cLine ch1
      in (cc_store ch2 a,
          w\<lparr> aw_channels := AList.update clientId (removePending reqId ch2) (aw_channels w) \<rparr>))"

definition sendAndWait :: "Peer \<Rightarrow> string \<Rightarrow> string \<Rightarrow> string \<Rightarrow> AdminWorld \<Rightarrow>
    LogCmdResponse option \<times> AdminWorld" where
  "sendAndWait peer reqId clientId cLine w =
     (case channelGet clientId (aw_channels w) of
        None \<Rightarrow> (None, w)
      | Some ch \<Rightarrow> (case exchange peer reqId (cLine @ '' '' @ reqId) clientId ch w of
                      (r, w') \<Rightarrow> (Some r, w')))"

text \<open>One \<open>list <req_id> file <name> <size> <mtime>\<close> line as a JSON object.\<close>

definition fileEntry :: "string \<Rightarrow> string option" where
  "fileEntry line =
     (if \<not> starts_with ''list '' line then None
      else case find_str '' file '' line of None \<Rightarrow> None
      | Some filePos \<Rightarrow>
          (let rest = drop (filePos + 6) line in
           case find_ch SP rest of None \<Rightarrow> None
           | Some sp1 \<Rightarrow>
               (let name = take sp1 rest; rem = drop (sp1 + 1) rest;
                    (size, mtime) = (case find_ch SP rem of None \<Rightarrow> (rem, [])
                                     | Some sp2 \<Rightarrow> (take sp2 rem, drop (sp2 + 1) rem))
                in Some (''{\"name\":\"'' @ jsonEsc name @ ''\",\"size\":'' @ jsonEsc size @
                         '',\"mtime\":\"'' @ jsonEsc mtime @ ''\"}''))))"

fun join_with :: "string \<Rightarrow> string list \<Rightarrow> string" where
  "join_with sep [] = []"
| "join_with sep [x] = x"
| "join_with sep (x # y # r) = x @ sep @ join_with sep (y # r)"

definition notLogging :: "bool \<Rightarrow> string" where
  "notLogging connected = ''{\"connected\":'' @ (if connected then ''true'' else ''false'') @
     '',\"file_logging\":false,\"level\":null,\"files\":[]}'' @ [LF]"

definition getLogs :: "Peer \<Rightarrow> string \<Rightarrow> (string \<times> string) list \<Rightarrow> AdminWorld \<Rightarrow> HttpResponse \<times> AdminWorld" where
  "getLogs peer reqId params w =
     (case validateClientId params of Inl r \<Rightarrow> (r, w)
      | Inr clientId \<Rightarrow>
        if \<not> has_key clientId (clientHealth (aw_registry w)) then ((200, notLogging False), w)
        else case sendAndWait peer reqId clientId ''C log_list'' w of
          (None, w1) \<Rightarrow> ((504, errorBody ''client did not respond (timeout)''), w1)
        | (Some resp, w1) \<Rightarrow>
            if \<not> lcr_done resp then ((504, errorBody ''client did not respond (timeout)''), w1)
            else if lcr_isError resp then
              (if lcr_lines resp \<noteq> [] \<and> find_str ''unavailable'' (hd (lcr_lines resp)) \<noteq> None
               then ((200, notLogging True), w1) else ((500, errorBody ''client reported error''), w1))
            else
              (let level = (case map_of (clientHealth (aw_registry w1)) clientId of None \<Rightarrow> ''Info''
                            | Some h \<Rightarrow> if cfgLogLevel h = [] then ''Info'' else cfgLogLevel h)
               in ((200, ''{\"connected\":true,\"file_logging\":true,\"level\":\"'' @ jsonEsc level @
                    ''\",\"files\":['' @ join_with '','' (List.map_filter fileEntry (lcr_lines resp)) @ '']}'' @ [LF]),
                   w1)))"

definition bodyLevel :: "string \<Rightarrow> string" where
  "bodyLevel body =
     (case find_str ''\"level\"'' body of None \<Rightarrow> []
      | Some lp \<Rightarrow> (case find_ch_from CHR '':'' (lp + 7) body of None \<Rightarrow> []
        | Some colon \<Rightarrow> (case find_ch_from CHR 0x22 (colon + 1) body of None \<Rightarrow> []
          | Some q1 \<Rightarrow> (case find_ch_from CHR 0x22 (q1 + 1) body of None \<Rightarrow> []
            | Some q2 \<Rightarrow> substr (q1 + 1) (q2 - q1 - 1) body))))"

text \<open>The handler of \<open>loglevel\<close> waits for \<open>gotAck\<close>, whoever set it, and clears it.\<close>

definition postLogLevel :: "Peer \<Rightarrow> (string \<times> string) list \<Rightarrow> string \<Rightarrow> AdminWorld \<Rightarrow> HttpResponse \<times> AdminWorld" where
  "postLogLevel peer params body w =
     (case validateClientId params of Inl r \<Rightarrow> (r, w)
      | Inr clientId \<Rightarrow>
        let level = bodyLevel body in
        if level \<noteq> ''Info'' \<and> level \<noteq> ''Warn'' \<and> level \<noteq> ''Err''
        then ((400, errorBody ''level must be Info, Warn, or Err''), w)
        else case channelGet clientId (aw_channels w) of
          None \<Rightarrow> ((503, errorBody ''client not connected''), w)
        | Some ch \<Rightarrow>
            (let ch1 = peer (''C set_loglevel '' @ level) ch;
                 w1 = w\<lparr> aw_channels := AList.update clientId (ch1\<lparr> cc_gotAck := False \<rparr>) (aw_channels w) \<rparr>
             in if \<not> cc_gotAck ch1 then ((504, errorBody ''client did not acknowledge (timeout)''), w1)
                else ((200, ''{\"ok\":true,\"level\":\"'' @ jsonEsc level @ ''\"}'' @ [LF]), w1)))"

text \<open>Reassembly of a file from its L-lines: the chunks are decoded by \<open>EVP_DecodeBlock\<close> (\<open>None\<close>
  for \<open>-1\<close>), and as many bytes as there are trailing \<open>=\<close> are taken off.  Appending a negative
  number of bytes throws.\<close>

definition trailingPad :: "string \<Rightarrow> nat" where
  "trailingPad b64 = length (takeWhile (\<lambda>c. c = CHR ''='') (rev b64))"

definition chunkBytes :: "(string \<Rightarrow> string option) \<Rightarrow> string \<Rightarrow> string option" where
  "chunkBytes decode b64 =
     (case decode b64 of
        None \<Rightarrow> Some []
      | Some raw \<Rightarrow>
          if raw = [] then Some []
          else if trailingPad b64 > length raw then None
          else Some (take (length raw - trailingPad b64) raw))"

text \<open>What one response line contributes; \<open>begin\<close> lines only set the capacity of the buffer.\<close>

definition getLineBytes :: "(string \<Rightarrow> string option) \<Rightarrow> string \<Rightarrow> string option" where
  "getLineBytes decode line =
     (if \<not> starts_with ''get '' line then Some []
      else case find_ch SP line of None \<Rightarrow> Some []
      | Some sp1 \<Rightarrow> (case find_ch_from SP (sp1 + 1) line of None \<Rightarrow> Some []
        | Some sp2 \<Rightarrow>
            (case find_ch_from SP (sp2 + 1) line of
               None \<Rightarrow> Some []
             | Some sp3 \<Rightarrow> if substr (sp2 + 1) (sp3 - sp2 - 1) line = ''chunk''
                           then chunkBytes decode (drop (sp3 + 1) line) else Some [])))"

fun reassemble :: "(string \<Rightarrow> string option) \<Rightarrow> string list \<Rightarrow> string option" where
  "reassemble decode [] = Some []"
| "reassemble decode (l # ls) =
     (case getLineBytes decode l of None \<Rightarrow> None
      | Some x \<Rightarrow> map_option (\<lambda>y. x @ y) (reassemble decode ls))"

definition kMaxDownload :: nat where "kMaxDownload = 50 * 1024 * 1024"

definition pathFilename :: "(string \<times> string) list \<Rightarrow> string" where
  "pathFilename params = (case map_of params ''filename'' of None \<Rightarrow> [] | Some f \<Rightarrow> f)"

definition getLogFile :: "(string \<Rightarrow> string option) \<Rightarrow> Peer \<Rightarrow> string \<Rightarrow> (string \<times> string) list \<Rightarrow> AdminWorld \<Rightarrow>
    HttpResponse \<times> AdminWorld" where
  "getLogFile decode peer reqId params w =
     (case validateClientId params of Inl r \<Rightarrow> (r, w)
      | Inr clientId \<Rightarrow>
        let filename = pathFilename params in
        if \<not> filenameAllowed filename then ((400, errorBody ''invalid filename''), w)
        else case channelGet clientId (aw_channels w) of
          None \<Rightarrow> ((503, errorBody ''client not connected''), w)
        | Some ch \<Rightarrow>
            (case exchange peer reqId (''C log_get '' @ reqId @ '' '' @ filename) clientId ch w of
               (resp, w1) \<Rightarrow>
                 if \<not> lcr_done resp then ((504, errorBody ''file transfer timed out''), w1)
                 else if lcr_isError resp then ((404, errorBody ''file not found or client error''), w1)
                 else case reassemble decode (lcr_lines resp) of
                        None \<Rightarrow> ((500, []), w1)
                      | Some fileData \<Rightarrow> ((200, take kMaxDownload fileData), w1)))"

definition deleteLogFile :: "Peer \<Rightarrow> string \<Rightarrow> (string \<times> string) list \<Rightarrow> AdminWorld \<Rightarrow> HttpResponse \<times> AdminWorld" where
  "deleteLogFile peer reqId params w =
     (case validateClientId params of Inl r \<Rightarrow> (r, w)
      | Inr clientId \<Rightarrow>
        let filename = pathFilename params in
        if \<not> filenameAllowed filename then ((400, errorBody ''invalid filename''), w)
        else case channelGet clientId (aw_channels w) of
          None \<Rightarrow> ((503, errorBody ''client not connected''), w)
        | Some ch \<Rightarrow>
            (case exchange peer reqId (''C log_delete '' @ reqId @ '' '' @ filename) clientId ch w of
               (resp, w1) \<Rightarrow>
                 if \<not> lcr_done resp \<or> lcr_isError resp then
                   (let notFound = (lcr_lines resp \<noteq> [] \<and> find_str ''not-found'' (hd (lcr_lines resp)) \<noteq> None)
                    in ((if notFound then 404 else if lcr_done resp then 500 else 504,
                         errorBody (if notFound then ''file not found''
                                    else if lcr_done resp then ''client error'' else ''timeout'')), w1))
                 else ((200, ''{\"ok\":true,\"file\":\"'' @ jsonEsc filename @ ''\"}'' @ [LF]), w1)))"

text \<open>\<open>std::stoi\<close>: no conversion and a value outside \<open>int\<close> throw.\<close>

definition stoi :: "string \<Rightarrow> int option" where
  "stoi s =
     (let s1 = dropWhile is_space s;
          neg = (s1 \<noteq> [] \<and> hd s1 = CHR ''-'');
          s2 = (if s1 \<noteq> [] \<and> hd s1 \<in> {CHR ''-'', CHR ''+''} then tl s1 else s1);
          ds = takeWhile is_digit s2;
          v = (if neg then - int (dec_val ds) else int (dec_val ds))
      in if ds = [] \<or> v < -2147483648 \<or> 2147483647 < v then None else Some v)"

definition deletedCount :: "string list \<Rightarrow> int" where
  "deletedCount ls =
     (case find (starts_with ''del_all '') ls of None \<Rightarrow> 0
      | Some line \<Rightarrow> (case find_str '' ok '' line of None \<Rightarrow> 0
        | Some okPos \<Rightarrow> (case stoi (drop (okPos + 4) line) of None \<Rightarrow> 0 | Some v \<Rightarrow> v)))"

definition deleteLogs :: "Peer \<Rightarrow> string \<Rightarrow> (string \<times> string) list \<Rightarrow> AdminWorld \<Rightarrow> HttpResponse \<times> AdminWorld" where
  "deleteLogs peer reqId params w =
     (case validateClientId params of Inl r \<Rightarrow> (r, w)
      | Inr clientId \<Rightarrow>
        case channelGet clientId (aw_channels w) of
          None \<Rightarrow> ((503, errorBody ''client not connected''), w)
        | Some ch \<Rightarrow>
            (case exchange peer reqId (''C log_delete_all '' @ reqId) clientId ch w of
               (resp, w1) \<Rightarrow>
                 if \<not> lcr_done resp \<or> lcr_isError resp
                 then ((if lcr_done resp then 500 else 504,
                        errorBody (if lcr_done resp then ''client error'' else ''timeout'')), w1)
                 else ((200, ''{\"ok\":true,\"deleted\":'' @ show_int (deletedCount (lcr_lines resp)) @ ''}'' @ [LF]), w1)))"

subsection \<open>Pushed client updates\<close>

text \<open>\<open>allowed\<close> is the set of allowed raw keys; the line is written and not waited for.  The
  watchdog thread runs \<open>updateWatchdog\<close> ten minutes later.\<close>

definition hexToRaw32 :: "string \<Rightarrow> bytes" where
  "hexToRaw32 hex = (if length hex \<noteq> 64 then [] else case hexLoop hex of None \<Rightarrow> [] | Some raw \<Rightarrow> raw)"

definition postUpdate :: "Peer \<Rightarrow> string \<Rightarrow> bytes set \<Rightarrow> int \<Rightarrow> (string \<times> string) list \<Rightarrow> AdminWorld \<Rightarrow>
    HttpResponse \<times> AdminWorld" where
  "postUpdate peer reqId allowed now params w =
     (case validateClientId params of Inl r \<Rightarrow> (r, w)
      | Inr clientId \<Rightarrow>
        let rawKey = hexToRaw32 clientId in
        if rawKey = [] then ((400, errorBody ''invalid client_id''), w)
        else if rawKey \<notin> allowed then ((404, errorBody ''client not found''), w)
        else case channelGet clientId (aw_channels w) of
          None \<Rightarrow> ((409, errorBody ''client_offline''), w)
        | Some ch \<Rightarrow>
            (let us = \<lparr> us_req_id = reqId, us_stage = ''sent'', us_error = [], us_new_version = [],
                        us_started_at = now, us_updated_at = now, us_terminal = False \<rparr>;
                 w1 = w\<lparr> aw_updates := updateSet clientId us now (aw_updates w) \<rparr>;
                 w2 = w1\<lparr> aw_channels := AList.update clientId (peer (''C update_now '' @ reqId) ch) (aw_channels w1) \<rparr>
             in ((200, ''{\"ok\":true,\"req_id\":\"'' @ jsonEsc reqId @ ''\"}'' @ [LF]), w2)))"

definition updateWatchdog :: "string \<Rightarrow> string \<Rightarrow> int \<Rightarrow> ClientUpdateRegistry \<Rightarrow> ClientUpdateRegistry" where
  "updateWatchdog clientId reqId now u =
     (case updateGet clientId u of None \<Rightarrow> u
      | Some cur \<Rightarrow>
          if us_req_id cur \<noteq> [] \<and> us_req_id cur = reqId \<and> \<not> us_terminal cur
          then snd (applyUpdLine clientId reqId ''timeout'' ''watchdog'' [] True now u) else u)"

definition jsonOrNull :: "string \<Rightarrow> string" where
  "jsonOrNull s = (if s = [] then ''null'' else ''\"'' @ jsonEsc s @ ''\"'')"

definition getUpdateStatus :: "(string \<times> string) list \<Rightarrow> AdminWorld \<Rightarrow> HttpResponse" where
  "getUpdateStatus params w =
     (case validateClientId params of Inl r \<Rightarrow> r
      | Inr clientId \<Rightarrow>
        case updateGet clientId (aw_updates w) of
          None \<Rightarrow> (200, ''{}'' @ [LF])
        | Some s \<Rightarrow>
            if us_req_id s = [] then (200, ''{}'' @ [LF])
            else (200, ''{\"req_id\":\"'' @ jsonEsc (us_req_id s) @ ''\",\"stage\":\"'' @ jsonEsc (us_stage s) @
                   ''\",\"started_at\":'' @ show_int (us_started_at s) @ '',\"updated_at\":'' @ show_int (us_updated_at s) @
                   '',\"error\":'' @ jsonOrNull (us_error s) @ '',\"new_version\":'' @ jsonOrNull (us_new_version s) @
                   '',\"terminal\":'' @ (if us_terminal s then ''true'' else ''false'') @ ''}'' @ [LF]))"

section \<open>Lemmas: words of a line\<close>

lemma starts_with_Cons [simp, string_simps]:
  "starts_with (x # p) (y # s) \<longleftrightarrow> x = y \<and> starts_with p s" "starts_with [] s" "\<not> starts_with (x # p) []"
  by (auto simp: starts_with_def)

lemma starts_with_set: "starts_with p s \<Longrightarrow> set p \<subseteq> set s"
  by (auto simp: starts_with_iff)

lemma starts_with_word: "SP \<notin> set w \<Longrightarrow> starts_with w (x @ SP # t) \<longleftrightarrow> starts_with w x"
  by (induction w arbitrary: x) (simp, case_tac x, auto)

lemma find_str_pass: "SP \<notin> set x \<Longrightarrow> find_str (SP # w) (x @ t) = None \<longleftrightarrow> find_str (SP # w) t = None"
  by (induction x) auto

lemma find_word [string_simps]:
  assumes "SP \<notin> set w" "SP \<notin> set x"
  shows "find_str (SP # w) (SP # x @ SP # t) = None \<longleftrightarrow> \<not> starts_with w x \<and> find_str (SP # w) (SP # t) = None"
    "find_str (SP # w) (SP # x) = None \<longleftrightarrow> \<not> starts_with w x"
  using find_str_pass [OF assms(2), of w "SP # t"] find_str_pass [OF assms(2), of w "[]"]
  by (auto simp: starts_with_word [OF assms(1)])

lemma find_two: "SP \<notin> set x \<Longrightarrow> SP \<notin> set y \<Longrightarrow>
  find_ch_from SP (length x + 1) (x @ SP # y @ SP # z) = Some (length x + 1 + length y)"
  by (simp add: find_ch_from_def find_ch_append)

text \<open>A command with and without arguments.\<close>

lemma processCtrlLine_args:
  assumes "SP \<notin> set cmd" "SP \<notin> set reqId" "reqId \<noteq> []" "length reqId \<le> kCtrlReqIdMaxLen" "cmd \<noteq> ''set_loglevel''"
  shows "processCtrlLine env (''C '' @ cmd @ SP # reqId @ SP # args) s = ctrlCommand env cmd reqId (Some args) s"
proof -
  let ?body = "cmd @ SP # reqId @ SP # args"
  have "\<not> starts_with ''set_loglevel '' ?body"
  proof
    assume "starts_with ''set_loglevel '' ?body"
    then obtain r where r: "?body = ''set_loglevel'' @ SP # r" by (auto simp: starts_with_iff)
    have "takeWhile (\<lambda>c. c \<noteq> SP) ?body = cmd" using assms(1) by (induction cmd) auto
    moreover have "takeWhile (\<lambda>c. c \<noteq> SP) (''set_loglevel'' @ SP # r) = ''set_loglevel''" by simp
    ultimately show False using assms(5) r by (simp only:)
  qed
  moreover have "drop (length cmd + 1 + length reqId + 1) ?body = args" by simp
  ultimately show ?thesis
    using assms find_two [OF assms(1,2), of args]
    by (simp add: processCtrlLine_def Let_def find_ch_append substr_def)
qed

lemma processCtrlLine_noargs:
  assumes "SP \<notin> set cmd" "SP \<notin> set reqId" "reqId \<noteq> []" "length reqId \<le> kCtrlReqIdMaxLen" "cmd \<noteq> ''set_loglevel''"
  shows "processCtrlLine env (''C '' @ cmd @ SP # reqId) s = ctrlCommand env cmd reqId None s"
proof -
  let ?body = "cmd @ SP # reqId"
  have "\<not> starts_with ''set_loglevel '' ?body"
  proof
    assume "starts_with ''set_loglevel '' ?body"
    then obtain r where r: "?body = ''set_loglevel'' @ SP # r" by (auto simp: starts_with_iff)
    have "takeWhile (\<lambda>c. c \<noteq> SP) ?body = cmd" using assms(1) by (induction cmd) auto
    moreover have "takeWhile (\<lambda>c. c \<noteq> SP) (''set_loglevel'' @ SP # r) = ''set_loglevel''" by simp
    ultimately show False using assms(5) r by (simp only:)
  qed
  moreover have "find_ch_from SP (length cmd + 1) ?body = None"
    using assms(2) by (simp add: find_ch_from_def)
  ultimately show ?thesis
    using assms by (simp add: processCtrlLine_def Let_def find_ch_append)
qed

lemma hex_words: "SP \<notin> set (hexEncode b)" "CHR ''n'' \<notin> set (hexEncode b)" "CHR ''/'' \<notin> set (hexEncode b)"
  using set_hexEncode [of b] by (auto simp: kHex_def)

lemma no_end_word: "CHR ''n'' \<notin> set x \<Longrightarrow> \<not> starts_with ''end'' x"
  using starts_with_set by fastforce

lemma show_nat_words: "SP \<notin> set (show_nat n)" "CHR ''n'' \<notin> set (show_nat n)"
  using show_nat_digits [of n] by (auto simp: is_digit_iff code_of_def)

lemma allowed_words: "filenameAllowed f \<Longrightarrow> SP \<notin> set f" "filenameAllowed f \<Longrightarrow> f \<noteq> []"
    "filenameAllowed f \<Longrightarrow> CHR ''/'' \<notin> set f" "filenameAllowed f \<Longrightarrow> CHR 0x5C \<notin> set f"
  by (auto simp: filenameAllowed_def isalnum_def in_range_def is_digit_iff code_of_def)

text \<open>The words of a \<open>get\<close> line.\<close>

lemma getLineBytes_words:
  assumes "SP \<notin> set reqId" "SP \<notin> set sub"
  shows "getLineBytes decode (''get '' @ reqId @ SP # sub @ SP # t) =
      (if sub = ''chunk'' then chunkBytes decode t else Some [])"
    "getLineBytes decode (''get '' @ reqId @ SP # sub) = Some []"
proof -
  have "getLineBytes decode (g @ SP # reqId @ SP # sub @ SP # t) =
      (if sub = ''chunk'' then chunkBytes decode t else Some []) \<and>
    getLineBytes decode (g @ SP # reqId @ SP # sub) = Some []" if g: "g = ''get''" for g
  proof -
    let ?l = "g @ SP # reqId @ SP # sub @ SP # t" and ?l' = "g @ SP # reqId @ SP # sub"
    have gs: "SP \<notin> set g" "starts_with ''get '' (g @ SP # x)" for x by (simp_all add: g)
    have d: "drop (length g + 1 + length reqId + 1) (g @ SP # reqId @ SP # x) = x" for x by simp
    have 1: "find_ch_from SP (length g + 1 + length reqId + 1) ?l = Some (length g + 1 + length reqId + 1 + length sub)"
      unfolding find_ch_from_def d using assms(2) by (simp add: find_ch_append)
    have 2: "substr (length g + 1 + length reqId + 1) (length sub) ?l = sub" unfolding substr_def d by simp
    have e: "length g + 1 + length reqId + 1 + length sub + 1 =
      (length sub + 1) + (length g + 1 + length reqId + 1)" by simp
    have 3: "drop (length g + 1 + length reqId + 1 + length sub + 1) ?l = t"
      unfolding e drop_drop [of "length sub + 1" "length g + 1 + length reqId + 1", symmetric] d by simp
    have 4: "find_ch_from SP (length g + 1 + length reqId + 1) ?l' = None"
      unfolding find_ch_from_def d using assms(2) by simp
    have "drop (Suc (Suc (Suc (length g + length reqId + length sub)))) ?l = t" using 3 by (simp only: add_Suc_right add_Suc add_0_right One_nat_def plus_nat.add_0 Nat.add_0_right)
    then have 5: "chunkBytes decode (drop (Suc (Suc (Suc (length g + length reqId + length sub)))) ?l) =
      chunkBytes decode t" by (rule arg_cong)
    have "getLineBytes decode ?l = (if sub = ''chunk'' then chunkBytes decode t else Some [])"
      using find_two [OF gs(1) assms(1), of "sub @ SP # t"] 1 2
      by (simp add: getLineBytes_def find_ch_append gs 5 del: drop_append drop_Suc_Cons cong del: if_weak_cong split del: if_split)
    moreover have "getLineBytes decode ?l' = Some []"
      using find_two [OF gs(1) assms(1), of sub] 4 by (simp add: getLineBytes_def find_ch_append gs)
    ultimately show ?thesis by blast
  qed
  from this [OF refl] show "getLineBytes decode (''get '' @ reqId @ SP # sub @ SP # t) =
      (if sub = ''chunk'' then chunkBytes decode t else Some [])"
    "getLineBytes decode (''get '' @ reqId @ SP # sub) = Some []" by simp_all
qed

section \<open>Lemmas: files in chunks\<close>

lemma chunksOf_concat: "0 < n \<Longrightarrow> concat (chunksOf n s) = s"
proof (induction n s rule: chunksOf.induct)
  case (1 n s)
  then show ?case by (subst chunksOf.simps) auto
qed

lemma chunksOf_nonempty: "c \<in> set (chunksOf n s) \<Longrightarrow> c \<noteq> []"
proof (induction n s rule: chunksOf.induct)
  case (1 n s)
  show ?case using 1(2)
    by (subst (asm) chunksOf.simps) (use 1(1) in \<open>auto split: if_splits\<close>)
qed

lemma sendChunks_ok: "(\<And>l. wr l) \<Longrightarrow> sendChunks wr ls = (ls, True)"
  by (induction ls) auto

lemma getLines_ok:
  assumes "io_ok (ce_io env)" "\<And>l. ce_write env l"
  shows "getLines env reqId f content =
    respLine (''get '' @ reqId @ '' begin '' @ f @ '' '' @ show_nat (length content) @ '' '' @
      hexEncode (ce_sha256 env content)) #
    map (\<lambda>c. respLine (''get '' @ reqId @ '' chunk '' @ ce_encode env c)) (chunksOf kRawChunk content) @
    [respLine (''get '' @ reqId @ '' end'')]"
proof -
  have "take (fe_fread (ce_io env) (length content)) content = content"
    using assms(1) by (auto simp: io_ok_def)
  then show ?thesis by (simp add: getLines_def sendChunks_ok assms(2) Let_def)
qed

section \<open>Interface: base64 of OpenSSL\<close>

text \<open>
  The documented behaviour of \<open>EVP_EncodeBlock\<close> and \<open>EVP_DecodeBlock\<close>: the encoding is over the
  base64 alphabet, and decoding it yields the data followed by one zero byte for every \<open>=\<close> of padding.
\<close>

definition b64Alphabet :: string where
  "b64Alphabet = ''ABCDEFGHIJKLMNOPQRSTUVWXYZabcdefghijklmnopqrstuvwxyz0123456789+/=''"

locale evp_base64 =
  fixes encode :: "string \<Rightarrow> string" and decode :: "string \<Rightarrow> string option"
  assumes decode_encode: "decode (encode s) = Some (s @ replicate (trailingPad (encode s)) CHR 0x00)"
    and alphabet: "set (encode s) \<subseteq> set b64Alphabet"
begin

lemma no_space: "SP \<notin> set (encode s)"
  using alphabet [of s] by (auto simp: b64Alphabet_def)

lemma chunkBytes_encode: "c \<noteq> [] \<Longrightarrow> chunkBytes decode (encode c) = Some c"
  by (simp add: chunkBytes_def decode_encode)

lemma chunk_line:
  "SP \<notin> set reqId \<Longrightarrow> c \<noteq> [] \<Longrightarrow> getLineBytes decode (''get '' @ reqId @ '' chunk '' @ encode c) = Some c"
  using getLineBytes_words(1) [of reqId "''chunk''" decode "encode c"] by (simp add: chunkBytes_encode)

lemma begin_line:
  "SP \<notin> set reqId \<Longrightarrow> getLineBytes decode (''get '' @ reqId @ '' begin '' @ r) = Some []"
  using getLineBytes_words(1) [of reqId "''begin''" decode r] by simp

lemma end_line: "SP \<notin> set reqId \<Longrightarrow> getLineBytes decode (''get '' @ reqId @ '' end'') = Some []"
  using getLineBytes_words(2) [of reqId "''end''" decode] by simp

lemma reassemble_append: "reassemble decode (xs @ ys) =
  (case reassemble decode xs of None \<Rightarrow> None | Some x \<Rightarrow> map_option (\<lambda>y. x @ y) (reassemble decode ys))"
proof (induction xs)
  case Nil
  show ?case by (cases "reassemble decode ys") simp_all
next
  case (Cons x xs)
  then show ?case
    by (cases "reassemble decode ys") (auto split: option.splits)
qed

lemma reassemble_chunks:
  assumes "SP \<notin> set reqId" "\<forall>c \<in> set cs. c \<noteq> []"
  shows "reassemble decode (map (\<lambda>c. ''get '' @ reqId @ '' chunk '' @ encode c) cs) = Some (concat cs)"
  using assms(2)
proof (induction cs)
  case (Cons c cs)
  then have "getLineBytes decode (''get '' @ reqId @ '' chunk '' @ encode c) = Some c"
    by (intro chunk_line assms(1)) simp
  with Cons show ?case by (simp del: append_Cons)
qed simp

lemma reassemble_file:
  assumes "SP \<notin> set reqId" "0 < n"
  shows "reassemble decode ((''get '' @ reqId @ '' begin '' @ r) #
    map (\<lambda>c. ''get '' @ reqId @ '' chunk '' @ encode c) (chunksOf n content) @ [''get '' @ reqId @ '' end'']) =
    Some content"
proof -
  have "reassemble decode (map (\<lambda>c. ''get '' @ reqId @ '' chunk '' @ encode c) (chunksOf n content)) = Some content"
    using reassemble_chunks [OF assms(1), of "chunksOf n content"] chunksOf_nonempty chunksOf_concat [OF assms(2)]
    by simp
  then show ?thesis
    by (simp add: begin_line [OF assms(1)] end_line [OF assms(1)] reassemble_append del: append_Cons
        add: append_Cons [where x = "''get '' @ reqId @ '' begin '' @ r"])
qed

end

text \<open>The two calls are those of standard base64, as theory \<open>Codecs\<close> defines it.\<close>

definition evpEncode :: "string \<Rightarrow> string" where
  "evpEncode s = base64 (str_bytes s)"

definition evpDecode :: "string \<Rightarrow> string option" where
  "evpDecode t = Some (bytes_str (base64Decode t) @ replicate (trailingPad t) CHR 0x00)"

lemma b64digit_alphabet: "b64digit v \<in> set b64Alphabet"
proof -
  let ?A = "''ABCDEFGHIJKLMNOPQRSTUVWXYZabcdefghijklmnopqrstuvwxyz0123456789+/''"
  have "unat (v AND 63) = unat v mod 64"
    by (simp add: b64_masks take_bit_eq_mask [symmetric] unsigned_take_bit_eq take_bit_eq_mod unat_mod)
  then have "unat (v AND 63) < length ?A" by simp
  from nth_mem [OF this] show ?thesis by (auto simp: b64digit_def b64Alphabet_def)
qed

lemma base64_alphabet: "set (base64 bs) \<subseteq> set b64Alphabet"
proof -
  have "CHR ''='' \<in> set b64Alphabet" by (simp add: b64Alphabet_def)
  then show ?thesis
    by (induction bs rule: base64.induct) (simp_all add: Let_def b64digit_alphabet)
qed

interpretation evp: evp_base64 evpEncode evpDecode
  using base64_alphabet
  by unfold_locales (simp_all add: evpEncode_def evpDecode_def base64Decode_def base64Loop_base64)

section \<open>Lemmas: from the client's disk to the response\<close>

text \<open>
  The connected client as the peer of a handler: it answers the C-line, and the session's thread
  routes the bodies of its L-lines to the channel.  The handler wakes as soon as its response is
  complete; what comes later it does not see.
\<close>

fun deliver :: "nat \<Rightarrow> string list \<Rightarrow> ClientCtrlChannel \<Rightarrow> ClientCtrlChannel" where
  "deliver a [] ch = ch"
| "deliver a (b # bs) ch = (if lcr_done (cc_store ch a) then ch else deliver a bs (routeLLine b ch))"

definition clientPeer :: "CtrlEnv \<Rightarrow> string \<Rightarrow> Logger \<Rightarrow> Peer" where
  "clientPeer env reqId s line ch =
     (case map_of (cc_pending ch) reqId of
        None \<Rightarrow> ch
      | Some a \<Rightarrow> deliver a (map (\<lambda>l. drop 2 (butlast l)) (fst (processCtrlLine env line s))) ch)"

lemma respLine_body [simp]: "drop 2 (butlast (respLine s)) = s"
  by (simp add: respLine_def kLogRespLinePrefix_def butlast_append)

lemma route_append:
  assumes "SP \<notin> set sub" "SP \<notin> set reqId" "sub \<noteq> ''ack''" "sub \<noteq> ''err''" "t = [] \<or> hd t = SP"
    "map_of (cc_pending ch) reqId = Some a"
  shows "routeLLine (sub @ SP # reqId @ t) ch =
    ch\<lparr> cc_store := (cc_store ch)(a := (cc_store ch a)
       \<lparr> lcr_lines := lcr_lines (cc_store ch a) @ [sub @ SP # reqId @ t],
         lcr_done := lcr_done (cc_store ch a) \<or> llineEnds (sub @ SP # reqId @ t) (length sub) sub \<rparr>) \<rparr>"
proof -
  have "\<not> starts_with ''ack set_loglevel '' (sub @ SP # reqId @ t)"
  proof
    assume "starts_with ''ack set_loglevel '' (sub @ SP # reqId @ t)"
    then obtain r where r: "sub @ SP # reqId @ t = ''ack'' @ SP # r" by (auto simp: starts_with_iff)
    have "takeWhile (\<lambda>c. c \<noteq> SP) (sub @ SP # reqId @ t) = sub" using assms(1) by (induction sub) auto
    moreover have "takeWhile (\<lambda>c. c \<noteq> SP) (''ack'' @ SP # r) = ''ack''" by simp
    ultimately show False using assms(3) r by (simp only:)
  qed
  then show ?thesis
    using routeLLine_reqId [OF assms(1,2) _ assms(5), of ch] assms(4,6) by (simp add: Let_def)
qed

lemma deliver_all:
  assumes "SP \<notin> set sub" "SP \<notin> set reqId" "sub \<noteq> ''ack''" "sub \<noteq> ''err''"
    "\<forall>t \<in> set (ts @ [t']). t \<noteq> [] \<and> hd t = SP"
    "\<forall>t \<in> set ts. \<not> llineEnds (sub @ SP # reqId @ t) (length sub) sub"
    "llineEnds (sub @ SP # reqId @ t') (length sub) sub"
    "map_of (cc_pending ch) reqId = Some a" "\<not> lcr_done (cc_store ch a)"
  shows "cc_store (deliver a (map (\<lambda>t. sub @ SP # reqId @ t) (ts @ [t'])) ch) a =
    (cc_store ch a)\<lparr> lcr_lines := lcr_lines (cc_store ch a) @ map (\<lambda>t. sub @ SP # reqId @ t) (ts @ [t']),
      lcr_done := True \<rparr>"
  using assms(5-9)
proof (induction ts arbitrary: ch)
  case Nil
  then show ?case using route_append [OF assms(1-4), of t' ch a] by simp
next
  case (Cons t ts)
  let ?b = "sub @ SP # reqId @ t"
  have r: "routeLLine ?b ch = ch\<lparr> cc_store := (cc_store ch)(a := (cc_store ch a)
       \<lparr> lcr_lines := lcr_lines (cc_store ch a) @ [?b], lcr_done := False \<rparr>) \<rparr>"
    using route_append [OF assms(1-4), of t ch a] Cons.prems by simp
  have "cc_store (deliver a (map (\<lambda>t. sub @ SP # reqId @ t) (ts @ [t'])) (routeLLine ?b ch)) a =
    (cc_store (routeLLine ?b ch) a)\<lparr> lcr_lines := lcr_lines (cc_store (routeLLine ?b ch) a) @
      map (\<lambda>t. sub @ SP # reqId @ t) (ts @ [t']), lcr_done := True \<rparr>"
    by (rule Cons.IH) (use Cons.prems r in simp_all)
  then show ?case using Cons.prems r by simp
qed

text \<open>The end marker in \<open>get\<close> lines.\<close>

lemma get_ends:
  assumes "SP \<notin> set reqId" "CHR ''n'' \<notin> set reqId"
  shows "llineEnds (''get'' @ SP # reqId @ '' end'') (length ''get'') ''get''"
    "SP \<notin> set b \<Longrightarrow> \<not> starts_with ''end'' b \<Longrightarrow>
      \<not> llineEnds (''get'' @ SP # reqId @ '' chunk '' @ b) (length ''get'') ''get''"
    "SP \<notin> set f \<Longrightarrow> SP \<notin> set n \<Longrightarrow> SP \<notin> set h \<Longrightarrow> \<not> starts_with ''end'' f \<Longrightarrow> \<not> starts_with ''end'' n \<Longrightarrow>
      \<not> starts_with ''end'' h \<Longrightarrow>
      \<not> llineEnds (''get'' @ SP # reqId @ '' begin '' @ f @ '' '' @ n @ '' '' @ h) (length ''get'') ''get''"
proof -
  note r = no_end_word [OF assms(2)]
  have d: "drop (length ''get'') (''get'' @ x) = x" for x :: string by simp
  have 1: "find_str '' end'' (SP # reqId @ SP # ''end'') \<noteq> None"
    using find_word(1) [of "''end''" reqId "''end''"] assms(1) r by simp
  have 2: "find_str '' end'' (SP # reqId @ SP # ''chunk'' @ SP # b) = None"
    if "SP \<notin> set b" "\<not> starts_with ''end'' b" for b
    using find_word(1) [of "''end''" reqId "''chunk'' @ SP # b"] find_word(1) [of "''end''" "''chunk''" b]
      find_word(2) [of "''end''" b] assms(1) r that by simp
  have 3: "find_str '' end'' (SP # reqId @ SP # ''begin'' @ SP # f @ SP # n @ SP # h) = None"
    if "SP \<notin> set f" "SP \<notin> set n" "SP \<notin> set h" "\<not> starts_with ''end'' f" "\<not> starts_with ''end'' n"
      "\<not> starts_with ''end'' h" for f n h
    using find_word(1) [of "''end''" reqId "''begin'' @ SP # f @ SP # n @ SP # h"]
      find_word(1) [of "''end''" "''begin''" "f @ SP # n @ SP # h"] find_word(1) [of "''end''" f "n @ SP # h"]
      find_word(1) [of "''end''" n h] find_word(2) [of "''end''" h] assms(1) r that by simp
  show "llineEnds (''get'' @ SP # reqId @ '' end'') (length ''get'') ''get''"
    using 1 by (simp add: llineEnds_def find_str_from_def)
  show "SP \<notin> set b \<Longrightarrow> \<not> starts_with ''end'' b \<Longrightarrow>
      \<not> llineEnds (''get'' @ SP # reqId @ '' chunk '' @ b) (length ''get'') ''get''"
    using 2 [of b] by (simp add: llineEnds_def find_str_from_def)
  show "SP \<notin> set f \<Longrightarrow> SP \<notin> set n \<Longrightarrow> SP \<notin> set h \<Longrightarrow> \<not> starts_with ''end'' f \<Longrightarrow> \<not> starts_with ''end'' n \<Longrightarrow>
      \<not> starts_with ''end'' h \<Longrightarrow>
      \<not> llineEnds (''get'' @ SP # reqId @ '' begin '' @ f @ '' '' @ n @ '' '' @ h) (length ''get'') ''get''"
    using 3 [of f n h] by (simp add: llineEnds_def find_str_from_def)
qed

lemma ctrl_log_get:
  assumes "io_ok (ce_io env)" "\<And>l. ce_write env l" "lg_active l" "reqId = generateReqId buf" "length buf = 8"
    "filenameAllowed f" "find_str ''..'' f = None" "map_of fs (fileOf (lg_logDir l) f) = Some content"
  shows "fst (processCtrlLine env (''C log_get '' @ reqId @ '' '' @ f) (l, fs)) =
    map respLine (map (\<lambda>t. ''get'' @ SP # reqId @ t)
      (('' begin '' @ f @ '' '' @ show_nat (length content) @ '' '' @ hexEncode (ce_sha256 env content)) #
       map (\<lambda>c. '' chunk '' @ ce_encode env c) (chunksOf kRawChunk content) @ ['' end'']))"
proof -
  have r: "SP \<notin> set reqId" "reqId \<noteq> []" "length reqId \<le> kCtrlReqIdMaxLen"
    using assms(5) hex_words by (auto simp: assms(4) generateReqId_def kCtrlReqIdMaxLen_def)
  note f = allowed_words [OF assms(6)]
  have "processCtrlLine env (''C '' @ ''log_get'' @ SP # reqId @ SP # f) (l, fs) =
    ctrlCommand env ''log_get'' reqId (Some f) (l, fs)"
    by (rule processCtrlLine_args) (use r in simp_all)
  also have "\<dots> = (getLines env reqId f content, (l, fs))"
    using f assms(1,3,7,8) by (simp add: ctrlCommand_def badFilename_def logGet_def io_ok_def)
  finally show ?thesis by (simp add: getLines_ok [OF assms(1,2)])
qed

text \<open>If the first chunk of a larger file looks like an end marker, the handler takes it for the end.\<close>

lemma log_download_truncates:
  assumes "evp_base64 encode decode" "ce_encode env = encode"
    and "io_ok (ce_io env)" "\<And>l. ce_write env l" "lg_active l"
    and "reqId = generateReqId buf" "length buf = 8" "filenameAllowed f"
    and "find_str ''..'' f = None" "\<not> starts_with ''end'' f"
    and "map_of fs (fileOf (lg_logDir l) f) = Some (c @ ys)" "length c = kRawChunk"
    and "starts_with ''end'' (encode c)" "map_of (cc_pending ch) reqId = Some a" "cc_store ch a = LogCmdResponse0"
  shows "\<exists>r. lcr_lines (cc_store (clientPeer env reqId (l, fs) (''C log_get '' @ reqId @ '' '' @ f) ch) a) =
      [''get '' @ reqId @ '' begin '' @ r, ''get '' @ reqId @ '' chunk '' @ encode c]"
proof -
  have r: "SP \<notin> set reqId" "CHR ''n'' \<notin> set reqId"
    using hex_words by (simp_all add: assms(6) generateReqId_def)
  let ?b = "\<lambda>t. ''get'' @ SP # reqId @ t"
  let ?f = "'' begin '' @ f @ '' '' @ show_nat (length (c @ ys)) @ '' '' @ hexEncode (ce_sha256 env (c @ ys))"
  let ?e = "'' chunk '' @ encode c"
  have chunks: "chunksOf kRawChunk (c @ ys) = c # chunksOf kRawChunk ys"
    using assms(12) by (subst chunksOf.simps) (auto simp: kRawChunk_def)
  have ends: "llineEnds (?b ?e) (length ''get'') ''get''"
  proof -
    obtain x where x: "encode c = ''end'' @ x" using assms(13) by (auto simp: starts_with_iff)
    have "drop (length ''get'') (?b ?e) = (SP # reqId @ '' chunk'') @ '' end'' @ x" by (simp add: x)
    then have "find_str_from '' end'' (length ''get'') (?b ?e) \<noteq> None"
      unfolding find_str_from_def
      using find_str_append_le [of "'' end''" "SP # reqId @ '' chunk''" x] by (simp only:) auto
    then show ?thesis by (simp add: llineEnds_def)
  qed
  have n0: "\<not> starts_with ''end'' (show_nat n)" "\<not> starts_with ''end'' (hexEncode h)" for n h
    by (rule no_end_word, rule show_nat_words, rule no_end_word, rule hex_words)
  have "\<not> llineEnds (?b ?f) (length ''get'') ''get''"
    by (rule get_ends(3) [OF r]) (use allowed_words [OF assms(8)] show_nat_words hex_words n0 assms(10) in simp_all)
  then have two: "cc_store (deliver a (map ?b [?f, ?e]) ch) a =
      (cc_store ch a)\<lparr> lcr_lines := map ?b [?f, ?e], lcr_done := True \<rparr>"
    using deliver_all [of "''get''" reqId "[?f]" ?e ch a] r ends assms(14,15)
    by (simp add: LogCmdResponse0_def)
  have "cc_store (deliver a (map ?b [?f, ?e] @ ys) ch) a = cc_store (deliver a (map ?b [?f, ?e]) ch) a" for ys
    using two by (cases ys) (auto simp: assms(14,15) LogCmdResponse0_def)
  then have "lcr_lines (cc_store (clientPeer env reqId (l, fs) (''C log_get '' @ reqId @ '' '' @ f) ch) a) = map ?b [?f, ?e]"
    unfolding clientPeer_def ctrl_log_get [OF assms(3-9,11)] assms(2,14) chunks
    using two by simp
  then show ?thesis by auto
qed

lemma exchange_result:
  "fst (exchange peer reqId cLine clientId ch w) =
    cc_store (peer cLine (snd (registerPending reqId ch))) (cc_next ch)"
  by (simp add: exchange_def registerPending_def Let_def)

lemma registered: "map_of (cc_pending (snd (registerPending reqId ch))) reqId = Some (cc_next ch)"
  "cc_store (snd (registerPending reqId ch)) (cc_next ch) = LogCmdResponse0"
  by (simp_all add: registerPending_def update_conv')

text \<open>The reply \<open>del reqId err\<close> completes the response without marking it as an error, so that the
  handler reports success for a file that the client does not have.\<close>

lemma log_delete_missing_ok:
  assumes "reqId = generateReqId buf" "length buf = 8" "lg_active l"
    "validateClientId params = Inr clientId" "pathFilename params = f" "filenameAllowed f" "find_str ''..'' f = None"
    "channelGet clientId (aw_channels w) = Some ch" "map_of fs (fileOf (lg_logDir l) f) = None"
  shows "fst (deleteLogFile (clientPeer env reqId (l, fs)) reqId params w) =
    (200, ''{\"ok\":true,\"file\":\"'' @ jsonEsc f @ ''\"}'' @ [LF])"
proof -
  have r: "SP \<notin> set reqId" "reqId \<noteq> []" "length reqId \<le> kCtrlReqIdMaxLen"
    using assms(2) hex_words by (auto simp: assms(1) generateReqId_def kCtrlReqIdMaxLen_def)
  note f = allowed_words [OF assms(6)]
  let ?line = "''C log_delete '' @ reqId @ '' '' @ f" and ?ch1 = "snd (registerPending reqId ch)"
  let ?resp = "cc_store (clientPeer env reqId (l, fs) ?line ?ch1) (cc_next ch)"
  obtain s1 where miss: "deleteFile (ce_io env) f (l, fs) = (False, s1)"
    using assms(9) by (cases "deleteFile (ce_io env) f (l, fs)") (auto simp: deleteFile_def has_key_def Let_def split: if_splits)
  have "processCtrlLine env (''C '' @ ''log_delete'' @ SP # reqId @ SP # f) (l, fs) =
    ctrlCommand env ''log_delete'' reqId (Some f) (l, fs)"
    by (rule processCtrlLine_args) (use r in simp_all)
  then have "fst (processCtrlLine env ?line (l, fs)) = [respLine (''del'' @ SP # reqId @ '' err '' @ f @ '' not-found'')]"
    using f assms(3,7) by (simp add: ctrlCommand_def badFilename_def miss)
  then have "?resp = (cc_store ?ch1 (cc_next ch))
      \<lparr> lcr_lines := [''del'' @ SP # reqId @ '' err '' @ f @ '' not-found''], lcr_done := True \<rparr>"
    unfolding clientPeer_def registered option.case
    using route_append [of "''del''" reqId "'' err '' @ f @ '' not-found''" ?ch1 "cc_next ch"] r registered
    by (simp add: LogCmdResponse0_def llineEnds_def)
  then have "lcr_done ?resp" "\<not> lcr_isError ?resp" by (simp_all add: registered LogCmdResponse0_def)
  moreover obtain w1 where "exchange (clientPeer env reqId (l, fs)) reqId ?line clientId ch w = (?resp, w1)"
    by (metis exchange_result prod.collapse)
  ultimately show ?thesis using assms(4-6,8) by (simp add: deleteLogFile_def Let_def)
qed

section \<open>Lemmas: confinement of control commands\<close>

text \<open>The lines that run an update cycle.\<close>

definition runsUpdate :: "CtrlEnv \<Rightarrow> string \<Rightarrow> string \<Rightarrow> bool" where
  "runsUpdate env reqId line \<longleftrightarrow> ce_auto_update env \<and>
     (\<exists>f. line = ''C update_now '' @ reqId @ SP # f \<and> \<not> badFilename f) \<and>
     SP \<notin> set reqId \<and> reqId \<noteq> [] \<and> length reqId \<le> kCtrlReqIdMaxLen"

lemma split_at: "i < length s \<Longrightarrow> s = take i s @ s ! i # drop (i + 1) s"
  by (simp add: id_take_nth_drop [symmetric])

text \<open>A command with a request id and further text is exactly what its line says.\<close>

lemma ctrl_line_split:
  assumes "\<not> (length line < 2 \<or> line ! 0 \<noteq> CHR ''C'' \<or> line ! 1 \<noteq> SP)" "find_ch SP (drop 2 line) = Some i"
    and "find_ch_from SP (i + 1) (drop 2 line) = Some j"
  shows "line = ''C '' @ take i (drop 2 line) @ SP # substr (i + 1) (j - i - 1) (drop 2 line) @ SP # drop (j + 1) (drop 2 line)"
    and "SP \<notin> set (substr (i + 1) (j - i - 1) (drop 2 line))"
proof -
  define b where "b = drop 2 line"
  obtain c d rest where "line = c # d # rest" using assms(1) by (cases line rule: remdups_adj.cases) auto
  then have l: "line = ''C '' @ b" using assms(1) by (simp add: b_def)
  have i: "i < length b" "b ! i = SP" using find_ch_Some [OF assms(2)] by (simp_all add: b_def)
  obtain k where k: "find_ch SP (drop (i + 1) b) = Some k" "j = i + 1 + k"
    using assms(3) by (auto simp: find_ch_from_def b_def split: if_splits option.splits)
  note K = find_ch_Some [OF k(1)]
  note K' = conjunct1 [OF K] conjunct1 [OF conjunct2 [OF K]]
  have "b = take i b @ SP # drop (i + 1) b" using split_at [OF i(1)] i(2) by simp
  moreover have "drop (i + 1) b = take k (drop (i + 1) b) @ SP # drop (k + 1) (drop (i + 1) b)"
    using split_at [OF K'(1)] unfolding K'(2) .
  moreover have "substr (i + 1) (j - i - 1) b = take k (drop (i + 1) b)" "drop (k + 1) (drop (i + 1) b) = drop (j + 1) b"
    by (simp_all add: k(2) substr_def add.commute)
  ultimately show "line = ''C '' @ take i (drop 2 line) @ SP # substr (i + 1) (j - i - 1) (drop 2 line) @ SP # drop (j + 1) (drop 2 line)"
    "SP \<notin> set (substr (i + 1) (j - i - 1) (drop 2 line))"
    using l K by (auto simp: b_def [symmetric])
qed

lemma processCtrlLine_cases:
  "(\<forall>s. processCtrlLine env line s = ([], s)) \<or> (\<exists>arg. \<forall>s. processCtrlLine env line s = setLogLevel env arg s) \<or>
   (\<exists>cmd reqId args. (\<forall>s. processCtrlLine env line s = ctrlCommand env cmd reqId args s) \<and>
      (\<forall>f. cmd = ''update_now'' \<and> args = Some f \<and> \<not> badFilename f \<and> ce_auto_update env \<longrightarrow> runsUpdate env reqId line))"
proof -
  consider "length line < 2 \<or> line ! 0 \<noteq> CHR ''C'' \<or> line ! 1 \<noteq> SP"
    | "\<not> (length line < 2 \<or> line ! 0 \<noteq> CHR ''C'' \<or> line ! 1 \<noteq> SP)" "starts_with ''set_loglevel '' (drop 2 line)"
    | "\<not> (length line < 2 \<or> line ! 0 \<noteq> CHR ''C'' \<or> line ! 1 \<noteq> SP)" "\<not> starts_with ''set_loglevel '' (drop 2 line)"
    by blast
  then show ?thesis
  proof cases
    case 1
    then show ?thesis by (auto simp: processCtrlLine_def)
  next
    case 2
    then have "\<forall>s. processCtrlLine env line s = setLogLevel env (drop 13 (drop 2 line)) s"
      by (simp only: processCtrlLine_def Let_def if_True if_False simp_thms)
    then show ?thesis by blast
  next
    case 3
    let ?b = "drop 2 line"
    show ?thesis
    proof (cases "find_ch SP ?b")
      case None
      with 3 show ?thesis by (simp only: processCtrlLine_def Let_def if_True if_False simp_thms option.case)
    next
      case (Some i)
      define r where "r = (case find_ch_from SP (i + 1) ?b of None \<Rightarrow> drop (i + 1) ?b | Some j \<Rightarrow> substr (i + 1) (j - i - 1) ?b)"
      define as where "as = map_option (\<lambda>j. drop (j + 1) ?b) (find_ch_from SP (i + 1) ?b)"
      have p: "processCtrlLine env line s = (if r = [] \<or> length r > kCtrlReqIdMaxLen then ([], s)
          else ctrlCommand env (take i ?b) r as s)" for s
        using 3 Some by (simp only: processCtrlLine_def Let_def if_True if_False simp_thms option.case r_def as_def)
      show ?thesis
      proof (cases "r = [] \<or> length r > kCtrlReqIdMaxLen")
        case False
        have "runsUpdate env r line" if "take i ?b = ''update_now''" "as = Some f" "\<not> badFilename f" "ce_auto_update env" for f
        proof -
          from that(2) obtain j where j: "find_ch_from SP (i + 1) ?b = Some j" "f = drop (j + 1) ?b" by (auto simp: as_def)
          have "r = substr (i + 1) (j - i - 1) ?b" by (simp only: r_def j(1) option.case)
          then show ?thesis
            using ctrl_line_split [OF 3(1) Some j(1)] that False j(2) by (auto simp: runsUpdate_def)
        qed
        then have "\<forall>f. take i ?b = ''update_now'' \<and> as = Some f \<and> \<not> badFilename f \<and> ce_auto_update env \<longrightarrow>
            runsUpdate env r line" by blast
        moreover have "\<forall>s. processCtrlLine env line s = ctrlCommand env (take i ?b) r as s" using p False by simp
        ultimately show ?thesis by blast
      qed (use p in simp)
    qed
  qed
qed

lemma runsUpdate_line: "runsUpdate env reqId line \<Longrightarrow> processCtrlLine env line s = updateNow env reqId s"
proof -
  assume r: "runsUpdate env reqId line"
  then obtain f where f: "line = ''C update_now '' @ reqId @ SP # f" "\<not> badFilename f" by (auto simp: runsUpdate_def)
  have "processCtrlLine env (''C '' @ ''update_now'' @ SP # reqId @ SP # f) s = ctrlCommand env ''update_now'' reqId (Some f) s"
    by (rule processCtrlLine_args) (use r in \<open>simp_all add: runsUpdate_def\<close>)
  then show ?thesis using f by (simp add: ctrlCommand_def)
qed

text \<open>What a process confined to the log directory would see of the file system.\<close>

definition dirView :: "string \<Rightarrow> Files \<Rightarrow> Files" where
  "dirView dir fs = filter (\<lambda>(p, _). entryName dir p \<noteq> None) fs"

lemma map_of_dirView: "map_of (dirView dir fs) p = (if entryName dir p \<noteq> None then map_of fs p else None)"
  by (simp add: dirView_def map_of_filter_key)

lemma map_of_dirView_file:
  "CHR ''/'' \<notin> set n \<Longrightarrow> n \<noteq> [] \<Longrightarrow> map_of (dirView dir fs) (fileOf dir n) = map_of fs (fileOf dir n)"
  by (simp add: map_of_dirView entryName_fileOf)

lemma dirEntries_dirView: "dirEntries io dir (dirView dir fs) = dirEntries io dir fs"
  by (induction fs) (auto simp: dirEntries_def dirView_def List.map_filter_def case_prod_unfold split: option.splits)

lemma dirEntries_names: "n \<in> set (dirEntries io dir fs) \<Longrightarrow> CHR ''/'' \<notin> set n \<and> n \<noteq> []"
  by (auto simp: dirEntries_def List.map_filter_def dest: entryName_Some split: if_splits)

lemma listFiles_dirView: "listFiles io (l, dirView (lg_logDir l) fs) = listFiles io (l, fs)"
proof -
  have "map (fileInfo io (lg_logDir l) (dirView (lg_logDir l) fs)) ns = map (fileInfo io (lg_logDir l) fs) ns"
    if "\<forall>n \<in> set ns. CHR ''/'' \<notin> set n \<and> n \<noteq> []" for ns
    using that by (auto simp: fileInfo_def fileSize_def at_or_def map_of_dirView_file)
  from this [of "filter isLogName (dirEntries io (lg_logDir l) fs)"]
  have "map (fileInfo io (lg_logDir l) (dirView (lg_logDir l) fs)) (filter isLogName (dirEntries io (lg_logDir l) fs)) =
      map (fileInfo io (lg_logDir l) fs) (filter isLogName (dirEntries io (lg_logDir l) fs))"
    using dirEntries_names [of _ io "lg_logDir l" fs] by (auto simp del: map_eq_conv)
  then show ?thesis by (simp only: listFiles_def dirEntries_dirView split_conv)
qed

lemma deleteFile_dirView:
  "fst (deleteFile io name (l, dirView (lg_logDir l) fs)) = fst (deleteFile io name (l, fs))"
proof (cases "name = []")
  case False
  then show ?thesis
    using map_of_dirView_file [of name "lg_logDir l" fs]
    by (simp add: deleteFile_def has_key_def Let_def)
qed (simp add: deleteFile_def logPrefix_def)

lemma removed_count: "length fs - length (removeNames io dir P fs) =
  (if fe_dir io then length (filter (\<lambda>(p, _). case entryName dir p of None \<Rightarrow> False | Some n \<Rightarrow> P n \<and> fe_remove io p) fs) else 0)"
  using sum_length_filter_compl [of "\<lambda>(p, _). case entryName dir p of None \<Rightarrow> False | Some n \<Rightarrow> P n \<and> fe_remove io p" fs]
  by (auto simp: removeNames_def erase_if_def case_prod_unfold)

lemma deleteAllFiles_dirView:
  "fst (deleteAllFiles io d (l, dirView (lg_logDir l) fs)) = fst (deleteAllFiles io d (l, fs))"
proof -
  let ?Q = "\<lambda>(p, _). case entryName (lg_logDir l) p of None \<Rightarrow> False | Some n \<Rightarrow> isLogName n \<and> fe_remove io p"
  have "filter ?Q (dirView (lg_logDir l) fs) = filter ?Q fs"
    by (induction fs) (auto simp: dirView_def split: option.splits)
  then have "length (dirView (lg_logDir l) fs) - length (removeNames io (lg_logDir l) isLogName (dirView (lg_logDir l) fs)) =
      length fs - length (removeNames io (lg_logDir l) isLogName fs)"
    by (simp only: removed_count)
  then show ?thesis by (simp add: deleteAllFiles_def Let_def split: prod.split)
qed

text \<open>A command that does not run an update cycle.\<close>

definition no_cycle :: "CtrlEnv \<Rightarrow> string \<Rightarrow> string option \<Rightarrow> bool" where
  "no_cycle env cmd args \<longleftrightarrow> \<not> (ce_auto_update env \<and> cmd = ''update_now'' \<and>
     (case args of None \<Rightarrow> False | Some f \<Rightarrow> \<not> badFilename f))"

lemma ctrlCommand_confined:
  assumes "path_ok (fst s)" "CHR ''/'' \<notin> set (ce_dateStr env)" "no_cycle env cmd args"
  shows "confined s (snd (ctrlCommand env cmd reqId args s))"
proof -
  have 1: "confined s (snd (deleteFile io f s))" for io f
    using deleteFile_confined [OF assms(1)] by (metis prod.collapse)
  have 2: "confined s (snd (deleteAllFiles io (ce_dateStr env) s))" for io
    using deleteAllFiles_confined [OF assms(1,2)] by (metis prod.collapse)
  have 3: "confined s (ntmLog env lv m s)" for lv m
    unfolding ntmLog_def by (rule writeLog_confined [OF assms(1,2)])
  have 4: "snd (case deleteFile io f x of (True, s1) \<Rightarrow> (a, s1) | (False, s1) \<Rightarrow> (b, s1)) = snd (deleteFile io f x)"
    for io f x and a b :: "string list" by (simp split: prod.split bool.split)
  have 5: "snd (case deleteAllFiles io d x of (n, s1) \<Rightarrow> (g n, s1)) = snd (deleteAllFiles io d x)"
    for io d x and g :: "nat \<Rightarrow> string list" by (simp split: prod.split)
  have 6: "\<not> ce_auto_update env \<Longrightarrow> confined s (snd (updateNow env reqId s))" using 3 by (simp add: updateNow_def)
  show ?thesis
    using 1 2 6 assms(3) confined_refl [OF assms(1)]
    by (cases "cmd = ''update_now''"; cases "ce_auto_update env")
      (simp_all add: ctrlCommand_def no_cycle_def Let_def 4 5 split: option.splits)
qed

lemma ctrlCommand_dirView:
  assumes "no_cycle env cmd args"
  shows "fst (ctrlCommand env cmd reqId args (l, dirView (lg_logDir l) fs)) = fst (ctrlCommand env cmd reqId args (l, fs))"
proof -
  have 1: "logList env reqId (l, dirView (lg_logDir l) fs) = logList env reqId (l, fs)"
    by (simp add: logList_def listFiles_dirView)
  have 2: "logGet env reqId f (l, dirView (lg_logDir l) fs) = logGet env reqId f (l, fs)" if "\<not> badFilename f" for f
    using that map_of_dirView_file [of f "lg_logDir l" fs] by (simp add: logGet_def badFilename_def Let_def)
  have 3: "fst (case deleteFile io f x of (True, s1) \<Rightarrow> (a, s1) | (False, s1) \<Rightarrow> (b, s1)) =
      (if fst (deleteFile io f x) then a else b)" for io f x a b
    by (simp split: prod.split bool.split)
  have 4: "fst (case deleteAllFiles io d x of (n, s1) \<Rightarrow> (g n, s1)) = g (fst (deleteAllFiles io d x))" for io d x g
    by (simp split: prod.split)
  have 5: "\<not> ce_auto_update env \<Longrightarrow> fst (updateNow env reqId s) = fst (updateNow env reqId s')" for s s'
    by (simp add: updateNow_def)
  show ?thesis
    using 1 2 assms 5 [of "(l, dirView (lg_logDir l) fs)" "(l, fs)"]
    by (cases "cmd = ''update_now''"; cases "ce_auto_update env")
      (simp_all add: ctrlCommand_def no_cycle_def Let_def 3 4 deleteFile_dirView deleteAllFiles_dirView split: option.splits)
qed

text \<open>A line that runs no update cycle is confined to the log directory, whatever the server sends and
  whichever file operations fail: a file that it changes or deletes lies directly in the log directory
  and has the logger's prefix, and the answer is the same as if the log directory were the whole file
  system.\<close>

lemma ctrl_line_no_update:
  assumes "path_ok (fst s)" "CHR ''/'' \<notin> set (ce_dateStr env)" "\<forall>r. \<not> runsUpdate env r line"
  shows "confined s (snd (processCtrlLine env line s))"
    and "fst (processCtrlLine env line (fst s, dirView (lg_logDir (fst s)) (snd s))) = fst (processCtrlLine env line s)"
proof -
  have n: "confined s (ntmLog env lv m (case s of (l, fs) \<Rightarrow> (l\<lparr> lg_level := v \<rparr>, fs)))" for lv m v
  proof -
    have "path_ok (fst (case s of (l, fs) \<Rightarrow> (l\<lparr> lg_level := v \<rparr>, fs)))"
      using assms(1) by (auto simp: path_ok_def split: prod.split)
    from writeLog_confined [OF this assms(2)] show ?thesis
      by (auto simp: ntmLog_def confined_def split: prod.splits)
  qed
  have c: "(\<forall>s. processCtrlLine env line s = ([], s)) \<or> (\<exists>arg. \<forall>s. processCtrlLine env line s = setLogLevel env arg s) \<or>
      (\<exists>cmd reqId args. (\<forall>s. processCtrlLine env line s = ctrlCommand env cmd reqId args s) \<and> no_cycle env cmd args)"
  proof -
    have "no_cycle env cmd args"
      if "\<forall>f. cmd = ''update_now'' \<and> args = Some f \<and> \<not> badFilename f \<and> ce_auto_update env \<longrightarrow> runsUpdate env reqId line"
      for cmd reqId args using that assms(3) by (auto simp: no_cycle_def split: option.split)
    then show ?thesis using processCtrlLine_cases [of env line] by metis
  qed
  show "confined s (snd (processCtrlLine env line s))"
    using c n confined_refl [OF assms(1)] ctrlCommand_confined [OF assms(1,2)]
    by (cases s) (auto simp: setLogLevel_def Let_def)
  show "fst (processCtrlLine env line (fst s, dirView (lg_logDir (fst s)) (snd s))) = fst (processCtrlLine env line s)"
    using c ctrlCommand_dirView [of env _ _ _ "fst s" "snd s"]
    by (cases s) (auto simp: setLogLevel_def Let_def)
qed

section \<open>Properties\<close>

text \<open>
  C16.  A log download returns the file: when an administrator asks for a log file that the connected
  client has, the client's L-lines, routed through the response channel and reassembled by the
  handler, yield exactly the bytes on the client's disk.  Two proofs of the protocol's weakness are
  in the hypotheses: the name, and the base64 text of every chunk, must not start with \<open>end\<close>, because
  the channel takes such a line for the end marker.
\<close>

theorem log_download_exact:
  assumes "evp_base64 encode decode" "ce_encode env = encode"
    and "io_ok (ce_io env)" "\<And>l. ce_write env l" "lg_active l"
    and "reqId = generateReqId buf" "length buf = 8"
    and "validateClientId params = Inr clientId" "pathFilename params = f" "filenameAllowed f"
    and "find_str ''..'' f = None" "\<not> starts_with ''end'' f"
    and "channelGet clientId (aw_channels w) = Some ch"
    and "map_of fs (fileOf (lg_logDir l) f) = Some content" "length content \<le> kMaxDownload"
    and "\<forall>c \<in> set (chunksOf kRawChunk content). \<not> starts_with ''end'' (encode c)"
  shows "fst (getLogFile decode (clientPeer env reqId (l, fs)) reqId params w) = (200, content)"
proof -
  have r: "SP \<notin> set reqId" "CHR ''n'' \<notin> set reqId"
    using hex_words by (simp_all add: assms(6) generateReqId_def)
  let ?line = "''C log_get '' @ reqId @ '' '' @ f" and ?ch1 = "snd (registerPending reqId ch)"
  let ?b = "\<lambda>t. ''get'' @ SP # reqId @ t"
  let ?hdr = "'' begin '' @ f @ '' '' @ show_nat (length content) @ '' '' @ hexEncode (ce_sha256 env content)"
  let ?cs = "map (\<lambda>c. '' chunk '' @ encode c) (chunksOf kRawChunk content)"
  let ?resp = "cc_store (clientPeer env reqId (l, fs) ?line ?ch1) (cc_next ch)"
  have n0: "\<not> starts_with ''end'' (show_nat (length content))" "\<not> starts_with ''end'' (hexEncode (ce_sha256 env content))"
    by (rule no_end_word, rule show_nat_words, rule no_end_word, rule hex_words)
  have "?resp = (cc_store ?ch1 (cc_next ch))
    \<lparr> lcr_lines := lcr_lines (cc_store ?ch1 (cc_next ch)) @ map ?b ((?hdr # ?cs) @ ['' end'']), lcr_done := True \<rparr>"
    unfolding clientPeer_def registered option.case ctrl_log_get [OF assms(3-7,10,11,14)] assms(2) map_map comp_def
      respLine_body map_append append_Cons [symmetric] list.map [symmetric]
    using deliver_all [of "''get''" reqId "?hdr # ?cs" "'' end''" ?ch1 "cc_next ch"] registered
      get_ends [OF r] n0 allowed_words [OF assms(10)] assms(12,16) evp_base64.no_space [OF assms(1)]
      show_nat_words hex_words r
    by (simp add: LogCmdResponse0_def)
  then have resp: "lcr_done ?resp" "\<not> lcr_isError ?resp" "lcr_lines ?resp = map ?b ((?hdr # ?cs) @ ['' end''])"
    using registered by (simp_all add: LogCmdResponse0_def)
  let ?rest = "f @ '' '' @ show_nat (length content) @ '' '' @ hexEncode (ce_sha256 env content)"
  have "map ?b ((?hdr # ?cs) @ ['' end'']) = (''get '' @ reqId @ '' begin '' @ ?rest) #
      map (\<lambda>c. ''get '' @ reqId @ '' chunk '' @ encode c) (chunksOf kRawChunk content) @ [''get '' @ reqId @ '' end'']"
    by simp
  then have "reassemble decode (lcr_lines ?resp) = Some content"
    unfolding resp(3) by (rule ssubst) (rule evp_base64.reassemble_file [OF assms(1) r(1)], simp add: kRawChunk_def)
  moreover obtain w1 where "exchange (clientPeer env reqId (l, fs)) reqId ?line clientId ch w = (?resp, w1)"
    by (metis exchange_result prod.collapse)
  ultimately show ?thesis
    using assms(8-10,13,15) resp(1,2) by (simp add: getLogFile_def Let_def)
qed

definition demo_ctrl :: CtrlEnv where
  "demo_ctrl = \<lparr> ce_io = demo_io, ce_timeStr = ''2026-01-02 10:00:00'', ce_dateStr = ''2026-01-02'',
     ce_cutoffDate = ''2025-12-30'', ce_encode = evpEncode, ce_sha256 = (\<lambda>_. [1]), ce_write = (\<lambda>_. True),
     ce_cycle = (\<lambda>s. ([], s)), ce_auto_update = True \<rparr>"

definition demo_admin :: AdminWorld where
  "demo_admin = \<lparr> aw_registry = \<lparr> ipToClientId = [], clientToExternalIp = [], clientHealth = [], protoRejections = [] \<rparr>,
     aw_channels = [(replicate 64 CHR ''a'', ClientCtrlChannel0)], aw_updates = [] \<rparr>"

definition demo_params :: "(string \<times> string) list" where
  "demo_params = [(''client_id'', replicate 64 CHR ''a''), (''filename'', ''ntm-client-2026-01-02.log'')]"

lemma demo_validate: "validateClientId demo_params = Inr (replicate 64 CHR ''a'')"
  by (simp add: validateClientId_def demo_params_def)

lemma demo_filename: "filenameAllowed ''ntm-client-2026-01-02.log''" "find_str ''..'' ''ntm-client-2026-01-02.log'' = None"
  by (simp_all add: filenameAllowed_def isalnum_def in_range_def is_digit_def code_of_def)

theorem log_download_exact_witness:
  "fst (getLogFile evpDecode (clientPeer demo_ctrl (generateReqId [1, 2, 3, 4, 5, 6, 7, 8]) demo_logger)
     (generateReqId [1, 2, 3, 4, 5, 6, 7, 8]) demo_params demo_admin) = (200, ''old'')"
proof -
  let ?l = "fst demo_logger" and ?fs = "snd demo_logger"
  have "map_of ?fs (fileOf (lg_logDir ?l) ''ntm-client-2026-01-02.log'') = Some ''old''" "lg_active ?l"
    by (simp_all add: demo_logger_def fileOf_def)
  moreover have "\<not> starts_with ''end'' (evpEncode ''old'')" by code_simp
  then have "\<forall>c \<in> set (chunksOf kRawChunk ''old''). \<not> starts_with ''end'' (evpEncode c)"
    by (simp add: chunksOf.simps kRawChunk_def)
  moreover have "channelGet (replicate 64 CHR ''a'') (aw_channels demo_admin) = Some ClientCtrlChannel0"
    "pathFilename demo_params = ''ntm-client-2026-01-02.log''"
    by (simp_all add: channelGet_def demo_admin_def pathFilename_def demo_params_def)
  moreover have "length ''old'' \<le> kMaxDownload" by (simp add: kMaxDownload_def)
  ultimately show ?thesis
    using log_download_exact [OF evp.evp_base64_axioms, of demo_ctrl ?l _ "[1, 2, 3, 4, 5, 6, 7, 8]" demo_params
        "replicate 64 CHR ''a''" "''ntm-client-2026-01-02.log''" demo_admin ClientCtrlChannel0 ?fs "''old''"]
      demo_logger_ok(1) demo_validate demo_filename
    by (simp add: demo_ctrl_def)
qed

text \<open>
  The pushed update never happens (a defect): the client drops the line \<open>C update_now reqId\<close>
  that the server sends, because \<open>processCtrlLine\<close> demands a file name of every command that it has
  not handled by then.  It answers nothing and changes nothing, so that an accepted request stays in
  the stage \<open>sent\<close> until the watchdog reports a timeout.
\<close>

lemma update_push_ignored:
  assumes "reqId = generateReqId buf" "length buf = 8"
    and "channelGet clientId (aw_channels w) = Some ch" "validateClientId params = Inr clientId"
    and "hexToRaw32 clientId \<noteq> []" "hexToRaw32 clientId \<in> allowed"
    and "map_of (cc_pending ch) reqId = None" "keys_ok (aw_updates w)"
    and "postUpdate (clientPeer env reqId s) reqId allowed now params w = (r, w')" "now + 600 \<le> later"
  shows "processCtrlLine env (''C update_now '' @ reqId) s = ([], s) \<and> fst r = 200 \<and>
    map_option us_stage (updateGet clientId (aw_updates w')) = Some ''sent'' \<and>
    (\<exists>st. updateGet clientId (updateWatchdog clientId reqId later (aw_updates w')) = Some st \<and>
       us_stage st = ''timeout'' \<and> us_terminal st)"
proof -
  have q: "SP \<notin> set reqId" "reqId \<noteq> []" "length reqId \<le> kCtrlReqIdMaxLen"
    using assms(2) hex_words by (auto simp: assms(1) generateReqId_def kCtrlReqIdMaxLen_def)
  have "processCtrlLine env (''C '' @ ''update_now'' @ SP # reqId) s = ctrlCommand env ''update_now'' reqId None s"
    by (rule processCtrlLine_noargs) (use q in simp_all)
  then have "processCtrlLine env (''C update_now '' @ reqId) s = ([], s)" by (simp add: ctrlCommand_def)
  moreover have "fst r = 200" and u: "updateGet clientId (aw_updates w') = Some
      \<lparr> us_req_id = reqId, us_stage = ''sent'', us_error = [], us_new_version = [],
        us_started_at = now, us_updated_at = now, us_terminal = False \<rparr>"
    using assms(3-6,8,9)
    by (auto simp: postUpdate_def Let_def updateGet_def updateSet_def purgeExpired_def map_of_erase_if update_conv')
  moreover have "updateGet clientId (updateWatchdog clientId reqId later (aw_updates w')) =
      Some \<lparr> us_req_id = reqId, us_stage = ''timeout'', us_error = ''watchdog'', us_new_version = [],
        us_started_at = now, us_updated_at = later, us_terminal = True \<rparr>"
    using u q(2) by (simp add: updateWatchdog_def updateGet_def applyUpdLine_def update_conv')
  ultimately show ?thesis by simp
qed

lemma update_push_ignored_witness:
  "processCtrlLine demo_ctrl (''C update_now '' @ generateReqId [1, 2, 3, 4, 5, 6, 7, 8]) demo_logger = ([], demo_logger)"
proof -
  let ?id = "replicate 64 CHR ''a''" and ?r = "generateReqId [1, 2, 3, 4, 5, 6, 7, 8]"
  have h: "hexToRaw32 ?id = replicate 32 0xAA" by code_simp
  have "hexToRaw32 ?id \<noteq> []" "hexToRaw32 ?id \<in> {replicate 32 0xAA}" by (simp_all only: h) simp_all
  moreover have "channelGet ?id (aw_channels demo_admin) = Some ClientCtrlChannel0" "keys_ok (aw_updates demo_admin)"
    "map_of (cc_pending ClientCtrlChannel0) ?r = None"
    by (simp_all add: channelGet_def demo_admin_def ClientCtrlChannel0_def)
  ultimately show ?thesis
    using update_push_ignored [OF refl, of "[1, 2, 3, 4, 5, 6, 7, 8]" ?id demo_admin ClientCtrlChannel0 demo_params
        "{replicate 32 0xAA}" demo_ctrl demo_logger 0 _ _ 600, OF _ _ demo_validate _ _ _ _ prod.collapse [symmetric]]
    by simp
qed

end
