(* ===== verification/Traffic.thy ===== *)
theory Traffic
  imports Wire "HOL-Library.Signed_Division"
begin

text \<open>
  \<open>TrafficStats\<close> of \<open>ntm_types.hpp\<close>: the server's aggregation store.  Sixteen shards, chosen
  by a hash of the client id, each hold a deque of day buckets (totals, address flows, country
  flows, entity flows, keyed by client and interface), the per-client interface sets with the
  rejection counters, and the per-client history rings.

  \<open>std::hash\<close>, \<open>isLanIP\<close> (which rests on \<open>inet_pton\<close>, theory \<open>Lan\<close>) and the clock are
  arguments of the operations.  Each operation holds the mutex of the one shard it works on, so
  that a run of the store is a sequence of these operations.
\<close>

section \<open>Data\<close>

record Counter =
  packets :: u64
  octets :: u64

record FlowStats =
  fs_packets :: u64
  fs_octets :: u64
  firstSeenSec :: int
  lastSeenSec :: int

record FlowKey =
  fk_src :: string
  fk_dst :: string

type_synonym InterfaceTotals = "(string \<times> Counter) list"
type_synonym FlowMap = "(FlowKey \<times> FlowStats) list"
type_synonym InterfaceFlows = "(string \<times> FlowMap) list"
type_synonym CounterMap = "(FlowKey \<times> Counter) list"
type_synonym InterfaceCounterFlows = "(string \<times> CounterMap) list"

record DayBucket =
  db_dayIndex :: int
  db_totals :: InterfaceTotals
  db_flows :: InterfaceFlows
  db_countryFlows :: InterfaceCounterFlows
  db_entityFlows :: InterfaceCounterFlows

text \<open>\<open>ClientMinuteBucket\<close> and \<open>ClientHourBucket\<close> differ in the name of the epoch field only.\<close>

record RingSlot =
  slot_epoch :: u64
  inOctets :: u64
  outOctets :: u64
  inPackets :: u64
  outPackets :: u64

record ClientHistoryRing =
  ring_minutes :: "nat \<Rightarrow> RingSlot"
  ring_hours :: "nat \<Rightarrow> RingSlot"

definition kMinuteSlots :: nat where "kMinuteSlots = 1440"
definition kHourSlots :: nat where "kHourSlots = 168"

record HistoryBucket =
  hb_t :: u64
  hb_inOctets :: u64
  hb_outOctets :: u64
  hb_inPackets :: u64
  hb_outPackets :: u64

record ClientHistorySnapshot =
  hist_clientId :: string
  hist_bucketSeconds :: nat
  hist_windowDays :: nat
  hist_buckets :: "HistoryBucket list"

record TrafficStatsShard =
  dayBuckets :: "DayBucket list"
  clientIfaces :: "(string \<times> string list) list"
  ifaceRejectCount :: "(string \<times> u64) list"
  clientHistory :: "(string \<times> ClientHistoryRing) list"

record TrafficStats =
  windowDays :: nat
  maxFlowEntriesPerKey :: nat
  maxEntityFlowEntriesPerKey :: nat
  maxIfacesPerClient :: nat
  shards :: "nat \<Rightarrow> TrafficStatsShard"

datatype AddResult = Accepted | IfaceCapExceeded

text \<open>The overflow branch of \<open>addPacket\<close> erases the entries that its own references point to
  and then goes on writing through them.\<close>

datatype TrafficError = UseAfterFree

definition kShardCount :: nat where "kShardCount = 16"
definition kAggregationWindowDaysDefault :: nat where "kAggregationWindowDaysDefault = 7"

definition Counter0 :: Counter where
  "Counter0 = \<lparr> packets = 0, octets = 0 \<rparr>"

definition FlowStats0 :: FlowStats where
  "FlowStats0 = \<lparr> fs_packets = 0, fs_octets = 0, firstSeenSec = -1, lastSeenSec = -1 \<rparr>"

definition RingSlot0 :: "u64 \<Rightarrow> RingSlot" where
  "RingSlot0 e = \<lparr> slot_epoch = e, inOctets = 0, outOctets = 0, inPackets = 0, outPackets = 0 \<rparr>"

definition Ring0 :: ClientHistoryRing where
  "Ring0 = \<lparr> ring_minutes = (\<lambda>_. RingSlot0 0), ring_hours = (\<lambda>_. RingSlot0 0) \<rparr>"

definition DayBucket0 :: "int \<Rightarrow> DayBucket" where
  "DayBucket0 d = \<lparr> db_dayIndex = d, db_totals = [], db_flows = [], db_countryFlows = [],
     db_entityFlows = [] \<rparr>"

definition Shard0 :: TrafficStatsShard where
  "Shard0 = \<lparr> dayBuckets = [], clientIfaces = [], ifaceRejectCount = [], clientHistory = [] \<rparr>"

definition TrafficStats_new :: "nat \<Rightarrow> nat \<Rightarrow> nat \<Rightarrow> nat \<Rightarrow> TrafficStats" where
  "TrafficStats_new wd mf me mi =
     \<lparr> windowDays = (if wd > 0 then wd else kAggregationWindowDaysDefault),
       maxFlowEntriesPerKey = (if mf > 0 then mf else 1),
       maxEntityFlowEntriesPerKey = (if me > 0 then me else 1),
       maxIfacesPerClient = (if mi > 0 then mi else 1),
       shards = (\<lambda>_. Shard0) \<rparr>"

section \<open>Operations\<close>

definition wouldOverflow :: "u64 \<Rightarrow> u64 \<Rightarrow> u64 \<Rightarrow> u64 \<Rightarrow> bool" where
  "wouldOverflow p addP b addB \<longleftrightarrow>
     (addP > 0 \<and> p > (-1) - addP) \<or> (addB > 0 \<and> b > (-1) - addB)"

definition shardIndex :: "(string \<Rightarrow> u64) \<Rightarrow> string \<Rightarrow> nat" where
  "shardIndex hash clientId = unat (hash clientId AND 15)"

definition dayIndexOf :: "int \<Rightarrow> int" where
  "dayIndexOf epochSec =
     (if epochSec \<ge> 0 then epochSec sdiv 86400 else (epochSec - 86399) sdiv 86400)"

definition ciKey :: "string \<Rightarrow> string \<Rightarrow> string" where
  "ciKey clientId iface = clientId @ ''|'' @ iface"

text \<open>\<open>std::min_element\<close> by byte count: the first smallest entry.\<close>

fun min_entry :: "('v \<Rightarrow> u64) \<Rightarrow> ('k \<times> 'v) list \<Rightarrow> ('k \<times> 'v) option" where
  "min_entry g [] = None"
| "min_entry g (e # m) =
     (case min_entry g m of None \<Rightarrow> Some e
      | Some e' \<Rightarrow> if g (snd e') < g (snd e) then Some e' else Some e)"

definition evict :: "nat \<Rightarrow> ('v \<Rightarrow> u64) \<Rightarrow> 'k \<Rightarrow> ('k \<times> 'v) list \<Rightarrow> ('k \<times> 'v) list" where
  "evict cap g key m =
     (if cap \<le> length m \<and> \<not> has_key key m
      then (case min_entry g m of None \<Rightarrow> m | Some (k, _) \<Rightarrow> erase k m) else m)"

definition bump :: "u64 \<Rightarrow> Counter \<Rightarrow> Counter" where
  "bump len c = \<lparr> packets = packets c + 1, octets = octets c + len \<rparr>"

definition bumpFlow :: "int \<Rightarrow> u64 \<Rightarrow> FlowStats \<Rightarrow> FlowStats" where
  "bumpFlow epochSec len f =
     \<lparr> fs_packets = fs_packets f + 1, fs_octets = fs_octets f + len,
       firstSeenSec = (if firstSeenSec f < 0 then epochSec else firstSeenSec f),
       lastSeenSec = epochSec \<rparr>"

text \<open>The part of \<open>addPacket\<close> that works on the current day bucket.\<close>

definition addToBucket :: "nat \<Rightarrow> nat \<Rightarrow> int \<Rightarrow> string \<Rightarrow> FlowKey \<Rightarrow> FlowKey \<Rightarrow> FlowKey \<Rightarrow> u64 \<Rightarrow>
    DayBucket \<Rightarrow> TrafficError + DayBucket" where
  "addToBucket maxFlow maxEntity epochSec ck flowKey countryKey entityKey len b =
     (let total = at_or Counter0 ck (db_totals b);
          flowMap = evict maxFlow fs_octets flowKey (at_or [] ck (db_flows b));
          entityFlowMap = evict maxEntity octets entityKey (at_or [] ck (db_entityFlows b));
          flowCounter = at_or FlowStats0 flowKey flowMap;
          countryCounter = at_or Counter0 countryKey (at_or [] ck (db_countryFlows b));
          entityCounter = at_or Counter0 entityKey entityFlowMap
      in if wouldOverflow (packets total) 1 (octets total) len \<or>
            wouldOverflow (fs_packets flowCounter) 1 (fs_octets flowCounter) len \<or>
            wouldOverflow (packets countryCounter) 1 (octets countryCounter) len \<or>
            wouldOverflow (packets entityCounter) 1 (octets entityCounter) len
         then Inl UseAfterFree
         else Inr (b\<lparr>
           db_totals := upd_at Counter0 ck (bump len) (db_totals b),
           db_flows := upd_at [] ck (\<lambda>m. upd_at FlowStats0 flowKey (bumpFlow epochSec len)
                                          (evict maxFlow fs_octets flowKey m)) (db_flows b),
           db_countryFlows := upd_at [] ck (upd_at Counter0 countryKey (bump len)) (db_countryFlows b),
           db_entityFlows := upd_at [] ck (\<lambda>m. upd_at Counter0 entityKey (bump len)
                                          (evict maxEntity octets entityKey m)) (db_entityFlows b) \<rparr>))"

definition slotAdd :: "bool \<Rightarrow> u64 \<Rightarrow> u64 \<Rightarrow> RingSlot \<Rightarrow> RingSlot" where
  "slotAdd isIn epoch len s0 =
     (let s = (if slot_epoch s0 \<noteq> epoch then RingSlot0 epoch else s0) in
      if isIn then s\<lparr> inOctets := inOctets s + len, inPackets := inPackets s + 1 \<rparr>
      else s\<lparr> outOctets := outOctets s + len, outPackets := outPackets s + 1 \<rparr>)"

definition epochUnit :: "nat \<Rightarrow> int \<Rightarrow> u64" where
  "epochUnit u epochSec = (if epochSec > 0 then of_int epochSec div of_nat u else 0)"

definition ringAdd :: "bool \<Rightarrow> int \<Rightarrow> u64 \<Rightarrow> ClientHistoryRing \<Rightarrow> ClientHistoryRing" where
  "ringAdd isIn epochSec len r =
     (let em = epochUnit 60 epochSec; eh = epochUnit 3600 epochSec;
          mi = unat em mod kMinuteSlots; hi = unat eh mod kHourSlots
      in r\<lparr> ring_minutes := (ring_minutes r)(mi := slotAdd isIn em len (ring_minutes r mi)),
            ring_hours := (ring_hours r)(hi := slotAdd isIn eh len (ring_hours r hi)) \<rparr>)"

text \<open>Open a bucket for today if the newest one is not today's, and split it off.\<close>

definition openBucket :: "int \<Rightarrow> DayBucket list \<Rightarrow> DayBucket list \<times> DayBucket" where
  "openBucket d bs =
     (if bs = [] \<or> db_dayIndex (last bs) \<noteq> d then (bs, DayBucket0 d) else (butlast bs, last bs))"

text \<open>\<open>while (dayBuckets.size() > windowDays_) dayBuckets.pop_front();\<close>\<close>

definition trimWindow :: "nat \<Rightarrow> DayBucket list \<Rightarrow> DayBucket list" where
  "trimWindow wd bs = drop (length bs - wd) bs"

record PacketInfo =
  pi_clientId :: string
  pi_iface :: string
  pi_src :: string
  pi_dst :: string
  pi_srcCountry :: string
  pi_dstCountry :: string
  pi_srcEntity :: string
  pi_dstEntity :: string
  pi_length :: u32

definition addPacketShard :: "TrafficStats \<Rightarrow> (string \<Rightarrow> bool) \<Rightarrow> int \<Rightarrow> PacketInfo \<Rightarrow>
    TrafficStatsShard \<Rightarrow> TrafficError + AddResult \<times> TrafficStatsShard" where
  "addPacketShard cfg isLanIP epochSec p shard =
     (let c = pi_clientId p;
          len = (ucast (pi_length p) :: u64);
          ifaceSet = at_or [] c (clientIfaces shard);
          isNewIface = (pi_iface p \<notin> set ifaceSet)
      in if isNewIface \<and> length ifaceSet \<ge> maxIfacesPerClient cfg
         then Inr (IfaceCapExceeded,
                shard\<lparr> clientIfaces := upd_at [] c id (clientIfaces shard),
                       ifaceRejectCount := upd_at 0 c (\<lambda>n. n + 1) (ifaceRejectCount shard) \<rparr>)
         else
           (let (older, today) = openBucket (dayIndexOf epochSec) (dayBuckets shard) in
            case addToBucket (maxFlowEntriesPerKey cfg) (maxEntityFlowEntriesPerKey cfg) epochSec
                   (ciKey c (pi_iface p)) \<lparr> fk_src = pi_src p, fk_dst = pi_dst p \<rparr>
                   \<lparr> fk_src = pi_srcCountry p, fk_dst = pi_dstCountry p \<rparr>
                   \<lparr> fk_src = pi_srcEntity p, fk_dst = pi_dstEntity p \<rparr> len today of
              Inl e \<Rightarrow> Inl e
            | Inr today' \<Rightarrow>
                Inr (Accepted,
                  shard\<lparr> clientIfaces :=
                           upd_at [] c (\<lambda>s. if isNewIface then pi_iface p # s else s) (clientIfaces shard),
                         dayBuckets := trimWindow (windowDays cfg) (older @ [today']),
                         clientHistory :=
                           upd_at Ring0 c (ringAdd (isLanIP (pi_dst p) \<and> \<not> isLanIP (pi_src p)) epochSec len)
                             (clientHistory shard) \<rparr>)))"

definition addPacket :: "(string \<Rightarrow> u64) \<Rightarrow> (string \<Rightarrow> bool) \<Rightarrow> int \<Rightarrow> PacketInfo \<Rightarrow> TrafficStats \<Rightarrow>
    TrafficError + AddResult \<times> TrafficStats" where
  "addPacket hash isLanIP epochSec p st =
     (let si = shardIndex hash (pi_clientId p) in
      case addPacketShard st isLanIP epochSec p (shards st si) of
        Inl e \<Rightarrow> Inl e
      | Inr (r, sh) \<Rightarrow> Inr (r, st\<lparr> shards := (shards st)(si := sh) \<rparr>))"

definition getIfaceRejectCount :: "(string \<Rightarrow> u64) \<Rightarrow> string \<Rightarrow> TrafficStats \<Rightarrow> u64" where
  "getIfaceRejectCount hash c st = at_or 0 c (ifaceRejectCount (shards st (shardIndex hash c)))"

definition ownKey :: "string \<Rightarrow> string \<Rightarrow> bool" where
  "ownKey clientId key \<longleftrightarrow> starts_with (clientId @ ''|'') key"

definition purgeBucket :: "string \<Rightarrow> DayBucket \<Rightarrow> DayBucket" where
  "purgeBucket c b = b\<lparr>
     db_totals := erase_if (\<lambda>k _. ownKey c k) (db_totals b),
     db_flows := erase_if (\<lambda>k _. ownKey c k) (db_flows b),
     db_countryFlows := erase_if (\<lambda>k _. ownKey c k) (db_countryFlows b),
     db_entityFlows := erase_if (\<lambda>k _. ownKey c k) (db_entityFlows b) \<rparr>"

definition resetClientInShard :: "string \<Rightarrow> TrafficStatsShard \<Rightarrow> TrafficStatsShard" where
  "resetClientInShard c sh = sh\<lparr>
     dayBuckets := map (purgeBucket c) (dayBuckets sh),
     clientIfaces := erase c (clientIfaces sh),
     ifaceRejectCount := erase c (ifaceRejectCount sh),
     clientHistory := erase c (clientHistory sh) \<rparr>"

definition purgeClient :: "(string \<Rightarrow> u64) \<Rightarrow> string \<Rightarrow> TrafficStats \<Rightarrow> bool \<times> TrafficStats" where
  "purgeClient hash c st =
     (let si = shardIndex hash c; sh = shards st si;
          found = list_ex (\<lambda>b. list_ex (\<lambda>(k, _). ownKey c k) (db_totals b)) (dayBuckets sh)
      in (found, st\<lparr> shards := (shards st)(si := resetClientInShard c sh) \<rparr>))"

text \<open>\<open>snapshot\<close>: merge every bucket of every shard, in shard order.  \<open>None\<close> as window start
  stands for the \<open>INT64_MAX\<close> marker of an empty store.\<close>

definition addCounter :: "Counter \<Rightarrow> Counter \<Rightarrow> Counter" where
  "addCounter c d = \<lparr> packets = packets c + packets d, octets = octets c + octets d \<rparr>"

definition mergeFlow :: "FlowStats \<Rightarrow> FlowStats \<Rightarrow> FlowStats" where
  "mergeFlow c f =
     \<lparr> fs_packets = fs_packets c + fs_packets f, fs_octets = fs_octets c + fs_octets f,
       firstSeenSec =
         (if firstSeenSec f \<ge> 0 \<and> (firstSeenSec c < 0 \<or> firstSeenSec f < firstSeenSec c)
          then firstSeenSec f else firstSeenSec c),
       lastSeenSec =
         (if lastSeenSec f \<ge> 0 \<and> (lastSeenSec c < 0 \<or> lastSeenSec f > lastSeenSec c)
          then lastSeenSec f else lastSeenSec c) \<rparr>"

definition merge_map :: "'v \<Rightarrow> ('v \<Rightarrow> 'v \<Rightarrow> 'v) \<Rightarrow> ('k \<times> 'v) list \<Rightarrow> ('k \<times> 'v) list \<Rightarrow> ('k \<times> 'v) list" where
  "merge_map z f acc m = foldl (\<lambda>a (k, v). upd_at z k (\<lambda>c. f c v) a) acc m"

definition merge_map2 :: "'v \<Rightarrow> ('v \<Rightarrow> 'v \<Rightarrow> 'v) \<Rightarrow> ('i \<times> ('k \<times> 'v) list) list \<Rightarrow>
    ('i \<times> ('k \<times> 'v) list) list \<Rightarrow> ('i \<times> ('k \<times> 'v) list) list" where
  "merge_map2 z f acc m =
     foldl (\<lambda>a (i, fm). foldl (\<lambda>a' (k, v). upd_at [] i (upd_at z k (\<lambda>c. f c v)) a') a fm) acc m"

record Snapshot =
  sn_totals :: InterfaceTotals
  sn_flows :: InterfaceFlows
  sn_countryFlows :: InterfaceCounterFlows
  sn_entityFlows :: InterfaceCounterFlows
  sn_minDay :: "int option"

definition snapBucket :: "Snapshot \<Rightarrow> DayBucket \<Rightarrow> Snapshot" where
  "snapBucket s b = s\<lparr>
     sn_totals := merge_map Counter0 addCounter (sn_totals s) (db_totals b),
     sn_flows := merge_map2 FlowStats0 mergeFlow (sn_flows s) (db_flows b),
     sn_countryFlows := merge_map2 Counter0 addCounter (sn_countryFlows s) (db_countryFlows b),
     sn_entityFlows := merge_map2 Counter0 addCounter (sn_entityFlows s) (db_entityFlows b) \<rparr>"

definition minDayOf :: "int option \<Rightarrow> TrafficStatsShard \<Rightarrow> int option" where
  "minDayOf m sh =
     (if dayBuckets sh = [] then m
      else let d = db_dayIndex (hd (dayBuckets sh)) in
           Some (case m of None \<Rightarrow> d | Some x \<Rightarrow> min x d))"

definition snapShard :: "Snapshot \<Rightarrow> TrafficStatsShard \<Rightarrow> Snapshot" where
  "snapShard s sh =
     (foldl snapBucket s (dayBuckets sh))\<lparr> sn_minDay := minDayOf (sn_minDay s) sh \<rparr>"

definition snapshot :: "TrafficStats \<Rightarrow> Snapshot" where
  "snapshot st =
     foldl snapShard \<lparr> sn_totals = [], sn_flows = [], sn_countryFlows = [], sn_entityFlows = [],
                       sn_minDay = None \<rparr> (map (shards st) [0..<kShardCount])"

definition windowStartSec :: "int \<Rightarrow> int option \<Rightarrow> int" where
  "windowStartSec nowSec m = (case m of None \<Rightarrow> nowSec | Some d \<Rightarrow> d * 86400)"

definition getAggregationWindowStart :: "int \<Rightarrow> TrafficStats \<Rightarrow> int" where
  "getAggregationWindowStart nowSec st =
     windowStartSec nowSec (foldl minDayOf None (map (shards st) [0..<kShardCount]))"

definition slotBucket :: "u64 \<Rightarrow> u64 \<Rightarrow> RingSlot \<Rightarrow> HistoryBucket" where
  "slotBucket secs e s = \<lparr> hb_t = e * secs, hb_inOctets = inOctets s, hb_outOctets = outOctets s,
     hb_inPackets = inPackets s, hb_outPackets = outPackets s \<rparr>"

definition minuteBuckets :: "nat \<Rightarrow> u64 \<Rightarrow> ClientHistoryRing \<Rightarrow> HistoryBucket list" where
  "minuteBuckets n nowMin r =
     concat (map (\<lambda>i. let em = nowMin - of_nat (n - 1 - i);
                          s = ring_minutes r (unat em mod kMinuteSlots)
                      in if slot_epoch s \<noteq> em then [] else [slotBucket 60 em s]) [0..<n])"

definition hourBuckets :: "ClientHistoryRing \<Rightarrow> HistoryBucket list" where
  "hourBuckets r =
     concat (map (\<lambda>i. let s = ring_hours r i in
                      if slot_epoch s = 0 then [] else [slotBucket 3600 (slot_epoch s) s]) [0..<kHourSlots])"

definition snapshotHistory :: "(string \<Rightarrow> u64) \<Rightarrow> int \<Rightarrow> string \<Rightarrow> int \<Rightarrow> TrafficStats \<Rightarrow>
    ClientHistorySnapshot" where
  "snapshotHistory hash nowSec c minutes st =
     (let out = \<lparr> hist_clientId = c, hist_bucketSeconds = 60, hist_windowDays = windowDays st,
                  hist_buckets = [] \<rparr> in
      case map_of (clientHistory (shards st (shardIndex hash c))) c of
        None \<Rightarrow> out
      | Some r \<Rightarrow>
          if minutes > 0
          then out\<lparr> hist_buckets :=
                 minuteBuckets (min (nat minutes) kMinuteSlots) (epochUnit 60 nowSec) r \<rparr>
          else out\<lparr> hist_bucketSeconds := 3600,
                 hist_buckets := sort_key hb_t (hourBuckets r) \<rparr>)"

section \<open>Invariant\<close>

text \<open>
  For one client and interface: every packet is in exactly one country flow, so the country
  flows sum to the totals; address and entity flows sum to at most the totals, as entries may
  have been evicted.  The sums are over the natural numbers: no counter has wrapped.
\<close>

definition entry_ok :: "nat \<Rightarrow> nat \<Rightarrow> Counter \<Rightarrow> FlowMap \<Rightarrow> CounterMap \<Rightarrow> CounterMap \<Rightarrow> bool" where
  "entry_ok maxFlow maxEntity t fm cm em \<longleftrightarrow>
     keys_ok fm \<and> keys_ok cm \<and> keys_ok em \<and> length fm \<le> maxFlow \<and> length em \<le> maxEntity \<and>
     sum_al (unat \<circ> packets) cm = unat (packets t) \<and> sum_al (unat \<circ> octets) cm = unat (octets t) \<and>
     sum_al (unat \<circ> fs_packets) fm \<le> unat (packets t) \<and> sum_al (unat \<circ> fs_octets) fm \<le> unat (octets t) \<and>
     sum_al (unat \<circ> packets) em \<le> unat (packets t) \<and> sum_al (unat \<circ> octets) em \<le> unat (octets t)"

definition bucket_ok :: "nat \<Rightarrow> nat \<Rightarrow> DayBucket \<Rightarrow> bool" where
  "bucket_ok maxFlow maxEntity b \<longleftrightarrow>
     keys_ok (db_totals b) \<and> keys_ok (db_flows b) \<and> keys_ok (db_countryFlows b) \<and>
     keys_ok (db_entityFlows b) \<and>
     (\<forall>ck. entry_ok maxFlow maxEntity (at_or Counter0 ck (db_totals b)) (at_or [] ck (db_flows b))
            (at_or [] ck (db_countryFlows b)) (at_or [] ck (db_entityFlows b)))"

definition slots_ok :: "nat \<Rightarrow> (nat \<Rightarrow> RingSlot) \<Rightarrow> bool" where
  "slots_ok n f \<longleftrightarrow> (\<forall>i<n. slot_epoch (f i) \<noteq> 0 \<longrightarrow> unat (slot_epoch (f i)) mod n = i)"

definition ring_ok :: "ClientHistoryRing \<Rightarrow> bool" where
  "ring_ok r \<longleftrightarrow> slots_ok kMinuteSlots (ring_minutes r) \<and> slots_ok kHourSlots (ring_hours r)"

definition shard_ok :: "TrafficStats \<Rightarrow> TrafficStatsShard \<Rightarrow> bool" where
  "shard_ok cfg sh \<longleftrightarrow>
     length (dayBuckets sh) \<le> windowDays cfg \<and>
     (\<forall>b \<in> set (dayBuckets sh). bucket_ok (maxFlowEntriesPerKey cfg) (maxEntityFlowEntriesPerKey cfg) b) \<and>
     keys_ok (clientIfaces sh) \<and> keys_ok (ifaceRejectCount sh) \<and> keys_ok (clientHistory sh) \<and>
     (\<forall>c. distinct (at_or [] c (clientIfaces sh)) \<and>
          length (at_or [] c (clientIfaces sh)) \<le> maxIfacesPerClient cfg) \<and>
     (\<forall>c. ring_ok (at_or Ring0 c (clientHistory sh)))"

definition stats_ok :: "TrafficStats \<Rightarrow> bool" where
  "stats_ok st \<longleftrightarrow>
     0 < windowDays st \<and> 0 < maxFlowEntriesPerKey st \<and> 0 < maxEntityFlowEntriesPerKey st \<and>
     0 < maxIfacesPerClient st \<and> (\<forall>i < kShardCount. shard_ok st (shards st i))"

section \<open>Lemmas: counters and eviction\<close>

lemma add_no_wrap:
  fixes p a :: u64
  assumes "\<not> (a > 0 \<and> p > (-1) - a)"
  shows "unat (p + a) = unat p + unat a"
proof -
  have "unat ((-1) - a) = 2 ^ 64 - 1 - unat a"
    by (simp add: unat_sub unsigned_minus_1_eq_mask mask_eq_exp_minus_1)
  moreover have "a = 0 \<or> unat p \<le> unat ((-1) - a)"
    using assms by (simp only: word_le_nat_alt [symmetric] word_gt_0 not_less de_Morgan_conj not_not) blast
  ultimately have "a = 0 \<or> unat p + unat a < 2 ^ LENGTH(64)"
    using unat_u64_less [of a] by auto
  then show ?thesis by (auto simp: unat_word_ariths unat_u64_less)
qed

lemma not_wouldOverflowD:
  assumes "\<not> wouldOverflow p 1 b len"
  shows "unat (p + 1) = unat p + 1" "unat (b + len) = unat b + unat len"
  using assms add_no_wrap [of 1 p] add_no_wrap [of len b] by (auto simp: wouldOverflow_def)

lemma wouldOverflow_mono:
  assumes "wouldOverflow p' 1 b' len" "unat p' \<le> unat p" "unat b' \<le> unat b"
  shows "wouldOverflow p 1 b len"
  using assms by (auto simp: wouldOverflow_def word_less_nat_alt)

lemma min_entry_None [simp]: "min_entry g m = None \<longleftrightarrow> m = []"
  by (cases m) (auto split: option.splits if_splits)

lemma min_entry_Some:
  "min_entry g m = Some e \<Longrightarrow> e \<in> set m \<and> (\<forall>e' \<in> set m. g (snd e) \<le> g (snd e'))"
  by (induction m arbitrary: e) (auto split: option.splits if_splits)

lemma evict_keys_ok [simp]: "keys_ok m \<Longrightarrow> keys_ok (evict cap g key m)"
  by (auto simp: evict_def split: option.splits)

lemma evict_not_new [simp]: "has_key key (evict cap g key m) \<longleftrightarrow> has_key key m"
  by (auto simp: evict_def has_key_def map_of_erase split: option.splits)

lemma at_or_evict_key [simp]: "at_or d key (evict cap g key m) = at_or d key m"
  by (auto simp: evict_def at_or_def map_of_erase has_key_def split: option.splits)

lemma sum_al_evict_le: "sum_al h (evict cap g key m) \<le> sum_al h m"
  by (auto simp: evict_def sum_al_erase_le split: option.splits)

lemma length_evict_new:
  assumes "keys_ok m" "length m \<le> cap" "0 < cap" "\<not> has_key key m"
  shows "length (evict cap g key m) < cap"
proof (cases "min_entry g m")
  case None
  with assms show ?thesis by (simp add: evict_def)
next
  case (Some e)
  then have "has_key (fst e) m"
    using min_entry_Some [OF Some] by (force simp: has_key_iff)
  then have "Suc (length (erase (fst e) m)) = length m" by (rule length_erase [OF assms(1)])
  with Some assms show ?thesis by (cases e) (simp add: evict_def)
qed

lemma length_upd_evict:
  assumes "keys_ok m" "length m \<le> cap" "0 < cap"
  shows "length (upd_at d key f (evict cap g key m)) \<le> cap"
proof (cases "has_key key m")
  case True
  with assms(2) show ?thesis by (simp add: length_upd_at evict_def)
next
  case False
  then show ?thesis using length_evict_new [OF assms False, of g] by (simp add: length_upd_at)
qed

lemma sum_al_upd_evict:
  assumes "keys_ok m" "h d = 0"
  shows "sum_al h (upd_at d key f (evict cap g key m)) + h (at_or d key m) \<le>
    sum_al h m + h (f (at_or d key m))"
  using sum_al_upd_at [of "evict cap g key m" h d key f] sum_al_evict_le [of h cap g key m] assms
  by simp

section \<open>Lemmas: a day bucket\<close>

lemma counter_zero [simp]:
  "packets Counter0 = 0" "octets Counter0 = 0" "fs_packets FlowStats0 = 0" "fs_octets FlowStats0 = 0"
  by (simp_all add: Counter0_def FlowStats0_def)

lemma bump_simps [simp]:
  "packets (bump len c) = packets c + 1" "octets (bump len c) = octets c + len"
  "fs_packets (bumpFlow e len f) = fs_packets f + 1" "fs_octets (bumpFlow e len f) = fs_octets f + len"
  by (simp_all add: bump_def bumpFlow_def)

lemma entry_ok_init [simp]: "entry_ok mf me Counter0 [] [] []"
  by (simp add: entry_ok_def)

lemma entry_ok_add:
  assumes ok: "entry_ok mf me t fm cm em" and pos: "0 < mf" "0 < me"
    and t: "\<not> wouldOverflow (packets t) 1 (octets t) len"
    and f: "\<not> wouldOverflow (fs_packets (at_or FlowStats0 fk fm)) 1 (fs_octets (at_or FlowStats0 fk fm)) len"
    and c: "\<not> wouldOverflow (packets (at_or Counter0 ck cm)) 1 (octets (at_or Counter0 ck cm)) len"
    and e: "\<not> wouldOverflow (packets (at_or Counter0 ek em)) 1 (octets (at_or Counter0 ek em)) len"
  shows "entry_ok mf me (bump len t) (upd_at FlowStats0 fk (bumpFlow s len) (evict mf fs_octets fk fm))
    (upd_at Counter0 ck (bump len) cm) (upd_at Counter0 ek (bump len) (evict me octets ek em))"
proof -
  note okD = ok [unfolded entry_ok_def]
  note nw = not_wouldOverflowD [OF t] not_wouldOverflowD [OF f] not_wouldOverflowD [OF c]
    not_wouldOverflowD [OF e]
  have "keys_ok fm" "keys_ok cm" "keys_ok em" using okD by auto
  note sums =
    sum_al_upd_evict [OF \<open>keys_ok fm\<close>, of "unat \<circ> fs_packets" FlowStats0 fk "bumpFlow s len" mf fs_octets]
    sum_al_upd_evict [OF \<open>keys_ok fm\<close>, of "unat \<circ> fs_octets" FlowStats0 fk "bumpFlow s len" mf fs_octets]
    sum_al_upd_evict [OF \<open>keys_ok em\<close>, of "unat \<circ> packets" Counter0 ek "bump len" me octets]
    sum_al_upd_evict [OF \<open>keys_ok em\<close>, of "unat \<circ> octets" Counter0 ek "bump len" me octets]
    sum_al_upd_at [OF \<open>keys_ok cm\<close>, of "unat \<circ> packets" Counter0 ck "bump len"]
    sum_al_upd_at [OF \<open>keys_ok cm\<close>, of "unat \<circ> octets" Counter0 ck "bump len"]
  have "length (upd_at FlowStats0 fk (bumpFlow s len) (evict mf fs_octets fk fm)) \<le> mf"
    "length (upd_at Counter0 ek (bump len) (evict me octets ek em)) \<le> me"
    using okD pos by (simp_all add: length_upd_evict)
  with okD sums nw show ?thesis by (simp add: entry_ok_def)
qed

lemma addToBucket_cases:
  assumes ok: "bucket_ok mf me b" and pos: "0 < mf" "0 < me"
  shows "addToBucket mf me s ck fk cyk ek len b =
    (if wouldOverflow (packets (at_or Counter0 ck (db_totals b))) 1
          (octets (at_or Counter0 ck (db_totals b))) len
     then Inl UseAfterFree
     else Inr (b\<lparr>
           db_totals := upd_at Counter0 ck (bump len) (db_totals b),
           db_flows := upd_at [] ck (\<lambda>m. upd_at FlowStats0 fk (bumpFlow s len) (evict mf fs_octets fk m))
             (db_flows b),
           db_countryFlows := upd_at [] ck (upd_at Counter0 cyk (bump len)) (db_countryFlows b),
           db_entityFlows := upd_at [] ck (\<lambda>m. upd_at Counter0 ek (bump len) (evict me octets ek m))
             (db_entityFlows b) \<rparr>))"
proof -
  let ?t = "at_or Counter0 ck (db_totals b)"
  let ?f = "at_or FlowStats0 fk (at_or [] ck (db_flows b))"
  let ?c = "at_or Counter0 cyk (at_or [] ck (db_countryFlows b))"
  let ?e = "at_or Counter0 ek (at_or [] ck (db_entityFlows b))"
  have "entry_ok mf me ?t (at_or [] ck (db_flows b)) (at_or [] ck (db_countryFlows b))
      (at_or [] ck (db_entityFlows b))"
    using ok by (simp add: bucket_ok_def)
  then have le: "unat (fs_packets ?f) \<le> unat (packets ?t)" "unat (fs_octets ?f) \<le> unat (octets ?t)"
    "unat (packets ?c) \<le> unat (packets ?t)" "unat (octets ?c) \<le> unat (octets ?t)"
    "unat (packets ?e) \<le> unat (packets ?t)" "unat (octets ?e) \<le> unat (octets ?t)"
    using at_or_le_sum_al [of "unat \<circ> fs_packets" FlowStats0 fk "at_or [] ck (db_flows b)"]
      at_or_le_sum_al [of "unat \<circ> fs_octets" FlowStats0 fk "at_or [] ck (db_flows b)"]
      at_or_le_sum_al [of "unat \<circ> packets" Counter0 cyk "at_or [] ck (db_countryFlows b)"]
      at_or_le_sum_al [of "unat \<circ> octets" Counter0 cyk "at_or [] ck (db_countryFlows b)"]
      at_or_le_sum_al [of "unat \<circ> packets" Counter0 ek "at_or [] ck (db_entityFlows b)"]
      at_or_le_sum_al [of "unat \<circ> octets" Counter0 ek "at_or [] ck (db_entityFlows b)"]
    by (simp_all add: entry_ok_def)
  show ?thesis
    using wouldOverflow_mono [OF _ le(1,2)] wouldOverflow_mono [OF _ le(3,4)]
      wouldOverflow_mono [OF _ le(5,6)]
    by (auto simp: addToBucket_def Let_def)
qed

lemma addToBucket_ok:
  assumes ok: "bucket_ok mf me b" and pos: "0 < mf" "0 < me"
    and add: "addToBucket mf me s ck fk cyk ek len b = Inr b'"
  shows "bucket_ok mf me b'"
proof -
  have "entry_ok mf me (at_or Counter0 j (db_totals b')) (at_or [] j (db_flows b'))
      (at_or [] j (db_countryFlows b')) (at_or [] j (db_entityFlows b'))" for j
  proof (cases "j = ck")
    case True
    have "entry_ok mf me (at_or Counter0 ck (db_totals b)) (at_or [] ck (db_flows b))
      (at_or [] ck (db_countryFlows b)) (at_or [] ck (db_entityFlows b))"
      using ok by (simp add: bucket_ok_def)
    with add True pos show ?thesis
      by (auto simp: addToBucket_def Let_def split: if_splits intro!: entry_ok_add)
  next
    case False
    with ok add show ?thesis
      by (auto simp: bucket_ok_def addToBucket_def Let_def split: if_splits)
  qed
  with ok add show ?thesis
    by (auto simp: bucket_ok_def addToBucket_def Let_def split: if_splits)
qed

lemma addToBucket_InrD:
  assumes "addToBucket mf me s ck fk cyk ek len b = Inr b'"
  shows "\<not> wouldOverflow (packets (at_or Counter0 ck (db_totals b))) 1 (octets (at_or Counter0 ck (db_totals b))) len"
    "db_totals b' = upd_at Counter0 ck (bump len) (db_totals b)"
    "db_flows b' = upd_at [] ck (\<lambda>m. upd_at FlowStats0 fk (bumpFlow s len) (evict mf fs_octets fk m)) (db_flows b)"
    "db_countryFlows b' = upd_at [] ck (upd_at Counter0 cyk (bump len)) (db_countryFlows b)"
    "db_entityFlows b' = upd_at [] ck (\<lambda>m. upd_at Counter0 ek (bump len) (evict me octets ek m)) (db_entityFlows b)"
  using assms by (auto simp: addToBucket_def Let_def split: if_splits)

lemma addToBucket_dayIndex [simp]:
  "addToBucket mf me s ck fk cyk ek len b = Inr b' \<Longrightarrow> db_dayIndex b' = db_dayIndex b"
  by (auto simp: addToBucket_def Let_def split: if_splits)

lemma bucket_ok_DayBucket0 [simp]: "bucket_ok mf me (DayBucket0 d)"
  by (simp add: bucket_ok_def DayBucket0_def)

lemma bucket_ok_purge: "bucket_ok mf me b \<Longrightarrow> bucket_ok mf me (purgeBucket c b)"
  by (simp add: bucket_ok_def purgeBucket_def)

section \<open>Lemmas: a shard\<close>

lemma slot_epoch_slotAdd [simp]: "slot_epoch (slotAdd isIn e len s) = e"
  by (simp add: slotAdd_def RingSlot0_def Let_def)

lemma slots_ok_slotAdd:
  "slots_ok n f \<Longrightarrow> slots_ok n (f(unat e mod n := slotAdd isIn e len s))"
  by (simp add: slots_ok_def)

lemma ring_ok_Ring0 [simp]: "ring_ok Ring0"
  by (simp add: ring_ok_def slots_ok_def Ring0_def RingSlot0_def)

lemma ring_ok_ringAdd: "ring_ok r \<Longrightarrow> ring_ok (ringAdd isIn t len r)"
  by (simp add: ring_ok_def ringAdd_def Let_def slots_ok_slotAdd)

lemma openBucket_append:
  assumes "openBucket d bs = (older, today)"
  shows "set older \<subseteq> set bs" "today = DayBucket0 d \<or> today \<in> set bs" "db_dayIndex today = d"
    "length older \<le> length bs"
  using assms by (auto simp: openBucket_def DayBucket0_def dest: in_set_butlastD split: if_splits)

lemma length_trimWindow: "length (trimWindow wd bs) \<le> wd"
  by (simp add: trimWindow_def)

lemma set_trimWindow: "set (trimWindow wd bs) \<subseteq> set bs"
  by (simp add: trimWindow_def set_drop_subset)

lemma trimWindow_last: "0 < wd \<Longrightarrow> bs \<noteq> [] \<Longrightarrow> last (trimWindow wd bs) = last bs"
  by (cases bs) (auto simp: trimWindow_def)

lemma trimWindow_nonempty: "0 < wd \<Longrightarrow> bs \<noteq> [] \<Longrightarrow> trimWindow wd bs \<noteq> []"
  by (cases bs) (auto simp: trimWindow_def)

text \<open>The two ways \<open>addPacketShard\<close> returns.\<close>

lemma addPacketShard_cases:
  assumes "addPacketShard cfg lan t p sh = Inr (r, sh')"
  obtains (rejected)
    "r = IfaceCapExceeded" "pi_iface p \<notin> set (at_or [] (pi_clientId p) (clientIfaces sh))"
    "maxIfacesPerClient cfg \<le> length (at_or [] (pi_clientId p) (clientIfaces sh))"
    "sh' = sh\<lparr> clientIfaces := upd_at [] (pi_clientId p) id (clientIfaces sh),
              ifaceRejectCount := upd_at 0 (pi_clientId p) (\<lambda>n. n + 1) (ifaceRejectCount sh) \<rparr>"
  | (accepted) older today today' where
    "r = Accepted"
    "pi_iface p \<in> set (at_or [] (pi_clientId p) (clientIfaces sh)) \<or>
      length (at_or [] (pi_clientId p) (clientIfaces sh)) < maxIfacesPerClient cfg"
    "openBucket (dayIndexOf t) (dayBuckets sh) = (older, today)"
    "addToBucket (maxFlowEntriesPerKey cfg) (maxEntityFlowEntriesPerKey cfg) t
       (ciKey (pi_clientId p) (pi_iface p)) \<lparr> fk_src = pi_src p, fk_dst = pi_dst p \<rparr>
       \<lparr> fk_src = pi_srcCountry p, fk_dst = pi_dstCountry p \<rparr>
       \<lparr> fk_src = pi_srcEntity p, fk_dst = pi_dstEntity p \<rparr> (ucast (pi_length p)) today = Inr today'"
    "sh' = sh\<lparr> clientIfaces := upd_at [] (pi_clientId p)
                (\<lambda>s. if pi_iface p \<notin> set (at_or [] (pi_clientId p) (clientIfaces sh))
                     then pi_iface p # s else s) (clientIfaces sh),
              dayBuckets := trimWindow (windowDays cfg) (older @ [today']),
              clientHistory := upd_at Ring0 (pi_clientId p)
                (ringAdd (lan (pi_dst p) \<and> \<not> lan (pi_src p)) t (ucast (pi_length p)))
                (clientHistory sh) \<rparr>"
  using assms
  by (auto simp: addPacketShard_def Let_def not_le split: if_splits prod.splits sum.splits)

definition cfg_pos :: "TrafficStats \<Rightarrow> bool" where
  "cfg_pos st \<longleftrightarrow> 0 < windowDays st \<and> 0 < maxFlowEntriesPerKey st \<and>
     0 < maxEntityFlowEntriesPerKey st \<and> 0 < maxIfacesPerClient st"

lemma addPacketShard_ok:
  assumes ok: "shard_ok cfg sh" and pos: "cfg_pos cfg"
    and add: "addPacketShard cfg lan t p sh = Inr (r, sh')"
  shows "shard_ok cfg sh'"
  using add
proof (cases rule: addPacketShard_cases)
  case rejected
  with ok show ?thesis by (simp add: shard_ok_def)
next
  case (accepted older today today')
  have "bucket_ok (maxFlowEntriesPerKey cfg) (maxEntityFlowEntriesPerKey cfg) today"
    using openBucket_append [OF accepted(3)] ok by (auto simp: shard_ok_def)
  then have "bucket_ok (maxFlowEntriesPerKey cfg) (maxEntityFlowEntriesPerKey cfg) today'"
    using addToBucket_ok accepted(4) pos by (simp add: cfg_pos_def)
  then have "\<forall>b \<in> set (trimWindow (windowDays cfg) (older @ [today'])).
      bucket_ok (maxFlowEntriesPerKey cfg) (maxEntityFlowEntriesPerKey cfg) b"
    using openBucket_append [OF accepted(3)] ok set_trimWindow [of "windowDays cfg" "older @ [today']"]
    by (auto simp: shard_ok_def)
  with ok accepted(2,5) show ?thesis
    by (auto simp: shard_ok_def length_trimWindow ring_ok_ringAdd Suc_le_eq)
qed

lemma shard_ok_reset: "shard_ok cfg sh \<Longrightarrow> shard_ok cfg (resetClientInShard c sh)"
  by (auto simp: shard_ok_def resetClientInShard_def bucket_ok_purge)

lemma shard_ok_shards_update [simp]: "shard_ok (st\<lparr> shards := f \<rparr>) sh = shard_ok st sh"
  by (simp add: shard_ok_def)

lemma shardIndex_less: "shardIndex hash c < kShardCount"
proof -
  have "hash c AND 15 \<le> (15 :: u64)" by (rule word_and_le1)
  then show ?thesis by (simp add: shardIndex_def kShardCount_def word_le_nat_alt)
qed

lemma stats_ok_iff: "stats_ok st \<longleftrightarrow> cfg_pos st \<and> (\<forall>i < kShardCount. shard_ok st (shards st i))"
  by (auto simp: stats_ok_def cfg_pos_def)

lemma cfg_pos_shards_update [simp]: "cfg_pos (st\<lparr> shards := f \<rparr>) = cfg_pos st"
  by (simp add: cfg_pos_def)

lemma addPacket_InrD:
  assumes "addPacket hash lan t p st = Inr (r, st')"
  obtains sh' where "addPacketShard st lan t p (shards st (shardIndex hash (pi_clientId p))) = Inr (r, sh')"
    "st' = st\<lparr> shards := (shards st)(shardIndex hash (pi_clientId p) := sh') \<rparr>"
  using assms by (auto simp: addPacket_def Let_def split: sum.splits prod.splits)

lemma addPacket_ok:
  assumes "stats_ok st" "addPacket hash lan t p st = Inr (r, st')"
  shows "stats_ok st'"
  using assms(2)
proof (cases rule: addPacket_InrD)
  case (1 sh')
  have "shard_ok st (shards st (shardIndex hash (pi_clientId p)))" "cfg_pos st"
    using assms(1) shardIndex_less by (auto simp: stats_ok_iff)
  from addPacketShard_ok [OF this 1(1)] have "shard_ok st sh'" .
  with assms(1) 1(2) show ?thesis by (simp add: stats_ok_iff)
qed

lemma purgeClient_ok: "stats_ok st \<Longrightarrow> stats_ok (snd (purgeClient hash c st))"
  by (simp add: stats_ok_iff purgeClient_def Let_def shard_ok_reset shardIndex_less)

lemma stats_ok_new: "stats_ok (TrafficStats_new wd mf me mi)"
  by (simp add: stats_ok_def TrafficStats_new_def shard_ok_def Shard0_def
      kAggregationWindowDaysDefault_def)

section \<open>Reachable stores\<close>

inductive reachable_stats :: "(string \<Rightarrow> u64) \<Rightarrow> (string \<Rightarrow> bool) \<Rightarrow> TrafficStats \<Rightarrow> bool"
  for hash lan where
  init: "reachable_stats hash lan (TrafficStats_new wd mf me mi)"
| add: "reachable_stats hash lan st \<Longrightarrow> addPacket hash lan t p st = Inr (r, st') \<Longrightarrow>
    reachable_stats hash lan st'"
| purge: "reachable_stats hash lan st \<Longrightarrow> reachable_stats hash lan (snd (purgeClient hash c st))"

lemma reachable_stats_ok: "reachable_stats hash lan st \<Longrightarrow> stats_ok st"
  by (induction rule: reachable_stats.induct) (auto simp: stats_ok_new addPacket_ok purgeClient_ok)

text \<open>The bucket of day \<open>d\<close> in which a client's packets are counted.\<close>

definition todayBucket :: "(string \<Rightarrow> u64) \<Rightarrow> int \<Rightarrow> string \<Rightarrow> TrafficStats \<Rightarrow> DayBucket" where
  "todayBucket hash t c st =
     snd (openBucket (dayIndexOf t) (dayBuckets (shards st (shardIndex hash c))))"

lemma todayBucket_ok:
  assumes "stats_ok st"
  shows "bucket_ok (maxFlowEntriesPerKey st) (maxEntityFlowEntriesPerKey st) (todayBucket hash t c st)"
proof -
  have "shard_ok st (shards st (shardIndex hash c))"
    using assms shardIndex_less by (auto simp: stats_ok_iff)
  then show ?thesis
    using openBucket_append(2) [OF surjective_pairing, of "dayIndexOf t"
        "dayBuckets (shards st (shardIndex hash c))"]
    by (auto simp: todayBucket_def shard_ok_def)
qed

lemma addPacket_acceptedD:
  assumes "stats_ok st" "addPacket hash lan t p st = Inr (Accepted, st')"
  shows "addToBucket (maxFlowEntriesPerKey st) (maxEntityFlowEntriesPerKey st) t
      (ciKey (pi_clientId p) (pi_iface p)) \<lparr> fk_src = pi_src p, fk_dst = pi_dst p \<rparr>
      \<lparr> fk_src = pi_srcCountry p, fk_dst = pi_dstCountry p \<rparr>
      \<lparr> fk_src = pi_srcEntity p, fk_dst = pi_dstEntity p \<rparr> (ucast (pi_length p))
      (todayBucket hash t (pi_clientId p) st) =
    Inr (todayBucket hash t (pi_clientId p) st')"
  using assms(2)
proof (cases rule: addPacket_InrD)
  case (1 sh')
  have pos: "0 < windowDays st" using assms(1) by (simp add: stats_ok_def)
  from 1(1) show ?thesis
  proof (cases rule: addPacketShard_cases)
    case (accepted older today today')
    have "db_dayIndex today' = dayIndexOf t"
      using addToBucket_dayIndex [OF accepted(4)] openBucket_append [OF accepted(3)] by simp
    then have "snd (openBucket (dayIndexOf t) (trimWindow (windowDays st) (older @ [today']))) = today'"
      using pos by (simp add: openBucket_def trimWindow_last trimWindow_nonempty)
    with accepted 1(2) show ?thesis by (simp add: todayBucket_def)
  qed simp
qed

lemma dayIndexOf_floor: "dayIndexOf t = t div 86400"
proof -
  have "(86399 - t) div 86400 = - (t div 86400)"
    by (rule int_div_pos_eq [where r = "86399 - t mod 86400"])
      (use mult_div_mod_eq [of 86400 t] pos_mod_bound [of 86400 t] pos_mod_sign [of 86400 t] in linarith)+
  then show ?thesis by (simp add: dayIndexOf_def signed_divide_int_def sgn_if)
qed

definition ifaceAllowed :: "(string \<Rightarrow> u64) \<Rightarrow> PacketInfo \<Rightarrow> TrafficStats \<Rightarrow> bool" where
  "ifaceAllowed hash p st =
     (let s = at_or [] (pi_clientId p) (clientIfaces (shards st (shardIndex hash (pi_clientId p))))
      in pi_iface p \<in> set s \<or> length s < maxIfacesPerClient st)"

definition totalOverflows :: "(string \<Rightarrow> u64) \<Rightarrow> int \<Rightarrow> PacketInfo \<Rightarrow> TrafficStats \<Rightarrow> bool" where
  "totalOverflows hash t p st =
     (let c = pi_clientId p;
          total = at_or Counter0 (ciKey c (pi_iface p)) (db_totals (todayBucket hash t c st))
      in unat (packets total) + 1 \<ge> 2 ^ 64 \<or> unat (octets total) + unat (pi_length p) \<ge> 2 ^ 64)"

lemma wouldOverflow_iff:
  "wouldOverflow p 1 b len \<longleftrightarrow> unat p + 1 \<ge> 2 ^ 64 \<or> unat b + unat len \<ge> 2 ^ 64"
proof -
  have "unat ((-1) - len) = 2 ^ 64 - 1 - unat len" "unat ((-1) - 1 :: u64) = 2 ^ 64 - 2"
    by (simp_all add: unat_sub unsigned_minus_1_eq_mask mask_eq_exp_minus_1)
  then show ?thesis
    using unat_u64_less [of p] unat_u64_less [of b] unat_u64_less [of len]
    by (auto simp: wouldOverflow_def word_less_nat_alt)
qed

lemma addPacket_outcome:
  assumes "stats_ok st"
  shows "if \<not> ifaceAllowed hash p st then \<exists>st'. addPacket hash lan t p st = Inr (IfaceCapExceeded, st')
    else if totalOverflows hash t p st then addPacket hash lan t p st = Inl UseAfterFree
    else \<exists>st'. addPacket hash lan t p st = Inr (Accepted, st')"
proof -
  let ?c = "pi_clientId p"
  let ?sh = "shards st (shardIndex hash ?c)"
  have pos: "0 < maxFlowEntriesPerKey st" "0 < maxEntityFlowEntriesPerKey st"
    using assms by (auto simp: stats_ok_def)
  obtain older today where ob: "openBucket (dayIndexOf t) (dayBuckets ?sh) = (older, today)"
    by fastforce
  then have today: "todayBucket hash t ?c st = today" by (simp add: todayBucket_def)
  show ?thesis
    using addToBucket_cases [OF todayBucket_ok [OF assms, of hash t ?c] pos] ob
    by (simp add: addPacket_def addPacketShard_def Let_def ifaceAllowed_def totalOverflows_def today
        wouldOverflow_iff)
qed

section \<open>Lemmas: keys of different clients\<close>

lemma ownKey_ciKey [simp]:
  assumes "CHR ''|'' \<notin> set c" "CHR ''|'' \<notin> set c'"
  shows "ownKey c (ciKey c' iface) \<longleftrightarrow> c = c'"
proof
  assume "ownKey c (ciKey c' iface)"
  then obtain r where "c' @ CHR ''|'' # iface = c @ CHR ''|'' # r"
    by (auto simp: ownKey_def ciKey_def starts_with_iff)
  then have "find_ch CHR ''|'' (c' @ CHR ''|'' # iface) = find_ch CHR ''|'' (c @ CHR ''|'' # r)" by simp
  then have "length c' = length c" using assms by (simp add: find_ch_append)
  with \<open>c' @ _ = _\<close> show "c = c'" by simp
qed (simp add: ownKey_def ciKey_def starts_with_iff)

lemma ciKey_inj:
  assumes "CHR ''|'' \<notin> set c" "CHR ''|'' \<notin> set c'" "ciKey c i = ciKey c' i'"
  shows "c = c' \<and> i = i'"
proof -
  have "ownKey c (ciKey c' i')" using assms(1,3) ownKey_ciKey [of c c i] by simp
  then have "c = c'" using assms(1,2) by simp
  with assms(3) show ?thesis by (simp add: ciKey_def)
qed

section \<open>Lemmas: merging\<close>

lemma at_or_merge_map:
  "at_or z k (merge_map z f acc m) = foldl f (at_or z k acc) (map snd (filter (\<lambda>(j, _). j = k) m))"
  unfolding merge_map_def by (induction m arbitrary: acc) auto

lemma filter_keys_ok:
  "keys_ok m \<Longrightarrow> filter (\<lambda>(j, _). j = k) m = (case map_of m k of None \<Rightarrow> [] | Some v \<Rightarrow> [(k, v)])"
proof (induction m)
  case (Cons p m)
  then show ?case
    by (cases p) (auto simp: has_key_def split: option.splits)
qed simp

lemma at_or_merge_totals:
  assumes "keys_ok m"
  shows "at_or Counter0 k (merge_map Counter0 addCounter acc m) =
    addCounter (at_or Counter0 k acc) (at_or Counter0 k m)"
  using filter_keys_ok [OF assms, of k]
  by (auto simp: at_or_merge_map at_or_def [of _ k m] addCounter_def Counter0_def split: option.splits)

definition counterSum :: "(DayBucket \<Rightarrow> Counter) \<Rightarrow> DayBucket list \<Rightarrow> Counter" where
  "counterSum g bs = \<lparr> packets = (\<Sum>b\<leftarrow>bs. packets (g b)), octets = (\<Sum>b\<leftarrow>bs. octets (g b)) \<rparr>"

lemma snapBucket_totals:
  assumes "\<forall>b \<in> set bs. keys_ok (db_totals b)"
  shows "at_or Counter0 k (sn_totals (foldl snapBucket s bs)) =
    addCounter (at_or Counter0 k (sn_totals s)) (counterSum (\<lambda>b. at_or Counter0 k (db_totals b)) bs)"
  using assms
  by (induction bs arbitrary: s)
    (simp_all add: snapBucket_def at_or_merge_totals addCounter_def counterSum_def add.assoc)

lemma snapShard_totals:
  assumes "\<forall>sh \<in> set shs. \<forall>b \<in> set (dayBuckets sh). keys_ok (db_totals b)"
  shows "at_or Counter0 k (sn_totals (foldl snapShard s shs)) =
    addCounter (at_or Counter0 k (sn_totals s))
      (counterSum (\<lambda>b. at_or Counter0 k (db_totals b)) (concat (map dayBuckets shs)))"
  using assms
  by (induction shs arbitrary: s)
    (simp_all add: snapShard_def snapBucket_totals addCounter_def counterSum_def add.assoc)

section \<open>Lemmas: history\<close>

lemma sorted_wrt_concat_map_upt:
  assumes "\<And>i x. i < n \<Longrightarrow> x \<in> set (f i) \<Longrightarrow> P i x" "\<And>i. length (f i) \<le> 1"
    "\<And>i j x y. i < j \<Longrightarrow> j < n \<Longrightarrow> P i x \<Longrightarrow> P j y \<Longrightarrow> R x y"
  shows "sorted_wrt R (concat (map f [0..<n]))"
  using assms(1,3)
proof (induction n)
  case (Suc n)
  have "sorted_wrt R (f n)"
    using assms(2) [of n] by (cases "f n") auto
  moreover have "sorted_wrt R (concat (map f [0..<n]))"
    using Suc.prems by (intro Suc.IH) (auto intro: less_SucI)
  ultimately show ?case using Suc.prems by (auto simp: sorted_wrt_append)
qed simp

lemma length_concat_map_upt:
  "(\<And>i. length (f i) \<le> 1) \<Longrightarrow> length (concat (map f [0..<n])) \<le> n"
proof (induction n)
  case (Suc n)
  from Suc.prems [of n] Suc.IH [OF Suc.prems] show ?case by simp
qed simp

lemma unat_times_60: "unat (x :: u64) * 60 < 2 ^ 64 \<Longrightarrow> unat (x * 60) = unat x * 60"
  by (simp add: unat_word_ariths)

lemma minute_word:
  assumes "n \<le> unat (nowMin :: u64)" "unat nowMin * 60 < 2 ^ 64" "i < n"
  shows "unat ((nowMin - of_nat (n - 1 - i)) * 60) = (unat nowMin - (n - 1 - i)) * 60"
proof -
  have n: "n - 1 - i < 2 ^ LENGTH(64)" using assms(1) unat_u64_less [of nowMin] by simp
  then have "unat (nowMin - of_nat (n - 1 - i)) = unat nowMin - (n - 1 - i)"
    using assms(1) by (simp add: unat_sub word_le_nat_alt unat_of_nat take_bit_nat_eq_self)
  with assms(2) show ?thesis
    using unat_times_60 [of "nowMin - of_nat (n - 1 - i)"] by simp
qed

lemma minuteBuckets_sorted:
  assumes "n \<le> unat nowMin" "unat nowMin * 60 < 2 ^ 64"
  shows "sorted_wrt (<) (map hb_t (minuteBuckets n nowMin r))"
  unfolding sorted_wrt_map minuteBuckets_def
proof (rule sorted_wrt_concat_map_upt)
  let ?P = "\<lambda>i x. hb_t x = (nowMin - of_nat (n - 1 - i)) * 60"
  show "?P i x" if "x \<in> set (let em = nowMin - of_nat (n - 1 - i);
        s = ring_minutes r (unat em mod kMinuteSlots)
      in if slot_epoch s \<noteq> em then [] else [slotBucket 60 em s])" for i x
    using that by (auto simp: Let_def slotBucket_def split: if_splits)
  show "hb_t x < hb_t y" if "i < j" "j < n" "?P i x" "?P j y" for i j x y
    using that minute_word [OF assms, of i] minute_word [OF assms, of j]
    by (simp add: word_less_nat_alt) (use assms(1) in linarith)
qed (simp add: Let_def)

section \<open>Lemmas: the effect of an accepted packet\<close>

text \<open>The specification of a packet: the rest of a capped table is kept, but for one entry with the fewest
  octets when a new entry found the table full; a slot of a history ring starts anew for a new minute
  or hour and counts the packet in its direction.\<close>

definition only_victim :: "nat \<Rightarrow> ('v \<Rightarrow> u64) \<Rightarrow> 'k \<Rightarrow> ('k \<times> 'v) list \<Rightarrow> ('k \<times> 'v) list \<Rightarrow> bool" where
  "only_victim cap g key m m' \<longleftrightarrow>
     (if length m < cap \<or> has_key key m then \<forall>j. j \<noteq> key \<longrightarrow> map_of m' j = map_of m j
      else \<exists>v x. map_of m v = Some x \<and> (\<forall>(_, y) \<in> set m. g x \<le> g y) \<and>
        (\<forall>j. j \<noteq> key \<longrightarrow> map_of m' j = (if j = v then None else map_of m j)))"

definition slot_counted :: "bool \<Rightarrow> u64 \<Rightarrow> u64 \<Rightarrow> RingSlot \<Rightarrow> RingSlot \<Rightarrow> bool" where
  "slot_counted isIn e len s s' \<longleftrightarrow> slot_epoch s' = e \<and>
     inOctets s' = (if slot_epoch s = e then inOctets s else 0) + (if isIn then len else 0) \<and>
     outOctets s' = (if slot_epoch s = e then outOctets s else 0) + (if isIn then 0 else len) \<and>
     inPackets s' = (if slot_epoch s = e then inPackets s else 0) + (if isIn then 1 else 0) \<and>
     outPackets s' = (if slot_epoch s = e then outPackets s else 0) + (if isIn then 0 else 1)"

definition slots_counted :: "nat \<Rightarrow> bool \<Rightarrow> u64 \<Rightarrow> u64 \<Rightarrow> (nat \<Rightarrow> RingSlot) \<Rightarrow> (nat \<Rightarrow> RingSlot) \<Rightarrow> bool" where
  "slots_counted n isIn e len f f' \<longleftrightarrow>
     (\<forall>i. if i = unat e mod n then slot_counted isIn e len (f i) (f' i) else f' i = f i)"

definition ring_counted :: "bool \<Rightarrow> int \<Rightarrow> u64 \<Rightarrow> ClientHistoryRing \<Rightarrow> ClientHistoryRing \<Rightarrow> bool" where
  "ring_counted isIn t len r r' \<longleftrightarrow>
     slots_counted kMinuteSlots isIn (epochUnit 60 t) len (ring_minutes r) (ring_minutes r') \<and>
     slots_counted kHourSlots isIn (epochUnit 3600 t) len (ring_hours r) (ring_hours r')"

lemma only_victim_upd:
  assumes "keys_ok m" "0 < cap"
  shows "only_victim cap g key m (upd_at d key f (evict cap g key m))"
proof (cases "length m < cap \<or> has_key key m")
  case True
  then show ?thesis by (auto simp: only_victim_def evict_def map_of_upd_at)
next
  case False
  then have "m \<noteq> []" using assms(2) by auto
  then obtain v x where e: "min_entry g m = Some (v, x)" by (cases "min_entry g m") auto
  note M = min_entry_Some [OF this]
  have "\<forall>(_, y) \<in> set m. g x \<le> g y" using M by fastforce
  moreover from M have "map_of m v = Some x" using assms(1) by (simp add: keys_ok_def)
  moreover have "evict cap g key m = erase v m" using False by (simp add: evict_def e)
  ultimately show ?thesis using False
    by (auto simp: only_victim_def map_of_upd_at map_of_erase intro!: exI [of _ v])
qed

lemma ring_counted_ringAdd: "ring_counted isIn t len r (ringAdd isIn t len r)"
  by (auto simp: ring_counted_def slots_counted_def slot_counted_def ringAdd_def slotAdd_def RingSlot0_def Let_def)

text \<open>What an accepted packet does to its shard.\<close>

lemma addPacket_accepted_shard:
  assumes "stats_ok st" "addPacket hash lan t p st = Inr (Accepted, st')"
  defines "c \<equiv> pi_clientId p"
  defines "sh \<equiv> shards st (shardIndex hash c)" and "sh' \<equiv> shards st' (shardIndex hash c)"
    and "b \<equiv> todayBucket hash t c st" and "b' \<equiv> todayBucket hash t c st'"
  shows "db_dayIndex b' = dayIndexOf t"
    and "\<exists>older. dayBuckets sh = older @
        (if dayBuckets sh \<noteq> [] \<and> db_dayIndex (last (dayBuckets sh)) = dayIndexOf t then [b] else []) \<and>
       dayBuckets sh' = drop (Suc (length older) - windowDays st) (older @ [b'])"
    and "ring_counted (lan (pi_dst p) \<and> \<not> lan (pi_src p)) t (ucast (pi_length p))
      (at_or Ring0 c (clientHistory sh)) (at_or Ring0 c (clientHistory sh'))"
    and "set (at_or [] c (clientIfaces sh')) = insert (pi_iface p) (set (at_or [] c (clientIfaces sh)))"
    and "\<forall>d. d \<noteq> c \<longrightarrow> map_of (clientIfaces sh') d = map_of (clientIfaces sh) d \<and>
       map_of (clientHistory sh') d = map_of (clientHistory sh) d"
    and "ifaceRejectCount sh' = ifaceRejectCount sh"
    and "st' = st\<lparr> shards := (shards st)(shardIndex hash c := sh') \<rparr>"
proof -
  from assms(2) obtain s where s: "addPacketShard st lan t p sh = Inr (Accepted, s)"
    "st' = st\<lparr> shards := (shards st)(shardIndex hash c := s) \<rparr>"
    by (rule addPacket_InrD) (auto simp: sh_def c_def)
  then have sh': "sh' = s" by (simp add: sh'_def)
  have pos: "0 < windowDays st" using assms(1) by (simp add: stats_ok_def)
  from s(1) obtain older today today' where o: "openBucket (dayIndexOf t) (dayBuckets sh) = (older, today)"
    and add: "addToBucket (maxFlowEntriesPerKey st) (maxEntityFlowEntriesPerKey st) t
       (ciKey (pi_clientId p) (pi_iface p)) \<lparr> fk_src = pi_src p, fk_dst = pi_dst p \<rparr>
       \<lparr> fk_src = pi_srcCountry p, fk_dst = pi_dstCountry p \<rparr>
       \<lparr> fk_src = pi_srcEntity p, fk_dst = pi_dstEntity p \<rparr> (ucast (pi_length p)) today = Inr today'"
    and upd: "s = sh\<lparr> clientIfaces := upd_at [] c
                (\<lambda>x. if pi_iface p \<notin> set (at_or [] c (clientIfaces sh)) then pi_iface p # x else x) (clientIfaces sh),
              dayBuckets := trimWindow (windowDays st) (older @ [today']),
              clientHistory := upd_at Ring0 c (ringAdd (lan (pi_dst p) \<and> \<not> lan (pi_src p)) t (ucast (pi_length p)))
                (clientHistory sh) \<rparr>"
    by (cases rule: addPacketShard_cases) (auto simp: c_def)
  have day: "db_dayIndex today' = dayIndexOf t"
    using addToBucket_dayIndex [OF add] openBucket_append [OF o] by simp
  have b: "b = today" by (simp add: b_def todayBucket_def sh_def [symmetric] o)
  have "snd (openBucket (dayIndexOf t) (trimWindow (windowDays st) (older @ [today']))) = today'"
    using pos day by (simp add: openBucket_def trimWindow_last trimWindow_nonempty)
  then have b': "b' = today'" by (simp add: b'_def todayBucket_def sh'_def [symmetric] sh' upd)
  show "db_dayIndex b' = dayIndexOf t" by (simp add: b' day)
  have "dayBuckets sh = older @
      (if dayBuckets sh \<noteq> [] \<and> db_dayIndex (last (dayBuckets sh)) = dayIndexOf t then [b] else [])"
    using o by (auto simp: openBucket_def b split: if_splits)
  then show "\<exists>older. dayBuckets sh = older @
        (if dayBuckets sh \<noteq> [] \<and> db_dayIndex (last (dayBuckets sh)) = dayIndexOf t then [b] else []) \<and>
       dayBuckets sh' = drop (Suc (length older) - windowDays st) (older @ [b'])"
    by (intro exI [of _ older]) (simp add: sh' upd b' trimWindow_def)
  show "ring_counted (lan (pi_dst p) \<and> \<not> lan (pi_src p)) t (ucast (pi_length p))
      (at_or Ring0 c (clientHistory sh)) (at_or Ring0 c (clientHistory sh'))"
    by (simp add: sh' upd ring_counted_ringAdd)
  show "set (at_or [] c (clientIfaces sh')) = insert (pi_iface p) (set (at_or [] c (clientIfaces sh)))"
    by (auto simp: sh' upd)
  show "\<forall>d. d \<noteq> c \<longrightarrow> map_of (clientIfaces sh') d = map_of (clientIfaces sh) d \<and>
       map_of (clientHistory sh') d = map_of (clientHistory sh) d"
    by (simp add: sh' upd map_of_upd_at)
  show "ifaceRejectCount sh' = ifaceRejectCount sh" by (simp add: sh' upd)
  show "st' = st\<lparr> shards := (shards st)(shardIndex hash c := sh') \<rparr>" by (simp add: s(2) sh')
qed

section \<open>Properties\<close>

text \<open>
  C20.  Every store reachable from construction by \<open>addPacket\<close> and \<open>purgeClient\<close>, in any order
  and for any clients, satisfies the invariant: per client and interface the country flows sum
  exactly to the totals, address and entity flows to at most the totals (over the naturals, so
  no counter has wrapped), the flow tables respect their caps, at most \<open>windowDays\<close> buckets are
  kept per shard, and no client has more interfaces than the cap.
\<close>

theorem traffic_invariant:
  assumes "reachable_stats hash lan st"
  shows "stats_ok st"
  using assms by (rule reachable_stats_ok)

theorem traffic_invariant_witness:
  "stats_ok (snd (purgeClient (\<lambda>_. 3) ''ab'' (TrafficStats_new 7 10 10 4)))"
  by (rule traffic_invariant [of "\<lambda>_. 3" "\<lambda>_. False"]) (intro reachable_stats.purge reachable_stats.init)

text \<open>
  C3.  Exact accounting: an accepted packet adds one packet and its length, without wrap-around,
  to the day's totals of its client and interface and to its address, country and entity flow, sets
  the flow's last-seen time, and counts in its direction in the current minute and hour of its client's
  history.  Nothing else changes: every other key of the bucket, every other country flow, every other
  slot, client and shard is as before; of the other address and entity flows a full table loses one with
  the fewest octets when the flow is new; the older days stay, but for those that the
  window drops at the front; and the interface joins the client's set.
\<close>

theorem addPacket_accounts:
  assumes "stats_ok st" "addPacket hash lan t p st = Inr (Accepted, st')"
    and "c = pi_clientId p" "k = ciKey c (pi_iface p)" "len = (ucast (pi_length p) :: u64)"
    and "fk = \<lparr> fk_src = pi_src p, fk_dst = pi_dst p \<rparr>"
    and "cyk = \<lparr> fk_src = pi_srcCountry p, fk_dst = pi_dstCountry p \<rparr>"
    and "ek = \<lparr> fk_src = pi_srcEntity p, fk_dst = pi_dstEntity p \<rparr>"
    and "b = todayBucket hash t c st" "b' = todayBucket hash t c st'"
    and "sh = shards st (shardIndex hash c)" "sh' = shards st' (shardIndex hash c)"
  shows "unat (packets (at_or Counter0 k (db_totals b'))) = unat (packets (at_or Counter0 k (db_totals b))) + 1 \<and>
    unat (octets (at_or Counter0 k (db_totals b'))) = unat (octets (at_or Counter0 k (db_totals b))) + unat (pi_length p) \<and>
    at_or FlowStats0 fk (at_or [] k (db_flows b')) = bumpFlow t len (at_or FlowStats0 fk (at_or [] k (db_flows b))) \<and>
    at_or Counter0 cyk (at_or [] k (db_countryFlows b')) = bump len (at_or Counter0 cyk (at_or [] k (db_countryFlows b))) \<and>
    at_or Counter0 ek (at_or [] k (db_entityFlows b')) = bump len (at_or Counter0 ek (at_or [] k (db_entityFlows b))) \<and>
    only_victim (maxFlowEntriesPerKey st) fs_octets fk (at_or [] k (db_flows b)) (at_or [] k (db_flows b')) \<and>
    (\<forall>x. x \<noteq> cyk \<longrightarrow> map_of (at_or [] k (db_countryFlows b')) x = map_of (at_or [] k (db_countryFlows b)) x) \<and>
    only_victim (maxEntityFlowEntriesPerKey st) octets ek (at_or [] k (db_entityFlows b)) (at_or [] k (db_entityFlows b')) \<and>
    (\<forall>j. j \<noteq> k \<longrightarrow> map_of (db_totals b') j = map_of (db_totals b) j \<and>
       map_of (db_flows b') j = map_of (db_flows b) j \<and>
       map_of (db_countryFlows b') j = map_of (db_countryFlows b) j \<and>
       map_of (db_entityFlows b') j = map_of (db_entityFlows b) j) \<and>
    db_dayIndex b' = dayIndexOf t \<and>
    (\<exists>older. dayBuckets sh = older @
        (if dayBuckets sh \<noteq> [] \<and> db_dayIndex (last (dayBuckets sh)) = dayIndexOf t then [b] else []) \<and>
       dayBuckets sh' = drop (Suc (length older) - windowDays st) (older @ [b'])) \<and>
    ring_counted (lan (pi_dst p) \<and> \<not> lan (pi_src p)) t len
      (at_or Ring0 c (clientHistory sh)) (at_or Ring0 c (clientHistory sh')) \<and>
    set (at_or [] c (clientIfaces sh')) = insert (pi_iface p) (set (at_or [] c (clientIfaces sh))) \<and>
    (\<forall>d. d \<noteq> c \<longrightarrow> map_of (clientIfaces sh') d = map_of (clientIfaces sh) d \<and>
       map_of (clientHistory sh') d = map_of (clientHistory sh) d) \<and>
    ifaceRejectCount sh' = ifaceRejectCount sh \<and>
    st' = st\<lparr> shards := (shards st)(shardIndex hash c := sh') \<rparr>"
proof -
  note add = addToBucket_InrD [OF addPacket_acceptedD [OF assms(1,2)], folded assms(3,5-8),
      folded assms(4,9,10)]
  have "unat len = unat (pi_length p)" using assms(5) by simp
  moreover have "keys_ok (at_or [] k (db_flows b))" "keys_ok (at_or [] k (db_entityFlows b))"
    using todayBucket_ok [OF assms(1), of hash t c] by (auto simp: bucket_ok_def entry_ok_def assms(9))
  then have "only_victim (maxFlowEntriesPerKey st) fs_octets fk (at_or [] k (db_flows b)) (at_or [] k (db_flows b'))"
    "only_victim (maxEntityFlowEntriesPerKey st) octets ek (at_or [] k (db_entityFlows b)) (at_or [] k (db_entityFlows b'))"
    using assms(1) by (simp_all add: add(3,5) only_victim_upd stats_ok_def)
  moreover note not_wouldOverflowD [OF add(1)] addPacket_accepted_shard [OF assms(1,2), folded assms(3),
    folded assms(5,9-12)]
  ultimately show ?thesis by (simp add: add(2-5) map_of_upd_at)
qed

theorem addPacket_accounts_witness:
  "\<exists>st'. addPacket (\<lambda>_. 0) (\<lambda>_. False) 86400
      \<lparr> pi_clientId = ''ab'', pi_iface = ''eth0'', pi_src = ''s'', pi_dst = ''d'', pi_srcCountry = ''x'',
        pi_dstCountry = ''y'', pi_srcEntity = ''e'', pi_dstEntity = ''f'', pi_length = 60 \<rparr>
      (TrafficStats_new 7 10 10 4) = Inr (Accepted, st') \<and>
    unat (octets (at_or Counter0 (ciKey ''ab'' ''eth0'') (db_totals (todayBucket (\<lambda>_. 0) 86400 ''ab'' st')))) = 60"
  (is "\<exists>st'. addPacket ?h ?lan 86400 ?p ?st = _ \<and> _")
proof -
  have fresh: "todayBucket ?h 86400 ''ab'' ?st = DayBucket0 (dayIndexOf 86400)"
    by (simp add: todayBucket_def openBucket_def TrafficStats_new_def Shard0_def)
  have "ifaceAllowed ?h ?p ?st"
    by (simp add: ifaceAllowed_def TrafficStats_new_def Shard0_def)
  moreover have "\<not> totalOverflows ?h 86400 ?p ?st"
    by (simp add: totalOverflows_def fresh) (simp add: DayBucket0_def)
  ultimately obtain st' where "addPacket ?h ?lan 86400 ?p ?st = Inr (Accepted, st')"
    using addPacket_outcome [OF stats_ok_new [of 7 10 10 4], of ?h ?p ?lan 86400] by auto
  with addPacket_accounts [OF stats_ok_new this refl refl refl refl refl refl refl refl refl refl] fresh
  show ?thesis by (simp add: DayBucket0_def)
qed

text \<open>
  The outcome of \<open>addPacket\<close> is determined: a new interface beyond the cap is rejected; an
  allowed packet that would carry the day's 64-bit packet or byte total past its maximum runs
  into the erase-then-write branch (undefined behaviour); every other packet is accepted.  The
  three other overflow checks of the code never decide the outcome.
\<close>

lemma addPacket_outcomes:
  assumes "stats_ok st"
  shows "if \<not> ifaceAllowed hash p st then \<exists>st'. addPacket hash lan t p st = Inr (IfaceCapExceeded, st')
    else if totalOverflows hash t p st then addPacket hash lan t p st = Inl UseAfterFree
    else \<exists>st'. addPacket hash lan t p st = Inr (Accepted, st')"
  using assms by (rule addPacket_outcome)

lemma addPacket_outcomes_witness:
  "\<not> ifaceAllowed (\<lambda>_. 0) \<lparr> pi_clientId = ''c'', pi_iface = ''i2'', pi_src = [], pi_dst = [], pi_srcCountry = [],
      pi_dstCountry = [], pi_srcEntity = [], pi_dstEntity = [], pi_length = 1 \<rparr>
      ((TrafficStats_new 7 10 10 1)\<lparr> shards := (\<lambda>_. Shard0\<lparr> clientIfaces := [(''c'', [''i1''])] \<rparr>) \<rparr>) \<and>
   (\<exists>st'. addPacket (\<lambda>_. 0) (\<lambda>_. False) 0 \<lparr> pi_clientId = ''c'', pi_iface = ''i2'', pi_src = [], pi_dst = [],
      pi_srcCountry = [], pi_dstCountry = [], pi_srcEntity = [], pi_dstEntity = [], pi_length = 1 \<rparr>
      ((TrafficStats_new 7 10 10 1)\<lparr> shards := (\<lambda>_. Shard0\<lparr> clientIfaces := [(''c'', [''i1''])] \<rparr>) \<rparr>) =
      Inr (IfaceCapExceeded, st'))"
  (is "?not \<and> (\<exists>st'. addPacket ?h ?lan 0 ?p ?st = _)")
proof -
  have "stats_ok ?st"
    by (simp add: stats_ok_def TrafficStats_new_def shard_ok_def Shard0_def at_or_def)
  moreover have ?not
    by (simp add: ifaceAllowed_def TrafficStats_new_def Shard0_def at_or_def)
  ultimately show ?thesis using addPacket_outcomes [of ?st ?h ?p ?lan 0] by simp
qed

text \<open>
  C33.  \<open>purgeClient\<close> is exact: for client ids without \<open>|\<close> (they are hexadecimal), afterwards no
  bucket, interface set, rejection counter or history ring of the client is left, everything of
  every other client is as before, and the result says whether the client had totals.
\<close>

theorem purgeClient_exact:
  assumes "CHR ''|'' \<notin> set c" "CHR ''|'' \<notin> set c'" "purgeClient hash c st = (found, st')"
    and "sh = shards st (shardIndex hash c)" "sh' = shards st' (shardIndex hash c)"
  shows "length (dayBuckets sh') = length (dayBuckets sh) \<and>
    (\<forall>i < length (dayBuckets sh). \<forall>iface.
       at_or Counter0 (ciKey c' iface) (db_totals (dayBuckets sh' ! i)) =
         (if c' = c then Counter0 else at_or Counter0 (ciKey c' iface) (db_totals (dayBuckets sh ! i))) \<and>
       at_or [] (ciKey c' iface) (db_flows (dayBuckets sh' ! i)) =
         (if c' = c then [] else at_or [] (ciKey c' iface) (db_flows (dayBuckets sh ! i))) \<and>
       at_or [] (ciKey c' iface) (db_countryFlows (dayBuckets sh' ! i)) =
         (if c' = c then [] else at_or [] (ciKey c' iface) (db_countryFlows (dayBuckets sh ! i))) \<and>
       at_or [] (ciKey c' iface) (db_entityFlows (dayBuckets sh' ! i)) =
         (if c' = c then [] else at_or [] (ciKey c' iface) (db_entityFlows (dayBuckets sh ! i)))) \<and>
    map_of (clientIfaces sh') c' = (if c' = c then None else map_of (clientIfaces sh) c') \<and>
    map_of (ifaceRejectCount sh') c' = (if c' = c then None else map_of (ifaceRejectCount sh) c') \<and>
    map_of (clientHistory sh') c' = (if c' = c then None else map_of (clientHistory sh) c') \<and>
    (\<forall>i. i \<noteq> shardIndex hash c \<longrightarrow> shards st' i = shards st i) \<and>
    (found \<longleftrightarrow> (\<exists>b \<in> set (dayBuckets sh). \<exists>k. has_key k (db_totals b) \<and> ownKey c k))"
proof -
  have st': "st' = st\<lparr> shards := (shards st)(shardIndex hash c := resetClientInShard c sh) \<rparr>"
    and found: "found = list_ex (\<lambda>b. list_ex (\<lambda>(k, _). ownKey c k) (db_totals b)) (dayBuckets sh)"
    using assms(3,4) by (auto simp: purgeClient_def Let_def)
  have sh': "sh' = resetClientInShard c sh" using st' assms(5) by simp
  have "found \<longleftrightarrow> (\<exists>b \<in> set (dayBuckets sh). \<exists>k. has_key k (db_totals b) \<and> ownKey c k)"
    unfolding found by (force simp: list_ex_iff has_key_iff)
  then show ?thesis
    using assms(1,2) st'
    by (auto simp: sh' resetClientInShard_def purgeBucket_def map_of_erase)
qed

theorem purgeClient_exact_witness:
  "shards (snd (purgeClient (\<lambda>_. 0) ''ab'' (TrafficStats_new 7 10 10 4))) 3 = Shard0"
  using purgeClient_exact [of "''ab''" "''cd''" "\<lambda>_. 0" "TrafficStats_new 7 10 10 4", OF _ _ surjective_pairing refl refl]
  by (simp add: TrafficStats_new_def shardIndex_def)

text \<open>
  \<open>snapshot\<close> loses and invents nothing: for every key, the merged totals are the sum over
  all shards and all day buckets of that key's counters (in 64-bit arithmetic, as the code adds).
\<close>

lemma snapshot_totals:
  assumes "stats_ok st"
  shows "at_or Counter0 k (sn_totals (snapshot st)) =
    counterSum (\<lambda>b. at_or Counter0 k (db_totals b))
      (concat (map (\<lambda>i. dayBuckets (shards st i)) [0..<kShardCount]))"
proof -
  have "\<forall>sh \<in> set (map (shards st) [0..<kShardCount]). \<forall>b \<in> set (dayBuckets sh). keys_ok (db_totals b)"
    using assms by (auto simp: stats_ok_iff shard_ok_def bucket_ok_def)
  from snapShard_totals [OF this] show ?thesis
    by (simp add: snapshot_def addCounter_def counterSum_def comp_def)
qed

lemma snapshot_totals_witness:
  "packets (at_or Counter0 ''k'' (sn_totals (snapshot ((TrafficStats_new 7 10 10 4)\<lparr> shards := (\<lambda>_. Shard0\<lparr> dayBuckets :=
      [(DayBucket0 1)\<lparr> db_totals := [(''k'', \<lparr> packets = 2, octets = 100 \<rparr>)],
        db_countryFlows := [(''k'', [(\<lparr> fk_src = ''x'', fk_dst = ''y'' \<rparr>, \<lparr> packets = 2, octets = 100 \<rparr>)])] \<rparr>] \<rparr>) \<rparr>)))) = 32"
  (is "packets (at_or _ _ (sn_totals (snapshot ?st))) = _")
proof -
  have "stats_ok ?st"
    by (auto simp: stats_ok_def TrafficStats_new_def shard_ok_def Shard0_def bucket_ok_def DayBucket0_def
        entry_ok_def at_or_def)
  from snapshot_totals [OF this, of "''k''"] show ?thesis
    by (simp add: TrafficStats_new_def counterSum_def kShardCount_def upt_conv_Cons at_or_def)
qed

text \<open>
  The history that \<open>/api/client/history\<close> serves is ordered oldest to newest and no longer
  than asked for: strictly increasing minute buckets (at most \<open>min minutes 1440\<close>) when the clock
  is at least a day past the epoch, and increasing hour buckets (at most 168) for the full window.
\<close>

lemma snapshotHistory_sorted:
  assumes "86400 \<le> nowSec" "nowSec < 2 ^ 63"
    and "h = snapshotHistory hash nowSec c minutes st"
  shows "if minutes > 0
    then sorted_wrt (<) (map hb_t (hist_buckets h)) \<and> length (hist_buckets h) \<le> min (nat minutes) kMinuteSlots
    else sorted (map hb_t (hist_buckets h)) \<and> length (hist_buckets h) \<le> kHourSlots"
proof -
  have "unat (of_int nowSec :: u64) = nat nowSec"
    using assms(1,2) by (simp add: unsigned_of_int take_bit_int_eq_self)
  then have now: "unat (epochUnit 60 nowSec) = nat nowSec div 60"
    using assms(1) by (simp add: epochUnit_def unat_div)
  have "kMinuteSlots \<le> nat nowSec div 60" using assms(1) by (simp add: kMinuteSlots_def)
  then have "sorted_wrt (<) (map hb_t (minuteBuckets (min (nat minutes) kMinuteSlots) (epochUnit 60 nowSec) r))" for r
    using assms(2) by (intro minuteBuckets_sorted) (simp_all add: now)
  moreover have "length (minuteBuckets n m r) \<le> n" "length (hourBuckets r) \<le> kHourSlots" for n m r
    unfolding minuteBuckets_def hourBuckets_def by (rule length_concat_map_upt, simp add: Let_def)+
  ultimately show ?thesis
    by (simp add: assms(3) snapshotHistory_def Let_def split: option.splits del: min.bounded_iff)
qed

lemma snapshotHistory_sorted_witness:
  "sorted_wrt (<) (map hb_t (hist_buckets (snapshotHistory (\<lambda>_. 0) 90000 ''c'' 2
     ((TrafficStats_new 7 10 10 4)\<lparr> shards := (\<lambda>_. Shard0\<lparr> clientHistory :=
        [(''c'', ringAdd True 90000 40 (ringAdd False 89940 10 Ring0))] \<rparr>) \<rparr>))))"
  using snapshotHistory_sorted [OF _ _ refl, of 90000 2] by simp

end
