(* ===== verification/Lan.thy ===== *)
theory Lan
  imports Prelude
begin

text \<open>
  The LAN predicates: \<open>isLanIP\<close> of \<open>ntm_types.hpp\<close> (server) and \<open>isLanAddrV4\<close>/\<open>isLanAddrV6\<close> of
  \<open>client_core.cpp\<close> (client).  \<open>inet_pton\<close> is a parameter: \<open>pton4\<close> yields the four and \<open>pton6\<close>
  the sixteen address bytes in network order when it returns 1.
\<close>

section \<open>Definitions\<close>

definition ntohl :: "bytes \<Rightarrow> u32" where
  "ntohl b = of_nat (((unat (b ! 0) * 256 + unat (b ! 1)) * 256 + unat (b ! 2)) * 256 + unat (b ! 3))"

definition isLanAddrV4 :: "bytes \<Rightarrow> bool" where
  "isLanAddrV4 addr =
     (let n = ntohl addr in
      n AND 0xFF000000 = 0x7F000000 \<or> n AND 0xFF000000 = 0x0A000000 \<or>
      n AND 0xFFF00000 = 0xAC100000 \<or> n AND 0xFFFF0000 = 0xC0A80000)"

definition lo6 :: bytes where
  "lo6 = replicate 15 0 @ [1]"

definition isLanAddrV6 :: "bytes \<Rightarrow> bool" where
  "isLanAddrV6 addr =
     (if addr = lo6 then True
      else if addr ! 0 AND 0xFE = 0xFC then True
      else if addr ! 0 = 0xFE \<and> addr ! 1 AND 0xC0 = 0x80 then True
      else False)"

definition isLanIP :: "(string \<Rightarrow> bytes option) \<Rightarrow> (string \<Rightarrow> bytes option) \<Rightarrow> string \<Rightarrow> bool" where
  "isLanIP pton4 pton6 ip =
     (case pton4 ip of
        Some b4 \<Rightarrow>
          (let a = ntohl b4 in
           if a AND 0xFF000000 = 0x7F000000 then True
           else if a AND 0xFF000000 = 0x0A000000 then True
           else if a AND 0xFFF00000 = 0xAC100000 then True
           else if a AND 0xFFFF0000 = 0xC0A80000 then True
           else False)
      | None \<Rightarrow>
          (case pton6 ip of
             Some b6 \<Rightarrow>
               if b6 = lo6 then True
               else if b6 ! 0 AND 0xFE = 0xFC then True
               else if b6 ! 0 = 0xFE \<and> b6 ! 1 AND 0xC0 = 0x80 then True
               else False
           | None \<Rightarrow> False))"

text \<open>The address blocks, by octets: 127/8, 10/8, 172.16/12, 192.168/16; ::1, fc00::/7, fe80::/10.\<close>

definition lan4_block :: "bytes \<Rightarrow> bool" where
  "lan4_block b \<longleftrightarrow> unat (b ! 0) = 127 \<or> unat (b ! 0) = 10 \<or>
     unat (b ! 0) = 172 \<and> 16 \<le> unat (b ! 1) \<and> unat (b ! 1) \<le> 31 \<or>
     unat (b ! 0) = 192 \<and> unat (b ! 1) = 168"

definition lan6_block :: "bytes \<Rightarrow> bool" where
  "lan6_block b \<longleftrightarrow> b = lo6 \<or> unat (b ! 0) div 2 = 0xFC div 2 \<or>
     unat (b ! 0) = 0xFE \<and> unat (b ! 1) div 64 = 0x80 div 64"

section \<open>Lemmas\<close>

lemma and_not_mask: "(w :: 'a::len word) AND NOT (mask n) = push_bit n (drop_bit n w)"
  by (rule bit_word_eqI) (auto simp: bit_simps)

lemma unat_push_drop: "unat (push_bit n (drop_bit n (w :: 'a::len word))) = unat w div 2 ^ n * 2 ^ n"
proof -
  have "unat w div 2 ^ n * 2 ^ n \<le> unat w" by simp
  also have "unat w < 2 ^ LENGTH('a)" by (rule unsigned_less)
  finally have "take_bit LENGTH('a) (unat w div 2 ^ n * 2 ^ n) = unat w div 2 ^ n * 2 ^ n"
    by (rule take_bit_nat_eq_self)
  moreover have "take_bit LENGTH('a) (unat w) = unat w"
    by (rule take_bit_nat_eq_self) (rule unsigned_less)
  ultimately show ?thesis
    by (simp add: unsigned_push_bit_eq unsigned_drop_bit_eq push_bit_eq_mult [of n "_ :: nat"]
        drop_bit_eq_div [of n "_ :: nat"])
qed

lemma and_prefix_iff:
  fixes w k :: "'a::len word"
  assumes "m = NOT (mask n)" "unat k = p * 2 ^ n"
  shows "w AND m = k \<longleftrightarrow> unat w div 2 ^ n = p"
  unfolding assms(1) and_not_mask word_unat_eq_iff unat_push_drop assms(2) by simp

lemma unat_ntohl:
  "unat (ntohl b) = ((unat (b ! 0) * 256 + unat (b ! 1)) * 256 + unat (b ! 2)) * 256 + unat (b ! 3)"
proof -
  have "((unat (b ! 0) * 256 + unat (b ! 1)) * 256 + unat (b ! 2)) * 256 + unat (b ! 3) < 2 ^ LENGTH(32)"
    using unat_byte_less [of "b ! 0"] unat_byte_less [of "b ! 1"] unat_byte_less [of "b ! 2"]
      unat_byte_less [of "b ! 3"] by simp
  from take_bit_nat_eq_self [OF this] show ?thesis
    by (simp only: ntohl_def unsigned_of_nat of_nat_id)
qed

lemma lan4_masks:
  "(w :: u32) AND 0xFF000000 = 0x7F000000 \<longleftrightarrow> unat w div 2 ^ 24 = 127"
  "w AND 0xFF000000 = 0x0A000000 \<longleftrightarrow> unat w div 2 ^ 24 = 10"
  "w AND 0xFFF00000 = 0xAC100000 \<longleftrightarrow> unat w div 2 ^ 20 = 0xAC1"
  "w AND 0xFFFF0000 = 0xC0A80000 \<longleftrightarrow> unat w div 2 ^ 16 = 0xC0A8"
  by (rule and_prefix_iff; simp add: mask_eq_exp_minus_1)+

lemma lan6_masks:
  "(w :: byte) AND 0xFE = 0xFC \<longleftrightarrow> unat w div 2 ^ 1 = 0xFC div 2"
  "w AND 0xC0 = 0x80 \<longleftrightarrow> unat w div 2 ^ 6 = 0x80 div 64"
  by (rule and_prefix_iff; simp add: mask_eq_exp_minus_1)+

lemma ntohl_prefixes:
  "unat (ntohl b) div 2 ^ 24 = unat (b ! 0)"
  "unat (ntohl b) div 2 ^ 20 = unat (b ! 0) * 16 + unat (b ! 1) div 16"
  "unat (ntohl b) div 2 ^ 16 = unat (b ! 0) * 256 + unat (b ! 1)"
proof -
  have lt: "unat (b ! 1) < 256" "unat (b ! 2) < 256" "unat (b ! 3) < 256" by (rule unat_byte_less)+
  have b: "unat (b ! 1) = 16 * (unat (b ! 1) div 16) + unat (b ! 1) mod 16" "unat (b ! 1) mod 16 < 16"
    by simp_all
  show "unat (ntohl b) div 2 ^ 24 = unat (b ! 0)"
    by (rule div_nat_eqI) (use lt in \<open>simp_all add: unat_ntohl\<close>)
  show "unat (ntohl b) div 2 ^ 20 = unat (b ! 0) * 16 + unat (b ! 1) div 16"
    by (rule div_nat_eqI) (use lt b in \<open>simp_all only: unat_ntohl, simp_all\<close>)
  show "unat (ntohl b) div 2 ^ 16 = unat (b ! 0) * 256 + unat (b ! 1)"
    by (rule div_nat_eqI) (use lt in \<open>simp_all add: unat_ntohl\<close>)
qed

lemma split_digit:
  fixes x y q m :: nat
  assumes "y < m"
  shows "x * m + y = q \<longleftrightarrow> x = q div m \<and> y = q mod m"
  using assms by auto

lemma octets_12_bits: "y < 256 \<Longrightarrow> x * 16 + y div 16 = 0xAC1 \<longleftrightarrow> x = 172 \<and> 16 \<le> y \<and> y \<le> (31 :: nat)"
  by (subst split_digit) auto

lemma octets_16_bits: "y < 256 \<Longrightarrow> x * 256 + y = 0xC0A8 \<longleftrightarrow> x = 192 \<and> y = (168 :: nat)"
  by (subst split_digit) auto

lemma isLanAddrV4_iff: "isLanAddrV4 b \<longleftrightarrow> lan4_block b"
proof -
  have lt: "unat (b ! 0) < 256" "unat (b ! 1) < 256" by (rule unat_byte_less)+
  have "unat (b ! 0) * 16 + unat (b ! 1) div 16 = 0xAC1 \<longleftrightarrow>
      unat (b ! 0) = 172 \<and> 16 \<le> unat (b ! 1) \<and> unat (b ! 1) \<le> 31"
    using lt octets_12_bits by blast
  moreover have "unat (b ! 0) * 256 + unat (b ! 1) = 0xC0A8 \<longleftrightarrow> unat (b ! 0) = 192 \<and> unat (b ! 1) = 168"
    using lt octets_16_bits by blast
  ultimately show ?thesis
    unfolding isLanAddrV4_def Let_def lan4_masks ntohl_prefixes lan4_block_def by simp
qed

lemma isLanAddrV6_iff: "isLanAddrV6 b \<longleftrightarrow> lan6_block b"
  unfolding isLanAddrV6_def lan6_block_def lan6_masks by (auto simp: word_unat_eq_iff)

lemma isLanIP_cases:
  "isLanIP pton4 pton6 ip =
     (case pton4 ip of Some b \<Rightarrow> isLanAddrV4 b
      | None \<Rightarrow> (case pton6 ip of Some b \<Rightarrow> isLanAddrV6 b | None \<Rightarrow> False))"
  by (auto simp: isLanIP_def isLanAddrV4_def isLanAddrV6_def Let_def split: option.splits)

section \<open>Properties\<close>

text \<open>
  The server's \<open>isLanIP\<close> answers true exactly for the addresses of the private, loopback,
  unique-local and link-local blocks, octet by octet, false for a string that \<open>inet_pton\<close> rejects,
  and agrees with the client's \<open>isLanAddrV4\<close> and \<open>isLanAddrV6\<close> on every address.
\<close>

lemma isLanIP_blocks:
  "isLanIP pton4 pton6 ip =
     (case pton4 ip of Some b \<Rightarrow> lan4_block b
      | None \<Rightarrow> (case pton6 ip of Some b \<Rightarrow> lan6_block b | None \<Rightarrow> False)) \<and>
   isLanAddrV4 b4 = lan4_block b4 \<and> isLanAddrV6 b6 = lan6_block b6"
  by (simp add: isLanIP_cases isLanAddrV4_iff isLanAddrV6_iff split: option.splits)

end
