(* ===== verification/DataLoop.thy ===== *)
theory DataLoop
  imports Registry Traffic Lan
begin

text \<open>
  The server's ingestion loop \<open>runWireDataLoop\<close> (\<open>server_core.cpp\<close>): a session receives chunks of
  bytes, inflates them if compression was negotiated, cuts them into lines and applies every line to
  the shared state (registry, traffic store, control channels, update registry).

  One round of the loop is a \<^emph>\<open>tick\<close>: the clock readings, whether the server is still running, and
  what \<open>recvFn\<close> returned.  The clock is read once per line, so a tick carries the readings by line
  number.  The IP database, the zlib inflater and \<open>inet_pton\<close> are arguments.  The registries are
  always present, as \<open>runServer\<close> creates them.
\<close>

section \<open>State\<close>

record LoopConfig =
  max_recv_buffer_bytes :: nat
  idle_timeout_seconds :: int
  max_iface_len :: nat
  max_ip_len :: nat
  max_d_lines_per_second :: nat

text \<open>\<open>countryFor\<close> and \<open>entityFor\<close> of the current IP database, if one is loaded.\<close>

record LineEnv =
  le_clientId :: string
  le_clientIp :: string
  le_hash :: "string \<Rightarrow> u64"
  le_isLanIP :: "string \<Rightarrow> bool"
  le_parsesAsIp :: "string \<Rightarrow> bool"
  le_resolver :: "((string \<Rightarrow> string) \<times> (string \<Rightarrow> string)) option"

record Session =
  s_buffer :: string
  announcedCount :: nat
  localExternalIp :: string
  lastXLineSec :: int
  localRegSnap :: "(string \<times> string) list"
  lastRegRefresh :: int
  lastActivity :: int
  lastDLineSecond :: int
  dLineCountThisSecond :: nat
  ifaceRejectedInThisSession :: nat

record World =
  w_registry :: ClientRegistry
  w_stats :: TrafficStats
  w_channels :: ClientControlChannels
  w_updates :: ClientUpdateRegistry

definition Session0 :: "int \<Rightarrow> World \<Rightarrow> Session" where
  "Session0 now w = \<lparr> s_buffer = [], announcedCount = 0, localExternalIp = kExtIPNull, lastXLineSec = -1,
     localRegSnap = ipToClientId (w_registry w), lastRegRefresh = now, lastActivity = now,
     lastDLineSecond = -1, dLineCountThisSecond = 0, ifaceRejectedInThisSession = 0 \<rparr>"

section \<open>Lines\<close>

definition kUnknownCountry :: string where "kUnknownCountry = ''??''"
definition kUnknownEntity :: string where "kUnknownEntity = ''AS??''"

definition isAnnounceTail :: "char \<Rightarrow> bool" where
  "isAnnounceTail c \<longleftrightarrow> c = CR \<or> c = SP"

definition handleX :: "LineEnv \<Rightarrow> int \<Rightarrow> string \<Rightarrow> Session \<Rightarrow> World \<Rightarrow> Session \<times> World" where
  "handleX env steady line s w =
     (if steady - lastXLineSec s \<ge> kAnnounceRateLimitSec
      then let extIp = rtrim isAnnounceTail (drop 2 line) in
           if extIp = kExtIPNull \<or> le_parsesAsIp env extIp
           then let reg = announceExternal (le_clientId env) (le_clientIp env) extIp (w_registry w) in
                (s\<lparr> lastXLineSec := steady, announcedCount := 0, localRegSnap := ipToClientId reg,
                    localExternalIp := extIp, lastRegRefresh := steady \<rparr>,
                 w\<lparr> w_registry := reg \<rparr>)
           else (s, w)
      else (s, w))"

definition handleA :: "LoopConfig \<Rightarrow> LineEnv \<Rightarrow> string \<Rightarrow> Session \<Rightarrow> World \<Rightarrow> Session \<times> World" where
  "handleA cfg env line s w =
     (if announcedCount s < kMaxAnnounceAddressesPerSession
      then let ip = rtrim isAnnounceTail (drop 2 line) in
           if ip \<noteq> [] \<and> length ip \<le> max_ip_len cfg \<and> le_isLanIP env ip
           then (s\<lparr> localRegSnap := AList.update ip (le_clientId env) (localRegSnap s),
                    announcedCount := announcedCount s + 1 \<rparr>,
                 w\<lparr> w_registry := (w_registry w)\<lparr> ipToClientId :=
                      AList.update ip (le_clientId env) (ipToClientId (w_registry w)) \<rparr> \<rparr>)
           else (s, w)
      else (s, w))"

definition countryOf :: "LineEnv \<Rightarrow> string \<Rightarrow> string" where
  "countryOf env ip = (case le_resolver env of None \<Rightarrow> kUnknownCountry | Some (c, _) \<Rightarrow> c ip)"

definition entityForIp :: "LineEnv \<Rightarrow> Session \<Rightarrow> string \<Rightarrow> string" where
  "entityForIp env s ip =
     (if le_isLanIP env ip
      then (case map_of (localRegSnap s) ip of
              Some c \<Rightarrow> c
            | None \<Rightarrow> ''@['' @ localExternalIp s @ '']:'' @ ip)
      else (case le_resolver env of Some (_, e) \<Rightarrow> e ip | None \<Rightarrow> kUnknownEntity @ '' '' @ ip))"

definition packetOf :: "LineEnv \<Rightarrow> Session \<Rightarrow> PacketMeta \<Rightarrow> PacketInfo" where
  "packetOf env s meta =
     \<lparr> pi_clientId = le_clientId env, pi_iface = pm_iface meta, pi_src = pm_srcIp meta,
       pi_dst = pm_dstIp meta, pi_srcCountry = countryOf env (pm_srcIp meta),
       pi_dstCountry = countryOf env (pm_dstIp meta), pi_srcEntity = entityForIp env s (pm_srcIp meta),
       pi_dstEntity = entityForIp env s (pm_dstIp meta), pi_length = pm_bytes meta \<rparr>"

definition countDLine :: "int \<Rightarrow> Session \<Rightarrow> Session" where
  "countDLine steady s =
     (let s1 = (if steady \<noteq> lastDLineSecond s
                then s\<lparr> lastDLineSecond := steady, dLineCountThisSecond := 0 \<rparr> else s)
      in s1\<lparr> dLineCountThisSecond := dLineCountThisSecond s1 + 1 \<rparr>)"

definition handleD :: "LoopConfig \<Rightarrow> LineEnv \<Rightarrow> int \<Rightarrow> int \<Rightarrow> string \<Rightarrow> Session \<Rightarrow> World \<Rightarrow>
    TrafficError + Session \<times> World" where
  "handleD cfg env steady system line s w =
     (case parseDataLine (drop 2 line) (max_iface_len cfg) (max_ip_len cfg) of
        None \<Rightarrow> Inr (s, w)
      | Some meta \<Rightarrow>
          (let s1 = countDLine steady s in
           if dLineCountThisSecond s1 > max_d_lines_per_second cfg then Inr (s1, w)
           else (case addPacket (le_hash env) (le_isLanIP env) system (packetOf env s1 meta) (w_stats w) of
                   Inl e \<Rightarrow> Inl e
                 | Inr (r, st) \<Rightarrow>
                     Inr (if r = IfaceCapExceeded
                          then s1\<lparr> ifaceRejectedInThisSession := ifaceRejectedInThisSession s1 + 1 \<rparr> else s1,
                          w\<lparr> w_stats := st \<rparr>))))"

definition handleH :: "LineEnv \<Rightarrow> int \<Rightarrow> string \<Rightarrow> World \<Rightarrow> World" where
  "handleH env system line w =
     w\<lparr> w_registry := setHealth (le_clientId env)
          ((parseHealthLine (drop 2 line))\<lparr> reportedAtSec := system \<rparr>) (w_registry w) \<rparr>"

definition handleL :: "LineEnv \<Rightarrow> int \<Rightarrow> string \<Rightarrow> World \<Rightarrow> World" where
  "handleL env steady line w =
     (let lBody = drop 2 line in
      if starts_with ''upd '' lBody
      then w\<lparr> w_updates := applyUpd (le_clientId env) (drop 4 lBody) steady (w_updates w) \<rparr>
      else (case channelGet (le_clientId env) (w_channels w) of
              None \<Rightarrow> w
            | Some ch \<Rightarrow> w\<lparr> w_channels := AList.update (le_clientId env) (routeLLine lBody ch) (w_channels w) \<rparr>))"

definition processLine :: "LoopConfig \<Rightarrow> LineEnv \<Rightarrow> int \<Rightarrow> int \<Rightarrow> string \<Rightarrow> Session \<times> World \<Rightarrow>
    TrafficError + Session \<times> World" where
  "processLine cfg env steady system line sw =
     (let (s, w) = sw in
      if starts_with kExtIPLinePrefix line then Inr (handleX env steady line s w)
      else if starts_with kAddrLinePrefix line then Inr (handleA cfg env line s w)
      else if length line \<ge> 2 \<and> line ! 0 = CHR ''D'' \<and> line ! 1 = SP
        then handleD cfg env steady system line s w
      else if starts_with kHealthLinePrefix line then Inr (s, handleH env system line w)
      else if starts_with kLogRespLinePrefix line then Inr (s, handleL env steady line w)
      else Inr (s, w))"

text \<open>The \<open>while (true)\<close> loop over the receive buffer: its complete lines and what is left.\<close>

function splitNl :: "string \<Rightarrow> string list \<times> string" where
  "splitNl buf =
     (case find_ch LF buf of
        None \<Rightarrow> ([], buf)
      | Some nl \<Rightarrow> (case splitNl (drop (nl + 1) buf) of (ls, r) \<Rightarrow> (take nl buf # ls, r)))"
  by pat_completeness auto
termination
  by (relation "measure length") (auto dest: find_ch_Some)

declare splitNl.simps [simp del]

fun processLines :: "LoopConfig \<Rightarrow> LineEnv \<Rightarrow> (nat \<Rightarrow> int) \<Rightarrow> (nat \<Rightarrow> int) \<Rightarrow> nat \<Rightarrow> string list \<Rightarrow>
    Session \<times> World \<Rightarrow> TrafficError + Session \<times> World" where
  "processLines cfg env steady system i [] sw = Inr sw"
| "processLines cfg env steady system i (l # ls) sw =
     (case processLine cfg env (steady i) (system i) l sw of
        Inl e \<Rightarrow> Inl e
      | Inr sw' \<Rightarrow> processLines cfg env steady system (i + 1) ls sw')"

section \<open>The loop\<close>

datatype RecvResult = RecvNothing | RecvClosed | RecvData string

record Tick =
  tk_running :: bool
  tk_now :: int
  tk_recv :: RecvResult
  tk_steady :: "nat \<Rightarrow> int"
  tk_system :: "nat \<Rightarrow> int"

datatype 'z LoopResult = Going Session World 'z | Ended Session World | Undefined TrafficError

definition refreshSnap :: "LineEnv \<Rightarrow> int \<Rightarrow> World \<Rightarrow> Session \<Rightarrow> Session" where
  "refreshSnap env now w s =
     (if now - lastRegRefresh s \<ge> 5
      then s\<lparr> localRegSnap := ipToClientId (w_registry w),
              localExternalIp := at_or (localExternalIp s) (le_clientId env) (clientToExternalIp (w_registry w)),
              lastRegRefresh := now \<rparr>
      else s)"

text \<open>\<open>inflate z bytes\<close> is \<open>ZlibInflater::feed\<close>; \<open>None\<close> its failure.  Without compression it is
  \<open>noInflate\<close>.\<close>

definition noInflate :: "unit \<Rightarrow> string \<Rightarrow> (string \<times> unit) option" where
  "noInflate z b = Some (b, z)"

definition loopTick :: "LoopConfig \<Rightarrow> LineEnv \<Rightarrow> ('z \<Rightarrow> string \<Rightarrow> (string \<times> 'z) option) \<Rightarrow> int \<Rightarrow> Tick \<Rightarrow>
    Session \<Rightarrow> World \<Rightarrow> 'z \<Rightarrow> 'z LoopResult" where
  "loopTick cfg env inflate sessionStart tk s w z =
     (if \<not> tk_running tk then Ended s w
      else if max 0 (tk_now tk - sessionStart) \<ge> kMaxSessionSeconds then Ended s w
      else if tk_now tk - lastActivity s \<ge> idle_timeout_seconds cfg then Ended s w
      else let s1 = refreshSnap env (tk_now tk) w s in
           case tk_recv tk of
             RecvNothing \<Rightarrow> Going s1 w z
           | RecvClosed \<Rightarrow> Ended s1 w
           | RecvData d \<Rightarrow>
               (let s2 = s1\<lparr> lastActivity := tk_now tk \<rparr> in
                case inflate z d of
                  None \<Rightarrow> Ended s2 w
                | Some (bytes, z') \<Rightarrow>
                    (let buf = s_buffer s2 @ bytes in
                     if length buf > max_recv_buffer_bytes cfg then Ended (s2\<lparr> s_buffer := buf \<rparr>) w
                     else case splitNl buf of (ls, rest) \<Rightarrow>
                       (case processLines cfg env (tk_steady tk) (tk_system tk) 0 ls (s2, w) of
                          Inl e \<Rightarrow> Undefined e
                        | Inr (s3, w3) \<Rightarrow> Going (s3\<lparr> s_buffer := rest \<rparr>) w3 z'))))"

fun runWireDataLoop :: "LoopConfig \<Rightarrow> LineEnv \<Rightarrow> ('z \<Rightarrow> string \<Rightarrow> (string \<times> 'z) option) \<Rightarrow> int \<Rightarrow> Tick list \<Rightarrow>
    Session \<Rightarrow> World \<Rightarrow> 'z \<Rightarrow> 'z LoopResult" where
  "runWireDataLoop cfg env inflate start [] s w z = Going s w z"
| "runWireDataLoop cfg env inflate start (tk # tks) s w z =
     (case loopTick cfg env inflate start tk s w z of
        Going s' w' z' \<Rightarrow> runWireDataLoop cfg env inflate start tks s' w' z'
      | r \<Rightarrow> r)"

text \<open>A whole session after authentication: registration, control channel, loop, and the clean-up
  guards that run on every way out.\<close>

definition openSession :: "LineEnv \<Rightarrow> World \<Rightarrow> World" where
  "openSession env w = w\<lparr> w_registry := registerSession (le_clientId env) (le_clientIp env) (w_registry w),
     w_channels := channelAdd (le_clientId env) ClientCtrlChannel0 (w_channels w) \<rparr>"

definition closeSession :: "LineEnv \<Rightarrow> World \<Rightarrow> World" where
  "closeSession env w = w\<lparr> w_registry := removeClient (le_clientId env) (w_registry w),
     w_channels := channelRemove (le_clientId env) (w_channels w) \<rparr>"

section \<open>Lemmas: lines\<close>

lemma splitNl_None: "LF \<notin> set buf \<Longrightarrow> splitNl buf = ([], buf)"
  by (subst splitNl.simps) (simp add: find_ch_None [THEN iffD2])

lemma splitNl_line: "LF \<notin> set l \<Longrightarrow> splitNl (l @ LF # r) = (l # fst (splitNl r), snd (splitNl r))"
  by (subst splitNl.simps) (simp add: find_ch_append split: prod.splits)

text \<open>Every buffer is a number of complete lines and a rest without a line feed.\<close>

lemma splitNl_induct [case_names rest line]:
  assumes "\<And>r. LF \<notin> set r \<Longrightarrow> P r" "\<And>l r. LF \<notin> set l \<Longrightarrow> P r \<Longrightarrow> P (l @ LF # r)"
  shows "P buf"
proof (induction buf rule: length_induct)
  case (1 buf)
  show ?case
  proof (cases "LF \<in> set buf")
    case True
    then obtain l r where "buf = l @ LF # r" "LF \<notin> set l" by (meson split_list_first)
    with 1 assms(2) [of l r] show ?thesis by simp
  next
    case False
    then show ?thesis by (rule assms(1))
  qed
qed

lemma splitNl_append:
  "splitNl (a @ c) = (fst (splitNl a) @ fst (splitNl (snd (splitNl a) @ c)), snd (splitNl (snd (splitNl a) @ c)))"
proof (induction a rule: splitNl_induct)
  case (rest r)
  then show ?case by (simp add: splitNl_None)
next
  case (line l r)
  then show ?case by (simp add: splitNl_line)
qed

lemma splitNl_rest_idem: "splitNl (snd (splitNl a)) = ([], snd (splitNl a))"
  by (induction a rule: splitNl_induct) (simp_all add: splitNl_None splitNl_line)

lemma length_splitNl_rest: "length (snd (splitNl a)) \<le> length a"
  by (induction a rule: splitNl_induct) (simp_all add: splitNl_None splitNl_line)

text \<open>The handlers do not look at the receive buffer.\<close>

definition with_buffer :: "string \<Rightarrow> TrafficError + Session \<times> World \<Rightarrow> TrafficError + Session \<times> World" where
  "with_buffer b r = map_sum id (map_prod (\<lambda>s. s\<lparr> s_buffer := b \<rparr>) id) r"

lemma with_buffer_simps [simp]:
  "with_buffer b (Inl e) = Inl e" "with_buffer b (Inr (s, w)) = Inr (s\<lparr> s_buffer := b \<rparr>, w)"
  by (simp_all add: with_buffer_def)

lemma countDLine_buffer [simp]: "countDLine a (s\<lparr> s_buffer := b \<rparr>) = (countDLine a s)\<lparr> s_buffer := b \<rparr>"
  by (simp add: countDLine_def Let_def)

lemma entityForIp_buffer [simp]: "entityForIp env (s\<lparr> s_buffer := b \<rparr>) ip = entityForIp env s ip"
  by (simp add: entityForIp_def split: option.splits)

lemma packetOf_buffer [simp]: "packetOf env (s\<lparr> s_buffer := b \<rparr>) m = packetOf env s m"
  by (simp add: packetOf_def)

lemma processLine_buffer:
  "processLine cfg env a y l (s\<lparr> s_buffer := b \<rparr>, w) = with_buffer b (processLine cfg env a y l (s, w))"
  by (auto simp: processLine_def handleX_def handleA_def handleD_def Let_def
      split: option.splits sum.splits prod.splits)

lemma processLines_buffer:
  "processLines cfg env f g i ls (s\<lparr> s_buffer := b \<rparr>, w) = with_buffer b (processLines cfg env f g i ls (s, w))"
proof (induction ls arbitrary: i s w)
  case (Cons l ls)
  then show ?case
    by (cases "processLine cfg env (f i) (g i) l (s, w)") (auto simp: processLine_buffer)
qed simp

lemma processLines_append:
  "processLines cfg env (\<lambda>_. a) (\<lambda>_. y) i (ls @ ls') sw =
    (case processLines cfg env (\<lambda>_. a) (\<lambda>_. y) i ls sw of Inl e \<Rightarrow> Inl e
     | Inr sw' \<Rightarrow> processLines cfg env (\<lambda>_. a) (\<lambda>_. y) 0 ls' sw')"
proof -
  have "processLines cfg env (\<lambda>_. a) (\<lambda>_. y) i ls' sw = processLines cfg env (\<lambda>_. a) (\<lambda>_. y) j ls' sw" for i j sw
    by (induction ls' arbitrary: i j sw) (auto split: sum.splits)
  then show ?thesis
    by (induction ls arbitrary: i sw) (auto split: sum.splits)
qed

section \<open>Lemmas: chunks\<close>

text \<open>Within one second of the clock, with a fresh snapshot of the registry.\<close>

definition steady_at :: "int \<Rightarrow> Session \<Rightarrow> bool" where
  "steady_at t s \<longleftrightarrow> lastActivity s = t \<and> t - lastRegRefresh s < 5"

lemma processLine_steady_at:
  "steady_at t s \<Longrightarrow> processLine cfg env t y l (s, w) = Inr (s', w') \<Longrightarrow> steady_at t s'"
  by (auto simp: processLine_def handleX_def handleA_def handleD_def countDLine_def Let_def steady_at_def
      split: option.splits sum.splits prod.splits if_splits)

lemma processLines_steady_at:
  "steady_at t s \<Longrightarrow> processLines cfg env (\<lambda>_. t) g i ls (s, w) = Inr (s', w') \<Longrightarrow> steady_at t s'"
proof (induction ls arbitrary: i s w)
  case (Cons l ls)
  then show ?case
    by (auto split: sum.splits dest: processLine_steady_at)
qed simp

definition dataTick :: "int \<Rightarrow> int \<Rightarrow> string \<Rightarrow> Tick" where
  "dataTick t y d = \<lparr> tk_running = True, tk_now = t, tk_recv = RecvData d, tk_steady = (\<lambda>_. t),
     tk_system = (\<lambda>_. y) \<rparr>"

definition loop_result :: "string \<Rightarrow> TrafficError + Session \<times> World \<Rightarrow> unit LoopResult" where
  "loop_result rest r =
     (case r of Inl e \<Rightarrow> Undefined e | Inr (s, w) \<Rightarrow> Going (s\<lparr> s_buffer := rest \<rparr>) w ())"

lemma loopTick_data:
  assumes "steady_at t s" "start \<le> t" "t - start < kMaxSessionSeconds" "0 < idle_timeout_seconds cfg"
    "length (s_buffer s @ d) \<le> max_recv_buffer_bytes cfg"
  shows "loopTick cfg env noInflate start (dataTick t y d) s w () =
    loop_result (snd (splitNl (s_buffer s @ d)))
      (processLines cfg env (\<lambda>_. t) (\<lambda>_. y) 0 (fst (splitNl (s_buffer s @ d))) (s, w))"
proof -
  have "refreshSnap env t w s = s" "s\<lparr> lastActivity := t \<rparr> = s"
    using assms(1) by (simp_all add: refreshSnap_def steady_at_def)
  with assms show ?thesis
    by (auto simp: loopTick_def dataTick_def loop_result_def steady_at_def noInflate_def Let_def split: prod.splits sum.splits)
qed

lemma loop_result_splits:
  "loop_result rest r = Undefined e \<longleftrightarrow> r = Inl e"
  by (auto simp: loop_result_def split: sum.splits prod.splits)

lemma runWireDataLoop_chunks:
  assumes "start \<le> t" "t - start < kMaxSessionSeconds" "0 < idle_timeout_seconds cfg"
  shows "steady_at t s \<Longrightarrow> splitNl (s_buffer s) = ([], s_buffer s) \<Longrightarrow>
    length (s_buffer s @ concat ds) \<le> max_recv_buffer_bytes cfg \<Longrightarrow>
    runWireDataLoop cfg env noInflate start (map (dataTick t y) ds) s w () =
    loop_result (snd (splitNl (s_buffer s @ concat ds)))
      (processLines cfg env (\<lambda>_. t) (\<lambda>_. y) 0 (fst (splitNl (s_buffer s @ concat ds))) (s, w))"
proof (induction ds arbitrary: s w)
  case Nil
  then show ?case by (simp add: loop_result_def)
next
  case (Cons d ds)
  let ?ls = "fst (splitNl (s_buffer s @ d))" and ?r = "snd (splitNl (s_buffer s @ d))"
  have tick: "loopTick cfg env noInflate start (dataTick t y d) s w () =
      loop_result ?r (processLines cfg env (\<lambda>_. t) (\<lambda>_. y) 0 ?ls (s, w))"
    using Cons.prems assms by (intro loopTick_data) auto
  have app: "splitNl (s_buffer s @ d @ concat ds) = (?ls @ fst (splitNl (?r @ concat ds)), snd (splitNl (?r @ concat ds)))"
    using splitNl_append [of "s_buffer s @ d" "concat ds"] by simp
  show ?case
  proof (cases "processLines cfg env (\<lambda>_. t) (\<lambda>_. y) 0 ?ls (s, w)")
    case (Inl e)
    then show ?thesis by (simp add: tick app processLines_append loop_result_def)
  next
    case (Inr sw)
    obtain s1 w1 where sw: "sw = (s1, w1)" by fastforce
    have "steady_at t (s1\<lparr> s_buffer := ?r \<rparr>)"
      using processLines_steady_at [OF Cons.prems(1), of cfg env _ 0 ?ls w] Inr sw
      by (auto simp: steady_at_def)
    moreover have "length (?r @ concat ds) \<le> max_recv_buffer_bytes cfg"
      using length_splitNl_rest [of "s_buffer s @ d"] Cons.prems(3) by simp
    ultimately have "runWireDataLoop cfg env noInflate start (map (dataTick t y) ds) (s1\<lparr> s_buffer := ?r \<rparr>) w1 () =
      loop_result (snd (splitNl (?r @ concat ds)))
        (processLines cfg env (\<lambda>_. t) (\<lambda>_. y) 0 (fst (splitNl (?r @ concat ds))) (s1\<lparr> s_buffer := ?r \<rparr>, w1))"
      using Cons.IH [of "s1\<lparr> s_buffer := ?r \<rparr>" w1] splitNl_rest_idem by simp
    then show ?thesis
      by (cases "processLines cfg env (\<lambda>_. t) (\<lambda>_. y) 0 (fst (splitNl (?r @ concat ds))) (s1, w1)")
        (auto simp: tick Inr sw app processLines_append processLines_buffer loop_result_def)
  qed
qed

section \<open>Lemmas: what a line can change\<close>

definition isDLine :: "string \<Rightarrow> bool" where
  "isDLine l \<longleftrightarrow> length l \<ge> 2 \<and> l ! 0 = CHR ''D'' \<and> l ! 1 = SP"

lemma processLine_D:
  assumes "isDLine l"
  shows "processLine cfg env a y l (s, w) = handleD cfg env a y l s w"
proof -
  obtain r where "l = CHR ''D'' # SP # r"
    using assms by (cases l; cases "tl l") (auto simp: isDLine_def)
  then show ?thesis by (simp add: processLine_def starts_with_def wire_prefix_defs)
qed

text \<open>The shared state of all clients but \<open>c\<close>.\<close>

definition same_for_others :: "(string \<Rightarrow> u64) \<Rightarrow> string \<Rightarrow> World \<Rightarrow> World \<Rightarrow> bool" where
  "same_for_others hash c w w' \<longleftrightarrow>
     (\<forall>c'. c' \<noteq> c \<longrightarrow>
        map_of (clientHealth (w_registry w')) c' = map_of (clientHealth (w_registry w)) c' \<and>
        map_of (clientToExternalIp (w_registry w')) c' = map_of (clientToExternalIp (w_registry w)) c' \<and>
        map_of (w_updates w') c' = map_of (w_updates w) c' \<and>
        map_of (w_channels w') c' = map_of (w_channels w) c' \<and>
        (shardIndex hash c' \<noteq> shardIndex hash c \<longrightarrow>
           shards (w_stats w') (shardIndex hash c') = shards (w_stats w) (shardIndex hash c'))) \<and>
     (\<forall>ip. map_of (ipToClientId (w_registry w')) ip = map_of (ipToClientId (w_registry w)) ip \<or>
        map_of (ipToClientId (w_registry w)) ip = Some c \<or>
        map_of (ipToClientId (w_registry w')) ip = Some c)"

lemma same_for_others_refl [simp]: "same_for_others hash c w w"
  by (simp add: same_for_others_def)

lemma applyUpdLine_other: "c' \<noteq> c \<Longrightarrow> map_of (snd (applyUpdLine c q st er nv tm now u)) c' = map_of u c'"
  by (auto simp: applyUpdLine_def map_of_update split: option.splits)

lemma applyUpd_other: "c' \<noteq> c \<Longrightarrow> map_of (applyUpd c rest now u) c' = map_of u c'"
  by (auto simp: applyUpd_def Let_def applyUpdLine_other split: option.splits prod.splits)

lemma addPacket_other_shard:
  "addPacket hash lan t p st = Inr (r, st') \<Longrightarrow> i \<noteq> shardIndex hash (pi_clientId p) \<Longrightarrow> shards st' i = shards st i"
  by (auto elim: addPacket_InrD)

lemma processLine_others:
  assumes "keys_ok (ipToClientId (w_registry w))"
    and "processLine cfg env a y l (s, w) = Inr (s', w')"
  shows "same_for_others (le_hash env) (le_clientId env) w w'"
proof -
  note k = map_of_erase_if [OF assms(1)]
  have X: "same_for_others (le_hash env) (le_clientId env) w (snd (handleX env a l s w))"
    by (auto simp: handleX_def announceExternal_def same_for_others_def map_of_update map_of_erase k Let_def
        split: option.splits)
  have A: "same_for_others (le_hash env) (le_clientId env) w (snd (handleA cfg env l s w))"
    by (auto simp: handleA_def same_for_others_def map_of_update Let_def)
  have D: "same_for_others (le_hash env) (le_clientId env) w w1" if "handleD cfg env a y l s w = Inr (s1, w1)" for s1 w1
    using that
    by (auto simp: handleD_def Let_def same_for_others_def packetOf_def addPacket_other_shard
        split: option.splits sum.splits if_splits)
  have H: "same_for_others (le_hash env) (le_clientId env) w (handleH env y l w)"
    by (auto simp: handleH_def setHealth_def same_for_others_def map_of_update)
  have L: "same_for_others (le_hash env) (le_clientId env) w (handleL env a l w)"
    by (auto simp: handleL_def same_for_others_def map_of_update applyUpd_other Let_def split: option.splits)
  from assms(2) X A D H L show ?thesis
    by (auto simp: processLine_def split: if_splits)
qed

lemma handleD_limited:
  assumes "lastDLineSecond s = a" "max_d_lines_per_second cfg \<le> dLineCountThisSecond s"
  shows "\<exists>s'. handleD cfg env a y l s w = Inr (s', w) \<and> lastDLineSecond s' = a \<and>
    max_d_lines_per_second cfg \<le> dLineCountThisSecond s'"
  using assms by (auto simp: handleD_def countDLine_def Let_def split: option.splits)

section \<open>Properties\<close>

text \<open>
  C15.  Ingestion does not depend on how the network cuts the stream: receiving any sequence of chunks
  (within one clock second, within the session and buffer limits) has exactly the effect of
  processing, in order, the complete lines of the concatenated stream, and keeps the incomplete
  last line in the buffer.
\<close>

theorem loop_chunking:
  assumes "steady_at t s" "LF \<notin> set (s_buffer s)" "start \<le> t" "t - start < kMaxSessionSeconds"
    and "0 < idle_timeout_seconds cfg" "length (s_buffer s @ concat ds) \<le> max_recv_buffer_bytes cfg"
    and "splitNl (s_buffer s @ concat ds) = (ls, rest)"
  shows "runWireDataLoop cfg env noInflate start (map (dataTick t y) ds) s w () =
    (case processLines cfg env (\<lambda>_. t) (\<lambda>_. y) 0 ls (s, w) of
       Inl e \<Rightarrow> Undefined e
     | Inr (s', w') \<Rightarrow> Going (s'\<lparr> s_buffer := rest \<rparr>) w' ())"
  using runWireDataLoop_chunks [OF assms(3-5,1) splitNl_None [OF assms(2)] assms(6)] assms(7)
  by (simp add: loop_result_def)

definition demo_world :: World where
  "demo_world = \<lparr> w_registry = \<lparr> ipToClientId = [], clientToExternalIp = [], clientHealth = [], protoRejections = [] \<rparr>,
     w_stats = TrafficStats_new 7 10 10 4, w_channels = [], w_updates = [] \<rparr>"

definition demo_env :: LineEnv where
  "demo_env = \<lparr> le_clientId = ''ab'', le_clientIp = [], le_hash = (\<lambda>_. 0), le_isLanIP = (\<lambda>_. False),
     le_parsesAsIp = (\<lambda>_. False), le_resolver = None \<rparr>"

definition demo_cfg :: LoopConfig where
  "demo_cfg = \<lparr> max_recv_buffer_bytes = 1000, idle_timeout_seconds = 300, max_iface_len = 64, max_ip_len = 50,
     max_d_lines_per_second = 2 \<rparr>"

theorem loop_chunking_witness:
  "runWireDataLoop demo_cfg demo_env noInflate 0 (map (dataTick 10 99) [''X nu'', [CHR ''l'', CHR ''l'', LF, CHR ''H'']])
     (Session0 10 demo_world) demo_world () =
   (case processLines demo_cfg demo_env (\<lambda>_. 10) (\<lambda>_. 99) 0 [''X null''] (Session0 10 demo_world, demo_world) of
      Inl e \<Rightarrow> Undefined e | Inr (s', w') \<Rightarrow> Going (s'\<lparr> s_buffer := ''H'' \<rparr>) w' ())"
proof -
  have "splitNl (''X null'' @ LF # ''H'') = ([''X null''], ''H'')"
    by (simp add: splitNl_line splitNl_None del: append_Cons)
  then show ?thesis
    by (intro loop_chunking)
      (simp_all add: steady_at_def Session0_def demo_cfg_def kMaxSessionSeconds_def)
qed

text \<open>
  The D-line rate limit holds: once a connection has reached its limit in a clock second, no
  further D-line of that second changes any shared state, whatever it contains.
\<close>

lemma dline_rate_limit:
  assumes "\<forall>l \<in> set ls. isDLine l" "lastDLineSecond s = a"
    and "max_d_lines_per_second cfg \<le> dLineCountThisSecond s"
  shows "\<exists>s'. processLines cfg env (\<lambda>_. a) g i ls (s, w) = Inr (s', w)"
  using assms
proof (induction ls arbitrary: s i)
  case (Cons l ls)
  obtain s1 where s1: "handleD cfg env a (g i) l s w = Inr (s1, w)" "lastDLineSecond s1 = a"
    "max_d_lines_per_second cfg \<le> dLineCountThisSecond s1"
    using handleD_limited [OF Cons.prems(2,3)] by blast
  with Cons.IH [of s1] Cons.prems(1) show ?case by (simp add: processLine_D)
qed simp

lemma dline_rate_limit_witness:
  "\<exists>s'. processLines demo_cfg demo_env (\<lambda>_. 10) (\<lambda>_. 99) 0 [''D eth0 a b 5'']
     ((Session0 10 demo_world)\<lparr> lastDLineSecond := 10, dLineCountThisSecond := 2 \<rparr>, demo_world) = Inr (s', demo_world)"
  by (rule dline_rate_limit) (simp_all add: isDLine_def demo_cfg_def)

text \<open>
  Sessions are isolated: whatever line a client sends, the health report, external address,
  update status and control channel of every other client stay as they are, the traffic shards of
  other clients are untouched, and an address changes hands only to or from the sender.
\<close>

lemma line_isolation:
  assumes "keys_ok (ipToClientId (w_registry w))"
    and "processLine cfg env a y l (s, w) = Inr (s', w')"
  shows "same_for_others (le_hash env) (le_clientId env) w w'"
  using assms by (rule processLine_others)

lemma line_isolation_witness:
  "same_for_others (\<lambda>_. 0) ''ab'' demo_world (handleH demo_env 99 ''H pcap_recv=7'' demo_world)"
proof -
  have "processLine demo_cfg demo_env 10 99 ''H pcap_recv=7'' (Session0 10 demo_world, demo_world) =
      Inr (Session0 10 demo_world, handleH demo_env 99 ''H pcap_recv=7'' demo_world)"
    by (simp add: processLine_def starts_with_def wire_prefix_defs)
  from line_isolation [OF _ this] show ?thesis by (simp add: demo_world_def demo_env_def)
qed

text \<open>
  Overlapping sessions: when a client reconnects before its old session has ended, the clean-up
  of the old session removes the registry entries and the control channel of the new one, so the
  connected client can no longer be reached by control commands.
\<close>

lemma overlapping_sessions_lose_channel:
  assumes "le_clientId env \<noteq> []" "le_clientId env' = le_clientId env" "registry_ok (w_registry w)"
  shows "channelGet (le_clientId env) (w_channels (openSession env' (openSession env w))) \<noteq> None \<and>
    channelGet (le_clientId env) (w_channels (closeSession env (openSession env' (openSession env w)))) = None \<and>
    (\<forall>ip. map_of (ipToClientId (w_registry (closeSession env (openSession env' (openSession env w))))) ip
       \<noteq> Some (le_clientId env))"
proof -
  let ?r = "registerSession (le_clientId env') (le_clientIp env') (registerSession (le_clientId env) (le_clientIp env) (w_registry w))"
  have "keys_ok (ipToClientId ?r)" using assms(3) registry_ok_ops(3) by (simp add: registry_ok_def)
  then show ?thesis using assms(1,2)
    by (auto simp: openSession_def closeSession_def channelGet_def channelAdd_def channelRemove_def
        map_of_update map_of_erase removeClient_def map_of_erase_if split: option.splits)
qed

lemma overlapping_sessions_lose_channel_witness:
  "channelGet ''ab'' (w_channels (closeSession demo_env (openSession demo_env (openSession demo_env demo_world)))) = None"
  using overlapping_sessions_lose_channel [of demo_env demo_env demo_world]
  by (simp add: demo_env_def demo_world_def registry_ok_def)

end
