(* ===== verification/Pipeline.thy ===== *)
theory Pipeline
  imports DataLoop
begin

text \<open>
  The data path from end to end: what the client's sender thread encodes (\<open>client_impl.cpp\<close>) is cut
  into chunks by the network, received and split by the server's loop (\<open>server_core.cpp\<close>), parsed
  (\<open>proto_client_server.hpp\<close>) and counted in the traffic store (\<open>ntm_types.hpp\<close>).  The theory adds no
  definition of code; it composes the components.
\<close>

section \<open>Flows of one interface\<close>

record Flow =
  fl_src :: string
  fl_dst :: string
  fl_bytes :: u64

definition flow_ok :: "Flow \<Rightarrow> bool" where
  "flow_ok f \<longleftrightarrow> label_ok 46 (fl_src f) \<and> label_ok 46 (fl_dst f) \<and> fl_bytes f \<le> 0xFFFFFFFF"

definition flow_line :: "string \<Rightarrow> Flow \<Rightarrow> string" where
  "flow_line iface f = kDataLinePrefix @ dataLineBody iface (fl_src f) (fl_dst f) (fl_bytes f)"

text \<open>What the sender puts on the wire for a list of flows of one interface.\<close>

definition flow_stream :: "string \<Rightarrow> Flow list \<Rightarrow> string" where
  "flow_stream iface fs = concat (map (\<lambda>f. encodeDataLine iface (fl_src f) (fl_dst f) (fl_bytes f)) fs)"

definition flow_bytes :: "Flow list \<Rightarrow> nat" where
  "flow_bytes fs = sum_list (map (\<lambda>f. unat (fl_bytes f)) fs)"

text \<open>The day total of a client's interface.\<close>

definition day_total :: "LineEnv \<Rightarrow> int \<Rightarrow> string \<Rightarrow> World \<Rightarrow> Counter" where
  "day_total env y iface w =
     at_or Counter0 (ciKey (le_clientId env) iface) (db_totals (todayBucket (le_hash env) y (le_clientId env) (w_stats w)))"

definition iface_free :: "LineEnv \<Rightarrow> string \<Rightarrow> World \<Rightarrow> bool" where
  "iface_free env iface w =
     (let s = at_or [] (le_clientId env) (clientIfaces (shards (w_stats w) (shardIndex (le_hash env) (le_clientId env))))
      in iface \<in> set s \<or> length s < maxIfacesPerClient (w_stats w))"

text \<open>Room for \<open>n\<close> packets of \<open>m\<close> bytes in all: the D-line limit of the second and the 64-bit
  day totals.\<close>

definition room :: "LoopConfig \<Rightarrow> LineEnv \<Rightarrow> int \<Rightarrow> int \<Rightarrow> string \<Rightarrow> Session \<Rightarrow> World \<Rightarrow> nat \<Rightarrow> nat \<Rightarrow> bool" where
  "room cfg env a y iface s w n m \<longleftrightarrow>
     (if lastDLineSecond s = a then dLineCountThisSecond s else 0) + n \<le> max_d_lines_per_second cfg
     \<and> unat (packets (day_total env y iface w)) + n < 2 ^ 64
     \<and> unat (octets (day_total env y iface w)) + m < 2 ^ 64"

section \<open>Lemmas\<close>

lemma parseDataLine_defaults: "parseDataLine l kMaxIfaceLabelLen kMaxIpLabelLen = parseDataLine l 0 0"
  by (simp add: parseDataLine_def kMaxIfaceLabelLen_def kMaxIpLabelLen_def Let_def cong del: option.case_cong_weak)

lemma LF_free:
  assumes "label_ok 64 iface" "flow_ok f"
  shows "LF \<notin> set (flow_line iface f)"
proof -
  have l: "LF \<notin> set x" if "label_ok n x" for n x
    using that by (auto simp: label_ok_def isSep_def)
  have "LF \<notin> set (show_nat n)" for n
    using show_nat_digits [of n] is_digit_not_sep [of LF] by (auto simp: isSep_def)
  moreover have "take 64 (c_str iface) = iface" "take 46 (c_str (fl_src f)) = fl_src f" "take 46 (c_str (fl_dst f)) = fl_dst f"
    using assms label_okD(4) by (auto simp: flow_ok_def)
  ultimately show ?thesis using assms l
    by (auto simp: flow_line_def dataLineBody_def flow_ok_def kDataLinePrefix_def)
qed

lemma flow_stream_split:
  assumes "label_ok 64 iface" "list_all flow_ok fs"
  shows "splitNl (flow_stream iface fs) = (map (flow_line iface) fs, [])"
  using assms(2)
proof (induction fs)
  case Nil
  then show ?case by (simp add: flow_stream_def splitNl_None)
next
  case (Cons f fs)
  have "flow_stream iface (f # fs) = flow_line iface f @ LF # flow_stream iface fs"
    by (simp add: flow_stream_def encodeDataLine_fits flow_line_def)
  with Cons splitNl_line [OF LF_free [OF assms(1), of f]] show ?case by simp
qed

lemma ifaceAllowed_packet:
  "ifaceAllowed (le_hash env) (packetOf env s m) (w_stats w) \<longleftrightarrow> iface_free env (pm_iface m) w"
  by (simp add: ifaceAllowed_def iface_free_def packetOf_def)

lemma addPacket_keeps_iface:
  assumes "addPacket (le_hash env) lan y (packetOf env s m) st = Inr (Accepted, st')"
  shows "iface_free env (pm_iface m) (w\<lparr> w_stats := st' \<rparr>)"
  using assms
proof (cases rule: addPacket_InrD)
  case (1 sh')
  from 1(1) show ?thesis
  proof (cases rule: addPacketShard_cases)
    case (accepted older today today')
    with 1(2) show ?thesis by (simp add: iface_free_def packetOf_def Let_def)
  qed simp
qed

lemma addPacket_total:
  assumes "stats_ok (w_stats w)"
    "addPacket (le_hash env) lan y (packetOf env s m) (w_stats w) = Inr (Accepted, st')"
  shows "unat (packets (day_total env y (pm_iface m) (w\<lparr> w_stats := st' \<rparr>))) = unat (packets (day_total env y (pm_iface m) w)) + 1
    \<and> unat (octets (day_total env y (pm_iface m) (w\<lparr> w_stats := st' \<rparr>)))
      = unat (octets (day_total env y (pm_iface m) w)) + unat (pm_bytes m)"
proof -
  note add = addToBucket_InrD [OF addPacket_acceptedD [OF assms]]
  have c: "pi_clientId (packetOf env s m) = le_clientId env" "pi_iface (packetOf env s m) = pm_iface m"
    "pi_length (packetOf env s m) = pm_bytes m" by (simp_all add: packetOf_def)
  show ?thesis using not_wouldOverflowD [OF add(1)] add(2) by (simp add: day_total_def c)
qed

text \<open>One line.\<close>

lemma flow_line_counts:
  assumes "label_ok 64 iface" "flow_ok f" "max_iface_len cfg = kMaxIfaceLabelLen" "max_ip_len cfg = kMaxIpLabelLen"
    and "stats_ok (w_stats w)" "iface_free env iface w" "room cfg env a y iface s w (Suc n) (unat (fl_bytes f) + m)"
  shows "\<exists>st'. let w' = w\<lparr> w_stats := st' \<rparr>; s' = countDLine a s in
      processLine cfg env a y (flow_line iface f) (s, w) = Inr (s', w')
      \<and> stats_ok st' \<and> iface_free env iface w' \<and> room cfg env a y iface s' w' n m
      \<and> unat (packets (day_total env y iface w')) = unat (packets (day_total env y iface w)) + 1
      \<and> unat (octets (day_total env y iface w')) = unat (octets (day_total env y iface w)) + unat (fl_bytes f)"
proof -
  let ?m = "\<lparr> pm_iface = iface, pm_srcIp = fl_src f, pm_dstIp = fl_dst f, pm_bytes = ucast (fl_bytes f) \<rparr>"
  let ?s = "countDLine a s"
  have bytes: "unat (ucast (fl_bytes f) :: u32) = unat (fl_bytes f)"
    using assms(2) by (simp add: flow_ok_def unat_ucast word_le_nat_alt)
  have "isDLine (flow_line iface f)" by (simp add: isDLine_def flow_line_def kDataLinePrefix_def)
  note D = processLine_D [OF this]
  have "\<not> fl_bytes f > 0xFFFFFFFF" using assms(2) by (simp add: flow_ok_def not_less)
  then have parse: "parseDataLine (drop 2 (flow_line iface f)) (max_iface_len cfg) (max_ip_len cfg) = Some ?m"
    using assms(1-4) by (simp add: parseDataLine_defaults parseDataLine_body flow_ok_def flow_line_def kDataLinePrefix_def)
  have count: "dLineCountThisSecond ?s = (if lastDLineSecond s = a then dLineCountThisSecond s else 0) + 1"
    "lastDLineSecond ?s = a" by (auto simp: countDLine_def Let_def)
  have "\<not> totalOverflows (le_hash env) y (packetOf env ?s ?m) (w_stats w)"
    using assms(7) bytes by (simp add: totalOverflows_def room_def day_total_def packetOf_def)
  moreover have "ifaceAllowed (le_hash env) (packetOf env ?s ?m) (w_stats w)"
    using assms(6) ifaceAllowed_packet [of env ?s ?m w] by simp
  ultimately obtain st' where add: "addPacket (le_hash env) (le_isLanIP env) y (packetOf env ?s ?m) (w_stats w) = Inr (Accepted, st')"
    using addPacket_outcome [OF assms(5), of "le_hash env" "packetOf env ?s ?m" "le_isLanIP env" y] by auto
  have line: "processLine cfg env a y (flow_line iface f) (s, w) = Inr (?s, w\<lparr> w_stats := st' \<rparr>)"
    using assms(7) count(1) by (simp add: D handleD_def parse add Let_def room_def)
  note tot = addPacket_total [OF assms(5) add]
  have "room cfg env a y iface ?s (w\<lparr> w_stats := st' \<rparr>) n m"
    using assms(7) count tot bytes by (auto simp: room_def)
  then show ?thesis
    using line tot bytes addPacket_ok [OF assms(5) add] addPacket_keeps_iface [OF add, of w]
    by (intro exI [of _ st']) (simp add: Let_def)
qed

lemma flow_lines_count:
  assumes "label_ok 64 iface" "max_iface_len cfg = kMaxIfaceLabelLen" "max_ip_len cfg = kMaxIpLabelLen"
  shows "list_all flow_ok fs \<Longrightarrow> stats_ok (w_stats w) \<Longrightarrow> iface_free env iface w \<Longrightarrow>
    room cfg env a y iface s w (length fs) (flow_bytes fs) \<Longrightarrow>
    \<exists>s' st'. processLines cfg env (\<lambda>_. a) (\<lambda>_. y) i (map (flow_line iface) fs) (s, w) = Inr (s', w\<lparr> w_stats := st' \<rparr>)
      \<and> stats_ok st'
      \<and> unat (packets (day_total env y iface (w\<lparr> w_stats := st' \<rparr>))) = unat (packets (day_total env y iface w)) + length fs
      \<and> unat (octets (day_total env y iface (w\<lparr> w_stats := st' \<rparr>))) = unat (octets (day_total env y iface w)) + flow_bytes fs"
proof (induction fs arbitrary: s w i)
  case Nil
  have "w = w\<lparr> w_stats := w_stats w \<rparr>" by simp
  with Nil show ?case by (intro exI [of _ s] exI [of _ "w_stats w"]) (simp add: flow_bytes_def)
next
  case (Cons f fs)
  obtain st1 where st1: "processLine cfg env a y (flow_line iface f) (s, w) = Inr (countDLine a s, w\<lparr> w_stats := st1 \<rparr>)"
    "stats_ok st1" "iface_free env iface (w\<lparr> w_stats := st1 \<rparr>)"
    "room cfg env a y iface (countDLine a s) (w\<lparr> w_stats := st1 \<rparr>) (length fs) (flow_bytes fs)"
    "unat (packets (day_total env y iface (w\<lparr> w_stats := st1 \<rparr>))) = unat (packets (day_total env y iface w)) + 1"
    "unat (octets (day_total env y iface (w\<lparr> w_stats := st1 \<rparr>))) = unat (octets (day_total env y iface w)) + unat (fl_bytes f)"
    using flow_line_counts [OF assms(1) _ assms(2,3) Cons.prems(2,3), of f a y s "length fs" "flow_bytes fs"] Cons.prems(1,4)
    by (auto simp: Let_def flow_bytes_def)
  from Cons.IH [of "w\<lparr> w_stats := st1 \<rparr>" "countDLine a s" "i + 1"] st1 Cons.prems(1)
  obtain s' st' where
    "processLines cfg env (\<lambda>_. a) (\<lambda>_. y) (i + 1) (map (flow_line iface) fs) (countDLine a s, w\<lparr> w_stats := st1 \<rparr>)
      = Inr (s', w\<lparr> w_stats := st' \<rparr>)" "stats_ok st'"
    "unat (packets (day_total env y iface (w\<lparr> w_stats := st' \<rparr>))) = unat (packets (day_total env y iface w)) + 1 + length fs"
    "unat (octets (day_total env y iface (w\<lparr> w_stats := st' \<rparr>)))
      = unat (octets (day_total env y iface w)) + unat (fl_bytes f) + flow_bytes fs" by auto
  with st1(1) show ?case by (intro exI [of _ s'] exI [of _ st']) (simp add: flow_bytes_def)
qed

lemma flow_stream_counted:
  assumes "label_ok 64 iface" "list_all flow_ok fs" "concat ds = flow_stream iface fs"
    and "max_iface_len cfg = kMaxIfaceLabelLen" "max_ip_len cfg = kMaxIpLabelLen"
    and "steady_at t s" "s_buffer s = []" "start \<le> t" "t - start < kMaxSessionSeconds"
    and "0 < idle_timeout_seconds cfg" "length (flow_stream iface fs) \<le> max_recv_buffer_bytes cfg"
    and "stats_ok (w_stats w)" "iface_free env iface w" "room cfg env t y iface s w (length fs) (flow_bytes fs)"
  shows "\<exists>s' st'. runWireDataLoop cfg env noInflate start (map (dataTick t y) ds) s w () = Going s' (w\<lparr> w_stats := st' \<rparr>) ()
    \<and> s_buffer s' = [] \<and> stats_ok st'
    \<and> unat (packets (day_total env y iface (w\<lparr> w_stats := st' \<rparr>))) = unat (packets (day_total env y iface w)) + length fs
    \<and> unat (octets (day_total env y iface (w\<lparr> w_stats := st' \<rparr>))) = unat (octets (day_total env y iface w)) + flow_bytes fs"
proof -
  have "splitNl (s_buffer s) = ([], s_buffer s)" using assms(7) by (simp add: splitNl_None)
  from runWireDataLoop_chunks [OF assms(8-10,6) this, of ds] assms(3,7,11)
  have run: "runWireDataLoop cfg env noInflate start (map (dataTick t y) ds) s w () =
      loop_result [] (processLines cfg env (\<lambda>_. t) (\<lambda>_. y) 0 (map (flow_line iface) fs) (s, w))"
    by (simp add: flow_stream_split [OF assms(1,2)])
  obtain s' st' where "processLines cfg env (\<lambda>_. t) (\<lambda>_. y) 0 (map (flow_line iface) fs) (s, w) = Inr (s', w\<lparr> w_stats := st' \<rparr>)"
    and r: "stats_ok st'"
      "unat (packets (day_total env y iface (w\<lparr> w_stats := st' \<rparr>))) = unat (packets (day_total env y iface w)) + length fs"
      "unat (octets (day_total env y iface (w\<lparr> w_stats := st' \<rparr>))) = unat (octets (day_total env y iface w)) + flow_bytes fs"
    using flow_lines_count [OF assms(1,4,5,2,12-14), of 0] by blast
  then have "runWireDataLoop cfg env noInflate start (map (dataTick t y) ds) s w () =
      Going (s'\<lparr> s_buffer := [] \<rparr>) (w\<lparr> w_stats := st' \<rparr>) ()" by (simp add: run loop_result_def)
  with r show ?thesis by (intro exI [of _ "s'\<lparr> s_buffer := [] \<rparr>"] exI [of _ st']) simp
qed

lemma demo_day_total: "day_total demo_env 99 ''eth0'' demo_world = Counter0"
  by (simp add: day_total_def todayBucket_def openBucket_def demo_world_def demo_env_def TrafficStats_new_def Shard0_def
      DayBucket0_def)

lemma demo_room: "stats_ok (w_stats demo_world)" "iface_free demo_env ''eth0'' demo_world"
proof -
  show "stats_ok (w_stats demo_world)" by (simp add: demo_world_def stats_ok_new)
  show "iface_free demo_env ''eth0'' demo_world"
    by (simp add: iface_free_def demo_world_def demo_env_def TrafficStats_new_def Shard0_def)
qed

text \<open>
  C2.  End to end, nothing is lost or counted twice: however the network cuts the D-lines that the
  client encoded for any list of flows of an interface (each below 4 GiB), the server's loop ends up
  with exactly that many packets and exactly that many bytes more in the day total of the client's
  interface, and nothing but the traffic store changed, provided the lines stay within the session,
  buffer, rate, interface and 64-bit limits.
\<close>

theorem flows_end_to_end:
  assumes "label_ok 64 iface" "list_all flow_ok fs" "concat ds = flow_stream iface fs"
    and "max_iface_len cfg = kMaxIfaceLabelLen" "max_ip_len cfg = kMaxIpLabelLen"
    and "steady_at t s" "s_buffer s = []" "start \<le> t" "t - start < kMaxSessionSeconds"
    and "0 < idle_timeout_seconds cfg" "length (flow_stream iface fs) \<le> max_recv_buffer_bytes cfg"
    and "stats_ok (w_stats w)" "iface_free env iface w" "room cfg env t y iface s w (length fs) (flow_bytes fs)"
  shows "\<exists>s' st'. runWireDataLoop cfg env noInflate start (map (dataTick t y) ds) s w () = Going s' (w\<lparr> w_stats := st' \<rparr>) ()
    \<and> s_buffer s' = [] \<and> stats_ok st'
    \<and> unat (packets (day_total env y iface (w\<lparr> w_stats := st' \<rparr>))) = unat (packets (day_total env y iface w)) + length fs
    \<and> unat (octets (day_total env y iface (w\<lparr> w_stats := st' \<rparr>))) = unat (octets (day_total env y iface w)) + flow_bytes fs"
  by (rule flow_stream_counted [OF assms])

theorem flows_end_to_end_witness:
  "\<exists>s' w'. runWireDataLoop demo_cfg demo_env noInflate 0
       (map (dataTick 10 99) [take 3 (flow_stream ''eth0'' [\<lparr> fl_src = ''a'', fl_dst = ''b'', fl_bytes = 5 \<rparr>]),
          drop 3 (flow_stream ''eth0'' [\<lparr> fl_src = ''a'', fl_dst = ''b'', fl_bytes = 5 \<rparr>])])
       (Session0 10 demo_world) demo_world () = Going s' w' ()
     \<and> unat (octets (day_total demo_env 99 ''eth0'' w')) = 5"
proof -
  let ?fs = "[\<lparr> fl_src = ''a'', fl_dst = ''b'', fl_bytes = 5 \<rparr>]"
  let ?ds = "[take 3 (flow_stream ''eth0'' ?fs), drop 3 (flow_stream ''eth0'' ?fs)]"
  have l: "label_ok 64 ''eth0''" "list_all flow_ok ?fs"
    by (simp_all add: label_ok_def isSep_def flow_ok_def word_le_nat_alt)
  have len: "length (flow_stream ''eth0'' ?fs) \<le> max_recv_buffer_bytes demo_cfg"
    using length_show_unat [of 5]
    by (simp add: flow_stream_def encodeDataLine_def demo_cfg_def c_str_def Let_def kDataLinePrefix_def dataLineBody_def)
  note z = demo_day_total
  have rm: "room demo_cfg demo_env 10 99 ''eth0'' (Session0 10 demo_world) demo_world (length ?fs) (flow_bytes ?fs)"
    by (simp add: room_def z demo_cfg_def Session0_def flow_bytes_def Counter0_def)
  from flows_end_to_end [OF l, of ?ds demo_cfg 10 "Session0 10 demo_world" 0 demo_world demo_env 99] len rm demo_room
  show ?thesis
    by (auto simp: demo_cfg_def steady_at_def Session0_def kMaxSessionSeconds_def kMaxIfaceLabelLen_def kMaxIpLabelLen_def
        z flow_bytes_def Counter0_def)
qed

end
