(* ===== verification/Sender.thy ===== *)
theory Sender
  imports FlowAgg LogCtl Pipeline
begin

text \<open>
  The client's sender thread, \<open>ClientConnection::senderLoop\<close> of \<open>client_impl.cpp\<close>: one iteration
  drains the flow table, adapts the interval, keeps the connection alive or reconnects, answers
  control lines, and writes the announcement, the health report and the D-lines.

  One iteration is a function of the sender's state and of a \<^emph>\<open>tick\<close>: what the wait, the clocks, the
  network monitor, the transport and the peer do during it.  \<open>transport_\<close> is non-null exactly while
  it is connected, so that a flag stands for it; compression and framing (theory \<open>WebSocket\<close>) are
  below the writes.  Packets are accumulated between ticks.
\<close>

section \<open>Control lines from the server\<close>

text \<open>\<open>TcpTlsTransport::pollCtrlLines\<close>: what \<open>poll\<close> and \<open>SSL_read\<close> yield.\<close>

datatype PollEvent = PollNothing | PollData string | PollAgain | PollClosed

definition pollCtrlLines :: "PollEvent \<Rightarrow> string \<Rightarrow> bool \<times> string \<times> string list" where
  "pollCtrlLines ev inBuf =
     (case ev of
        PollNothing \<Rightarrow> (True, inBuf, [])
      | PollAgain \<Rightarrow> (True, inBuf, [])
      | PollClosed \<Rightarrow> (False, inBuf, [])
      | PollData chunk \<Rightarrow>
          (case splitNl (inBuf @ chunk) of
             (ls, rest) \<Rightarrow> (True, rest, filter (\<lambda>l. l \<noteq> []) (map (rtrim (\<lambda>c. c = CR)) ls))))"

section \<open>State\<close>

record SenderCfg =
  sc_aggMaxFlows :: u32
  sc_reconnectMaxAttempts :: nat
  sc_reconnectIntervalSec :: int
  sc_report :: HealthReport

text \<open>\<open>ss_wire\<close> records the payloads handed to the transport and whether each write succeeded;
  times are in nanoseconds unless their name says seconds.\<close>

record SenderState =
  ss_running :: bool
  ss_flowTable :: AggFlowMap
  ss_agg :: AdaptiveInterval
  ss_aggLastFlows :: u32
  ss_connected :: bool
  ss_ctrlInBuf :: string
  ss_sessionStart :: int
  ss_lastReannounceSec :: int
  ss_lastHealthSec :: int
  ss_pcapRecv :: u64
  ss_pcapDrop :: u64
  ss_bufDrop :: u64
  ss_reconnectFailures :: nat
  ss_lastReconnectAttempt :: int
  ss_logger :: Logger
  ss_wire :: "(string \<times> bool) list"

record SenderTick =
  sk_stop :: bool
  sk_netChanged :: bool
  sk_nowSec :: int
  sk_now :: int
  sk_connect :: bool
  sk_announceSec :: int
  sk_connectedAt :: int
  sk_elapsedAt :: int
  sk_lanAddrs :: "string list"
  sk_extIp :: string
  sk_poll :: PollEvent
  sk_ctrl :: CtrlEnv

section \<open>Writes\<close>

abbreviation sk_write :: "SenderTick \<Rightarrow> string \<Rightarrow> bool" where
  "sk_write tk \<equiv> ce_write (sk_ctrl tk)"

definition putWire :: "SenderTick \<Rightarrow> string \<Rightarrow> SenderState \<Rightarrow> bool \<times> SenderState" where
  "putWire tk x s = (sk_write tk x, s\<lparr> ss_wire := ss_wire s @ [(x, sk_write tk x)] \<rparr>)"

fun putLines :: "SenderTick \<Rightarrow> string list \<Rightarrow> SenderState \<Rightarrow> bool \<times> SenderState" where
  "putLines tk [] s = (True, s)"
| "putLines tk (x # xs) s =
     (case putWire tk x s of (False, s1) \<Rightarrow> (False, s1) | (True, s1) \<Rightarrow> putLines tk xs s1)"

definition closeSender :: "SenderState \<Rightarrow> SenderState" where
  "closeSender s = s\<lparr> ss_connected := False \<rparr>"

definition announceLines :: "SenderTick \<Rightarrow> string list" where
  "announceLines tk =
     (kExtIPLinePrefix @ (if sk_extIp tk = [] then kExtIPNull else sk_extIp tk) @ [LF]) #
     map (\<lambda>ip. kAddrLinePrefix @ ip @ [LF]) (sk_lanAddrs tk)"

definition sendAnnounce :: "SenderTick \<Rightarrow> SenderState \<Rightarrow> bool \<times> SenderState" where
  "sendAnnounce tk s =
     (if sk_lanAddrs tk = [] then (True, s)
      else case putLines tk (announceLines tk) s of
             (False, s1) \<Rightarrow> (False, s1)
           | (True, s1) \<Rightarrow> (True, s1\<lparr> ss_lastReannounceSec := sk_announceSec tk \<rparr>))"

text \<open>\<open>connectUnlocked\<close> while disconnected: \<open>sk_connect\<close> is the outcome of the transport's connect
  and of the authentication (theory \<open>Auth\<close>).\<close>

definition connectUnlocked :: "SenderTick \<Rightarrow> SenderState \<Rightarrow> bool \<times> SenderState" where
  "connectUnlocked tk s =
     (if \<not> sk_connect tk then (False, s)
      else case sendAnnounce tk (s\<lparr> ss_connected := True \<rparr>) of
             (False, s1) \<Rightarrow> (False, closeSender s1)
           | (True, s1) \<Rightarrow> (True, s1\<lparr> ss_sessionStart := sk_connectedAt tk \<rparr>))"

section \<open>One iteration\<close>

definition encodeFlows :: "AggFlowMap \<Rightarrow> string" where
  "encodeFlows t = concat (map (\<lambda>(k, n). encodeDataLine (ak_iface k) (ak_srcIp k) (ak_dstIp k) n) t)"

definition healthReport :: "SenderCfg \<Rightarrow> SenderState \<Rightarrow> HealthReport" where
  "healthReport cfg s = (sc_report cfg)
     \<lparr> r_pcapRecv := ss_pcapRecv s, r_pcapDrop := ss_pcapDrop s, r_bufDrop := ss_bufDrop s,
       r_aggIntervalMs := currentMs (ss_agg s), r_aggFlows := ss_aggLastFlows s,
       r_logLevel := lg_level (fst (ss_logger s)) \<rparr>"

text \<open>The wait is over: drain the table and adapt the interval, unless the table was full.  \<open>None\<close>
  is the undefined behaviour of \<open>std::clamp\<close>.\<close>

definition drainTable :: "SenderCfg \<Rightarrow> SenderState \<Rightarrow> (string \<times> SenderState) option" where
  "drainTable cfg s =
     (let forced = length (ss_flowTable s) \<ge> unat (sc_aggMaxFlows cfg);
          flowCount = of_nat (length (ss_flowTable s)) :: u32;
          flush = encodeFlows (ss_flowTable s);
          s1 = s\<lparr> ss_flowTable := [] \<rparr>
      in if forced then Some (flush, s1)
         else map_option (\<lambda>a. (flush, s1\<lparr> ss_agg := a, ss_aggLastFlows := flowCount \<rparr>))
                (updateInterval flowCount (ss_agg s1)))"

definition healthDue :: "SenderTick \<Rightarrow> SenderState \<Rightarrow> bool" where
  "healthDue tk s \<longleftrightarrow> sk_nowSec tk - ss_lastHealthSec s \<ge> kHealthIntervalSec"

definition waitInterval :: "SenderCfg \<Rightarrow> SenderTick \<Rightarrow> SenderState \<Rightarrow> bool" where
  "waitInterval cfg tk s \<longleftrightarrow> ss_reconnectFailures s > 0 \<and>
     (sk_now tk - ss_lastReconnectAttempt s) div 1000000000 < sc_reconnectIntervalSec cfg"

text \<open>The disconnected branch; \<open>True\<close> means that the iteration goes on with a fresh connection.\<close>

definition reconnect :: "SenderCfg \<Rightarrow> SenderTick \<Rightarrow> bool \<Rightarrow> SenderState \<Rightarrow> bool \<times> SenderState" where
  "reconnect cfg tk idle s =
     (if idle then (False, s)
      else if waitInterval cfg tk s then (False, s)
      else case connectUnlocked tk (s\<lparr> ss_lastReconnectAttempt := sk_now tk \<rparr>) of
        (False, s1) \<Rightarrow>
          (let s2 = s1\<lparr> ss_reconnectFailures := ss_reconnectFailures s1 + 1 \<rparr> in
           (False, if ss_reconnectFailures s2 \<ge> sc_reconnectMaxAttempts cfg
                   then s2\<lparr> ss_running := False \<rparr> else s2))
      | (True, s1) \<Rightarrow> (True, s1\<lparr> ss_reconnectFailures := 0, ss_agg := resetInterval (ss_agg s1) \<rparr>))"

definition processCtrl :: "SenderTick \<Rightarrow> string \<Rightarrow> SenderState \<Rightarrow> SenderState" where
  "processCtrl tk line s =
     (case processCtrlLine (sk_ctrl tk) line (ss_logger s) of
        (out, lg) \<Rightarrow> s\<lparr> ss_logger := lg, ss_wire := ss_wire s @ map (\<lambda>x. (x, sk_write tk x)) out \<rparr>)"

definition pollControl :: "SenderTick \<Rightarrow> SenderState \<Rightarrow> SenderState" where
  "pollControl tk s =
     (case pollCtrlLines (sk_poll tk) (ss_ctrlInBuf s) of
        (False, inBuf, _) \<Rightarrow> closeSender (s\<lparr> ss_ctrlInBuf := inBuf \<rparr>)
      | (True, inBuf, ls) \<Rightarrow> foldl (\<lambda>s l. processCtrl tk l s) (s\<lparr> ss_ctrlInBuf := inBuf \<rparr>) ls)"

definition reannounce :: "SenderTick \<Rightarrow> SenderState \<Rightarrow> SenderState" where
  "reannounce tk s =
     (if ss_connected s \<and> sk_netChanged tk \<and> sk_nowSec tk - ss_lastReannounceSec s \<ge> kAnnounceRateLimitSec
      then case sendAnnounce tk (s\<lparr> ss_lastReannounceSec := sk_nowSec tk \<rparr>) of
             (False, s1) \<Rightarrow> closeSender s1 | (True, s1) \<Rightarrow> s1
      else s)"

definition sendHealth :: "SenderCfg \<Rightarrow> SenderTick \<Rightarrow> bool \<Rightarrow> SenderState \<Rightarrow> SenderState" where
  "sendHealth cfg tk due s =
     (if ss_connected s \<and> due
      then let s1 = s\<lparr> ss_lastHealthSec := sk_nowSec tk \<rparr> in
           case putWire tk (encodeHealthLine (healthReport cfg s1)) s1 of
             (False, s2) \<Rightarrow> closeSender s2 | (True, s2) \<Rightarrow> s2
      else s)"

definition sessionLimit :: "SenderTick \<Rightarrow> SenderState \<Rightarrow> SenderState" where
  "sessionLimit tk s =
     (if ss_connected s \<and> max 0 ((sk_elapsedAt tk - ss_sessionStart s) div 1000000000) \<ge> kMaxSessionSeconds
      then closeSender s else s)"

definition sendFlush :: "SenderTick \<Rightarrow> string \<Rightarrow> SenderState \<Rightarrow> SenderState" where
  "sendFlush tk flush s =
     (if flush \<noteq> [] \<and> ss_connected s
      then case putWire tk flush s of (False, s1) \<Rightarrow> closeSender s1 | (True, s1) \<Rightarrow> s1
      else s)"

definition connectedPart :: "SenderCfg \<Rightarrow> SenderTick \<Rightarrow> string \<Rightarrow> bool \<Rightarrow> SenderState \<Rightarrow> SenderState" where
  "connectedPart cfg tk flush due s =
     (let s1 = pollControl tk s in
      if flush = [] \<and> \<not> sk_netChanged tk \<and> \<not> due then s1
      else sendFlush tk flush (sessionLimit tk (sendHealth cfg tk due (reannounce tk s1))))"

definition senderStep :: "SenderCfg \<Rightarrow> SenderTick \<Rightarrow> SenderState \<Rightarrow> SenderState option" where
  "senderStep cfg tk s =
     (if sk_stop tk then Some (s\<lparr> ss_running := False \<rparr>)
      else case drainTable cfg s of None \<Rightarrow> None
      | Some (flush, s1) \<Rightarrow>
          let due = healthDue tk s1 in
          if ss_connected s1 then Some (connectedPart cfg tk flush due s1)
          else case reconnect cfg tk (flush = [] \<and> \<not> sk_netChanged tk \<and> \<not> due) s1 of
                 (False, s2) \<Rightarrow> Some s2
               | (True, s2) \<Rightarrow> Some (connectedPart cfg tk flush due s2))"

text \<open>A captured packet between two iterations.\<close>

definition capturePacket :: "SenderCfg \<Rightarrow> PacketMeta \<Rightarrow> SenderState \<Rightarrow> SenderState" where
  "capturePacket cfg m s =
     s\<lparr> ss_flowTable := snd (accumulateFlow (sc_aggMaxFlows cfg) m (ss_flowTable s)) \<rparr>"

section \<open>Lemmas: the flow table\<close>

text \<open>The bytes of the packets of one flow.\<close>

definition key_bytes :: "AggFlowKey \<Rightarrow> PacketMeta list \<Rightarrow> nat" where
  "key_bytes k ms = sum_list (map (\<lambda>m. if flowKey m = k then unat (pm_bytes m) else 0) ms)"

definition total_bytes :: "PacketMeta list \<Rightarrow> nat" where
  "total_bytes ms = sum_list (map (unat \<circ> pm_bytes) ms)"

lemma capture_flowTable:
  "ss_flowTable (fold (capturePacket cfg) ms s) = fold (\<lambda>m. snd \<circ> accumulateFlow (sc_aggMaxFlows cfg) m) ms (ss_flowTable s)"
  "fold (capturePacket cfg) ms s = s\<lparr> ss_flowTable := ss_flowTable (fold (capturePacket cfg) ms s) \<rparr>"
  by (induction ms arbitrary: s) (simp_all add: capturePacket_def)

definition table_of :: "u32 \<Rightarrow> PacketMeta list \<Rightarrow> AggFlowMap" where
  "table_of mx ms = fold (\<lambda>m. snd \<circ> accumulateFlow mx m) ms []"

text \<open>After a run of packets without overflow the table holds one entry for every flow, with the sum
  of its bytes.\<close>

lemma table_snoc: "table_of mx (ms @ [m]) = upd_at 0 (flowKey m) (\<lambda>n. n + ucast (pm_bytes m)) (table_of mx ms)"
  by (simp add: table_of_def accumulateFlow_def Let_def)

lemma keys_ok_table: "keys_ok (table_of mx ms)"
  by (induction ms rule: rev_induct) (simp_all add: table_snoc table_of_def [of mx "[]"])

lemma has_key_table: "has_key k (table_of mx ms) \<longleftrightarrow> k \<in> flowKey ` set ms"
  by (induction ms rule: rev_induct) (auto simp: table_snoc table_of_def [of mx "[]"])

lemma unat_plus_u64: "unat a + unat b < 2 ^ 64 \<Longrightarrow> unat (a + b :: u64) = unat a + unat b"
  by (subst unat_plus_if') simp

lemma at_or_table:
  "\<forall>k. key_bytes k ms < 2 ^ 64 \<Longrightarrow> unat (at_or 0 k (table_of mx ms)) = key_bytes k ms"
proof (induction ms arbitrary: k rule: rev_induct)
  case Nil
  then show ?case by (simp add: table_of_def key_bytes_def)
next
  case (snoc m ms)
  have "key_bytes j ms \<le> key_bytes j (ms @ [m])" for j by (simp add: key_bytes_def)
  with snoc.prems have "\<forall>j. key_bytes j ms < 2 ^ 64" by (meson le_less_trans)
  then have i: "unat (at_or 0 j (table_of mx ms)) = key_bytes j ms" for j by (rule snoc.IH)
  have "unat (at_or 0 (flowKey m) (table_of mx ms) + ucast (pm_bytes m)) = key_bytes (flowKey m) (ms @ [m])"
    using snoc.prems [rule_format, of "flowKey m"] by (subst unat_plus_u64) (simp_all add: i key_bytes_def)
  then show ?case using i [of k] by (simp add: table_snoc) (simp add: key_bytes_def)
qed

lemma sum_table:
  assumes "\<forall>k. key_bytes k ms < 2 ^ 64"
  shows "sum_al unat (table_of mx ms) = total_bytes ms"
  using assms
proof (induction ms rule: rev_induct)
  case Nil
  then show ?case by (simp add: table_of_def total_bytes_def)
next
  case (snoc m ms)
  have "key_bytes j ms \<le> key_bytes j (ms @ [m])" for j by (simp add: key_bytes_def)
  with snoc.prems have small: "\<forall>j. key_bytes j ms < 2 ^ 64" by (meson le_less_trans)
  have "sum_al unat (table_of mx (ms @ [m])) + unat (at_or 0 (flowKey m) (table_of mx ms)) =
    sum_al unat (table_of mx ms) + unat (at_or 0 (flowKey m) (table_of mx ms) + ucast (pm_bytes m))"
    unfolding table_snoc by (rule sum_al_upd_at [OF keys_ok_table]) simp
  moreover have "unat (at_or 0 (flowKey m) (table_of mx ms) + ucast (pm_bytes m) :: u64) =
      unat (at_or 0 (flowKey m) (table_of mx ms)) + unat (pm_bytes m)"
    using snoc.prems [rule_format, of "flowKey m"] small
    by (subst unat_plus_u64) (simp_all add: at_or_table key_bytes_def)
  ultimately show ?case using snoc.IH [OF small] by (simp add: total_bytes_def)
qed

lemma table_entry:
  assumes "\<forall>k. key_bytes k ms < 2 ^ 64" "(k, n) \<in> set (table_of mx ms)"
  shows "k \<in> flowKey ` set ms" "unat n = key_bytes k ms"
proof -
  have "map_of (table_of mx ms) k = Some n"
    using keys_ok_table assms(2) by (simp add: keys_ok_def)
  then have "at_or 0 k (table_of mx ms) = n" "has_key k (table_of mx ms)" by (simp_all add: at_or_def has_key_def)
  then show "k \<in> flowKey ` set ms" "unat n = key_bytes k ms"
    using at_or_table [OF assms(1), of k mx] has_key_table by auto
qed

text \<open>The flush of the packets of one interface is the stream of theory \<open>Pipeline\<close>.\<close>

definition flows_of :: "AggFlowMap \<Rightarrow> Flow list" where
  "flows_of t = map (\<lambda>(k, n). \<lparr> fl_src = ak_srcIp k, fl_dst = ak_dstIp k, fl_bytes = n \<rparr>) t"

lemma encodeFlows_stream:
  "\<forall>(k, n) \<in> set t. ak_iface k = iface \<Longrightarrow> encodeFlows t = flow_stream iface (flows_of t)"
  by (induction t) (auto simp: encodeFlows_def flow_stream_def flows_of_def)

lemma flow_bytes_flows_of: "flow_bytes (flows_of t) = sum_al unat t"
  by (induction t) (auto simp: flow_bytes_def flows_of_def sum_al_def)

lemma length_table: "length (table_of mx ms) = card (flowKey ` set ms)"
proof -
  have "distinct (map fst (table_of mx ms))" using keys_ok_table by (simp add: keys_ok_def)
  moreover have "set (map fst (table_of mx ms)) = flowKey ` set ms"
    using has_key_table [of _ mx ms] by (auto simp: has_key_iff)
  ultimately show ?thesis using distinct_card [of "map fst (table_of mx ms)"] by simp
qed

section \<open>Lemmas: one iteration\<close>

lemma putWire_ok: "sk_write sk x \<Longrightarrow> putWire sk x s = (True, s\<lparr> ss_wire := ss_wire s @ [(x, True)] \<rparr>)"
  by (simp add: putWire_def)

lemma putLines_ok: "(\<And>x. sk_write sk x) \<Longrightarrow>
  putLines sk xs s = (True, s\<lparr> ss_wire := ss_wire s @ map (\<lambda>x. (x, True)) xs \<rparr>)"
  by (induction xs arbitrary: s) (simp_all add: putWire_ok)

lemma sendFlush_ok: "sk_write sk flush \<Longrightarrow> ss_connected s \<Longrightarrow> flush \<noteq> [] \<Longrightarrow>
  sendFlush sk flush s = s\<lparr> ss_wire := ss_wire s @ [(flush, True)] \<rparr>"
  by (simp add: sendFlush_def putWire_ok)

text \<open>The specification of what a healthy iteration writes before its flush: the answers to the control
  lines that have arrived, the announcement when it is due, and the health report when it is due (whose
  log level is the one that the control lines have left).\<close>

fun ctrlAnswers :: "CtrlEnv \<Rightarrow> string list \<Rightarrow> Logger \<Rightarrow> string list \<times> Logger" where
  "ctrlAnswers env [] lg = ([], lg)"
| "ctrlAnswers env (l # ls) lg =
     (let (out, lg1) = processCtrlLine env l lg; (rest, lg2) = ctrlAnswers env ls lg1 in (out @ rest, lg2))"

definition linesBefore :: "SenderCfg \<Rightarrow> SenderTick \<Rightarrow> bool \<Rightarrow> SenderState \<Rightarrow> string list" where
  "linesBefore cfg tk due s =
     (let (out, lg) = ctrlAnswers (sk_ctrl tk) (snd (snd (pollCtrlLines (sk_poll tk) (ss_ctrlInBuf s)))) (ss_logger s)
      in out @
        (if sk_netChanged tk \<and> kAnnounceRateLimitSec \<le> sk_nowSec tk - ss_lastReannounceSec s \<and> sk_lanAddrs tk \<noteq> []
         then announceLines tk else []) @
        (if due then [encodeHealthLine (healthReport cfg (s\<lparr> ss_logger := lg \<rparr>))] else []))"

lemma foldl_processCtrl:
  assumes "\<And>x. sk_write sk x"
  shows "foldl (\<lambda>s l. processCtrl sk l s) s ls =
    (case ctrlAnswers (sk_ctrl sk) ls (ss_logger s) of
      (out, lg) \<Rightarrow> s\<lparr> ss_logger := lg, ss_wire := ss_wire s @ map (\<lambda>x. (x, True)) out \<rparr>)"
proof (induction ls arbitrary: s)
  case (Cons l ls)
  obtain out lg where p: "processCtrlLine (sk_ctrl sk) l (ss_logger s) = (out, lg)" by (metis surj_pair)
  show ?case using Cons.IH [of "processCtrl sk l s"] by (simp add: processCtrl_def p assms split: prod.split)
qed simp

lemma pollControl_lines:
  assumes "\<And>x. sk_write sk x" "sk_poll sk \<noteq> PollClosed"
    and "ctrlAnswers (sk_ctrl sk) (snd (snd (pollCtrlLines (sk_poll sk) (ss_ctrlInBuf s)))) (ss_logger s) = (out, lg)"
  shows "\<exists>b. pollControl sk s = s\<lparr> ss_ctrlInBuf := b, ss_logger := lg, ss_wire := ss_wire s @ map (\<lambda>x. (x, True)) out \<rparr>"
proof -
  obtain b ls where p: "pollCtrlLines (sk_poll sk) (ss_ctrlInBuf s) = (True, b, ls)"
    using assms(2) by (cases "sk_poll sk") (auto simp: pollCtrlLines_def case_prod_unfold)
  show ?thesis using assms(3) by (simp add: pollControl_def p foldl_processCtrl [OF assms(1)]) blast
qed

lemma reannounce_lines:
  assumes "\<And>x. sk_write sk x" "ss_connected s"
  shows "\<exists>t. reannounce sk s = s\<lparr> ss_lastReannounceSec := t,
    ss_wire := ss_wire s @ map (\<lambda>x. (x, True)) (if sk_netChanged sk \<and>
      kAnnounceRateLimitSec \<le> sk_nowSec sk - ss_lastReannounceSec s \<and> sk_lanAddrs sk \<noteq> [] then announceLines sk else []) \<rparr>"
proof -
  consider "\<not> (sk_netChanged sk \<and> kAnnounceRateLimitSec \<le> sk_nowSec sk - ss_lastReannounceSec s)"
    | "sk_netChanged sk \<and> kAnnounceRateLimitSec \<le> sk_nowSec sk - ss_lastReannounceSec s" "sk_lanAddrs sk = []"
    | "sk_netChanged sk \<and> kAnnounceRateLimitSec \<le> sk_nowSec sk - ss_lastReannounceSec s" "sk_lanAddrs sk \<noteq> []"
    by blast
  then show ?thesis
  proof cases
    case 1
    then have "reannounce sk s = s" by (auto simp: reannounce_def)
    then show ?thesis using 1 by (intro exI [of _ "ss_lastReannounceSec s"]) auto
  next
    case 2
    then have "reannounce sk s = s\<lparr> ss_lastReannounceSec := sk_nowSec sk \<rparr>"
      using assms(2) by (simp add: reannounce_def sendAnnounce_def)
    then show ?thesis using 2 by (intro exI [of _ "sk_nowSec sk"]) simp
  next
    case 3
    then have "reannounce sk s = s\<lparr> ss_lastReannounceSec := sk_announceSec sk,
        ss_wire := ss_wire s @ map (\<lambda>x. (x, True)) (announceLines sk) \<rparr>"
      using assms by (simp add: reannounce_def sendAnnounce_def putLines_ok)
    then show ?thesis using 3 by (intro exI [of _ "sk_announceSec sk"]) simp
  qed
qed

text \<open>A healthy iteration of a connected sender: exactly the lines above, then its flush, once.\<close>

lemma connectedPart_flush:
  assumes "ss_connected s" "\<And>x. sk_write sk x" "sk_poll sk \<noteq> PollClosed" "flush \<noteq> []"
    and "(sk_elapsedAt sk - ss_sessionStart s) div 1000000000 < kMaxSessionSeconds"
  shows "ss_wire (connectedPart cfg sk flush due s) =
      ss_wire s @ map (\<lambda>x. (x, True)) (linesBefore cfg sk due s @ [flush]) \<and>
    ss_connected (connectedPart cfg sk flush due s) \<and>
    ss_flowTable (connectedPart cfg sk flush due s) = ss_flowTable s"
proof -
  obtain out lg where a: "ctrlAnswers (sk_ctrl sk) (snd (snd (pollCtrlLines (sk_poll sk) (ss_ctrlInBuf s)))) (ss_logger s) = (out, lg)"
    by (metis surj_pair)
  define an where "an = (if sk_netChanged sk \<and> kAnnounceRateLimitSec \<le> sk_nowSec sk - ss_lastReannounceSec s \<and>
    sk_lanAddrs sk \<noteq> [] then announceLines sk else [])"
  from pollControl_lines [OF assms(2,3) a] obtain b where
    1: "pollControl sk s = s\<lparr> ss_ctrlInBuf := b, ss_logger := lg, ss_wire := ss_wire s @ map (\<lambda>x. (x, True)) out \<rparr>" ..
  obtain t where 2: "reannounce sk (pollControl sk s) = s\<lparr> ss_ctrlInBuf := b, ss_logger := lg, ss_lastReannounceSec := t,
      ss_wire := ss_wire s @ map (\<lambda>x. (x, True)) (out @ an) \<rparr>"
    using reannounce_lines [OF assms(2), of "pollControl sk s"] assms(1) by (auto simp: 1 an_def)
  let ?s3 = "reannounce sk (pollControl sk s)"
  have rep: "healthReport cfg (?s3\<lparr> ss_lastHealthSec := u \<rparr>) = healthReport cfg (s\<lparr> ss_logger := lg \<rparr>)" for u
    by (simp add: 2 healthReport_def)
  have lines: "linesBefore cfg sk due s =
      out @ an @ (if due then [encodeHealthLine (healthReport cfg (s\<lparr> ss_logger := lg \<rparr>))] else [])"
    by (simp add: linesBefore_def a an_def)
  define s4 where "s4 = sendHealth cfg sk due ?s3"
  have w: "ss_connected s4" "ss_flowTable s4 = ss_flowTable s" "ss_sessionStart s4 = ss_sessionStart s"
    "ss_wire s4 = ss_wire s @ map (\<lambda>x. (x, True)) (linesBefore cfg sk due s)"
    using assms(1) by (simp_all add: s4_def sendHealth_def putWire_ok [OF assms(2)] Let_def rep lines) (simp_all add: 2)
  have "0 < kMaxSessionSeconds" by (simp add: kMaxSessionSeconds_def)
  then have "sessionLimit sk s4 = s4" using assms(5) by (auto simp: sessionLimit_def w(3))
  then have "connectedPart cfg sk flush due s = s4\<lparr> ss_wire := ss_wire s4 @ [(flush, True)] \<rparr>"
    using assms(4) sendFlush_ok [OF assms(2) w(1) assms(4)] by (simp add: connectedPart_def s4_def Let_def)
  then show ?thesis using w by simp
qed

lemma drainTable_ok:
  assumes "interval_ok (ss_agg s)"
  shows "\<exists>s1. drainTable cfg s = Some (encodeFlows (ss_flowTable s), s1) \<and> ss_flowTable s1 = [] \<and>
    ss_connected s1 = ss_connected s \<and> ss_wire s1 = ss_wire s \<and> ss_sessionStart s1 = ss_sessionStart s \<and>
    interval_ok (ss_agg s1) \<and> ss_running s1 = ss_running s \<and> ss_reconnectFailures s1 = ss_reconnectFailures s \<and>
    ss_lastReconnectAttempt s1 = ss_lastReconnectAttempt s \<and> ss_lastHealthSec s1 = ss_lastHealthSec s"
  using updateInterval_cases [OF assms, of "of_nat (length (ss_flowTable s))"] assms
  by (auto simp: drainTable_def Let_def)

lemma encodeDataLine_nonempty:
  "label_ok 64 iface \<Longrightarrow> label_ok 46 src \<Longrightarrow> label_ok 46 dst \<Longrightarrow> encodeDataLine iface src dst n \<noteq> []"
proof -
  assume a: "label_ok 64 iface" "label_ok 46 src" "label_ok 46 dst"
  have "length (take 64 (c_str iface)) \<le> 64" "length (take 46 (c_str src)) \<le> 46" "length (take 46 (c_str dst)) \<le> 46"
    by simp_all
  then have "length (kDataLinePrefix @ dataLineBody iface src dst n @ [LF]) < 256"
    using length_show_unat [of n] by (simp add: dataLineBody_def kDataLinePrefix_def)
  then show ?thesis by (simp add: encodeDataLine_def kDataLinePrefix_def)
qed

lemma encodeFlows_nonempty:
  assumes "(k, n) \<in> set t" "label_ok 64 (ak_iface k)" "label_ok 46 (ak_srcIp k)" "label_ok 46 (ak_dstIp k)"
  shows "encodeFlows t \<noteq> []"
  using assms encodeDataLine_nonempty [OF assms(2-4), of n] by (force simp: encodeFlows_def)

lemma length_flows_of [simp]: "length (flows_of t) = length t"
  by (simp add: flows_of_def)

section \<open>The sender as a state machine\<close>

text \<open>The runs of a sender: captured packets and iterations in any order, until it stops.\<close>

inductive sender_run :: "SenderCfg \<Rightarrow> SenderState \<Rightarrow> SenderState \<Rightarrow> bool" for cfg where
  run_start: "sender_run cfg s s"
| run_packet: "sender_run cfg s t \<Longrightarrow> sender_run cfg s (capturePacket cfg m t)"
| run_tick: "sender_run cfg s t \<Longrightarrow> ss_running t \<Longrightarrow> senderStep cfg tk t = Some u \<Longrightarrow> sender_run cfg s u"

inductive_cases sender_runE: "sender_run cfg s t"

definition sender_ok :: "SenderCfg \<Rightarrow> SenderState \<Rightarrow> bool" where
  "sender_ok cfg s \<longleftrightarrow> interval_ok (ss_agg s) \<and>
     (ss_connected s \<longrightarrow> ss_reconnectFailures s = 0) \<and>
     ss_reconnectFailures s \<le> sc_reconnectMaxAttempts cfg \<and>
     (ss_running s \<longrightarrow> ss_reconnectFailures s < sc_reconnectMaxAttempts cfg)"

text \<open>What the parts of an iteration after the connection is up leave alone.\<close>

definition core :: "SenderState \<Rightarrow> bool \<times> AdaptiveInterval \<times> nat \<times> int" where
  "core s = (ss_running s, ss_agg s, ss_reconnectFailures s, ss_lastReconnectAttempt s)"

lemma putLines_core: "putLines sk xs s = (b, s') \<Longrightarrow> core s' = core s \<and> ss_connected s' = ss_connected s"
proof (induction xs arbitrary: s)
  case (Cons x xs)
  then show ?case by (cases "sk_write sk x") (auto simp: putWire_def core_def)
qed (simp add: core_def)

lemma sendAnnounce_core: "sendAnnounce sk s = (b, s') \<Longrightarrow> core s' = core s \<and> ss_connected s' = ss_connected s"
proof -
  assume c: "sendAnnounce sk s = (b, s')"
  obtain b1 s1 where a: "putLines sk (announceLines sk) s = (b1, s1)" by fastforce
  from putLines_core [OF this] show ?thesis
    using c by (cases b1) (auto simp: sendAnnounce_def a core_def split: if_splits)
qed

lemma pollControl_core: "core (pollControl sk s) = core s"
proof -
  have one: "core (processCtrl sk l s) = core s" for l s by (simp add: processCtrl_def core_def split: prod.split)
  have "core (foldl (\<lambda>s l. processCtrl sk l s) s ls) = core s" for ls s
    by (induction ls arbitrary: s) (simp_all add: one)
  then show ?thesis by (auto simp: pollControl_def closeSender_def core_def split: prod.split bool.split)
qed

lemma reannounce_core: "core (reannounce sk s) = core s"
proof -
  obtain b s1 where a: "sendAnnounce sk (s\<lparr> ss_lastReannounceSec := sk_nowSec sk \<rparr>) = (b, s1)" by fastforce
  from sendAnnounce_core [OF this] have "core s1 = core s" by (simp add: core_def)
  then show ?thesis by (cases b) (simp_all add: reannounce_def a closeSender_def core_def)
qed

lemma connectedPart_core: "core (connectedPart cfg sk flush due s) = core s"
proof -
  have h: "core (sendHealth cfg sk due s) = core s" for s
    by (auto simp: sendHealth_def putWire_def closeSender_def core_def Let_def split: bool.split)
  have l: "core (sessionLimit sk s) = core s" for s by (simp add: sessionLimit_def closeSender_def core_def)
  have f: "core (sendFlush sk flush s) = core s" for s
    by (auto simp: sendFlush_def putWire_def closeSender_def core_def split: bool.split)
  show ?thesis by (simp add: connectedPart_def Let_def h l f reannounce_core pollControl_core)
qed

lemma connectUnlocked_core:
  "connectUnlocked sk s = (b, s') \<Longrightarrow> core s' = core s \<and> (b \<longrightarrow> ss_connected s')
     \<and> (\<not> b \<longrightarrow> \<not> ss_connected s \<longrightarrow> \<not> ss_connected s')"
proof -
  assume c: "connectUnlocked sk s = (b, s')"
  obtain b1 s1 where a: "sendAnnounce sk (s\<lparr> ss_connected := True \<rparr>) = (b1, s1)" by fastforce
  from sendAnnounce_core [OF this] have "core s1 = core s" "ss_connected s1" by (simp_all add: core_def)
  then show ?thesis using c by (cases b1) (auto simp: connectUnlocked_def a closeSender_def core_def split: if_splits)
qed

lemma resetInterval_ok: "interval_ok a \<Longrightarrow> interval_ok (resetInterval a)"
  by (auto simp: interval_ok_def resetInterval_def)

text \<open>An iteration that tries to connect, and the rule it must obey.\<close>

definition attempts :: "SenderCfg \<Rightarrow> SenderTick \<Rightarrow> SenderState \<Rightarrow> bool" where
  "attempts cfg sk s \<longleftrightarrow> \<not> sk_stop sk \<and> \<not> ss_connected s \<and>
     \<not> (encodeFlows (ss_flowTable s) = [] \<and> \<not> sk_netChanged sk \<and> \<not> healthDue sk s) \<and> \<not> waitInterval cfg sk s"

definition step_policy :: "SenderCfg \<Rightarrow> SenderTick \<Rightarrow> SenderState \<Rightarrow> SenderState \<Rightarrow> bool" where
  "step_policy cfg sk s s' \<longleftrightarrow>
     (if sk_stop sk then \<not> ss_running s' \<and> ss_reconnectFailures s' = ss_reconnectFailures s
      else if attempts cfg sk s
      then ss_lastReconnectAttempt s' = sk_now sk \<and>
        (ss_reconnectFailures s' = 0 \<and> ss_running s' \<and> sk_connect sk \<or>
         ss_reconnectFailures s' = ss_reconnectFailures s + 1 \<and> \<not> ss_connected s' \<and>
         (ss_running s' \<longleftrightarrow> ss_reconnectFailures s' < sc_reconnectMaxAttempts cfg))
      else ss_running s' \<and> ss_reconnectFailures s' = ss_reconnectFailures s \<and>
        ss_lastReconnectAttempt s' = ss_lastReconnectAttempt s)"

lemma senderStep_cases:
  assumes "sender_ok cfg s" "ss_running s"
  shows "\<exists>s'. senderStep cfg sk s = Some s' \<and> sender_ok cfg s' \<and> step_policy cfg sk s s' \<and>
    (\<not> ss_connected s \<longrightarrow> \<not> sk_connect sk \<longrightarrow> ss_wire s' = ss_wire s)"
proof (cases "sk_stop sk")
  case True
  then show ?thesis using assms by (auto simp: senderStep_def sender_ok_def step_policy_def)
next
  case False
  have i: "interval_ok (ss_agg s)" using assms(1) by (simp add: sender_ok_def)
  let ?flush = "encodeFlows (ss_flowTable s)"
  obtain s1 where d: "drainTable cfg s = Some (?flush, s1)" "ss_connected s1 = ss_connected s" "ss_wire s1 = ss_wire s"
    "interval_ok (ss_agg s1)" "ss_running s1" "ss_reconnectFailures s1 = ss_reconnectFailures s"
    "ss_lastReconnectAttempt s1 = ss_lastReconnectAttempt s" "ss_lastHealthSec s1 = ss_lastHealthSec s"
    using drainTable_ok [OF i, of cfg] assms(2) updateInterval_cases [OF i, of "of_nat (length (ss_flowTable s))"]
    by (auto simp: drainTable_def Let_def split: if_splits)
  have due: "healthDue sk s1 = healthDue sk s" by (simp add: healthDue_def d)
  have wait: "waitInterval cfg sk s1 = waitInterval cfg sk s" by (simp add: waitInterval_def d)
  let ?due = "healthDue sk s" and ?idle = "?flush = [] \<and> \<not> sk_netChanged sk \<and> \<not> healthDue sk s"
  have f: "ss_reconnectFailures s < sc_reconnectMaxAttempts cfg" using assms by (simp add: sender_ok_def)
  show ?thesis
  proof (cases "ss_connected s")
    case True
    let ?s' = "connectedPart cfg sk ?flush ?due s1"
    have "senderStep cfg sk s = Some ?s'" using False True d by (simp add: senderStep_def due Let_def)
    moreover have "core ?s' = core s1" by (rule connectedPart_core)
    moreover have "ss_reconnectFailures s = 0" using assms(1) True by (simp add: sender_ok_def)
    ultimately show ?thesis
      using True False f d by (simp add: sender_ok_def core_def step_policy_def attempts_def)
  next
    case conn: False
    show ?thesis
    proof (cases "?idle \<or> waitInterval cfg sk s")
      case True
      then have "reconnect cfg sk ?idle s1 = (False, s1)" by (auto simp: reconnect_def wait)
      then have "senderStep cfg sk s = Some s1" using False conn d by (simp add: senderStep_def due Let_def)
      then show ?thesis
        using True False conn f d assms by (auto simp: sender_ok_def step_policy_def attempts_def)
    next
      case go: False
      let ?s2 = "s1\<lparr> ss_lastReconnectAttempt := sk_now sk \<rparr>"
      have att: "attempts cfg sk s" using False conn go by (auto simp: attempts_def)
      obtain b s3 where c: "connectUnlocked sk ?s2 = (b, s3)" by fastforce
      note cc = connectUnlocked_core [OF c]
      have core3: "ss_running s3" "interval_ok (ss_agg s3)" "ss_reconnectFailures s3 = ss_reconnectFailures s"
        "ss_lastReconnectAttempt s3 = sk_now sk" using cc d by (auto simp: core_def)
      show ?thesis
      proof (cases b)
        case True
        let ?s4 = "s3\<lparr> ss_reconnectFailures := 0, ss_agg := resetInterval (ss_agg s3) \<rparr>"
        let ?s' = "connectedPart cfg sk ?flush ?due ?s4"
        have "reconnect cfg sk ?idle s1 = (True, ?s4)" using go True c by (auto simp: reconnect_def wait)
        then have "senderStep cfg sk s = Some ?s'" using False conn d by (simp add: senderStep_def due Let_def)
        moreover have "core ?s' = core ?s4" by (rule connectedPart_core)
        moreover have "sk_connect sk" using c True by (auto simp: connectUnlocked_def split: if_splits)
        ultimately show ?thesis
          using False att core3 f resetInterval_ok [OF core3(2)]
          by (auto simp: sender_ok_def core_def step_policy_def)
      next
        case nb: False
        define s4 where "s4 = s3\<lparr> ss_reconnectFailures := ss_reconnectFailures s3 + 1 \<rparr>"
        define s' where "s' = (if ss_reconnectFailures s4 \<ge> sc_reconnectMaxAttempts cfg
          then s4\<lparr> ss_running := False \<rparr> else s4)"
        have "reconnect cfg sk ?idle s1 = (False, s')"
          using go nb c by (auto simp: reconnect_def wait s'_def s4_def Let_def)
        then have "senderStep cfg sk s = Some s'" using False conn d by (simp add: senderStep_def due Let_def)
        moreover have "\<not> ss_connected s3" using cc nb conn d by simp
        moreover have "\<not> sk_connect sk \<Longrightarrow> ss_wire s3 = ss_wire s"
          using c d by (auto simp: connectUnlocked_def)
        ultimately show ?thesis
          using False att core3 f by (auto simp: sender_ok_def step_policy_def s'_def s4_def)
      qed
    qed
  qed
qed

lemma sender_run_ok: "sender_run cfg s0 s \<Longrightarrow> sender_ok cfg s0 \<Longrightarrow> sender_ok cfg s"
proof (induction rule: sender_run.induct)
  case (run_packet s t m)
  then show ?case by (simp add: sender_ok_def capturePacket_def)
next
  case (run_tick s t tk u)
  then show ?case using senderStep_cases [of cfg t tk] by auto
qed

section \<open>Properties\<close>

text \<open>The flow table of captured packets, and the iteration that flushes it.\<close>

lemma captured_flows:
  assumes "\<forall>m \<in> set ms. pm_iface m = iface \<and> packet_ok m" "\<forall>k. key_bytes k ms \<le> 0xFFFFFFFF"
  shows "(k, n) \<in> set (table_of mx ms) \<Longrightarrow>
      ak_iface k = iface \<and> label_ok 64 (ak_iface k) \<and> label_ok 46 (ak_srcIp k) \<and> label_ok 46 (ak_dstIp k) \<and> unat n \<le> 0xFFFFFFFF"
    and "encodeFlows (table_of mx ms) = flow_stream iface (flows_of (table_of mx ms))"
    and "list_all flow_ok (flows_of (table_of mx ms))"
    and "length (flows_of (table_of mx ms)) = card (flowKey ` set ms)"
    and "flow_bytes (flows_of (table_of mx ms)) = total_bytes ms"
proof -
  have small: "\<forall>k. key_bytes k ms < 2 ^ 64"
  proof
    show "key_bytes k ms < 2 ^ 64" for k using assms(2) [rule_format, of k] by simp
  qed
  show entry: "(k, n) \<in> set (table_of mx ms) \<Longrightarrow>
      ak_iface k = iface \<and> label_ok 64 (ak_iface k) \<and> label_ok 46 (ak_srcIp k) \<and> label_ok 46 (ak_dstIp k) \<and> unat n \<le> 0xFFFFFFFF"
    for k n
    using table_entry [OF small] assms by (fastforce simp: flowKey_def packet_ok_def)
  show "encodeFlows (table_of mx ms) = flow_stream iface (flows_of (table_of mx ms))"
    by (rule encodeFlows_stream) (use entry in auto)
  show "list_all flow_ok (flows_of (table_of mx ms))"
    using entry by (auto simp: list_all_iff flows_of_def flow_ok_def word_le_nat_alt)
  show "length (flows_of (table_of mx ms)) = card (flowKey ` set ms)" "flow_bytes (flows_of (table_of mx ms)) = total_bytes ms"
    using sum_table [OF small] by (simp_all add: length_table flow_bytes_flows_of)
qed

lemma capture_flush:
  assumes "sender_ok scfg s" "ss_connected s" "ss_flowTable s = []" "ms \<noteq> []"
    and "\<forall>m \<in> set ms. pm_iface m = iface \<and> packet_ok m" "\<forall>k. key_bytes k ms \<le> 0xFFFFFFFF"
    and "\<not> sk_stop sk" "\<And>x. sk_write sk x" "sk_poll sk \<noteq> PollClosed"
    and "(sk_elapsedAt sk - ss_sessionStart s) div 1000000000 < kMaxSessionSeconds"
  shows "\<exists>s' sd. senderStep scfg sk (fold (capturePacket scfg) ms s) = Some s' \<and>
    drainTable scfg (fold (capturePacket scfg) ms s) = Some (encodeFlows (table_of (sc_aggMaxFlows scfg) ms), sd) \<and>
    ss_wire s' = ss_wire s @ map (\<lambda>x. (x, True))
      (linesBefore scfg sk (healthDue sk s) sd @ [encodeFlows (table_of (sc_aggMaxFlows scfg) ms)]) \<and>
    ss_flowTable s' = [] \<and> ss_connected s'"
proof -
  let ?T = "table_of (sc_aggMaxFlows scfg) ms" and ?s = "fold (capturePacket scfg) ms s"
  obtain m where "m \<in> set ms" using assms(4) by (cases ms) auto
  have "ss_flowTable ?s = ?T" using capture_flowTable(1) [of scfg ms s] assms(3) by (simp add: table_of_def)
  then have s: "?s = s\<lparr> ss_flowTable := ?T \<rparr>" using capture_flowTable(2) [of scfg ms s] by simp
  have "?T \<noteq> []" using has_key_table [of "flowKey m" "sc_aggMaxFlows scfg" ms] \<open>m \<in> set ms\<close> by auto
  then obtain k n where kn: "(k, n) \<in> set ?T" by (cases ?T) auto
  from encodeFlows_nonempty [OF this] captured_flows(1) [OF assms(5,6) this] have ne: "encodeFlows ?T \<noteq> []" by auto
  have "interval_ok (ss_agg ?s)" using assms(1) by (simp add: s sender_ok_def)
  from drainTable_ok [OF this, of scfg] obtain s1 where d: "drainTable scfg ?s = Some (encodeFlows ?T, s1)"
    "ss_flowTable s1 = []" "ss_connected s1" "ss_wire s1 = ss_wire s" "ss_sessionStart s1 = ss_sessionStart s"
    "ss_lastHealthSec s1 = ss_lastHealthSec s"
    using assms(2) by (auto simp: s)
  have due: "healthDue sk s1 = healthDue sk s" by (simp add: healthDue_def d)
  define s' where "s' = connectedPart scfg sk (encodeFlows ?T) (healthDue sk s) s1"
  have "senderStep scfg sk ?s = Some s'" using assms(7) d by (simp add: senderStep_def s'_def due Let_def)
  moreover have "ss_wire s' = ss_wire s @ map (\<lambda>x. (x, True)) (linesBefore scfg sk (healthDue sk s) s1 @ [encodeFlows ?T])"
    "ss_connected s'" "ss_flowTable s' = []"
    using connectedPart_flush [OF d(3) assms(8,9) ne, of scfg "healthDue sk s"] assms(10) d
    by (auto simp: s'_def)
  ultimately show ?thesis using d(1) by blast
qed

text \<open>
  C1.  From the wire of the monitored network to the day totals of the server: the packets that a
  connected client captures on an interface between two iterations leave the flow table in one flush.
  The iteration writes exactly the answers to the control lines that have arrived, the announcement and
  the health report when they are due, and then this flush, once.  However the network cuts the flush,
  the server's loop counts exactly one line of it for every distinct flow and exactly the sum of the
  bytes of all the packets.  The conditions are
  a healthy connection within its session limit, flows of less than 4 GiB each, and the limits of the
  server's loop.
\<close>

theorem capture_to_totals:
  assumes "sender_ok scfg s" "ss_connected s" "ss_flowTable s = []" "ms \<noteq> []"
    and "\<forall>m \<in> set ms. pm_iface m = iface \<and> packet_ok m" "\<forall>k. key_bytes k ms \<le> 0xFFFFFFFF"
    and "\<not> sk_stop sk" "\<And>x. sk_write sk x" "sk_poll sk \<noteq> PollClosed"
    and "(sk_elapsedAt sk - ss_sessionStart s) div 1000000000 < kMaxSessionSeconds"
    and "flush = encodeFlows (table_of (sc_aggMaxFlows scfg) ms)" "concat ds = flush"
    and "max_iface_len cfg = kMaxIfaceLabelLen" "max_ip_len cfg = kMaxIpLabelLen"
    and "steady_at t ses" "s_buffer ses = []" "start \<le> t" "t - start < kMaxSessionSeconds"
    and "0 < idle_timeout_seconds cfg" "length flush \<le> max_recv_buffer_bytes cfg"
    and "stats_ok (w_stats w)" "iface_free env iface w"
    and "room cfg env t y iface ses w (card (flowKey ` set ms)) (total_bytes ms)"
  shows "\<exists>s' sd ses' st'. senderStep scfg sk (fold (capturePacket scfg) ms s) = Some s' \<and>
    drainTable scfg (fold (capturePacket scfg) ms s) = Some (flush, sd) \<and>
    ss_wire s' = ss_wire s @ map (\<lambda>x. (x, True)) (linesBefore scfg sk (healthDue sk s) sd @ [flush]) \<and>
    ss_flowTable s' = [] \<and> ss_connected s' \<and>
    runWireDataLoop cfg env noInflate start (map (dataTick t y) ds) ses w () = Going ses' (w\<lparr> w_stats := st' \<rparr>) () \<and>
    unat (packets (day_total env y iface (w\<lparr> w_stats := st' \<rparr>))) =
      unat (packets (day_total env y iface w)) + card (flowKey ` set ms) \<and>
    unat (octets (day_total env y iface (w\<lparr> w_stats := st' \<rparr>))) = unat (octets (day_total env y iface w)) + total_bytes ms"
proof -
  let ?T = "table_of (sc_aggMaxFlows scfg) ms"
  note F = captured_flows [OF assms(5,6), where mx = "sc_aggMaxFlows scfg"]
  obtain m where "m \<in> set ms" using assms(4) by (cases ms) auto
  then have iface: "label_ok 64 iface" using assms(5) by (auto simp: packet_ok_def)
  have stream: "flush = flow_stream iface (flows_of ?T)" by (simp add: assms(11) F(2))
  have room: "room cfg env t y iface ses w (length (flows_of ?T)) (flow_bytes (flows_of ?T))"
    using assms(23) by (simp only: F(4,5))
  obtain ses' st' where
    "runWireDataLoop cfg env noInflate start (map (dataTick t y) ds) ses w () = Going ses' (w\<lparr> w_stats := st' \<rparr>) ()"
    "unat (packets (day_total env y iface (w\<lparr> w_stats := st' \<rparr>))) =
      unat (packets (day_total env y iface w)) + card (flowKey ` set ms)"
    "unat (octets (day_total env y iface (w\<lparr> w_stats := st' \<rparr>))) = unat (octets (day_total env y iface w)) + total_bytes ms"
    using flow_stream_counted [OF iface F(3) assms(12) [unfolded stream] assms(13-19) assms(20) [unfolded stream]
      assms(21,22) room] unfolding F(4,5) by blast
  with capture_flush [OF assms(1-10)] assms(11) show ?thesis by blast
qed

definition demo_sender_cfg :: SenderCfg where
  "demo_sender_cfg = \<lparr> sc_aggMaxFlows = 10000, sc_reconnectMaxAttempts = 10, sc_reconnectIntervalSec = 60,
     sc_report = \<lparr> r_pcapRecv = 0, r_pcapDrop = 0, r_bufDrop = 0, r_version = ''1'', r_wireProto = 4, r_platform = ''l'',
       r_aggIntervalMs = 100, r_aggFlows = 0, r_webSocket = False, r_compress = False, r_sendBuffer = 0,
       r_autoUpdate = False, r_reconnectAttempts = 10, r_reconnectInterval = 60, r_aggTarget = 500,
       r_aggMinMs = 100, r_aggMaxMs = 5000, r_aggMaxFlows = 10000, r_logLevel = LvInfo \<rparr> \<rparr>"

definition demo_sender :: SenderState where
  "demo_sender = \<lparr> ss_running = True, ss_flowTable = [], ss_agg = newInterval 500 100 5000, ss_aggLastFlows = 0,
     ss_connected = True, ss_ctrlInBuf = [], ss_sessionStart = 0, ss_lastReannounceSec = 0, ss_lastHealthSec = 0,
     ss_pcapRecv = 0, ss_pcapDrop = 0, ss_bufDrop = 0, ss_reconnectFailures = 0, ss_lastReconnectAttempt = 0,
     ss_logger = demo_logger, ss_wire = [] \<rparr>"

definition demo_sender_tick :: SenderTick where
  "demo_sender_tick = \<lparr> sk_stop = False, sk_netChanged = False, sk_nowSec = 10, sk_now = 10000000000, sk_connect = False,
     sk_announceSec = 10, sk_connectedAt = 0, sk_elapsedAt = 10000000000, sk_lanAddrs = [], sk_extIp = [],
     sk_poll = PollNothing, sk_ctrl = demo_ctrl \<rparr>"

definition demo_packet :: "u32 \<Rightarrow> PacketMeta" where
  "demo_packet n = \<lparr> pm_iface = ''eth0'', pm_srcIp = ''a'', pm_dstIp = ''b'', pm_bytes = n \<rparr>"

lemma demo_sender_ok: "sender_ok demo_sender_cfg demo_sender"
  by (simp add: sender_ok_def demo_sender_def demo_sender_cfg_def interval_ok_def newInterval_def)

theorem capture_to_totals_witness:
  "\<exists>s' ses' w' flush. senderStep demo_sender_cfg demo_sender_tick
       (fold (capturePacket demo_sender_cfg) [demo_packet 5, demo_packet 7] demo_sender) = Some s' \<and>
     last (ss_wire s') = (flush, True) \<and>
     runWireDataLoop demo_cfg demo_env noInflate 0 (map (dataTick 10 99) [take 3 flush, drop 3 flush])
       (Session0 10 demo_world) demo_world () = Going ses' w' () \<and>
     unat (octets (day_total demo_env 99 ''eth0'' w')) = 12"
proof -
  let ?ms = "[demo_packet 5, demo_packet 7]"
  let ?flush = "encodeFlows (table_of (sc_aggMaxFlows demo_sender_cfg) ?ms)"
  have p: "\<forall>m \<in> set ?ms. pm_iface m = ''eth0'' \<and> packet_ok m"
    by (simp add: demo_packet_def packet_ok_def label_ok_def isSep_def)
  have k: "flowKey (demo_packet n) = \<lparr> ak_iface = ''eth0'', ak_srcIp = ''a'', ak_dstIp = ''b'' \<rparr>" for n
    by (simp add: flowKey_def demo_packet_def)
  have b: "\<forall>k. key_bytes k ?ms \<le> 0xFFFFFFFF" by (auto simp: key_bytes_def demo_packet_def)
  have flush: "length ?flush \<le> max_recv_buffer_bytes demo_cfg"
    using length_show_unat [of 12]
    by (simp add: table_of_def accumulateFlow_def upd_at_def at_or_def k Let_def encodeFlows_def demo_cfg_def
        encodeDataLine_def c_str_def kDataLinePrefix_def dataLineBody_def demo_packet_def)
  have tick: "ce_write (sk_ctrl demo_sender_tick) x" "sk_poll demo_sender_tick \<noteq> PollClosed" "\<not> sk_stop demo_sender_tick"
    "(sk_elapsedAt demo_sender_tick - ss_sessionStart demo_sender) div 1000000000 < kMaxSessionSeconds" for x
    by (simp_all add: demo_sender_tick_def demo_ctrl_def demo_sender_def kMaxSessionSeconds_def)
  have snd: "ss_connected demo_sender" "ss_flowTable demo_sender = []" by (simp_all add: demo_sender_def)
  have c1: "card (flowKey ` set ?ms) = 1" by (simp add: k)
  have c2: "total_bytes ?ms = 12" by (simp add: total_bytes_def demo_packet_def)
  note c = c1 c2
  have r: "room demo_cfg demo_env 10 99 ''eth0'' (Session0 10 demo_world) demo_world (card (flowKey ` set ?ms)) (total_bytes ?ms)"
    unfolding c by (simp add: room_def demo_day_total demo_cfg_def Session0_def Counter0_def)
  from capture_to_totals [OF demo_sender_ok snd _ p b tick(3,1,2,4) refl, of "[take 3 ?flush, drop 3 ?flush]" demo_cfg
      10 "Session0 10 demo_world" 0 demo_world demo_env 99] flush r demo_room
  obtain s' sd ses' st' where "senderStep demo_sender_cfg demo_sender_tick
      (fold (capturePacket demo_sender_cfg) ?ms demo_sender) = Some s'"
    "ss_wire s' = ss_wire demo_sender @ map (\<lambda>x. (x, True))
      (linesBefore demo_sender_cfg demo_sender_tick (healthDue demo_sender_tick demo_sender) sd @ [?flush])"
    "runWireDataLoop demo_cfg demo_env noInflate 0 (map (dataTick 10 99) [take 3 ?flush, drop 3 ?flush])
       (Session0 10 demo_world) demo_world () = Going ses' (demo_world\<lparr> w_stats := st' \<rparr>) ()"
    "unat (octets (day_total demo_env 99 ''eth0'' (demo_world\<lparr> w_stats := st' \<rparr>))) = 12"
    by (auto simp: demo_cfg_def steady_at_def Session0_def kMaxSessionSeconds_def kMaxIfaceLabelLen_def kMaxIpLabelLen_def
        demo_day_total Counter0_def c)
  then show ?thesis by (intro exI conjI) (assumption | simp)+
qed

text \<open>An iteration with swapped interval bounds calls \<open>std::clamp\<close> outside its domain, unless the table is full.\<close>

lemma senderStep_undefined:
  assumes "maxIntervalMs (ss_agg t) < minIntervalMs (ss_agg t)" "\<not> sk_stop sk"
    and "length (ss_flowTable t) < unat (sc_aggMaxFlows cfg)"
  shows "senderStep cfg sk t = None"
  using assms by (simp add: senderStep_def drainTable_def updateInterval_def clampU_def Let_def)

text \<open>
  C22.  The reconnect policy of the sender, over every run from a state whose interval bounds are in order
  (minimum, current value and maximum ascend, within a minute), with fewer failures than the maximum
  and none while connected: an iteration never
  gets stuck or undefined; after a failed attempt the next one comes only after the configured
  interval; each failed attempt is counted, the sender gives up exactly when the count reaches the
  maximum, and otherwise stops only on request; a connected sender has no failures outstanding, and
  without a connection nothing is written.  The order of the bounds is needed, and the configuration
  does not ensure it: in any state whose minimum exceeds its maximum an iteration is undefined, unless
  it stops or its table is full.
\<close>

theorem sender_reconnect_policy:
  assumes "sender_run cfg s0 s" "sender_ok cfg s0" "ss_running s"
  shows "sender_ok cfg s \<and>
    (\<exists>s'. senderStep cfg sk s = Some s' \<and> sender_ok cfg s' \<and> step_policy cfg sk s s' \<and>
      (\<not> ss_connected s \<longrightarrow> \<not> sk_connect sk \<longrightarrow> ss_wire s' = ss_wire s) \<and>
      (attempts cfg sk s \<longrightarrow> 0 < ss_reconnectFailures s \<longrightarrow>
         sc_reconnectIntervalSec cfg \<le> (sk_now sk - ss_lastReconnectAttempt s) div 1000000000)) \<and>
    (\<forall>t. maxIntervalMs (ss_agg t) < minIntervalMs (ss_agg t) \<longrightarrow> \<not> sk_stop sk \<longrightarrow>
       length (ss_flowTable t) < unat (sc_aggMaxFlows cfg) \<longrightarrow> senderStep cfg sk t = None)"
proof -
  have ok: "sender_ok cfg s" by (rule sender_run_ok [OF assms(1,2)])
  then show ?thesis
    using senderStep_cases [OF ok assms(3), of sk] by (auto simp: attempts_def waitInterval_def senderStep_undefined)
qed

theorem sender_reconnect_policy_witness:
  "\<exists>s'. senderStep demo_sender_cfg demo_sender_tick (demo_sender\<lparr> ss_connected := False, ss_lastHealthSec := -100 \<rparr>) = Some s' \<and>
     ss_reconnectFailures s' = 1 \<and> ss_running s' \<and> ss_wire s' = []"
proof -
  let ?s = "demo_sender\<lparr> ss_connected := False, ss_lastHealthSec := -100 \<rparr>"
  have ok: "sender_ok demo_sender_cfg ?s" using demo_sender_ok by (simp add: sender_ok_def demo_sender_def)
  have a: "attempts demo_sender_cfg demo_sender_tick ?s"
    by (simp add: attempts_def waitInterval_def healthDue_def demo_sender_tick_def demo_sender_def kHealthIntervalSec_def)
  have n: "\<not> sk_connect demo_sender_tick" "\<not> sk_stop demo_sender_tick" "ss_running ?s" "ss_wire ?s = []"
    by (simp_all add: demo_sender_tick_def demo_sender_def)
  from sender_reconnect_policy [OF run_start ok n(3), of demo_sender_tick] n
  obtain s' where s': "senderStep demo_sender_cfg demo_sender_tick ?s = Some s'" "step_policy demo_sender_cfg demo_sender_tick ?s s'"
    "ss_wire s' = []" by auto
  with s' a n show ?thesis
    by (auto simp: step_policy_def demo_sender_def demo_sender_cfg_def)
qed

end
