(* ===== verification/Trust.thy ===== *)
theory Trust
  imports Codecs Wire "HOL-Library.List_Lexorder"
begin

text \<open>
  The two-tier trust chain of \<open>trust.hpp\<close>: root keys sign a delegation document, the delegation
  names build keys, a build key signs a binary, and the \<open>NTMSIG 2\<close> bundle beside the binary
  carries all of it.  The theory holds the strict text parsers (base64, lines, fields, versions,
  times), the two document parsers and \<open>verifyBundleWithRoots\<close>, with the signature check of
  \<open>server_signing.hpp\<close>.

  OpenSSL is an argument: the record \<open>Ossl\<close> holds the calls the code makes.  The compiled-in
  roots of the generated \<open>trust_roots.hpp\<close> are an argument too.
\<close>

section \<open>Data\<close>

definition kMaxBundleBytes :: nat where "kMaxBundleBytes = 64 * 1024"
definition kMaxDelegationBytes :: nat where "kMaxDelegationBytes = 48 * 1024"
definition kMaxDelegatedKeys :: nat where "kMaxDelegatedKeys = 8"
definition kMaxRootSigs :: nat where "kMaxRootSigs = 3"
definition kServerPlatform :: string where "kServerPlatform = ''linux-amd64''"
definition kTrustRootThreshold :: nat where "kTrustRootThreshold = 2"

record RootKey =
  rk_id :: string
  rk_der :: bytes

record RootSet =
  rs_keys :: "RootKey list"
  rs_threshold :: nat

record DelegatedKey =
  dk_id :: string
  dk_platform :: string
  dk_spki :: bytes

record Delegation =
  dg_version :: u64
  dg_expires :: int
  dg_keys :: "DelegatedKey list"

record Policy =
  po_checkExpiry :: bool
  po_now :: int
  po_minVersion :: u64

record Verified =
  vf_delegationVersion :: u64
  vf_expires :: int
  vf_keyId :: string
  vf_keySpki :: bytes

record Bundle =
  bd_document :: string
  bd_rootSigs :: "(string \<times> bytes) list"
  bd_keyId :: string
  bd_signature :: bytes

text \<open>Every way the code sets its error string.\<close>

datatype SigError = BinaryEmpty | SignatureEmpty | KeyLoadFailed | CtxFailed | InitFailed | VerifyFailed

datatype TrustError =
    DelegationTooLarge | DelegationMalformedLines | DelegationLineCount | DelegationBadHeader
  | DelegationBadVersion | DelegationBadExpires | DelegationBadKeyLine | DelegationBadKeyId
  | DelegationUnknownPlatform | DelegationUnsupportedAlgorithm | DelegationNotSpki string
  | DelegationDuplicateKeyId
  | BundleTooLarge | BundleNotNtmsig2 | BundleLineCount | BundleBadDelegation | BundleBadRootSig
  | BundleRootSigsNotAscending | BundleBadKeyId | BundleBadSignature
  | RootSignatures nat nat | DelegationExpired u64 | RollbackRejected u64 u64
  | KeyNotInDelegation string | KeyScope string string string | BinarySignature SigError

text \<open>The calls to OpenSSL: \<open>d2i_PUBKEY\<close> returns a key and the bytes after it,
  \<open>EVP_PKEY_is_a\<close> the name of its algorithm; then the verification context, its
  initialisation and \<open>EVP_DigestVerify\<close> on a signature and a message.\<close>

record 'k Ossl =
  d2i_PUBKEY :: "bytes \<Rightarrow> ('k \<times> bytes) option"
  pkey_is_a :: "'k \<Rightarrow> string \<Rightarrow> bool"
  mdCtxNew :: bool
  digestVerifyInit :: "'k \<Rightarrow> bool"
  digestVerify :: "'k \<Rightarrow> bytes \<Rightarrow> bytes \<Rightarrow> bool"

section \<open>Signature check on bytes\<close>

definition verifySignatureWithKeyBytes :: "'k Ossl \<Rightarrow> bytes \<Rightarrow> bytes \<Rightarrow> bytes \<Rightarrow> SigError + unit" where
  "verifySignatureWithKeyBytes ossl binData sigData derPubKey =
     (if binData = [] then Inl BinaryEmpty
      else if sigData = [] then Inl SignatureEmpty
      else case d2i_PUBKEY ossl derPubKey of
        None \<Rightarrow> Inl KeyLoadFailed
      | Some (pkey, _) \<Rightarrow>
          if \<not> mdCtxNew ossl then Inl CtxFailed
          else if \<not> digestVerifyInit ossl pkey then Inl InitFailed
          else if digestVerify ossl pkey sigData binData then Inr () else Inl VerifyFailed)"

definition sigOk :: "SigError + unit \<Rightarrow> bool" where
  "sigOk r = (case r of Inl _ \<Rightarrow> False | Inr _ \<Rightarrow> True)"

section \<open>Strict text parsers\<close>

text \<open>\<open>b64Decode\<close>.  \<open>b64Char\<close> is the body of the inner loop for position \<open>j\<close> of a group.\<close>

definition b64val :: "char \<Rightarrow> int" where
  "b64val c =
     (if in_range CHR ''A'' CHR ''Z'' c then int (code_of c) - int (code_of CHR ''A'')
      else if in_range CHR ''a'' CHR ''z'' c then int (code_of c) - int (code_of CHR ''a'') + 26
      else if in_range CHR ''0'' CHR ''9'' c then int (code_of c) - int (code_of CHR ''0'') + 52
      else if c = CHR ''+'' then 62
      else if c = CHR ''/'' then 63
      else -1)"

definition b64Char :: "bool \<Rightarrow> nat \<Rightarrow> nat \<Rightarrow> char \<Rightarrow> u32 option" where
  "b64Char final pad j c =
     (if c = CHR ''='' then (if \<not> final \<or> j < 4 - pad then None else Some 0)
      else if b64val c < 0 then None else Some (of_int (b64val c)))"

definition b64Group :: "bool \<Rightarrow> nat \<Rightarrow> u32 \<Rightarrow> u32 \<Rightarrow> u32 \<Rightarrow> u32 \<Rightarrow> bytes option" where
  "b64Group final pad v0 v1 v2 v3 =
     (let n = push_bit 18 v0 OR push_bit 12 v1 OR push_bit 6 v2 OR v3;
          out = [ucast (drop_bit 16 n)]
                @ (if \<not> (final \<and> pad = 2) then [ucast (drop_bit 8 n)] else [])
                @ (if \<not> (final \<and> pad \<ge> 1) then [ucast n] else [])
      in if final \<and> pad = 2 \<and> n AND 0xFFFF \<noteq> 0 then None
         else if final \<and> pad = 1 \<and> n AND 0xFF \<noteq> 0 then None
         else Some out)"

fun b64Loop :: "nat \<Rightarrow> string \<Rightarrow> bytes option" where
  "b64Loop pad (a # b # c # d # r) =
     (let final = (r = []) in
      case (b64Char final pad 0 a, b64Char final pad 1 b, b64Char final pad 2 c, b64Char final pad 3 d) of
        (Some v0, Some v1, Some v2, Some v3) \<Rightarrow>
          (case b64Group final pad v0 v1 v2 v3 of
             None \<Rightarrow> None
           | Some g \<Rightarrow> map_option (\<lambda>out. g @ out) (b64Loop pad r))
      | _ \<Rightarrow> None)"
| "b64Loop pad _ = Some []"

definition b64Decode :: "string \<Rightarrow> bytes option" where
  "b64Decode s =
     (if s = [] \<or> length s mod 4 \<noteq> 0 then None
      else let pad = (if s ! (length s - 1) = CHR ''='' then 1 else 0)
                   + (if s ! (length s - 2) = CHR ''='' then 1 else 0)
           in b64Loop pad s)"

text \<open>\<open>splitLines\<close>: the loop carries the characters since the last line end.\<close>

fun splitLoop :: "string \<Rightarrow> string \<Rightarrow> string list option" where
  "splitLoop cur [] = Some []"
| "splitLoop cur (c # s) =
     (if c = CR \<or> c = CHR 0x00 then None
      else if c = LF then (if cur = [] then None else map_option (\<lambda>ls. cur # ls) (splitLoop [] s))
      else splitLoop (cur @ [c]) s)"

definition splitLines :: "string \<Rightarrow> string list option" where
  "splitLines s = (if s = [] \<or> last s \<noteq> LF then None else splitLoop [] s)"

definition takePrefix :: "string \<Rightarrow> string \<Rightarrow> string option" where
  "takePrefix line p = (if take (length p) line \<noteq> p then None else Some (drop (length p) line))"

fun fieldLoop :: "string \<Rightarrow> string \<Rightarrow> string list option" where
  "fieldLoop cur [] = (if cur = [] then None else Some [cur])"
| "fieldLoop cur (c # s) =
     (if c = SP then (if cur = [] then None else map_option (\<lambda>f. cur # f) (fieldLoop [] s))
      else fieldLoop (cur @ [c]) s)"

definition splitFields :: "string \<Rightarrow> nat \<Rightarrow> string list option" where
  "splitFields s n = (case fieldLoop [] s of None \<Rightarrow> None | Some f \<Rightarrow> if length f = n then Some f else None)"

definition isIdChar :: "char \<Rightarrow> bool" where
  "isIdChar c \<longleftrightarrow> in_range CHR ''a'' CHR ''z'' c \<or> in_range CHR ''0'' CHR ''9'' c \<or> c = CHR ''-''"

definition isId :: "string \<Rightarrow> bool" where
  "isId s \<longleftrightarrow> s \<noteq> [] \<and> length s \<le> 32 \<and> list_all isIdChar s"

definition isKnownPlatform :: "string \<Rightarrow> bool" where
  "isKnownPlatform p \<longleftrightarrow> p = ''linux-amd64'' \<or> p = ''windows-amd64''"

fun versionLoop :: "u64 \<Rightarrow> string \<Rightarrow> u64 option" where
  "versionLoop v [] = Some v"
| "versionLoop v (c # s) =
     (if \<not> is_digit c then None else versionLoop (v * 10 + of_nat (code_of c - code_of CHR ''0'')) s)"

definition parseVersion :: "string \<Rightarrow> u64 option" where
  "parseVersion s =
     (if s = [] \<or> length s > 18 \<or> s ! 0 = CHR ''0'' then None else versionLoop 0 s)"

text \<open>C++ division truncates towards zero, hence the two cases of \<open>era\<close>; the other
  divisions have non-negative operands.\<close>

definition daysFromCivil :: "int \<Rightarrow> int \<Rightarrow> int \<Rightarrow> int" where
  "daysFromCivil y0 m d =
     (let y = (if m \<le> 2 then y0 - 1 else y0);
          era = (if y \<ge> 0 then y div 400 else - ((399 - y) div 400));
          yoe = y - era * 400;
          doy = (153 * (m + (if m > 2 then -3 else 9)) + 2) div 5 + d - 1;
          doe = yoe * 365 + yoe div 4 - yoe div 100 + doy
      in era * 146097 + doe - 719468)"

fun timeNum :: "int \<Rightarrow> string \<Rightarrow> int option" where
  "timeNum v [] = Some v"
| "timeNum v (c # s) = (if \<not> is_digit c then None else timeNum (v * 10 + int (digit_val c)) s)"

definition kDays :: "int list" where
  "kDays = [31, 29, 31, 30, 31, 30, 31, 31, 30, 31, 30, 31]"

definition isLeap :: "int \<Rightarrow> bool" where
  "isLeap y \<longleftrightarrow> (y mod 4 = 0 \<and> y mod 100 \<noteq> 0) \<or> y mod 400 = 0"

definition parseTime :: "string \<Rightarrow> int option" where
  "parseTime s =
     (if length s \<noteq> 20 \<or> s ! 4 \<noteq> CHR ''-'' \<or> s ! 7 \<noteq> CHR ''-'' \<or> s ! 10 \<noteq> CHR ''T''
         \<or> s ! 13 \<noteq> CHR '':'' \<or> s ! 16 \<noteq> CHR '':'' \<or> s ! 19 \<noteq> CHR ''Z'' then None
      else case (timeNum 0 (substr 0 4 s), timeNum 0 (substr 5 2 s), timeNum 0 (substr 8 2 s),
                 timeNum 0 (substr 11 2 s), timeNum 0 (substr 14 2 s), timeNum 0 (substr 17 2 s)) of
        (Some y, Some mo, Some d, Some h, Some mi, Some se) \<Rightarrow>
          if y < 2000 \<or> mo < 1 \<or> mo > 12 \<or> d < 1 \<or> d > kDays ! nat (mo - 1) \<or> h > 23 \<or> mi > 59
             \<or> se > 59 then None
          else if mo = 2 \<and> d = 29 \<and> \<not> isLeap y then None
          else Some (daysFromCivil y mo d * 86400 + h * 3600 + mi * 60 + se)
      | _ \<Rightarrow> None)"

definition isMlDsa65Spki :: "'k Ossl \<Rightarrow> bytes \<Rightarrow> bool" where
  "isMlDsa65Spki ossl der =
     (case d2i_PUBKEY ossl der of None \<Rightarrow> False
      | Some (pkey, rest) \<Rightarrow> pkey_is_a ossl pkey ''ML-DSA-65'' \<and> rest = [])"

section \<open>The delegation document\<close>

text \<open>\<open>parseKeyLine\<close> is the body of the loop over the key lines, \<open>prev\<close> the keys so far.\<close>

definition parseKeyLine :: "'k Ossl \<Rightarrow> DelegatedKey list \<Rightarrow> string \<Rightarrow> TrustError + DelegatedKey" where
  "parseKeyLine ossl prev line =
     (case (case takePrefix line ''key: '' of None \<Rightarrow> None | Some rest \<Rightarrow> splitFields rest 4) of
        None \<Rightarrow> Inl DelegationBadKeyLine
      | Some f \<Rightarrow>
          if \<not> isId (f ! 0) then Inl DelegationBadKeyId
          else if \<not> isKnownPlatform (f ! 1) then Inl DelegationUnknownPlatform
          else if f ! 2 \<noteq> ''ML-DSA-65'' then Inl DelegationUnsupportedAlgorithm
          else case b64Decode (f ! 3) of
            None \<Rightarrow> Inl (DelegationNotSpki (f ! 0))
          | Some spki \<Rightarrow>
              if \<not> isMlDsa65Spki ossl spki then Inl (DelegationNotSpki (f ! 0))
              else if list_ex (\<lambda>k. dk_id k = f ! 0) prev then Inl DelegationDuplicateKeyId
              else Inr \<lparr> dk_id = f ! 0, dk_platform = f ! 1, dk_spki = spki \<rparr>)"

fun parseKeyLines :: "'k Ossl \<Rightarrow> DelegatedKey list \<Rightarrow> string list \<Rightarrow> TrustError + DelegatedKey list" where
  "parseKeyLines ossl prev [] = Inr prev"
| "parseKeyLines ossl prev (l # ls) =
     (case parseKeyLine ossl prev l of Inl e \<Rightarrow> Inl e | Inr k \<Rightarrow> parseKeyLines ossl (prev @ [k]) ls)"

text \<open>\<open>parseDelegation\<close>, from the line count on, and from the start.\<close>

definition parseDelegationLines :: "'k Ossl \<Rightarrow> string list \<Rightarrow> TrustError + Delegation" where
  "parseDelegationLines ossl ls =
     (if length ls < 4 \<or> length ls > 3 + kMaxDelegatedKeys then Inl DelegationLineCount
      else if ls ! 0 \<noteq> ''ntm-delegation 1'' then Inl DelegationBadHeader
      else case (case takePrefix (ls ! 1) ''version: '' of None \<Rightarrow> None | Some rest \<Rightarrow> parseVersion rest) of
        None \<Rightarrow> Inl DelegationBadVersion
      | Some version \<Rightarrow>
          (case (case takePrefix (ls ! 2) ''expires: '' of None \<Rightarrow> None | Some rest \<Rightarrow> parseTime rest) of
             None \<Rightarrow> Inl DelegationBadExpires
           | Some expires \<Rightarrow>
               (case parseKeyLines ossl [] (drop 3 ls) of
                  Inl e \<Rightarrow> Inl e
                | Inr keys \<Rightarrow> Inr \<lparr> dg_version = version, dg_expires = expires, dg_keys = keys \<rparr>)))"

definition parseDelegation :: "'k Ossl \<Rightarrow> string \<Rightarrow> TrustError + Delegation" where
  "parseDelegation ossl doc =
     (if length doc > kMaxDelegationBytes then Inl DelegationTooLarge
      else case splitLines doc of
        None \<Rightarrow> Inl DelegationMalformedLines
      | Some ls \<Rightarrow> parseDelegationLines ossl ls)"

section \<open>The bundle\<close>

fun parseRootSigs :: "(string \<times> bytes) list \<Rightarrow> string list \<Rightarrow> TrustError + (string \<times> bytes) list" where
  "parseRootSigs acc [] = Inr acc"
| "parseRootSigs acc (l # ls) =
     (case (case takePrefix l ''root-sig: '' of None \<Rightarrow> None | Some rest \<Rightarrow> splitFields rest 2) of
        None \<Rightarrow> Inl BundleBadRootSig
      | Some f \<Rightarrow>
          if \<not> isId (f ! 0) then Inl BundleBadRootSig
          else case b64Decode (f ! 1) of
            None \<Rightarrow> Inl BundleBadRootSig
          | Some sig \<Rightarrow>
              if acc \<noteq> [] \<and> \<not> fst (last acc) < f ! 0 then Inl BundleRootSigsNotAscending
              else parseRootSigs (acc @ [(f ! 0, sig)]) ls)"

text \<open>\<open>parseBundle\<close>, from the line count on, and from the start.\<close>

definition parseBundleLines :: "string list \<Rightarrow> TrustError + Bundle" where
  "parseBundleLines ls =
     (if length ls < 5 \<or> length ls > 4 + kMaxRootSigs then Inl BundleLineCount
      else case (case takePrefix (ls ! 1) ''delegation: '' of None \<Rightarrow> None | Some rest \<Rightarrow> b64Decode rest) of
        None \<Rightarrow> Inl BundleBadDelegation
      | Some docBytes \<Rightarrow>
          (let nRoot = length ls - 4 in
           case parseRootSigs [] (take nRoot (drop 2 ls)) of
             Inl e \<Rightarrow> Inl e
           | Inr rootSigs \<Rightarrow>
               (case takePrefix (ls ! (2 + nRoot)) ''key-id: '' of
                  None \<Rightarrow> Inl BundleBadKeyId
                | Some keyId \<Rightarrow>
                    if \<not> isId keyId then Inl BundleBadKeyId
                    else (case (case takePrefix (ls ! (3 + nRoot)) ''signature: '' of
                                  None \<Rightarrow> None | Some rest \<Rightarrow> b64Decode rest) of
                            None \<Rightarrow> Inl BundleBadSignature
                          | Some signature \<Rightarrow>
                              Inr \<lparr> bd_document = bytes_str docBytes, bd_rootSigs = rootSigs,
                                    bd_keyId = keyId, bd_signature = signature \<rparr>))))"

definition parseBundle :: "bytes \<Rightarrow> TrustError + Bundle" where
  "parseBundle bs =
     (if length bs > kMaxBundleBytes then Inl BundleTooLarge
      else case splitLines (bytes_str bs) of
        None \<Rightarrow> Inl BundleNotNtmsig2
      | Some ls \<Rightarrow>
          if ls = [] \<or> ls ! 0 \<noteq> ''NTMSIG 2'' then Inl BundleNotNtmsig2
          else parseBundleLines ls)"

section \<open>Verification\<close>

text \<open>The nested loop that counts valid root signatures: only the first root of that id counts.\<close>

definition rootSigValid :: "'k Ossl \<Rightarrow> RootSet \<Rightarrow> bytes \<Rightarrow> string \<times> bytes \<Rightarrow> bool" where
  "rootSigValid ossl roots doc rs =
     (case rs of (rid, sig) \<Rightarrow>
        (case find (\<lambda>rk. rid = rk_id rk) (rs_keys roots) of
           None \<Rightarrow> False
         | Some rk \<Rightarrow> sigOk (verifySignatureWithKeyBytes ossl doc sig (rk_der rk))))"

definition countValid :: "'k Ossl \<Rightarrow> RootSet \<Rightarrow> bytes \<Rightarrow> (string \<times> bytes) list \<Rightarrow> nat" where
  "countValid ossl roots doc sigs =
     foldl (\<lambda>valid rs. if rootSigValid ossl roots doc rs then valid + 1 else valid) 0 sigs"

definition verifyBundleWithRoots ::
    "'k Ossl \<Rightarrow> bytes \<Rightarrow> bytes \<Rightarrow> string \<Rightarrow> RootSet \<Rightarrow> Policy \<Rightarrow> TrustError + Verified" where
  "verifyBundleWithRoots ossl binary bundleBytes platform roots policy =
     (case parseBundle bundleBytes of
        Inl e \<Rightarrow> Inl e
      | Inr b \<Rightarrow>
          (let doc = str_bytes (bd_document b);
               valid = countValid ossl roots doc (bd_rootSigs b)
           in if rs_threshold roots = 0 \<or> valid < rs_threshold roots
              then Inl (RootSignatures valid (rs_threshold roots))
              else case parseDelegation ossl (bd_document b) of
                Inl e \<Rightarrow> Inl e
              | Inr d \<Rightarrow>
                  if po_checkExpiry policy \<and> po_now policy \<ge> dg_expires d
                  then Inl (DelegationExpired (dg_version d))
                  else if dg_version d < po_minVersion policy
                  then Inl (RollbackRejected (dg_version d) (po_minVersion policy))
                  else case find (\<lambda>k. dk_id k = bd_keyId b) (dg_keys d) of
                    None \<Rightarrow> Inl (KeyNotInDelegation (bd_keyId b))
                  | Some key \<Rightarrow>
                      if dk_platform key \<noteq> platform
                      then Inl (KeyScope (bd_keyId b) (dk_platform key) platform)
                      else (case verifySignatureWithKeyBytes ossl binary (bd_signature b) (dk_spki key) of
                              Inl e \<Rightarrow> Inl (BinarySignature e)
                            | Inr _ \<Rightarrow> Inr \<lparr> vf_delegationVersion = dg_version d, vf_expires = dg_expires d,
                                              vf_keyId = dk_id key, vf_keySpki = dk_spki key \<rparr>)))"

definition productionRoots :: "RootKey list \<Rightarrow> RootSet" where
  "productionRoots kTrustRoots = \<lparr> rs_keys = kTrustRoots, rs_threshold = kTrustRootThreshold \<rparr>"

definition acceptPolicy :: "int \<Rightarrow> u64 \<Rightarrow> Policy" where
  "acceptPolicy nowUtc selfDelegationVersion =
     \<lparr> po_checkExpiry = True, po_now = nowUtc, po_minVersion = selfDelegationVersion \<rparr>"

definition startupPolicy :: Policy where
  "startupPolicy = \<lparr> po_checkExpiry = False, po_now = 0, po_minVersion = 0 \<rparr>"

definition verifyArtifactBytes ::
    "'k Ossl \<Rightarrow> RootKey list \<Rightarrow> bytes \<Rightarrow> bytes \<Rightarrow> string \<Rightarrow> Policy \<Rightarrow> TrustError + Verified" where
  "verifyArtifactBytes ossl kTrustRoots binary bundle platform policy =
     verifyBundleWithRoots ossl binary bundle platform (productionRoots kTrustRoots) policy"

text \<open>\<open>verifyArtifactFiles\<close>: a file that cannot be read (\<open>None\<close>) rejects; here the
  reading error is folded into \<open>None\<close>.\<close>

definition verifyArtifactFiles ::
    "'k Ossl \<Rightarrow> RootKey list \<Rightarrow> (string \<Rightarrow> bytes option) \<Rightarrow> string \<Rightarrow> string \<Rightarrow> string \<Rightarrow> Policy \<Rightarrow>
     (TrustError + Verified) option" where
  "verifyArtifactFiles ossl kTrustRoots readFile binaryPath sigPath platform policy =
     (case readFile binaryPath of None \<Rightarrow> None
      | Some bin \<Rightarrow> (case readFile sigPath of None \<Rightarrow> None
                     | Some sig \<Rightarrow> Some (verifyArtifactBytes ossl kTrustRoots bin sig platform policy)))"

section \<open>Base64: exactly one encoding per value\<close>

lemma b64val_kTable: "c \<noteq> CHR ''='' \<Longrightarrow> b64val c = kTable c"
  by (simp add: b64val_def kTable_def code_of_def)

lemma b64val_digit: "b64val (b64digit v) = int (unat (v AND 63))"
proof -
  have "kTable (b64digit v) \<noteq> -2" unfolding kTable_b64digit by linarith
  then have "b64digit v \<noteq> CHR ''=''" by (auto simp: kTable_def in_range_def code_of_def)
  then have "b64val (b64digit v) = kTable (b64digit v)" by (rule b64val_kTable)
  then show ?thesis unfolding kTable_b64digit .
qed

lemma b64digit_ne_pad: "b64digit v \<noteq> CHR ''=''"
proof
  assume "b64digit v = CHR ''=''"
  then have "b64val (b64digit v) = -1" by (simp add: b64val_def in_range_def code_of_def)
  then show False unfolding b64val_digit by linarith
qed

lemma code_of_eq: "code_of c = code_of d \<longleftrightarrow> c = d"
  by (simp add: code_of_def)

lemma b64val_inj: "0 \<le> b64val c \<Longrightarrow> b64val c = b64val d \<Longrightarrow> c = d"
proof -
  assume "0 \<le> b64val c" "b64val c = b64val d"
  then have "code_of c = code_of d"
    unfolding b64val_def in_range_def code_of_eq [symmetric]
    by (simp add: code_of_def del: of_char_eq_iff split: if_splits)
  then show "c = d" by (simp add: code_of_eq)
qed

lemma b64val_less: "b64val c < 64"
  by (simp add: b64val_def in_range_def code_of_def)

lemma b64digit_val:
  assumes "0 \<le> b64val c"
  shows "b64digit (of_int (b64val c)) = c" "of_int (b64val c) AND 63 = (of_int (b64val c) :: u32)"
proof -
  let ?v = "of_int (b64val c) :: u32"
  have "unat ?v = nat (b64val c)" using assms b64val_less [of c]
    by (simp add: unsigned_of_int take_bit_int_eq_self nat_less_iff)
  moreover have m: "(63 :: u32) = mask 6" by (rule b64_masks)
  ultimately show v: "?v AND 63 = ?v"
    using b64val_less [of c] unfolding m take_bit_eq_mask [symmetric]
    by (simp add: take_bit_word_eq_self word_unat_eq_iff unsigned_take_bit_eq take_bit_nat_eq_self)
  have "b64val (b64digit ?v) = b64val c"
    unfolding b64val_digit v using \<open>unat ?v = _\<close> assms by simp
  then show "b64digit ?v = c" using b64val_inj [of c] assms by metis
qed

lemma u6_eqI:
  fixes x y :: u32
  assumes "bit x 0 = bit y 0" "bit x 1 = bit y 1" "bit x 2 = bit y 2" "bit x 3 = bit y 3"
    "bit x 4 = bit y 4" "bit x 5 = bit y 5"
  shows "b64digit x = b64digit y"
proof -
  have "x AND 63 = y AND 63" unfolding b64_masks
  proof (rule bit_word_eqI)
    fix n :: nat
    consider "n = 0" | "n = 1" | "n = 2" | "n = 3" | "n = 4" | "n = 5" | "6 \<le> n" by linarith
    then show "bit (x AND mask 6) n = bit (y AND mask 6) n"
      by cases (use assms in \<open>auto simp: bit_simps\<close>)
  qed
  then show ?thesis by (simp add: b64digit_def)
qed

text \<open>The 24 bits of a group, read back as the digits they came from.\<close>

lemma b64_group_digits:
  fixes x0 x1 x2 x3 :: u32
  defines "n \<equiv> push_bit 18 (x0 AND 63) OR push_bit 12 (x1 AND 63) OR push_bit 6 (x2 AND 63) OR (x3 AND 63)"
  defines "a \<equiv> ucast (drop_bit 16 n) :: byte" and "b \<equiv> ucast (drop_bit 8 n) :: byte" and "c \<equiv> ucast n :: byte"
  shows "b64digit (drop_bit 18 (b64word a y z)) = b64digit x0"
    and "b64digit (drop_bit 12 (b64word a b z)) = b64digit x1"
    and "b64digit (drop_bit 6 (b64word a b c)) = b64digit x2"
    and "b64digit (b64word a b c) = b64digit x3"
  unfolding n_def a_def b_def c_def b64_masks b64word_def
  by (rule u6_eqI; simp add: bit_simps bit_byte_high)+

lemma b64_group_bytes:
  fixes a b c :: byte
  defines "n \<equiv> push_bit 18 (drop_bit 18 (b64word a b c) AND 63) OR push_bit 12 (drop_bit 12 (b64word a b c) AND 63)
    OR push_bit 6 (drop_bit 6 (b64word a b c) AND 63) OR (b64word a b c AND 63)"
  shows "ucast (drop_bit 16 n) = a" "ucast (drop_bit 8 n) = b" "ucast n = c"
  unfolding n_def b64_masks b64word_def
  by (rule byte_eqI; simp add: bit_simps bit_byte_high)+

lemma mask_zero_ucast:
  fixes n :: u32
  shows "n AND 0xFF = 0 \<longleftrightarrow> (ucast n :: byte) = 0"
    and "n AND 0xFFFF = 0 \<longleftrightarrow> (ucast n :: byte) = 0 \<and> (ucast (drop_bit 8 n) :: byte) = 0"
proof -
  have m: "(0xFF :: u32) = mask 8" "(0xFFFF :: u32) = mask 16" by (simp_all add: mask_eq_exp_minus_1)
  have u: "n AND mask k = 0 \<longleftrightarrow> unat n mod 2 ^ k = 0" for k
    unfolding take_bit_eq_mask [symmetric] word_unat_eq_iff
    by (simp only: unsigned_take_bit_eq take_bit_eq_mod [of k "unat n"] unsigned_0)
  have z: "(ucast n :: byte) = 0 \<longleftrightarrow> unat n mod 256 = 0"
    "(ucast (drop_bit 8 n) :: byte) = 0 \<longleftrightarrow> unat n div 256 mod 256 = 0"
    by (simp_all add: word_unat_eq_iff unat_ucast unat_drop_bit)
  show "n AND 0xFF = 0 \<longleftrightarrow> (ucast n :: byte) = 0" unfolding m u z by simp
  have "x mod 65536 = 0 \<longleftrightarrow> x mod 256 = 0 \<and> x div 256 mod 256 = 0" for x :: nat
    using mod_mult2_eq [of x 256 256] by auto
  then show "n AND 0xFFFF = 0 \<longleftrightarrow> (ucast n :: byte) = 0 \<and> (ucast (drop_bit 8 n) :: byte) = 0"
    unfolding m u z by simp
qed

text \<open>A full group of digits, and the two padded ones.\<close>

definition padOf :: "string \<Rightarrow> nat" where
  "padOf s = (if s ! (length s - 1) = CHR ''='' then 1 else 0) + (if s ! (length s - 2) = CHR ''='' then 1 else 0)"

lemma b64Char_digit [simp]: "b64Char final pad j (b64digit v) = Some (v AND 63)"
proof -
  have "\<not> b64val (b64digit v) < 0" "of_int (b64val (b64digit v)) = v AND 63"
    unfolding b64val_digit by simp_all
  then show ?thesis by (simp add: b64Char_def b64digit_ne_pad)
qed

lemma b64Char_pad: "b64Char final pad j CHR ''='' = (if final \<and> 4 - pad \<le> j then Some 0 else None)"
  by (auto simp: b64Char_def)

lemma b64Char_Some:
  assumes "b64Char final pad j c = Some v"
  shows "c = b64digit v \<and> v = v AND 63 \<or> c = CHR ''='' \<and> v = 0 \<and> final \<and> 4 - pad \<le> j"
proof (cases "c = CHR ''=''")
  case False
  then have "0 \<le> b64val c" "v = of_int (b64val c)" using assms by (auto simp: b64Char_def split: if_splits)
  then show ?thesis using b64digit_val [of c] by simp
qed (use assms in \<open>auto simp: b64Char_def split: if_splits\<close>)

lemma b64Group_full:
  assumes "\<not> (final \<and> 1 \<le> pad)"
  shows "b64Group final pad v0 v1 v2 v3 =
    (let n = push_bit 18 v0 OR push_bit 12 v1 OR push_bit 6 v2 OR v3 in
     Some [ucast (drop_bit 16 n), ucast (drop_bit 8 n), ucast n])"
  using assms by (auto simp: b64Group_def Let_def)

lemma b64Group_pad1: "b64Group True (Suc 0) v0 v1 v2 v3 =
    (let n = push_bit 18 v0 OR push_bit 12 v1 OR push_bit 6 v2 OR v3 in
     if (ucast n :: byte) = 0 then Some [ucast (drop_bit 16 n), ucast (drop_bit 8 n)] else None)"
  by (simp add: b64Group_def Let_def mask_zero_ucast(1))

lemma b64Group_pad2: "b64Group True 2 v0 v1 v2 v3 =
    (let n = push_bit 18 v0 OR push_bit 12 v1 OR push_bit 6 v2 OR v3 in
     if (ucast n :: byte) = 0 \<and> (ucast (drop_bit 8 n) :: byte) = 0 then Some [ucast (drop_bit 16 n)] else None)"
  by (simp add: b64Group_def Let_def mask_zero_ucast(2))

lemma base64_length: "length (base64 bs) mod 4 = 0"
  by (induction bs rule: base64.induct) (simp_all add: Let_def)

lemma base64_Nil_iff [simp]: "base64 bs = [] \<longleftrightarrow> bs = []"
  by (cases bs rule: base64.cases) (simp_all add: Let_def)

lemma padOf_append:
  assumes "2 \<le> length r"
  shows "padOf (p @ r) = padOf r"
proof -
  have "(p @ r) ! (length (p @ r) - k) = r ! (length r - k)" if "k \<le> length r" for k
  proof -
    have "length (p @ r) - k = length p + (length r - k)" using that by simp
    then show ?thesis by (simp only: nth_append_length_plus)
  qed
  from this [of 1] this [of 2] assms show ?thesis by (simp add: padOf_def)
qed

lemma padOf_Cons4:
  assumes "r \<noteq> []" "length r mod 4 = 0"
  shows "padOf (a # b # c # d # r) = padOf r"
proof -
  have "length r \<noteq> 0" "length r \<noteq> 1" using assms by auto
  then have "2 \<le> length r" by linarith
  then show ?thesis using padOf_append [of r "[a, b, c, d]"] by simp
qed

lemma b64word_pad: "b64word a b 0 AND 63 = 0" "drop_bit 6 (b64word a 0 0) AND 63 = 0"
  unfolding b64_masks b64word_def by (rule bit_word_eqI; auto simp: bit_simps)+

lemma b64Loop_base64: "bs \<noteq> [] \<Longrightarrow> b64Loop (padOf (base64 bs)) (base64 bs) = Some bs"
proof (induction bs rule: base64.induct)
  case (2 a)
  then show ?case using b64_group_bytes [of a 0 0, unfolded b64word_pad]
    by (simp add: Let_def padOf_def numeral_2_eq_2 [symmetric] b64Char_pad b64Group_pad2)
next
  case (3 a b)
  then show ?case using b64_group_bytes [of a b 0, unfolded b64word_pad]
    by (simp add: Let_def padOf_def b64digit_ne_pad b64Char_pad b64Group_pad1)
next
  case (4 a b c r)
  show ?case
  proof (cases "r = []")
    case True
    then show ?thesis using b64_group_bytes [of a b c]
      by (simp add: Let_def padOf_def b64digit_ne_pad b64Group_full)
  next
    case False
    then show ?thesis using b64_group_bytes [of a b c] 4
      by (simp add: Let_def padOf_Cons4 base64_length b64Group_full)
  qed
qed simp

lemma b64_group_inv:
  assumes "b64Char final pad 0 a = Some v0" "b64Char final pad 1 b = Some v1"
    "b64Char final pad 2 c = Some v2" "b64Char final pad 3 d = Some v3"
    "b64Group final pad v0 v1 v2 v3 = Some g" "final \<Longrightarrow> pad = padOf [a, b, c, d]"
  shows "base64 g = [a, b, c, d] \<and> (\<not> final \<longrightarrow> length g = 3)"
proof -
  have p: "pad = (if d = CHR ''='' then 1 else 0) + (if c = CHR ''='' then 1 else 0)" if final
    using assms(6) [OF that] by (simp add: padOf_def)
  have p2: "final \<Longrightarrow> pad \<le> 2" using p by simp
  have a: "a = b64digit v0" "v0 = v0 AND 63" and b: "b = b64digit v1" "v1 = v1 AND 63"
    using b64Char_Some [OF assms(1)] b64Char_Some [OF assms(2)] p2 by auto
  note gd = b64_group_digits [of v0 v1 v2 v3, folded a(2) b(2)]
  consider "c \<noteq> CHR ''=''" "d \<noteq> CHR ''=''" | "c \<noteq> CHR ''=''" "d = CHR ''=''" "final" "v3 = 0"
    | "c = CHR ''=''" "d = CHR ''=''" "final" "v2 = 0" "v3 = 0"
    using b64Char_Some [OF assms(3)] b64Char_Some [OF assms(4)] p
    by (auto simp: b64digit_ne_pad split: if_splits)
  then show ?thesis
  proof cases
    case 1
    then have c: "c = b64digit v2" "v2 = v2 AND 63" and d: "d = b64digit v3" "v3 = v3 AND 63"
      using b64Char_Some [OF assms(3)] b64Char_Some [OF assms(4)] by auto
    have "\<not> (final \<and> 1 \<le> pad)" using p 1 by auto
    from assms(5) [unfolded b64Group_full [OF this]] gd [folded c(2) d(2)] a b c d
    show ?thesis by (auto simp: Let_def)
  next
    case 2
    then have c: "c = b64digit v2" "v2 = v2 AND 63" using b64Char_Some [OF assms(3)] by auto
    have z: "v3 AND 63 = v3" using 2 by simp
    have "pad = Suc 0" using p 2 by simp
    then show ?thesis using assms(5) gd [folded c(2), unfolded z] a b c 2
      by (auto simp: b64Group_pad1 Let_def split: if_splits)
  next
    case 3
    have z: "v3 AND 63 = v3" "v2 AND 63 = v2" using 3 by simp_all
    have "pad = 2" using p 3 by simp
    then show ?thesis using assms(5) gd [unfolded z] a b 3
      by (auto simp: b64Group_pad2 Let_def split: if_splits)
  qed
qed

lemma base64_append: "length g = 3 \<Longrightarrow> base64 (g @ r) = base64 g @ base64 r"
  by (cases g rule: base64.cases) (auto simp: Let_def)

lemma b64Loop_inv:
  "b64Loop (padOf s) s = Some bs \<Longrightarrow> length s mod 4 = 0 \<Longrightarrow> base64 bs = s"
proof (induction s arbitrary: bs rule: measure_induct_rule [where f = length])
  case (less s)
  show ?case
  proof (cases "(padOf s, s)" rule: b64Loop.cases)
  case (1 pad0 a b c d r)
  then have s: "s = a # b # c # d # r" by simp
  define pad where "pad = padOf (a # b # c # d # r)"
  obtain v0 v1 v2 v3 g bs' where v: "b64Char (r = []) pad 0 a = Some v0" "b64Char (r = []) pad 1 b = Some v1"
      "b64Char (r = []) pad 2 c = Some v2" "b64Char (r = []) pad 3 d = Some v3"
      "b64Group (r = []) pad v0 v1 v2 v3 = Some g" "b64Loop pad r = Some bs'" "bs = g @ bs'"
    using less.prems(1) unfolding pad_def s by (auto simp: Let_def split: option.splits)
  have g: "base64 g = [a, b, c, d]" "r \<noteq> [] \<Longrightarrow> length g = 3"
    using b64_group_inv [OF v(1-5)] by (auto simp: pad_def)
  show ?thesis
  proof (cases "r = []")
    case True
    with v g s show ?thesis by simp
  next
    case False
    have "length (a # b # c # d # r) = length r + 4" by simp
    then have r: "length r mod 4 = 0" using less.prems(2) s by (simp only: mod_add_self2)
    have "pad = padOf r" unfolding pad_def by (rule padOf_Cons4 [OF False r])
    then have "base64 bs' = r" using less.IH [of r bs'] v r s by simp
    with v g False s show ?thesis by (simp add: base64_append)
  qed
  qed (use less.prems in auto)
qed

lemma b64Decode_iff: "b64Decode s = Some bs \<longleftrightarrow> bs \<noteq> [] \<and> s = base64 bs"
proof
  assume "b64Decode s = Some bs"
  then have "s \<noteq> []" "length s mod 4 = 0" "b64Loop (padOf s) s = Some bs"
    by (auto simp: b64Decode_def padOf_def Let_def split: if_splits)
  with b64Loop_inv [of s bs] show "bs \<noteq> [] \<and> s = base64 bs" by auto
next
  assume "bs \<noteq> [] \<and> s = base64 bs"
  with b64Loop_base64 [of bs] base64_length [of bs] show "b64Decode s = Some bs"
    by (simp add: b64Decode_def padOf_def Let_def)
qed

lemma b64Decode_base64 [simp]: "bs \<noteq> [] \<Longrightarrow> b64Decode (base64 bs) = Some bs"
  by (simp add: b64Decode_iff)

interpretation b64strict: codec "\<lambda>bs. bs \<noteq> []" base64 b64Decode
  by unfold_locales (simp add: b64Decode_iff)

section \<open>Lines, fields, numbers\<close>

lemma takePrefix_iff: "takePrefix line p = Some r \<longleftrightarrow> line = p @ r"
  by (auto simp: takePrefix_def) (metis append_take_drop_id)

lemma prefixed_Some:
  "(case takePrefix l p of None \<Rightarrow> None | Some rest \<Rightarrow> f rest) = Some x \<longleftrightarrow> (\<exists>r. l = p @ r \<and> f r = Some x)"
proof -
  have "(case takePrefix l p of None \<Rightarrow> None | Some rest \<Rightarrow> f rest) = Some x
      \<longleftrightarrow> (\<exists>r. takePrefix l p = Some r \<and> f r = Some x)"
    by (cases "takePrefix l p") simp_all
  then show ?thesis unfolding takePrefix_iff .
qed

definition line_ok :: "string \<Rightarrow> bool" where
  "line_ok l \<longleftrightarrow> l \<noteq> [] \<and> LF \<notin> set l \<and> CR \<notin> set l \<and> CHR 0x00 \<notin> set l"

definition unlines :: "string list \<Rightarrow> string" where
  "unlines ls = concat (map (\<lambda>l. l @ [LF]) ls)"

lemma unlines_simps [simp]: "unlines [] = []" "unlines (l # ls) = l @ LF # unlines ls"
  "unlines (ls @ ls') = unlines ls @ unlines ls'"
  by (simp_all add: unlines_def)

lemma splitLoop_line:
  "LF \<notin> set l \<Longrightarrow> CR \<notin> set l \<Longrightarrow> CHR 0x00 \<notin> set l \<Longrightarrow> cur @ l \<noteq> [] \<Longrightarrow>
    splitLoop cur (l @ LF # s) = map_option (\<lambda>ls. (cur @ l) # ls) (splitLoop [] s)"
  by (induction l arbitrary: cur) auto

lemma splitLoop_unlines: "list_all line_ok ls \<Longrightarrow> splitLoop [] (unlines ls) = Some ls"
proof (induction ls)
  case (Cons l ls)
  then show ?case using splitLoop_line [of l "[]" "unlines ls"] by (simp add: line_ok_def)
qed simp

lemma splitLoop_inv:
  "splitLoop cur s = Some ls \<Longrightarrow> (s = [] \<and> cur = []) \<or> (s \<noteq> [] \<and> last s = LF) \<Longrightarrow>
    LF \<notin> set cur \<Longrightarrow> CR \<notin> set cur \<Longrightarrow> CHR 0x00 \<notin> set cur \<Longrightarrow> cur @ s = unlines ls \<and> list_all line_ok ls"
proof (induction cur s arbitrary: ls rule: splitLoop.induct)
  case (2 cur c s)
  show ?case
  proof (cases "c = LF")
    case True
    with 2(3) obtain ls' where ls: "cur \<noteq> []" "splitLoop [] s = Some ls'" "ls = cur # ls'"
      by (auto split: if_splits)
    have "s = unlines ls' \<and> list_all line_ok ls'"
      using 2(1) [of ls'] 2(4) True ls by (cases s) auto
    moreover have "line_ok cur" using ls 2(5-7) by (simp add: line_ok_def)
    ultimately show ?thesis using ls True by simp
  next
    case False
    then show ?thesis using 2(2) [of ls] 2(3-7) by (auto split: if_splits)
  qed
qed simp

lemma splitLines_iff: "splitLines s = Some ls \<longleftrightarrow> ls \<noteq> [] \<and> list_all line_ok ls \<and> s = unlines ls"
proof
  assume "splitLines s = Some ls"
  then have "s \<noteq> []" "last s = LF" "splitLoop [] s = Some ls" by (auto simp: splitLines_def split: if_splits)
  with splitLoop_inv [of "[]" s ls] show "ls \<noteq> [] \<and> list_all line_ok ls \<and> s = unlines ls" by auto
next
  assume a: "ls \<noteq> [] \<and> list_all line_ok ls \<and> s = unlines ls"
  then have "s \<noteq> []" "last s = LF" by (cases ls rule: rev_cases; simp)+
  with a splitLoop_unlines [of ls] show "splitLines s = Some ls" by (simp add: splitLines_def)
qed

definition field_ok :: "string \<Rightarrow> bool" where
  "field_ok f \<longleftrightarrow> f \<noteq> [] \<and> SP \<notin> set f"

fun join_sp :: "string list \<Rightarrow> string" where
  "join_sp [] = []"
| "join_sp [f] = f"
| "join_sp (f # g # r) = f @ SP # join_sp (g # r)"

lemma fieldLoop_last: "SP \<notin> set f \<Longrightarrow> cur @ f \<noteq> [] \<Longrightarrow> fieldLoop cur f = Some [cur @ f]"
  by (induction f arbitrary: cur) auto

lemma fieldLoop_field:
  "SP \<notin> set f \<Longrightarrow> cur @ f \<noteq> [] \<Longrightarrow>
    fieldLoop cur (f @ SP # s) = map_option (\<lambda>fs. (cur @ f) # fs) (fieldLoop [] s)"
  by (induction f arbitrary: cur) auto

lemma fieldLoop_join: "list_all field_ok fs \<Longrightarrow> fs \<noteq> [] \<Longrightarrow> fieldLoop [] (join_sp fs) = Some fs"
  by (induction fs rule: join_sp.induct)
     (auto simp: field_ok_def fieldLoop_last fieldLoop_field simp del: fieldLoop.simps)

lemma fieldLoop_inv:
  "fieldLoop cur s = Some fs \<Longrightarrow> SP \<notin> set cur \<Longrightarrow> fs \<noteq> [] \<and> list_all field_ok fs \<and> cur @ s = join_sp fs"
proof (induction cur s arbitrary: fs rule: fieldLoop.induct)
  case (2 cur c s)
  show ?case
  proof (cases "c = SP")
    case True
    with 2(3) obtain fs' where fs: "cur \<noteq> []" "fieldLoop [] s = Some fs'" "fs = cur # fs'"
      by (auto split: if_splits)
    have "fs' \<noteq> [] \<and> list_all field_ok fs' \<and> s = join_sp fs'" using 2(1) True fs by simp
    moreover have "field_ok cur" using fs 2(4) by (simp add: field_ok_def)
    ultimately show ?thesis using fs True by (cases fs') auto
  next
    case False
    then show ?thesis using 2(2) [of fs] 2(3,4) by auto
  qed
qed (auto simp: field_ok_def split: if_splits)

lemma splitFields_iff:
  "splitFields s n = Some fs \<longleftrightarrow> length fs = n \<and> fs \<noteq> [] \<and> list_all field_ok fs \<and> s = join_sp fs"
proof -
  have "fieldLoop [] s = Some fs \<longleftrightarrow> fs \<noteq> [] \<and> list_all field_ok fs \<and> s = join_sp fs"
    using fieldLoop_inv [of "[]" s fs] fieldLoop_join [of fs] by auto
  moreover have "splitFields s n = Some fs \<longleftrightarrow> fieldLoop [] s = Some fs \<and> length fs = n"
    by (auto simp: splitFields_def split: option.splits)
  ultimately show ?thesis by blast
qed

lemma isIdChar_plain: "isIdChar c \<Longrightarrow> c \<noteq> SP \<and> c \<noteq> LF \<and> c \<noteq> CR \<and> c \<noteq> CHR 0x00"
  by (auto simp: isIdChar_def in_range_def code_of_def)

lemma isId_field: "isId s \<Longrightarrow> field_ok s \<and> line_ok s"
  by (auto simp: isId_def field_ok_def line_ok_def list_all_iff dest: isIdChar_plain)

lemma b64digit_plain: "b64digit v \<noteq> SP \<and> b64digit v \<noteq> LF \<and> b64digit v \<noteq> CR \<and> b64digit v \<noteq> CHR 0x00"
proof -
  have "0 \<le> b64val (b64digit v)" unfolding b64val_digit by simp
  then show ?thesis by (auto simp: b64val_def in_range_def code_of_def)
qed

lemma base64_plain: "SP \<notin> set (base64 bs) \<and> LF \<notin> set (base64 bs) \<and> CR \<notin> set (base64 bs) \<and> CHR 0x00 \<notin> set (base64 bs)"
  using b64digit_plain by (induction bs rule: base64.induct) (auto simp: Let_def dest: sym)

lemma base64_field: "bs \<noteq> [] \<Longrightarrow> field_ok (base64 bs) \<and> line_ok (base64 bs)"
  using base64_plain [of bs] by (simp add: field_ok_def line_ok_def)

section \<open>The grammar of a bundle\<close>

text \<open>The text of a bundle as the grammar at the head of \<open>trust.hpp\<close> gives it, and the conditions
  it puts on the parts.\<close>

definition rootSigLine :: "string \<times> bytes \<Rightarrow> string" where
  "rootSigLine rs = ''root-sig: '' @ fst rs @ SP # base64 (snd rs)"

definition bundleLines :: "Bundle \<Rightarrow> string list" where
  "bundleLines b = [''NTMSIG 2'', ''delegation: '' @ base64 (str_bytes (bd_document b))]
     @ map rootSigLine (bd_rootSigs b)
     @ [''key-id: '' @ bd_keyId b, ''signature: '' @ base64 (bd_signature b)]"

definition printBundle :: "Bundle \<Rightarrow> bytes" where
  "printBundle b = str_bytes (unlines (bundleLines b))"

definition rootSig_ok :: "string \<times> bytes \<Rightarrow> bool" where
  "rootSig_ok rs \<longleftrightarrow> isId (fst rs) \<and> snd rs \<noteq> []"

definition bundle_ok :: "Bundle \<Rightarrow> bool" where
  "bundle_ok b \<longleftrightarrow> bd_document b \<noteq> [] \<and> bd_signature b \<noteq> [] \<and> isId (bd_keyId b)
     \<and> list_all rootSig_ok (bd_rootSigs b) \<and> successively (<) (map fst (bd_rootSigs b))
     \<and> 1 \<le> length (bd_rootSigs b) \<and> length (bd_rootSigs b) \<le> kMaxRootSigs
     \<and> length (printBundle b) \<le> kMaxBundleBytes"

lemma str_bytes_bytes_str [simp]: "str_bytes (bytes_str bs) = bs"
  by (induction bs) (simp_all add: bytes_str_def str_bytes_def code_of_def unat_byte_less)

lemma bytes_str_Nil_iff [simp]: "bytes_str bs = [] \<longleftrightarrow> bs = []"
  by (simp add: bytes_str_def)

lemma str_bytes_Nil_iff [simp]: "str_bytes s = [] \<longleftrightarrow> s = []"
  by (simp add: str_bytes_def)

lemma parseRootSig_line:
  "(case takePrefix l ''root-sig: '' of None \<Rightarrow> None | Some rest \<Rightarrow> splitFields rest 2) = Some f \<longleftrightarrow>
    (\<exists>i x. f = [i, x] \<and> field_ok i \<and> field_ok x \<and> l = ''root-sig: '' @ i @ SP # x)"
  unfolding prefixed_Some splitFields_iff by (auto simp: length_Suc_conv numeral_2_eq_2)

lemma parseRootSigs_iff:
  assumes "successively (<) (map fst acc)"
  shows "parseRootSigs acc ls = Inr sigs \<longleftrightarrow>
    (\<exists>new. sigs = acc @ new \<and> ls = map rootSigLine new \<and> list_all rootSig_ok new
       \<and> successively (<) (map fst sigs))"
  using assms
proof (induction ls arbitrary: acc)
  case (Cons l ls)
  show ?case
  proof
    assume "parseRootSigs acc (l # ls) = Inr sigs"
    then obtain i x sig where l: "l = ''root-sig: '' @ i @ SP # x" "isId i" "b64Decode x = Some sig"
      "acc = [] \<or> fst (last acc) < i" and p: "parseRootSigs (acc @ [(i, sig)]) ls = Inr sigs"
      by (auto simp: parseRootSig_line split: option.splits if_splits)
    have "successively (<) (map fst (acc @ [(i, sig)]))"
      using Cons.prems l(4) by (cases acc rule: rev_cases) (auto simp: successively_append_iff)
    from Cons.IH [OF this] p obtain new where
      "sigs = (acc @ [(i, sig)]) @ new" "ls = map rootSigLine new" "list_all rootSig_ok new"
      "successively (<) (map fst sigs)" by auto
    with l show "\<exists>new. sigs = acc @ new \<and> l # ls = map rootSigLine new \<and> list_all rootSig_ok new
        \<and> successively (<) (map fst sigs)"
      by (intro exI [of _ "(i, sig) # new"]) (auto simp: rootSigLine_def rootSig_ok_def b64Decode_iff)
  next
    assume "\<exists>new. sigs = acc @ new \<and> l # ls = map rootSigLine new \<and> list_all rootSig_ok new
        \<and> successively (<) (map fst sigs)"
    then obtain i sig new where n: "sigs = acc @ (i, sig) # new" "l = rootSigLine (i, sig)"
      "ls = map rootSigLine new" "rootSig_ok (i, sig)" "list_all rootSig_ok new"
      "successively (<) (map fst sigs)" by (auto simp: Cons_eq_map_conv)
    have o: "isId i" "sig \<noteq> []" using n(4) by (auto simp: rootSig_ok_def)
    have f: "(case takePrefix l ''root-sig: '' of None \<Rightarrow> None | Some rest \<Rightarrow> splitFields rest 2)
        = Some [i, base64 sig]"
      using n(2) o isId_field [of i] base64_field [of sig] unfolding parseRootSig_line by (simp add: rootSigLine_def)
    have a: "acc = [] \<or> fst (last acc) < i" "successively (<) (map fst (acc @ [(i, sig)]))"
      using n(1,6) by (cases acc rule: rev_cases; auto simp: successively_append_iff successively_Cons)+
    then have "parseRootSigs acc (l # ls) = parseRootSigs (acc @ [(i, sig)]) ls"
      unfolding parseRootSigs.simps(2) f using o by auto
    with Cons.IH [OF a(2)] n show "parseRootSigs acc (l # ls) = Inr sigs" by auto
  qed
qed auto

lemma prefixed_b64:
  "(case takePrefix l p of None \<Rightarrow> None | Some rest \<Rightarrow> b64Decode rest) = Some bs \<longleftrightarrow> bs \<noteq> [] \<and> l = p @ base64 bs"
  unfolding prefixed_Some b64Decode_iff by auto

lemma lines_split:
  assumes "5 \<le> length ls"
  obtains a b m c d where "ls = a # b # m @ [c, d]" "1 \<le> length m"
proof -
  obtain a b r where r: "ls = a # b # r" "3 \<le> length r"
    using assms by (cases ls rule: remdups_adj.cases) (auto simp: numeral_eq_Suc)
  obtain r' d where d: "r = r' @ [d]" "2 \<le> length r'" using r(2) by (cases r rule: rev_cases) auto
  obtain m c where "r' = m @ [c]" "1 \<le> length m" using d(2) by (cases r' rule: rev_cases) auto
  with r d that show ?thesis by simp
qed

lemma line_ok_Cons: "line_ok q \<Longrightarrow> line_ok (c # q) \<longleftrightarrow> c \<noteq> LF \<and> c \<noteq> CR \<and> c \<noteq> CHR 0x00"
  by (auto simp: line_ok_def)

lemma rootSigLine_ok: "rootSig_ok rs \<Longrightarrow> line_ok (rootSigLine rs)"
  using isId_field [of "fst rs"] base64_field [of "snd rs"]
  by (auto simp: rootSig_ok_def rootSigLine_def line_ok_def)

lemma bundleLines_ok:
  assumes "bundle_ok b"
  shows "list_all line_ok (bundleLines b)"
proof -
  have "line_ok ''NTMSIG 2''" by (simp add: line_ok_def)
  with assms isId_field [of "bd_keyId b"] base64_field [of "str_bytes (bd_document b)"]
    base64_field [of "bd_signature b"] show ?thesis
    by (simp add: bundle_ok_def bundleLines_def line_ok_Cons list_all_iff rootSigLine_ok)
qed

lemma parseBundleLines_iff:
  assumes "1 \<le> length m"
  shows "parseBundleLines (a # l # m @ [c, d]) = Inr b \<longleftrightarrow>
    length m \<le> kMaxRootSigs \<and> bd_document b \<noteq> [] \<and> l = ''delegation: '' @ base64 (str_bytes (bd_document b))
    \<and> m = map rootSigLine (bd_rootSigs b) \<and> list_all rootSig_ok (bd_rootSigs b)
    \<and> successively (<) (map fst (bd_rootSigs b))
    \<and> isId (bd_keyId b) \<and> c = ''key-id: '' @ bd_keyId b
    \<and> bd_signature b \<noteq> [] \<and> d = ''signature: '' @ base64 (bd_signature b)" (is "_ \<longleftrightarrow> ?ok")
proof -
  let ?ls = "a # l # m @ [c, d]"
  have n: "length ?ls - 4 = length m" "?ls ! 1 = l" "take (length m) (drop 2 ?ls) = m"
    "?ls ! (2 + length m) = c" "?ls ! (3 + length m) = d" "\<not> length ?ls < 5"
    "length ?ls > 4 + kMaxRootSigs \<longleftrightarrow> \<not> length m \<le> kMaxRootSigs"
    using assms by (auto simp: nth_append)
  note r = parseRootSigs_iff [of "[]" m, simplified]
  show ?thesis
  proof
    assume "parseBundleLines ?ls = Inr b"
    then obtain doc sigs kid sig where
      "length m \<le> kMaxRootSigs" "parseRootSigs [] m = Inr sigs"
      "(case takePrefix l ''delegation: '' of None \<Rightarrow> None | Some rest \<Rightarrow> b64Decode rest) = Some doc"
      "takePrefix c ''key-id: '' = Some kid" "isId kid"
      "(case takePrefix d ''signature: '' of None \<Rightarrow> None | Some rest \<Rightarrow> b64Decode rest) = Some sig"
      "b = \<lparr> bd_document = bytes_str doc, bd_rootSigs = sigs, bd_keyId = kid, bd_signature = sig \<rparr>"
      unfolding parseBundleLines_def n Let_def by (auto split: if_splits option.splits sum.splits)
    then show ?ok unfolding takePrefix_iff prefixed_b64 r by auto
  next
    assume ?ok
    then have "length m \<le> kMaxRootSigs" "parseRootSigs [] m = Inr (bd_rootSigs b)"
      "(case takePrefix l ''delegation: '' of None \<Rightarrow> None | Some rest \<Rightarrow> b64Decode rest) = Some (str_bytes (bd_document b))"
      "takePrefix c ''key-id: '' = Some (bd_keyId b)" "isId (bd_keyId b)"
      "(case takePrefix d ''signature: '' of None \<Rightarrow> None | Some rest \<Rightarrow> b64Decode rest) = Some (bd_signature b)"
      unfolding takePrefix_iff prefixed_b64 r by auto
    then show "parseBundleLines ?ls = Inr b" using assms unfolding parseBundleLines_def n Let_def by auto
  qed
qed

lemma parseBundle_iff: "parseBundle bs = Inr b \<longleftrightarrow> bundle_ok b \<and> bs = printBundle b"
proof
  assume a: "parseBundle bs = Inr b"
  then obtain ls where ls: "length bs \<le> kMaxBundleBytes" "splitLines (bytes_str bs) = Some ls"
    "ls ! 0 = ''NTMSIG 2''" "parseBundleLines ls = Inr b"
    by (auto simp: parseBundle_def split: if_splits option.splits)
  then have "5 \<le> length ls" by (auto simp: parseBundleLines_def split: if_splits)
  then obtain h l m c d where m: "ls = h # l # m @ [c, d]" "1 \<le> length m" by (rule lines_split)
  have b: "ls = bundleLines b" and ok: "bundle_ok b \<longleftrightarrow> length (printBundle b) \<le> kMaxBundleBytes"
    using ls(3,4) m(2) unfolding m(1) parseBundleLines_iff [OF m(2)] bundleLines_def bundle_ok_def by auto
  have "bytes_str bs = unlines (bundleLines b)" using ls(2) b by (simp add: splitLines_iff)
  then have "bs = printBundle b" unfolding printBundle_def by (metis str_bytes_bytes_str)
  with ok ls(1) show "bundle_ok b \<and> bs = printBundle b" by simp
next
  assume "bundle_ok b \<and> bs = printBundle b"
  then have b: "bundle_ok b" "bs = printBundle b" by auto
  have "splitLines (bytes_str bs) = Some (bundleLines b)"
    unfolding splitLines_iff using bundleLines_ok [OF b(1)] b(2) by (simp add: printBundle_def bundleLines_def)
  moreover have "parseBundleLines (bundleLines b) = Inr b"
    using b(1) parseBundleLines_iff [of "map rootSigLine (bd_rootSigs b)"]
    by (simp add: bundleLines_def bundle_ok_def)
  ultimately show "parseBundle bs = Inr b"
    using b by (simp add: parseBundle_def bundle_ok_def bundleLines_def)
qed

interpretation ntmsig: codec bundle_ok printBundle "\<lambda>bs. case parseBundle bs of Inl _ \<Rightarrow> None | Inr b \<Rightarrow> Some b"
proof unfold_locales
  fix b assume "bundle_ok b"
  then have "parseBundle (printBundle b) = Inr b" by (simp add: parseBundle_iff)
  then show "(case parseBundle (printBundle b) of Inl _ \<Rightarrow> None | Inr b \<Rightarrow> Some b) = Some b" by simp
qed

section \<open>The grammar of a delegation\<close>

lemma dec_val_Cons: "dec_val (c # ds) = digit_val c * 10 ^ length ds + dec_val ds"
proof (induction ds rule: rev_induct)
  case (snoc d ds)
  have "dec_val (c # ds @ [d]) = dec_val (c # ds) * 10 + digit_val d" using dec_val_snoc [of "c # ds" d] by simp
  with snoc show ?case by simp
qed (simp add: dec_val_def)

lemma digit_val_less: "is_digit c \<Longrightarrow> digit_val c < 10"
  by (auto simp: is_digit_iff digit_val_def)

lemma digit_char_val: "is_digit c \<Longrightarrow> digit_char (digit_val c) = c"
  by (simp add: is_digit_iff digit_char_def digit_val_def code_of_def)

lemma dec_val_less: "list_all is_digit ds \<Longrightarrow> dec_val ds < 10 ^ length ds"
proof (induction ds rule: rev_induct)
  case (snoc d ds)
  then have "dec_val ds < 10 ^ length ds" "digit_val d < 10" by (simp_all add: digit_val_less)
  then show ?case by simp
qed simp

lemma show_nat_dec_val:
  "list_all is_digit ds \<Longrightarrow> ds \<noteq> [] \<Longrightarrow> hd ds \<noteq> CHR ''0'' \<Longrightarrow> show_nat (dec_val ds) = ds \<and> 0 < dec_val ds"
proof (induction ds rule: rev_induct)
  case (snoc d ds)
  have d: "digit_val d < 10" "digit_char (digit_val d) = d"
    using snoc.prems(1) by (simp_all add: digit_val_less digit_char_val)
  show ?case
  proof (cases "ds = []")
    case True
    have "digit_val d \<noteq> 0"
    proof
      assume "digit_val d = 0"
      then have "code_of d = code_of CHR ''0''" using d(2) code_of_digit_char [of 0] by simp
      then have "d = CHR ''0''" by (simp only: code_of_eq)
      then show False using snoc.prems(3) True by simp
    qed
    with True d dec_val_snoc [of "[]" d] show ?thesis by (simp add: show_nat.simps)
  next
    case False
    with snoc have "show_nat (dec_val ds) = ds" "0 < dec_val ds" by auto
    with d show ?thesis by (subst show_nat.simps) simp
  qed
qed simp

lemma versionLoop_eq:
  "versionLoop (of_nat m) s =
    (if list_all is_digit s then Some (of_nat (m * 10 ^ length s + dec_val s)) else None)"
proof (induction s arbitrary: m)
  case (Cons c s)
  have "versionLoop (of_nat m) (c # s) = (if is_digit c then versionLoop (of_nat (m * 10 + digit_val c)) s else None)"
    by (simp add: digit_val_def)
  also have "\<dots> = (if is_digit c \<and> list_all is_digit s
      then Some (of_nat ((m * 10 + digit_val c) * 10 ^ length s + dec_val s)) else None)"
    unfolding Cons.IH by simp
  also have "(m * 10 + digit_val c) * 10 ^ length s + dec_val s = m * 10 ^ length (c # s) + dec_val (c # s)"
    by (simp add: dec_val_Cons algebra_simps)
  finally show ?case by simp
qed simp

text \<open>A version is accepted exactly when it is the decimal text of a number from one to
  \<open>10 ^ 18 - 1\<close>; the 64-bit accumulator never wraps.\<close>

lemma parseVersion_iff:
  "parseVersion s = Some v \<longleftrightarrow> 0 < unat v \<and> unat v < 10 ^ 18 \<and> s = show_nat (unat v)"
proof
  assume "parseVersion s = Some v"
  then have s: "s \<noteq> []" "length s \<le> 18" "s ! 0 \<noteq> CHR ''0''" "versionLoop (of_nat 0) s = Some v"
    by (auto simp: parseVersion_def split: if_splits)
  then have d: "list_all is_digit s" "v = of_nat (dec_val s)"
    unfolding versionLoop_eq by (simp_all split: if_splits)
  have "(10::nat) ^ length s \<le> 10 ^ 18" using s(2) by (intro power_increasing) simp_all
  then have l: "dec_val s < 10 ^ 18" using dec_val_less [OF d(1)] by linarith
  then have "unat v = dec_val s" unfolding d(2) by (simp add: unsigned_of_nat take_bit_nat_eq_self)
  with l show_nat_dec_val [OF d(1) s(1)] s(1,3)
  show "0 < unat v \<and> unat v < 10 ^ 18 \<and> s = show_nat (unat v)" by (simp add: hd_conv_nth)
next
  assume a: "0 < unat v \<and> unat v < 10 ^ 18 \<and> s = show_nat (unat v)"
  have "hd (show_nat n) \<noteq> CHR ''0''" if "0 < n" for n :: nat
    using that
  proof (induction n rule: show_nat.induct)
    case (1 n)
    have "digit_char n \<noteq> CHR ''0''" if "n < 10" using 1(2) code_of_digit_char [OF that] by auto
    with 1 show ?case by (subst show_nat.simps) (auto simp: hd_append)
  qed
  then have "s ! 0 \<noteq> CHR ''0''" using a by (simp add: hd_conv_nth [symmetric])
  moreover have "length s \<le> 18" using a length_show_nat [of "unat v" 17] by simp
  moreover have "list_all is_digit s" using a show_nat_digits by (simp add: list_all_iff)
  moreover have "s \<noteq> []" using a by simp
  moreover have "versionLoop 0 s = Some v" using versionLoop_eq [of 0 s] calculation(3) a by simp
  ultimately show "parseVersion s = Some v" by (simp add: parseVersion_def)
qed

fun padn :: "nat \<Rightarrow> nat \<Rightarrow> string" where
  "padn 0 n = []"
| "padn (Suc k) n = padn k (n div 10) @ [digit_char (n mod 10)]"

lemma padn_props: "length (padn k n) = k" "list_all is_digit (padn k n)"
  by (induction k arbitrary: n) simp_all

lemma dec_val_padn: "n < 10 ^ k \<Longrightarrow> dec_val (padn k n) = n"
proof (induction k arbitrary: n)
  case (Suc k)
  then have "n div 10 < 10 ^ k" by (simp add: less_mult_imp_div_less mult.commute)
  with Suc show ?case by simp
qed simp

lemma padn_dec_val: "list_all is_digit ds \<Longrightarrow> padn (length ds) (dec_val ds) = ds"
  by (induction ds rule: rev_induct) (simp_all add: digit_val_less digit_char_val)

lemma timeNum_eq:
  "timeNum (int m) s = (if list_all is_digit s then Some (int (m * 10 ^ length s + dec_val s)) else None)"
proof (induction s arbitrary: m)
  case (Cons c s)
  have "timeNum (int m) (c # s) = (if is_digit c then timeNum (int (m * 10 + digit_val c)) s else None)" by simp
  also have "\<dots> = (if is_digit c \<and> list_all is_digit s
      then Some (int ((m * 10 + digit_val c) * 10 ^ length s + dec_val s)) else None)"
    unfolding Cons.IH by simp
  also have "(m * 10 + digit_val c) * 10 ^ length s + dec_val s = m * 10 ^ length (c # s) + dec_val (c # s)"
    by (simp add: dec_val_Cons algebra_simps)
  finally show ?case by simp
qed simp

lemma timeNum_0: "timeNum 0 s = (if list_all is_digit s then Some (int (dec_val s)) else None)"
  using timeNum_eq [of 0 s] by simp

text \<open>The calendar: days of a month, valid dates, times of day, and the text of a time.\<close>

definition days_in_month :: "nat \<Rightarrow> nat \<Rightarrow> nat" where
  "days_in_month y m =
     (if m = 2 then (if isLeap (int y) then 29 else 28) else if m \<in> {4, 6, 9, 11} then 30 else 31)"

record CivilTime =
  ct_year :: nat
  ct_month :: nat
  ct_day :: nat
  ct_hour :: nat
  ct_min :: nat
  ct_sec :: nat

definition civil_ok :: "CivilTime \<Rightarrow> bool" where
  "civil_ok c \<longleftrightarrow> 2000 \<le> ct_year c \<and> ct_year c < 10000 \<and> 1 \<le> ct_month c \<and> ct_month c \<le> 12
     \<and> 1 \<le> ct_day c \<and> ct_day c \<le> days_in_month (ct_year c) (ct_month c)
     \<and> ct_hour c < 24 \<and> ct_min c < 60 \<and> ct_sec c < 60"

definition printTime :: "CivilTime \<Rightarrow> string" where
  "printTime c = padn 4 (ct_year c) @ ''-'' @ padn 2 (ct_month c) @ ''-'' @ padn 2 (ct_day c) @ ''T''
     @ padn 2 (ct_hour c) @ '':'' @ padn 2 (ct_min c) @ '':'' @ padn 2 (ct_sec c) @ ''Z''"

definition civil_seconds :: "CivilTime \<Rightarrow> int" where
  "civil_seconds c = daysFromCivil (int (ct_year c)) (int (ct_month c)) (int (ct_day c)) * 86400
     + int (ct_hour c) * 3600 + int (ct_min c) * 60 + int (ct_sec c)"

definition timeOk :: "int \<Rightarrow> int \<Rightarrow> int \<Rightarrow> int \<Rightarrow> int \<Rightarrow> int \<Rightarrow> bool" where
  "timeOk y mo d h mi se \<longleftrightarrow> \<not> (y < 2000 \<or> mo < 1 \<or> mo > 12 \<or> d < 1 \<or> d > kDays ! nat (mo - 1) \<or> h > 23
      \<or> mi > 59 \<or> se > 59) \<and> \<not> (mo = 2 \<and> d = 29 \<and> \<not> isLeap y)"

lemma month_cases: "1 \<le> m \<Longrightarrow> m \<le> (12::nat) \<Longrightarrow> m \<in> {1, 2, 3, 4, 5, 6, 7, 8, 9, 10, 11, 12}"
proof -
  assume "1 \<le> m" "m \<le> 12"
  then have "m \<in> set [1..<13]" by simp
  also have "[1..<13] = [1, 2, 3, 4, 5, 6, 7, 8, 9, 10, 11, 12]" by (simp add: upt_conv_Cons)
  finally show ?thesis by simp
qed

lemma timeOk_civil_ok:
  "timeOk (int y) (int mo) (int d) (int h) (int mi) (int se) \<longleftrightarrow>
    civil_ok \<lparr> ct_year = y, ct_month = mo, ct_day = d, ct_hour = h, ct_min = mi, ct_sec = se \<rparr>"
  if "y < 10000" for y mo d h mi se
proof (cases "1 \<le> mo \<and> mo \<le> 12")
  case True
  then have "mo \<in> {1, 2, 3, 4, 5, 6, 7, 8, 9, 10, 11, 12}" using month_cases by blast
  then show ?thesis using that
    by (elim insertE emptyE) (auto simp: timeOk_def civil_ok_def days_in_month_def kDays_def)
qed (auto simp: timeOk_def civil_ok_def)

lemma list20:
  assumes "length s = 20"
  shows "s = substr 0 4 s @ [s ! 4] @ substr 5 2 s @ [s ! 7] @ substr 8 2 s @ [s ! 10] @ substr 11 2 s
    @ [s ! 13] @ substr 14 2 s @ [s ! 16] @ substr 17 2 s @ [s ! 19]"
proof -
  have "\<exists>c. s = c # tl s" if "s \<noteq> []" for s :: string using that by (cases s) auto
  then obtain a b c d e f g h i j k l m n p q r t u v where
    "s = [a, b, c, d, e, f, g, h, i, j, k, l, m, n, p, q, r, t, u, v]"
    using assms by (auto simp: length_Suc_conv numeral_eq_Suc)
  then show ?thesis by (simp add: substr_def)
qed

lemma length_substr: "pos + n \<le> length s \<Longrightarrow> length (substr pos n s) = n"
  by (simp add: substr_def)

lemma printTime_parts:
  "length (printTime c) = 20" "printTime c ! 4 = CHR ''-''" "printTime c ! 7 = CHR ''-''"
  "printTime c ! 10 = CHR ''T''" "printTime c ! 13 = CHR '':''" "printTime c ! 16 = CHR '':''"
  "printTime c ! 19 = CHR ''Z''" "substr 0 4 (printTime c) = padn 4 (ct_year c)"
  "substr 5 2 (printTime c) = padn 2 (ct_month c)" "substr 8 2 (printTime c) = padn 2 (ct_day c)"
  "substr 11 2 (printTime c) = padn 2 (ct_hour c)" "substr 14 2 (printTime c) = padn 2 (ct_min c)"
  "substr 17 2 (printTime c) = padn 2 (ct_sec c)"
  by (simp_all add: printTime_def padn_props nth_append substr_def)

text \<open>A time is accepted exactly when it is the text of a valid calendar time.\<close>

lemma parseTime_iff: "parseTime s = Some t \<longleftrightarrow> (\<exists>c. civil_ok c \<and> s = printTime c \<and> t = civil_seconds c)"
proof
  assume "parseTime s = Some t"
  then have l: "length s = 20" "s ! 4 = CHR ''-''" "s ! 7 = CHR ''-''" "s ! 10 = CHR ''T''" "s ! 13 = CHR '':''"
      "s ! 16 = CHR '':''" "s ! 19 = CHR ''Z''"
    and d: "list_all is_digit (substr 0 4 s)" "list_all is_digit (substr 5 2 s)" "list_all is_digit (substr 8 2 s)"
      "list_all is_digit (substr 11 2 s)" "list_all is_digit (substr 14 2 s)" "list_all is_digit (substr 17 2 s)"
    and ok: "timeOk (int (dec_val (substr 0 4 s))) (int (dec_val (substr 5 2 s))) (int (dec_val (substr 8 2 s)))
        (int (dec_val (substr 11 2 s))) (int (dec_val (substr 14 2 s))) (int (dec_val (substr 17 2 s)))"
    and t: "t = civil_seconds \<lparr> ct_year = dec_val (substr 0 4 s), ct_month = dec_val (substr 5 2 s),
      ct_day = dec_val (substr 8 2 s), ct_hour = dec_val (substr 11 2 s), ct_min = dec_val (substr 14 2 s),
      ct_sec = dec_val (substr 17 2 s) \<rparr>" (is "t = civil_seconds ?c")
    unfolding parseTime_def timeNum_0 timeOk_def civil_seconds_def by (auto split: if_splits)
  have n: "length (substr 0 4 s) = 4" "length (substr 5 2 s) = 2" "length (substr 8 2 s) = 2"
    "length (substr 11 2 s) = 2" "length (substr 14 2 s) = 2" "length (substr 17 2 s) = 2"
    using l(1) by (simp_all add: length_substr)
  have "s = printTime ?c"
    unfolding printTime_def using list20 [OF l(1)] l(2-7) padn_dec_val [OF d(1)] padn_dec_val [OF d(2)]
      padn_dec_val [OF d(3)] padn_dec_val [OF d(4)] padn_dec_val [OF d(5)] padn_dec_val [OF d(6)]
    unfolding n by simp
  moreover have "dec_val (substr 0 4 s) < 10000" using dec_val_less [OF d(1)] n(1) by simp
  ultimately show "\<exists>c. civil_ok c \<and> s = printTime c \<and> t = civil_seconds c"
    using t ok timeOk_civil_ok by blast
next
  assume "\<exists>c. civil_ok c \<and> s = printTime c \<and> t = civil_seconds c"
  then obtain c where c: "civil_ok c" "s = printTime c" "t = civil_seconds c" by auto
  have b: "ct_month c < 10 ^ 2" "ct_day c < 10 ^ 2" "ct_hour c < 10 ^ 2" "ct_min c < 10 ^ 2" "ct_sec c < 10 ^ 2"
    "ct_year c < 10 ^ 4"
    using c(1) by (auto simp: civil_ok_def days_in_month_def split: if_splits)
  have y: "ct_year c < 10000" using b by simp
  have "timeOk (int (ct_year c)) (int (ct_month c)) (int (ct_day c)) (int (ct_hour c)) (int (ct_min c)) (int (ct_sec c))"
    using c(1) unfolding timeOk_civil_ok [OF y] by (simp add: civil_ok_def)
  then show "parseTime s = Some t"
    unfolding parseTime_def c(2,3) printTime_parts timeNum_0
    by (simp add: padn_props dec_val_padn b [simplified] timeOk_def civil_seconds_def)
qed

definition keyLine :: "DelegatedKey \<Rightarrow> string" where
  "keyLine k = ''key: '' @ dk_id k @ SP # dk_platform k @ SP # ''ML-DSA-65'' @ SP # base64 (dk_spki k)"

definition key_ok :: "'k Ossl \<Rightarrow> DelegatedKey \<Rightarrow> bool" where
  "key_ok ossl k \<longleftrightarrow> isId (dk_id k) \<and> isKnownPlatform (dk_platform k) \<and> dk_spki k \<noteq> [] \<and> isMlDsa65Spki ossl (dk_spki k)"

definition delegationLines :: "u64 \<Rightarrow> CivilTime \<Rightarrow> DelegatedKey list \<Rightarrow> string list" where
  "delegationLines version t keys =
     [''ntm-delegation 1'', ''version: '' @ show_nat (unat version), ''expires: '' @ printTime t] @ map keyLine keys"

text \<open>The grammar of a delegation document at the head of \<open>trust.hpp\<close>: \<open>doc\<close> is the text of
  the delegation \<open>d\<close>.\<close>

definition delegation_text :: "'k Ossl \<Rightarrow> Delegation \<Rightarrow> string \<Rightarrow> bool" where
  "delegation_text ossl d doc \<longleftrightarrow>
     0 < unat (dg_version d) \<and> unat (dg_version d) < 10 ^ 18
     \<and> (\<exists>t. civil_ok t \<and> dg_expires d = civil_seconds t
          \<and> doc = unlines (delegationLines (dg_version d) t (dg_keys d)))
     \<and> list_all (key_ok ossl) (dg_keys d) \<and> distinct (map dk_id (dg_keys d))
     \<and> 1 \<le> length (dg_keys d) \<and> length (dg_keys d) \<le> kMaxDelegatedKeys
     \<and> length doc \<le> kMaxDelegationBytes"

lemma platform_field: "isKnownPlatform p \<Longrightarrow> field_ok p \<and> line_ok p"
  by (auto simp: isKnownPlatform_def field_ok_def line_ok_def)

lemma keyLine_fields:
  "(case takePrefix l ''key: '' of None \<Rightarrow> None | Some rest \<Rightarrow> splitFields rest 4) = Some f \<longleftrightarrow>
    (\<exists>i p a x. f = [i, p, a, x] \<and> field_ok i \<and> field_ok p \<and> field_ok a \<and> field_ok x
       \<and> l = ''key: '' @ i @ SP # p @ SP # a @ SP # x)"
  unfolding prefixed_Some splitFields_iff by (auto simp: length_Suc_conv numeral_eq_Suc)

lemma parseKeyLine_iff:
  "parseKeyLine ossl prev l = Inr k \<longleftrightarrow> key_ok ossl k \<and> dk_id k \<notin> dk_id ` set prev \<and> l = keyLine k"
proof
  assume "parseKeyLine ossl prev l = Inr k"
  then obtain f spki where f: "(case takePrefix l ''key: '' of None \<Rightarrow> None | Some rest \<Rightarrow> splitFields rest 4) = Some f"
    "isId (f ! 0)" "isKnownPlatform (f ! 1)" "f ! 2 = ''ML-DSA-65''" "b64Decode (f ! 3) = Some spki"
    "isMlDsa65Spki ossl spki" "\<not> list_ex (\<lambda>k. dk_id k = f ! 0) prev"
    "k = \<lparr> dk_id = f ! 0, dk_platform = f ! 1, dk_spki = spki \<rparr>"
    unfolding parseKeyLine_def by (auto split: option.splits if_splits)
  then show "key_ok ossl k \<and> dk_id k \<notin> dk_id ` set prev \<and> l = keyLine k"
    unfolding keyLine_fields b64Decode_iff by (auto simp: key_ok_def keyLine_def list_ex_iff)
next
  assume a: "key_ok ossl k \<and> dk_id k \<notin> dk_id ` set prev \<and> l = keyLine k"
  then have "field_ok (dk_id k)" "field_ok (dk_platform k)" "field_ok (base64 (dk_spki k))"
    by (auto simp: key_ok_def isId_field platform_field base64_field)
  moreover have "field_ok ''ML-DSA-65''" by (simp add: field_ok_def)
  ultimately have f: "(case takePrefix l ''key: '' of None \<Rightarrow> None | Some rest \<Rightarrow> splitFields rest 4)
      = Some [dk_id k, dk_platform k, ''ML-DSA-65'', base64 (dk_spki k)]"
    unfolding keyLine_fields using a by (simp add: keyLine_def)
  have "dk_id k \<notin> dk_id ` set prev" using a by blast
  then have "\<not> list_ex (\<lambda>j. dk_id j = dk_id k) prev" unfolding list_ex_iff image_iff by metis
  with a show "parseKeyLine ossl prev l = Inr k"
    unfolding parseKeyLine_def f by (simp add: key_ok_def)
qed

lemma parseKeyLines_iff:
  assumes "distinct (map dk_id prev)"
  shows "parseKeyLines ossl prev ls = Inr keys \<longleftrightarrow>
    (\<exists>new. keys = prev @ new \<and> ls = map keyLine new \<and> list_all (key_ok ossl) new \<and> distinct (map dk_id keys))"
  using assms
proof (induction ls arbitrary: prev)
  case (Cons l ls)
  show ?case
  proof
    assume "parseKeyLines ossl prev (l # ls) = Inr keys"
    then obtain k where k: "parseKeyLine ossl prev l = Inr k" "parseKeyLines ossl (prev @ [k]) ls = Inr keys"
      by (auto split: sum.splits)
    then have "distinct (map dk_id (prev @ [k]))" using Cons.prems by (simp add: parseKeyLine_iff)
    from Cons.IH [OF this] k obtain new where "keys = (prev @ [k]) @ new" "ls = map keyLine new"
      "list_all (key_ok ossl) new" "distinct (map dk_id keys)" by blast
    with k(1) show "\<exists>new. keys = prev @ new \<and> l # ls = map keyLine new \<and> list_all (key_ok ossl) new
        \<and> distinct (map dk_id keys)"
      unfolding parseKeyLine_iff by (intro exI [of _ "k # new"]) simp
  next
    assume "\<exists>new. keys = prev @ new \<and> l # ls = map keyLine new \<and> list_all (key_ok ossl) new
        \<and> distinct (map dk_id keys)"
    then obtain k new where n: "keys = (prev @ [k]) @ new" "l = keyLine k" "ls = map keyLine new" "key_ok ossl k"
      "list_all (key_ok ossl) new" "distinct (map dk_id keys)" by (auto simp: Cons_eq_map_conv)
    then have d: "distinct (map dk_id (prev @ [k]))" by simp
    then have "parseKeyLine ossl prev l = Inr k" unfolding parseKeyLine_iff using n by simp
    moreover have "parseKeyLines ossl (prev @ [k]) ls = Inr keys" unfolding Cons.IH [OF d] using n by blast
    ultimately show "parseKeyLines ossl prev (l # ls) = Inr keys" by simp
  qed
qed auto

lemma keyLine_ok: "key_ok ossl k \<Longrightarrow> line_ok (keyLine k)"
  using isId_field [of "dk_id k"] platform_field [of "dk_platform k"] base64_field [of "dk_spki k"]
  by (auto simp: key_ok_def keyLine_def line_ok_def)

lemma padn_line: "line_ok s \<Longrightarrow> line_ok (padn k n @ s)"
proof -
  assume s: "line_ok s"
  have "is_digit c \<Longrightarrow> c \<noteq> LF \<and> c \<noteq> CR \<and> c \<noteq> CHR 0x00" for c
    by (auto simp: is_digit_iff code_of_def)
  then show ?thesis using s padn_props(2) [of k n] by (auto simp: line_ok_def list_all_iff)
qed

lemma show_nat_line: "line_ok (show_nat n)"
proof -
  have "is_digit c \<Longrightarrow> c \<noteq> LF \<and> c \<noteq> CR \<and> c \<noteq> CHR 0x00" for c
    by (auto simp: is_digit_iff code_of_def)
  then show ?thesis using show_nat_digits [of n] by (auto simp: line_ok_def)
qed

lemma printTime_line: "line_ok (printTime t)"
proof -
  have "line_ok ''Z''" by (simp add: line_ok_def)
  then show ?thesis by (simp add: printTime_def padn_line line_ok_Cons)
qed

lemma delegationLines_ok: "list_all (key_ok ossl) keys \<Longrightarrow> list_all line_ok (delegationLines v t keys)"
proof -
  have "line_ok ''ntm-delegation 1''" by (simp add: line_ok_def)
  then show "list_all (key_ok ossl) keys \<Longrightarrow> ?thesis"
    by (simp add: delegationLines_def line_ok_Cons show_nat_line printTime_line list_all_iff) (blast intro: keyLine_ok)
qed

lemma parseDelegationLines_iff:
  "parseDelegationLines ossl ls = Inr d \<longleftrightarrow>
    0 < unat (dg_version d) \<and> unat (dg_version d) < 10 ^ 18
    \<and> (\<exists>t. civil_ok t \<and> dg_expires d = civil_seconds t \<and> ls = delegationLines (dg_version d) t (dg_keys d))
    \<and> list_all (key_ok ossl) (dg_keys d) \<and> distinct (map dk_id (dg_keys d))
    \<and> 1 \<le> length (dg_keys d) \<and> length (dg_keys d) \<le> kMaxDelegatedKeys" (is "_ \<longleftrightarrow> ?ok")
proof
  assume "parseDelegationLines ossl ls = Inr d"
  then have n: "4 \<le> length ls" "length ls \<le> 3 + kMaxDelegatedKeys" "ls ! 0 = ''ntm-delegation 1''"
    and "(case takePrefix (ls ! 1) ''version: '' of None \<Rightarrow> None | Some rest \<Rightarrow> parseVersion rest) = Some (dg_version d)"
    and "(case takePrefix (ls ! 2) ''expires: '' of None \<Rightarrow> None | Some rest \<Rightarrow> parseTime rest) = Some (dg_expires d)"
    and "parseKeyLines ossl [] (drop 3 ls) = Inr (dg_keys d)"
    unfolding parseDelegationLines_def by (auto split: if_splits option.splits sum.splits)
  then obtain t where p: "ls ! 1 = ''version: '' @ show_nat (unat (dg_version d))" "0 < unat (dg_version d)"
      "unat (dg_version d) < 10 ^ 18" "civil_ok t" "ls ! 2 = ''expires: '' @ printTime t"
      "dg_expires d = civil_seconds t" "drop 3 ls = map keyLine (dg_keys d)"
      "list_all (key_ok ossl) (dg_keys d)" "distinct (map dk_id (dg_keys d))"
    unfolding prefixed_Some parseVersion_iff parseTime_iff
      parseKeyLines_iff [of "[]", simplified] by auto
  have "ls = [ls ! 0, ls ! 1, ls ! 2] @ drop 3 ls"
    using n(1) by (cases ls rule: remdups_adj.cases) (auto simp: neq_Nil_conv numeral_eq_Suc Suc_le_length_iff)
  then have "ls = delegationLines (dg_version d) t (dg_keys d)" using n(3) p by (simp add: delegationLines_def)
  moreover have "length (drop 3 ls) = length (dg_keys d)" using p(7) by simp
  ultimately show ?ok using n(1,2) p by auto
next
  assume ?ok
  then obtain t where t: "civil_ok t" "dg_expires d = civil_seconds t"
    "ls = delegationLines (dg_version d) t (dg_keys d)" by auto
  have k: "parseKeyLines ossl [] (map keyLine (dg_keys d)) = Inr (dg_keys d)"
    unfolding parseKeyLines_iff [of "[]", simplified] using \<open>?ok\<close> by auto
  have i: "ls ! 0 = ''ntm-delegation 1''" "ls ! 1 = ''version: '' @ show_nat (unat (dg_version d))"
    "ls ! 2 = ''expires: '' @ printTime t" "drop 3 ls = map keyLine (dg_keys d)" "length ls = 3 + length (dg_keys d)"
    unfolding t(3) delegationLines_def by simp_all
  have v: "(case takePrefix (ls ! 1) ''version: '' of None \<Rightarrow> None | Some rest \<Rightarrow> parseVersion rest) = Some (dg_version d)"
    and e: "(case takePrefix (ls ! 2) ''expires: '' of None \<Rightarrow> None | Some rest \<Rightarrow> parseTime rest) = Some (dg_expires d)"
    unfolding prefixed_Some parseVersion_iff parseTime_iff i using \<open>?ok\<close> t by auto
  show "parseDelegationLines ossl ls = Inr d"
    unfolding parseDelegationLines_def v e i(1,4,5) k using \<open>?ok\<close> by auto
qed

lemma parseDelegation_iff: "parseDelegation ossl doc = Inr d \<longleftrightarrow> delegation_text ossl d doc"
proof
  assume "parseDelegation ossl doc = Inr d"
  then obtain ls where ls: "length doc \<le> kMaxDelegationBytes" "splitLines doc = Some ls" "parseDelegationLines ossl ls = Inr d"
    by (auto simp: parseDelegation_def split: if_splits option.splits)
  then show "delegation_text ossl d doc"
    unfolding parseDelegationLines_iff splitLines_iff delegation_text_def by auto
next
  assume a: "delegation_text ossl d doc"
  then obtain t where t: "civil_ok t" "dg_expires d = civil_seconds t"
    "doc = unlines (delegationLines (dg_version d) t (dg_keys d))" "list_all (key_ok ossl) (dg_keys d)"
    by (auto simp: delegation_text_def)
  have s: "splitLines doc = Some (delegationLines (dg_version d) t (dg_keys d))"
    unfolding splitLines_iff using t(3) delegationLines_ok [OF t(4)] by (simp add: delegationLines_def)
  have "parseDelegationLines ossl (delegationLines (dg_version d) t (dg_keys d)) = Inr d"
    unfolding parseDelegationLines_iff using a t by (auto simp: delegation_text_def)
  then show "parseDelegation ossl doc = Inr d"
    using a unfolding parseDelegation_def s by (simp add: delegation_text_def)
qed

section \<open>The trust chain\<close>

text \<open>\<open>signed_by ossl der msg sig\<close>: OpenSSL loads the key \<open>der\<close> and accepts \<open>sig\<close> over
  \<open>msg\<close>, neither being empty.\<close>

definition signed_by :: "'k Ossl \<Rightarrow> bytes \<Rightarrow> bytes \<Rightarrow> bytes \<Rightarrow> bool" where
  "signed_by ossl der msg sig \<longleftrightarrow> msg \<noteq> [] \<and> sig \<noteq> [] \<and> mdCtxNew ossl
     \<and> (\<exists>pkey rest. d2i_PUBKEY ossl der = Some (pkey, rest) \<and> digestVerifyInit ossl pkey
          \<and> digestVerify ossl pkey sig msg)"

text \<open>The root ids whose key signed the document, and the chain as a whole.\<close>

definition signing_roots :: "'k Ossl \<Rightarrow> RootSet \<Rightarrow> Bundle \<Rightarrow> string set" where
  "signing_roots ossl roots b =
     {rid. \<exists>rk \<in> set (rs_keys roots). rk_id rk = rid
        \<and> (\<exists>sig. (rid, sig) \<in> set (bd_rootSigs b) \<and> signed_by ossl (rk_der rk) (str_bytes (bd_document b)) sig)}"

definition trust_chain ::
    "'k Ossl \<Rightarrow> RootSet \<Rightarrow> Policy \<Rightarrow> string \<Rightarrow> bytes \<Rightarrow> Bundle \<Rightarrow> Delegation \<Rightarrow> DelegatedKey \<Rightarrow> bool" where
  "trust_chain ossl roots policy platform binary b d key \<longleftrightarrow>
     0 < rs_threshold roots \<and> rs_threshold roots \<le> card (signing_roots ossl roots b)
     \<and> delegation_text ossl d (bd_document b)
     \<and> (po_checkExpiry policy \<longrightarrow> po_now policy < dg_expires d)
     \<and> po_minVersion policy \<le> dg_version d
     \<and> key \<in> set (dg_keys d) \<and> dk_id key = bd_keyId b \<and> dk_platform key = platform
     \<and> signed_by ossl (dk_spki key) binary (bd_signature b)"

lemma verifySignature_iff:
  "sigOk (verifySignatureWithKeyBytes ossl msg sig der) \<longleftrightarrow> signed_by ossl der msg sig"
  by (auto simp: sigOk_def verifySignatureWithKeyBytes_def signed_by_def split: option.splits)

lemma verifySignature_Inr:
  "verifySignatureWithKeyBytes ossl msg sig der = Inr u \<longleftrightarrow> signed_by ossl der msg sig"
  by (auto simp: verifySignatureWithKeyBytes_def signed_by_def split: option.splits)

lemma find_distinct:
  "distinct (map f xs) \<Longrightarrow> find (\<lambda>x. a = f x) xs = Some x \<longleftrightarrow> x \<in> set xs \<and> f x = a"
  by (induction xs) (auto, metis image_eqI)

lemma rootSigValid_iff:
  assumes "distinct (map rk_id (rs_keys roots))"
  shows "rootSigValid ossl roots doc (rid, sig) \<longleftrightarrow>
    (\<exists>rk \<in> set (rs_keys roots). rk_id rk = rid \<and> signed_by ossl (rk_der rk) doc sig)"
  unfolding rootSigValid_def verifySignature_iff
proof -
  have "(case find (\<lambda>rk. rid = rk_id rk) (rs_keys roots) of None \<Rightarrow> False
      | Some rk \<Rightarrow> signed_by ossl (rk_der rk) doc sig)
    \<longleftrightarrow> (\<exists>rk. find (\<lambda>rk. rid = rk_id rk) (rs_keys roots) = Some rk \<and> signed_by ossl (rk_der rk) doc sig)"
    by (simp split: option.splits)
  then show "(case (rid, sig) of (rid, sig) \<Rightarrow> case find (\<lambda>rk. rid = rk_id rk) (rs_keys roots) of None \<Rightarrow> False
      | Some rk \<Rightarrow> signed_by ossl (rk_der rk) doc sig)
    \<longleftrightarrow> (\<exists>rk \<in> set (rs_keys roots). rk_id rk = rid \<and> signed_by ossl (rk_der rk) doc sig)"
    unfolding find_distinct [OF assms] by auto
qed

lemma countValid_filter: "countValid ossl roots doc sigs = length (filter (rootSigValid ossl roots doc) sigs)"
proof -
  have "foldl (\<lambda>v rs. if P rs then v + 1 else v) n xs = n + length (filter P xs)" for P and n :: nat and xs :: "(string \<times> bytes) list"
    by (induction xs arbitrary: n) auto
  then show ?thesis by (simp add: countValid_def)
qed

lemma countValid_card:
  assumes "distinct (map rk_id (rs_keys roots))" "bundle_ok b"
  shows "countValid ossl roots (str_bytes (bd_document b)) (bd_rootSigs b) = card (signing_roots ossl roots b)"
proof -
  let ?P = "rootSigValid ossl roots (str_bytes (bd_document b))"
  have "sorted_wrt (<) (map fst (bd_rootSigs b))"
    using assms(2) successively_conv_sorted_wrt [of "(<)" "map fst (bd_rootSigs b)"]
    by (simp add: bundle_ok_def)
  then have "distinct (map fst (filter ?P (bd_rootSigs b)))"
    by (intro distinct_map_filter) (simp add: strict_sorted_iff)
  from distinct_card [OF this]
  have "countValid ossl roots (str_bytes (bd_document b)) (bd_rootSigs b) = card (fst ` {rs \<in> set (bd_rootSigs b). ?P rs})"
    by (simp add: countValid_filter)
  also have "fst ` {rs \<in> set (bd_rootSigs b). ?P rs} = signing_roots ossl roots b"
    unfolding signing_roots_def by (force simp: rootSigValid_iff [OF assms(1)] image_iff)
  finally show ?thesis .
qed

lemma find_key:
  "distinct (map dk_id keys) \<Longrightarrow> find (\<lambda>k. dk_id k = a) keys = Some key \<longleftrightarrow> key \<in> set keys \<and> dk_id key = a"
  using find_distinct [of dk_id keys a key] by (simp add: eq_commute)

lemma verifyBundle_iff:
  assumes "distinct (map rk_id (rs_keys roots))"
  shows "verifyBundleWithRoots ossl binary bundle platform roots policy = Inr v \<longleftrightarrow>
    (\<exists>b d key. bundle_ok b \<and> bundle = printBundle b \<and> trust_chain ossl roots policy platform binary b d key
       \<and> v = \<lparr> vf_delegationVersion = dg_version d, vf_expires = dg_expires d,
               vf_keyId = dk_id key, vf_keySpki = dk_spki key \<rparr>)" (is "?lhs \<longleftrightarrow> ?rhs")
proof
  assume ?lhs
  then obtain b d key where b: "parseBundle bundle = Inr b" and t: "0 < rs_threshold roots"
      "rs_threshold roots \<le> countValid ossl roots (str_bytes (bd_document b)) (bd_rootSigs b)"
    and d: "parseDelegation ossl (bd_document b) = Inr d" "po_checkExpiry policy \<longrightarrow> po_now policy < dg_expires d"
      "po_minVersion policy \<le> dg_version d"
    and k: "find (\<lambda>k. dk_id k = bd_keyId b) (dg_keys d) = Some key" "dk_platform key = platform"
      "verifySignatureWithKeyBytes ossl binary (bd_signature b) (dk_spki key) = Inr ()"
      "v = \<lparr> vf_delegationVersion = dg_version d, vf_expires = dg_expires d, vf_keyId = dk_id key, vf_keySpki = dk_spki key \<rparr>"
    unfolding verifyBundleWithRoots_def Let_def
    by (auto simp: not_less not_le split: sum.splits if_splits option.splits)
  have "bundle_ok b" "bundle = printBundle b" using b by (simp_all add: parseBundle_iff)
  moreover have "distinct (map dk_id (dg_keys d))" "delegation_text ossl d (bd_document b)"
    using d(1) by (simp_all add: parseDelegation_iff delegation_text_def)
  ultimately have "trust_chain ossl roots policy platform binary b d key"
    unfolding trust_chain_def using t d k
    by (simp add: countValid_card [OF assms] find_key verifySignature_Inr)
  with \<open>bundle_ok b\<close> \<open>bundle = _\<close> k(4) show ?rhs by blast
next
  assume ?rhs
  then obtain b d key where b: "parseBundle bundle = Inr b" "bundle_ok b"
    and t: "trust_chain ossl roots policy platform binary b d key"
    and v: "v = \<lparr> vf_delegationVersion = dg_version d, vf_expires = dg_expires d, vf_keyId = dk_id key, vf_keySpki = dk_spki key \<rparr>"
    unfolding parseBundle_iff by blast
  have "parseDelegation ossl (bd_document b) = Inr d" "distinct (map dk_id (dg_keys d))"
    using t by (simp_all add: trust_chain_def parseDelegation_iff delegation_text_def)
  moreover from this have "find (\<lambda>k. dk_id k = bd_keyId b) (dg_keys d) = Some key"
    using t by (simp add: find_key trust_chain_def)
  moreover have "verifySignatureWithKeyBytes ossl binary (bd_signature b) (dk_spki key) = Inr ()"
    using t by (simp add: verifySignature_Inr trust_chain_def)
  ultimately show ?lhs using t b v
    unfolding verifyBundleWithRoots_def Let_def trust_chain_def
    by (auto simp: countValid_card [OF assms b(2)])
qed

text \<open>
  C4.  \<open>verifyBundleWithRoots\<close> accepts exactly the binaries with an unbroken chain: the bundle is
  the canonical text of some \<open>NTMSIG 2\<close> bundle, at least the threshold (and at least one) of
  distinct roots signed its delegation document, that document is the canonical text of a
  delegation which has not expired (where the policy checks it) and is not older than the rollback
  floor, and the named build key of that delegation, scoped to the platform, signed the binary.
\<close>

theorem verifyBundle_trust_chain:
  assumes "distinct (map rk_id (rs_keys roots))"
  shows "verifyBundleWithRoots ossl binary bundle platform roots policy = Inr v \<longleftrightarrow>
    (\<exists>b d key. bundle_ok b \<and> bundle = printBundle b \<and> trust_chain ossl roots policy platform binary b d key
       \<and> v = \<lparr> vf_delegationVersion = dg_version d, vf_expires = dg_expires d,
               vf_keyId = dk_id key, vf_keySpki = dk_spki key \<rparr>)"
  by (rule verifyBundle_iff [OF assms])

text \<open>A small chain for the witnesses: three roots, two of which signed; a key accepts exactly
  its own bytes as a signature.\<close>

definition demo_ossl :: "bytes Ossl" where
  "demo_ossl = \<lparr> d2i_PUBKEY = (\<lambda>der. Some (der, [])), pkey_is_a = (\<lambda>_ _. True), mdCtxNew = True,
     digestVerifyInit = (\<lambda>_. True), digestVerify = (\<lambda>pkey sig _. sig = pkey) \<rparr>"

definition demo_roots :: RootSet where
  "demo_roots = productionRoots [\<lparr> rk_id = ''r1'', rk_der = [1] \<rparr>, \<lparr> rk_id = ''r2'', rk_der = [2] \<rparr>, \<lparr> rk_id = ''r3'', rk_der = [3] \<rparr>]"

definition demo_time :: CivilTime where
  "demo_time = \<lparr> ct_year = 2030, ct_month = 1, ct_day = 31, ct_hour = 0, ct_min = 0, ct_sec = 0 \<rparr>"

definition demo_delegation :: Delegation where
  "demo_delegation = \<lparr> dg_version = 7, dg_expires = civil_seconds demo_time,
     dg_keys = [\<lparr> dk_id = ''b1'', dk_platform = kServerPlatform, dk_spki = [9] \<rparr>] \<rparr>"

definition demo_bundle :: Bundle where
  "demo_bundle = \<lparr> bd_document = unlines (delegationLines 7 demo_time (dg_keys demo_delegation)),
     bd_rootSigs = [(''r1'', [1]), (''r3'', [3])], bd_keyId = ''b1'', bd_signature = [9] \<rparr>"

lemma length_base64: "length (base64 bs) \<le> 2 * length bs + 4"
  by (induction bs rule: base64.induct) (simp_all add: Let_def)

lemma length_printTime [simp]: "length (printTime c) = 20"
  by (rule printTime_parts)

lemma demo_document:
  "length (bd_document demo_bundle) \<le> 200" "bd_document demo_bundle \<noteq> []"
proof -
  have "length (show_nat 7) = 1" by (simp add: show_nat.simps)
  then show "length (bd_document demo_bundle) \<le> 200" "bd_document demo_bundle \<noteq> []"
    using length_base64 [of "[9]"]
    by (simp_all add: demo_bundle_def demo_delegation_def delegationLines_def keyLine_def kServerPlatform_def)
qed

lemma isId_demo: "isId ''r1'' \<and> isId ''r3'' \<and> isId ''b1''"
  by (simp add: isId_def isIdChar_def in_range_def code_of_def)

lemma demo_bundle_ok: "bundle_ok demo_bundle"
proof -
  have "length (printBundle demo_bundle) \<le> kMaxBundleBytes"
    using demo_document(1) length_base64 [of "str_bytes (bd_document demo_bundle)"] length_base64 [of "[1]"]
      length_base64 [of "[3]"] length_base64 [of "[9]"]
    by (simp add: printBundle_def bundleLines_def rootSigLine_def kMaxBundleBytes_def demo_bundle_def)
  then show ?thesis
    using demo_document(2) isId_demo
    by (simp add: bundle_ok_def demo_bundle_def rootSig_ok_def kMaxRootSigs_def)
qed

lemma demo_delegation_text: "delegation_text demo_ossl demo_delegation (bd_document demo_bundle)"
proof -
  have "civil_ok demo_time" by (simp add: civil_ok_def demo_time_def days_in_month_def)
  then show ?thesis using demo_document(1) isId_demo
    unfolding delegation_text_def
    by (intro conjI exI [of _ demo_time])
       (simp_all add: demo_bundle_def demo_delegation_def key_ok_def isKnownPlatform_def kServerPlatform_def
          isMlDsa65Spki_def demo_ossl_def kMaxDelegatedKeys_def kMaxDelegationBytes_def)
qed

lemma demo_chain: "trust_chain demo_ossl demo_roots (acceptPolicy 0 3) kServerPlatform [5] demo_bundle demo_delegation
    (hd (dg_keys demo_delegation))"
proof -
  have "{''r1'', ''r3''} \<subseteq> signing_roots demo_ossl demo_roots demo_bundle"
    using demo_document(2)
    by (auto simp: signing_roots_def demo_bundle_def demo_roots_def productionRoots_def signed_by_def demo_ossl_def)
  moreover have "finite (signing_roots demo_ossl demo_roots demo_bundle)"
    by (rule finite_subset [of _ "rk_id ` set (rs_keys demo_roots)"]) (auto simp: signing_roots_def)
  ultimately have "2 \<le> card (signing_roots demo_ossl demo_roots demo_bundle)"
    using card_mono [of "signing_roots demo_ossl demo_roots demo_bundle" "{''r1'', ''r3''}"] by simp
  moreover have "0 < civil_seconds demo_time" by (simp add: civil_seconds_def demo_time_def daysFromCivil_def Let_def)
  ultimately show ?thesis using demo_delegation_text
    by (simp add: trust_chain_def demo_roots_def productionRoots_def kTrustRootThreshold_def acceptPolicy_def
        demo_delegation_def demo_bundle_def signed_by_def demo_ossl_def)
qed

theorem verifyBundle_trust_chain_witness:
  "distinct (map rk_id (rs_keys demo_roots))
   \<and> verifyBundleWithRoots demo_ossl [5] (printBundle demo_bundle) kServerPlatform demo_roots (acceptPolicy 0 3)
     = Inr \<lparr> vf_delegationVersion = 7, vf_expires = civil_seconds demo_time, vf_keyId = ''b1'', vf_keySpki = [9] \<rparr>"
proof -
  have d: "distinct (map rk_id (rs_keys demo_roots))" by (simp add: demo_roots_def productionRoots_def)
  moreover have "verifyBundleWithRoots demo_ossl [5] (printBundle demo_bundle) kServerPlatform demo_roots (acceptPolicy 0 3)
     = Inr \<lparr> vf_delegationVersion = 7, vf_expires = civil_seconds demo_time, vf_keyId = ''b1'', vf_keySpki = [9] \<rparr>"
    unfolding verifyBundle_trust_chain [OF d]
    by (intro exI conjI) (rule demo_bundle_ok refl demo_chain, simp add: demo_delegation_def)+
  ultimately show ?thesis by simp
qed

text \<open>
  The two documents of the chain have exactly one text each.  A bundle parses to \<open>b\<close> exactly
  when its bytes are the text of \<open>b\<close> in the grammar (strictly ascending root ids, canonical base64,
  one final line end), and a delegation document parses to \<open>d\<close> exactly when it is a text of \<open>d\<close>
  (version without leading zeros below \<open>10 ^ 18\<close>, a valid calendar time, distinct key ids); any
  deviation is rejected.
\<close>

lemma trust_texts_strict:
  "(parseBundle bytes = Inr b \<longleftrightarrow> bundle_ok b \<and> bytes = printBundle b)
   \<and> (parseDelegation ossl doc = Inr d \<longleftrightarrow> delegation_text ossl d doc)"
  by (simp add: parseBundle_iff parseDelegation_iff)

section \<open>The calendar\<close>

definition valid_date :: "nat \<Rightarrow> nat \<Rightarrow> nat \<Rightarrow> bool" where
  "valid_date y m d \<longleftrightarrow> 1 \<le> y \<and> 1 \<le> m \<and> m \<le> 12 \<and> 1 \<le> d \<and> d \<le> days_in_month y m"

definition next_day :: "nat \<Rightarrow> nat \<Rightarrow> nat \<Rightarrow> nat \<times> nat \<times> nat" where
  "next_day y m d =
     (if d < days_in_month y m then (y, m, d + 1) else if m < 12 then (y, m + 1, 1) else (y + 1, 1, 1))"

definition day_number :: "nat \<Rightarrow> nat \<Rightarrow> nat \<Rightarrow> int" where
  "day_number y m d = daysFromCivil (int y) (int m) (int d)"

definition year_days :: "int \<Rightarrow> int" where
  "year_days y = 365 * y + y div 4 - y div 100 + y div 400"

lemma daysFromCivil_closed:
  assumes "1 \<le> y" "y' = (if m \<le> 2 then y - 1 else y)"
  shows "daysFromCivil y m d = year_days y'
    + (153 * (m + (if m > 2 then -3 else 9)) + 2) div 5 + d - 719469"
proof -
  define e r where "e = y' div 400" and "r = y' mod 400"
  have y: "y' = e * 400 + r" and r: "0 \<le> r" "r < 400" and p: "0 \<le> y'"
    using assms by (simp_all add: e_def r_def)
  have "(e * 400 + r) div 4 = e * 100 + r div 4" "(e * 400 + r) div 100 = e * 4 + r div 100"
    "(e * 400 + r) div 400 = e"
    using r div_mult_self1 [of 4 r "e * 100"] div_mult_self1 [of 100 r "e * 4"] by (simp_all add: algebra_simps)
  then have q: "y' div 4 = e * 100 + r div 4" "y' div 100 = e * 4 + r div 100" "y' - e * 400 = r"
    unfolding y by simp_all
  have "(if y' \<ge> 0 then y' div 400 else - ((399 - y') div 400)) = e" using p by (simp add: e_def)
  then show ?thesis
    unfolding year_days_def daysFromCivil_def Let_def assms(2) [symmetric] q(1,2) e_def [symmetric]
    by (simp only: q(3)) (simp add: y)
qed

lemma leap_step:
  fixes y :: int
  assumes "1 \<le> y"
  shows "year_days y = year_days (y - 1) + (if isLeap y then 366 else 365)"
proof -
  have s: "y div k = (y - 1) div k + (if y mod k = 0 then 1 else 0)" if "0 < k" for k :: int
  proof -
    define q r where "q = (y - 1) div k" and "r = (y - 1) mod k"
    have e: "y = k * q + (r + 1)" and r: "0 \<le> r" "r < k"
      using mult_div_mod_eq [of k "y - 1"] that by (simp_all add: q_def r_def)
    show ?thesis
    proof (cases "r + 1 = k")
      case True
      then have "y = k * (q + 1)" using e by (simp add: algebra_simps)
      then have "y div k = q + 1" "y mod k = 0" using that by simp_all
      then show ?thesis by (simp add: q_def)
    next
      case False
      with e r have "y div k = q" "y mod k = r + 1" by (auto intro: int_div_pos_eq int_mod_pos_eq)
      then show ?thesis using r by (simp add: q_def)
    qed
  qed
  have "y mod 400 = 0 \<Longrightarrow> y mod 100 = 0" "y mod 100 = 0 \<Longrightarrow> y mod 4 = 0"
    using dvd_trans [of 100 400 y] dvd_trans [of 4 100 y] by (simp_all add: dvd_eq_mod_eq_0 [symmetric])
  then have l: "(if isLeap y then 1 else 0) = (if y mod 4 = 0 then 1 else 0)
      - (if y mod 100 = 0 then 1 else 0) + (if y mod 400 = 0 then (1::int) else 0)"
    unfolding isLeap_def by presburger
  have e: "y div 4 = (y - 1) div 4 + (if y mod 4 = 0 then 1 else 0)"
    "y div 100 = (y - 1) div 100 + (if y mod 100 = 0 then 1 else 0)"
    "y div 400 = (y - 1) div 400 + (if y mod 400 = 0 then 1 else 0)"
    by (rule s; simp)+
  have r: "365 * y + (a + i) - (b + j) + (c + k) = 365 * (y - 1) + a - b + c + (365 + (i - j + k))"
    for a b c i j k :: int by simp
  have "year_days y = year_days (y - 1) + (365 + (if isLeap y then 1 else 0))"
    unfolding year_days_def e l by (rule r)
  then show ?thesis by simp
qed

lemma day_number_month:
  assumes "1 \<le> y" "1 \<le> m" "m < 12"
  shows "day_number y (m + 1) 1 = day_number y m (days_in_month y m) + 1"
proof -
  note c = daysFromCivil_closed [of "int y" _ _]
  have y: "1 \<le> int y" using assms(1) by simp
  have "m \<in> {1, 2, 3, 4, 5, 6, 7, 8, 9, 10, 11, 12}" using assms month_cases [of m] by simp
  then show ?thesis
    using assms(3) leap_step [OF y] unfolding day_number_def c [OF y refl]
    by (elim insertE emptyE) (simp_all add: days_in_month_def)
qed

text \<open>
  \<open>daysFromCivil\<close> counts days of the Gregorian calendar: 1970-01-01 is day zero, and the day
  after any valid date (month ends, leap years and century rules included) has the next number.
\<close>

lemma daysFromCivil_counts:
  assumes "valid_date y m d" "next_day y m d = (y', m', d')"
  shows "day_number 1970 1 1 = 0 \<and> day_number y' m' d' = day_number y m d + 1 \<and> valid_date y' m' d'"
proof -
  have z: "day_number 1970 1 1 = 0" by (simp add: day_number_def daysFromCivil_def)
  have v: "1 \<le> y" "1 \<le> m" "m \<le> 12" "1 \<le> d" "d \<le> days_in_month y m" using assms(1) by (auto simp: valid_date_def)
  have y: "1 \<le> int y" "1 \<le> int y + 1" using v(1) by simp_all
  have dim: "1 \<le> days_in_month a b" for a b by (simp add: days_in_month_def)
  consider "d < days_in_month y m" "(y', m', d') = (y, m, d + 1)"
    | "d = days_in_month y m" "m < 12" "(y', m', d') = (y, m + 1, 1)"
    | "d = days_in_month y m" "m = 12" "(y', m', d') = (y + 1, 1, 1)"
    using assms(2) v(3,5) unfolding next_day_def by (metis le_neq_implies_less)
  then show ?thesis
  proof cases
    case 1
    then show ?thesis using z v by (simp add: valid_date_def day_number_def daysFromCivil_def Let_def)
  next
    case 2
    then show ?thesis using z v dim day_number_month [OF v(1,2)] by (simp add: valid_date_def)
  next
    case 3
    then have "day_number y' m' d' = day_number y m d + 1"
      unfolding day_number_def
      using daysFromCivil_closed [OF y(1) refl, of 12 31] daysFromCivil_closed [OF y(2) refl, of 1 1]
      by (simp add: days_in_month_def add.commute)
    then show ?thesis using 3 z v dim [of "y + 1" 1] by (simp add: valid_date_def)
  qed
qed

lemma daysFromCivil_counts_witness:
  "valid_date 2024 2 29 \<and> day_number 2024 3 1 = day_number 2024 2 29 + 1"
proof -
  have "valid_date 2024 2 29" "next_day 2024 2 29 = (2024, 3, 1)"
    by (simp_all add: valid_date_def next_day_def days_in_month_def isLeap_def)
  from this(1) daysFromCivil_counts [OF this] show ?thesis by blast
qed

end
