(* ===== verification/Limiter.thy ===== *)
theory Limiter
  imports Prelude
begin

text \<open>
  The two per-address limiters: \<open>PerIPConnectionLimiter\<close> (\<open>server_core.cpp\<close>), which bounds the
  concurrent connections of an address, and \<open>WebRateLimiter\<close> (\<open>web_dashboard.cpp\<close>), the sliding
  window of sixty seconds in front of the web handlers.  Each call runs under its mutex, so a
  history of calls is a sequence.  Time is the steady clock in nanoseconds.
\<close>

section \<open>Concurrent connections\<close>

record PerIPConnectionLimiter =
  maxPerIP :: nat
  connCounts :: "(string \<times> nat) list"

definition newConnLimiter :: "nat \<Rightarrow> PerIPConnectionLimiter" where
  "newConnLimiter n = \<lparr> maxPerIP = (if n > 0 then n else 1), connCounts = [] \<rparr>"

text \<open>\<open>counts_[ip]\<close> inserts a zero entry before it is compared.\<close>

definition connTryAcquire :: "string \<Rightarrow> PerIPConnectionLimiter \<Rightarrow> bool \<times> PerIPConnectionLimiter" where
  "connTryAcquire ip l =
     (if ip = [] then (True, l)
      else let m = upd_at 0 ip (\<lambda>c. c) (connCounts l) in
           if at_or 0 ip m \<ge> maxPerIP l then (False, l\<lparr> connCounts := m \<rparr>)
           else (True, l\<lparr> connCounts := upd_at 0 ip (\<lambda>c. c + 1) m \<rparr>))"

definition connRelease :: "string \<Rightarrow> PerIPConnectionLimiter \<Rightarrow> PerIPConnectionLimiter" where
  "connRelease ip l =
     (if ip = [] then l
      else case map_of (connCounts l) ip of
        None \<Rightarrow> l
      | Some c \<Rightarrow> if c \<le> 1 then l\<lparr> connCounts := erase ip (connCounts l) \<rparr>
                  else l\<lparr> connCounts := upd_at 0 ip (\<lambda>c. c - 1) (connCounts l) \<rparr>)"

text \<open>The accept loop and the connection threads: a connection is admitted when \<open>tryAcquire\<close>
  succeeds, and its thread releases the address when it ends.  \<open>opened\<close> are the addresses of the
  connections that were admitted and have not ended.\<close>

inductive conns :: "nat \<Rightarrow> PerIPConnectionLimiter \<Rightarrow> string list \<Rightarrow> bool" for n where
  start: "conns n (newConnLimiter n) []"
| admit: "conns n l opened \<Longrightarrow> connTryAcquire ip l = (True, l') \<Longrightarrow> conns n l' (ip # opened)"
| refuse: "conns n l opened \<Longrightarrow> connTryAcquire ip l = (False, l') \<Longrightarrow> conns n l' opened"
| finish: "conns n l opened \<Longrightarrow> ip \<in> set opened \<Longrightarrow> conns n (connRelease ip l) (remove1 ip opened)"

section \<open>Requests per minute\<close>

definition kSec :: int where "kSec = 1000000000"

record WebRateLimiter =
  rpm :: nat
  rl_ops :: u64
  rl_map :: "(string \<times> int list) list"

definition newRateLimiter :: "nat \<Rightarrow> WebRateLimiter" where
  "newRateLimiter n = \<lparr> rpm = n, rl_ops = 0, rl_map = [] \<rparr>"

text \<open>\<open>duration_cast<seconds>(now - t).count() >= 60\<close>, and the loop that pops the drained front
  of a queue.\<close>

definition drained :: "int \<Rightarrow> int \<Rightarrow> bool" where
  "drained now t \<longleftrightarrow> (now - t) div kSec \<ge> 60"

definition popDrained :: "int \<Rightarrow> int list \<Rightarrow> int list" where
  "popDrained now q = dropWhile (drained now) q"

definition sweep :: "int \<Rightarrow> (string \<times> int list) list \<Rightarrow> (string \<times> int list) list" where
  "sweep now m = filter (\<lambda>(_, q). q \<noteq> []) (map (\<lambda>(ip, q). (ip, popDrained now q)) m)"

definition rateTryAcquire :: "int \<Rightarrow> string \<Rightarrow> WebRateLimiter \<Rightarrow> bool \<times> WebRateLimiter" where
  "rateTryAcquire now ip l =
     (if rpm l = 0 then (True, l)
      else let ops = rl_ops l + 1;
               m = (if ops AND 0xFF = 0 then sweep now (rl_map l) else rl_map l);
               dq = popDrained now (at_or [] ip m)
           in if length dq \<ge> rpm l
              then (False, l\<lparr> rl_ops := ops, rl_map := upd_at [] ip (\<lambda>_. dq) m \<rparr>)
              else (True, l\<lparr> rl_ops := ops, rl_map := upd_at [] ip (\<lambda>_. dq @ [now]) m \<rparr>))"

text \<open>A history of calls \<open>(now, ip)\<close> and its answers.\<close>

fun rateRun :: "(int \<times> string) list \<Rightarrow> WebRateLimiter \<Rightarrow> bool list" where
  "rateRun [] l = []"
| "rateRun ((now, ip) # calls) l = (case rateTryAcquire now ip l of (r, l') \<Rightarrow> r # rateRun calls l')"

text \<open>The specification: an exact sliding window over the log of admitted requests.  A request is
  admitted when fewer than \<open>n\<close> requests of the same address were admitted less than sixty
  seconds ago.\<close>

definition recent :: "int \<Rightarrow> string \<Rightarrow> (int \<times> string) list \<Rightarrow> int list" where
  "recent now ip log = map fst (filter (\<lambda>(t, a). a = ip \<and> now - t < 60 * kSec) log)"

fun windowRun :: "nat \<Rightarrow> (int \<times> string) list \<Rightarrow> (int \<times> string) list \<Rightarrow> bool list" where
  "windowRun n [] log = []"
| "windowRun n ((now, ip) # calls) log =
     (let ok = (n = 0 \<or> length (recent now ip log) < n)
      in ok # windowRun n calls (if ok then log @ [(now, ip)] else log))"

section \<open>Lemmas: concurrent connections\<close>

lemma remove1_count: "count_list (remove1 x xs) y = (if x = y then count_list xs y - 1 else count_list xs y)"
  by (induction xs) auto

text \<open>The table holds exactly the addresses with open connections, with their number.\<close>

definition counts_match :: "PerIPConnectionLimiter \<Rightarrow> string list \<Rightarrow> bool" where
  "counts_match l opened \<longleftrightarrow> (\<forall>ip. ip \<noteq> [] \<longrightarrow> count_list opened ip \<le> maxPerIP l
     \<and> map_of (connCounts l) ip = (if count_list opened ip = 0 then None else Some (count_list opened ip)))"

lemma map_of_refresh: "map_of m ip = Some c \<Longrightarrow> map_of (upd_at 0 ip (\<lambda>c. c) m) = map_of m"
  by (simp add: map_of_upd_at at_or_def fun_upd_idem)

lemma conns_invariant: "conns n l opened \<Longrightarrow> maxPerIP l = (if n > 0 then n else 1) \<and> counts_match l opened"
proof (induction rule: conns.induct)
  case start
  then show ?case by (simp add: newConnLimiter_def counts_match_def)
next
  case (admit l opened ip l')
  then show ?case
    by (auto simp: connTryAcquire_def Let_def counts_match_def map_of_upd_at at_or_def split: if_splits option.splits)
next
  case (refuse l opened ip l')
  then have "ip \<noteq> []" "maxPerIP l \<le> at_or 0 ip (connCounts l)"
    "l' = l\<lparr> connCounts := upd_at 0 ip (\<lambda>c. c) (connCounts l) \<rparr>"
    by (auto simp: connTryAcquire_def Let_def split: if_splits)
  moreover from this refuse.IH obtain c where "map_of (connCounts l) ip = Some c"
    by (cases "map_of (connCounts l) ip") (auto simp: at_or_def split: if_splits)
  ultimately have m: "map_of (connCounts l') = map_of (connCounts l)" "maxPerIP l' = maxPerIP l"
    by (simp_all add: map_of_refresh)
  have "counts_match l' opened \<longleftrightarrow> counts_match l opened" unfolding counts_match_def m by (rule refl)
  then show ?case using refuse.IH m(2) by metis
next
  case (finish l opened ip)
  have "0 < count_list opened ip" using finish.hyps(2) by (metis count_list_0_iff gr0I)
  with finish.IH show ?case
    by (auto simp: connRelease_def counts_match_def remove1_count map_of_upd_at map_of_erase at_or_def
        split: option.splits if_splits)
qed
lemma conns_count: "conns n l opened \<Longrightarrow> ip \<noteq> [] \<Longrightarrow>
    maxPerIP l = max n 1 \<and> count_list opened ip \<le> maxPerIP l \<and> at_or 0 ip (connCounts l) = count_list opened ip
    \<and> (has_key ip (connCounts l) \<longleftrightarrow> ip \<in> set opened)"
  using conns_invariant [of n l opened]
  by (auto simp: counts_match_def at_or_def has_key_def count_list_0_iff)

text \<open>
  However connections come and go, an address never has more than the configured number of
  connections open (one when zero is configured), a connection is refused exactly when the address
  is at the limit, and the table keeps an entry only for addresses with an open connection.
\<close>

lemma conn_limit:
  assumes "conns n l opened" "ip \<noteq> []"
  shows "count_list opened ip \<le> max n 1
    \<and> (fst (connTryAcquire ip l) \<longleftrightarrow> count_list opened ip < max n 1)
    \<and> (has_key ip (connCounts l) \<longleftrightarrow> ip \<in> set opened)"
  using conns_count [OF assms] assms(2) by (auto simp: connTryAcquire_def Let_def)

lemma conn_limit_witness:
  "\<exists>l. conns 1 l [''10.0.0.1''] \<and> \<not> fst (connTryAcquire ''10.0.0.1'' l) \<and> fst (connTryAcquire ''10.0.0.2'' l)"
proof -
  have a: "conns 1 (snd (connTryAcquire ''10.0.0.1'' (newConnLimiter 1))) [''10.0.0.1'']"
    by (rule conns.admit [OF conns.start]) (simp add: connTryAcquire_def Let_def newConnLimiter_def)
  from conn_limit [OF a, of "''10.0.0.1''"] conn_limit [OF a, of "''10.0.0.2''"] a show ?thesis by auto
qed

section \<open>Lemmas: requests per minute\<close>

lemma drained_iff: "drained now t \<longleftrightarrow> 60 * kSec \<le> now - t"
  unfolding drained_def kSec_def by linarith

definition undrained :: "int \<Rightarrow> int list \<Rightarrow> int list" where
  "undrained now q = filter (\<lambda>t. now - t < 60 * kSec) q"

lemma popDrained_sorted: "sorted q \<Longrightarrow> popDrained now q = undrained now q"
proof (induction q)
  case (Cons t q)
  show ?case
  proof (cases "drained now t")
    case True
    with Cons show ?thesis by (simp add: popDrained_def undrained_def drained_iff)
  next
    case False
    then have "\<forall>u \<in> set (t # q). now - u < 60 * kSec" using Cons.prems by (auto simp: drained_iff)
    with False show ?thesis by (simp add: popDrained_def undrained_def filter_id_conv)
  qed
qed (simp add: popDrained_def undrained_def)

lemma at_or_sweep: "keys_ok m \<Longrightarrow> at_or [] ip (sweep now m) = popDrained now (at_or [] ip m)"
proof (induction m arbitrary: ip)
  case Nil
  then show ?case by (simp add: sweep_def popDrained_def)
next
  case (Cons p m)
  obtain a q where p: "p = (a, q)" by (cases p)
  have s: "sweep now (p # m) = (if popDrained now q = [] then sweep now m else (a, popDrained now q) # sweep now m)"
    by (simp add: sweep_def p)
  have "\<not> has_key a m" using Cons.prems p by simp
  then have "at_or [] a (sweep now m) = []" using Cons p by (simp add: at_or_not_key popDrained_def)
  with Cons p show ?case unfolding s by (auto simp: at_or_def)
qed

lemma keys_ok_sweep: "keys_ok m \<Longrightarrow> keys_ok (sweep now m)"
proof -
  assume "keys_ok m"
  then have "keys_ok (map (\<lambda>(ip, q). (ip, popDrained now q)) m)"
    by (simp add: keys_ok_def comp_def case_prod_beta)
  then show ?thesis unfolding sweep_def by simp
qed

text \<open>A queue represents the log of an address up to time \<open>T\<close>: it is sorted, has no time after
  \<open>T\<close>, and agrees with the log on every window that ends at \<open>T\<close> or later.\<close>

definition queue_ok :: "int \<Rightarrow> (int \<times> string) list \<Rightarrow> string \<Rightarrow> int list \<Rightarrow> bool" where
  "queue_ok T log ip q \<longleftrightarrow> sorted q \<and> (\<forall>t \<in> set q. t \<le> T) \<and> (\<forall>now \<ge> T. undrained now q = recent now ip log)"

definition represents :: "int \<Rightarrow> (string \<times> int list) list \<Rightarrow> (int \<times> string) list \<Rightarrow> bool" where
  "represents T m log \<longleftrightarrow> keys_ok m \<and> (\<forall>ip. queue_ok T log ip (at_or [] ip m))"

lemma undrained_undrained: "now \<le> now' \<Longrightarrow> undrained now' (undrained now q) = undrained now' q"
  by (auto simp: undrained_def intro: filter_cong)

lemma queue_undrained: "queue_ok T log ip q \<Longrightarrow> queue_ok T log ip (undrained T q)"
proof -
  assume q: "queue_ok T log ip q"
  have "sorted q" "\<forall>t \<in> set q. t \<le> T" using q by (simp_all add: queue_ok_def)
  then have "sorted (undrained T q)" "\<forall>t \<in> set (undrained T q). t \<le> T"
    by (simp_all add: undrained_def sorted_wrt_filter)
  then show ?thesis using q undrained_undrained [of T _ q] unfolding queue_ok_def by simp
qed

lemma queue_popDrained: "queue_ok T log ip q \<Longrightarrow> queue_ok T log ip (popDrained T q) \<and> popDrained T q = recent T ip log"
  using queue_undrained [of T log ip q] popDrained_sorted [of q T] by (simp add: queue_ok_def)

lemma queue_snoc: "queue_ok now log ip q \<Longrightarrow> queue_ok now (log @ [(now, ip)]) ip (q @ [now])"
  by (auto simp: queue_ok_def undrained_def recent_def sorted_append)

lemma queue_other: "a \<noteq> ip \<Longrightarrow> queue_ok now (log @ [(t, a)]) ip q \<longleftrightarrow> queue_ok now log ip q"
  by (simp add: queue_ok_def recent_def)

lemma represents_mono: "represents T m log \<Longrightarrow> T \<le> now \<Longrightarrow> represents now m log"
  by (force simp: represents_def queue_ok_def)

lemma represents_sweep: "represents now m log \<Longrightarrow> represents now (sweep now m) log"
  by (simp add: represents_def keys_ok_sweep at_or_sweep queue_popDrained)

lemma represents_upd:
  assumes "represents now m log" "dq = popDrained now (at_or [] ip m)"
  shows "dq = recent now ip log" "represents now (upd_at [] ip (\<lambda>_. dq) m) log"
    "represents now (upd_at [] ip (\<lambda>_. dq @ [now]) m) (log @ [(now, ip)])"
proof -
  have q: "queue_ok now log ip dq" "dq = recent now ip log"
    using assms queue_popDrained by (auto simp: represents_def)
  then show "dq = recent now ip log" "represents now (upd_at [] ip (\<lambda>_. dq) m) log"
    using assms(1) by (auto simp: represents_def)
  show "represents now (upd_at [] ip (\<lambda>_. dq @ [now]) m) (log @ [(now, ip)])"
    using q(1) assms(1) queue_snoc [of now log ip dq] by (auto simp: represents_def queue_other)
qed

lemma rateRun_window:
  assumes "represents T (rl_map l) log" "sorted (T # map fst calls)"
  shows "rateRun calls l = windowRun (rpm l) calls log"
  using assms
proof (induction calls arbitrary: T l log)
  case (Cons c calls)
  obtain now ip where c: "c = (now, ip)" by (cases c)
  have s: "T \<le> now" "sorted (now # map fst calls)" using Cons.prems(2) c by auto
  have r: "represents now (rl_map l) log" using represents_mono [OF Cons.prems(1) s(1)] .
  define m where "m = (if (rl_ops l + 1) AND 0xFF = 0 then sweep now (rl_map l) else rl_map l)"
  define dq where "dq = popDrained now (at_or [] ip m)"
  have "represents now m log" using r represents_sweep by (simp add: m_def)
  note u = represents_upd [OF this dq_def]
  show ?case
  proof (cases "rpm l = 0")
    case True
    have w: "windowRun 0 cs lg = windowRun 0 cs lg'" for cs lg lg'
      by (induction cs arbitrary: lg lg') (auto simp: Let_def split: prod.splits)
    show ?thesis using Cons.IH [OF r s(2)] True c w [of calls "log @ [(now, ip)]" log]
      by (simp add: rateTryAcquire_def)
  next
    case False
    define l' where "l' = l\<lparr> rl_ops := rl_ops l + 1,
        rl_map := upd_at [] ip (\<lambda>_. if length dq \<ge> rpm l then dq else dq @ [now]) m \<rparr>"
    have t: "rateTryAcquire now ip l = (\<not> length dq \<ge> rpm l, l')"
      using False by (simp add: rateTryAcquire_def Let_def l'_def m_def [symmetric] dq_def [symmetric])
    have "represents now (rl_map l') (if length dq \<ge> rpm l then log else log @ [(now, ip)])"
      using u by (simp add: l'_def)
    from Cons.IH [OF this s(2)] show ?thesis
      using False u(1) by (simp add: c t l'_def Let_def not_le)
  qed
qed simp

text \<open>
  C32.  The rate limiter is an exact sliding window: over any history of calls in clock order, a
  request is admitted exactly when fewer than the configured number of requests of that address
  were admitted in the last sixty seconds.  The periodic sweep of drained entries never changes an
  answer.
\<close>

theorem rate_limiter_window:
  assumes "sorted (map fst calls)"
  shows "rateRun calls (newRateLimiter n) = windowRun n calls []"
proof (cases calls)
  case (Cons c cs)
  have "represents (fst c) (rl_map (newRateLimiter n)) []"
    by (simp add: represents_def newRateLimiter_def queue_ok_def undrained_def recent_def)
  moreover have "sorted (fst c # map fst calls)" using assms Cons by auto
  ultimately show ?thesis using rateRun_window [of "fst c" "newRateLimiter n" "[]" calls]
    by (simp add: newRateLimiter_def)
qed simp

theorem rate_limiter_window_witness:
  "sorted (map fst [(0 :: int, ''a''), (1, ''a''), (60000000000, ''a'')])
   \<and> rateRun [(0, ''a''), (1, ''a''), (60000000000, ''a'')] (newRateLimiter 1) = [True, False, True]"
proof -
  have s: "sorted (map fst [(0::int, ''a''), (1, ''a''), (60000000000, ''a'')])" by simp
  show ?thesis using s rate_limiter_window [OF s, of 1] by (simp add: recent_def kSec_def)
qed

end
