(* ===== verification/Upgrade.thy ===== *)
theory Upgrade
  imports Trust Limiter "HOL-Library.Product_Lexorder"
begin

text \<open>
  Pushing a new server binary: the version numbers, the authorisation proof, the single-use nonces
  and the atomic replacement of \<open>server_upgrade.hpp\<close>, and the two handlers
  \<open>/admin/upgrade/nonce\<close> and \<open>/admin/upgrade/push\<close> of \<open>web_dashboard.cpp\<close> that put them
  together with the trust chain and the rate limiter.

  The random bytes, the clocks, SHA3-256, OpenSSL and the outcome of every file operation are
  arguments, as is what the disk keeps of a written file after the \<open>fclose\<close>, whose result the code ignores.  A file
  system maps paths to contents.
\<close>

section \<open>Versions\<close>

record Semver =
  sv_major :: u32
  sv_minor :: u32
  sv_patch :: u32
  sv_revision :: u32
  sv_valid :: bool

definition Semver0 :: Semver where
  "Semver0 = \<lparr> sv_major = 0, sv_minor = 0, sv_patch = 0, sv_revision = 0, sv_valid = False \<rparr>"

definition semver_gt :: "Semver \<Rightarrow> Semver \<Rightarrow> bool" where
  "semver_gt a b =
     (if sv_major a \<noteq> sv_major b then sv_major a > sv_major b
      else if sv_minor a \<noteq> sv_minor b then sv_minor a > sv_minor b
      else if sv_patch a \<noteq> sv_patch b then sv_patch a > sv_patch b
      else sv_revision a > sv_revision b)"

definition semver_eq :: "Semver \<Rightarrow> Semver \<Rightarrow> bool" where
  "semver_eq a b \<longleftrightarrow> sv_major a = sv_major b \<and> sv_minor a = sv_minor b
     \<and> sv_patch a = sv_patch b \<and> sv_revision a = sv_revision b"

definition semver_le :: "Semver \<Rightarrow> Semver \<Rightarrow> bool" where
  "semver_le a b \<longleftrightarrow> \<not> semver_gt a b"

definition semver_str :: "Semver \<Rightarrow> string" where
  "semver_str v = show_nat (unat (sv_major v)) @ ''.'' @ show_nat (unat (sv_minor v)) @ ''.''
     @ show_nat (unat (sv_patch v)) @ ''.'' @ show_nat (unat (sv_revision v))"

text \<open>\<open>static_cast<unsigned>(std::stoul(part, &pos))\<close> with the check that all of the part was used.\<close>

definition semverPart :: "string \<Rightarrow> u32 option" where
  "semverPart s =
     (case stoul_pos s of None \<Rightarrow> None | Some (v, pos) \<Rightarrow> if pos \<noteq> length s then None else Some (ucast v))"

definition parseSemver :: "string \<Rightarrow> Semver" where
  "parseSemver s =
     (case find_ch CHR ''.'' s of None \<Rightarrow> Semver0
      | Some d1 \<Rightarrow>
     (case find_ch_from CHR ''.'' (d1 + 1) s of None \<Rightarrow> Semver0
      | Some d2 \<Rightarrow>
     (let d3 = find_ch_from CHR ''.'' (d2 + 1) s in
      if (case d3 of None \<Rightarrow> False | Some d \<Rightarrow> find_ch_from CHR ''.'' (d + 1) s \<noteq> None) then Semver0
      else case (semverPart (substr 0 d1 s), semverPart (substr (d1 + 1) (d2 - d1 - 1) s)) of
        (Some maj, Some mnr) \<Rightarrow>
          (case d3 of
             None \<Rightarrow>
               (case semverPart (drop (d2 + 1) s) of None \<Rightarrow> Semver0
                | Some pat \<Rightarrow> \<lparr> sv_major = maj, sv_minor = mnr, sv_patch = pat, sv_revision = 0, sv_valid = True \<rparr>)
           | Some d \<Rightarrow>
               (case (semverPart (substr (d2 + 1) (d - d2 - 1) s), semverPart (drop (d + 1) s)) of
                  (Some pat, Some rvn) \<Rightarrow>
                    \<lparr> sv_major = maj, sv_minor = mnr, sv_patch = pat, sv_revision = rvn, sv_valid = True \<rparr>
                | _ \<Rightarrow> Semver0))
      | _ \<Rightarrow> Semver0)))"

section \<open>The authorisation proof\<close>

datatype AuthError = AuthEmptyInput | AuthSig SigError

definition verifyUpgradeAuth :: "'k Ossl \<Rightarrow> bytes \<Rightarrow> bytes \<Rightarrow> bytes \<Rightarrow> bytes \<Rightarrow> AuthError + unit" where
  "verifyUpgradeAuth ossl nonce_bytes binary_sha3 auth_proof der_pubkey =
     (if nonce_bytes = [] \<or> binary_sha3 = [] \<or> auth_proof = [] then Inl AuthEmptyInput
      else let msg = nonce_bytes @ binary_sha3 in
           case d2i_PUBKEY ossl der_pubkey of
             None \<Rightarrow> Inl (AuthSig KeyLoadFailed)
           | Some (pkey, _) \<Rightarrow>
               if \<not> mdCtxNew ossl then Inl (AuthSig CtxFailed)
               else if \<not> digestVerifyInit ossl pkey then Inl (AuthSig InitFailed)
               else if digestVerify ossl pkey auth_proof msg then Inr () else Inl (AuthSig VerifyFailed))"

section \<open>Nonces\<close>

record NonceEntry =
  ne_expiry :: int
  ne_spent :: bool

type_synonym NonceStore = "(string \<times> NonceEntry) list"

definition purgeExpiredLocked :: "int \<Rightarrow> NonceStore \<Rightarrow> NonceStore" where
  "purgeExpiredLocked now st = erase_if (\<lambda>_ e. now \<ge> ne_expiry e) st"

text \<open>\<open>raw\<close> is the outcome of \<open>RAND_bytes\<close>.  Each call reads the clock twice: \<open>now\<close> is the reading
  for the expiry, \<open>now'\<close> the one of the purge.\<close>

definition generate :: "bytes option \<Rightarrow> int \<Rightarrow> int \<Rightarrow> int \<Rightarrow> NonceStore \<Rightarrow> string \<times> NonceStore" where
  "generate raw now now' ttl_sec st =
     (case raw of None \<Rightarrow> ([], st)
      | Some r \<Rightarrow>
          (let hex = hexEncode r; expiry = now + ttl_sec * kSec
           in (hex, AList.update hex \<lparr> ne_expiry = expiry, ne_spent = False \<rparr> (purgeExpiredLocked now' st))))"

definition consume :: "int \<Rightarrow> int \<Rightarrow> string \<Rightarrow> NonceStore \<Rightarrow> bool \<times> NonceStore" where
  "consume now' now hex_nonce st =
     (let st1 = purgeExpiredLocked now' st in
      case map_of st1 hex_nonce of
        None \<Rightarrow> (False, st1)
      | Some e \<Rightarrow>
          if now \<ge> ne_expiry e then (False, st1)
          else if ne_spent e then (False, st1)
          else (True, AList.update hex_nonce (e\<lparr> ne_spent := True \<rparr>) st1))"

section \<open>Replacing the binary\<close>

type_synonym file_system = "string \<Rightarrow> bytes option"

text \<open>Which steps succeed, what a failed write left in the file, and how many bytes of each file the disk
  holds after \<open>fclose\<close>.  The code ignores the result of \<open>fclose\<close>, which writes what is still buffered, so
  that a file may be short although its \<open>fwrite\<close> took every byte.\<close>

record WriteEnv =
  we_openBin :: bool
  we_writeBin :: bool
  we_chmod :: bool
  we_openSig :: bool
  we_writeSig :: bool
  we_renameSig :: bool
  we_renameBin :: bool
  we_partial :: bytes
  we_keptBin :: "nat \<Rightarrow> nat"
  we_keptSig :: "nat \<Rightarrow> nat"

definition diskKept :: "(nat \<Rightarrow> nat) \<Rightarrow> bytes \<Rightarrow> bytes" where
  "diskKept kept content = take (kept (length content)) content"

datatype WriteError =
    CannotCreate string | WriteFailed string | ChmodFailed string | RenameFailed string string
  | CriticalRename string string

text \<open>\<open>fwrite\<close> and \<open>fclose\<close>; the result is that of \<open>fwrite\<close>.\<close>

definition fwrite :: "bool \<Rightarrow> bytes \<Rightarrow> (nat \<Rightarrow> nat) \<Rightarrow> string \<Rightarrow> bytes \<Rightarrow> file_system \<Rightarrow> bool \<times> file_system" where
  "fwrite succ partial kept path content fs =
     (if content = [] \<or> succ then (True, fs(path \<mapsto> diskKept kept content)) else (False, fs(path \<mapsto> partial)))"

definition rename_file :: "string \<Rightarrow> string \<Rightarrow> file_system \<Rightarrow> file_system" where
  "rename_file p q fs = fs(q := fs p, p := None)"

text \<open>The steps on given paths; \<open>cleanup\<close> removes both temporary files.\<close>

definition cleanup :: "string \<Rightarrow> string \<Rightarrow> file_system \<Rightarrow> file_system" where
  "cleanup binTmp sigTmp fs = fs(binTmp := None, sigTmp := None)"

definition writeSteps :: "WriteEnv \<Rightarrow> string \<Rightarrow> string \<Rightarrow> string \<Rightarrow> string \<Rightarrow> bytes \<Rightarrow> bytes \<Rightarrow>
    file_system \<Rightarrow> (WriteError + unit) \<times> file_system" where
  "writeSteps we target binTmp sigPath sigTmp binaryData sigData fs =
     (if \<not> we_openBin we then (Inl (CannotCreate binTmp), fs)
      else case fwrite (we_writeBin we) (we_partial we) (we_keptBin we) binTmp binaryData fs of
        (False, fs1) \<Rightarrow> (Inl (WriteFailed binTmp), cleanup binTmp sigTmp fs1)
      | (True, fs1) \<Rightarrow>
          if \<not> we_chmod we then (Inl (ChmodFailed binTmp), cleanup binTmp sigTmp fs1)
          else if \<not> we_openSig we then (Inl (CannotCreate sigTmp), cleanup binTmp sigTmp fs1)
          else case fwrite (we_writeSig we) (we_partial we) (we_keptSig we) sigTmp sigData fs1 of
            (False, fs2) \<Rightarrow> (Inl (WriteFailed sigTmp), cleanup binTmp sigTmp fs2)
          | (True, fs2) \<Rightarrow>
              if \<not> we_renameSig we then (Inl (RenameFailed sigTmp sigPath), cleanup binTmp sigTmp fs2)
              else let fs3 = rename_file sigTmp sigPath fs2 in
                   if \<not> we_renameBin we then (Inl (CriticalRename binTmp target), fs3)
                   else (Inr (), rename_file binTmp target fs3))"

definition writeUpgradeAtomically ::
    "WriteEnv \<Rightarrow> string \<Rightarrow> bytes \<Rightarrow> bytes \<Rightarrow> file_system \<Rightarrow> (WriteError + unit) \<times> file_system" where
  "writeUpgradeAtomically we targetBinaryPath binaryData sigData fs =
     (let binTmp = targetBinaryPath @ ''.upgrade_tmp'';
          sigPath = targetBinaryPath @ ''.sig'';
          sigTmp = sigPath @ ''.upgrade_tmp''
      in writeSteps we targetBinaryPath binTmp sigPath sigTmp binaryData sigData fs)"

section \<open>The handlers\<close>

type_synonym Response = "nat \<times> string"

abbreviation DQ :: char where "DQ \<equiv> CHR 0x22"

definition jsonError :: "string \<Rightarrow> string" where
  "jsonError msg = ''{'' @ [DQ] @ ''error'' @ [DQ] @ '':'' @ [DQ] @ msg @ [DQ] @ ''}'' @ [LF]"

record UpgradeWorld =
  uw_nonceLimiter :: WebRateLimiter
  uw_pushLimiter :: WebRateLimiter
  uw_nonces :: NonceStore
  uw_fs :: file_system
  uw_shutdown :: bool

text \<open>The configuration and the outside world during one request: the steady clock at the rate
  limiter and at the two readings of the nonce store, the wall clock, and the file operations.\<close>

record 'k UpgradeEnv =
  ue_ossl :: "'k Ossl"
  ue_roots :: "RootKey list"
  ue_sha3 :: "bytes \<Rightarrow> bytes"
  ue_server_version :: string
  ue_binary_path :: string
  ue_self_delegation :: u64
  ue_rand :: "bytes option"
  ue_now :: int
  ue_now1 :: int
  ue_now2 :: int
  ue_utc :: int
  ue_write :: WriteEnv
  ue_has_shutdown_cb :: bool

definition upgradeNonce :: "'k UpgradeEnv \<Rightarrow> string \<Rightarrow> UpgradeWorld \<Rightarrow> Response \<times> UpgradeWorld" where
  "upgradeNonce env ip w =
     (case rateTryAcquire (ue_now env) ip (uw_nonceLimiter w) of
        (False, l) \<Rightarrow> ((429, jsonError ''rate limit exceeded''), w\<lparr> uw_nonceLimiter := l \<rparr>)
      | (True, l) \<Rightarrow>
          (case generate (ue_rand env) (ue_now1 env) (ue_now2 env) 300 (uw_nonces w) of
             (nonce, st) \<Rightarrow>
               (let w' = w\<lparr> uw_nonceLimiter := l, uw_nonces := st \<rparr> in
                if nonce = [] then ((500, jsonError ''nonce generation failed''), w')
                else ((200, ''{'' @ [DQ] @ ''nonce'' @ [DQ] @ '':'' @ [DQ] @ nonce @ [DQ] @ '','' @ [DQ]
                        @ ''server_version'' @ [DQ] @ '':'' @ [DQ] @ ue_server_version env @ [DQ] @ ''}'' @ [LF]), w'))))"

text \<open>A multipart field: text fields first, then uploaded files.\<close>

definition getField :: "(string \<times> string) list \<Rightarrow> (string \<times> string) list \<Rightarrow> string \<Rightarrow> string" where
  "getField flds fls name =
     (case map_of flds name of Some v \<Rightarrow> v
      | None \<Rightarrow> (case map_of fls name of Some v \<Rightarrow> v | None \<Rightarrow> []))"

record PushForm =
  pf_version :: string
  pf_nonce :: string
  pf_auth_proof :: string
  pf_binary :: string
  pf_signature :: string

definition pushForm :: "(string \<times> string) list \<Rightarrow> (string \<times> string) list \<Rightarrow> PushForm" where
  "pushForm flds fls =
     \<lparr> pf_version = getField flds fls ''version'', pf_nonce = getField flds fls ''nonce'',
       pf_auth_proof = getField flds fls ''auth_proof'', pf_binary = getField flds fls ''binary'',
       pf_signature = getField flds fls ''signature'' \<rparr>"

text \<open>Steps (b) to (f) of the push handler, after the nonce was consumed.\<close>

definition upgradeApply :: "'k UpgradeEnv \<Rightarrow> PushForm \<Rightarrow> UpgradeWorld \<Rightarrow> Response \<times> UpgradeWorld" where
  "upgradeApply env form w =
     (let binaryBytes = str_bytes (pf_binary form);
          sigBytes = str_bytes (pf_signature form);
          nonceBytes = hexDecode (pf_nonce form);
          binaryHash = ue_sha3 env binaryBytes;
          authProof = base64Decode (pf_auth_proof form)
      in if nonceBytes = [] \<or> binaryHash = [] \<or> authProof = []
         then ((400, jsonError ''malformed nonce, binary, or auth_proof''), w)
         else case verifyArtifactBytes (ue_ossl env) (ue_roots env) binaryBytes sigBytes kServerPlatform
                     (acceptPolicy (ue_utc env) (ue_self_delegation env)) of
           Inl _ \<Rightarrow> ((403, jsonError ''binary signature verification failed''), w)
         | Inr pushTrust \<Rightarrow>
             (case verifyUpgradeAuth (ue_ossl env) nonceBytes binaryHash authProof (vf_keySpki pushTrust) of
                Inl _ \<Rightarrow> ((403, jsonError ''auth proof verification failed''), w)
              | Inr _ \<Rightarrow>
                  (let newVer = parseSemver (pf_version form);
                       curVer = parseSemver (ue_server_version env)
                   in if \<not> sv_valid newVer \<or> \<not> sv_valid curVer
                      then ((400, jsonError ''unparseable version string''), w)
                      else if semver_le newVer curVer
                      then ((409, jsonError (''uploaded binary v'' @ semver_str newVer
                              @ '' is not newer than current v'' @ semver_str curVer @ ''; discarding'')), w)
                      else case writeUpgradeAtomically (ue_write env) (ue_binary_path env) binaryBytes sigBytes (uw_fs w) of
                        (Inl _, fs) \<Rightarrow> ((500, jsonError ''failed to write upgrade''), w\<lparr> uw_fs := fs \<rparr>)
                      | (Inr _, fs) \<Rightarrow>
                          ((200, ''{'' @ [DQ] @ ''ok'' @ [DQ] @ '':true,'' @ [DQ] @ ''upgraded_to'' @ [DQ] @ '':'' @ [DQ]
                              @ semver_str newVer @ [DQ] @ ''}'' @ [LF]),
                           w\<lparr> uw_fs := fs, uw_shutdown := uw_shutdown w \<or> ue_has_shutdown_cb env \<rparr>))))"

definition upgradePush :: "'k UpgradeEnv \<Rightarrow> string \<Rightarrow> (string \<times> string) list \<Rightarrow> (string \<times> string) list \<Rightarrow>
    UpgradeWorld \<Rightarrow> Response \<times> UpgradeWorld" where
  "upgradePush env ip flds fls w =
     (case rateTryAcquire (ue_now env) ip (uw_pushLimiter w) of
        (False, l) \<Rightarrow> ((429, jsonError ''rate limit exceeded''), w\<lparr> uw_pushLimiter := l \<rparr>)
      | (True, l) \<Rightarrow>
          (let w1 = w\<lparr> uw_pushLimiter := l \<rparr>; form = pushForm flds fls in
           if pf_version form = [] \<or> pf_nonce form = [] \<or> pf_auth_proof form = [] \<or> pf_binary form = []
              \<or> pf_signature form = []
           then ((400, jsonError ''missing required field''), w1)
           else case consume (ue_now1 env) (ue_now2 env) (pf_nonce form) (uw_nonces w1) of
             (False, st) \<Rightarrow> ((403, jsonError ''invalid, expired, or already-used nonce''), w1\<lparr> uw_nonces := st \<rparr>)
           | (True, st) \<Rightarrow> upgradeApply env form (w1\<lparr> uw_nonces := st \<rparr>)))"

section \<open>Lemmas: versions\<close>

definition semver_key :: "Semver \<Rightarrow> u32 \<times> u32 \<times> u32 \<times> u32" where
  "semver_key v = (sv_major v, sv_minor v, sv_patch v, sv_revision v)"

lemma semver_order:
  "semver_gt a b \<longleftrightarrow> semver_key b < semver_key a" "semver_le a b \<longleftrightarrow> semver_key a \<le> semver_key b"
  "semver_eq a b \<longleftrightarrow> semver_key a = semver_key b"
proof -
  show gt: "semver_gt a b \<longleftrightarrow> semver_key b < semver_key a"
    by (auto simp: semver_gt_def semver_key_def less_prod_def' neq_iff)
  show "semver_le a b \<longleftrightarrow> semver_key a \<le> semver_key b" unfolding semver_le_def gt by (simp add: not_less)
  show "semver_eq a b \<longleftrightarrow> semver_key a = semver_key b" by (simp add: semver_eq_def semver_key_def)
qed

lemma dot_not_digit: "CHR ''.'' \<notin> set (show_nat n)"
proof
  assume "CHR ''.'' \<in> set (show_nat n)"
  then have "is_digit CHR ''.''" using show_nat_digits by blast
  then show False by (simp add: is_digit_iff code_of_def)
qed

lemma semverPart_show [simp]: "semverPart (show_nat (unat (w :: u32))) = Some w"
proof -
  have "strtoull (show_nat (unat w)) = Some (of_nat (unat w), False, length (show_nat (unat w)))"
    using strtoull_show_nat [of "unat w" "[]"] unat_u32_less [of w] by simp
  moreover have "of_nat (unat w) = (ucast w :: u64)" by (simp add: word_unat_eq_iff unsigned_of_nat)
  ultimately show ?thesis by (simp add: semverPart_def stoul_pos_def)
qed

lemma find_dot:
  "CHR ''.'' \<notin> set a \<Longrightarrow> find_ch_from CHR ''.'' (length p) (p @ a @ CHR ''.'' # r) = Some (length p + length a)"
  "CHR ''.'' \<notin> set a \<Longrightarrow> find_ch_from CHR ''.'' (length p) (p @ a) = None"
  by (simp_all add: find_ch_from_def find_ch_append)

lemma parseSemver_str: "parseSemver (semver_str v) = \<lparr> sv_major = sv_major v, sv_minor = sv_minor v,
    sv_patch = sv_patch v, sv_revision = sv_revision v, sv_valid = True \<rparr>"
proof -
  define a b c d where parts: "a = show_nat (unat (sv_major v))" "b = show_nat (unat (sv_minor v))"
    "c = show_nat (unat (sv_patch v))" "d = show_nat (unat (sv_revision v))"
  have n: "CHR ''.'' \<notin> set a" "CHR ''.'' \<notin> set b" "CHR ''.'' \<notin> set c" "CHR ''.'' \<notin> set d"
    by (simp_all add: parts dot_not_digit)
  let ?s = "a @ CHR ''.'' # b @ CHR ''.'' # c @ CHR ''.'' # d"
  have f: "find_ch CHR ''.'' ?s = Some (length a)"
    "find_ch_from CHR ''.'' (length a + 1) ?s = Some (length a + 1 + length b)"
    "find_ch_from CHR ''.'' (length a + 1 + length b + 1) ?s = Some (length a + 1 + length b + 1 + length c)"
    "find_ch_from CHR ''.'' (length a + 1 + length b + 1 + length c + 1) ?s = None"
    using find_ch_append [OF n(1)] find_dot(1) [OF n(2), of "a @ ''.''"] find_dot(1) [OF n(3), of "a @ CHR ''.'' # b @ ''.''"]
      find_dot(2) [OF n(4), of "a @ CHR ''.'' # b @ CHR ''.'' # c @ ''.''"] by (simp_all add: add.assoc)
  have s: "semver_str v = ?s" by (simp add: semver_str_def parts)
  have q: "substr 0 (length a) ?s = a" "substr (length a + 1) (length a + 1 + length b - length a - 1) ?s = b"
    "substr (length a + 1 + length b + 1) (length a + 1 + length b + 1 + length c - (length a + 1 + length b) - 1) ?s = c"
    "drop (length a + 1 + length b + 1 + length c + 1) ?s = d"
    using append_eq_conv_conj [of "a @ CHR ''.'' # b @ CHR ''.'' # c @ ''.''" d ?s]
    by (simp_all add: substr_def add.assoc)
  have "parseSemver ?s = \<lparr> sv_major = sv_major v, sv_minor = sv_minor v, sv_patch = sv_patch v,
     sv_revision = sv_revision v, sv_valid = True \<rparr>"
    unfolding parseSemver_def f option.case Let_def q by (simp add: f [simplified] parts)
  then show ?thesis using s by simp
qed

text \<open>
  Reading back a printed version gives the version, for every value of the four numbers, and
  the comparison operators are the lexicographic order of the four numbers.
\<close>

lemma semver_roundtrip:
  "parseSemver (semver_str v) = \<lparr> sv_major = sv_major v, sv_minor = sv_minor v, sv_patch = sv_patch v,
     sv_revision = sv_revision v, sv_valid = True \<rparr>
   \<and> (semver_gt a b \<longleftrightarrow> semver_key b < semver_key a) \<and> (semver_le a b \<longleftrightarrow> semver_key a \<le> semver_key b)"
  by (simp add: parseSemver_str semver_order)

section \<open>Lemmas: nonces\<close>

text \<open>The histories of a nonce store, newest call first, with the answer of each call.\<close>

datatype NonceCall = Generate "bytes option" int int int | Consume int int string

inductive nonce_history :: "(NonceCall \<times> bool) list \<Rightarrow> NonceStore \<Rightarrow> bool" where
  start: "nonce_history [] []"
| gen: "nonce_history H st \<Longrightarrow> generate raw now now' ttl st = (hex, st') \<Longrightarrow>
    nonce_history ((Generate raw now now' ttl, hex \<noteq> []) # H) st'"
| con: "nonce_history H st \<Longrightarrow> consume now' now hex st = (ok, st') \<Longrightarrow>
    nonce_history ((Consume now' now hex, ok) # H) st'"

definition issued :: "string \<Rightarrow> int \<Rightarrow> NonceCall \<Rightarrow> bool" where
  "issued hex expiry c \<longleftrightarrow> (\<exists>r now now' ttl. c = Generate (Some r) now now' ttl \<and> hexEncode r = hex
     \<and> expiry = now + ttl * kSec)"

definition accepted :: "string \<Rightarrow> NonceCall \<times> bool \<Rightarrow> bool" where
  "accepted hex c \<longleftrightarrow> (\<exists>now' now. c = (Consume now' now hex, True))"

text \<open>An entry of the store comes from the call that issued it; while it is unspent, nobody has
  used it since.\<close>

definition entry_ok :: "(NonceCall \<times> bool) list \<Rightarrow> string \<Rightarrow> NonceEntry \<Rightarrow> bool" where
  "entry_ok H hex e \<longleftrightarrow> (\<exists>H1 c b H2. H = H1 @ (c, b) # H2 \<and> issued hex (ne_expiry e) c
     \<and> (\<not> ne_spent e \<longrightarrow> (\<forall>x \<in> set H1. \<not> accepted hex x)))"

lemma entry_ok_step:
  assumes "entry_ok H hex e" "accepted hex x \<Longrightarrow> ne_spent e' " "ne_expiry e' = ne_expiry e" "ne_spent e \<Longrightarrow> ne_spent e'"
  shows "entry_ok (x # H) hex e'"
proof -
  obtain H1 c b H2 where "H = H1 @ (c, b) # H2" "issued hex (ne_expiry e) c"
    "\<not> ne_spent e \<longrightarrow> (\<forall>x \<in> set H1. \<not> accepted hex x)"
    using assms(1) unfolding entry_ok_def by blast
  then show ?thesis unfolding entry_ok_def
    by (intro exI [of _ "x # H1"] exI [of _ c] exI [of _ b] exI [of _ H2]) (use assms(2-4) in auto)
qed

lemma keys_ok_purge [simp]: "keys_ok st \<Longrightarrow> keys_ok (purgeExpiredLocked now st)"
  by (simp add: purgeExpiredLocked_def)

lemma map_of_purge: "keys_ok st \<Longrightarrow> map_of (purgeExpiredLocked now st) hex =
    (case map_of st hex of None \<Rightarrow> None | Some e \<Rightarrow> if ne_expiry e \<le> now then None else Some e)"
  by (simp add: purgeExpiredLocked_def map_of_erase_if)

lemma consume_cases:
  assumes "keys_ok st" "consume now' now hex st = (ok, st')"
  shows "keys_ok st'"
    and "ok \<Longrightarrow> \<exists>e. map_of st hex = Some e \<and> \<not> ne_spent e \<and> now < ne_expiry e
      \<and> map_of st' = (map_of (purgeExpiredLocked now' st)) (hex \<mapsto> e\<lparr> ne_spent := True \<rparr>)"
    and "\<not> ok \<Longrightarrow> st' = purgeExpiredLocked now' st"
  using assms by (auto simp: consume_def Let_def update_conv' map_of_purge split: option.splits if_splits)

lemma nonce_history_ok:
  "nonce_history H st \<Longrightarrow> keys_ok st \<and> (\<forall>hex e. map_of st hex = Some e \<longrightarrow> entry_ok H hex e)"
proof (induction rule: nonce_history.induct)
  case start
  then show ?case by simp
next
  case (gen H st raw now now' ttl hex st')
  have old: "entry_ok ((Generate raw now now' ttl, b) # H) h e" if "map_of st h = Some e" for h e b
    using gen.IH that by (intro entry_ok_step [where e = e]) (auto simp: accepted_def)
  show ?case
  proof (cases raw)
    case None
    with gen old show ?thesis by (auto simp: generate_def)
  next
    case (Some r)
    then have st': "st' = AList.update hex \<lparr> ne_expiry = now + ttl * kSec, ne_spent = False \<rparr> (purgeExpiredLocked now' st)"
      and h: "hex = hexEncode r"
      using gen.hyps(2) by (auto simp: generate_def Let_def)
    have new: "entry_ok ((Generate raw now now' ttl, b) # H) hex \<lparr> ne_expiry = now + ttl * kSec, ne_spent = False \<rparr>" for b
      unfolding entry_ok_def issued_def
      by (intro exI [of _ "[]"] exI [of _ "Generate raw now now' ttl"] exI [of _ b] exI [of _ H]) (use Some h in auto)
    show ?thesis using gen.IH old new st'
      by (auto simp: update_conv' map_of_purge split: if_splits option.splits)
  qed
next
  case (con H st now' now hex ok st')
  note k = conjunct1 [OF con.IH]
  note c = consume_cases [OF k con.hyps(2)]
  have "entry_ok ((Consume now' now hex, ok) # H) h e" if "map_of st' h = Some e" for h e
  proof (cases ok)
    case True
    then obtain e0 where e0: "map_of st hex = Some e0" "\<not> ne_spent e0"
      "map_of st' = (map_of (purgeExpiredLocked now' st)) (hex \<mapsto> e0\<lparr> ne_spent := True \<rparr>)" using c(2) by blast
    show ?thesis
    proof (cases "h = hex")
      case True
      with e0 that have "e = e0\<lparr> ne_spent := True \<rparr>" by simp
      then show ?thesis using con.IH e0(1) True by (intro entry_ok_step [where e = e0]) auto
    next
      case False
      with e0 that have "map_of st h = Some e" using k by (auto simp: map_of_purge split: option.splits if_splits)
      then show ?thesis using con.IH False by (intro entry_ok_step [where e = e]) (auto simp: accepted_def)
    qed
  next
    case False
    with c(3) that have "map_of st h = Some e" using k by (auto simp: map_of_purge split: option.splits if_splits)
    then show ?thesis using con.IH False by (intro entry_ok_step [where e = e]) (auto simp: accepted_def)
  qed
  then show ?case using c(1) by blast
qed

text \<open>
  C30.  In every history of a nonce store, a call that consumes a nonce successfully is preceded by
  the call that issued that nonce, comes before the end of its lifetime, and no call in between
  consumed it: each issue authorises at most one use.  A nonce that was just issued is accepted
  until it expires.
\<close>

theorem nonce_single_use:
  "(nonce_history ((Consume now' now hex, True) # H) st \<longrightarrow>
      (\<exists>H1 c b H2 expiry. H = H1 @ (c, b) # H2 \<and> issued hex expiry c \<and> now < expiry
         \<and> (\<forall>x \<in> set H1. \<not> accepted hex x)))
   \<and> (keys_ok st0 \<and> generate (Some r) t t' ttl st0 = (h, st1) \<and> u' < t + ttl * kSec \<and> u < t + ttl * kSec \<longrightarrow>
        fst (consume u' u h st1))"
proof (intro conjI impI)
  assume "nonce_history ((Consume now' now hex, True) # H) st"
  then obtain st0 where s: "nonce_history H st0" "consume now' now hex st0 = (True, st)"
    by (cases rule: nonce_history.cases) auto
  note i = nonce_history_ok [OF s(1)]
  obtain e where "map_of st0 hex = Some e" "\<not> ne_spent e" "now < ne_expiry e"
    using consume_cases(2) [OF conjunct1 [OF i] s(2)] by blast
  then show "\<exists>H1 c b H2 expiry. H = H1 @ (c, b) # H2 \<and> issued hex expiry c \<and> now < expiry
      \<and> (\<forall>x \<in> set H1. \<not> accepted hex x)"
    using i unfolding entry_ok_def by blast
next
  assume "keys_ok st0 \<and> generate (Some r) t t' ttl st0 = (h, st1) \<and> u' < t + ttl * kSec \<and> u < t + ttl * kSec"
  then show "fst (consume u' u h st1)"
    by (auto simp: generate_def consume_def Let_def map_of_purge update_conv')
qed

theorem nonce_single_use_witness:
  "\<exists>st. nonce_history [(Consume 1 1 ''07'', True), (Generate (Some [7]) 0 0 300, True)] st
     \<and> issued ''07'' (300 * kSec) (Generate (Some [7]) 0 0 300)"
proof -
  let ?st1 = "[(''07'', \<lparr> ne_expiry = 300 * kSec, ne_spent = False \<rparr>)]"
  have h: "hexEncode [7] = ''07''" by (simp add: hexEncode_def kHex_def)
  have g: "generate (Some [7]) 0 0 300 [] = (''07'', ?st1)" by (simp add: generate_def Let_def h purgeExpiredLocked_def erase_if_def)
  have k: "keys_ok ([] :: NonceStore)" by simp
  have "fst (consume 1 1 ''07'' ?st1)"
    using nonce_single_use [of 0 0 "[]" "[]" "[]" "[]" "[7]" 0 0 300 "''07''" ?st1 1 1] g k by (simp add: kSec_def)
  then obtain st where "consume 1 1 ''07'' ?st1 = (True, st)" by (cases "consume 1 1 ''07'' ?st1") auto
  from nonce_history.con [OF nonce_history.gen [OF nonce_history.start g] this]
  show ?thesis using h by (auto simp: issued_def)
qed

section \<open>Lemmas: replacing the binary\<close>

lemma fwrite_eq: "fwrite succ partial kept path content fs =
    (content = [] \<or> succ, fs(path \<mapsto> (if content = [] \<or> succ then diskKept kept content else partial)))"
  by (simp add: fwrite_def)

lemma diskKept_all: "diskKept kept content = content \<longleftrightarrow> length content \<le> kept (length content)"
  by (auto simp: diskKept_def)

lemma diskKept_id [simp]: "diskKept (\<lambda>n. n) content = content"
  by (simp add: diskKept_def)

text \<open>The three outcomes: everything done; a failure before the first rename, which leaves every
  path but the temporary files alone; a failure of the second rename.\<close>

definition is_critical :: "WriteError + unit \<Rightarrow> bool" where
  "is_critical r = (case r of Inl (CriticalRename _ _) \<Rightarrow> True | _ \<Rightarrow> False)"

lemma write_outcomes:
  assumes "writeSteps we p bt sp st newBin newSig fs = (r, fs')" "distinct [p, bt, sp, st]"
  defines "bin \<equiv> diskKept (we_keptBin we) newBin" and "sig \<equiv> diskKept (we_keptSig we) newSig"
  shows "r = Inr () \<and> fs' = fs(p \<mapsto> bin, sp \<mapsto> sig, bt := None, st := None)
    \<or> r \<noteq> Inr () \<and> \<not> is_critical r \<and> (fs' = fs \<or> fs' = fs(bt := None, st := None))
    \<or> r \<noteq> Inr () \<and> is_critical r \<and> fs' = fs(sp \<mapsto> sig, bt \<mapsto> bin, st := None)"
proof -
  have tidy: "cleanup bt st (fs(bt \<mapsto> x)) = fs(bt := None, st := None)"
    "cleanup bt st (fs(bt \<mapsto> x, st \<mapsto> y)) = fs(bt := None, st := None)" for x y
    by (auto simp: cleanup_def fun_eq_iff)
  have moved: "rename_file st sp (fs(bt \<mapsto> x, st \<mapsto> y)) = fs(sp \<mapsto> y, bt \<mapsto> x, st := None)"
    "rename_file bt p (fs(sp \<mapsto> y, bt \<mapsto> x, st := None)) = fs(p \<mapsto> x, sp \<mapsto> y, bt := None, st := None)" for x y
    using assms(2) by (auto simp: rename_file_def fun_eq_iff)
  define ok1 ok2 where "ok1 \<longleftrightarrow> newBin = [] \<or> we_writeBin we" and "ok2 \<longleftrightarrow> newSig = [] \<or> we_writeSig we"
  show ?thesis
    using assms(1) unfolding writeSteps_def fwrite_eq bin_def [symmetric] sig_def [symmetric] ok1_def [symmetric] ok2_def [symmetric] Let_def
    by (auto simp: tidy moved is_critical_def split: if_splits)
qed

text \<open>Every step succeeds and the disk keeps everything.\<close>

definition all_steps :: WriteEnv where
  "all_steps = \<lparr> we_openBin = True, we_writeBin = True, we_chmod = True, we_openSig = True, we_writeSig = True,
     we_renameSig = True, we_renameBin = True, we_partial = [], we_keptBin = (\<lambda>n. n), we_keptSig = (\<lambda>n. n) \<rparr>"

text \<open>
  C35.  Replacing the binary is atomic for the binary itself, as far as the code checks: whichever operation
  fails, afterwards the target holds what the disk kept of the new binary (success) or is unchanged
  (failure), and no other path than the four of the upgrade changes.  What the disk kept is the whole binary
  exactly if the unchecked \<open>fclose\<close> lost nothing: otherwise a truncated binary is put in place and
  reported as success (a defect).  On success the signature is the new one, as far as the disk kept it, and
  both temporary files are gone; on failure the signature is unchanged and no temporary file is left that was
  not there, except when the last rename fails: then the new signature stands beside the old binary and the
  temporary binary stays behind.
\<close>

theorem upgrade_write_atomic:
  assumes "writeUpgradeAtomically we p bin sig fs = (r, fs')"
  defines "bt \<equiv> p @ ''.upgrade_tmp''" and "sp \<equiv> p @ ''.sig''" and "st \<equiv> p @ ''.sig.upgrade_tmp''"
  shows "fs' p = (if r = Inr () then Some (diskKept (we_keptBin we) bin) else fs p)
    \<and> (\<forall>q. q \<notin> {p, sp, bt, st} \<longrightarrow> fs' q = fs q)
    \<and> fs' sp = (if r = Inr () \<or> is_critical r then Some (diskKept (we_keptSig we) sig) else fs sp)
    \<and> (r = Inr () \<longrightarrow> fs' bt = None \<and> fs' st = None \<and>
         (fs' p = Some bin \<longleftrightarrow> length bin \<le> we_keptBin we (length bin)) \<and>
         (fs' sp = Some sig \<longleftrightarrow> length sig \<le> we_keptSig we (length sig)))
    \<and> (is_critical r \<longrightarrow> fs' bt = Some (diskKept (we_keptBin we) bin) \<and> fs' p = fs p)
    \<and> (\<not> is_critical r \<longrightarrow> fs' bt \<in> {None, fs bt} \<and> fs' st \<in> {None, fs st})"
proof -
  have d: "distinct [p, bt, sp, st]" by (simp add: bt_def sp_def st_def)
  have "writeSteps we p bt sp st bin sig fs = (r, fs')"
    using assms(1) by (simp add: writeUpgradeAtomically_def Let_def bt_def sp_def st_def)
  from write_outcomes [OF this d] d show ?thesis by (elim disjE conjE) (auto simp: is_critical_def diskKept_all)
qed

text \<open>The last rename fails; and a full disk that only \<open>fclose\<close> notices.\<close>

theorem upgrade_write_atomic_witness:
  "(\<exists>fs'. writeUpgradeAtomically (all_steps\<lparr> we_renameBin := False \<rparr>) ''ntm'' [2] [3] (\<lambda>_. None)
      = (Inl (CriticalRename ''ntm.upgrade_tmp'' ''ntm''), fs')
    \<and> fs' ''ntm.sig'' = Some [3] \<and> fs' ''ntm'' = None) \<and>
   (\<exists>fs'. writeUpgradeAtomically (all_steps\<lparr> we_keptBin := (\<lambda>_. 1) \<rparr>) ''ntm'' [2, 4] [3] (\<lambda>_. None) = (Inr (), fs')
    \<and> fs' ''ntm'' = Some [2])"
proof -
  let ?we = "all_steps\<lparr> we_renameBin := False \<rparr>" and ?wf = "all_steps\<lparr> we_keptBin := (\<lambda>_. 1) \<rparr>"
  obtain fs' where w: "writeUpgradeAtomically ?we ''ntm'' [2] [3] (\<lambda>_. None) = (Inl (CriticalRename ''ntm.upgrade_tmp'' ''ntm''), fs')"
    by (simp add: writeUpgradeAtomically_def writeSteps_def fwrite_eq all_steps_def Let_def)
  obtain fs1 where w1: "writeUpgradeAtomically ?wf ''ntm'' [2, 4] [3] (\<lambda>_. None) = (Inr (), fs1)"
    by (simp add: writeUpgradeAtomically_def writeSteps_def fwrite_eq all_steps_def Let_def)
  have "is_critical (Inl (CriticalRename ''ntm.upgrade_tmp'' ''ntm''))" by (simp add: is_critical_def)
  then have "fs' ''ntm.sig'' = Some [3] \<and> fs' ''ntm'' = None"
    using upgrade_write_atomic [OF w] by (auto simp: all_steps_def)
  moreover have "fs1 ''ntm'' = Some [2]" using upgrade_write_atomic [OF w1] by (simp add: all_steps_def diskKept_def)
  ultimately show ?thesis using w w1 by blast
qed

section \<open>A push as a whole\<close>

lemma consume_spends:
  assumes "keys_ok st" "consume t' t hex st = (True, st1)"
  shows "\<not> fst (consume u' u hex st1)"
proof -
  obtain e where "map_of st1 hex = Some (e\<lparr> ne_spent := True \<rparr>)"
    using consume_cases(2) [OF assms] by auto
  then show ?thesis using consume_cases(1) [OF assms]
    by (auto simp: consume_def Let_def map_of_purge split: if_splits)
qed

lemma verifyUpgradeAuth_Inr:
  "verifyUpgradeAuth ossl nonce hash proof der = Inr u \<longleftrightarrow>
    nonce \<noteq> [] \<and> hash \<noteq> [] \<and> proof \<noteq> [] \<and> signed_by ossl der (nonce @ hash) proof"
  by (auto simp: verifyUpgradeAuth_def signed_by_def Let_def split: option.splits)

lemma verifyArtifactBytes_chain:
  assumes "distinct (map rk_id roots)"
    "verifyArtifactBytes ossl roots binary bundle platform policy = Inr v"
  shows "\<exists>b d key. bundle_ok b \<and> bundle = printBundle b
    \<and> trust_chain ossl (productionRoots roots) policy platform binary b d key \<and> vf_keySpki v = dk_spki key"
proof -
  have "distinct (map rk_id (rs_keys (productionRoots roots)))" using assms(1) by (simp add: productionRoots_def)
  from iffD1 [OF verifyBundle_iff [OF this] assms(2) [unfolded verifyArtifactBytes_def]]
  show ?thesis by (elim exE conjE) (intro exI conjI, assumption+, simp)
qed

text \<open>What the handler checked when it writes: the conditions (a) to (e) of the code.\<close>

definition push_authorised :: "'k UpgradeEnv \<Rightarrow> PushForm \<Rightarrow> bool" where
  "push_authorised env form \<longleftrightarrow>
     (let binary = str_bytes (pf_binary form) in
      (\<exists>b d key. bundle_ok b \<and> str_bytes (pf_signature form) = printBundle b
         \<and> trust_chain (ue_ossl env) (productionRoots (ue_roots env))
             (acceptPolicy (ue_utc env) (ue_self_delegation env)) kServerPlatform binary b d key
         \<and> signed_by (ue_ossl env) (dk_spki key) (hexDecode (pf_nonce form) @ ue_sha3 env binary)
             (base64Decode (pf_auth_proof form)))
      \<and> sv_valid (parseSemver (pf_version form)) \<and> sv_valid (parseSemver (ue_server_version env))
      \<and> semver_key (parseSemver (ue_server_version env)) < semver_key (parseSemver (pf_version form)))"

lemma upgradeApply_cases:
  assumes "distinct (map rk_id (ue_roots env))" "upgradeApply env form w = ((code, body), w')"
  shows "uw_nonces w' = uw_nonces w
    \<and> (code \<noteq> 200 \<longrightarrow> uw_fs w' (ue_binary_path env) = uw_fs w (ue_binary_path env))
    \<and> (uw_fs w' = uw_fs w \<or> push_authorised env form)
    \<and> (code = 200 \<longrightarrow> push_authorised env form \<and> uw_fs w' (ue_binary_path env) =
         Some (diskKept (we_keptBin (ue_write env)) (str_bytes (pf_binary form))))"
proof -
  let ?bin = "str_bytes (pf_binary form)" and ?sig = "str_bytes (pf_signature form)"
  let ?checks = "\<exists>v. verifyArtifactBytes (ue_ossl env) (ue_roots env) ?bin ?sig kServerPlatform
        (acceptPolicy (ue_utc env) (ue_self_delegation env)) = Inr v
      \<and> verifyUpgradeAuth (ue_ossl env) (hexDecode (pf_nonce form)) (ue_sha3 env ?bin)
          (base64Decode (pf_auth_proof form)) (vf_keySpki v) = Inr ()
      \<and> sv_valid (parseSemver (pf_version form)) \<and> sv_valid (parseSemver (ue_server_version env))
      \<and> \<not> semver_le (parseSemver (pf_version form)) (parseSemver (ue_server_version env))"
  have auth: "?checks \<Longrightarrow> push_authorised env form"
    unfolding push_authorised_def Let_def verifyUpgradeAuth_Inr
    using verifyArtifactBytes_chain [OF assms(1)] by (fastforce simp: semver_order not_le)
  obtain r fs where wr: "writeUpgradeAtomically (ue_write env) (ue_binary_path env) ?bin ?sig (uw_fs w) = (r, fs)"
    by (cases "writeUpgradeAtomically (ue_write env) (ue_binary_path env) ?bin ?sig (uw_fs w)")
  have t: "fs (ue_binary_path env) = (if r = Inr () then Some (diskKept (we_keptBin (ue_write env)) ?bin) else uw_fs w (ue_binary_path env))"
    using write_outcomes [of "ue_write env" "ue_binary_path env" "ue_binary_path env @ ''.upgrade_tmp''"
        "ue_binary_path env @ ''.sig''" "ue_binary_path env @ ''.sig.upgrade_tmp''" ?bin ?sig "uw_fs w" r fs] wr
    by (auto simp: writeUpgradeAtomically_def Let_def)
  show ?thesis
  proof (cases "?checks \<and> hexDecode (pf_nonce form) \<noteq> [] \<and> ue_sha3 env ?bin \<noteq> [] \<and> base64Decode (pf_auth_proof form) \<noteq> []")
    case True
    then show ?thesis using assms(2) auth t unfolding upgradeApply_def Let_def wr
      by (auto split: sum.splits)
  next
    case False
    then have "w' = w \<and> code \<noteq> 200"
      using assms(2) unfolding upgradeApply_def Let_def by (auto split: sum.splits if_splits prod.splits)
    then show ?thesis by simp
  qed
qed

text \<open>
  C12.  A push changes the server's binary (or any other file) only when the rate limiter admitted the
  request, a live unused nonce of this server was consumed, and the push is authorised: an unbroken
  trust chain for the server's platform under the current expiry and rollback policy, a proof by that
  same build key over this nonce and the hash of this binary, and a strictly newer version.  After the
  answer 200 the new binary is in place as far as the disk kept it, and completely exactly if the unchecked
  \<open>fclose\<close> of its file lost nothing (otherwise a truncated binary is answered with 200, a defect); with any
  other answer the binary is unchanged.  The nonce of an admitted push is never accepted again.
\<close>

theorem upgrade_push_safe:
  assumes "distinct (map rk_id (ue_roots env))"
    "upgradePush env ip flds fls w = ((code, body), w')"
  shows "(uw_fs w' = uw_fs w \<or>
        fst (rateTryAcquire (ue_now env) ip (uw_pushLimiter w))
        \<and> fst (consume (ue_now1 env) (ue_now2 env) (pf_nonce (pushForm flds fls)) (uw_nonces w))
        \<and> push_authorised env (pushForm flds fls))
    \<and> uw_fs w' (ue_binary_path env) =
        (if code = 200 then Some (diskKept (we_keptBin (ue_write env)) (str_bytes (pf_binary (pushForm flds fls))))
         else uw_fs w (ue_binary_path env))
    \<and> (code = 200 \<longrightarrow> (uw_fs w' (ue_binary_path env) = Some (str_bytes (pf_binary (pushForm flds fls))) \<longleftrightarrow>
         length (pf_binary (pushForm flds fls)) \<le> we_keptBin (ue_write env) (length (pf_binary (pushForm flds fls)))))
    \<and> (code = 200 \<longrightarrow> push_authorised env (pushForm flds fls))
    \<and> (keys_ok (uw_nonces w) \<and> code = 200 \<longrightarrow> \<not> fst (consume u' u (pf_nonce (pushForm flds fls)) (uw_nonces w')))"
proof -
  let ?form = "pushForm flds fls"
  obtain ok l where rl: "rateTryAcquire (ue_now env) ip (uw_pushLimiter w) = (ok, l)"
    by (cases "rateTryAcquire (ue_now env) ip (uw_pushLimiter w)")
  obtain used st where cn: "consume (ue_now1 env) (ue_now2 env) (pf_nonce ?form) (uw_nonces w) = (used, st)"
    by (cases "consume (ue_now1 env) (ue_now2 env) (pf_nonce ?form) (uw_nonces w)")
  define w2 where "w2 = w\<lparr> uw_pushLimiter := l, uw_nonces := st \<rparr>"
  have w2: "uw_fs w2 = uw_fs w" "uw_nonces w2 = st" by (simp_all add: w2_def)
  show ?thesis
  proof (cases "ok \<and> used \<and> upgradeApply env ?form w2 = ((code, body), w')")
    case True
    note a = upgradeApply_cases [OF assms(1), of ?form w2 code body w']
    have s: "keys_ok (uw_nonces w) \<Longrightarrow> \<not> fst (consume u' u (pf_nonce ?form) st)"
      using cn True by (intro consume_spends [of "uw_nonces w"]) simp_all
    have l: "length (str_bytes x) = length x" for x by (simp add: str_bytes_def)
    show ?thesis using a True s w2 rl cn by (cases "code = 200") (auto simp: diskKept_all l)
  next
    case False
    then have "uw_fs w' = uw_fs w \<and> code \<noteq> 200"
      using assms(2) rl cn unfolding upgradePush_def Let_def w2_def
      by (cases ok; cases used) (auto split: if_splits)
    then show ?thesis by simp
  qed
qed

text \<open>A push that is accepted, on the small trust chain.\<close>

definition demo_version :: "u32 \<Rightarrow> string" where
  "demo_version n = semver_str \<lparr> sv_major = n, sv_minor = 0, sv_patch = 0, sv_revision = 0, sv_valid = True \<rparr>"

definition demo_upgrade_env :: "bytes UpgradeEnv" where
  "demo_upgrade_env = \<lparr> ue_ossl = demo_ossl, ue_roots = rs_keys demo_roots, ue_sha3 = (\<lambda>_. [1]),
     ue_server_version = demo_version 1, ue_binary_path = ''ntm'', ue_self_delegation = 3, ue_rand = None,
     ue_now = 0, ue_now1 = 0, ue_now2 = 0, ue_utc = 0,
     ue_write = all_steps,
     ue_has_shutdown_cb = True \<rparr>"

definition demo_fields :: "(string \<times> string) list" where
  "demo_fields = [(''version'', demo_version 2), (''nonce'', ''07''), (''auth_proof'', base64 [9])]"

definition demo_files :: "(string \<times> string) list" where
  "demo_files = [(''binary'', [CHR 0x05]), (''signature'', bytes_str (printBundle demo_bundle))]"

definition demo_upgrade_world :: UpgradeWorld where
  "demo_upgrade_world = \<lparr> uw_nonceLimiter = newRateLimiter 5, uw_pushLimiter = newRateLimiter 1,
     uw_nonces = [(''07'', \<lparr> ne_expiry = 5, ne_spent = False \<rparr>)], uw_fs = (\<lambda>_. None), uw_shutdown = False \<rparr>"

lemma demo_form: "pushForm demo_fields demo_files = \<lparr> pf_version = demo_version 2, pf_nonce = ''07'',
    pf_auth_proof = base64 [9], pf_binary = [CHR 0x05], pf_signature = bytes_str (printBundle demo_bundle) \<rparr>"
  by (simp add: pushForm_def getField_def demo_fields_def demo_files_def)

lemma demo_artifact: "verifyArtifactBytes demo_ossl (rs_keys demo_roots) [5] (printBundle demo_bundle) kServerPlatform
    (acceptPolicy 0 3) = Inr \<lparr> vf_delegationVersion = 7, vf_expires = civil_seconds demo_time,
      vf_keyId = ''b1'', vf_keySpki = [9] \<rparr>"
proof -
  have d: "distinct (map rk_id (rs_keys demo_roots))" "productionRoots (rs_keys demo_roots) = demo_roots"
    by (simp_all add: demo_roots_def productionRoots_def)
  show ?thesis unfolding verifyArtifactBytes_def d(2) verifyBundle_iff [OF d(1)]
    by (intro exI conjI) (rule demo_bundle_ok refl demo_chain, simp add: demo_delegation_def)+
qed

lemma demo_apply: "fst (fst (upgradeApply demo_upgrade_env (pushForm demo_fields demo_files) w)) = 200"
proof -
  have v: "sv_valid (parseSemver (demo_version n))" "semver_key (parseSemver (demo_version n)) = (n, 0, 0, 0)" for n
    by (simp_all add: demo_version_def parseSemver_str semver_key_def)
  have b: "base64Decode (base64 [9]) = [9]" using b64.dec_enc [of "[9]"] by simp
  have h: "hexDecode ''07'' = [7]" by (simp add: hexDecode_def nibble_def in_range_def code_of_def)
  have f: "str_bytes [CHR 0x05] = [5]" by (simp add: str_bytes_def code_of_def)
  have a: "verifyUpgradeAuth demo_ossl [7] [1] [9] [9] = Inr ()" by (simp add: verifyUpgradeAuth_def demo_ossl_def)
  have nl: "\<not> semver_le (parseSemver (demo_version 2)) (parseSemver (demo_version 1))"
    unfolding semver_order v by (simp add: word_le_nat_alt)
  obtain fs' where w: "writeUpgradeAtomically (ue_write demo_upgrade_env) ''ntm'' [5] (printBundle demo_bundle) (uw_fs w) = (Inr (), fs')"
    by (simp add: demo_upgrade_env_def all_steps_def writeUpgradeAtomically_def writeSteps_def fwrite_eq Let_def)
  have e: "ue_ossl demo_upgrade_env = demo_ossl" "ue_roots demo_upgrade_env = rs_keys demo_roots"
    "ue_sha3 demo_upgrade_env x = [1]" "ue_server_version demo_upgrade_env = demo_version 1"
    "ue_binary_path demo_upgrade_env = ''ntm''" "ue_self_delegation demo_upgrade_env = 3" "ue_utc demo_upgrade_env = 0" for x
    by (simp_all add: demo_upgrade_env_def)
  show ?thesis unfolding upgradeApply_def Let_def demo_form by (simp add: b h f v nl a e w demo_artifact del: base64.simps)
qed

theorem upgrade_push_safe_witness:
  "\<exists>body w'. upgradePush demo_upgrade_env ''10.0.0.1'' demo_fields demo_files demo_upgrade_world = ((200, body), w')
     \<and> distinct (map rk_id (ue_roots demo_upgrade_env)) \<and> uw_fs w' ''ntm'' = Some [5]
     \<and> \<not> fst (consume 0 0 ''07'' (uw_nonces w'))"
proof -
  obtain code body w' where p: "upgradePush demo_upgrade_env ''10.0.0.1'' demo_fields demo_files demo_upgrade_world = ((code, body), w')"
    by (metis surj_pair)
  have d: "distinct (map rk_id (ue_roots demo_upgrade_env))" by (simp add: demo_upgrade_env_def demo_roots_def productionRoots_def)
  have "demo_version 2 \<noteq> []" by (simp add: demo_version_def semver_str_def)
  moreover have "bytes_str (printBundle demo_bundle) \<noteq> []" by (simp add: printBundle_def bundleLines_def)
  ultimately have "fst (fst (upgradePush demo_upgrade_env ''10.0.0.1'' demo_fields demo_files demo_upgrade_world)) = 200"
    using demo_apply
    by (simp add: upgradePush_def Let_def demo_form rateTryAcquire_def demo_upgrade_world_def newRateLimiter_def popDrained_def
        consume_def purgeExpiredLocked_def erase_if_def demo_upgrade_env_def [abs_def] at_or_def)
  then have c: "code = 200" using p by simp
  have k: "keys_ok (uw_nonces demo_upgrade_world)" by (simp add: demo_upgrade_world_def)
  from upgrade_push_safe [OF d p, of 0 0] c k p d show ?thesis
    by (auto simp: demo_form demo_upgrade_env_def all_steps_def str_bytes_def code_of_def)
qed

end
