(* ===== verification/IpRange.thy ===== *)
theory IpRange
  imports Prelude
begin

text \<open>
  The IP database of the server, \<open>ip_range_resolver.hpp\<close>: \<open>IPRangeResolver\<close> (loading the TSV file,
  sorting, binary search, country and entity of an address) and \<open>IPDataUpdater\<close> (loading at start,
  the periodic refresh over libcurl and the replacement of the cached file).

  \<open>inet_pton\<close> is given by two arguments, for IPv4 (in host byte order) and IPv6 (sixteen bytes).  The
  decompressed text that \<open>gzopen\<close> and \<open>gzgets\<close> deliver for a file is an argument too.
\<close>

section \<open>Ranges\<close>

record 'a IPRange =
  rg_start :: 'a
  rg_end :: 'a
  rg_asn :: u32
  rg_country :: "char \<times> char"
  rg_desc :: string

type_synonym V4Range = "u32 IPRange"
type_synonym V6Range = "bytes IPRange"

text \<open>\<open>operator<\<close> of \<open>std::array<std::uint8_t, 16>\<close>.\<close>

fun bytes_less :: "bytes \<Rightarrow> bytes \<Rightarrow> bool" where
  "bytes_less [] ys \<longleftrightarrow> ys \<noteq> []"
| "bytes_less (x # xs) [] \<longleftrightarrow> False"
| "bytes_less (x # xs) (y # ys) \<longleftrightarrow> x < y \<or> x = y \<and> bytes_less xs ys"

text \<open>\<open>std::upper_bound\<close>: the first position whose element is greater than \<open>v\<close>.\<close>

function upperBoundLoop :: "('v \<Rightarrow> 'e \<Rightarrow> bool) \<Rightarrow> 'v \<Rightarrow> 'e list \<Rightarrow> nat \<Rightarrow> nat \<Rightarrow> nat" where
  "upperBoundLoop lt v xs first len =
     (if len = 0 then first
      else let half = len div 2; mid = first + half in
           if lt v (xs ! mid) then upperBoundLoop lt v xs first half
           else upperBoundLoop lt v xs (mid + 1) (len - half - 1))"
  by pat_completeness auto
termination by (relation "measure (\<lambda>(_, _, _, _, len). len)") auto

declare upperBoundLoop.simps [simp del]

definition upper_bound :: "('v \<Rightarrow> 'e \<Rightarrow> bool) \<Rightarrow> 'v \<Rightarrow> 'e list \<Rightarrow> nat" where
  "upper_bound lt v xs = upperBoundLoop lt v xs 0 (length xs)"

definition lookupRange :: "('a \<Rightarrow> 'a \<Rightarrow> bool) \<Rightarrow> 'a \<Rightarrow> 'a IPRange list \<Rightarrow> 'a IPRange option" where
  "lookupRange lt ip rs =
     (let i = upper_bound (\<lambda>v r. lt v (rg_start r)) ip rs in
      if i = 0 then None
      else let r = rs ! (i - 1) in
           if \<not> lt ip (rg_start r) \<and> \<not> lt (rg_end r) ip then Some r else None)"

text \<open>\<open>std::sort\<close> by start address.  Ranges with equal starts may come out in any order in the code;
  the lemmas that depend on it assume that ranges do not overlap.\<close>

fun insertRange :: "('a \<Rightarrow> 'a \<Rightarrow> bool) \<Rightarrow> 'a IPRange \<Rightarrow> 'a IPRange list \<Rightarrow> 'a IPRange list" where
  "insertRange lt r [] = [r]"
| "insertRange lt r (x # xs) =
     (if lt (rg_start x) (rg_start r) then x # insertRange lt r xs else r # x # xs)"

definition sortRanges :: "('a \<Rightarrow> 'a \<Rightarrow> bool) \<Rightarrow> 'a IPRange list \<Rightarrow> 'a IPRange list" where
  "sortRanges lt rs = foldr (insertRange lt) rs []"

section \<open>The resolver\<close>

record IPRangeResolver =
  v4_ranges :: "V4Range list"
  v6_ranges :: "V6Range list"
  mtime_epoch_sec :: int

definition IPRangeResolver0 :: IPRangeResolver where
  "IPRangeResolver0 = \<lparr> v4_ranges = [], v6_ranges = [], mtime_epoch_sec = 0 \<rparr>"

definition kUnknownCountry :: string where "kUnknownCountry = ''??''"
definition kUnknownEntity :: string where "kUnknownEntity = ''AS??''"

definition isUnknownEntity :: "string \<Rightarrow> bool" where
  "isUnknownEntity e \<longleftrightarrow> length e \<ge> 4 \<and> e ! 0 = CHR ''A'' \<and> e ! 1 = CHR ''S'' \<and> e ! 2 = CHR ''?'' \<and> e ! 3 = CHR ''?''"

datatype IpKey = KeyV4 u32 | KeyV6 bytes

type_synonym pton4 = "string \<Rightarrow> u32 option"
type_synonym pton6 = "string \<Rightarrow> bytes option"

definition parseIp :: "pton4 \<Rightarrow> pton6 \<Rightarrow> string \<Rightarrow> IpKey option" where
  "parseIp p4 p6 ip =
     (if ip = [] then None
      else case p4 ip of Some a \<Rightarrow> Some (KeyV4 a)
           | None \<Rightarrow> (case p6 ip of Some a \<Rightarrow> Some (KeyV6 a) | None \<Rightarrow> None))"

definition lookupV4 :: "IPRangeResolver \<Rightarrow> u32 \<Rightarrow> V4Range option" where
  "lookupV4 r ip = lookupRange (<) ip (v4_ranges r)"

definition lookupV6 :: "IPRangeResolver \<Rightarrow> bytes \<Rightarrow> V6Range option" where
  "lookupV6 r ip = lookupRange bytes_less ip (v6_ranges r)"

definition countryOf :: "'a IPRange option \<Rightarrow> string" where
  "countryOf r =
     (case r of None \<Rightarrow> kUnknownCountry
      | Some r \<Rightarrow> if fst (rg_country r) = CHR ''?'' then kUnknownCountry
                  else [fst (rg_country r), snd (rg_country r)])"

definition countryFor :: "pton4 \<Rightarrow> pton6 \<Rightarrow> IPRangeResolver \<Rightarrow> string \<Rightarrow> string" where
  "countryFor p4 p6 r ip =
     (case parseIp p4 p6 ip of None \<Rightarrow> kUnknownCountry
      | Some (KeyV4 a) \<Rightarrow> countryOf (lookupV4 r a)
      | Some (KeyV6 a) \<Rightarrow> countryOf (lookupV6 r a))"

definition entityOf :: "string \<Rightarrow> 'a IPRange option \<Rightarrow> string" where
  "entityOf ip r =
     (case r of None \<Rightarrow> kUnknownEntity @ '' '' @ ip
      | Some r \<Rightarrow> if rg_asn r = 0 then kUnknownEntity @ '' '' @ ip
                  else ''AS'' @ show_nat (unat (rg_asn r)) @ (if rg_desc r = [] then [] else '' '' @ rg_desc r))"

definition entityFor :: "pton4 \<Rightarrow> pton6 \<Rightarrow> IPRangeResolver \<Rightarrow> string \<Rightarrow> string" where
  "entityFor p4 p6 r ip =
     (case parseIp p4 p6 ip of None \<Rightarrow> kUnknownEntity
      | Some (KeyV4 a) \<Rightarrow> entityOf ip (lookupV4 r a)
      | Some (KeyV6 a) \<Rightarrow> entityOf ip (lookupV6 r a))"

section \<open>Loading\<close>

definition kLineMax :: nat where "kLineMax = 8192"

text \<open>\<open>gzgets\<close> delivers at most \<open>kLineMax - 1\<close> characters and stops after a newline.\<close>

definition gzLineLen :: "string \<Rightarrow> nat" where
  "gzLineLen s = (case find_ch LF s of Some i \<Rightarrow> min (i + 1) (kLineMax - 1) | None \<Rightarrow> min (length s) (kLineMax - 1))"

function gzLines :: "string \<Rightarrow> string list" where
  "gzLines s = (if s = [] then [] else take (gzLineLen s) s # gzLines (drop (gzLineLen s) s))"
  by pat_completeness auto
termination
  by (relation "measure length") (auto simp: gzLineLen_def kLineMax_def split: option.splits)

declare gzLines.simps [simp del]

datatype ParsedRange = ParsedV4 V4Range | ParsedV6 V6Range

definition parseRangeLine :: "pton4 \<Rightarrow> pton6 \<Rightarrow> string \<Rightarrow> ParsedRange option" where
  "parseRangeLine p4 p6 linebuf =
     (let line = rtrim (\<lambda>c. c = LF \<or> c = CR) (takeWhile (\<lambda>c. c \<noteq> CHR 0x00) linebuf) in
      if line = [] \<or> line ! 0 = CHR ''#'' then None
      else case find_ch TAB line of None \<Rightarrow> None | Some f1 \<Rightarrow>
        (case find_ch_from TAB (f1 + 1) line of None \<Rightarrow> None | Some f2 \<Rightarrow>
        (case find_ch_from TAB (f2 + 1) line of None \<Rightarrow> None | Some f3 \<Rightarrow>
        (case find_ch_from TAB (f3 + 1) line of None \<Rightarrow> None | Some f4 \<Rightarrow>
          (let startStr = substr 0 f1 line;
               endStr = substr (f1 + 1) (f2 - f1 - 1) line;
               asnStr = substr (f2 + 1) (f3 - f2 - 1) line;
               cc = substr (f3 + 1) (f4 - f3 - 1) line;
               desc = drop (f4 + 1) line
           in case stoul asnStr of None \<Rightarrow> None
              | Some n \<Rightarrow>
                (let ccArr = (if length cc = 2 \<and> cc \<noteq> ''None'' then (cc ! 0, cc ! 1) else (CHR ''?'', CHR ''?'')) in
                 case p4 startStr of
                   Some a \<Rightarrow> (case p4 endStr of None \<Rightarrow> None
                     | Some b \<Rightarrow> Some (ParsedV4 \<lparr> rg_start = a, rg_end = b, rg_asn = ucast n, rg_country = ccArr, rg_desc = desc \<rparr>))
                 | None \<Rightarrow>
                   (case p6 startStr of
                      Some a \<Rightarrow> (case p6 endStr of None \<Rightarrow> None
                        | Some b \<Rightarrow> Some (ParsedV6 \<lparr> rg_start = a, rg_end = b, rg_asn = ucast n, rg_country = ccArr, rg_desc = desc \<rparr>))
                    | None \<Rightarrow> None)))))))"

definition pushRange :: "ParsedRange option \<Rightarrow> IPRangeResolver \<Rightarrow> IPRangeResolver" where
  "pushRange p r =
     (case p of None \<Rightarrow> r
      | Some (ParsedV4 x) \<Rightarrow> r\<lparr> v4_ranges := v4_ranges r @ [x] \<rparr>
      | Some (ParsedV6 x) \<Rightarrow> r\<lparr> v6_ranges := v6_ranges r @ [x] \<rparr>)"

text \<open>\<open>content\<close> is what \<open>gzgets\<close> delivers, \<open>None\<close> if \<open>gzopen\<close> fails; \<open>mtime\<close> is the result of \<open>stat\<close>.\<close>

definition loadImpl :: "pton4 \<Rightarrow> pton6 \<Rightarrow> string \<Rightarrow> string option \<Rightarrow> int option \<Rightarrow> string + IPRangeResolver" where
  "loadImpl p4 p6 path content mtime =
     (case content of None \<Rightarrow> Inl (''gzopen failed for '' @ path)
      | Some text \<Rightarrow>
          (let r = foldl (\<lambda>r l. pushRange (parseRangeLine p4 p6 l) r) IPRangeResolver0 (gzLines text) in
           if v4_ranges r = [] \<and> v6_ranges r = [] then Inl (''no valid ranges parsed from '' @ path)
           else Inr (case mtime of None \<Rightarrow> r | Some t \<Rightarrow> r\<lparr> mtime_epoch_sec := t \<rparr>)))"

definition finalize :: "IPRangeResolver \<Rightarrow> IPRangeResolver" where
  "finalize r = r\<lparr> v4_ranges := sortRanges (<) (v4_ranges r), v6_ranges := sortRanges bytes_less (v6_ranges r) \<rparr>"

definition loadFromFile :: "pton4 \<Rightarrow> pton6 \<Rightarrow> string \<Rightarrow> string option \<Rightarrow> int option \<Rightarrow> string + IPRangeResolver" where
  "loadFromFile p4 p6 path content mtime =
     (case loadImpl p4 p6 path content mtime of Inl e \<Rightarrow> Inl e | Inr r \<Rightarrow> Inr (finalize r))"

section \<open>Lemmas: binary search\<close>

text \<open>On a list that the comparison splits, the search returns the splitting point.\<close>

lemma upperBoundLoop_split:
  assumes "\<And>i j. i \<le> j \<Longrightarrow> j < length xs \<Longrightarrow> lt v (xs ! i) \<Longrightarrow> lt v (xs ! j)"
    and "first + len \<le> length xs" "\<forall>i < first. \<not> lt v (xs ! i)"
    and "\<forall>i. first + len \<le> i \<longrightarrow> i < length xs \<longrightarrow> lt v (xs ! i)"
  shows "upperBoundLoop lt v xs first len \<le> length xs \<and> (\<forall>i < upperBoundLoop lt v xs first len. \<not> lt v (xs ! i)) \<and>
    (\<forall>i. upperBoundLoop lt v xs first len \<le> i \<longrightarrow> i < length xs \<longrightarrow> lt v (xs ! i))"
  using assms(2-4)
proof (induction len arbitrary: first rule: less_induct)
  case (less len)
  show ?case
  proof (cases "len = 0")
    case True
    then show ?thesis using less.prems by (simp add: upperBoundLoop.simps [of lt v xs first 0])
  next
    case False
    let ?half = "len div 2"
    let ?mid = "first + ?half"
    have mid: "?mid < length xs" "?half < len" "len - ?half - 1 < len" using False less.prems(1) by auto
    have step: "upperBoundLoop lt v xs first len =
        (if lt v (xs ! ?mid) then upperBoundLoop lt v xs first ?half else upperBoundLoop lt v xs (?mid + 1) (len - ?half - 1))"
      using False by (subst upperBoundLoop.simps) (simp add: Let_def)
    show ?thesis
    proof (cases "lt v (xs ! ?mid)")
      case True
      then have "\<forall>i. ?mid \<le> i \<longrightarrow> i < length xs \<longrightarrow> lt v (xs ! i)" using assms(1) by blast
      from less.IH [OF mid(2) less_imp_le_nat [OF mid(1)] less.prems(2) this] show ?thesis
        unfolding step if_P [OF True] .
    next
      case f: False
      have "\<forall>i < ?mid + 1. \<not> lt v (xs ! i)"
      proof (intro allI impI)
        show "\<not> lt v (xs ! i)" if "i < ?mid + 1" for i
          using assms(1) [of i ?mid] that mid(1) f by auto
      qed
      note p2 = this
      have sum: "?mid + 1 + (len - ?half - 1) = first + len" using mid(2) by simp
      have p1: "?mid + 1 + (len - ?half - 1) \<le> length xs" unfolding sum by (rule less.prems(1))
      have p3: "\<forall>i. ?mid + 1 + (len - ?half - 1) \<le> i \<longrightarrow> i < length xs \<longrightarrow> lt v (xs ! i)"
        unfolding sum by (rule less.prems(3))
      show ?thesis unfolding step if_not_P [OF f] by (rule less.IH [OF mid(3) p1 p2 p3])
    qed
  qed
qed

lemma find_eqI:
  assumes "\<And>x. y = Some x \<longleftrightarrow> x \<in> set xs \<and> P x"
  shows "find P xs = y"
proof (cases "find P xs")
  case None
  then show ?thesis using assms by (cases y) (auto simp: find_None_iff)
next
  case (Some x)
  then have "y = Some x" unfolding assms by (auto simp: find_Some_iff)
  with Some show ?thesis by simp
qed

section \<open>The interface of the search: a strict total order\<close>

text \<open>What the table needs of the comparison of addresses; \<open>covers\<close> and \<open>apart\<close> say that a range
  contains an address and that two ranges do not overlap.\<close>

definition covers :: "('a \<Rightarrow> 'a \<Rightarrow> bool) \<Rightarrow> 'a \<Rightarrow> 'a IPRange \<Rightarrow> bool" where
  "covers lt ip r \<longleftrightarrow> \<not> lt ip (rg_start r) \<and> \<not> lt (rg_end r) ip"

definition apart :: "('a \<Rightarrow> 'a \<Rightarrow> bool) \<Rightarrow> 'a IPRange \<Rightarrow> 'a IPRange \<Rightarrow> bool" where
  "apart lt x y \<longleftrightarrow> lt (rg_end x) (rg_start y) \<or> lt (rg_end y) (rg_start x)"

definition clean_table :: "('a \<Rightarrow> 'a \<Rightarrow> bool) \<Rightarrow> 'a IPRange list \<Rightarrow> bool" where
  "clean_table lt rs \<longleftrightarrow> sorted_wrt (apart lt) rs \<and> list_all (\<lambda>r. \<not> lt (rg_end r) (rg_start r)) rs"

lemma apart_sym: "apart lt x y = apart lt y x"
  by (auto simp: apart_def)

lemma set_insertRange [simp]: "set (insertRange lt r xs) = insert r (set xs)"
  by (induction xs) auto

lemma insertRange_apart:
  "sorted_wrt (apart lt) xs \<Longrightarrow> \<forall>x \<in> set xs. apart lt r x \<Longrightarrow> sorted_wrt (apart lt) (insertRange lt r xs)"
  by (induction xs) (auto simp: apart_sym)

lemma set_sortRanges [simp]: "set (sortRanges lt xs) = set xs"
  by (induction xs) (simp_all add: sortRanges_def)

lemma sortRanges_clean: "clean_table lt xs \<Longrightarrow> clean_table lt (sortRanges lt xs)"
proof -
  assume c: "clean_table lt xs"
  have "sorted_wrt (apart lt) xs \<Longrightarrow> sorted_wrt (apart lt) (sortRanges lt xs)"
  proof (induction xs)
    case (Cons x xs)
    have "sortRanges lt (x # xs) = insertRange lt x (sortRanges lt xs)" by (simp add: sortRanges_def)
    then show ?case using Cons by (auto intro: insertRange_apart)
  qed (simp add: sortRanges_def)
  with c show ?thesis by (simp add: clean_table_def list_all_iff)
qed

locale strict_order =
  fixes lt :: "'a \<Rightarrow> 'a \<Rightarrow> bool"
  assumes irrefl: "\<not> lt x x"
    and trans: "lt x y \<Longrightarrow> lt y z \<Longrightarrow> lt x z"
    and total: "lt x y \<or> x = y \<or> lt y x"
begin

lemma le_trans: "\<not> lt y x \<Longrightarrow> \<not> lt z y \<Longrightarrow> \<not> lt z x"
  using trans total irrefl by metis

lemma less_le_trans: "lt x y \<Longrightarrow> \<not> lt z y \<Longrightarrow> lt x z"
  using trans total by metis

lemma insertRange_sorted:
  assumes "sorted_wrt (\<lambda>x y. \<not> lt (rg_start y) (rg_start x)) xs"
  shows "sorted_wrt (\<lambda>x y. \<not> lt (rg_start y) (rg_start x)) (insertRange lt r xs)"
  using assms
proof (induction xs)
  case (Cons x xs)
  show ?case
  proof (cases "lt (rg_start x) (rg_start r)")
    case True
    then have "\<not> lt (rg_start r) (rg_start x)" using trans irrefl by blast
    then show ?thesis using Cons True by auto
  next
    case False
    then show ?thesis using Cons.prems le_trans by auto
  qed
qed simp

lemma sortRanges_sorted: "sorted_wrt (\<lambda>x y. \<not> lt (rg_start y) (rg_start x)) (sortRanges lt xs)"
  by (induction xs) (simp_all add: sortRanges_def insertRange_sorted)

text \<open>Looking up an address in a sorted clean table finds the one range that covers it.\<close>

lemma lookup_sorted:
  assumes "sorted_wrt (\<lambda>x y. \<not> lt (rg_start y) (rg_start x)) rs" "clean_table lt rs"
  shows "lookupRange lt ip rs = Some r \<longleftrightarrow> r \<in> set rs \<and> covers lt ip r"
proof -
  define n where "n = upper_bound (\<lambda>v r. lt v (rg_start r)) ip rs"
  have mono: "\<not> lt (rg_start (rs ! j)) (rg_start (rs ! i))" if "i \<le> j" "j < length rs" for i j
    using sorted_wrt_nth_less [OF assms(1), of i j] that irrefl by (cases "i = j") auto
  have split: "lt ip (rg_start (rs ! j))" if "i \<le> j" "j < length rs" "lt ip (rg_start (rs ! i))" for i j
    using less_le_trans [OF that(3) mono [OF that(1,2)]] .
  have n: "n \<le> length rs" "\<forall>i < n. \<not> lt ip (rg_start (rs ! i))" "\<forall>i. n \<le> i \<longrightarrow> i < length rs \<longrightarrow> lt ip (rg_start (rs ! i))"
    using upperBoundLoop_split [of rs "\<lambda>v r. lt v (rg_start r)" ip 0 "length rs", OF split]
    unfolding n_def upper_bound_def by simp_all
  have before: "lt (rg_end (rs ! i)) (rg_start (rs ! j))" if "i < j" "j < length rs" for i j
  proof -
    have "apart lt (rs ! i) (rs ! j)" "\<not> lt (rg_end (rs ! j)) (rg_start (rs ! j))"
      using assms(2) that sorted_wrt_nth_less [of "apart lt" rs i j] by (auto simp: clean_table_def list_all_iff)
    then show ?thesis using mono [of i j] that less_le_trans by (auto simp: apart_def)
  qed
  have look: "lookupRange lt ip rs = (if n = 0 then None
      else if covers lt ip (rs ! (n - 1)) then Some (rs ! (n - 1)) else None)"
    by (simp add: lookupRange_def n_def [symmetric] covers_def Let_def)
  have only: "i = n - 1 \<and> n \<noteq> 0" if "i < length rs" "covers lt ip (rs ! i)" for i
  proof -
    have "\<not> n \<le> i" using that n(3) unfolding covers_def by blast
    then have "i < n" by simp
    moreover have "\<not> i < n - 1"
    proof
      assume "i < n - 1"
      then have "lt (rg_end (rs ! i)) (rg_start (rs ! (n - 1)))" "\<not> lt ip (rg_start (rs ! (n - 1)))"
        using before [of i "n - 1"] n by auto
      from less_le_trans [OF this] show False using that(2) by (simp add: covers_def)
    qed
    ultimately show ?thesis by simp
  qed
  show ?thesis
  proof
    assume "lookupRange lt ip rs = Some r"
    then show "r \<in> set rs \<and> covers lt ip r" using n(1) by (auto simp: look split: if_splits)
  next
    assume r: "r \<in> set rs \<and> covers lt ip r"
    then obtain i where "i < length rs" "rs ! i = r" by (auto simp: in_set_conv_nth)
    with r show "lookupRange lt ip rs = Some r" using only [of i] by (auto simp: look)
  qed
qed

lemma lookup_sortRanges:
  assumes "clean_table lt rs"
  shows "lookupRange lt ip (sortRanges lt rs) = find (covers lt ip) rs"
  by (rule find_eqI [symmetric])
    (simp add: lookup_sorted [OF sortRanges_sorted sortRanges_clean [OF assms]])

end

section \<open>The two address families\<close>

lemma bytes_less_irrefl: "\<not> bytes_less x x"
  by (induction x) auto

lemma bytes_less_total: "bytes_less x y \<or> x = y \<or> bytes_less y x"
  by (induction x y rule: bytes_less.induct) auto

lemma bytes_less_trans: "bytes_less x y \<Longrightarrow> bytes_less y z \<Longrightarrow> bytes_less x z"
proof (induction x y arbitrary: z rule: bytes_less.induct)
  case (1 ys)
  then show ?case by (cases z) (auto elim: bytes_less.elims)
next
  case (3 x xs y ys)
  then show ?case by (cases z) auto
qed simp

interpretation v4: strict_order "(<) :: u32 \<Rightarrow> u32 \<Rightarrow> bool"
  by unfold_locales auto

interpretation v6: strict_order bytes_less
  using bytes_less_irrefl bytes_less_trans bytes_less_total by unfold_locales

section \<open>Lemmas: loading a database\<close>

text \<open>A record of the database and its line, in the format of \<open>ip2asn-combined.tsv\<close>.\<close>

record TsvEntry =
  te_start :: string
  te_end :: string
  te_asn :: nat
  te_cc :: string
  te_desc :: string

definition tsvBody :: "TsvEntry \<Rightarrow> string" where
  "tsvBody e = te_start e @ TAB # te_end e @ TAB # show_nat (te_asn e) @ TAB # te_cc e @ TAB # te_desc e"

definition tsvLine :: "TsvEntry \<Rightarrow> string" where
  "tsvLine e = tsvBody e @ [LF]"

definition entryRange :: "pton4 \<Rightarrow> pton6 \<Rightarrow> TsvEntry \<Rightarrow> ParsedRange option" where
  "entryRange p4 p6 e =
     (let cc = (if length (te_cc e) = 2 then (te_cc e ! 0, te_cc e ! 1) else (CHR ''?'', CHR ''?'')) in
      case p4 (te_start e) of
        Some a \<Rightarrow> map_option (\<lambda>b. ParsedV4 \<lparr> rg_start = a, rg_end = b, rg_asn = of_nat (te_asn e),
          rg_country = cc, rg_desc = te_desc e \<rparr>) (p4 (te_end e))
      | None \<Rightarrow> (case p6 (te_start e) of None \<Rightarrow> None
        | Some a \<Rightarrow> map_option (\<lambda>b. ParsedV6 \<lparr> rg_start = a, rg_end = b, rg_asn = of_nat (te_asn e),
            rg_country = cc, rg_desc = te_desc e \<rparr>) (p6 (te_end e))))"

definition line_plain :: "string \<Rightarrow> bool" where
  "line_plain s \<longleftrightarrow> LF \<notin> set s \<and> CR \<notin> set s \<and> CHR 0x00 \<notin> set s"

definition valid_entry :: "pton4 \<Rightarrow> pton6 \<Rightarrow> TsvEntry \<Rightarrow> bool" where
  "valid_entry p4 p6 e \<longleftrightarrow> line_plain (tsvBody e) \<and> TAB \<notin> set (te_start e @ te_end e @ te_cc e) \<and>
     te_start e \<noteq> [] \<and> hd (te_start e) \<noteq> CHR ''#'' \<and> te_asn e < 2 ^ 32 \<and> length (tsvBody e) \<le> 8000 \<and>
     entryRange p4 p6 e \<noteq> None"

lemma digits_no_tab: "TAB \<notin> set (show_nat n)"
  using show_nat_digits [of n] by (auto simp: is_digit_iff code_of_def)

lemma four_fields:
  assumes "TAB \<notin> set a" "TAB \<notin> set b" "TAB \<notin> set n" "TAB \<notin> set c" "l = a @ TAB # b @ TAB # n @ TAB # c @ TAB # d"
  shows "find_ch TAB l = Some (length a)"
    "find_ch_from TAB (length a + 1) l = Some (length a + 1 + length b)"
    "find_ch_from TAB (length a + 1 + length b + 1) l = Some (length a + 1 + length b + 1 + length n)"
    "find_ch_from TAB (length a + 1 + length b + 1 + length n + 1) l = Some (length a + 1 + length b + 1 + length n + 1 + length c)"
    "substr 0 (length a) l = a" "substr (length a + 1) (length b) l = b"
    "substr (length a + 1 + length b + 1) (length n) l = n"
    "substr (length a + 1 + length b + 1 + length n + 1) (length c) l = c"
    "drop (length a + 1 + length b + 1 + length n + 1 + length c + 1) l = d"
  using assms(1-4) by (simp_all add: assms(5) find_ch_append find_ch_from_def substr_def eval_nat_numeral)

lemma ucast_of_nat_u32: "(ucast (of_nat n :: u64) :: u32) = of_nat n"
  by (rule word_unat_eq_iff [THEN iffD2]) (simp add: unat_ucast unat_of_nat mod_mod_cancel)

lemma parseRangeLine_entry:
  assumes "valid_entry p4 p6 e"
  shows "parseRangeLine p4 p6 (tsvLine e) = entryRange p4 p6 e"
proof -
  let ?l = "tsvBody e" and ?a = "te_start e" and ?b = "te_end e" and ?n = "show_nat (te_asn e)" and ?c = "te_cc e"
  have v: "line_plain ?l" "TAB \<notin> set ?a" "TAB \<notin> set ?b" "TAB \<notin> set ?c" "?a \<noteq> []" "hd ?a \<noteq> CHR ''#''" "te_asn e < 2 ^ 64"
    using assms by (auto simp: valid_entry_def)
  note F = four_fields [OF v(2,3) digits_no_tab v(4) tsvBody_def]
  have t: "takeWhile (\<lambda>c. c \<noteq> CHR 0x00) (tsvLine e) = tsvLine e"
    using v(1) by (auto simp: tsvLine_def line_plain_def takeWhile_eq_all_conv)
  have line: "rtrim (\<lambda>c. c = LF \<or> c = CR) (takeWhile (\<lambda>c. c \<noteq> CHR 0x00) (tsvLine e)) = ?l"
    using v(1) unfolding t unfolding tsvLine_def
    by (subst rtrim_append_drop, simp, subst rtrim_id) (auto simp: line_plain_def dest: last_in_set)
  have ne: "(?l = [] \<or> ?l ! 0 = CHR ''#'') = False"
    using v(5,6) by (auto simp: tsvBody_def nth_append hd_conv_nth)
  have cc: "(length ?c = 2 \<and> ?c \<noteq> ''None'') = (length ?c = 2)" by auto
  have d: "x + 1 + y - x - 1 = y" for x y :: nat by simp
  have n: "stoul ?n = Some (of_nat (te_asn e))" using v(7) by simp
  show ?thesis
    unfolding parseRangeLine_def Let_def line ne if_False F(1,2,3,4) option.case d F(5,6,7,8,9) n cc
    by (simp add: entryRange_def Let_def ucast_of_nat_u32 split: option.split)
qed

lemma gzLines_concat:
  "\<forall>e \<in> set es. LF \<notin> set (tsvBody e) \<and> length (tsvBody e) \<le> 8000 \<Longrightarrow>
    gzLines (concat (map tsvLine es)) = map tsvLine es"
proof (induction es)
  case (Cons e es)
  have "find_ch LF (tsvBody e @ LF # concat (map tsvLine es)) = Some (length (tsvBody e))"
    using Cons.prems by (intro find_ch_append) auto
  then have "gzLineLen (tsvLine e @ concat (map tsvLine es)) = length (tsvLine e)"
    using Cons.prems by (simp add: gzLineLen_def tsvLine_def kLineMax_def)
  moreover have "gzLines (concat (map tsvLine es)) = map tsvLine es" using Cons by simp
  ultimately show ?case by (subst gzLines.simps) (simp add: tsvLine_def [of e])
qed (simp add: gzLines.simps)

text \<open>The ranges of the two families in a list of records.\<close>

definition v4_entries :: "pton4 \<Rightarrow> pton6 \<Rightarrow> TsvEntry list \<Rightarrow> V4Range list" where
  "v4_entries p4 p6 es = concat (map (\<lambda>e. case entryRange p4 p6 e of Some (ParsedV4 x) \<Rightarrow> [x] | _ \<Rightarrow> []) es)"

definition v6_entries :: "pton4 \<Rightarrow> pton6 \<Rightarrow> TsvEntry list \<Rightarrow> V6Range list" where
  "v6_entries p4 p6 es = concat (map (\<lambda>e. case entryRange p4 p6 e of Some (ParsedV6 x) \<Rightarrow> [x] | _ \<Rightarrow> []) es)"

definition entry_has :: "pton4 \<Rightarrow> pton6 \<Rightarrow> IpKey \<Rightarrow> TsvEntry \<Rightarrow> bool" where
  "entry_has p4 p6 k e =
     (case (k, entryRange p4 p6 e) of
        (KeyV4 a, Some (ParsedV4 x)) \<Rightarrow> covers (<) a x
      | (KeyV6 a, Some (ParsedV6 x)) \<Rightarrow> covers bytes_less a x
      | _ \<Rightarrow> False)"

lemma pushRanges:
  "v4_ranges (foldl (\<lambda>r l. pushRange (parseRangeLine p4 p6 l) r) r (map tsvLine es)) =
     v4_ranges r @ v4_entries p4 p6 es"
  "v6_ranges (foldl (\<lambda>r l. pushRange (parseRangeLine p4 p6 l) r) r (map tsvLine es)) =
     v6_ranges r @ v6_entries p4 p6 es"
  if "\<forall>e \<in> set es. valid_entry p4 p6 e"
  using that
  by (induction es arbitrary: r)
    (auto simp: parseRangeLine_entry pushRange_def v4_entries_def v6_entries_def split: option.split ParsedRange.split)

lemma find_entries:
  "find (covers (<) a) (v4_entries p4 p6 es) =
     (case find (entry_has p4 p6 (KeyV4 a)) es of None \<Rightarrow> None
      | Some e \<Rightarrow> (case entryRange p4 p6 e of Some (ParsedV4 x) \<Rightarrow> Some x | _ \<Rightarrow> None))"
  "find (covers bytes_less b) (v6_entries p4 p6 es) =
     (case find (entry_has p4 p6 (KeyV6 b)) es of None \<Rightarrow> None
      | Some e \<Rightarrow> (case entryRange p4 p6 e of Some (ParsedV6 x) \<Rightarrow> Some x | _ \<Rightarrow> None))"
  by (induction es)
    (auto simp: v4_entries_def v6_entries_def entry_has_def split: option.split ParsedRange.split)

lemma entryRange_fields:
  assumes "entryRange p4 p6 e = Some r"
  shows "r = ParsedV4 x \<Longrightarrow> rg_asn x = of_nat (te_asn e) \<and> rg_desc x = te_desc e \<and>
      rg_country x = (if length (te_cc e) = 2 then (te_cc e ! 0, te_cc e ! 1) else (CHR ''?'', CHR ''?''))"
    and "r = ParsedV6 y \<Longrightarrow> rg_asn y = of_nat (te_asn e) \<and> rg_desc y = te_desc e \<and>
      rg_country y = (if length (te_cc e) = 2 then (te_cc e ! 0, te_cc e ! 1) else (CHR ''?'', CHR ''?''))"
  using assms by (auto simp: entryRange_def Let_def split: option.splits)

lemma entry_answers:
  assumes "rg_asn x = of_nat n \<and> rg_desc x = d \<and>
      rg_country x = (if length c = 2 then (c ! 0, c ! 1) else (CHR ''?'', CHR ''?''))" "n < 2 ^ 32"
  shows "countryOf (Some x) = (if length c = 2 \<and> hd c \<noteq> CHR ''?'' then c else ''??'')"
    and "entityOf ip (Some x) =
      (if n = 0 then ''AS?? '' @ ip else ''AS'' @ show_nat n @ (if d = [] then [] else '' '' @ d))"
proof -
  show "countryOf (Some x) = (if length c = 2 \<and> hd c \<noteq> CHR ''?'' then c else ''??'')"
  proof (cases "length c = 2")
    case True
    then obtain a b where "c = [a, b]" by (cases c; cases "tl c") auto
    then show ?thesis using assms(1) by (simp add: countryOf_def kUnknownCountry_def)
  qed (use assms(1) in \<open>simp add: countryOf_def kUnknownCountry_def\<close>)
  have u: "unat (of_nat n :: u32) = n" using assms(2) by (simp add: unat_of_nat)
  then have "(of_nat n :: u32) = 0 \<longleftrightarrow> n = 0" by (metis unat_eq_zero)
  with u assms(1) show "entityOf ip (Some x) =
      (if n = 0 then ''AS?? '' @ ip else ''AS'' @ show_nat n @ (if d = [] then [] else '' '' @ d))"
    by (simp add: entityOf_def kUnknownEntity_def)
qed

text \<open>Loading the lines of valid records succeeds, and the tables are the sorted ranges.\<close>

lemma load_entries:
  assumes "\<forall>e \<in> set es. valid_entry p4 p6 e" "es \<noteq> []"
  shows "\<exists>r. loadFromFile p4 p6 path (Some (concat (map tsvLine es))) mtime = Inr r \<and>
    v4_ranges r = sortRanges (<) (v4_entries p4 p6 es) \<and> v6_ranges r = sortRanges bytes_less (v6_entries p4 p6 es)"
proof -
  have lines: "gzLines (concat (map tsvLine es)) = map tsvLine es"
    using assms(1) by (intro gzLines_concat) (auto simp: valid_entry_def line_plain_def)
  obtain e where e: "e \<in> set es" using assms(2) by (cases es) auto
  then obtain x where "entryRange p4 p6 e = Some x" using assms(1) by (auto simp: valid_entry_def)
  then have "\<not> (v4_entries p4 p6 es = [] \<and> v6_entries p4 p6 es = [])"
    using e by (cases x) (force simp: v4_entries_def v6_entries_def)+
  then show ?thesis
    using pushRanges [OF assms(1), of IPRangeResolver0]
    by (auto simp: loadFromFile_def loadImpl_def Let_def lines finalize_def IPRangeResolver0_def split: option.split)
qed

section \<open>The updater\<close>

record UpdaterCfg =
  uc_path :: string
  uc_refresh_days :: nat
  uc_auto_update :: bool
  uc_max_download_bytes :: nat

text \<open>The cached file with its modification time, the temporary file, and the resolver in use.\<close>

record UpdaterState =
  us_cache :: "(string \<times> int) option"
  us_tmp :: "string option"
  us_current :: "IPRangeResolver option"

text \<open>What happens during a refresh: the clock, the outcome of the calls, the pieces that libcurl
  passes to the write callback, and how many bytes of the file reach the disk when it is flushed
  (\<open>None\<close>: all).\<close>

record RefreshEnv =
  re_now :: int
  re_unlink1 :: bool
  re_fopen :: bool
  re_curl_init :: bool
  re_chunks :: "string list"
  re_fwrite :: "nat \<Rightarrow> nat"
  re_perform :: bool
  re_http :: int
  re_disk :: "nat option"
  re_unlink2 :: bool
  re_mtime :: int
  re_rename :: bool

definition curlWriteCb :: "nat \<Rightarrow> nat \<Rightarrow> string \<Rightarrow> nat \<times> string \<Rightarrow> bool \<times> nat \<times> string" where
  "curlWriteCb maxBytes w chunk c =
     (case c of (written, file) \<Rightarrow>
        if maxBytes > 0 \<and> written + length chunk > maxBytes then (False, written, file)
        else if min w (length chunk) \<noteq> length chunk then (False, written, file @ take w chunk)
        else (True, written + length chunk, file @ chunk))"

text \<open>libcurl ends the transfer with an error when the callback does not take all of a piece.\<close>

fun curlPerform :: "nat \<Rightarrow> (nat \<Rightarrow> nat) \<Rightarrow> string list \<Rightarrow> nat \<times> string \<Rightarrow> bool \<times> string" where
  "curlPerform maxBytes fw [] c = (True, snd c)"
| "curlPerform maxBytes fw (x # xs) c =
     (case curlWriteCb maxBytes (fw (length (snd c))) x c of
        (False, _, file) \<Rightarrow> (False, file)
      | (True, c') \<Rightarrow> curlPerform maxBytes fw xs c')"

definition onDisk :: "RefreshEnv \<Rightarrow> string \<Rightarrow> string" where
  "onDisk ev file = (case re_disk ev of None \<Rightarrow> file | Some n \<Rightarrow> take n file)"

definition downloadTo :: "UpdaterCfg \<Rightarrow> RefreshEnv \<Rightarrow> string option \<Rightarrow> bool \<times> string option" where
  "downloadTo cfg ev tmp =
     (if \<not> re_fopen ev then (False, tmp)
      else if \<not> re_curl_init ev then (False, Some [])
      else case curlPerform (uc_max_download_bytes cfg) (re_fwrite ev) (re_chunks ev) (0, []) of
        (ok, file) \<Rightarrow>
          if \<not> (ok \<and> re_perform ev) then (False, Some (onDisk ev file))
          else if re_http ev \<noteq> 0 \<and> (re_http ev < 200 \<or> re_http ev \<ge> 300) then (False, Some (onDisk ev file))
          else (True, Some (onDisk ev file)))"

definition needsRefresh :: "UpdaterCfg \<Rightarrow> int \<Rightarrow> UpdaterState \<Rightarrow> bool" where
  "needsRefresh cfg now st =
     (case us_cache st of None \<Rightarrow> True
      | Some (_, mtime) \<Rightarrow> now - mtime \<ge> int (uc_refresh_days cfg) * 86400)"

definition unlinkTmp :: "bool \<Rightarrow> UpdaterState \<Rightarrow> UpdaterState" where
  "unlinkTmp ok st = (if ok then st\<lparr> us_tmp := None \<rparr> else st)"

definition refreshOnce :: "(string \<Rightarrow> string option) \<Rightarrow> pton4 \<Rightarrow> pton6 \<Rightarrow> UpdaterCfg \<Rightarrow> RefreshEnv \<Rightarrow> UpdaterState \<Rightarrow> UpdaterState" where
  "refreshOnce gunzip p4 p6 cfg ev st =
     (let st1 = unlinkTmp (re_unlink1 ev) st in
      case downloadTo cfg ev (us_tmp st1) of
        (False, tmp) \<Rightarrow> unlinkTmp (re_unlink2 ev) (st1\<lparr> us_tmp := tmp \<rparr>)
      | (True, tmp) \<Rightarrow>
          (let st2 = st1\<lparr> us_tmp := tmp \<rparr> in
           case loadFromFile p4 p6 (uc_path cfg @ ''.tmp'') (Option.bind tmp gunzip) (Some (re_mtime ev)) of
             Inl _ \<Rightarrow> unlinkTmp (re_unlink2 ev) st2
           | Inr fresh \<Rightarrow>
               (let st3 = (if re_rename ev
                  then st2\<lparr> us_cache := map_option (\<lambda>b. (b, re_mtime ev)) tmp, us_tmp := None \<rparr> else st2)
                in st3\<lparr> us_current := Some fresh \<rparr>)))"

definition loadInitial :: "(string \<Rightarrow> string option) \<Rightarrow> pton4 \<Rightarrow> pton6 \<Rightarrow> UpdaterCfg \<Rightarrow> UpdaterState \<Rightarrow> bool \<times> UpdaterState" where
  "loadInitial gunzip p4 p6 cfg st =
     (case loadFromFile p4 p6 (uc_path cfg) (Option.bind (us_cache st) (\<lambda>(b, _). gunzip b)) (map_option snd (us_cache st)) of
        Inl _ \<Rightarrow> (False, st)
      | Inr r \<Rightarrow> (True, st\<lparr> us_current := Some r \<rparr>))"

text \<open>One round of \<open>run\<close>: at the start of the thread and whenever the check interval is over.\<close>

definition updaterTick :: "(string \<Rightarrow> string option) \<Rightarrow> pton4 \<Rightarrow> pton6 \<Rightarrow> UpdaterCfg \<Rightarrow> RefreshEnv \<Rightarrow> UpdaterState \<Rightarrow> UpdaterState" where
  "updaterTick gunzip p4 p6 cfg ev st =
     (if uc_auto_update cfg \<and> needsRefresh cfg (re_now ev) st then refreshOnce gunzip p4 p6 cfg ev st else st)"

definition runUpdater :: "(string \<Rightarrow> string option) \<Rightarrow> pton4 \<Rightarrow> pton6 \<Rightarrow> UpdaterCfg \<Rightarrow> RefreshEnv list \<Rightarrow> UpdaterState \<Rightarrow> UpdaterState" where
  "runUpdater gunzip p4 p6 cfg evs st = foldl (\<lambda>s ev. updaterTick gunzip p4 p6 cfg ev s) st evs"

text \<open>\<open>ensureDirExists\<close>: the directories that \<open>mkdir\<close> is called for, one for every component of the path.\<close>

function mkdirLoop :: "string \<Rightarrow> string \<Rightarrow> string list" where
  "mkdirLoop acc dir =
     (let part = (case find_ch CHR ''/'' dir of None \<Rightarrow> dir | Some i \<Rightarrow> take i dir);
          acc' = (if part = [] then acc
                  else (if acc \<noteq> [] \<and> last acc \<noteq> CHR ''/'' then acc @ ''/'' else acc) @ part);
          out = (if part = [] then [] else [acc'])
      in case find_ch CHR ''/'' dir of None \<Rightarrow> out | Some i \<Rightarrow> out @ mkdirLoop acc' (drop (i + 1) dir))"
  by pat_completeness auto
termination
  by (relation "measure (\<lambda>(_, dir). length dir)") (auto dest: find_ch_Some)

declare mkdirLoop.simps [simp del]

definition ensureDirExists :: "string \<Rightarrow> string list" where
  "ensureDirExists filePath =
     (case rfind_ch CHR ''/'' filePath of None \<Rightarrow> []
      | Some pos \<Rightarrow>
          if pos = 0 then []
          else let dir = take pos filePath in
               if dir ! 0 = CHR ''/'' then mkdirLoop ''/'' (drop 1 dir) else mkdirLoop [] dir)"

section \<open>Lemmas: the refresh\<close>

text \<open>The write callback keeps the file within the limit.\<close>

lemma curlPerform_bounded:
  assumes "0 < mx" "length buf = n \<and> n \<le> mx" "curlPerform mx fw xs (n, buf) = (ok, buf')"
  shows "length buf' \<le> mx"
  using assms(2,3)
proof (induction xs arbitrary: n buf)
  case (Cons x xs)
  show ?case
  proof (cases "n + length x \<le> mx \<and> length x \<le> fw (length buf)")
    case True
    then show ?thesis using Cons.prems by (intro Cons.IH [of "buf @ x" "n + length x"]) (simp_all add: curlWriteCb_def)
  next
    case False
    then show ?thesis using Cons.prems assms(1) by (auto simp: curlWriteCb_def split: if_splits)
  qed
qed simp

lemma downloadTo_bounded:
  assumes "downloadTo cfg ev tmp = (True, tmp')"
  shows "\<exists>b. tmp' = Some b \<and> (0 < uc_max_download_bytes cfg \<longrightarrow> length b \<le> uc_max_download_bytes cfg)"
proof -
  obtain ok buf where c: "curlPerform (uc_max_download_bytes cfg) (re_fwrite ev) (re_chunks ev) (0, []) = (ok, buf)"
    by fastforce
  have "length (onDisk ev buf) \<le> length buf" by (simp add: onDisk_def split: option.split)
  then show ?thesis
    using assms curlPerform_bounded [OF _ _ c] by (force simp: downloadTo_def c split: if_splits)
qed

definition loadable :: "(string \<Rightarrow> string option) \<Rightarrow> pton4 \<Rightarrow> pton6 \<Rightarrow> string \<Rightarrow> IPRangeResolver \<Rightarrow> bool" where
  "loadable gunzip p4 p6 b r \<longleftrightarrow> (\<exists>path m. loadFromFile p4 p6 path (gunzip b) m = Inr r)"

text \<open>A refresh installs a complete new database, or leaves file and resolver as they were.\<close>

lemma refreshOnce_cases:
  assumes "refreshOnce gunzip p4 p6 cfg ev st = st'"
  shows "us_cache st' = us_cache st \<and> us_current st' = us_current st \<or>
    (\<exists>b r. loadable gunzip p4 p6 b r \<and> us_current st' = Some r \<and>
      (0 < uc_max_download_bytes cfg \<longrightarrow> length b \<le> uc_max_download_bytes cfg) \<and>
      us_cache st' = (if re_rename ev then Some (b, re_mtime ev) else us_cache st))"
proof -
  obtain ok tmp where d: "downloadTo cfg ev (us_tmp (unlinkTmp (re_unlink1 ev) st)) = (ok, tmp)" by fastforce
  have u: "us_cache (unlinkTmp x s) = us_cache s" "us_current (unlinkTmp x s) = us_current s" for x s
    by (simp_all add: unlinkTmp_def)
  show ?thesis
  proof (cases ok)
    case False
    then show ?thesis using assms d by (auto simp: refreshOnce_def Let_def u)
  next
    case True
    then obtain b where b: "tmp = Some b" "0 < uc_max_download_bytes cfg \<longrightarrow> length b \<le> uc_max_download_bytes cfg"
      using downloadTo_bounded [of cfg ev _ tmp] d by auto
    show ?thesis
    proof (cases "loadFromFile p4 p6 (uc_path cfg @ ''.tmp'') (gunzip b) (Some (re_mtime ev))")
      case (Inl e)
      then show ?thesis using assms d True b by (auto simp: refreshOnce_def Let_def u)
    next
      case (Inr r)
      then have "loadable gunzip p4 p6 b r" by (auto simp: loadable_def)
      then show ?thesis
        using assms d True b Inr by (intro disjI2 exI [of _ b] exI [of _ r]) (auto simp: refreshOnce_def Let_def u)
    qed
  qed
qed

definition updater_ok :: "(string \<Rightarrow> string option) \<Rightarrow> pton4 \<Rightarrow> pton6 \<Rightarrow> UpdaterState \<Rightarrow> bool" where
  "updater_ok gunzip p4 p6 st \<longleftrightarrow> (\<forall>r. us_current st = Some r \<longrightarrow> (\<exists>b. loadable gunzip p4 p6 b r))"

text \<open>Whether a file can be loaded depends neither on its name nor on its time.\<close>

lemma loadable_anywhere:
  assumes "loadable gunzip p4 p6 b r"
  shows "\<exists>r'. loadFromFile p4 p6 path (gunzip b) m = Inr r'"
  using assms by (auto simp: loadable_def loadFromFile_def loadImpl_def Let_def split: option.splits if_splits)

lemma runUpdater_safe:
  assumes "updater_ok gunzip p4 p6 st"
  shows "updater_ok gunzip p4 p6 (runUpdater gunzip p4 p6 cfg evs st) \<and>
    (us_current st \<noteq> None \<longrightarrow> us_current (runUpdater gunzip p4 p6 cfg evs st) \<noteq> None) \<and>
    (us_cache (runUpdater gunzip p4 p6 cfg evs st) = us_cache st \<or>
      (\<exists>b m. us_cache (runUpdater gunzip p4 p6 cfg evs st) = Some (b, m) \<and>
        (0 < uc_max_download_bytes cfg \<longrightarrow> length b \<le> uc_max_download_bytes cfg) \<and>
        fst (loadInitial gunzip p4 p6 cfg (runUpdater gunzip p4 p6 cfg evs st\<lparr> us_current := None \<rparr>))))"
proof (induction evs rule: rev_induct)
  case Nil
  then show ?case using assms by (simp add: runUpdater_def)
next
  case (snoc ev evs)
  let ?s = "runUpdater gunzip p4 p6 cfg evs st"
  have step: "runUpdater gunzip p4 p6 cfg (evs @ [ev]) st = updaterTick gunzip p4 p6 cfg ev ?s" by (simp add: runUpdater_def)
  show ?case
  proof (cases "uc_auto_update cfg \<and> needsRefresh cfg (re_now ev) ?s")
    case False
    then show ?thesis unfolding step using snoc by (auto simp: updaterTick_def)
  next
    case True
    define t where "t = refreshOnce gunzip p4 p6 cfg ev ?s"
    have tick: "updaterTick gunzip p4 p6 cfg ev ?s = t" using True by (simp add: updaterTick_def t_def)
    have start: "fst (loadInitial gunzip p4 p6 cfg x)" if "us_cache x = Some (b, m)" "loadable gunzip p4 p6 b r" for x b m r
      using loadable_anywhere [OF that(2), of "uc_path cfg" "Some m"] that(1) by (auto simp: loadInitial_def)
    have cache: "loadInitial gunzip p4 p6 cfg (x\<lparr> us_current := None \<rparr>) = loadInitial gunzip p4 p6 cfg (y\<lparr> us_current := None \<rparr>) \<or>
        fst (loadInitial gunzip p4 p6 cfg (x\<lparr> us_current := None \<rparr>)) = fst (loadInitial gunzip p4 p6 cfg (y\<lparr> us_current := None \<rparr>))"
      if "us_cache x = us_cache y" for x y
      using that by (auto simp: loadInitial_def split: sum.splits)
    from refreshOnce_cases [of gunzip p4 p6 cfg ev ?s t] consider
      "us_cache t = us_cache ?s" "us_current t = us_current ?s" |
      b r where "loadable gunzip p4 p6 b r" "us_current t = Some r"
        "0 < uc_max_download_bytes cfg \<longrightarrow> length b \<le> uc_max_download_bytes cfg"
        "us_cache t = (if re_rename ev then Some (b, re_mtime ev) else us_cache ?s)"
      by (auto simp: t_def)
    then show ?thesis
    proof cases
      case 1
      then show ?thesis unfolding step tick using snoc cache [OF 1(1)] by (auto simp: updater_ok_def)
    next
      case (2 b r)
      have "updater_ok gunzip p4 p6 t" using 2 by (auto simp: updater_ok_def)
      then show ?thesis
        unfolding step tick using snoc 2 cache [of t ?s] start [of "t\<lparr> us_current := None \<rparr>" b "re_mtime ev" r]
        by (cases "re_rename ev") auto
    qed
  qed
qed

section \<open>Properties\<close>

text \<open>
  C38.  The answers of the IP database: a file that consists of the lines of valid records whose
  ranges do not overlap is loaded, in any order of its lines, and afterwards the country and the
  entity of any address, IPv4 or IPv6, are those of the one record whose range contains the address,
  and the unknown markers when no record does.
\<close>

theorem ip_db_answers:
  assumes "\<forall>e \<in> set es. valid_entry p4 p6 e" "es \<noteq> []"
    and "clean_table (<) (v4_entries p4 p6 es)" "clean_table bytes_less (v6_entries p4 p6 es)"
  shows "\<exists>r. loadFromFile p4 p6 path (Some (concat (map tsvLine es))) mtime = Inr r \<and>
    countryFor p4 p6 r ip =
      (case parseIp p4 p6 ip of None \<Rightarrow> ''??''
       | Some k \<Rightarrow> (case find (entry_has p4 p6 k) es of None \<Rightarrow> ''??''
         | Some e \<Rightarrow> if length (te_cc e) = 2 \<and> hd (te_cc e) \<noteq> CHR ''?'' then te_cc e else ''??'')) \<and>
    entityFor p4 p6 r ip =
      (case parseIp p4 p6 ip of None \<Rightarrow> ''AS??''
       | Some k \<Rightarrow> (case find (entry_has p4 p6 k) es of None \<Rightarrow> ''AS?? '' @ ip
         | Some e \<Rightarrow> if te_asn e = 0 then ''AS?? '' @ ip
             else ''AS'' @ show_nat (te_asn e) @ (if te_desc e = [] then [] else '' '' @ te_desc e)))"
proof -
  obtain r where r: "loadFromFile p4 p6 path (Some (concat (map tsvLine es))) mtime = Inr r"
    "v4_ranges r = sortRanges (<) (v4_entries p4 p6 es)" "v6_ranges r = sortRanges bytes_less (v6_entries p4 p6 es)"
    using load_entries [OF assms(1,2)] by blast
  have l4: "lookupV4 r a = find (covers (<) a) (v4_entries p4 p6 es)" for a
    by (simp add: lookupV4_def r(2) v4.lookup_sortRanges [OF assms(3)])
  have l6: "lookupV6 r a = find (covers bytes_less a) (v6_entries p4 p6 es)" for a
    by (simp add: lookupV6_def r(3) v6.lookup_sortRanges [OF assms(4)])
  have found: "entry_has p4 p6 k e \<and> te_asn e < 2 ^ 32" if "find (entry_has p4 p6 k) es = Some e" for k e
    using that assms(1) by (auto simp: find_Some_iff valid_entry_def)
  show ?thesis
  proof (cases "parseIp p4 p6 ip")
    case None
    then show ?thesis using r(1) by (simp add: countryFor_def entityFor_def kUnknownCountry_def kUnknownEntity_def)
  next
    case (Some k)
    show ?thesis
    proof (cases "find (entry_has p4 p6 k) es")
      case None
      with Some show ?thesis
        using r(1) by (cases k) (simp_all add: countryFor_def entityFor_def l4 l6 find_entries countryOf_def entityOf_def
          kUnknownCountry_def kUnknownEntity_def)
    next
      case e: (Some e)
      note h = found [OF e]
      show ?thesis
      proof (cases k)
        case (KeyV4 a)
        with h obtain x where x: "entryRange p4 p6 e = Some (ParsedV4 x)"
          by (auto simp: entry_has_def split: option.splits ParsedRange.splits)
        note A = entry_answers [OF entryRange_fields(1) [OF x refl]]
        show ?thesis using r(1) Some KeyV4 e x h A by (simp add: countryFor_def entityFor_def l4 find_entries)
      next
        case (KeyV6 a)
        with h obtain x where x: "entryRange p4 p6 e = Some (ParsedV6 x)"
          by (auto simp: entry_has_def split: option.splits ParsedRange.splits)
        note A = entry_answers [OF entryRange_fields(2) [OF x refl]]
        show ?thesis using r(1) Some KeyV6 e x h A by (simp add: countryFor_def entityFor_def l6 find_entries)
      qed
    qed
  qed
qed

definition demo_p4 :: pton4 where
  "demo_p4 s = (if s = ''1.0.0.0'' then Some 16777216 else if s = ''1.0.0.255'' then Some 16777471
     else if s = ''1.0.0.9'' then Some 16777225 else None)"

definition demo_p6 :: pton6 where
  "demo_p6 s = None"

definition demo_entry :: TsvEntry where
  "demo_entry = \<lparr> te_start = ''1.0.0.0'', te_end = ''1.0.0.255'', te_asn = 7, te_cc = ''AU'', te_desc = ''X'' \<rparr>"

lemma demo_range: "entryRange demo_p4 demo_p6 demo_entry =
    Some (ParsedV4 \<lparr> rg_start = 16777216, rg_end = 16777471, rg_asn = 7, rg_country = (CHR ''A'', CHR ''U''), rg_desc = ''X'' \<rparr>)"
  by (simp add: entryRange_def demo_p4_def demo_entry_def Let_def)

lemma demo_show: "show_nat 7 = ''7''"
  by code_simp

lemma demo_valid: "valid_entry demo_p4 demo_p6 demo_entry"
proof -
  have "tsvBody demo_entry = ''1.0.0.0'' @ TAB # ''1.0.0.255'' @ TAB # ''7'' @ TAB # ''AU'' @ TAB # ''X''"
    by (simp add: tsvBody_def demo_entry_def demo_show)
  then show ?thesis
    by (simp add: valid_entry_def demo_range line_plain_def) (simp add: demo_entry_def)
qed

lemma demo_tables: "clean_table (<) (v4_entries demo_p4 demo_p6 [demo_entry])"
  "clean_table bytes_less (v6_entries demo_p4 demo_p6 [demo_entry])"
  by (simp_all add: v4_entries_def v6_entries_def demo_range clean_table_def)

theorem ip_db_answers_witness:
  "\<exists>r. loadFromFile demo_p4 demo_p6 ''db'' (Some (tsvLine demo_entry)) None = Inr r \<and>
     countryFor demo_p4 demo_p6 r ''1.0.0.9'' = ''AU'' \<and> entityFor demo_p4 demo_p6 r ''1.0.0.9'' = ''AS7 X''"
proof -
  have k: "parseIp demo_p4 demo_p6 ''1.0.0.9'' = Some (KeyV4 16777225)" by (simp add: parseIp_def demo_p4_def)
  have f: "find (entry_has demo_p4 demo_p6 (KeyV4 16777225)) [demo_entry] = Some demo_entry"
    by (simp add: entry_has_def demo_range covers_def)
  show ?thesis
    using demo_show ip_db_answers [of "[demo_entry]" demo_p4 demo_p6 "''db''" None "''1.0.0.9''"] demo_valid demo_tables k f
    by (auto simp: demo_entry_def)
qed

text \<open>
  Refreshing the IP database never loses it: whatever the network, libcurl, the disk and the
  clock do in any number of rounds, a server that has a resolver keeps one, the resolver in use is
  always one that was loaded completely, and the cached file is either untouched or replaced by a
  download within the size limit that loads, so that a restart finds a usable database.
\<close>

lemma ip_db_refresh_safe:
  assumes "updater_ok gunzip p4 p6 st" "st' = runUpdater gunzip p4 p6 cfg evs st"
  shows "updater_ok gunzip p4 p6 st' \<and> (us_current st \<noteq> None \<longrightarrow> us_current st' \<noteq> None) \<and>
    (us_cache st' = us_cache st \<or>
      (\<exists>b m. us_cache st' = Some (b, m) \<and> (0 < uc_max_download_bytes cfg \<longrightarrow> length b \<le> uc_max_download_bytes cfg) \<and>
        fst (loadInitial gunzip p4 p6 cfg (st'\<lparr> us_current := None \<rparr>))))"
  unfolding assms(2) by (rule runUpdater_safe [OF assms(1)])

definition demo_updater :: "IPRangeResolver \<Rightarrow> UpdaterState" where
  "demo_updater r = \<lparr> us_cache = Some (tsvLine demo_entry, 0), us_tmp = None, us_current = Some r \<rparr>"

definition demo_updater_cfg :: UpdaterCfg where
  "demo_updater_cfg = \<lparr> uc_path = ''db'', uc_refresh_days = 7, uc_auto_update = True, uc_max_download_bytes = 100 \<rparr>"

lemma ip_db_refresh_safe_witness:
  "\<exists>r. loadFromFile demo_p4 demo_p6 ''db'' (Some (tsvLine demo_entry)) None = Inr r \<and>
     us_current (runUpdater Some demo_p4 demo_p6 demo_updater_cfg
       [\<lparr> re_now = 604800, re_unlink1 = True, re_fopen = True, re_curl_init = True, re_chunks = [''junk''], re_fwrite = (\<lambda>_. 100),
          re_perform = True, re_http = 200, re_disk = None, re_unlink2 = True, re_mtime = 0, re_rename = True \<rparr>]
       (demo_updater r)) \<noteq> None"
proof -
  obtain r where r: "loadFromFile demo_p4 demo_p6 ''db'' (Some (tsvLine demo_entry)) None = Inr r"
    using load_entries [of "[demo_entry]" demo_p4 demo_p6 "''db''" None] demo_valid by auto
  then have "updater_ok Some demo_p4 demo_p6 (demo_updater r)"
    by (auto simp: updater_ok_def demo_updater_def loadable_def)
  from ip_db_refresh_safe [OF this refl] have
    "us_current (runUpdater Some demo_p4 demo_p6 demo_updater_cfg evs (demo_updater r)) \<noteq> None" for evs
    by (simp add: demo_updater_def)
  with r show ?thesis by blast
qed

end
