(* ===== verification/WebSession.thy ===== *)
theory WebSession
  imports Limiter Registry
begin

text \<open>
  Access to the web dashboard: the request helpers of \<open>web_auth.hpp\<close> (cookies, tokens, client
  address, path classes), the session store of \<open>WebAuthnRP\<close> (\<open>webauthn.cpp\<close>), the demo tokens, and
  the pre-routing handler of \<open>registerWebHandlers\<close> (\<open>web_dashboard.cpp\<close>) that every request
  passes before its route.

  Steady-clock readings are in nanoseconds, demo times in seconds of the system clock; random tokens
  are arguments.  Each operation on the sessions and on the demo tokens runs under its mutex.
\<close>

section \<open>Requests\<close>

text \<open>The scan for a cookie.  A loop that does not end would be \<open>None\<close>.\<close>

definition skipSpaces :: "nat \<Rightarrow> string \<Rightarrow> nat" where
  "skipSpaces pos s = pos + length (takeWhile (\<lambda>c. c = SP) (drop pos s))"

partial_function (option) cookieLoop :: "string \<Rightarrow> string \<Rightarrow> nat \<Rightarrow> string option" where
  "cookieLoop hdr pre pos =
     (if pos < length hdr
      then let p = skipSpaces pos hdr in
           if substr p (length pre) hdr = pre
           then (case find_ch_from CHR '';'' (p + length pre) hdr of
                   None \<Rightarrow> Some (drop (p + length pre) hdr)
                 | Some e \<Rightarrow> Some (substr (p + length pre) (e - (p + length pre)) hdr))
           else (case find_ch_from CHR '';'' p hdr of
                   None \<Rightarrow> Some []
                 | Some q \<Rightarrow> cookieLoop hdr pre (q + 1))
      else Some [])"

definition cookieFromHeader :: "string \<Rightarrow> string \<Rightarrow> string option" where
  "cookieFromHeader cookieHeader name = cookieLoop cookieHeader (name @ ''='') 0"

definition sessionFromHeaders :: "string \<Rightarrow> string \<Rightarrow> string option" where
  "sessionFromHeaders authHeader cookieHeader =
     (if length authHeader > 7 \<and> substr 0 7 authHeader = ''Bearer '' then Some (drop 7 authHeader)
      else cookieFromHeader cookieHeader ''ntm_session'')"

definition effectiveClientIPFromHeaders :: "string \<Rightarrow> string \<Rightarrow> string \<Rightarrow> string \<Rightarrow> string" where
  "effectiveClientIPFromHeaders remoteAddr trustedProxy cfConnectingIP xForwardedFor =
     (if trustedProxy = [] \<or> remoteAddr \<noteq> trustedProxy then remoteAddr
      else if cfConnectingIP \<noteq> [] then cfConnectingIP
      else if xForwardedFor \<noteq> []
      then (case find_ch CHR '','' xForwardedFor of None \<Rightarrow> xForwardedFor | Some i \<Rightarrow> take i xForwardedFor)
      else remoteAddr)"

definition isAuthExemptPath :: "string \<Rightarrow> bool" where
  "isAuthExemptPath path \<longleftrightarrow>
     path = ''/login'' \<or> length path \<ge> 6 \<and> substr 0 6 path = ''/auth/''
     \<or> path = ''/.well-known/apple-app-site-association''
     \<or> path = ''/api/demo/begin'' \<or> path = ''/api/session''
     \<or> path = ''/api/update/check'' \<or> path = ''/api/update/download'' \<or> path = ''/api/update/download_sig''
     \<or> path = ''/admin/upgrade/nonce'' \<or> path = ''/admin/upgrade/push''
     \<or> path = ''/admin/client/nonce'' \<or> path = ''/admin/client/push''"

definition isAdminApiPath :: "string \<Rightarrow> bool" where
  "isAdminApiPath path \<longleftrightarrow> length path \<ge> 11 \<and> substr 0 11 path = ''/api/admin/''"

definition hasDemoTokenPrefix :: "string \<Rightarrow> bool" where
  "hasDemoTokenPrefix token \<longleftrightarrow> length token \<ge> 5 \<and> substr 0 5 token = ''demo_''"

definition isTrustedProxyCatchAll :: "string \<Rightarrow> bool" where
  "isTrustedProxyCatchAll addr \<longleftrightarrow> addr = ''0.0.0.0'' \<or> addr = ''::'' \<or> addr = ''0:0:0:0:0:0:0:0''"

text \<open>What the handlers read of a request; a missing header is empty.\<close>

record HttpReq =
  rq_method :: string
  rq_path :: string
  rq_remote_addr :: string
  rq_authorization :: string
  rq_cookie :: string
  rq_cf_connecting_ip :: string
  rq_x_forwarded_for :: string

definition sessionFromRequest :: "HttpReq \<Rightarrow> string option" where
  "sessionFromRequest req = sessionFromHeaders (rq_authorization req) (rq_cookie req)"

definition effectiveClientIP :: "string \<Rightarrow> HttpReq \<Rightarrow> string" where
  "effectiveClientIP trusted_proxy req =
     effectiveClientIPFromHeaders (rq_remote_addr req) trusted_proxy (rq_cf_connecting_ip req) (rq_x_forwarded_for req)"

section \<open>Sessions\<close>

record SessionCfg =
  sessionTtlHours :: nat
  idleTimeoutMinutes :: nat

record Session =
  se_expiry :: int
  se_lastActivity :: int
  se_isAdmin :: bool
  se_identity :: string

type_synonym Sessions = "(string \<times> Session) list"

definition sessionDead :: "SessionCfg \<Rightarrow> int \<Rightarrow> Session \<Rightarrow> bool" where
  "sessionDead cfg now s \<longleftrightarrow> now > se_expiry s \<or>
     idleTimeoutMinutes cfg > 0 \<and> now > se_lastActivity s + int (idleTimeoutMinutes cfg) * 60 * kSec"

definition isValidSession :: "SessionCfg \<Rightarrow> int \<Rightarrow> string \<Rightarrow> Sessions \<Rightarrow> bool \<times> Sessions" where
  "isValidSession cfg now token m =
     (case map_of m token of None \<Rightarrow> (False, m)
      | Some s \<Rightarrow> if sessionDead cfg now s then (False, erase token m)
                  else (True, AList.update token (s\<lparr> se_lastActivity := now \<rparr>) m))"

definition isAdminSession :: "SessionCfg \<Rightarrow> int \<Rightarrow> string \<Rightarrow> Sessions \<Rightarrow> bool \<times> Sessions" where
  "isAdminSession cfg now token m =
     (case map_of m token of None \<Rightarrow> (False, m)
      | Some s \<Rightarrow> if sessionDead cfg now s then (False, erase token m)
                  else (se_isAdmin s, AList.update token (s\<lparr> se_lastActivity := now \<rparr>) m))"

text \<open>\<open>None\<close> is the default \<open>SessionInfo\<close>, which is not valid.\<close>

definition getSessionInfo :: "SessionCfg \<Rightarrow> int \<Rightarrow> string \<Rightarrow> Sessions \<Rightarrow> (bool \<times> string) option \<times> Sessions" where
  "getSessionInfo cfg now token m =
     (case map_of m token of None \<Rightarrow> (None, m)
      | Some s \<Rightarrow> if sessionDead cfg now s then (None, erase token m)
                  else (Some (se_isAdmin s, se_identity s), AList.update token (s\<lparr> se_lastActivity := now \<rparr>) m))"

definition invalidateSession :: "string \<Rightarrow> Sessions \<Rightarrow> Sessions" where
  "invalidateSession token m = erase token m"

definition sweepSessions :: "SessionCfg \<Rightarrow> int \<Rightarrow> Sessions \<Rightarrow> Sessions" where
  "sweepSessions cfg now m = erase_if (\<lambda>_ s. sessionDead cfg now s) m"

definition newSession :: "SessionCfg \<Rightarrow> int \<Rightarrow> bool \<Rightarrow> string \<Rightarrow> Session" where
  "newSession cfg now isAdmin identity =
     \<lparr> se_expiry = now + int (sessionTtlHours cfg) * 3600 * kSec, se_lastActivity = now,
       se_isAdmin = isAdmin, se_identity = identity \<rparr>"

definition createIdentitySession :: "SessionCfg \<Rightarrow> int \<Rightarrow> int \<Rightarrow> string \<Rightarrow> string \<Rightarrow> bool \<Rightarrow> Sessions \<Rightarrow> Sessions" where
  "createIdentitySession cfg sweepNow now token identity isAdmin m =
     AList.update token (newSession cfg now isAdmin identity) (sweepSessions cfg sweepNow m)"

section \<open>Demo tokens\<close>

definition kDemoSessionSec :: int where "kDemoSessionSec = 900"
definition kMaxDemoTokens :: nat where "kMaxDemoTokens = 1000"

type_synonym DemoTokens = "(string \<times> int) list"

definition checkDemoToken :: "int \<Rightarrow> string \<Rightarrow> DemoTokens \<Rightarrow> bool \<times> DemoTokens" where
  "checkDemoToken now token m =
     (if \<not> hasDemoTokenPrefix token then (False, m)
      else case map_of m token of None \<Rightarrow> (False, m)
           | Some expiry \<Rightarrow> if now \<ge> expiry then (False, erase token m) else (True, m))"

text \<open>\<open>std::min_element\<close>: the first entry with the smallest expiry.\<close>

fun oldestToken :: "DemoTokens \<Rightarrow> (string \<times> int) option" where
  "oldestToken [] = None"
| "oldestToken ((t, e) # m) =
     (case oldestToken m of None \<Rightarrow> Some (t, e)
      | Some (t', e') \<Rightarrow> if e' < e then Some (t', e') else Some (t, e))"

definition demoBegin :: "bool \<Rightarrow> int \<Rightarrow> string \<Rightarrow> DemoTokens \<Rightarrow> (nat \<times> string) \<times> DemoTokens" where
  "demoBegin enabled now token m =
     (if \<not> enabled then ((503, ''{\"error\":\"demo is disabled\"}'' @ [LF]), m)
      else let m1 = erase_if (\<lambda>_ e. now \<ge> e) m;
               m2 = (if length m1 \<ge> kMaxDemoTokens
                     then (case oldestToken m1 of None \<Rightarrow> m1 | Some (t, _) \<Rightarrow> erase t m1) else m1);
               m3 = (if has_key token m2 then m2 else m2 @ [(token, now + kDemoSessionSec)])
           in ((200, ''{\"ok\":true,\"token\":\"'' @ token @ ''\",\"expires_in\":''
                 @ show_nat (nat kDemoSessionSec) @ ''}'' @ [LF]), m3))"

section \<open>The pre-routing handler\<close>

text \<open>The state the handler works on, and its readings of the clocks during one request.\<close>

record WebGate =
  wg_rateLimiter :: WebRateLimiter
  wg_sessionRateLimiter :: WebRateLimiter
  wg_demoTokens :: DemoTokens
  wg_sessions :: Sessions
  wg_dashboardIps :: "MonitoringIpSet option"

record GateClock =
  gk_rate :: int
  gk_demo :: int
  gk_valid :: int
  gk_dashboard :: int
  gk_sessionRate :: int
  gk_admin :: int

text \<open>\<open>Handled\<close> carries status, headers and body; \<open>Unhandled\<close> lets the request through to its route,
  with the headers set so far.\<close>

datatype GateAnswer = Handled nat "(string \<times> string) list" string | Unhandled "(string \<times> string) list"

definition securityHeaders :: "(string \<times> string) list" where
  "securityHeaders =
     [(''X-Content-Type-Options'', ''nosniff''),
      (''Strict-Transport-Security'', ''max-age=31536000; includeSubDomains''),
      (''Referrer-Policy'', ''no-referrer''), (''Permissions-Policy'', ''()''),
      (''Content-Security-Policy'',
        ''default-src ''@ [CHR 0x27] @ ''self'' @ [CHR 0x27] @ ''; script-src '' @ [CHR 0x27] @ ''self'' @ [CHR 0x27] @ '' ''
        @ [CHR 0x27] @ ''unsafe-inline'' @ [CHR 0x27] @ ''; style-src '' @ [CHR 0x27] @ ''self'' @ [CHR 0x27] @ '' ''
        @ [CHR 0x27] @ ''unsafe-inline'' @ [CHR 0x27])]"

definition jsonError :: "string \<Rightarrow> string" where
  "jsonError msg = ''{\"error\":\"'' @ msg @ ''\"}'' @ [LF]"

definition isApiReq :: "HttpReq \<Rightarrow> bool" where
  "isApiReq req \<longleftrightarrow> length (rq_path req) \<ge> 4 \<and> substr 0 4 (rq_path req) = ''/api'' \<or> rq_method req \<noteq> ''GET''"

text \<open>\<open>token.empty() || !isValidSession(token)\<close>, negated, and the limit per session, from which the path
  of the status poller and any path that contains \<open>/update/status\<close> are exempt.\<close>

definition validToken :: "SessionCfg \<Rightarrow> int \<Rightarrow> string \<Rightarrow> Sessions \<Rightarrow> bool \<times> Sessions" where
  "validToken cfg now token m = (if token = [] then (False, m) else isValidSession cfg now token m)"

definition sessionRate :: "int \<Rightarrow> string \<Rightarrow> string \<Rightarrow> WebRateLimiter \<Rightarrow> bool \<times> WebRateLimiter" where
  "sessionRate now path token l =
     (if path \<noteq> ''/api/admin/clients'' \<and> find_str ''/update/status'' path = None
      then rateTryAcquire now (take 32 token) l else (True, l))"

text \<open>The part for a path that is not exempt, from the token on.\<close>

definition gateSession :: "SessionCfg \<Rightarrow> GateClock \<Rightarrow> HttpReq \<Rightarrow> string \<Rightarrow> string \<Rightarrow> WebGate \<Rightarrow> GateAnswer \<times> WebGate" where
  "gateSession cfg ck req ip token g =
     (case checkDemoToken (gk_demo ck) token (wg_demoTokens g) of (demo, dts) \<Rightarrow>
      let g = g\<lparr> wg_demoTokens := dts \<rparr> in
      if demo
      then (if isAdminApiPath (rq_path req)
            then (Handled 403 [] (jsonError ''admin access not available in demo mode''), g)
            else (Unhandled [], g))
      else
        (case validToken cfg (gk_valid ck) token (wg_sessions g) of
           (valid, ss) \<Rightarrow>
           let g = g\<lparr> wg_sessions := ss \<rparr> in
           if \<not> valid
           then (if isApiReq req then (Handled 401 [] (jsonError ''authentication required''), g)
                 else (Handled 302 [(''Location'', ''/login'')] [], g))
           else
             let g = g\<lparr> wg_dashboardIps := map_option (monitoringAdd ip (gk_dashboard ck)) (wg_dashboardIps g) \<rparr> in
             (case sessionRate (gk_sessionRate ck) (rq_path req) token (wg_sessionRateLimiter g) of
                (ok, rl) \<Rightarrow>
                let g = g\<lparr> wg_sessionRateLimiter := rl \<rparr> in
                if \<not> ok then (Handled 429 [(''Retry-After'', ''60'')] (jsonError ''session rate limit exceeded''), g)
                else if isAdminApiPath (rq_path req)
                then (case isAdminSession cfg (gk_admin ck) token (wg_sessions g) of
                        (admin, ss) \<Rightarrow>
                        let g = g\<lparr> wg_sessions := ss \<rparr> in
                        if \<not> admin then (Handled 403 [] (jsonError ''admin authentication required''), g)
                        else (Unhandled securityHeaders, g))
                else (Unhandled securityHeaders, g))))"

definition preRouting :: "SessionCfg \<Rightarrow> string \<Rightarrow> GateClock \<Rightarrow> HttpReq \<Rightarrow> WebGate \<Rightarrow> (GateAnswer \<times> WebGate) option" where
  "preRouting cfg trusted_proxy ck req g =
     (let ip = effectiveClientIP trusted_proxy req in
      if isAuthExemptPath (rq_path req)
      then (case rateTryAcquire (gk_rate ck) ip (wg_rateLimiter g) of
              (ok, rl) \<Rightarrow>
              let g = g\<lparr> wg_rateLimiter := rl \<rparr> in
              Some (if \<not> ok then (Handled 429 [(''Retry-After'', ''60'')] (jsonError ''rate limit exceeded''), g)
                    else (Unhandled securityHeaders, g)))
      else map_option (\<lambda>token. gateSession cfg ck req ip token g) (sessionFromRequest req))"

section \<open>Lemmas: cookies\<close>

primrec split_on :: "char \<Rightarrow> string \<Rightarrow> string list" where
  "split_on c [] = [[]]"
| "split_on c (x # xs) =
     (if x = c then [] # split_on c xs
      else (case split_on c xs of [] \<Rightarrow> [[x]] | w # ws \<Rightarrow> (x # w) # ws))"

text \<open>The cookies of a header, and the value of the first one with a given name.\<close>

definition cookies :: "string \<Rightarrow> string list" where
  "cookies hdr = map (dropWhile (\<lambda>c. c = SP)) (split_on CHR '';'' hdr)"

definition cookieValue :: "string \<Rightarrow> string list \<Rightarrow> string" where
  "cookieValue pre cs = (case find (starts_with pre) cs of None \<Rightarrow> [] | Some c \<Rightarrow> drop (length pre) c)"

lemma split_on_find:
  "split_on c s = (case find_ch c s of None \<Rightarrow> [s] | Some i \<Rightarrow> take i s # split_on c (drop (i + 1) s))"
proof (induction s)
  case (Cons x s)
  then show ?case by (cases "x = c"; cases "find_ch c s") (simp_all del: find_ch_None)
qed simp

lemma find_ch_skip:
  "c \<noteq> SP \<Longrightarrow> find_ch c s = map_option (\<lambda>i. length (takeWhile (\<lambda>x. x = SP) s) + i) (find_ch c (dropWhile (\<lambda>x. x = SP) s))"
  by (induction s) (auto simp: option.map_comp comp_def option.map_ident intro!: option.map_cong0)

lemma dropWhile_takeWhile_SP:
  "c \<noteq> SP \<Longrightarrow> dropWhile (\<lambda>x. x = SP) (takeWhile (\<lambda>x. x \<noteq> c) s) = takeWhile (\<lambda>x. x \<noteq> c) (dropWhile (\<lambda>x. x = SP) s)"
  by (induction s) auto

lemma take_find_ch: "find_ch c s = Some i \<Longrightarrow> take i s = takeWhile (\<lambda>x. x \<noteq> c) s"
  by (rule find_ch_takeWhile)

lemma takeWhile_absent: "c \<notin> set s \<Longrightarrow> takeWhile (\<lambda>x. x \<noteq> c) s = s"
  by (rule takeWhile_eq_all_conv [THEN iffD2]) auto

lemma cookies_step:
  "cookies s = takeWhile (\<lambda>x. x \<noteq> CHR '';'') (dropWhile (\<lambda>x. x = SP) s) #
     (case find_ch CHR '';'' s of None \<Rightarrow> [] | Some i \<Rightarrow> cookies (drop (i + 1) s))"
proof (cases "find_ch CHR '';'' s")
  case None
  then have "CHR '';'' \<notin> set s" by simp
  then have "CHR '';'' \<notin> set (dropWhile (\<lambda>x. x = SP) s)" using set_dropWhileD by fastforce
  with None show ?thesis by (simp add: cookies_def split_on_find [of _ s] takeWhile_absent None del: find_ch_None)
next
  case (Some i)
  then show ?thesis
    by (simp add: cookies_def split_on_find [of _ s] take_find_ch [OF Some] dropWhile_takeWhile_SP)
qed

lemma starts_with_takeWhile:
  "CHR '';'' \<notin> set pre \<Longrightarrow> starts_with pre (takeWhile (\<lambda>x. x \<noteq> CHR '';'') t) \<longleftrightarrow> starts_with pre t"
  by (induction pre arbitrary: t) (case_tac t; auto simp: starts_with_def)+

text \<open>The loop returns, with the value of the first cookie that has the name.\<close>

lemma cookieLoop_value:
  assumes "CHR '';'' \<notin> set pre" "pre \<noteq> []"
  shows "cookieLoop hdr pre pos = Some (cookieValue pre (cookies (drop pos hdr)))"
proof (induction "length hdr - pos" arbitrary: pos rule: less_induct)
  case less
  show ?case
  proof (cases "pos < length hdr")
    case False
    then have "\<not> starts_with pre []" using assms(2) by (auto simp: starts_with_def)
    with False show ?thesis by (simp add: cookieLoop.simps [of hdr pre pos] cookieValue_def cookies_def)
  next
    case True
    let ?s = "drop pos hdr"
    define p where "p = skipSpaces pos hdr"
    define t where "t = dropWhile (\<lambda>x. x = SP) ?s"
    have t: "drop p hdr = t" by (simp add: p_def skipSpaces_def t_def dropWhile_eq_drop add.commute)
    have ps: "p = pos + length (takeWhile (\<lambda>x. x = SP) ?s)" by (simp add: p_def skipSpaces_def)
    have c: "cookies ?s = takeWhile (\<lambda>x. x \<noteq> CHR '';'') t #
        (case find_ch CHR '';'' ?s of None \<Rightarrow> [] | Some i \<Rightarrow> cookies (drop (i + 1) ?s))"
      unfolding t_def by (rule cookies_step)
    have m: "substr p (length pre) hdr = pre \<longleftrightarrow> starts_with pre t"
      by (simp add: substr_def t starts_with_def)
    show ?thesis
    proof (cases "starts_with pre t")
      case yes: True
      then obtain r where r: "t = pre @ r" by (auto simp: starts_with_iff)
      have d: "drop (p + length pre) hdr = r" using t r by (metis append_eq_conv_conj drop_drop add.commute)
      have d2: "substr (p + length pre) n hdr = take n r" for n by (simp add: substr_def d)
      have "takeWhile (\<lambda>x. x \<noteq> CHR '';'') t = pre @ takeWhile (\<lambda>x. x \<noteq> CHR '';'') r"
        unfolding r using assms(1) by (subst takeWhile_append2) auto
      then have "cookieValue pre (cookies ?s) = takeWhile (\<lambda>x. x \<noteq> CHR '';'') r"
        by (simp add: c cookieValue_def)
      moreover have "cookieLoop hdr pre pos = Some (takeWhile (\<lambda>x. x \<noteq> CHR '';'') r)"
        using True yes
        by (subst cookieLoop.simps)
          (auto simp: p_def [symmetric] m Let_def find_ch_from_def d d2 takeWhile_absent take_find_ch split: option.split)
      ultimately show ?thesis by simp
    next
      case no: False
      have v: "cookieValue pre (cookies ?s) =
          (case find_ch CHR '';'' ?s of None \<Rightarrow> [] | Some i \<Rightarrow> cookieValue pre (cookies (drop (i + 1) ?s)))"
        using no assms(1)
        by (cases "find_ch CHR '';'' ?s") (simp_all add: c cookieValue_def starts_with_takeWhile del: find_ch_None)
      have f: "find_ch CHR '';'' ?s = map_option (\<lambda>i. p - pos + i) (find_ch CHR '';'' t)"
        using find_ch_skip [of "CHR '';''" ?s] by (simp add: t_def ps)
      show ?thesis
      proof (cases "find_ch CHR '';'' t")
        case None
        then show ?thesis using True no
          by (subst cookieLoop.simps) (simp add: p_def [symmetric] m Let_def find_ch_from_def t v f None del: find_ch_None)
      next
        case (Some i)
        have "cookieLoop hdr pre pos = cookieLoop hdr pre (p + i + 1)"
          using True no Some by (subst cookieLoop.simps) (simp add: p_def [symmetric] m Let_def find_ch_from_def t)
        also have "\<dots> = Some (cookieValue pre (cookies (drop (p + i + 1) hdr)))"
          using True ps by (intro less) simp
        finally show ?thesis using Some ps by (simp add: v f add.commute add.left_commute)
      qed
    qed
  qed
qed

section \<open>Histories\<close>

text \<open>The events that give and take access, the latest first, and the login that a token stands for.\<close>

datatype GateEvent = Login string bool string int | Logout string | DemoIssued string int

fun session_of :: "GateEvent list \<Rightarrow> string \<Rightarrow> (bool \<times> string \<times> int) option" where
  "session_of [] tok = None"
| "session_of (Login t adm ident at # log) tok = (if t = tok then Some (adm, ident, at) else session_of log tok)"
| "session_of (Logout t # log) tok = (if t = tok then None else session_of log tok)"
| "session_of (DemoIssued t at # log) tok = session_of log tok"

inductive gate_run :: "SessionCfg \<Rightarrow> string \<Rightarrow> WebGate \<Rightarrow> GateEvent list \<Rightarrow> bool" for cfg proxy where
  start: "wg_demoTokens g = [] \<Longrightarrow> wg_sessions g = [] \<Longrightarrow> gate_run cfg proxy g []"
| request: "gate_run cfg proxy g log \<Longrightarrow> preRouting cfg proxy ck req g = Some (ans, g') \<Longrightarrow> gate_run cfg proxy g' log"
| login: "gate_run cfg proxy g log \<Longrightarrow>
    gate_run cfg proxy (g\<lparr> wg_sessions := createIdentitySession cfg t0 t tok ident adm (wg_sessions g) \<rparr>)
      (Login tok adm ident t # log)"
| logout: "gate_run cfg proxy g log \<Longrightarrow>
    gate_run cfg proxy (g\<lparr> wg_sessions := invalidateSession tok (wg_sessions g) \<rparr>) (Logout tok # log)"
| swept: "gate_run cfg proxy g log \<Longrightarrow>
    gate_run cfg proxy (g\<lparr> wg_sessions := sweepSessions cfg t (wg_sessions g) \<rparr>) log"
| admin_page: "gate_run cfg proxy g log \<Longrightarrow>
    gate_run cfg proxy (g\<lparr> wg_sessions := snd (isAdminSession cfg t tok (wg_sessions g)) \<rparr>) log"
| session_info: "gate_run cfg proxy g log \<Longrightarrow>
    gate_run cfg proxy (g\<lparr> wg_sessions := snd (getSessionInfo cfg t tok (wg_sessions g)) \<rparr>) log"
| demo: "gate_run cfg proxy g log \<Longrightarrow>
    gate_run cfg proxy (g\<lparr> wg_demoTokens := snd (demoBegin True t tok (wg_demoTokens g)) \<rparr>) (DemoIssued tok t # log)"

section \<open>Lemmas: the invariant of the gate\<close>

text \<open>Every session stems from a login that was not logged out, and every demo token from an issue.\<close>

definition sessions_ok :: "SessionCfg \<Rightarrow> Sessions \<Rightarrow> GateEvent list \<Rightarrow> bool" where
  "sessions_ok cfg m log \<longleftrightarrow> keys_ok m \<and>
     (\<forall>tok s. map_of m tok = Some s \<longrightarrow>
        session_of log tok = Some (se_isAdmin s, se_identity s, se_expiry s - int (sessionTtlHours cfg) * 3600 * kSec))"

definition demo_ok :: "DemoTokens \<Rightarrow> GateEvent list \<Rightarrow> bool" where
  "demo_ok m log \<longleftrightarrow> keys_ok m \<and> (\<forall>tok e. map_of m tok = Some e \<longrightarrow> DemoIssued tok (e - kDemoSessionSec) \<in> set log)"

text \<open>An operation that only removes sessions or touches them.\<close>

definition sessions_from :: "Sessions \<Rightarrow> Sessions \<Rightarrow> bool" where
  "sessions_from m m' \<longleftrightarrow> (keys_ok m \<longrightarrow> keys_ok m') \<and>
     (\<forall>tok s'. map_of m' tok = Some s' \<longrightarrow> (\<exists>s. map_of m tok = Some s \<and>
        se_isAdmin s' = se_isAdmin s \<and> se_identity s' = se_identity s \<and> se_expiry s' = se_expiry s))"

lemma sessions_from_refl: "sessions_from m m"
  by (auto simp: sessions_from_def)

lemma sessions_from_erase: "sessions_from m (erase tok m)"
  by (auto simp: sessions_from_def alist_simps split: if_splits)

lemma sessions_from_touch:
  "map_of m tok = Some s \<Longrightarrow> sessions_from m (AList.update tok (s\<lparr> se_lastActivity := now \<rparr>) m)"
  by (auto simp: sessions_from_def update_conv' split: if_splits)

lemma sessions_from_ok: "sessions_from m m' \<Longrightarrow> sessions_ok cfg m log \<Longrightarrow> sessions_ok cfg m' log"
  by (fastforce simp: sessions_from_def sessions_ok_def)

lemma session_ops_from:
  "isValidSession cfg now tok m = (b, m') \<Longrightarrow> sessions_from m m'"
  "isAdminSession cfg now tok m = (b, m') \<Longrightarrow> sessions_from m m'"
  "getSessionInfo cfg now tok m = (i, m') \<Longrightarrow> sessions_from m m'"
  by (auto simp: isValidSession_def isAdminSession_def getSessionInfo_def sessions_from_refl sessions_from_erase
      sessions_from_touch split: option.splits if_splits)

lemma sweep_ok: "sessions_ok cfg m log \<Longrightarrow> sessions_ok cfg (sweepSessions cfg t m) log"
  by (auto simp: sessions_ok_def sweepSessions_def alist_simps split: option.splits if_splits)

lemma checkDemo_ok:
  assumes "checkDemoToken now tok m = (b, m')" "demo_ok m log"
  shows "demo_ok m' log" "b \<Longrightarrow> hasDemoTokenPrefix tok \<and> (\<exists>t. DemoIssued tok t \<in> set log \<and> now < t + kDemoSessionSec)"
  using assms by (auto simp: checkDemoToken_def demo_ok_def alist_simps split: option.splits if_splits) force+

lemma demo_ok_mono:
  assumes "demo_ok m log" "keys_ok m'" "\<And>tok e. map_of m' tok = Some e \<Longrightarrow> map_of m tok = Some e" "set log \<subseteq> set log'"
  shows "demo_ok m' log'"
  using assms unfolding demo_ok_def by blast

lemma demo_begin_ok:
  assumes "demo_ok m log"
  shows "demo_ok (snd (demoBegin True t tok m)) (DemoIssued tok t # log)"
proof -
  define m1 where "m1 = erase_if (\<lambda>_ e. t \<ge> e) m"
  define m2 where "m2 = (if length m1 \<ge> kMaxDemoTokens
    then (case oldestToken m1 of None \<Rightarrow> m1 | Some (x, _) \<Rightarrow> erase x m1) else m1)"
  have k: "keys_ok m" using assms by (simp add: demo_ok_def)
  then have k1: "keys_ok m1" by (simp add: m1_def)
  then have k2: "keys_ok m2" by (simp add: m2_def split: option.split)
  have f1: "map_of m1 x = Some e \<Longrightarrow> map_of m x = Some e" for x e
    by (simp add: m1_def map_of_erase_if [OF k] split: option.splits if_splits)
  have f2: "map_of m2 x = Some e \<Longrightarrow> map_of m1 x = Some e" for x e
    by (auto simp: m2_def map_of_erase split: option.splits if_splits)
  have ok2: "demo_ok m2 (DemoIssued tok t # log)"
    by (rule demo_ok_mono [OF assms k2]) (use f1 f2 in auto)
  have r: "snd (demoBegin True t tok m) = (if has_key tok m2 then m2 else m2 @ [(tok, t + kDemoSessionSec)])"
    by (simp add: demoBegin_def Let_def m1_def [symmetric] m2_def [symmetric])
  show ?thesis
  proof (cases "has_key tok m2")
    case False
    then have "map_of m2 tok = None" by (simp add: has_key_def)
    moreover have "keys_ok (m2 @ [(tok, t + kDemoSessionSec)])"
      using k2 False by (simp add: keys_ok_def has_key_iff)
    ultimately show ?thesis unfolding r using ok2 False by (auto simp: demo_ok_def map_add_def split: option.splits if_splits)
  qed (use ok2 r in simp)
qed

text \<open>The handler preserves the invariant, and what it lets through is backed by the history.\<close>

lemma gateSession_ok:
  assumes "gateSession cfg ck req ip tok g = (ans, g')" "sessions_ok cfg (wg_sessions g) log" "demo_ok (wg_demoTokens g) log"
  shows "sessions_ok cfg (wg_sessions g') log \<and> demo_ok (wg_demoTokens g') log"
proof -
  obtain dm dts where d: "checkDemoToken (gk_demo ck) tok (wg_demoTokens g) = (dm, dts)" by fastforce
  have dts: "demo_ok dts log" by (rule checkDemo_ok(1) [OF d assms(3)])
  obtain v ss where v: "validToken cfg (gk_valid ck) tok (wg_sessions g) = (v, ss)" by fastforce
  have "sessions_from (wg_sessions g) ss"
    using v session_ops_from(1) [of cfg "gk_valid ck" tok "wg_sessions g" v ss] by (auto simp: validToken_def sessions_from_refl split: if_splits)
  then have ss: "sessions_ok cfg ss log" by (rule sessions_from_ok [OF _ assms(2)])
  obtain ok rl where l: "sessionRate (gk_sessionRate ck) (rq_path req) tok (wg_sessionRateLimiter g) = (ok, rl)" by fastforce
  obtain adm ss2 where a: "isAdminSession cfg (gk_admin ck) tok ss = (adm, ss2)" by fastforce
  have ss2: "sessions_ok cfg ss2 log" by (rule sessions_from_ok [OF session_ops_from(2) [OF a] ss])
  show ?thesis
    using assms dts ss ss2
    by (cases dm; cases v; cases ok; cases adm) (auto simp: gateSession_def d v l a Let_def split: if_splits)
qed

lemma live_session:
  assumes "sessions_ok cfg m log" "isValidSession cfg now tok m = (True, m')"
  shows "\<exists>s at. map_of m tok = Some s \<and> \<not> sessionDead cfg now s \<and> session_of log tok = Some (se_isAdmin s, se_identity s, at)
    \<and> now \<le> at + int (sessionTtlHours cfg) * 3600 * kSec"
proof -
  obtain s where s: "map_of m tok = Some s" "\<not> sessionDead cfg now s"
    using assms(2) by (auto simp: isValidSession_def split: option.splits if_splits)
  with assms(1) show ?thesis by (fastforce simp: sessions_ok_def sessionDead_def)
qed

lemma admin_after_valid:
  assumes "isValidSession cfg now tok m = (True, m')" "isAdminSession cfg later tok m' = (True, m'')" "map_of m tok = Some s"
  shows "se_isAdmin s \<and> later \<le> se_expiry s"
  using assms
  by (auto simp: isValidSession_def isAdminSession_def update_conv' sessionDead_def split: if_splits)

lemma gateSession_pass:
  assumes "gateSession cfg ck req ip tok g = (Unhandled hs, g')" "sessions_ok cfg (wg_sessions g) log" "demo_ok (wg_demoTokens g) log"
  shows "\<not> isAdminApiPath (rq_path req) \<and> hasDemoTokenPrefix tok \<and>
      (\<exists>t. DemoIssued tok t \<in> set log \<and> gk_demo ck < t + kDemoSessionSec) \<or>
    (\<exists>s at. map_of (wg_sessions g) tok = Some s \<and> \<not> sessionDead cfg (gk_valid ck) s \<and>
      session_of log tok = Some (se_isAdmin s, se_identity s, at) \<and>
      gk_valid ck \<le> at + int (sessionTtlHours cfg) * 3600 * kSec \<and>
      (isAdminApiPath (rq_path req) \<longrightarrow> se_isAdmin s \<and> gk_admin ck \<le> at + int (sessionTtlHours cfg) * 3600 * kSec))"
proof -
  obtain dm dts where d: "checkDemoToken (gk_demo ck) tok (wg_demoTokens g) = (dm, dts)" by fastforce
  obtain v ss where v: "validToken cfg (gk_valid ck) tok (wg_sessions g) = (v, ss)" by fastforce
  obtain ok rl where l: "sessionRate (gk_sessionRate ck) (rq_path req) tok (wg_sessionRateLimiter g) = (ok, rl)" by fastforce
  obtain adm ss2 where a: "isAdminSession cfg (gk_admin ck) tok ss = (adm, ss2)" by fastforce
  have "dm \<and> \<not> isAdminApiPath (rq_path req) \<or> v \<and> (isAdminApiPath (rq_path req) \<longrightarrow> adm)"
    using assms(1) by (cases dm; cases v; cases ok; cases adm) (auto simp: gateSession_def d v l a Let_def split: if_splits)
  then consider "dm" "\<not> isAdminApiPath (rq_path req)" | "v" "isAdminApiPath (rq_path req) \<longrightarrow> adm" by blast
  then show ?thesis
  proof cases
    case 1
    then show ?thesis using checkDemo_ok(2) [OF d assms(3)] by auto
  next
    case 2
    then have valid: "isValidSession cfg (gk_valid ck) tok (wg_sessions g) = (True, ss)" using v by (auto simp: validToken_def split: if_splits)
    from live_session [OF assms(2) this] obtain s at where s: "map_of (wg_sessions g) tok = Some s"
      "\<not> sessionDead cfg (gk_valid ck) s" "session_of log tok = Some (se_isAdmin s, se_identity s, at)"
      "gk_valid ck \<le> at + int (sessionTtlHours cfg) * 3600 * kSec" by blast
    have e: "se_expiry s = at + int (sessionTtlHours cfg) * 3600 * kSec" using assms(2) s(1,3) by (auto simp: sessions_ok_def)
    have "se_isAdmin s \<and> gk_admin ck \<le> se_expiry s" if "isAdminApiPath (rq_path req)"
      using admin_after_valid [OF valid _ s(1), of "gk_admin ck" ss2] a 2(2) that by simp
    with s e show ?thesis by auto
  qed
qed

lemma gate_run_ok: "gate_run cfg proxy g log \<Longrightarrow> sessions_ok cfg (wg_sessions g) log \<and> demo_ok (wg_demoTokens g) log"
proof (induction rule: gate_run.induct)
  case (start g)
  then show ?case by (simp add: sessions_ok_def demo_ok_def)
next
  case (request g log ck req ans g')
  then show ?case
    using gateSession_ok [of cfg ck req _ _ g ans g' log]
    by (auto simp: preRouting_def Let_def split: prod.splits if_splits)
next
  case (login g log t0 t tok ident adm)
  then have "sessions_ok cfg (sweepSessions cfg t0 (wg_sessions g)) log" by (simp add: sweep_ok)
  with login show ?case
    by (auto simp: createIdentitySession_def sessions_ok_def demo_ok_def update_conv' newSession_def split: if_splits)
next
  case (logout g log tok)
  then show ?case by (auto simp: invalidateSession_def sessions_ok_def demo_ok_def alist_simps split: if_splits)
next
  case (swept g log t)
  then show ?case by (simp add: sweep_ok)
next
  case (admin_page g log t tok)
  then show ?case
    using sessions_from_ok [OF session_ops_from(2) [of cfg t tok "wg_sessions g"]] by (cases "isAdminSession cfg t tok (wg_sessions g)") auto
next
  case (session_info g log t tok)
  then show ?case
    using sessions_from_ok [OF session_ops_from(3) [of cfg t tok "wg_sessions g"]] by (cases "getSessionInfo cfg t tok (wg_sessions g)") auto
next
  case (demo g log t tok)
  then show ?case using demo_begin_ok [of "wg_demoTokens g" log t tok] by (auto simp: sessions_ok_def)
qed

text \<open>A demo token opens every path outside the admin API, also the history of a real client, and its
  responses do not carry the security headers.\<close>

lemma demo_reads_history:
  assumes "hasDemoTokenPrefix tok" "map_of (wg_demoTokens g) tok = Some e" "gk_demo ck < e"
    and "sessionFromRequest req = Some tok" "rq_path req = ''/api/client/history''"
  shows "preRouting cfg proxy ck req g = Some (Unhandled [], g)"
  using assms
  by (simp add: preRouting_def gateSession_def checkDemoToken_def isAuthExemptPath_def isAdminApiPath_def substr_def Let_def)

text \<open>Apple's domain association file is behind the session check, so that Apple cannot fetch it.\<close>

lemma apple_association_blocked:
  assumes "rq_path req = ''/.well-known/apple-developer-domain-association.txt''" "rq_method req = ''GET''"
    and "sessionFromRequest req = Some []"
  shows "\<exists>g'. preRouting cfg proxy ck req g = Some (Handled 302 [(''Location'', ''/login'')] [], g')"
  using assms
  by (simp add: preRouting_def gateSession_def checkDemoToken_def hasDemoTokenPrefix_def isAuthExemptPath_def isApiReq_def
      validToken_def substr_def Let_def)

section \<open>Properties\<close>

text \<open>
  C28.  The gate of the dashboard: in every history of logins, logouts, demo issues, sweeps and
  requests, a request that is let through either asks for a public path, or carries a demo token that
  was issued less than fifteen minutes ago and does not ask for the admin API, or carries the token
  of a login that was not logged out since, is within its lifetime and not idle; and a path of the
  admin API passes only with a login that has the admin role.
\<close>

theorem web_gate_sound:
  assumes "gate_run cfg proxy g log" "preRouting cfg proxy ck req g = Some (Unhandled hs, g')"
  shows "isAuthExemptPath (rq_path req) \<or>
    (\<exists>tok. sessionFromRequest req = Some tok \<and>
      (\<not> isAdminApiPath (rq_path req) \<and> hasDemoTokenPrefix tok \<and>
         (\<exists>t. DemoIssued tok t \<in> set log \<and> gk_demo ck < t + kDemoSessionSec) \<or>
       (\<exists>s at. map_of (wg_sessions g) tok = Some s \<and> \<not> sessionDead cfg (gk_valid ck) s \<and>
         session_of log tok = Some (se_isAdmin s, se_identity s, at) \<and>
         gk_valid ck \<le> at + int (sessionTtlHours cfg) * 3600 * kSec \<and>
         (isAdminApiPath (rq_path req) \<longrightarrow>
            se_isAdmin s \<and> gk_admin ck \<le> at + int (sessionTtlHours cfg) * 3600 * kSec))))"
proof (cases "isAuthExemptPath (rq_path req)")
  case False
  then obtain tok where "sessionFromRequest req = Some tok"
    "gateSession cfg ck req (effectiveClientIP proxy req) tok g = (Unhandled hs, g')"
    using assms(2) by (auto simp: preRouting_def)
  with gateSession_pass [of cfg ck req _ tok g hs g' log] gate_run_ok [OF assms(1)] show ?thesis by blast
qed simp

definition demo_session_cfg :: SessionCfg where
  "demo_session_cfg = \<lparr> sessionTtlHours = 24, idleTimeoutMinutes = 15 \<rparr>"

definition demo_gate :: WebGate where
  "demo_gate = \<lparr> wg_rateLimiter = newRateLimiter 30, wg_sessionRateLimiter = newRateLimiter 300, wg_demoTokens = [],
     wg_sessions = [], wg_dashboardIps = None \<rparr>"

definition demo_request :: HttpReq where
  "demo_request = \<lparr> rq_method = ''GET'', rq_path = ''/api/admin/clients'', rq_remote_addr = ''10.0.0.1'',
     rq_authorization = ''Bearer abc'', rq_cookie = [], rq_cf_connecting_ip = [], rq_x_forwarded_for = [] \<rparr>"

definition demo_clock :: GateClock where
  "demo_clock = \<lparr> gk_rate = 60, gk_demo = 60, gk_valid = 60, gk_dashboard = 60, gk_sessionRate = 60, gk_admin = 60 \<rparr>"

theorem web_gate_sound_witness:
  "\<exists>g g'. gate_run demo_session_cfg [] g [Login ''abc'' True ''sub'' 0] \<and>
     preRouting demo_session_cfg [] demo_clock demo_request g = Some (Unhandled securityHeaders, g') \<and>
     (\<exists>s. map_of (wg_sessions g) ''abc'' = Some s \<and> se_isAdmin s)"
proof -
  let ?g = "demo_gate\<lparr> wg_sessions := createIdentitySession demo_session_cfg 0 0 ''abc'' ''sub'' True (wg_sessions demo_gate) \<rparr>"
  have run: "gate_run demo_session_cfg [] ?g [Login ''abc'' True ''sub'' 0]"
    by (rule login, rule start) (simp_all add: demo_gate_def)
  have m: "map_of (wg_sessions ?g) ''abc'' = Some (newSession demo_session_cfg 0 True ''sub'')" "wg_demoTokens ?g = []"
    by (simp_all add: createIdentitySession_def update_conv' demo_gate_def)
  have tok: "sessionFromRequest demo_request = Some ''abc''"
    by (simp add: sessionFromRequest_def sessionFromHeaders_def demo_request_def substr_def)
  have alive: "\<not> sessionDead demo_session_cfg 60 (newSession demo_session_cfg 0 True ''sub'')"
    "\<not> sessionDead demo_session_cfg 60 (newSession demo_session_cfg 0 True ''sub''\<lparr> se_lastActivity := 60 \<rparr>)"
    "se_isAdmin (newSession demo_session_cfg 0 True ''sub'')"
    by (simp_all add: sessionDead_def newSession_def demo_session_cfg_def kSec_def)
  have path: "\<not> isAuthExemptPath (rq_path demo_request)" "isAdminApiPath (rq_path demo_request)"
    "rq_path demo_request = ''/api/admin/clients''"
    by (simp_all add: demo_request_def isAuthExemptPath_def isAdminApiPath_def substr_def)
  have clock: "gk_demo demo_clock = 60" "gk_valid demo_clock = 60" "gk_admin demo_clock = 60" by (simp_all add: demo_clock_def)
  define ss where "ss = AList.update ''abc'' (newSession demo_session_cfg 0 True ''sub''\<lparr> se_lastActivity := 60 \<rparr>) (wg_sessions ?g)"
  have d: "checkDemoToken 60 ''abc'' (wg_demoTokens ?g) = (False, [])"
    by (simp add: checkDemoToken_def hasDemoTokenPrefix_def m(2))
  have v: "validToken demo_session_cfg 60 ''abc'' (wg_sessions ?g) = (True, ss)"
    using m(1) alive(1) by (simp add: validToken_def isValidSession_def ss_def)
  have l: "sessionRate t (rq_path demo_request) tk rl = (True, rl)" for t tk rl by (simp add: sessionRate_def path(3))
  have adm: "fst (isAdminSession demo_session_cfg 60 ''abc'' ss)"
    using alive(2,3) by (simp add: isAdminSession_def ss_def update_conv')
  obtain ss2 where a: "isAdminSession demo_session_cfg 60 ''abc'' ss = (True, ss2)"
    using adm by (cases "isAdminSession demo_session_cfg 60 ''abc'' ss") auto
  have "\<exists>g'. gateSession demo_session_cfg demo_clock demo_request ip ''abc'' ?g = (Unhandled securityHeaders, g')" for ip
    unfolding gateSession_def clock using d v path(2) by (simp add: l a Let_def)
  then obtain g' where pass: "preRouting demo_session_cfg [] demo_clock demo_request ?g = Some (Unhandled securityHeaders, g')"
    using path(1) tok by (auto simp: preRouting_def Let_def)
  from web_gate_sound [OF run pass] path(1,2) tok have "\<exists>s. map_of (wg_sessions ?g) ''abc'' = Some s \<and> se_isAdmin s" by auto
  with run pass show ?thesis by blast
qed

text \<open>
  C37.  Reading a session token from a request always ends: the cookie scan returns for every header,
  and its result is the value of the first cookie of that name, which the Authorization header
  overrides when it carries a bearer token.
\<close>

theorem session_token_found:
  assumes "CHR '';'' \<notin> set name"
  shows "cookieFromHeader hdr name = Some (cookieValue (name @ ''='') (cookies hdr)) \<and>
    sessionFromHeaders auth hdr =
      Some (if 7 < length auth \<and> starts_with ''Bearer '' auth then drop 7 auth
            else cookieValue ''ntm_session='' (cookies hdr))"
proof -
  have "cookieFromHeader hdr n = Some (cookieValue (n @ ''='') (cookies hdr))" if "CHR '';'' \<notin> set n" for n
    using cookieLoop_value [of "n @ ''=''" hdr 0] that by (simp add: cookieFromHeader_def)
  note c = this [OF assms] this [of "''ntm_session''"]
  have "starts_with ''Bearer '' auth \<longleftrightarrow> substr 0 7 auth = ''Bearer ''"
    by (simp add: starts_with_def substr_def eval_nat_numeral)
  with c show ?thesis by (simp add: sessionFromHeaders_def)
qed

theorem session_token_found_witness:
  "cookieFromHeader ''a=1; b=2; c=3'' ''b'' = Some ''2'' \<and> sessionFromHeaders ''Basic x'' ''a=1;  ntm_session=tok'' = Some ''tok''"
  using session_token_found [of "''b''" "''a=1; b=2; c=3''" "[]"] session_token_found [of "''b''" "''a=1;  ntm_session=tok''" "''Basic x''"]
  by (simp add: cookieValue_def cookies_def starts_with_def)

end
