(* ===== verification/WebAuthn.thy ===== *)
theory WebAuthn
  imports WebSession Codecs Wire
begin

text \<open>
  The passkey relying party of the dashboard, \<open>WebAuthnRP\<close> (\<open>webauthn.cpp\<close>): the CBOR parser, the
  base64url codec, the extraction of strings from JSON, authenticator data and COSE keys, login,
  registration and the file of credentials.

  SHA-256, the verification of an ECDSA signature under a DER public key, random bytes and the clock
  (nanoseconds) are arguments.  Each operation runs under the mutex of the object.
\<close>

section \<open>CBOR\<close>

datatype CborVal =
  CborUint u64 | CborNint u64 | CborBytes bytes | CborText string | CborArray "CborVal list" | CborMap "CborVal list" | CborOther

definition asInt :: "CborVal \<Rightarrow> int" where
  "asInt v = (case v of CborUint u \<Rightarrow> sint u | CborNint u \<Rightarrow> -1 - sint u | _ \<Rightarrow> 0)"

text \<open>The items of a map are keys and values in turn.\<close>

fun mapItem :: "(CborVal \<Rightarrow> bool) \<Rightarrow> CborVal list \<Rightarrow> CborVal option" where
  "mapItem P (k # v # items) = (if P k then Some v else mapItem P items)"
| "mapItem P _ = None"

definition getText :: "string \<Rightarrow> CborVal \<Rightarrow> CborVal option" where
  "getText key v = (case v of CborMap items \<Rightarrow> mapItem (\<lambda>k. k = CborText key) items | _ \<Rightarrow> None)"

definition getInt :: "int \<Rightarrow> CborVal \<Rightarrow> CborVal option" where
  "getInt key v =
     (case v of CborMap items \<Rightarrow>
        mapItem (\<lambda>k. case k of CborUint u \<Rightarrow> sint u = key | CborNint u \<Rightarrow> asInt k = key | _ \<Rightarrow> False) items
      | _ \<Rightarrow> None)"

text \<open>Big-endian numbers, and the count that follows an initial byte; parsers return the remaining bytes.\<close>

definition beNum :: "bytes \<Rightarrow> u64" where
  "beNum bs = foldl (\<lambda>v b. push_bit 8 v OR ucast b) 0 bs"

definition takeNum :: "nat \<Rightarrow> bytes \<Rightarrow> (u64 \<times> bytes) option" where
  "takeNum n bs = (if length bs < n then None else Some (beNum (take n bs), drop n bs))"

definition readAdditional :: "byte \<Rightarrow> bytes \<Rightarrow> (u64 \<times> bytes) option" where
  "readAdditional ai bs =
     (if ai \<le> 23 then Some (ucast ai, bs)
      else if ai = 24 then takeNum 1 bs
      else if ai = 25 then takeNum 2 bs
      else if ai = 26 then takeNum 4 bs
      else if ai = 27 then takeNum 8 bs
      else None)"

definition takeBytes :: "u64 \<Rightarrow> bytes \<Rightarrow> (bytes \<times> bytes) option" where
  "takeBytes count bs =
     (if count > 65536 \<or> unat count > length bs then None else Some (take (unat count) bs, drop (unat count) bs))"

primrec parseMany :: "(bytes \<Rightarrow> (CborVal \<times> bytes) option) \<Rightarrow> nat \<Rightarrow> bytes \<Rightarrow> (CborVal list \<times> bytes) option" where
  "parseMany p 0 bs = Some ([], bs)"
| "parseMany p (Suc n) bs =
     (case p bs of None \<Rightarrow> None
      | Some (v, bs1) \<Rightarrow> (case parseMany p n bs1 of None \<Rightarrow> None | Some (vs, bs2) \<Rightarrow> Some (v # vs, bs2)))"

text \<open>The argument counts down the depth: \<open>parse\<close> with depth \<open>d\<close> is \<open>parseCbor (13 - d)\<close>.\<close>

primrec parseCbor :: "nat \<Rightarrow> bytes \<Rightarrow> (CborVal \<times> bytes) option" where
  "parseCbor 0 bs = None"
| "parseCbor (Suc d) bs =
     (case bs of [] \<Rightarrow> None
      | ib # bs1 \<Rightarrow>
        (case readAdditional (ib AND 0x1F) bs1 of None \<Rightarrow> None
         | Some (count, bs2) \<Rightarrow>
           (let mt = drop_bit 5 ib in
            if mt = 0 then Some (CborUint count, bs2)
            else if mt = 1 then Some (CborNint count, bs2)
            else if mt = 2 then map_option (\<lambda>(x, r). (CborBytes x, r)) (takeBytes count bs2)
            else if mt = 3 then map_option (\<lambda>(x, r). (CborText (bytes_str x), r)) (takeBytes count bs2)
            else if mt = 4
            then (if count > 512 then None
                  else map_option (\<lambda>(vs, r). (CborArray vs, r)) (parseMany (parseCbor d) (unat count) bs2))
            else if mt = 5
            then (if count > 64 then None
                  else map_option (\<lambda>(vs, r). (CborMap vs, r)) (parseMany (parseCbor d) (2 * unat count) bs2))
            else if mt = 6 then map_option (\<lambda>(_, r). (CborOther, r)) (parseCbor d bs2)
            else Some (CborOther, bs2))))"

definition cborParse :: "bytes \<Rightarrow> (CborVal \<times> bytes) option" where
  "cborParse bs = parseCbor 13 bs"

section \<open>Base64url and JSON strings\<close>

definition toBase64url :: "bytes \<Rightarrow> string" where
  "toBase64url data =
     rtrim (\<lambda>c. c = CHR ''='')
       (map (\<lambda>c. if c = CHR ''+'' then CHR ''-'' else if c = CHR ''/'' then CHR ''_'' else c) (base64 data))"

definition urlDec :: "char \<Rightarrow> int" where
  "urlDec c =
     (if in_range CHR ''A'' CHR ''Z'' c then int (code_of c) - 65
      else if in_range CHR ''a'' CHR ''z'' c then 26 + (int (code_of c) - 97)
      else if in_range CHR ''0'' CHR ''9'' c then 52 + (int (code_of c) - 48)
      else if c = CHR ''+'' \<or> c = CHR ''-'' then 62
      else if c = CHR ''/'' \<or> c = CHR ''_'' then 63
      else -1)"

fun urlLoop :: "u32 \<Rightarrow> nat \<Rightarrow> string \<Rightarrow> bytes" where
  "urlLoop acc bits [] = []"
| "urlLoop acc bits (c # s) =
     (let v = urlDec c in
      if v < 0 then urlLoop acc bits s
      else let acc' = push_bit 6 acc OR of_int v; bits' = bits + 6 in
           if bits' \<ge> 8 then ucast (drop_bit (bits' - 8) acc' AND 0xFF) # urlLoop acc' (bits' - 8) s
           else urlLoop acc' bits' s)"

definition fromBase64url :: "string \<Rightarrow> bytes" where
  "fromBase64url s = urlLoop 0 0 s"

abbreviation QUOTE :: char where "QUOTE \<equiv> CHR 0x22"
abbreviation BACKSLASH :: char where "BACKSLASH \<equiv> CHR 0x5C"

definition unescape :: "char \<Rightarrow> char" where
  "unescape e = (if e = CHR ''n'' then LF else if e = CHR ''r'' then CR else e)"

text \<open>The text of a string up to its closing quote; \<open>None\<close> if there is none.\<close>

fun jsonText :: "string \<Rightarrow> string option" where
  "jsonText [] = None"
| "jsonText [c] = (if c = QUOTE then Some [] else None)"
| "jsonText (c # e # s) =
     (if c = QUOTE then Some []
      else if c = BACKSLASH then map_option ((#) (unescape e)) (jsonText s)
      else map_option ((#) c) (jsonText (e # s)))"

function jsonLoop :: "string \<Rightarrow> string \<Rightarrow> string" where
  "jsonLoop key json =
     (if json = [] then []
      else case find_str (QUOTE # key @ [QUOTE]) json of None \<Rightarrow> []
      | Some i \<Rightarrow>
          (let r = dropWhile (\<lambda>c. c = SP \<or> c = CHR '':'' \<or> c = TAB) (drop (i + (length key + 2)) json) in
           if r = [] \<or> hd r \<noteq> QUOTE then jsonLoop key r
           else (case jsonText (tl r) of None \<Rightarrow> [] | Some v \<Rightarrow> v)))"
  by pat_completeness auto
termination
proof (relation "measure (\<lambda>(_, json). length json)", goal_cases)
  case (2 key json i r)
  have "length r \<le> length (drop (i + (length key + 2)) json)" unfolding 2(3) by (rule length_dropWhile_le)
  then have "length r \<le> length json - (i + (length key + 2))" by simp
  moreover have "0 < length json" using 2(1) by simp
  ultimately have "length r < length json" by linarith
  then show ?case by simp
qed simp

declare jsonLoop.simps [simp del]

definition jsonGetStr :: "string \<Rightarrow> string \<Rightarrow> string" where
  "jsonGetStr json key = jsonLoop key json"

section \<open>Authenticator data\<close>

text \<open>SHA-256, and whether a signature over a message verifies under a key in DER form.\<close>

record WebAuthnCrypto =
  wx_sha256 :: "bytes \<Rightarrow> bytes"
  wx_verify :: "bytes \<Rightarrow> bytes \<Rightarrow> bytes \<Rightarrow> bool"

record WebAuthnCfg =
  wc_rpId :: string
  wc_rpName :: string
  wc_credentialsFile :: string
  wc_iosAppId :: string
  wc_allowedOrigins :: "string list"
  wc_session :: SessionCfg

definition extractAuthData :: "bytes \<Rightarrow> bytes option" where
  "extractAuthData attObj =
     (if attObj = [] then None
      else case cborParse attObj of
        Some (CborMap items, _) \<Rightarrow>
          (case getText ''authData'' (CborMap items) of Some (CborBytes ad) \<Rightarrow> Some ad | _ \<Rightarrow> None)
      | _ \<Rightarrow> None)"

definition extractCoseP256 :: "bytes \<Rightarrow> (bytes \<times> bytes) option" where
  "extractCoseP256 data =
     (case cborParse data of
        Some (CborMap items, _) \<Rightarrow>
          (let v = CborMap items in
           case getInt 1 v of
             Some (CborUint kty) \<Rightarrow>
               if kty \<noteq> 2 then None
               else (case getInt 3 v of None \<Rightarrow> None
                     | Some alg \<Rightarrow>
                       if asInt alg \<noteq> -7 then None
                       else (case getInt (-1) v of
                               Some (CborUint crv) \<Rightarrow>
                                 if crv \<noteq> 1 then None
                                 else (case (getInt (-2) v, getInt (-3) v) of
                                         (Some (CborBytes x), Some (CborBytes y)) \<Rightarrow>
                                           if length x \<noteq> 32 \<or> length y \<noteq> 32 then None else Some (x, y)
                                       | _ \<Rightarrow> None)
                             | _ \<Rightarrow> None))
           | _ \<Rightarrow> None)
      | _ \<Rightarrow> None)"

text \<open>The outputs of \<open>parseAuthData\<close> keep what was set before a failure.\<close>

record AuthDataOut =
  ad_credId :: string
  ad_pubX :: bytes
  ad_pubY :: bytes
  ad_signCount :: u32

definition AuthDataOut0 :: AuthDataOut where
  "AuthDataOut0 = \<lparr> ad_credId = [], ad_pubX = [], ad_pubY = [], ad_signCount = 0 \<rparr>"

definition be32 :: "bytes \<Rightarrow> u32" where
  "be32 b = push_bit 24 (ucast (b ! 0)) OR push_bit 16 (ucast (b ! 1)) OR push_bit 8 (ucast (b ! 2)) OR ucast (b ! 3)"

definition parseAuthData :: "WebAuthnCrypto \<Rightarrow> WebAuthnCfg \<Rightarrow> bytes \<Rightarrow> bool \<Rightarrow> bool \<times> AuthDataOut" where
  "parseAuthData wx cfg authData expectAT =
     (if length authData < 37 then (False, AuthDataOut0)
      else if take 32 authData \<noteq> take 32 (wx_sha256 wx (str_bytes (wc_rpId cfg))) then (False, AuthDataOut0)
      else let flags = authData ! 32 in
           if flags AND 0x01 = 0 then (False, AuthDataOut0)
           else let out = AuthDataOut0\<lparr> ad_signCount := be32 (drop 33 authData) \<rparr> in
                if flags AND 0x40 = 0 then (\<not> expectAT, out)
                else if length authData < 37 + 16 + 2 then (False, out)
                else let credIdLen = unat (authData ! 53) * 256 + unat (authData ! 54) in
                     if length authData < 55 + credIdLen then (False, out)
                     else let out1 = out\<lparr> ad_credId := toBase64url (take credIdLen (drop 55 authData)) \<rparr> in
                          case extractCoseP256 (drop (55 + credIdLen) authData) of
                            None \<Rightarrow> (False, out1)
                          | Some (x, y) \<Rightarrow> (True, out1\<lparr> ad_pubX := x, ad_pubY := y \<rparr>))"

definition kSpkiPrefix :: bytes where
  "kSpkiPrefix =
     [0x30, 0x59, 0x30, 0x13, 0x06, 0x07,
      0x2A, 0x86, 0x48, 0xCE, 0x3D, 0x02, 0x01,
      0x06, 0x08, 0x2A, 0x86, 0x48, 0xCE, 0x3D, 0x03, 0x01, 0x07,
      0x03, 0x42, 0x00, 0x04]"

definition verifyEcdsaP256 :: "WebAuthnCrypto \<Rightarrow> bytes \<Rightarrow> bytes \<Rightarrow> bytes \<Rightarrow> bytes \<Rightarrow> bool" where
  "verifyEcdsaP256 wx pubX pubY msg derSig \<longleftrightarrow>
     \<not> (length pubX \<noteq> 32 \<or> length pubY \<noteq> 32 \<or> derSig = []) \<and>
     wx_verify wx (kSpkiPrefix @ pubX @ pubY) msg derSig"

section \<open>State\<close>

record PasskeyCredential =
  cr_credId :: string
  cr_pubkeyX :: string
  cr_pubkeyY :: string
  cr_signCount :: u32
  cr_label :: string

type_synonym Pending = "(string \<times> (bytes \<times> int)) list"

record WebAuthnRP =
  wa_pendingRegs :: Pending
  wa_pendingAuths :: Pending
  wa_sessions :: Sessions
  wa_credentials :: "PasskeyCredential list"
  wa_file :: "string option"

definition credentialJson :: "PasskeyCredential \<Rightarrow> string" where
  "credentialJson c =
     ''  {\"id\":\"'' @ cr_credId c @ ''\",\"x\":\"'' @ cr_pubkeyX c @ ''\",\"y\":\"'' @ cr_pubkeyY c
     @ ''\",\"sign_count\":'' @ show_nat (unat (cr_signCount c)) @ '',\"label\":\"'' @ cr_label c @ ''\"}''"

fun joinEntries :: "string list \<Rightarrow> string" where
  "joinEntries [] = []"
| "joinEntries [x] = x"
| "joinEntries (x # xs) = x @ '','' @ [LF] @ joinEntries xs"

text \<open>\<open>ok\<close> says whether the file can be opened for writing.\<close>

definition saveCredentials :: "WebAuthnCfg \<Rightarrow> bool \<Rightarrow> WebAuthnRP \<Rightarrow> WebAuthnRP" where
  "saveCredentials cfg ok st =
     (if wc_credentialsFile cfg = [] \<or> \<not> ok then st
      else st\<lparr> wa_file := Some (''{\"version\":1,\"credentials\":['' @ [LF]
             @ joinEntries (map credentialJson (wa_credentials st)) @ [LF] @ '']}'' @ [LF]) \<rparr>)"

definition sweepExpired :: "WebAuthnCfg \<Rightarrow> int \<Rightarrow> WebAuthnRP \<Rightarrow> WebAuthnRP" where
  "sweepExpired cfg now st =
     st\<lparr> wa_pendingRegs := erase_if (\<lambda>_ p. now > snd p) (wa_pendingRegs st),
         wa_pendingAuths := erase_if (\<lambda>_ p. now > snd p) (wa_pendingAuths st),
         wa_sessions := sweepSessions (wc_session cfg) now (wa_sessions st) \<rparr>"

text \<open>The length of the object at the start of the text: up to the brace that closes it, outside strings.\<close>

fun scanObject :: "int \<Rightarrow> bool \<Rightarrow> char \<Rightarrow> string \<Rightarrow> nat" where
  "scanObject depth inStr prv [] = 0"
| "scanObject depth inStr prv (c # s) =
     (let inStr = (if c = QUOTE \<and> prv \<noteq> BACKSLASH then \<not> inStr else inStr) in
      if \<not> inStr \<and> c = CHR ''{'' then Suc (scanObject (depth + 1) inStr c s)
      else if \<not> inStr \<and> c = CHR ''}'' then (if depth - 1 = 0 then 1 else Suc (scanObject (depth - 1) inStr c s))
      else Suc (scanObject depth inStr c s))"

definition parseCredential :: "string \<Rightarrow> PasskeyCredential" where
  "parseCredential obj =
     \<lparr> cr_credId = jsonGetStr obj ''id'', cr_pubkeyX = jsonGetStr obj ''x'', cr_pubkeyY = jsonGetStr obj ''y'',
       cr_signCount =
         (case find_str (QUOTE # ''sign_count'' @ [QUOTE]) obj of None \<Rightarrow> 0
          | Some i \<Rightarrow>
              (case stoul (dropWhile (\<lambda>c. c = CHR '':'' \<or> c = SP) (drop (i + 12) obj)) of None \<Rightarrow> 0 | Some n \<Rightarrow> ucast n)),
       cr_label = jsonGetStr obj ''label'' \<rparr>"

function loadLoop :: "string \<Rightarrow> PasskeyCredential list" where
  "loadLoop json =
     (let r = dropWhile (\<lambda>c. c = SP \<or> c = CHR '','' \<or> c = LF \<or> c = CR \<or> c = TAB) json in
      if r = [] \<or> hd r = CHR '']'' then []
      else if hd r \<noteq> CHR ''{'' then loadLoop (tl r)
      else let n = scanObject 0 False (CHR 0x00) r; cred = parseCredential (take n r) in
           (if cr_credId cred \<noteq> [] \<and> cr_pubkeyX cred \<noteq> [] \<and> cr_pubkeyY cred \<noteq> [] then [cred] else [])
           @ loadLoop (drop n r))"
  by pat_completeness auto
termination
proof (relation "measure length", goal_cases)
  case (2 json r)
  have "length r \<le> length json" unfolding 2(1) by (rule length_dropWhile_le)
  then show ?case using 2(2) by (cases r) auto
next
  case (3 json r n cred)
  have "length r \<le> length json" unfolding 3(1) by (rule length_dropWhile_le)
  moreover have "0 < n" using 3(2,3) unfolding 3(4) by (cases r) (auto simp: Let_def)
  ultimately show ?case using 3(2) by (cases r) auto
qed simp

declare loadLoop.simps [simp del]

definition loadCredentials :: "WebAuthnCfg \<Rightarrow> string option \<Rightarrow> WebAuthnRP \<Rightarrow> WebAuthnRP" where
  "loadCredentials cfg content st =
     (if wc_credentialsFile cfg = [] then st
      else case content of None \<Rightarrow> st
      | Some json \<Rightarrow>
          (case find_str (QUOTE # ''credentials'' @ [QUOTE]) json of None \<Rightarrow> st
           | Some i \<Rightarrow>
               (case find_ch_from CHR ''['' i json of None \<Rightarrow> st
                | Some j \<Rightarrow> st\<lparr> wa_credentials := loadLoop (drop (j + 1) json) \<rparr>)))"

section \<open>Login\<close>

definition kFiveMinutes :: int where "kFiveMinutes = 5 * 60 * kSec"

fun joinComma :: "string list \<Rightarrow> string" where
  "joinComma [] = []"
| "joinComma [x] = x"
| "joinComma (x # xs) = x @ '','' @ joinComma xs"

text \<open>The random challenge and session key, and the answer for the client.\<close>

definition beginAuthentication ::
  "WebAuthnCfg \<Rightarrow> int \<Rightarrow> int \<Rightarrow> bytes \<Rightarrow> bytes \<Rightarrow> WebAuthnRP \<Rightarrow> (string \<times> string) \<times> WebAuthnRP" where
  "beginAuthentication cfg sweepNow now challenge keyBytes st =
     (let st1 = sweepExpired cfg sweepNow st;
          sessionKey = toBase64url keyBytes
      in ((sessionKey,
           ''{\"session_key\":\"'' @ sessionKey @ ''\",\"challenge\":\"'' @ toBase64url challenge
           @ ''\",\"rp_id\":\"'' @ wc_rpId cfg @ ''\",\"credential_ids\":[''
           @ joinComma (map (\<lambda>c. [QUOTE] @ cr_credId c @ [QUOTE]) (wa_credentials st1)) @ '']}''),
          st1\<lparr> wa_pendingAuths := AList.update sessionKey (challenge, now + kFiveMinutes) (wa_pendingAuths st1) \<rparr>))"

record WebAuthnClock =
  wk_sweep :: int
  wk_check :: int
  wk_session :: int

text \<open>The assertion of a login request, in the encoding of the request.\<close>

record Assertion =
  as_credentialId :: string
  as_authenticatorData :: string
  as_clientDataJson :: string
  as_signature :: string

definition findCredential :: "string \<Rightarrow> string \<Rightarrow> PasskeyCredential list \<Rightarrow> PasskeyCredential option" where
  "findCredential a b cs = find (\<lambda>c. cr_credId c = a \<or> cr_credId c = b) cs"

text \<open>The first matching credential is replaced.\<close>

fun updateFirst :: "('a \<Rightarrow> bool) \<Rightarrow> ('a \<Rightarrow> 'a) \<Rightarrow> 'a list \<Rightarrow> 'a list" where
  "updateFirst P f [] = []"
| "updateFirst P f (x # xs) = (if P x then f x # xs else x # updateFirst P f xs)"

text \<open>The checks of an assertion against a challenge: the identifier that selects the credential, the
  credential and the signature count, or the error.\<close>

definition checkAssertion ::
  "WebAuthnCrypto \<Rightarrow> WebAuthnCfg \<Rightarrow> bytes \<Rightarrow> Assertion \<Rightarrow> PasskeyCredential list \<Rightarrow> string + string \<times> PasskeyCredential \<times> u32" where
  "checkAssertion wx cfg challenge as creds =
     (let cdJsonBytes = fromBase64url (as_clientDataJson as) in
      if cdJsonBytes = [] then Inl ''bad clientDataJSON''
      else let cdJson = bytes_str cdJsonBytes in
      if jsonGetStr cdJson ''type'' \<noteq> ''webauthn.get'' then Inl ''type mismatch''
      else if fromBase64url (jsonGetStr cdJson ''challenge'') \<noteq> challenge then Inl ''challenge mismatch''
      else let origin = jsonGetStr cdJson ''origin'' in
      if origin \<notin> set (wc_allowedOrigins cfg) then Inl (''origin not allowed: '' @ origin)
      else let authDataBytes = fromBase64url (as_authenticatorData as) in
      case parseAuthData wx cfg authDataBytes False of (ok, out) \<Rightarrow>
        let credId = (if ok then ad_credId out else as_credentialId as) in
        case findCredential (as_credentialId as) credId creds of None \<Rightarrow> Inl ''credential not found''
        | Some stored \<Rightarrow>
            let pubX = fromBase64url (cr_pubkeyX stored);
                pubY = fromBase64url (cr_pubkeyY stored);
                msg = authDataBytes @ wx_sha256 wx cdJsonBytes
            in if \<not> verifyEcdsaP256 wx pubX pubY msg (fromBase64url (as_signature as))
               then Inl ''signature verification failed''
               else if ad_signCount out \<noteq> 0 \<and> ad_signCount out \<le> cr_signCount stored
               then Inl ''sign count replay detected''
               else Inr (credId, stored, ad_signCount out))"

definition completeAuthentication ::
  "WebAuthnCrypto \<Rightarrow> WebAuthnCfg \<Rightarrow> WebAuthnClock \<Rightarrow> bool \<Rightarrow> bytes \<Rightarrow> string \<Rightarrow> Assertion \<Rightarrow> WebAuthnRP
     \<Rightarrow> (string + string) \<times> WebAuthnRP" where
  "completeAuthentication wx cfg wk saveOk tokenBytes sessionKey as st0 =
     (let st = sweepExpired cfg (wk_sweep wk) st0 in
      case map_of (wa_pendingAuths st) sessionKey of None \<Rightarrow> (Inl ''invalid or expired session'', st)
      | Some (challenge, expiry) \<Rightarrow>
          let done = st\<lparr> wa_pendingAuths := erase sessionKey (wa_pendingAuths st) \<rparr> in
          if wk_check wk > expiry then (Inl ''session expired'', done)
          else case checkAssertion wx cfg challenge as (wa_credentials st) of
            Inl e \<Rightarrow> (Inl e, done)
          | Inr (credId, stored, signCount) \<Rightarrow>
              let creds = (if signCount \<noteq> 0
                    then updateFirst (\<lambda>c. cr_credId c = as_credentialId as \<or> cr_credId c = credId)
                           (\<lambda>c. c\<lparr> cr_signCount := signCount \<rparr>) (wa_credentials st)
                    else wa_credentials st);
                  saved = saveCredentials cfg saveOk (done\<lparr> wa_credentials := creds \<rparr>);
                  token = toBase64url tokenBytes
              in (Inr token, saved\<lparr> wa_sessions :=
                    AList.update token (newSession (wc_session cfg) (wk_session wk) False []) (wa_sessions saved) \<rparr>))"

section \<open>Registration and administration\<close>

definition beginAdminRegistration ::
  "WebAuthnCfg \<Rightarrow> int \<Rightarrow> int \<Rightarrow> bytes \<Rightarrow> bytes \<Rightarrow> bytes \<Rightarrow> WebAuthnRP \<Rightarrow> (string \<times> string) \<times> WebAuthnRP" where
  "beginAdminRegistration cfg sweepNow now challenge keyBytes userId st =
     (let st1 = sweepExpired cfg sweepNow st;
          sessionKey = toBase64url keyBytes
      in ((sessionKey,
           ''{\"session_key\":\"'' @ sessionKey @ ''\",\"challenge\":\"'' @ toBase64url challenge
           @ ''\",\"rp_id\":\"'' @ wc_rpId cfg
           @ ''\",\"rp_name\":\"'' @ (if wc_rpName cfg = [] then wc_rpId cfg else wc_rpName cfg)
           @ ''\",\"user_id\":\"'' @ toBase64url userId @ ''\"}''),
          st1\<lparr> wa_pendingRegs := AList.update sessionKey (challenge, now + kFiveMinutes) (wa_pendingRegs st1) \<rparr>))"

definition checkAttestation ::
  "WebAuthnCrypto \<Rightarrow> WebAuthnCfg \<Rightarrow> bytes \<Rightarrow> string \<Rightarrow> string \<Rightarrow> PasskeyCredential list \<Rightarrow> string + AuthDataOut" where
  "checkAttestation wx cfg challenge attestationObjectB64 clientDataJsonB64 creds =
     (let cdJsonBytes = fromBase64url clientDataJsonB64 in
      if cdJsonBytes = [] then Inl ''bad clientDataJSON''
      else let cdJson = bytes_str cdJsonBytes in
      if jsonGetStr cdJson ''type'' \<noteq> ''webauthn.create'' then Inl ''clientDataJSON type mismatch''
      else if fromBase64url (jsonGetStr cdJson ''challenge'') \<noteq> challenge then Inl ''challenge mismatch''
      else let origin = jsonGetStr cdJson ''origin'' in
      if origin \<notin> set (wc_allowedOrigins cfg) then Inl (''origin not allowed: '' @ origin)
      else case extractAuthData (fromBase64url attestationObjectB64) of
        None \<Rightarrow> Inl ''failed to parse attestationObject''
      | Some authData \<Rightarrow>
          (case parseAuthData wx cfg authData True of
             (False, _) \<Rightarrow> Inl ''authData validation failed''
           | (True, out) \<Rightarrow>
               if ad_credId out \<in> set (map cr_credId creds) then Inl ''credential already registered'' else Inr out))"

text \<open>The empty string is success.\<close>

definition completeAdminRegistration ::
  "WebAuthnCrypto \<Rightarrow> WebAuthnCfg \<Rightarrow> WebAuthnClock \<Rightarrow> bool \<Rightarrow> string \<Rightarrow> string \<Rightarrow> string \<Rightarrow> string \<Rightarrow> WebAuthnRP
     \<Rightarrow> string \<times> WebAuthnRP" where
  "completeAdminRegistration wx cfg wk saveOk sessionKey attestationObjectB64 clientDataJsonB64 label st0 =
     (let st = sweepExpired cfg (wk_sweep wk) st0 in
      case map_of (wa_pendingRegs st) sessionKey of None \<Rightarrow> (''invalid or expired session'', st)
      | Some (challenge, expiry) \<Rightarrow>
          let done = (\<lambda>s. s\<lparr> wa_pendingRegs := erase sessionKey (wa_pendingRegs s) \<rparr>) in
          if wk_check wk > expiry then (''session expired'', done st)
          else case checkAttestation wx cfg challenge attestationObjectB64 clientDataJsonB64 (wa_credentials st) of
            Inl e \<Rightarrow> (e, done st)
          | Inr out \<Rightarrow>
              let cred = \<lparr> cr_credId = ad_credId out, cr_pubkeyX = toBase64url (ad_pubX out),
                    cr_pubkeyY = toBase64url (ad_pubY out), cr_signCount = ad_signCount out,
                    cr_label = (if label = [] then ''My Device'' else label) \<rparr>
              in ([], done (saveCredentials cfg saveOk (st\<lparr> wa_credentials := wa_credentials st @ [cred] \<rparr>))))"

definition deleteCredential :: "WebAuthnCfg \<Rightarrow> bool \<Rightarrow> string \<Rightarrow> WebAuthnRP \<Rightarrow> bool \<times> WebAuthnRP" where
  "deleteCredential cfg saveOk credId st =
     (if credId \<notin> set (map cr_credId (wa_credentials st)) then (False, st)
      else (True, saveCredentials cfg saveOk
              (st\<lparr> wa_credentials := takeWhile (\<lambda>c. cr_credId c \<noteq> credId) (wa_credentials st)
                     @ tl (dropWhile (\<lambda>c. cr_credId c \<noteq> credId) (wa_credentials st)) \<rparr>)))"

definition aasaJson :: "WebAuthnCfg \<Rightarrow> string" where
  "aasaJson cfg =
     (if wc_iosAppId cfg = [] then []
      else ''{\"webcredentials\":{\"apps\":[\"'' @ wc_iosAppId cfg @ ''\"]}}'')"

text \<open>The constructor: the origin of the site is allowed when none is configured, and the file is loaded.\<close>

definition initCfg :: "WebAuthnCfg \<Rightarrow> WebAuthnCfg" where
  "initCfg cfg =
     (if wc_rpId cfg \<noteq> [] \<and> wc_allowedOrigins cfg = []
      then cfg\<lparr> wc_allowedOrigins := [''https://'' @ wc_rpId cfg] \<rparr> else cfg)"

definition initRP :: "WebAuthnCfg \<Rightarrow> string option \<Rightarrow> WebAuthnRP" where
  "initRP cfg content =
     (let st = \<lparr> wa_pendingRegs = [], wa_pendingAuths = [], wa_sessions = [], wa_credentials = [], wa_file = content \<rparr>
      in if wc_rpId cfg = [] then st else loadCredentials (initCfg cfg) content st)"

section \<open>Lemmas: base64url\<close>

definition urlsub :: "char \<Rightarrow> char" where
  "urlsub c = (if c = CHR ''+'' then CHR ''-'' else if c = CHR ''/'' then CHR ''_'' else c)"

lemma toBase64url_urlsub: "toBase64url bs = rtrim (\<lambda>c. c = CHR ''='') (map urlsub (base64 bs))"
  unfolding toBase64url_def urlsub_def ..

lemma urlsub_alphabet:
  "list_all (\<lambda>c. urlDec (urlsub c) = kTable c \<and> urlsub c \<noteq> CHR ''='' \<and> urlsub c \<noteq> QUOTE \<and> urlsub c \<noteq> BACKSLASH \<and>
       urlsub c \<noteq> CHR ''.'')
     ''ABCDEFGHIJKLMNOPQRSTUVWXYZabcdefghijklmnopqrstuvwxyz0123456789+/''"
  by (simp add: urlDec_def urlsub_def kTable_def in_range_def code_of_def)

lemma urlsub_digit:
  "urlDec (urlsub (b64digit v)) = int (unat (v AND 63))" "urlsub (b64digit v) \<noteq> CHR ''=''"
  "urlsub (b64digit v) \<noteq> QUOTE" "urlsub (b64digit v) \<noteq> BACKSLASH" "urlsub (b64digit v) \<noteq> CHR ''.''"
proof -
  let ?A = "''ABCDEFGHIJKLMNOPQRSTUVWXYZabcdefghijklmnopqrstuvwxyz0123456789+/''"
  have "v AND 63 \<le> 63" by (rule word_and_le1)
  then have "unat (v AND 63) < length ?A" by (simp add: word_le_nat_alt)
  then have "b64digit v \<in> set ?A" unfolding b64digit_def by (rule nth_mem)
  with urlsub_alphabet have "urlDec (urlsub (b64digit v)) = kTable (b64digit v) \<and> urlsub (b64digit v) \<noteq> CHR ''='' \<and>
      urlsub (b64digit v) \<noteq> QUOTE \<and> urlsub (b64digit v) \<noteq> BACKSLASH \<and> urlsub (b64digit v) \<noteq> CHR ''.''"
    unfolding list_all_iff by blast
  then show "urlDec (urlsub (b64digit v)) = int (unat (v AND 63))" "urlsub (b64digit v) \<noteq> CHR ''=''"
    "urlsub (b64digit v) \<noteq> QUOTE" "urlsub (b64digit v) \<noteq> BACKSLASH" "urlsub (b64digit v) \<noteq> CHR ''.''"
    by (simp_all only: kTable_b64digit) simp_all
qed

lemma rtrim_block:
  assumes "xs \<noteq> []" "\<not> P (last xs)"
  shows "rtrim P (xs @ ys) = xs @ rtrim P ys"
proof (induction ys rule: rev_induct)
  case Nil
  then show ?case using assms by (simp add: rtrim_id)
next
  case (snoc y ys)
  then show ?case
    using rtrim_append_drop [of P y "xs @ ys"] rtrim_append_drop [of P y ys]
      rtrim_append_stop [of P y "xs @ ys"] rtrim_append_stop [of P y ys]
    by (cases "P y") simp_all
qed

lemma toBase64url_simps:
  "toBase64url [] = []"
  "toBase64url [a] = (let w = b64word a 0 0 in map (urlsub \<circ> b64digit) [drop_bit 18 w, drop_bit 12 w])"
  "toBase64url [a, b] = (let w = b64word a b 0 in map (urlsub \<circ> b64digit) [drop_bit 18 w, drop_bit 12 w, drop_bit 6 w])"
  "toBase64url (a # b # c # r) = (let w = b64word a b c in
     map (urlsub \<circ> b64digit) [drop_bit 18 w, drop_bit 12 w, drop_bit 6 w, w] @ toBase64url r)"
proof -
  have pad: "urlsub CHR ''='' = CHR ''=''" by (simp add: urlsub_def)
  let ?P = "\<lambda>c. c = CHR ''=''"
  show "toBase64url [] = []" by (simp add: toBase64url_urlsub)
  show "toBase64url [a] = (let w = b64word a 0 0 in map (urlsub \<circ> b64digit) [drop_bit 18 w, drop_bit 12 w])"
    using rtrim_block [of "map (urlsub \<circ> b64digit) [drop_bit 18 (b64word a 0 0), drop_bit 12 (b64word a 0 0)]" ?P "''==''"] urlsub_digit(2)
    by (simp add: toBase64url_urlsub Let_def pad rtrim_def)
  show "toBase64url [a, b] = (let w = b64word a b 0 in map (urlsub \<circ> b64digit) [drop_bit 18 w, drop_bit 12 w, drop_bit 6 w])"
    using rtrim_block [of "map (urlsub \<circ> b64digit) [drop_bit 18 (b64word a b 0), drop_bit 12 (b64word a b 0), drop_bit 6 (b64word a b 0)]"
        ?P "''=''"] urlsub_digit(2)
    by (simp add: toBase64url_urlsub Let_def pad rtrim_def)
  show "toBase64url (a # b # c # r) = (let w = b64word a b c in
      map (urlsub \<circ> b64digit) [drop_bit 18 w, drop_bit 12 w, drop_bit 6 w, w] @ toBase64url r)"
    using rtrim_block [of "map (urlsub \<circ> b64digit) [drop_bit 18 (b64word a b c), drop_bit 12 (b64word a b c), drop_bit 6 (b64word a b c),
        b64word a b c]" ?P "map urlsub (base64 r)"] urlsub_digit(2)
    by (simp add: toBase64url_urlsub Let_def)
qed

lemma urlLoop_digit:
  "urlLoop acc bits (urlsub (b64digit v) # s) =
     (let acc' = push_bit 6 acc OR (v AND 63); bits' = bits + 6 in
      if bits' \<ge> 8 then ucast (drop_bit (bits' - 8) acc' AND 0xFF) # urlLoop acc' (bits' - 8) s
      else urlLoop acc' bits' s)"
proof -
  have "\<not> urlDec (urlsub (b64digit v)) < 0" "of_int (urlDec (urlsub (b64digit v))) = v AND 63"
    by (simp_all only: urlsub_digit(1)) simp_all
  then show ?thesis by (simp add: Let_def)
qed

declare urlLoop.simps(2) [simp del]

lemma urlLoop_toBase64url: "urlLoop acc 0 (toBase64url bs) = bs"
proof (induction bs arbitrary: acc rule: base64.induct)
  case (4 a b c r)
  then show ?case using b64_bytes [of acc a b c] by (simp add: toBase64url_simps urlLoop_digit Let_def)
next
  case (2 a)
  show ?case using b64_bytes(1) [of acc a 0 0] by (simp add: toBase64url_simps urlLoop_digit Let_def)
next
  case (3 a b)
  show ?case using b64_bytes(1,2) [of acc a b 0] by (simp add: toBase64url_simps urlLoop_digit Let_def)
qed (simp add: toBase64url_simps)

interpretation b64url: codec "\<lambda>_. True" toBase64url "\<lambda>s. Some (fromBase64url s)"
  by unfold_locales (simp add: fromBase64url_def urlLoop_toBase64url)

lemma fromBase64url_toBase64url [simp]: "fromBase64url (toBase64url bs) = bs"
  using b64url.dec_enc [of bs] by simp

lemma toBase64url_plain: "QUOTE \<notin> set (toBase64url bs) \<and> BACKSLASH \<notin> set (toBase64url bs)"
  by (induction bs rule: base64.induct) (auto simp: toBase64url_simps Let_def urlsub_digit dest: sym)

lemma toBase64url_dot: "CHR ''.'' \<notin> set (toBase64url bs)"
  by (induction bs rule: base64.induct) (auto simp: toBase64url_simps Let_def urlsub_digit dest: sym)

section \<open>Histories of the relying party\<close>

text \<open>What happened to it, the latest event first: ceremonies begun and ended, keys registered and removed.\<close>

datatype RpEvent =
  AuthBegun string bytes int | AuthEnded string | RegBegun string bytes int | RegEnded string
  | Registered string bytes bytes | Removed string

fun auth_of :: "RpEvent list \<Rightarrow> string \<Rightarrow> (bytes \<times> int) option" where
  "auth_of [] k = None"
| "auth_of (AuthBegun k' ch t # log) k = (if k' = k then Some (ch, t) else auth_of log k)"
| "auth_of (AuthEnded k' # log) k = (if k' = k then None else auth_of log k)"
| "auth_of (_ # log) k = auth_of log k"

fun reg_of :: "RpEvent list \<Rightarrow> string \<Rightarrow> (bytes \<times> int) option" where
  "reg_of [] k = None"
| "reg_of (RegBegun k' ch t # log) k = (if k' = k then Some (ch, t) else reg_of log k)"
| "reg_of (RegEnded k' # log) k = (if k' = k then None else reg_of log k)"
| "reg_of (_ # log) k = reg_of log k"

text \<open>The keys that are registered, in order: those at the start and later ones; a removal takes the first
  with its identifier.\<close>

definition dropFirst :: "('a \<Rightarrow> bool) \<Rightarrow> 'a list \<Rightarrow> 'a list" where
  "dropFirst P xs = takeWhile (\<lambda>x. \<not> P x) xs @ tl (dropWhile (\<lambda>x. \<not> P x) xs)"

fun keys_of :: "(string \<times> string \<times> string) list \<Rightarrow> RpEvent list \<Rightarrow> (string \<times> string \<times> string) list" where
  "keys_of init [] = init"
| "keys_of init (Registered i x y # log) = keys_of init log @ [(i, toBase64url x, toBase64url y)]"
| "keys_of init (Removed i # log) = dropFirst (\<lambda>k. fst k = i) (keys_of init log)"
| "keys_of init (_ # log) = keys_of init log"

definition credKey :: "PasskeyCredential \<Rightarrow> string \<times> string \<times> string" where
  "credKey c = (cr_credId c, cr_pubkeyX c, cr_pubkeyY c)"

text \<open>A history starts with any credentials, as the file may hold them, and no ceremony pending.\<close>

inductive rp_run :: "WebAuthnCrypto \<Rightarrow> WebAuthnCfg \<Rightarrow> (string \<times> string \<times> string) list \<Rightarrow> WebAuthnRP \<Rightarrow> RpEvent list \<Rightarrow> bool"
  for wx cfg init where
  start: "wa_pendingAuths st = [] \<Longrightarrow> wa_pendingRegs st = [] \<Longrightarrow> map credKey (wa_credentials st) = init \<Longrightarrow>
    rp_run wx cfg init st []"
| auth_begin: "rp_run wx cfg init st log \<Longrightarrow> beginAuthentication cfg t0 t ch kb st = ((k, json), st') \<Longrightarrow>
    rp_run wx cfg init st' (AuthBegun k ch t # log)"
| auth_complete: "rp_run wx cfg init st log \<Longrightarrow> completeAuthentication wx cfg wk ok tb k as st = (r, st') \<Longrightarrow>
    rp_run wx cfg init st' (AuthEnded k # log)"
| reg_begin: "rp_run wx cfg init st log \<Longrightarrow> beginAdminRegistration cfg t0 t ch kb u st = ((k, json), st') \<Longrightarrow>
    rp_run wx cfg init st' (RegBegun k ch t # log)"
| reg_failed: "rp_run wx cfg init st log \<Longrightarrow> completeAdminRegistration wx cfg wk ok k att cd label st = (e, st') \<Longrightarrow>
    e \<noteq> [] \<Longrightarrow> rp_run wx cfg init st' (RegEnded k # log)"
| reg_complete: "rp_run wx cfg init st log \<Longrightarrow> map_of (wa_pendingRegs (sweepExpired cfg (wk_sweep wk) st)) k = Some (ch, e) \<Longrightarrow>
    checkAttestation wx cfg ch att cd (wa_credentials st) = Inr out \<Longrightarrow>
    completeAdminRegistration wx cfg wk ok k att cd label st = ([], st') \<Longrightarrow>
    rp_run wx cfg init st' (Registered (ad_credId out) (ad_pubX out) (ad_pubY out) # RegEnded k # log)"
| remove: "rp_run wx cfg init st log \<Longrightarrow> deleteCredential cfg ok i st = (b, st') \<Longrightarrow> rp_run wx cfg init st' (Removed i # log)"
| sweep: "rp_run wx cfg init st log \<Longrightarrow> rp_run wx cfg init (sweepExpired cfg t st) log"
| sessions: "rp_run wx cfg init st log \<Longrightarrow> rp_run wx cfg init (st\<lparr> wa_sessions := ss \<rparr>) log"

section \<open>Lemmas: the invariant of the relying party\<close>

definition pending_ok :: "Pending \<Rightarrow> (string \<Rightarrow> (bytes \<times> int) option) \<Rightarrow> bool" where
  "pending_ok m f \<longleftrightarrow> keys_ok m \<and> (\<forall>k ch e. map_of m k = Some (ch, e) \<longrightarrow> f k = Some (ch, e - kFiveMinutes))"

definition rp_ok :: "(string \<times> string \<times> string) list \<Rightarrow> WebAuthnRP \<Rightarrow> RpEvent list \<Rightarrow> bool" where
  "rp_ok init st log \<longleftrightarrow> pending_ok (wa_pendingAuths st) (auth_of log) \<and> pending_ok (wa_pendingRegs st) (reg_of log) \<and>
     map credKey (wa_credentials st) = keys_of init log"

lemma pending_sweep: "pending_ok m f \<Longrightarrow> pending_ok (erase_if (\<lambda>_ p. now > snd p) m) f"
  by (auto simp: pending_ok_def map_of_erase_if split: option.splits if_splits)

lemma pending_begin: "pending_ok m f \<Longrightarrow> pending_ok (AList.update k (ch, t + kFiveMinutes) m) (f(k := Some (ch, t)))"
  by (auto simp: pending_ok_def update_conv' split: if_splits)

lemma pending_end: "pending_ok m f \<Longrightarrow> pending_ok (erase k m) (f(k := None))"
  by (auto simp: pending_ok_def alist_simps split: if_splits)

lemma auth_of_upd: "auth_of (AuthBegun k ch t # log) = (auth_of log)(k := Some (ch, t))"
  "auth_of (AuthEnded k # log) = (auth_of log)(k := None)"
  "reg_of (RegBegun k ch t # log) = (reg_of log)(k := Some (ch, t))"
  "reg_of (RegEnded k # log) = (reg_of log)(k := None)"
  by (rule ext, simp)+

lemma auth_of_same:
  "auth_of (RegBegun k ch t # log) = auth_of log" "auth_of (RegEnded k # log) = auth_of log"
  "auth_of (Registered i x y # log) = auth_of log" "auth_of (Removed i # log) = auth_of log"
  "reg_of (AuthBegun k ch t # log) = reg_of log" "reg_of (AuthEnded k # log) = reg_of log"
  "reg_of (Registered i x y # log) = reg_of log" "reg_of (Removed i # log) = reg_of log"
  by (rule ext, simp)+

lemma saveCredentials_same [simp]:
  "wa_pendingAuths (saveCredentials cfg ok st) = wa_pendingAuths st" "wa_pendingRegs (saveCredentials cfg ok st) = wa_pendingRegs st"
  "wa_credentials (saveCredentials cfg ok st) = wa_credentials st" "wa_sessions (saveCredentials cfg ok st) = wa_sessions st"
  by (simp_all add: saveCredentials_def)

lemma sweepExpired_same [simp]:
  "wa_credentials (sweepExpired cfg t st) = wa_credentials st"
  "wa_pendingAuths (sweepExpired cfg t st) = erase_if (\<lambda>_ p. t > snd p) (wa_pendingAuths st)"
  "wa_pendingRegs (sweepExpired cfg t st) = erase_if (\<lambda>_ p. t > snd p) (wa_pendingRegs st)"
  by (simp_all add: sweepExpired_def)

lemma sweep_rp_ok: "rp_ok init st log \<Longrightarrow> rp_ok init (sweepExpired cfg t st) log"
  by (simp add: rp_ok_def pending_sweep)

text \<open>The signature count does not change which keys there are.\<close>

lemma signCount_keys: "map credKey (updateFirst P (\<lambda>c. c\<lparr> cr_signCount := n \<rparr>) cs) = map credKey cs"
  by (induction cs) (auto simp: credKey_def)

section \<open>Lemmas: the operations keep the invariant\<close>

text \<open>The three ways a login request ends.\<close>

lemma completeAuthentication_cases:
  assumes run: "completeAuthentication wx cfg wk ok tb k as st0 = (r, st')"
    and st: "st = sweepExpired cfg (wk_sweep wk) st0"
  obtains (unknown) e where "map_of (wa_pendingAuths st) k = None" "st' = st" "r = Inl e"
  | (rejected) ch e m where "map_of (wa_pendingAuths st) k = Some (ch, e)"
      "st' = st\<lparr> wa_pendingAuths := erase k (wa_pendingAuths st) \<rparr>" "r = Inl m"
  | (accepted) ch e i c n where "map_of (wa_pendingAuths st) k = Some (ch, e)" "wk_check wk \<le> e"
      "checkAssertion wx cfg ch as (wa_credentials st) = Inr (i, c, n)" "r = Inr (toBase64url tb)"
      "wa_pendingAuths st' = erase k (wa_pendingAuths st)" "wa_pendingRegs st' = wa_pendingRegs st"
      "wa_credentials st' = (if n \<noteq> 0 then updateFirst (\<lambda>c. cr_credId c = as_credentialId as \<or> cr_credId c = i)
         (\<lambda>c. c\<lparr> cr_signCount := n \<rparr>) (wa_credentials st) else wa_credentials st)"
      "wa_sessions st' = AList.update (toBase64url tb) (newSession (wc_session cfg) (wk_session wk) False []) (wa_sessions st)"
proof (cases "map_of (wa_pendingAuths st) k")
  case None
  with run show thesis by (intro unknown) (auto simp: completeAuthentication_def Let_def st)
next
  case (Some p)
  obtain ch e where p: "p = (ch, e)" by (cases p)
  note S = Some [unfolded p]
  show thesis
  proof (cases "wk_check wk > e")
    case True
    with run S show thesis by (intro rejected [OF S]) (auto simp: completeAuthentication_def Let_def st)
  next
    case late: False
    show thesis
    proof (cases "checkAssertion wx cfg ch as (wa_credentials st)")
      case (Inl m)
      with run S late show thesis by (intro rejected [OF S]) (auto simp: completeAuthentication_def Let_def st)
    next
      case (Inr o')
      obtain i c n where o': "o' = (i, c, n)" by (cases o')
      with run S late Inr show thesis
        by (intro accepted [OF S _ Inr [unfolded o']]) (auto simp: completeAuthentication_def Let_def st)
    qed
  qed
qed

lemma completeAdminRegistration_cases:
  assumes run: "completeAdminRegistration wx cfg wk ok k att cd label st0 = (r, st')"
    and st: "st = sweepExpired cfg (wk_sweep wk) st0"
  obtains (unknown) "map_of (wa_pendingRegs st) k = None" "st' = st" "r \<noteq> []"
  | (rejected) ch e where "map_of (wa_pendingRegs st) k = Some (ch, e)"
      "st' = st\<lparr> wa_pendingRegs := erase k (wa_pendingRegs st) \<rparr>"
      "wk_check wk > e \<and> r = ''session expired'' \<or> checkAttestation wx cfg ch att cd (wa_credentials st) = Inl r"
  | (accepted) ch e out where "map_of (wa_pendingRegs st) k = Some (ch, e)" "wk_check wk \<le> e"
      "checkAttestation wx cfg ch att cd (wa_credentials st) = Inr out" "r = []"
      "wa_pendingRegs st' = erase k (wa_pendingRegs st)" "wa_pendingAuths st' = wa_pendingAuths st"
      "wa_credentials st' = wa_credentials st @ [\<lparr> cr_credId = ad_credId out, cr_pubkeyX = toBase64url (ad_pubX out),
         cr_pubkeyY = toBase64url (ad_pubY out), cr_signCount = ad_signCount out,
         cr_label = (if label = [] then ''My Device'' else label) \<rparr>]"
      "wa_sessions st' = wa_sessions st"
proof (cases "map_of (wa_pendingRegs st) k")
  case None
  with run show thesis by (intro unknown) (auto simp: completeAdminRegistration_def Let_def st)
next
  case (Some p)
  obtain ch e where p: "p = (ch, e)" by (cases p)
  note S = Some [unfolded p]
  show thesis
  proof (cases "wk_check wk > e")
    case True
    with run S show thesis by (intro rejected [OF S]) (auto simp: completeAdminRegistration_def Let_def st)
  next
    case late: False
    show thesis
    proof (cases "checkAttestation wx cfg ch att cd (wa_credentials st)")
      case (Inl m)
      with run S late show thesis by (intro rejected [OF S]) (auto simp: completeAdminRegistration_def Let_def st)
    next
      case (Inr out)
      with run S late show thesis
        by (intro accepted [OF S _ Inr]) (auto simp: completeAdminRegistration_def Let_def st)
    qed
  qed
qed

lemma pending_absent: "pending_ok m f \<Longrightarrow> map_of m k = None \<Longrightarrow> pending_ok m (f(k := None))"
  by (auto simp: pending_ok_def)

lemma checkAttestation_new:
  "checkAttestation wx cfg ch att cd cs = Inr out \<Longrightarrow> ad_credId out \<notin> cr_credId ` set cs"
  by (auto simp: checkAttestation_def Let_def split: if_splits option.splits prod.splits bool.splits)

lemma checkAttestation_creds:
  "checkAttestation wx cfg ch att cd cs = Inr out \<Longrightarrow> ad_credId out \<notin> cr_credId ` set cs' \<Longrightarrow>
    checkAttestation wx cfg ch att cd cs' = Inr out"
  by (auto simp: checkAttestation_def Let_def split: if_splits option.splits prod.splits bool.splits)

lemma authentication_rp_ok:
  assumes ok: "rp_ok init st0 log" and run: "completeAuthentication wx cfg wk sv tb k as st0 = (r, st')"
  shows "rp_ok init st' (AuthEnded k # log)"
proof -
  define st where "st = sweepExpired cfg (wk_sweep wk) st0"
  have st_ok: "rp_ok init st log" unfolding st_def by (rule sweep_rp_ok [OF ok])
  from run st_def show ?thesis
  proof (cases rule: completeAuthentication_cases)
    case (unknown e)
    then show ?thesis using st_ok by (simp add: rp_ok_def auth_of_upd auth_of_same pending_absent)
  next
    case (rejected ch e m)
    then show ?thesis using st_ok by (simp add: rp_ok_def auth_of_upd auth_of_same pending_end)
  next
    case (accepted ch e i c n)
    have "map credKey (wa_credentials st') = map credKey (wa_credentials st)"
      unfolding accepted(7) by (simp add: signCount_keys)
    with accepted(5,6) show ?thesis using st_ok by (simp add: rp_ok_def auth_of_upd auth_of_same pending_end)
  qed
qed

lemma registration_failed_rp_ok:
  assumes ok: "rp_ok init st0 log" and run: "completeAdminRegistration wx cfg wk sv k att cd label st0 = (r, st')"
    and r: "r \<noteq> []"
  shows "rp_ok init st' (RegEnded k # log)"
proof -
  define st where "st = sweepExpired cfg (wk_sweep wk) st0"
  have st_ok: "rp_ok init st log" unfolding st_def by (rule sweep_rp_ok [OF ok])
  from run st_def show ?thesis
  proof (cases rule: completeAdminRegistration_cases)
    case unknown
    then show ?thesis using st_ok by (simp add: rp_ok_def auth_of_upd auth_of_same pending_absent)
  next
    case (rejected ch e)
    then show ?thesis using st_ok by (simp add: rp_ok_def auth_of_upd auth_of_same pending_end)
  qed (use r in simp)
qed

lemma checkAttestation_nonempty: "checkAttestation wx cfg ch att cd cs = Inl e \<Longrightarrow> e \<noteq> []"
  by (auto simp: checkAttestation_def Let_def split: if_splits option.splits prod.splits bool.splits)

lemma registration_rp_ok:
  assumes ok: "rp_ok init st0 log" and run: "completeAdminRegistration wx cfg wk sv k att cd label st0 = ([], st')"
    and p: "map_of (wa_pendingRegs (sweepExpired cfg (wk_sweep wk) st0)) k = Some (ch, e)"
    and out: "checkAttestation wx cfg ch att cd (wa_credentials st0) = Inr out"
  shows "rp_ok init st' (Registered (ad_credId out) (ad_pubX out) (ad_pubY out) # RegEnded k # log)"
proof -
  define st where "st = sweepExpired cfg (wk_sweep wk) st0"
  have st_ok: "rp_ok init st log" unfolding st_def by (rule sweep_rp_ok [OF ok])
  have cs: "wa_credentials st = wa_credentials st0" by (simp add: st_def)
  from run st_def show ?thesis
  proof (cases rule: completeAdminRegistration_cases)
    case (accepted ch' e' out')
    with p [folded st_def] out cs have "out' = out" by simp
    then show ?thesis using st_ok accepted(5-7) cs
      by (simp add: rp_ok_def auth_of_upd auth_of_same pending_end credKey_def)
  qed (use p out checkAttestation_nonempty in \<open>auto simp: st_def\<close>)
qed

lemma dropFirst_none: "\<forall>x \<in> set xs. \<not> P x \<Longrightarrow> dropFirst P xs = xs"
  by (simp add: dropFirst_def takeWhile_eq_all_conv [THEN iffD2] dropWhile_eq_Nil_conv [THEN iffD2])

lemma map_dropFirst: "map f (dropFirst (P \<circ> f) xs) = dropFirst P (map f xs)"
  by (simp add: dropFirst_def takeWhile_map dropWhile_map map_tl comp_def)

lemma delete_rp_ok:
  assumes ok: "rp_ok init st log" and run: "deleteCredential cfg sv i st = (b, st')"
  shows "rp_ok init st' (Removed i # log)"
proof -
  have id: "(\<lambda>k. fst k = i) \<circ> credKey = (\<lambda>c. cr_credId c = i)" by (simp add: comp_def credKey_def)
  have "wa_credentials st' = dropFirst (\<lambda>c. cr_credId c = i) (wa_credentials st) \<and>
      wa_pendingAuths st' = wa_pendingAuths st \<and> wa_pendingRegs st' = wa_pendingRegs st"
  proof (cases "i \<in> set (map cr_credId (wa_credentials st))")
    case True
    with run show ?thesis by (auto simp: deleteCredential_def dropFirst_def)
  next
    case False
    then have "\<forall>c \<in> set (wa_credentials st). cr_credId c \<noteq> i" by auto
    with run False show ?thesis by (simp add: deleteCredential_def dropFirst_none)
  qed
  moreover have "map credKey (dropFirst (\<lambda>c. cr_credId c = i) (wa_credentials st)) =
      dropFirst (\<lambda>k. fst k = i) (map credKey (wa_credentials st))"
    using map_dropFirst [of credKey "\<lambda>k. fst k = i" "wa_credentials st"] unfolding id .
  ultimately show ?thesis using ok by (simp add: rp_ok_def auth_of_same)
qed

lemma begin_rp_ok:
  "rp_ok init st log \<Longrightarrow> beginAuthentication cfg t0 t ch kb st = ((k, json), st') \<Longrightarrow> rp_ok init st' (AuthBegun k ch t # log)"
  "rp_ok init st log \<Longrightarrow> beginAdminRegistration cfg t0 t ch kb u st = ((k, json), st') \<Longrightarrow> rp_ok init st' (RegBegun k ch t # log)"
  by (auto simp: beginAuthentication_def beginAdminRegistration_def Let_def rp_ok_def auth_of_upd auth_of_same
      pending_sweep pending_begin)

lemma rp_run_ok: "rp_run wx cfg init st log \<Longrightarrow> rp_ok init st log"
proof (induction rule: rp_run.induct)
  case (start st)
  then show ?case by (simp add: rp_ok_def pending_ok_def keys_ok_def)
next
  case (sessions st log ss)
  then show ?case by (simp add: rp_ok_def)
next
  case (reg_complete st log wk k ch e att cd out ok label st')
  then show ?case by (intro registration_rp_ok) auto
qed (blast intro: authentication_rp_ok begin_rp_ok registration_failed_rp_ok delete_rp_ok sweep_rp_ok)+

text \<open>What an accepted assertion says.\<close>

definition clientDataOk :: "WebAuthnCfg \<Rightarrow> string \<Rightarrow> bytes \<Rightarrow> bytes \<Rightarrow> bool" where
  "clientDataOk cfg ceremony ch cdJson \<longleftrightarrow>
     jsonGetStr (bytes_str cdJson) ''type'' = ceremony \<and>
     fromBase64url (jsonGetStr (bytes_str cdJson) ''challenge'') = ch \<and>
     jsonGetStr (bytes_str cdJson) ''origin'' \<in> set (wc_allowedOrigins cfg)"

definition assertionProves :: "WebAuthnCrypto \<Rightarrow> WebAuthnCfg \<Rightarrow> bytes \<Rightarrow> Assertion \<Rightarrow> PasskeyCredential \<Rightarrow> u32 \<Rightarrow> bool" where
  "assertionProves wx cfg ch as c n \<longleftrightarrow>
     clientDataOk cfg ''webauthn.get'' ch (fromBase64url (as_clientDataJson as)) \<and>
     verifyEcdsaP256 wx (fromBase64url (cr_pubkeyX c)) (fromBase64url (cr_pubkeyY c))
       (fromBase64url (as_authenticatorData as) @ wx_sha256 wx (fromBase64url (as_clientDataJson as)))
       (fromBase64url (as_signature as)) \<and>
     n = ad_signCount (snd (parseAuthData wx cfg (fromBase64url (as_authenticatorData as)) False))"

lemma checkAssertion_Inr:
  assumes "checkAssertion wx cfg ch as cs = Inr (i, c, n)"
  shows "assertionProves wx cfg ch as c n" "findCredential (as_credentialId as) i cs = Some c" "n = 0 \<or> cr_signCount c < n"
  using assms by (auto simp: checkAssertion_def assertionProves_def clientDataOk_def Let_def
      split: if_splits option.splits prod.splits)

lemma findCredential_Some:
  "findCredential a b cs = Some c \<Longrightarrow> c \<in> set cs \<and> (cr_credId c = a \<or> cr_credId c = b)"
  by (auto simp: findCredential_def find_Some_iff)

lemma updateFirst_found: "find P cs = Some c \<Longrightarrow> f c \<in> set (updateFirst P f cs)"
  by (induction cs) (auto split: if_splits)

text \<open>Authenticator data of another site, or without the user, is not refused at a login: its failure
  selects the credential by the identifier of the request, and skips the signature count.\<close>

lemma parseAuthData_refused:
  "length ad < 37 \<or> take 32 ad \<noteq> take 32 (wx_sha256 wx (str_bytes (wc_rpId cfg))) \<or> ad ! 32 AND 0x01 = 0 \<Longrightarrow>
    parseAuthData wx cfg ad at = (False, AuthDataOut0)"
  by (auto simp: parseAuthData_def Let_def)

lemma login_despite_refused_authData:
  assumes "parseAuthData wx cfg (fromBase64url (as_authenticatorData as)) False = (False, AuthDataOut0)"
    and "fromBase64url (as_clientDataJson as) \<noteq> []"
    and "findCredential (as_credentialId as) (as_credentialId as) cs = Some c" "assertionProves wx cfg ch as c 0"
  shows "checkAssertion wx cfg ch as cs = Inr (as_credentialId as, c, 0)"
  using assms by (simp add: checkAssertion_def assertionProves_def clientDataOk_def Let_def AuthDataOut0_def)

text \<open>A key under which a login is pending was issued, and no login has ended it.\<close>

lemma pending_auth_begun:
  assumes "rp_run wx cfg init st log" "map_of (wa_pendingAuths (sweepExpired cfg t0 st)) k = Some (ch, e)"
  shows "auth_of log k = Some (ch, e - kFiveMinutes)"
  using sweep_rp_ok [OF rp_run_ok [OF assms(1)], of cfg t0] assms(2) by (auto simp: rp_ok_def pending_ok_def)

lemma pending_reg_begun:
  assumes "rp_run wx cfg init st log" "map_of (wa_pendingRegs (sweepExpired cfg t0 st)) k = Some (ch, e)"
  shows "reg_of log k = Some (ch, e - kFiveMinutes)"
  using sweep_rp_ok [OF rp_run_ok [OF assms(1)], of cfg t0] assms(2) by (auto simp: rp_ok_def pending_ok_def)

lemma ended_keys:
  assumes "rp_run wx cfg init st log"
  shows "auth_of log k = None \<Longrightarrow> map_of (wa_pendingAuths st) k = None"
    "reg_of log k = None \<Longrightarrow> map_of (wa_pendingRegs st) k = None"
  using rp_run_ok [OF assms] by (cases "map_of (wa_pendingAuths st) k"; cases "map_of (wa_pendingRegs st) k"; force simp: rp_ok_def pending_ok_def)+

text \<open>What an accepted login proves: the ceremony, a registered key, and its signature; authenticator data of
  this site with the user present, or else no more than the identifier in the request; a count that is not 0
  is new and is stored.\<close>

definition ofThisSite :: "WebAuthnCrypto \<Rightarrow> WebAuthnCfg \<Rightarrow> bytes \<Rightarrow> bool" where
  "ofThisSite wx cfg ad \<longleftrightarrow> 37 \<le> length ad \<and> take 32 ad = take 32 (wx_sha256 wx (str_bytes (wc_rpId cfg))) \<and>
     ad ! 32 AND 0x01 \<noteq> 0"

definition loginProves ::
  "WebAuthnCrypto \<Rightarrow> WebAuthnCfg \<Rightarrow> (string \<times> string \<times> string) list \<Rightarrow> RpEvent list \<Rightarrow> bytes \<Rightarrow> Assertion \<Rightarrow>
     PasskeyCredential \<Rightarrow> u32 \<Rightarrow> WebAuthnRP \<Rightarrow> WebAuthnRP \<Rightarrow> bool" where
  "loginProves wx cfg init log ch as c n st st' \<longleftrightarrow>
     c \<in> set (wa_credentials st) \<and> credKey c \<in> set (keys_of init log) \<and> assertionProves wx cfg ch as c n \<and>
     (ofThisSite wx cfg (fromBase64url (as_authenticatorData as)) \<or> n = 0 \<and> cr_credId c = as_credentialId as) \<and>
     (n \<noteq> 0 \<longrightarrow> cr_signCount c < n \<and> c\<lparr> cr_signCount := n \<rparr> \<in> set (wa_credentials st')) \<and>
     (n = 0 \<longrightarrow> wa_credentials st' = wa_credentials st)"

lemma checkAssertion_site:
  assumes "checkAssertion wx cfg ch as cs = Inr (i, c, n)"
  shows "ofThisSite wx cfg (fromBase64url (as_authenticatorData as)) \<or> n = 0 \<and> cr_credId c = as_credentialId as"
proof (cases "ofThisSite wx cfg (fromBase64url (as_authenticatorData as))")
  case False
  then have p: "parseAuthData wx cfg (fromBase64url (as_authenticatorData as)) False = (False, AuthDataOut0)"
    by (intro parseAuthData_refused) (auto simp: ofThisSite_def)
  note A = checkAssertion_Inr [OF assms]
  have "n = 0" using A(1) by (simp add: assertionProves_def p AuthDataOut0_def)
  moreover have "i = as_credentialId as"
    using assms p by (auto simp: checkAssertion_def Let_def split: if_splits option.splits)
  ultimately show ?thesis using findCredential_Some [OF A(2)] by simp
qed simp

lemma login_facts:
  assumes run: "rp_run wx cfg init st log"
    and login: "completeAuthentication wx cfg wk ok tb k as st = (Inr token, st')"
  shows "\<exists>ch t c n. auth_of log k = Some (ch, t) \<and> wk_check wk \<le> t + kFiveMinutes \<and>
      loginProves wx cfg init log ch as c n st st'"
    "map_of (wa_pendingAuths st') k = None"
    "map_of (wa_sessions st') token = Some (newSession (wc_session cfg) (wk_session wk) False [])"
proof -
  define s1 where "s1 = sweepExpired cfg (wk_sweep wk) st"
  have cs: "wa_credentials s1 = wa_credentials st" by (simp add: s1_def)
  have keys: "map credKey (wa_credentials st) = keys_of init log" using rp_run_ok [OF run] by (simp add: rp_ok_def)
  from login s1_def have "(\<exists>ch t c n. auth_of log k = Some (ch, t) \<and> wk_check wk \<le> t + kFiveMinutes \<and>
      loginProves wx cfg init log ch as c n st st') \<and>
    map_of (wa_sessions st') token = Some (newSession (wc_session cfg) (wk_session wk) False [])"
  proof (cases rule: completeAuthentication_cases)
    case (accepted ch e i c n)
    note A = checkAssertion_Inr [OF accepted(3) [unfolded cs]]
    have begun: "auth_of log k = Some (ch, e - kFiveMinutes)"
      using pending_auth_begun [OF run] accepted(1) by (simp add: s1_def)
    have c: "c \<in> set (wa_credentials st)" using findCredential_Some [OF A(2)] by blast
    then have "credKey c \<in> set (keys_of init log)" using keys by (metis image_eqI list.set_map)
    moreover have "n \<noteq> 0 \<longrightarrow> c\<lparr> cr_signCount := n \<rparr> \<in> set (wa_credentials st')"
      using updateFirst_found [OF A(2) [unfolded findCredential_def]] accepted(7) cs by simp
    moreover have "n = 0 \<longrightarrow> wa_credentials st' = wa_credentials st" by (simp add: accepted(7) cs)
    ultimately have "loginProves wx cfg init log ch as c n st st'"
      using A(1,3) c checkAssertion_site [OF accepted(3)] by (auto simp: loginProves_def)
    then show ?thesis using begun accepted(2,4,8)
      by (intro conjI exI [of _ ch] exI [of _ "e - kFiveMinutes"] exI [of _ c] exI [of _ n]) (auto simp: update_conv')
  qed simp_all
  then show "\<exists>ch t c n. auth_of log k = Some (ch, t) \<and> wk_check wk \<le> t + kFiveMinutes \<and>
      loginProves wx cfg init log ch as c n st st'"
    "map_of (wa_sessions st') token = Some (newSession (wc_session cfg) (wk_session wk) False [])" by blast+
  show "map_of (wa_pendingAuths st') k = None"
    by (rule ended_keys(1) [OF rp_run.auth_complete [OF run login]]) simp
qed

text \<open>What an accepted attestation says.\<close>

definition attestationProves :: "WebAuthnCrypto \<Rightarrow> WebAuthnCfg \<Rightarrow> bytes \<Rightarrow> string \<Rightarrow> string \<Rightarrow> AuthDataOut \<Rightarrow> bool" where
  "attestationProves wx cfg ch att cd out \<longleftrightarrow>
     clientDataOk cfg ''webauthn.create'' ch (fromBase64url cd) \<and>
     (\<exists>ad n. extractAuthData (fromBase64url att) = Some ad \<and> 55 + n \<le> length ad \<and>
        take 32 ad = take 32 (wx_sha256 wx (str_bytes (wc_rpId cfg))) \<and>
        ad ! 32 AND 0x01 \<noteq> 0 \<and> ad ! 32 AND 0x40 \<noteq> 0 \<and>
        ad_credId out = toBase64url (take n (drop 55 ad)) \<and>
        extractCoseP256 (drop (55 + n) ad) = Some (ad_pubX out, ad_pubY out) \<and>
        ad_signCount out = be32 (drop 33 ad))"

lemma extractCoseP256_lengths: "extractCoseP256 d = Some (x, y) \<Longrightarrow> length x = 32 \<and> length y = 32"
  by (auto simp: extractCoseP256_def Let_def split: if_splits option.splits prod.splits CborVal.splits)

lemma parseAuthData_AT:
  assumes "parseAuthData wx cfg ad True = (True, out)"
  shows "\<exists>n. 55 + n \<le> length ad \<and> take 32 ad = take 32 (wx_sha256 wx (str_bytes (wc_rpId cfg))) \<and>
      ad ! 32 AND 0x01 \<noteq> 0 \<and> ad ! 32 AND 0x40 \<noteq> 0 \<and>
      ad_credId out = toBase64url (take n (drop 55 ad)) \<and>
      extractCoseP256 (drop (55 + n) ad) = Some (ad_pubX out, ad_pubY out) \<and> ad_signCount out = be32 (drop 33 ad)"
  using assms
  by (intro exI [of _ "unat (ad ! 53) * 256 + unat (ad ! 54)"])
    (auto simp: parseAuthData_def Let_def split: if_splits option.splits prod.splits)

lemma checkAttestation_Inr:
  assumes "checkAttestation wx cfg ch att cd cs = Inr out"
  shows "attestationProves wx cfg ch att cd out"
proof -
  obtain ad where "extractAuthData (fromBase64url att) = Some ad" "parseAuthData wx cfg ad True = (True, out)"
    "clientDataOk cfg ''webauthn.create'' ch (fromBase64url cd)"
    using assms by (auto simp: checkAttestation_def clientDataOk_def Let_def split: if_splits option.splits prod.splits bool.splits)
  with parseAuthData_AT [OF this(2)] show ?thesis unfolding attestationProves_def by blast
qed

lemma dropFirst_subset: "x \<in> set (dropFirst P xs) \<Longrightarrow> x \<in> set xs"
proof -
  have "y \<in> set (tl ys) \<Longrightarrow> y \<in> set ys" for y and ys :: "'a list" by (cases ys) auto
  then show "x \<in> set (dropFirst P xs) \<Longrightarrow> x \<in> set xs"
    using set_takeWhileD [of x _ xs] set_dropWhileD [of x _ xs] by (auto simp: dropFirst_def)
qed

text \<open>The keys registered over the protocol are points with 32-byte coordinates.\<close>

lemma keys_typed:
  assumes "rp_run wx cfg init st log"
  shows "\<forall>k \<in> set (keys_of init log). k \<in> set init \<or> (\<exists>i x y. k = (i, toBase64url x, toBase64url y) \<and> length x = 32 \<and> length y = 32)"
  using assms
proof (induction rule: rp_run.induct)
  case (reg_complete st log wk k ch e att cd out ok label st')
  from checkAttestation_Inr [OF reg_complete(3)] extractCoseP256_lengths
  have "length (ad_pubX out) = 32 \<and> length (ad_pubY out) = 32" unfolding attestationProves_def by blast
  with reg_complete.IH show ?case by auto
next
  case (remove st log ok i b st')
  then show ?case using dropFirst_subset by fastforce
qed auto

text \<open>A registration adds an identifier that is not there, a removal takes one.\<close>

lemma ids_of_keys: "map cr_credId cs = map fst (map credKey cs)"
  by (simp add: credKey_def comp_def)

lemma count_dropFirst: "count_list (map f (dropFirst P xs)) i \<le> count_list (map f xs) i"
proof -
  have "count_list (map f (tl ys)) i \<le> count_list (map f ys) i" for ys by (cases ys) auto
  then have "count_list (map f (dropFirst P xs)) i \<le>
      count_list (map f (takeWhile (\<lambda>x. \<not> P x) xs)) i + count_list (map f (dropWhile (\<lambda>x. \<not> P x) xs)) i"
    by (simp add: dropFirst_def)
  also have "\<dots> = count_list (map f xs) i"
    by (metis count_list_append map_append takeWhile_dropWhile_id)
  finally show ?thesis .
qed

lemma ids_counted:
  "rp_run wx cfg init st log \<Longrightarrow> count_list (map fst (keys_of init log)) i \<le> max 1 (count_list (map fst init) i)"
proof (induction rule: rp_run.induct)
  case (reg_complete st log wk k ch e att cd out ok label st')
  have "map fst (keys_of init log) = map cr_credId (wa_credentials st)"
    using rp_run_ok [OF reg_complete.hyps(1)] by (simp add: rp_ok_def ids_of_keys)
  then have "ad_credId out \<notin> set (map fst (keys_of init log))"
    unfolding \<open>map fst (keys_of init log) = _\<close> using checkAttestation_new [OF reg_complete.hyps(3)] by simp
  then have "i = ad_credId out \<longrightarrow> count_list (map fst (keys_of init log)) i = 0" by (simp add: count_list_0_iff)
  with reg_complete.IH show ?case by auto
next
  case (remove st log ok j b st')
  then show ?case using count_dropFirst [of fst "\<lambda>k. fst k = j" "keys_of init log" i] by simp
qed simp_all

section \<open>Properties\<close>

text \<open>
  C8.  A passkey login succeeds only for a challenge that was issued under its session key at most five
  minutes before and that no earlier attempt has used up; the client data name the ceremony, the challenge and
  an allowed origin; a key that is registered, and not removed since, verifies the signature over the
  authenticator data and the client data.  A signature count other than 0 exceeds the stored one and is stored.
  A count of 0 is not checked, and that is also what the code takes for authenticator data of another site or
  without the user's presence: it does not refuse them (a defect: \<open>login_despite_refused_authData\<close>), but then
  the key is the one with the identifier of the request.  The token opens a session without the admin
  role, and a second attempt under the session key is refused.
\<close>

theorem passkey_login_sound:
  assumes "rp_run wx cfg init st log"
    and "completeAuthentication wx cfg wk ok tb k as st = (Inr token, st')"
  shows "(\<exists>ch t c n. auth_of log k = Some (ch, t) \<and> wk_check wk \<le> t + kFiveMinutes \<and>
        c \<in> set (wa_credentials st) \<and> credKey c \<in> set (keys_of init log) \<and> assertionProves wx cfg ch as c n \<and>
        (ofThisSite wx cfg (fromBase64url (as_authenticatorData as)) \<or> n = 0 \<and> cr_credId c = as_credentialId as) \<and>
        (n \<noteq> 0 \<longrightarrow> cr_signCount c < n \<and> c\<lparr> cr_signCount := n \<rparr> \<in> set (wa_credentials st')) \<and>
        (n = 0 \<longrightarrow> wa_credentials st' = wa_credentials st)) \<and>
    map_of (wa_sessions st') token = Some (newSession (wc_session cfg) (wk_session wk) False []) \<and>
    fst (completeAuthentication wx cfg wk' ok' tb' k as' st') = Inl ''invalid or expired session''"
proof -
  have "map_of (wa_pendingAuths (sweepExpired cfg (wk_sweep wk') st')) k = None"
    using login_facts(2) [OF assms] rp_run_ok [OF rp_run.auth_complete [OF assms]]
    by (simp add: rp_ok_def pending_ok_def map_of_erase_if)
  then have "fst (completeAuthentication wx cfg wk' ok' tb' k as' st') = Inl ''invalid or expired session''"
    by (simp add: completeAuthentication_def Let_def)
  with login_facts(1,3) [OF assms] show ?thesis unfolding loginProves_def by blast
qed

definition wCrypto :: WebAuthnCrypto where
  "wCrypto = \<lparr> wx_sha256 = (\<lambda>b. take 32 (b @ replicate 32 0)), wx_verify = (\<lambda>der msg sig. sig = take 3 msg) \<rparr>"

definition wCfg :: WebAuthnCfg where
  "wCfg = \<lparr> wc_rpId = ''a.b'', wc_rpName = [], wc_credentialsFile = ''creds'', wc_iosAppId = [],
     wc_allowedOrigins = [''https://a.b''], wc_session = \<lparr> sessionTtlHours = 1, idleTimeoutMinutes = 0 \<rparr> \<rparr>"

definition wRP :: WebAuthnRP where
  "wRP = \<lparr> wa_pendingRegs = [], wa_pendingAuths = [], wa_sessions = [],
     wa_credentials = [\<lparr> cr_credId = ''Y3JlZA'', cr_pubkeyX = toBase64url (replicate 32 1),
       cr_pubkeyY = toBase64url (replicate 32 2), cr_signCount = 6, cr_label = ''phone'' \<rparr>], wa_file = None \<rparr>"

definition wJson :: string where
  "wJson = ''{\"type\":\"webauthn.get\",\"challenge\":\"AQID\",\"origin\":\"https://a.b\"}''"

definition wAssertion :: Assertion where
  "wAssertion = \<lparr> as_credentialId = ''Y3JlZA'',
     as_authenticatorData = toBase64url (str_bytes ''a.b'' @ replicate 29 0 @ [5, 0, 0, 0, 7]),
     as_clientDataJson = toBase64url (str_bytes wJson),
     as_signature = toBase64url [97, 46, 98] \<rparr>"

definition wClock :: WebAuthnClock where "wClock = \<lparr> wk_sweep = 10, wk_check = 11, wk_session = 12 \<rparr>"

definition wRP1 :: WebAuthnRP where "wRP1 = snd (beginAuthentication wCfg 0 1 [1, 2, 3] [4, 5, 6] wRP)"

lemma wRP1_run: "rp_run wCrypto wCfg (map credKey (wa_credentials wRP)) wRP1 [AuthBegun ''BAUG'' [1, 2, 3] 1]"
proof -
  have "rp_run wCrypto wCfg (map credKey (wa_credentials wRP)) wRP []"
    by (rule rp_run.start) (simp_all add: wRP_def)
  moreover have "fst (beginAuthentication wCfg 0 1 [1, 2, 3] [4, 5, 6] wRP) = (''BAUG'', snd (fst (beginAuthentication wCfg 0 1 [1, 2, 3] [4, 5, 6] wRP)))"
    by code_simp
  ultimately show ?thesis unfolding wRP1_def by (metis prod.collapse rp_run.auth_begin)
qed

lemma wJson_fields:
  "bytes_str (str_bytes wJson) = wJson" "str_bytes wJson \<noteq> []"
  "jsonGetStr wJson ''type'' = ''webauthn.get''" "jsonGetStr wJson ''origin'' = ''https://a.b''"
  "fromBase64url (jsonGetStr wJson ''challenge'') = [1, 2, 3]"
  by (simp add: wJson_def) (simp add: wJson_def, code_simp+)

lemma wAuthData:
  "parseAuthData wCrypto wCfg (str_bytes ''a.b'' @ replicate 29 0 @ [5, 0, 0, 0, 7]) False
     = (True, AuthDataOut0\<lparr> ad_signCount := 7 \<rparr>)"
  by code_simp

lemma wChecked: "checkAssertion wCrypto wCfg [1, 2, 3] wAssertion (wa_credentials wRP)
  = Inr ([], hd (wa_credentials wRP), 7)"
  unfolding checkAssertion_def Let_def wAssertion_def Assertion.simps fromBase64url_toBase64url wJson_fields wAuthData
  by (simp add: wCfg_def wRP_def findCredential_def verifyEcdsaP256_def wCrypto_def AuthDataOut0_def str_bytes_def code_of_def wJson_def)

lemma wPending: "map_of (wa_pendingAuths (sweepExpired wCfg 10 wRP1)) ''BAUG'' = Some ([1, 2, 3], 1 + kFiveMinutes)"
  "wa_credentials (sweepExpired wCfg 10 wRP1) = wa_credentials wRP"
  by code_simp (simp add: wRP1_def beginAuthentication_def Let_def)

lemma wLogin: "fst (completeAuthentication wCrypto wCfg wClock True [9, 9, 9] ''BAUG'' wAssertion wRP1) = Inr ''CQkJ''"
proof -
  have "toBase64url [9, 9, 9] = ''CQkJ''" by code_simp
  then show ?thesis
    by (simp add: completeAuthentication_def Let_def wClock_def wPending wChecked kFiveMinutes_def kSec_def del: sweepExpired_same)
qed

theorem passkey_login_sound_witness:
  "map_of (wa_sessions (snd (completeAuthentication wCrypto wCfg wClock True [9, 9, 9] ''BAUG'' wAssertion wRP1))) ''CQkJ''
     = Some (newSession (wc_session wCfg) 12 False [])"
proof -
  obtain st' where "completeAuthentication wCrypto wCfg wClock True [9, 9, 9] ''BAUG'' wAssertion wRP1 = (Inr ''CQkJ'', st')"
    using wLogin by (metis prod.collapse)
  with passkey_login_sound [OF wRP1_run this] show ?thesis by (simp add: wClock_def)
qed

text \<open>
  C24.  A registration succeeds only for a challenge that was issued under its session key at most five
  minutes before and not used up, with an attestation of this site in the presence of the user, for a new
  credential identifier and a P-256 point; it appends exactly that credential and ends the session key.
\<close>

theorem passkey_registration_sound:
  assumes "rp_run wx cfg init st log"
    and "completeAdminRegistration wx cfg wk ok k att cd label st = ([], st')"
  shows "\<exists>ch t out. reg_of log k = Some (ch, t) \<and> wk_check wk \<le> t + kFiveMinutes \<and>
      attestationProves wx cfg ch att cd out \<and> ad_credId out \<notin> cr_credId ` set (wa_credentials st) \<and>
      wa_credentials st' = wa_credentials st @ [\<lparr> cr_credId = ad_credId out, cr_pubkeyX = toBase64url (ad_pubX out),
        cr_pubkeyY = toBase64url (ad_pubY out), cr_signCount = ad_signCount out,
        cr_label = (if label = [] then ''My Device'' else label) \<rparr>] \<and>
      map_of (wa_pendingRegs st') k = None"
proof -
  define s1 where "s1 = sweepExpired cfg (wk_sweep wk) st"
  have cs: "wa_credentials s1 = wa_credentials st" by (simp add: s1_def)
  have ok: "keys_ok (wa_pendingRegs s1)"
    using sweep_rp_ok [OF rp_run_ok [OF assms(1)], of cfg "wk_sweep wk"] by (simp add: s1_def rp_ok_def pending_ok_def)
  from assms(2) s1_def show ?thesis
  proof (cases rule: completeAdminRegistration_cases)
    case (accepted ch e out)
    note out = accepted(3) [unfolded cs]
    have "reg_of log k = Some (ch, e - kFiveMinutes)" using pending_reg_begun [OF assms(1)] accepted(1) by (simp add: s1_def)
    moreover have "map_of (wa_pendingRegs st') k = None" unfolding accepted(5) using ok by (simp add: alist_simps)
    ultimately show ?thesis
      using accepted(2,7) cs checkAttestation_Inr [OF out] checkAttestation_new [OF out]
      by (intro exI [of _ ch] exI [of _ "e - kFiveMinutes"] exI [of _ out]) simp
  qed (use checkAttestation_nonempty in fastforce)+
qed

definition wCose :: bytes where
  "wCose = [0xA5, 0x01, 0x02, 0x03, 0x26, 0x20, 0x01, 0x21, 0x58, 32] @ replicate 32 3 @ [0x22, 0x58, 32] @ replicate 32 4"

definition wAuthNew :: bytes where
  "wAuthNew = str_bytes ''a.b'' @ replicate 29 0 @ [0x41, 0, 0, 0, 1] @ replicate 16 0 @ [0, 2, 0xAA, 0xBB] @ wCose"

definition wAttestation :: bytes where
  "wAttestation = [0xA1, 0x68] @ str_bytes ''authData'' @ [0x58, 0x86] @ wAuthNew"

definition wOut :: AuthDataOut where
  "wOut = \<lparr> ad_credId = ''qrs'', ad_pubX = replicate 32 3, ad_pubY = replicate 32 4, ad_signCount = 1 \<rparr>"

lemma wAttestation_parsed: "extractAuthData wAttestation = Some wAuthNew"
  by code_simp

lemma wAuthNew_parsed: "parseAuthData wCrypto wCfg wAuthNew True = (True, wOut)"
  by code_simp

definition wJsonNew :: string where
  "wJsonNew = ''{\"type\":\"webauthn.create\",\"challenge\":\"AQID\",\"origin\":\"https://a.b\"}''"

lemma wJsonNew_fields:
  "bytes_str (str_bytes wJsonNew) = wJsonNew" "str_bytes wJsonNew \<noteq> []"
  "jsonGetStr wJsonNew ''type'' = ''webauthn.create''" "jsonGetStr wJsonNew ''origin'' = ''https://a.b''"
  "fromBase64url (jsonGetStr wJsonNew ''challenge'') = [1, 2, 3]"
  by (simp add: wJsonNew_def) (simp add: wJsonNew_def, code_simp+)

lemma wAttested:
  "checkAttestation wCrypto wCfg [1, 2, 3] (toBase64url wAttestation) (toBase64url (str_bytes wJsonNew)) (wa_credentials wRP)
     = Inr wOut"
  unfolding checkAttestation_def Let_def fromBase64url_toBase64url wJsonNew_fields wAttestation_parsed
    option.case wAuthNew_parsed prod.case bool.case
  by (simp add: wCfg_def wRP_def wOut_def str_bytes_def wJsonNew_def)

definition wRP2 :: WebAuthnRP where "wRP2 = snd (beginAdminRegistration wCfg 0 1 [1, 2, 3] [4, 5, 6] [7] wRP)"

lemma wRP2_run: "rp_run wCrypto wCfg (map credKey (wa_credentials wRP)) wRP2 [RegBegun ''BAUG'' [1, 2, 3] 1]"
proof -
  have "rp_run wCrypto wCfg (map credKey (wa_credentials wRP)) wRP []"
    by (rule rp_run.start) (simp_all add: wRP_def)
  moreover have "fst (beginAdminRegistration wCfg 0 1 [1, 2, 3] [4, 5, 6] [7] wRP)
      = (''BAUG'', snd (fst (beginAdminRegistration wCfg 0 1 [1, 2, 3] [4, 5, 6] [7] wRP)))"
    by code_simp
  ultimately show ?thesis unfolding wRP2_def by (metis prod.collapse rp_run.reg_begin)
qed

lemma wPending2: "map_of (wa_pendingRegs (sweepExpired wCfg 10 wRP2)) ''BAUG'' = Some ([1, 2, 3], 1 + kFiveMinutes)"
  "wa_credentials (sweepExpired wCfg 10 wRP2) = wa_credentials wRP"
  by code_simp (simp add: wRP2_def beginAdminRegistration_def Let_def)

lemma wRegistered:
  "fst (completeAdminRegistration wCrypto wCfg wClock True ''BAUG'' (toBase64url wAttestation)
     (toBase64url (str_bytes wJsonNew)) ''pad'' wRP2) = []"
  by (simp add: completeAdminRegistration_def Let_def wClock_def wPending2 wAttested kFiveMinutes_def kSec_def del: sweepExpired_same)

text \<open>The same site with a file that has the credential twice.\<close>

definition wTwice :: WebAuthnRP where
  "wTwice = wRP\<lparr> wa_credentials := wa_credentials wRP @ wa_credentials wRP \<rparr>"

definition wTwice1 :: WebAuthnRP where "wTwice1 = snd (beginAdminRegistration wCfg 0 1 [1, 2, 3] [4, 5, 6] [7] wTwice)"

lemma wTwice1_creds: "wa_credentials wTwice1 = wa_credentials wTwice"
  by (simp add: wTwice1_def beginAdminRegistration_def Let_def)

lemma wAttestedTwice:
  "checkAttestation wCrypto wCfg [1, 2, 3] (toBase64url wAttestation) (toBase64url (str_bytes wJsonNew)) (wa_credentials wTwice1)
     = Inr wOut"
proof (rule checkAttestation_creds [OF wAttested])
  show "ad_credId wOut \<notin> cr_credId ` set (wa_credentials wTwice1)"
    unfolding wTwice1_creds by (simp add: wTwice_def wRP_def wOut_def)
qed

lemma wTwice1_run: "rp_run wCrypto wCfg (map credKey (wa_credentials wTwice)) wTwice1 [RegBegun ''BAUG'' [1, 2, 3] 1]"
proof -
  have "rp_run wCrypto wCfg (map credKey (wa_credentials wTwice)) wTwice []"
    by (rule rp_run.start) (simp_all add: wTwice_def wRP_def)
  moreover have "fst (beginAdminRegistration wCfg 0 1 [1, 2, 3] [4, 5, 6] [7] wTwice)
      = (''BAUG'', snd (fst (beginAdminRegistration wCfg 0 1 [1, 2, 3] [4, 5, 6] [7] wTwice)))"
    by code_simp
  ultimately show ?thesis unfolding wTwice1_def by (metis prod.collapse rp_run.reg_begin)
qed

lemma wPendingTwice: "map_of (wa_pendingRegs (sweepExpired wCfg 10 wTwice1)) ''BAUG'' = Some ([1, 2, 3], 1 + kFiveMinutes)"
  by code_simp

lemma wSweep: "wk_sweep wClock = 10"
  by (simp add: wClock_def)

lemma wRegisteredTwice:
  "fst (completeAdminRegistration wCrypto wCfg wClock True ''BAUG'' (toBase64url wAttestation)
     (toBase64url (str_bytes wJsonNew)) ''pad'' wTwice1) = []"
proof -
  have c: "wa_credentials (sweepExpired wCfg 10 wTwice1) = wa_credentials wTwice1" by simp
  show ?thesis
    by (simp add: completeAdminRegistration_def Let_def wClock_def wPendingTwice c wAttestedTwice kFiveMinutes_def kSec_def
        del: sweepExpired_same)
qed

theorem passkey_registration_sound_witness:
  "length (wa_credentials (snd (completeAdminRegistration wCrypto wCfg wClock True ''BAUG'' (toBase64url wAttestation)
     (toBase64url (str_bytes wJsonNew)) ''pad'' wRP2))) = Suc (length (wa_credentials wRP2))"
proof -
  obtain st' where "completeAdminRegistration wCrypto wCfg wClock True ''BAUG'' (toBase64url wAttestation)
      (toBase64url (str_bytes wJsonNew)) ''pad'' wRP2 = ([], st')"
    using wRegistered by (metis prod.collapse)
  from passkey_registration_sound [OF wRP2_run this] this show ?thesis by auto
qed

text \<open>
  C40.  In every history from any file of credentials: the credentials are exactly those of the file and the
  keys registered since, in order, less the removed ones; an identifier occurs more than once only if the
  file has it so, and no more often; a key that is not of the file has coordinates of 32 bytes; no session
  key is pending twice, and what is pending was begun and not ended, with an expiry of five minutes.
\<close>

theorem passkey_store_typed:
  assumes "rp_run wx cfg init st log"
  shows "map credKey (wa_credentials st) = keys_of init log \<and>
    (\<forall>i. count_list (map cr_credId (wa_credentials st)) i \<le> max 1 (count_list (map fst init) i)) \<and>
    (\<forall>c \<in> set (wa_credentials st). credKey c \<in> set init \<or>
       length (fromBase64url (cr_pubkeyX c)) = 32 \<and> length (fromBase64url (cr_pubkeyY c)) = 32) \<and>
    keys_ok (wa_pendingAuths st) \<and> keys_ok (wa_pendingRegs st) \<and>
    (\<forall>k ch e. map_of (wa_pendingAuths st) k = Some (ch, e) \<longrightarrow> auth_of log k = Some (ch, e - kFiveMinutes)) \<and>
    (\<forall>k ch e. map_of (wa_pendingRegs st) k = Some (ch, e) \<longrightarrow> reg_of log k = Some (ch, e - kFiveMinutes))"
proof -
  have keys: "map credKey (wa_credentials st) = keys_of init log" using rp_run_ok [OF assms] by (simp add: rp_ok_def)
  have "length (fromBase64url (cr_pubkeyX c)) = 32 \<and> length (fromBase64url (cr_pubkeyY c)) = 32"
    if c: "c \<in> set (wa_credentials st)" and new: "credKey c \<notin> set init" for c
  proof -
    have "credKey c \<in> set (keys_of init log)" using c keys by (metis image_eqI list.set_map)
    then obtain i x y where "credKey c = (i, toBase64url x, toBase64url y)" "length x = 32" "length y = 32"
      using keys_typed [OF assms] new by blast
    then show ?thesis by (simp add: credKey_def)
  qed
  moreover have "count_list (map cr_credId (wa_credentials st)) i \<le> max 1 (count_list (map fst init) i)" for i
    using ids_counted [OF assms, of i] unfolding ids_of_keys [of "wa_credentials st"] keys .
  ultimately show ?thesis using keys rp_run_ok [OF assms] by (auto simp: rp_ok_def pending_ok_def)
qed

text \<open>A file that has one identifier twice, and a registration over the protocol.\<close>

theorem passkey_store_typed_witness:
  "\<exists>st log. rp_run wCrypto wCfg (map credKey (wa_credentials wTwice)) st log \<and> length (wa_credentials st) = 3 \<and>
    count_list (map cr_credId (wa_credentials st)) ''Y3JlZA'' \<le> 2 \<and> map fst (keys_of (map credKey (wa_credentials wTwice)) log) =
      [''Y3JlZA'', ''Y3JlZA'', ''qrs''] \<and>
    length (fromBase64url (cr_pubkeyX (last (wa_credentials st)))) = 32"
proof -
  obtain st' where st': "completeAdminRegistration wCrypto wCfg wClock True ''BAUG'' (toBase64url wAttestation)
      (toBase64url (str_bytes wJsonNew)) ''pad'' wTwice1 = ([], st')"
    using wRegisteredTwice by (metis prod.collapse)
  let ?log = "Registered (ad_credId wOut) (ad_pubX wOut) (ad_pubY wOut) # RegEnded ''BAUG'' # [RegBegun ''BAUG'' [1, 2, 3] 1]"
  have run: "rp_run wCrypto wCfg (map credKey (wa_credentials wTwice)) st' ?log"
    by (rule rp_run.reg_complete [OF wTwice1_run wPendingTwice [folded wSweep] wAttestedTwice st'])
  note P = passkey_store_typed [OF run]
  have keys: "keys_of (map credKey (wa_credentials wTwice)) ?log =
      map credKey (wa_credentials wTwice) @ [(''qrs'', toBase64url (replicate 32 3), toBase64url (replicate 32 4))]"
    by (simp add: wOut_def)
  with P have m: "map credKey (wa_credentials st') =
      map credKey (wa_credentials wTwice) @ [(''qrs'', toBase64url (replicate 32 3), toBase64url (replicate 32 4))]" by simp
  have "length (map credKey (wa_credentials st')) = 3" unfolding m by (simp add: wTwice_def wRP_def)
  then have len: "length (wa_credentials st') = 3" by (simp only: length_map)
  then have ne: "wa_credentials st' \<noteq> []" by auto
  have "credKey (last (wa_credentials st')) = (''qrs'', toBase64url (replicate 32 3), toBase64url (replicate 32 4))"
    using arg_cong [OF m, of last] ne by (simp add: last_map)
  then have "credKey (last (wa_credentials st')) \<notin> set (map credKey (wa_credentials wTwice))"
    by (simp add: wTwice_def wRP_def credKey_def)
  then have "length (fromBase64url (cr_pubkeyX (last (wa_credentials st')))) = 32" using P ne by fastforce
  moreover have "count_list (map cr_credId (wa_credentials st')) ''Y3JlZA'' \<le> 2"
    using P [THEN conjunct2, THEN conjunct1, rule_format, of "''Y3JlZA''"] by (simp add: wTwice_def wRP_def credKey_def)
  moreover have "map fst (keys_of (map credKey (wa_credentials wTwice)) ?log) = [''Y3JlZA'', ''Y3JlZA'', ''qrs'']"
    unfolding keys by (simp add: wTwice_def wRP_def credKey_def)
  ultimately show ?thesis using run len by (intro exI [of _ st'] exI [of _ ?log] conjI) assumption+
qed

end
