(* ===== verification/WebJson.thy ===== *)
theory WebJson
  imports Prelude
begin

text \<open>
  \<open>jsonGetString\<close> of \<open>web_dashboard.cpp\<close>: how the handlers take a string out of a request body.
\<close>

abbreviation is_ws :: "char \<Rightarrow> bool" where "is_ws c \<equiv> c = SP \<or> c = TAB \<or> c = CR \<or> c = LF"

definition jsonUnescape :: "char \<Rightarrow> char" where
  "jsonUnescape e = (if e = CHR ''n'' then LF else if e = CHR ''r'' then CR else if e = CHR ''t'' then TAB else e)"

text \<open>The text of a string up to its closing quote; \<open>None\<close> if there is none.\<close>

fun jsonChars :: "string \<Rightarrow> string option" where
  "jsonChars [] = None"
| "jsonChars [c] = (if c = CHR 0x22 then Some [] else None)"
| "jsonChars (c # e # s) =
     (if c = CHR 0x22 then Some []
      else if c = CHR 0x5C then map_option ((#) (jsonUnescape e)) (jsonChars s)
      else map_option ((#) c) (jsonChars (e # s)))"

text \<open>An occurrence of the quoted key without a colon is passed over.\<close>

function jsonSearch :: "string \<Rightarrow> string \<Rightarrow> string" where
  "jsonSearch key json =
     (if json = [] then []
      else case find_str (CHR 0x22 # key @ [CHR 0x22]) json of None \<Rightarrow> []
      | Some i \<Rightarrow>
          (let r = dropWhile is_ws (drop (i + (length key + 2)) json) in
           if r = [] \<or> hd r \<noteq> CHR '':'' then jsonSearch key r
           else let v = dropWhile is_ws (tl r) in
                if v = [] \<or> hd v \<noteq> CHR 0x22 then []
                else (case jsonChars (tl v) of None \<Rightarrow> [] | Some t \<Rightarrow> t)))"
  by pat_completeness auto
termination
proof (relation "measure (\<lambda>(_, json). length json)", goal_cases)
  case (2 key json i r)
  have "length r \<le> length (drop (i + (length key + 2)) json)" unfolding 2(3) by (rule length_dropWhile_le)
  then have "length r \<le> length json - (i + (length key + 2))" by simp
  moreover have "0 < length json" using 2(1) by simp
  ultimately have "length r < length json" by linarith
  then show ?case by simp
qed simp

declare jsonSearch.simps [simp del]

definition jsonGetString :: "string \<Rightarrow> string \<Rightarrow> string" where
  "jsonGetString json key = jsonSearch key json"

section \<open>Lemmas\<close>

lemma jsonChars_plain:
  "CHR 0x22 \<notin> set t \<Longrightarrow> CHR 0x5C \<notin> set t \<Longrightarrow> jsonChars (t @ CHR 0x22 # r) = Some t"
proof (induction t)
  case Nil
  show ?case by (cases r) simp_all
next
  case (Cons c t)
  then show ?case by (cases "t @ CHR 0x22 # r") auto
qed

text \<open>A field that opens the object.\<close>

lemma jsonGetString_first:
  assumes "CHR 0x22 \<notin> set t" "CHR 0x5C \<notin> set t"
  shows "jsonGetString (CHR ''{'' # CHR 0x22 # key @ CHR 0x22 # CHR '':'' # CHR 0x22 # t @ CHR 0x22 # r) key = t"
proof -
  let ?j = "CHR ''{'' # CHR 0x22 # key @ CHR 0x22 # CHR '':'' # CHR 0x22 # t @ CHR 0x22 # r"
  have "find_str (CHR 0x22 # key @ [CHR 0x22]) ?j = Some 1"
    using starts_with_append [of "CHR 0x22 # key @ [CHR 0x22]" "CHR '':'' # CHR 0x22 # t @ CHR 0x22 # r"]
    by (simp add: starts_with_def)
  then show ?thesis unfolding jsonGetString_def
    by (subst jsonSearch.simps) (simp add: jsonChars_plain [OF assms])
qed

end
