(* ===== verification/Siwa.thy ===== *)
theory Siwa
  imports WebAuthn LogCtl WebJson
begin

text \<open>
  Sign in with Apple: \<open>siwa.hpp\<close> (JWT parsing, claims, authorisation URL, matching of identities),
  \<open>siwa.cpp\<close> (\<open>SiwaAdminStore\<close>, the JWKS cache and \<open>SiwaValidator\<close>) and the three
  \<open>/auth/apple/\<close> handlers of \<open>web_dashboard.cpp\<close>.

  SHA-256, the RSA verification under a modulus and an exponent, random bytes, the clocks and the
  answers of Apple's key server are arguments.  A \<open>long long\<close> is a 64-bit word read with \<open>sint\<close>; an
  overflow, which C++ leaves undefined, wraps.
\<close>

section \<open>Tokens\<close>

record SiwaConfig =
  sc_serviceId :: string
  sc_iosBundleId :: string
  sc_redirectUri :: string
  sc_adminFile :: string
  sc_domainAssocText :: string

definition siwaEnabled :: "SiwaConfig \<Rightarrow> bool" where
  "siwaEnabled c \<longleftrightarrow> sc_serviceId c \<noteq> [] \<and> sc_redirectUri c \<noteq> []"

record JwtParts =
  jp_headerB64 :: string
  jp_payloadB64 :: string
  jp_sigB64 :: string
  jp_signingInput :: string
  jp_headerJson :: string
  jp_payloadJson :: string

record SiwaJwksKey =
  jk_kid :: string
  jk_n :: string
  jk_e :: string

text \<open>The decoder is the one of \<open>WebAuthnRP\<close>.\<close>

definition siwaBase64urlDecode :: "string \<Rightarrow> bytes" where
  "siwaBase64urlDecode s = urlLoop 0 0 s"

definition parseJwt :: "string \<Rightarrow> JwtParts option" where
  "parseJwt token =
     (case find_ch CHR ''.'' token of None \<Rightarrow> None
      | Some dot1 \<Rightarrow>
          (case find_ch_from CHR ''.'' (dot1 + 1) token of None \<Rightarrow> None
           | Some dot2 \<Rightarrow>
               (let headerB64 = take dot1 token;
                    payloadB64 = substr (dot1 + 1) (dot2 - dot1 - 1) token;
                    hBytes = siwaBase64urlDecode headerB64;
                    pBytes = siwaBase64urlDecode payloadB64
                in if hBytes = [] \<or> pBytes = [] then None
                   else Some \<lparr> jp_headerB64 = headerB64, jp_payloadB64 = payloadB64, jp_sigB64 = drop (dot2 + 1) token,
                          jp_signingInput = take dot2 token, jp_headerJson = bytes_str hBytes,
                          jp_payloadJson = bytes_str pBytes \<rparr>)))"

text \<open>The text of a string up to its closing quote or the end.\<close>

fun jwtText :: "string \<Rightarrow> string" where
  "jwtText [] = []"
| "jwtText [c] = (if c = QUOTE then [] else [c])"
| "jwtText (c # e # s) =
     (if c = QUOTE then []
      else if c = BACKSLASH then e # jwtText s
      else c # jwtText (e # s))"

text \<open>The text after the key and its colon.\<close>

definition jwtAfter :: "string \<Rightarrow> string \<Rightarrow> string option" where
  "jwtAfter json key =
     map_option (\<lambda>i. drop (i + (length key + 3)) json) (find_str (QUOTE # key @ [QUOTE, CHR '':'']) json)"

definition jwtGetStr :: "string \<Rightarrow> string \<Rightarrow> string" where
  "jwtGetStr json key =
     (case jwtAfter json key of None \<Rightarrow> []
      | Some s \<Rightarrow>
          (let r = dropWhile (\<lambda>c. c = SP \<or> c = TAB \<or> c = LF \<or> c = CR) s in
           if r = [] \<or> hd r \<noteq> QUOTE then [] else jwtText (tl r)))"

definition jwtGetLong :: "string \<Rightarrow> string \<Rightarrow> u64" where
  "jwtGetLong json key =
     (case jwtAfter json key of None \<Rightarrow> 0
      | Some s \<Rightarrow>
          (let r = dropWhile (\<lambda>c. c = SP) s in
           if r = [] then 0
           else let neg = (hd r = CHR ''-'');
                    ds = takeWhile is_digit (if neg then tl r else r);
                    v = foldl (\<lambda>v c. v * 10 + of_nat (digit_val c)) 0 ds
                in if neg then - v else v))"

text \<open>The empty string is success.\<close>

definition validateAppleClaims :: "string \<Rightarrow> string list \<Rightarrow> string \<Rightarrow> int \<Rightarrow> string" where
  "validateAppleClaims payloadJson allowedAuds expectedNonceHash nowUtcSec =
     (if jwtGetStr payloadJson ''iss'' \<noteq> ''https://appleid.apple.com'' then ''iss mismatch''
      else let aud = jwtGetStr payloadJson ''aud'' in
      if aud \<notin> set allowedAuds then ''aud not in allowlist: '' @ aud
      else let exp = jwtGetLong payloadJson ''exp'' in
      if exp = 0 \<or> nowUtcSec > sint (exp + 30) then ''token expired''
      else if expectedNonceHash \<noteq> [] \<and> jwtGetStr payloadJson ''nonce'' \<noteq> expectedNonceHash then ''nonce mismatch''
      else [])"

definition hexUpper :: "nat \<Rightarrow> char" where
  "hexUpper d = ''0123456789ABCDEF'' ! d"

definition urlEncode :: "string \<Rightarrow> string" where
  "urlEncode s =
     concat (map (\<lambda>c.
       if is_digit c \<or> in_range CHR ''A'' CHR ''Z'' c \<or> in_range CHR ''a'' CHR ''z'' c \<or> c \<in> set ''-_.~'' then [c]
       else [CHR ''%'', hexUpper (code_of c div 16), hexUpper (code_of c mod 16)]) s)"

definition buildAuthorizeUrl :: "string \<Rightarrow> string \<Rightarrow> string \<Rightarrow> string \<Rightarrow> string" where
  "buildAuthorizeUrl serviceId redirectUri state nonceHash =
     ''https://appleid.apple.com/auth/authorize?response_type=code%20id_token&response_mode=form_post&client_id=''
     @ urlEncode serviceId @ ''&redirect_uri='' @ urlEncode redirectUri @ ''&scope=email&state=''
     @ urlEncode state @ ''&nonce='' @ urlEncode nonceHash"

section \<open>Administrators\<close>

record SiwaAdminIdentity =
  ai_email :: string
  ai_sub :: string

definition siwaEmailsEqual :: "string \<Rightarrow> string \<Rightarrow> bool" where
  "siwaEmailsEqual a b \<longleftrightarrow> length a = length b \<and> lowercase a = lowercase b"

fun findIndex :: "('a \<Rightarrow> bool) \<Rightarrow> 'a list \<Rightarrow> nat option" where
  "findIndex P [] = None"
| "findIndex P (x # xs) = (if P x then Some 0 else map_option Suc (findIndex P xs))"

text \<open>The index of the matching identity; \<open>None\<close> is \<open>-1\<close>.\<close>

definition matchAdminIdentity :: "SiwaAdminIdentity list \<Rightarrow> string \<Rightarrow> string \<Rightarrow> nat option" where
  "matchAdminIdentity ids sub email =
     (case findIndex (\<lambda>i. ai_sub i \<noteq> [] \<and> ai_sub i = sub) ids of Some i \<Rightarrow> Some i
      | None \<Rightarrow>
          if email = [] then None
          else findIndex (\<lambda>i. ai_sub i = [] \<and> siwaEmailsEqual (ai_email i) email) ids)"

text \<open>\<open>std::getline\<close> with a comma.\<close>

fun csvTokens :: "string \<Rightarrow> string \<Rightarrow> string list" where
  "csvTokens tok [] = (if tok = [] then [] else [tok])"
| "csvTokens tok (c # s) = (if c = CHR '','' then tok # csvTokens [] s else csvTokens (tok @ [c]) s)"

definition splitCsv :: "string \<Rightarrow> bool \<Rightarrow> string list" where
  "splitCsv csv low =
     map (if low then lowercase else id)
       (filter (\<lambda>t. t \<noteq> []) (map (\<lambda>t. rtrim (\<lambda>c. c = SP) (ltrim (\<lambda>c. c = SP) t)) (csvTokens [] csv)))"

text \<open>The objects of an array: a closing brace ends an object wherever it stands.\<close>

function objectLoop :: "string \<Rightarrow> string list" where
  "objectLoop json =
     (let r = dropWhile (\<lambda>c. c = SP \<or> c = LF \<or> c = CR \<or> c = CHR '','') json in
      if r = [] \<or> hd r = CHR '']'' then []
      else if hd r \<noteq> CHR ''{'' then objectLoop (tl r)
      else case find_ch CHR ''}'' r of None \<Rightarrow> []
      | Some n \<Rightarrow> take (n + 1) r # objectLoop (drop (n + 1) r))"
  by pat_completeness auto
termination
proof (relation "measure length", goal_cases)
  case (2 json r)
  have "length r \<le> length json" unfolding 2(1) by (rule length_dropWhile_le)
  then show ?case using 2(2) by (cases r) auto
next
  case (3 json r n)
  have "length r \<le> length json" unfolding 3(1) by (rule length_dropWhile_le)
  then show ?case using 3(2) by (cases r) auto
qed simp

declare objectLoop.simps [simp del]

record SiwaAdminStore =
  sa_filePath :: string
  sa_identities :: "SiwaAdminIdentity list"
  sa_file :: "string option"

definition parseIdentity :: "string \<Rightarrow> SiwaAdminIdentity list" where
  "parseIdentity obj =
     (let email = lowercase (jwtGetStr obj ''email'') in
      if email = [] then [] else [\<lparr> ai_email = email, ai_sub = jwtGetStr obj ''sub'' \<rparr>])"

definition loadAdmins :: "SiwaAdminStore \<Rightarrow> SiwaAdminStore" where
  "loadAdmins st =
     (if sa_filePath st = [] then st
      else case sa_file st of None \<Rightarrow> st
      | Some json \<Rightarrow>
          (case find_ch CHR ''['' json of None \<Rightarrow> st
           | Some pos \<Rightarrow>
               st\<lparr> sa_identities := sa_identities st @ concat (map parseIdentity (objectLoop (drop (pos + 1) json))) \<rparr>))"

definition identityJson :: "SiwaAdminIdentity \<Rightarrow> string" where
  "identityJson i = ''  {\"email\":\"'' @ ai_email i @ ''\",\"sub\":\"'' @ ai_sub i @ ''\"}''"

definition saveSnapshot :: "bool \<Rightarrow> SiwaAdminIdentity list \<Rightarrow> SiwaAdminStore \<Rightarrow> SiwaAdminStore" where
  "saveSnapshot ok snap st =
     (if sa_filePath st = [] \<or> \<not> ok then st
      else st\<lparr> sa_file := Some (''['' @ [LF] @ joinEntries (map identityJson snap) @ [LF] @ '']'' @ [LF]) \<rparr>)"

definition seedEmail :: "SiwaAdminIdentity list \<Rightarrow> string \<Rightarrow> SiwaAdminIdentity list" where
  "seedEmail ids email =
     (if \<exists>i \<in> set ids. siwaEmailsEqual (ai_email i) email then ids else ids @ [\<lparr> ai_email = email, ai_sub = [] \<rparr>])"

definition seedSub :: "SiwaAdminIdentity list \<Rightarrow> string \<Rightarrow> SiwaAdminIdentity list" where
  "seedSub ids sub =
     (if \<exists>i \<in> set ids. ai_sub i = sub then ids else ids @ [\<lparr> ai_email = [], ai_sub = sub \<rparr>])"

text \<open>The constructor, over what the file holds; \<open>ok\<close> says whether it can be written.\<close>

definition initAdminStore :: "string \<Rightarrow> string option \<Rightarrow> string \<Rightarrow> string \<Rightarrow> bool \<Rightarrow> SiwaAdminStore" where
  "initAdminStore path content configEmails configSubs ok =
     (let st = loadAdmins \<lparr> sa_filePath = path, sa_identities = [], sa_file = content \<rparr>;
          ids = foldl seedSub (foldl seedEmail (sa_identities st) (splitCsv configEmails True)) (splitCsv configSubs False)
      in saveSnapshot ok ids (st\<lparr> sa_identities := ids \<rparr>))"

definition matchAndPin :: "bool \<Rightarrow> string \<Rightarrow> string \<Rightarrow> SiwaAdminStore \<Rightarrow> bool \<times> SiwaAdminStore" where
  "matchAndPin ok sub email st =
     (case matchAdminIdentity (sa_identities st) sub email of None \<Rightarrow> (False, st)
      | Some idx \<Rightarrow>
          if ai_sub (sa_identities st ! idx) = []
          then let ids = (sa_identities st)[idx := (sa_identities st ! idx)\<lparr> ai_sub := sub \<rparr>]
               in (True, saveSnapshot ok ids (st\<lparr> sa_identities := ids \<rparr>))
          else (True, st))"

section \<open>The validator\<close>

text \<open>SHA-256, and whether an RSA key with a modulus and an exponent verifies a signature over a message.\<close>

record SiwaCrypto =
  sx_sha256 :: "bytes \<Rightarrow> bytes"
  sx_rsaVerify :: "bytes \<Rightarrow> bytes \<Rightarrow> bytes \<Rightarrow> bytes \<Rightarrow> bool"

record SiwaValidator =
  sv_cfg :: SiwaConfig
  sv_pending :: "(string \<times> (string \<times> int)) list"
  sv_jwksKeys :: "SiwaJwksKey list"
  sv_jwksExpiry :: int
  sv_testMode :: bool
  sv_nativeReplayCache :: "(string \<times> u64) list"

definition initValidator :: "SiwaConfig \<Rightarrow> SiwaValidator" where
  "initValidator cfg =
     \<lparr> sv_cfg = cfg, sv_pending = [], sv_jwksKeys = [], sv_jwksExpiry = 0, sv_testMode = False, sv_nativeReplayCache = [] \<rparr>"

definition setTestJwks :: "int \<Rightarrow> SiwaJwksKey list \<Rightarrow> SiwaValidator \<Rightarrow> SiwaValidator" where
  "setTestJwks now keys st = st\<lparr> sv_jwksKeys := keys, sv_jwksExpiry := now + 24 * 365 * 3600 * kSec, sv_testMode := True \<rparr>"

definition sha256Hex :: "SiwaCrypto \<Rightarrow> string \<Rightarrow> string" where
  "sha256Hex sx data = hexEncode (sx_sha256 sx (str_bytes data))"

definition parseKey :: "string \<Rightarrow> SiwaJwksKey list" where
  "parseKey obj =
     (let k = \<lparr> jk_kid = jwtGetStr obj ''kid'', jk_n = jwtGetStr obj ''n'', jk_e = jwtGetStr obj ''e'' \<rparr>
      in if jk_n k \<noteq> [] \<and> jk_e k \<noteq> [] then [k] else [])"

definition parseJwksJson :: "string \<Rightarrow> SiwaJwksKey list" where
  "parseJwksJson json =
     (case find_str (QUOTE # ''keys'' @ [QUOTE]) json of None \<Rightarrow> []
      | Some i \<Rightarrow>
          (case find_ch_from CHR ''['' i json of None \<Rightarrow> []
           | Some pos \<Rightarrow> concat (map parseKey (objectLoop (drop (pos + 1) json)))))"

text \<open>What the key server answers: another thread is fetching and leaves these keys, no transfer, or a status
  with a body.  An attempt reads the clock before and after.\<close>

datatype JwksFetch = FetchBusy "SiwaJwksKey list" int | FetchFailed | FetchHttp int string

record JwksTry =
  jt_now :: int
  jt_fetch :: JwksFetch
  jt_fetchedAt :: int

definition ensureJwks :: "JwksTry \<Rightarrow> SiwaValidator \<Rightarrow> bool \<times> SiwaValidator" where
  "ensureJwks t st =
     (if sv_jwksKeys st \<noteq> [] \<and> jt_now t < sv_jwksExpiry st then (True, st)
      else if sv_testMode st then (sv_jwksKeys st \<noteq> [], st)
      else case jt_fetch t of
        FetchBusy ks e \<Rightarrow> (ks \<noteq> [], st\<lparr> sv_jwksKeys := ks, sv_jwksExpiry := e \<rparr>)
      | FetchFailed \<Rightarrow> (False, st)
      | FetchHttp httpCode body \<Rightarrow>
          if httpCode \<noteq> 200 then (False, st)
          else let parsed = parseJwksJson body in
               if parsed = [] then (False, st)
               else (True, st\<lparr> sv_jwksKeys := parsed, sv_jwksExpiry := jt_fetchedAt t + 3600 * kSec \<rparr>))"

definition rsaVerifyRS256 :: "SiwaCrypto \<Rightarrow> SiwaJwksKey \<Rightarrow> string \<Rightarrow> string \<Rightarrow> bool" where
  "rsaVerifyRS256 sx key signingInput sigB64 \<longleftrightarrow>
     (let nBytes = siwaBase64urlDecode (jk_n key);
          eBytes = siwaBase64urlDecode (jk_e key);
          sigBytes = siwaBase64urlDecode sigB64
      in \<not> (nBytes = [] \<or> eBytes = [] \<or> sigBytes = []) \<and>
         sx_rsaVerify sx nBytes eBytes (str_bytes signingInput) sigBytes)"

text \<open>The key named by the token; an unknown name drops the cache and fetches once more.\<close>

definition findKey :: "JwksTry \<Rightarrow> string \<Rightarrow> SiwaValidator \<Rightarrow> (string + SiwaJwksKey) \<times> SiwaValidator" where
  "findKey again kid st =
     (case find (\<lambda>k. jk_kid k = kid) (sv_jwksKeys st) of Some k \<Rightarrow> (Inr k, st)
      | None \<Rightarrow>
          (case ensureJwks again (st\<lparr> sv_jwksKeys := [] \<rparr>) of
             (False, st1) \<Rightarrow> (Inl ''JWKS refresh failed'', st1)
           | (True, st1) \<Rightarrow>
               (case find (\<lambda>k. jk_kid k = kid) (sv_jwksKeys st1) of Some k \<Rightarrow> (Inr k, st1)
                | None \<Rightarrow> (Inl (''no JWKS key matching kid='' @ kid), st1))))"

text \<open>The input and output of a verification: two attempts at the keys and the system time; a verified token
  gives the subject and the mail address.\<close>

record SiwaIO =
  si_first :: JwksTry
  si_again :: JwksTry
  si_time :: int

definition checkToken :: "SiwaCrypto \<Rightarrow> int \<Rightarrow> SiwaJwksKey \<Rightarrow> JwtParts \<Rightarrow> string list \<Rightarrow> string \<Rightarrow> string + string \<times> string" where
  "checkToken sx now key parts allowedAuds expectedNonceHash =
     (if \<not> rsaVerifyRS256 sx key (jp_signingInput parts) (jp_sigB64 parts) then Inl ''signature verification failed''
      else let claimErr = validateAppleClaims (jp_payloadJson parts) allowedAuds expectedNonceHash now in
      if claimErr \<noteq> [] then Inl claimErr
      else let sub = jwtGetStr (jp_payloadJson parts) ''sub'' in
      if sub = [] then Inl ''missing sub claim''
      else Inr (sub, jwtGetStr (jp_payloadJson parts) ''email''))"

definition verifyJwt ::
  "SiwaCrypto \<Rightarrow> SiwaIO \<Rightarrow> string \<Rightarrow> string list \<Rightarrow> string \<Rightarrow> SiwaValidator \<Rightarrow> (string + string \<times> string) \<times> SiwaValidator" where
  "verifyJwt sx io idToken allowedAuds expectedNonceHash st =
     (case parseJwt idToken of None \<Rightarrow> (Inl ''malformed JWT'', st)
      | Some parts \<Rightarrow>
          (let alg = jwtGetStr (jp_headerJson parts) ''alg'' in
           if alg \<noteq> ''RS256'' then (Inl (''unsupported alg: '' @ alg), st)
           else case ensureJwks (si_first io) st of
             (False, st1) \<Rightarrow> (Inl ''JWKS unavailable'', st1)
           | (True, st1) \<Rightarrow>
               (case findKey (si_again io) (jwtGetStr (jp_headerJson parts) ''kid'') st1 of
                  (Inl e, st2) \<Rightarrow> (Inl e, st2)
                | (Inr key, st2) \<Rightarrow> (checkToken sx (si_time io) key parts allowedAuds expectedNonceHash, st2))))"

definition sweepPending :: "int \<Rightarrow> SiwaValidator \<Rightarrow> SiwaValidator" where
  "sweepPending now st = st\<lparr> sv_pending := erase_if (\<lambda>_ p. now > snd p) (sv_pending st) \<rparr>"

definition kTenMinutes :: int where "kTenMinutes = 10 * 60 * kSec"

text \<open>The state value, the URL and the new state.\<close>

definition beginFlow ::
  "SiwaCrypto \<Rightarrow> int \<Rightarrow> int \<Rightarrow> bytes \<Rightarrow> bytes \<Rightarrow> SiwaValidator \<Rightarrow> (string \<times> string) \<times> SiwaValidator" where
  "beginFlow sx sweepNow now stateBytes nonceBytes st0 =
     (let st = sweepPending sweepNow st0;
          state = hexEncode stateBytes;
          nonceRaw = hexEncode nonceBytes
      in ((state, buildAuthorizeUrl (sc_serviceId (sv_cfg st)) (sc_redirectUri (sv_cfg st)) state (sha256Hex sx nonceRaw)),
          st\<lparr> sv_pending := AList.update state (nonceRaw, now + kTenMinutes) (sv_pending st) \<rparr>))"

definition verifyCallback ::
  "SiwaCrypto \<Rightarrow> int \<Rightarrow> SiwaIO \<Rightarrow> string \<Rightarrow> string \<Rightarrow> string list \<Rightarrow> SiwaValidator \<Rightarrow> (string + string \<times> string) \<times> SiwaValidator" where
  "verifyCallback sx sweepNow io state idToken allowedAuds st0 =
     (let st = sweepPending sweepNow st0 in
      case map_of (sv_pending st) state of None \<Rightarrow> (Inl ''unknown or expired state'', st)
      | Some (nonceRaw, _) \<Rightarrow>
          verifyJwt sx io idToken allowedAuds (sha256Hex sx nonceRaw) (st\<lparr> sv_pending := erase state (sv_pending st) \<rparr>))"

definition replayKey :: "string \<Rightarrow> u64 \<Rightarrow> string" where
  "replayKey sub exp = sub @ '':'' @ show_int (sint exp)"

definition verifyNative ::
  "SiwaCrypto \<Rightarrow> int \<Rightarrow> SiwaIO \<Rightarrow> string \<Rightarrow> string list \<Rightarrow> SiwaValidator \<Rightarrow> (string + string \<times> string) \<times> SiwaValidator" where
  "verifyNative sx pruneTime io idToken allowedAuds st =
     (case parseJwt idToken of None \<Rightarrow> (Inl ''malformed JWT'', st)
      | Some parts \<Rightarrow>
          (let sub = jwtGetStr (jp_payloadJson parts) ''sub'';
               exp = jwtGetLong (jp_payloadJson parts) ''exp'';
               keyed = (sub \<noteq> [] \<and> sint exp > 0);
               st1 = (if keyed
                 then st\<lparr> sv_nativeReplayCache := erase_if (\<lambda>_ e. pruneTime > sint (e + 60)) (sv_nativeReplayCache st) \<rparr>
                 else st)
           in if keyed \<and> has_key (replayKey sub exp) (sv_nativeReplayCache st1) then (Inl ''token replay detected'', st1)
              else case verifyJwt sx io idToken allowedAuds [] st1 of
                (Inl e, st2) \<Rightarrow> (Inl e, st2)
              | (Inr r, st2) \<Rightarrow>
                  (Inr r, if keyed
                     then st2\<lparr> sv_nativeReplayCache := AList.update (replayKey sub exp) exp (sv_nativeReplayCache st2) \<rparr>
                     else st2)))"

section \<open>The handlers\<close>

text \<open>The validator, the administrators if any are configured, and the sessions.\<close>

record SiwaServer =
  ss_validator :: SiwaValidator
  ss_admins :: "SiwaAdminStore option"
  ss_sessions :: Sessions

text \<open>What a login request brings along: clocks, the key server, the random token, whether the administrators'
  file can be written.\<close>

record LoginIO =
  li_now :: int
  li_jwks :: SiwaIO
  li_saveOk :: bool
  li_sweep :: int
  li_session :: int
  li_token :: bytes

text \<open>A response is a status, its headers and a body.\<close>

type_synonym LoginResponse = "nat \<times> (string \<times> string) list \<times> string"

definition sessionCookie :: "string \<Rightarrow> string \<times> string" where
  "sessionCookie token = (''Set-Cookie'', ''ntm_session='' @ token @ ''; HttpOnly; Secure; SameSite=Strict; Path=/; Max-Age=86400'')"

definition appleStart :: "SiwaCrypto \<Rightarrow> int \<Rightarrow> int \<Rightarrow> bytes \<Rightarrow> bytes \<Rightarrow> SiwaServer \<Rightarrow> LoginResponse \<times> SiwaServer" where
  "appleStart sx sweepNow now stateBytes nonceBytes s =
     (case beginFlow sx sweepNow now stateBytes nonceBytes (ss_validator s) of ((state, url), v) \<Rightarrow>
        ((302, [(''Set-Cookie'', ''ntm_siwa_state='' @ state @
                  ''; HttpOnly; Secure; SameSite=None; Path=/auth/apple/callback; Max-Age=600''),
                (''Location'', url)], []),
         s\<lparr> ss_validator := v \<rparr>))"

text \<open>The role and the session of a verified identity.\<close>

definition openSession ::
  "SessionCfg \<Rightarrow> LoginIO \<Rightarrow> string \<Rightarrow> string \<Rightarrow> SiwaServer \<Rightarrow> (bool \<times> string) \<times> SiwaServer" where
  "openSession cfg io sub email s =
     (let r = (case ss_admins s of None \<Rightarrow> (False, None)
               | Some a \<Rightarrow> (case matchAndPin (li_saveOk io) sub email a of (b, a') \<Rightarrow> (b, Some a')));
          token = toBase64url (li_token io)
      in ((fst r, token),
          s\<lparr> ss_admins := snd r,
             ss_sessions := createIdentitySession cfg (li_sweep io) (li_session io) token sub (fst r) (ss_sessions s) \<rparr>))"

definition appleCallback ::
  "SiwaCrypto \<Rightarrow> SessionCfg \<Rightarrow> LoginIO \<Rightarrow> string \<Rightarrow> string \<Rightarrow> SiwaServer \<Rightarrow> LoginResponse \<times> SiwaServer" where
  "appleCallback sx cfg io state idToken s =
     (if state = [] \<or> idToken = [] then ((400, [], ''Bad callback: missing state or id_token''), s)
      else case verifyCallback sx (li_now io) (li_jwks io) state idToken
                  [sc_serviceId (sv_cfg (ss_validator s))] (ss_validator s) of
        (Inl e, v) \<Rightarrow> ((401, [], ''Sign in with Apple failed: '' @ e), s\<lparr> ss_validator := v \<rparr>)
      | (Inr (sub, email), v) \<Rightarrow>
          (case openSession cfg io sub email (s\<lparr> ss_validator := v \<rparr>) of ((isAdmin, token), s') \<Rightarrow>
             let dest = (if isAdmin then ''/admin'' else ''/'') in
             ((200, [sessionCookie token,
                     (''Set-Cookie'', ''ntm_siwa_state=; HttpOnly; Secure; SameSite=None; Path=/auth/apple/callback; Max-Age=0; Expires=Thu, 01 Jan 1970 00:00:00 GMT'')],
               ''<!DOCTYPE html><html><head><meta http-equiv='' @ [CHR 0x27] @ ''refresh'' @ [CHR 0x27] @ '' content='' @ [CHR 0x27]
               @ ''0;url='' @ dest @ [CHR 0x27] @ ''></head><body><script>location.replace('' @ [CHR 0x27] @ dest @ [CHR 0x27]
               @ '')</script></body></html>''), s')))"

definition appleNative ::
  "SiwaCrypto \<Rightarrow> SessionCfg \<Rightarrow> LoginIO \<Rightarrow> string \<Rightarrow> SiwaServer \<Rightarrow> LoginResponse \<times> SiwaServer" where
  "appleNative sx cfg io body s =
     (let idToken = jsonGetString body ''identity_token'';
          c = sv_cfg (ss_validator s);
          auds = [sc_serviceId c] @ (if sc_iosBundleId c = [] then [] else [sc_iosBundleId c])
      in if idToken = [] then ((400, [], ''{\"error\":\"identity_token required\"}'' @ [LF]), s)
         else case verifyNative sx (li_now io) (li_jwks io) idToken auds (ss_validator s) of
           (Inl e, v) \<Rightarrow> ((401, [], ''{\"error\":\"'' @ jsonEsc e @ ''\"}'' @ [LF]), s\<lparr> ss_validator := v \<rparr>)
         | (Inr (sub, email), v) \<Rightarrow>
             (case openSession cfg io sub email (s\<lparr> ss_validator := v \<rparr>) of ((isAdmin, token), s') \<Rightarrow>
                ((200, [], ''{\"ok\":true,\"token\":\"'' @ token @ ''\",\"role\":\"''
                   @ (if isAdmin then ''admin'' else ''user'') @ ''\"}'' @ [LF]), s')))"

section \<open>Lemmas: verification of a token\<close>

text \<open>What a verified token says.\<close>

definition tokenProves :: "SiwaCrypto \<Rightarrow> int \<Rightarrow> SiwaJwksKey \<Rightarrow> JwtParts \<Rightarrow> string list \<Rightarrow> string \<Rightarrow> string \<Rightarrow> string \<Rightarrow> bool" where
  "tokenProves sx now key parts auds nonceHash sub email \<longleftrightarrow>
     jwtGetStr (jp_headerJson parts) ''alg'' = ''RS256'' \<and> jwtGetStr (jp_headerJson parts) ''kid'' = jk_kid key \<and>
     rsaVerifyRS256 sx key (jp_signingInput parts) (jp_sigB64 parts) \<and>
     jwtGetStr (jp_payloadJson parts) ''iss'' = ''https://appleid.apple.com'' \<and>
     jwtGetStr (jp_payloadJson parts) ''aud'' \<in> set auds \<and>
     jwtGetLong (jp_payloadJson parts) ''exp'' \<noteq> 0 \<and> now \<le> sint (jwtGetLong (jp_payloadJson parts) ''exp'' + 30) \<and>
     (nonceHash \<noteq> [] \<longrightarrow> jwtGetStr (jp_payloadJson parts) ''nonce'' = nonceHash) \<and>
     jwtGetStr (jp_payloadJson parts) ''sub'' = sub \<and> sub \<noteq> [] \<and>
     jwtGetStr (jp_payloadJson parts) ''email'' = email"

lemma checkToken_Inr:
  assumes "checkToken sx now key parts auds nh = Inr (sub, email)"
    "jwtGetStr (jp_headerJson parts) ''alg'' = ''RS256''" "jwtGetStr (jp_headerJson parts) ''kid'' = jk_kid key"
  shows "tokenProves sx now key parts auds nh sub email"
  using assms unfolding checkToken_def tokenProves_def validateAppleClaims_def Let_def
  by (auto split: if_splits)

definition honest_fetch :: "SiwaJwksKey set \<Rightarrow> JwksTry \<Rightarrow> bool" where
  "honest_fetch published t \<longleftrightarrow>
     (case jt_fetch t of FetchBusy ks e \<Rightarrow> set ks \<subseteq> published | FetchFailed \<Rightarrow> True
      | FetchHttp c body \<Rightarrow> c = 200 \<longrightarrow> set (parseJwksJson body) \<subseteq> published)"

definition honest_io :: "SiwaJwksKey set \<Rightarrow> SiwaIO \<Rightarrow> bool" where
  "honest_io published io \<longleftrightarrow> honest_fetch published (si_first io) \<and> honest_fetch published (si_again io)"

text \<open>Only the cache of keys changes, and it holds published keys only.\<close>

definition jwks_step :: "SiwaJwksKey set \<Rightarrow> SiwaValidator \<Rightarrow> SiwaValidator \<Rightarrow> bool" where
  "jwks_step published st st' \<longleftrightarrow>
     sv_pending st' = sv_pending st \<and> sv_nativeReplayCache st' = sv_nativeReplayCache st \<and> sv_cfg st' = sv_cfg st \<and>
     (set (sv_jwksKeys st) \<subseteq> published \<longrightarrow> set (sv_jwksKeys st') \<subseteq> published)"

lemma jwks_step_refl [simp]: "jwks_step P st st"
  by (simp add: jwks_step_def)

lemma jwks_step_trans: "jwks_step P a b \<Longrightarrow> jwks_step P b c \<Longrightarrow> jwks_step P a c"
  by (simp add: jwks_step_def)

lemma jwks_step_clear: "jwks_step P (st\<lparr> sv_jwksKeys := [] \<rparr>) st' \<Longrightarrow> jwks_step P st st'"
  by (simp add: jwks_step_def)

lemma ensureJwks_step: "honest_fetch P t \<Longrightarrow> ensureJwks t st = (b, st') \<Longrightarrow> jwks_step P st st'"
  by (auto simp: ensureJwks_def honest_fetch_def jwks_step_def Let_def split: if_splits JwksFetch.splits)

lemma findKey_step:
  assumes "honest_fetch P t" "findKey t kid st = (r, st')"
  shows "jwks_step P st st'" "r = Inr key \<Longrightarrow> key \<in> set (sv_jwksKeys st') \<and> jk_kid key = kid"
proof -
  have "jwks_step P st st' \<and> (\<forall>key. r = Inr key \<longrightarrow> key \<in> set (sv_jwksKeys st') \<and> jk_kid key = kid)"
  proof (cases "find (\<lambda>k. jk_kid k = kid) (sv_jwksKeys st)")
    case (Some k)
    with assms(2) show ?thesis by (auto simp: findKey_def find_Some_iff)
  next
    case None
    obtain b st1 where e: "ensureJwks t (st\<lparr> sv_jwksKeys := [] \<rparr>) = (b, st1)" by (cases "ensureJwks t (st\<lparr> sv_jwksKeys := [] \<rparr>)")
    have "jwks_step P st st1" by (rule jwks_step_clear [OF ensureJwks_step [OF assms(1) e]])
    with assms(2) None e show ?thesis by (auto simp: findKey_def find_Some_iff split: bool.splits option.splits)
  qed
  then show "jwks_step P st st'" "r = Inr key \<Longrightarrow> key \<in> set (sv_jwksKeys st') \<and> jk_kid key = kid" by blast+
qed

lemma verifyJwt_step:
  assumes "honest_io P io" "verifyJwt sx io tok auds nh st = (r, st')"
  shows "jwks_step P st st'"
    "r = Inr (sub, email) \<Longrightarrow> \<exists>parts key. parseJwt tok = Some parts \<and> key \<in> set (sv_jwksKeys st') \<and>
       tokenProves sx (si_time io) key parts auds nh sub email"
proof -
  have "jwks_step P st st' \<and> (r = Inr (sub, email) \<longrightarrow> (\<exists>parts key. parseJwt tok = Some parts \<and>
      key \<in> set (sv_jwksKeys st') \<and> tokenProves sx (si_time io) key parts auds nh sub email))"
  proof (cases "parseJwt tok")
    case None
    with assms(2) show ?thesis by (auto simp: verifyJwt_def)
  next
    case (Some parts)
    show ?thesis
    proof (cases "jwtGetStr (jp_headerJson parts) ''alg'' = ''RS256''")
      case False
      with assms(2) Some show ?thesis by (auto simp: verifyJwt_def Let_def)
    next
      case alg: True
      obtain b st1 where e: "ensureJwks (si_first io) st = (b, st1)" by (cases "ensureJwks (si_first io) st")
      obtain q st2 where k: "findKey (si_again io) (jwtGetStr (jp_headerJson parts) ''kid'') st1 = (q, st2)"
        by (cases "findKey (si_again io) (jwtGetStr (jp_headerJson parts) ''kid'') st1")
      have s1: "jwks_step P st st1" using assms(1) ensureJwks_step [OF _ e] by (simp add: honest_io_def)
      have h: "honest_fetch P (si_again io)" using assms(1) by (simp add: honest_io_def)
      note s2 = findKey_step [OF h k]
      from assms(2) Some alg e k s1 jwks_step_trans [OF s1 s2(1)] s2(2) checkToken_Inr [OF _ alg]
      show ?thesis by (auto simp: verifyJwt_def Let_def split: bool.splits sum.splits)
    qed
  qed
  then show "jwks_step P st st'"
    "r = Inr (sub, email) \<Longrightarrow> \<exists>parts key. parseJwt tok = Some parts \<and> key \<in> set (sv_jwksKeys st') \<and>
       tokenProves sx (si_time io) key parts auds nh sub email" by blast+
qed

section \<open>Histories\<close>

text \<open>What happened, the latest event first: web sign-ins begun and ended, native tokens accepted.\<close>

datatype SiwaEvent = FlowBegun string string int | FlowEnded string | NativeOk string u64

fun flow_of :: "SiwaEvent list \<Rightarrow> string \<Rightarrow> (string \<times> int) option" where
  "flow_of [] k = None"
| "flow_of (FlowBegun k' nonce t # log) k = (if k' = k then Some (nonce, t) else flow_of log k)"
| "flow_of (FlowEnded k' # log) k = (if k' = k then None else flow_of log k)"
| "flow_of (_ # log) k = flow_of log k"

text \<open>The subject and the expiry of a token, as the replay cache records them.\<close>

definition tokenId :: "string \<Rightarrow> (string \<times> u64) option" where
  "tokenId tok = map_option (\<lambda>p. (jwtGetStr (jp_payloadJson p) ''sub'', jwtGetLong (jp_payloadJson p) ''exp'')) (parseJwt tok)"

text \<open>The system clock of the native sign-ins does not go back; \<open>now\<close> is its latest reading.\<close>

inductive siwa_run ::
  "SiwaCrypto \<Rightarrow> SessionCfg \<Rightarrow> SiwaJwksKey set \<Rightarrow> SiwaServer \<Rightarrow> SiwaEvent list \<Rightarrow> int \<Rightarrow> bool"
  for sx cfg published where
  start: "ss_validator s = initValidator c \<Longrightarrow> siwa_run sx cfg published s [] now"
| begin_flow: "siwa_run sx cfg published s log now \<Longrightarrow> appleStart sx t0 t sb nb s = (resp, s') \<Longrightarrow>
    siwa_run sx cfg published s' (FlowBegun (hexEncode sb) (hexEncode nb) t # log) now"
| callback: "siwa_run sx cfg published s log now \<Longrightarrow> honest_io published (li_jwks io) \<Longrightarrow>
    appleCallback sx cfg io state tok s = ((code, hs, body), s') \<Longrightarrow> code \<noteq> 400 \<Longrightarrow>
    siwa_run sx cfg published s' (FlowEnded state # log) now"
| native_ok: "siwa_run sx cfg published s log now \<Longrightarrow> honest_io published (li_jwks io) \<Longrightarrow>
    now \<le> li_now io \<Longrightarrow> li_now io \<le> si_time (li_jwks io) \<Longrightarrow>
    appleNative sx cfg io reqBody s = ((200, hs, body), s') \<Longrightarrow>
    tokenId (jsonGetString reqBody ''identity_token'') = Some (sub, exp) \<Longrightarrow>
    siwa_run sx cfg published s' (NativeOk sub exp # log) (si_time (li_jwks io))"
| native_failed: "siwa_run sx cfg published s log now \<Longrightarrow> honest_io published (li_jwks io) \<Longrightarrow>
    now \<le> li_now io \<Longrightarrow> li_now io \<le> si_time (li_jwks io) \<Longrightarrow>
    appleNative sx cfg io reqBody s = ((code, hs, body), s') \<Longrightarrow> code \<noteq> 200 \<Longrightarrow>
    siwa_run sx cfg published s' log (si_time (li_jwks io))"
| sessions: "siwa_run sx cfg published s log now \<Longrightarrow> siwa_run sx cfg published (s\<lparr> ss_sessions := m \<rparr>) log now"

section \<open>Lemmas: the invariant of the histories\<close>

text \<open>An accepted native token is remembered for a minute after it expires; \<open>exp + 60\<close> must not overflow.\<close>

definition replay_ok :: "SiwaValidator \<Rightarrow> SiwaEvent list \<Rightarrow> int \<Rightarrow> bool" where
  "replay_ok v log now \<longleftrightarrow>
     (\<forall>sub exp. NativeOk sub exp \<in> set log \<longrightarrow> 0 < sint exp \<longrightarrow> sint exp < 2 ^ 63 - 60 \<longrightarrow> now \<le> sint exp + 60 \<longrightarrow>
        map_of (sv_nativeReplayCache v) (replayKey sub exp) = Some exp)"

definition siwa_ok :: "SiwaJwksKey set \<Rightarrow> SiwaServer \<Rightarrow> SiwaEvent list \<Rightarrow> int \<Rightarrow> bool" where
  "siwa_ok published s log now \<longleftrightarrow>
     set (sv_jwksKeys (ss_validator s)) \<subseteq> published \<and>
     keys_ok (sv_pending (ss_validator s)) \<and>
     (\<forall>k nonce e. map_of (sv_pending (ss_validator s)) k = Some (nonce, e) \<longrightarrow> flow_of log k = Some (nonce, e - kTenMinutes)) \<and>
     keys_ok (sv_nativeReplayCache (ss_validator s)) \<and>
     replay_ok (ss_validator s) log now"

lemma show_nat_inj: "show_nat a = show_nat b \<Longrightarrow> a = b"
  by (metis dec_val_show_nat)

lemma replayKey_inj:
  assumes "replayKey a x = replayKey b y" "0 < sint x" "0 < sint y"
  shows "a = b \<and> x = y"
proof -
  have digits: "CHR '':'' \<notin> set (show_nat n)" for n
    using show_nat_digits [of n] by (auto simp: is_digit_iff code_of_def)
  have eq: "a @ CHR '':'' # show_nat (nat (sint x)) = b @ CHR '':'' # show_nat (nat (sint y))"
    using assms by (simp add: replayKey_def show_int_def)
  then have "rfind_ch CHR '':'' (a @ CHR '':'' # show_nat (nat (sint x))) = Some (length b)"
    by (simp add: rfind_ch_append digits)
  then have "length a = length b" by (simp add: rfind_ch_append digits)
  with eq have "a = b" "show_nat (nat (sint x)) = show_nat (nat (sint y))" by auto
  moreover from this(2) have "nat (sint x) = nat (sint y)" by (rule show_nat_inj)
  ultimately show ?thesis using assms(2,3) signed_word_eqI [of x y] by (simp add: nat_eq_iff)
qed

lemma sint_add_60: "sint (e :: u64) < 2 ^ 63 - 60 \<Longrightarrow> 0 < sint e \<Longrightarrow> sint (e + 60) = sint e + 60"
  by (simp add: sint_word_ariths signed_take_bit_int_eq_self)

lemma sint_add_30: "sint (e :: u64) < 2 ^ 63 - 60 \<Longrightarrow> 0 < sint e \<Longrightarrow> sint (e + 30) = sint e + 30"
  by (simp add: sint_word_ariths signed_take_bit_int_eq_self)

lemma sweepPending_same [simp]:
  "sv_jwksKeys (sweepPending t v) = sv_jwksKeys v" "sv_nativeReplayCache (sweepPending t v) = sv_nativeReplayCache v"
  "sv_cfg (sweepPending t v) = sv_cfg v" "sv_pending (sweepPending t v) = erase_if (\<lambda>_ p. t > snd p) (sv_pending v)"
  by (simp_all add: sweepPending_def)

lemma verifyCallback_step:
  assumes io: "honest_io P io" and run: "verifyCallback sx t io state tok auds st = (r, st')"
    and ok: "keys_ok (sv_pending st)"
  shows "set (sv_jwksKeys st) \<subseteq> P \<Longrightarrow> set (sv_jwksKeys st') \<subseteq> P"
    "sv_nativeReplayCache st' = sv_nativeReplayCache st" "sv_cfg st' = sv_cfg st" "keys_ok (sv_pending st')"
    "map_of (sv_pending st') = (map_of (sv_pending (sweepPending t st)))(state := None)"
    "r = Inr (sub, email) \<Longrightarrow> \<exists>nonce e parts key. map_of (sv_pending (sweepPending t st)) state = Some (nonce, e) \<and>
       parseJwt tok = Some parts \<and> key \<in> set (sv_jwksKeys st') \<and>
       tokenProves sx (si_time io) key parts auds (sha256Hex sx nonce) sub email"
proof -
  define st1 where "st1 = sweepPending t st"
  have "(set (sv_jwksKeys st) \<subseteq> P \<longrightarrow> set (sv_jwksKeys st') \<subseteq> P) \<and>
    sv_nativeReplayCache st' = sv_nativeReplayCache st \<and> sv_cfg st' = sv_cfg st \<and> keys_ok (sv_pending st') \<and>
    map_of (sv_pending st') = (map_of (sv_pending st1))(state := None) \<and>
    (r = Inr (sub, email) \<longrightarrow> (\<exists>nonce e parts key. map_of (sv_pending st1) state = Some (nonce, e) \<and>
       parseJwt tok = Some parts \<and> key \<in> set (sv_jwksKeys st') \<and>
       tokenProves sx (si_time io) key parts auds (sha256Hex sx nonce) sub email))"
  proof (cases "map_of (sv_pending st1) state")
    case None
    then have "(map_of (sv_pending st1))(state := None) = map_of (sv_pending st1)" by auto
    with run None ok show ?thesis by (auto simp: verifyCallback_def Let_def st1_def)
  next
    case (Some p)
    obtain nonce e where p: "p = (nonce, e)" by (cases p)
    let ?v = "st1\<lparr> sv_pending := erase state (sv_pending st1) \<rparr>"
    from run Some have v: "verifyJwt sx io tok auds (sha256Hex sx nonce) ?v = (r, st')"
      by (simp add: verifyCallback_def Let_def st1_def p)
    from verifyJwt_step [OF io v] Some p show ?thesis using ok
      by (auto simp: jwks_step_def st1_def map_of_erase)
  qed
  then show "set (sv_jwksKeys st) \<subseteq> P \<Longrightarrow> set (sv_jwksKeys st') \<subseteq> P"
    "sv_nativeReplayCache st' = sv_nativeReplayCache st" "sv_cfg st' = sv_cfg st" "keys_ok (sv_pending st')"
    "map_of (sv_pending st') = (map_of (sv_pending (sweepPending t st)))(state := None)"
    "r = Inr (sub, email) \<Longrightarrow> \<exists>nonce e parts key. map_of (sv_pending (sweepPending t st)) state = Some (nonce, e) \<and>
       parseJwt tok = Some parts \<and> key \<in> set (sv_jwksKeys st') \<and>
       tokenProves sx (si_time io) key parts auds (sha256Hex sx nonce) sub email"
    unfolding st1_def [symmetric] by blast+
qed

text \<open>The cache after the pruning of a native sign-in.\<close>

definition prunedCache :: "int \<Rightarrow> SiwaValidator \<Rightarrow> SiwaValidator" where
  "prunedCache t st = st\<lparr> sv_nativeReplayCache := erase_if (\<lambda>_ e. t > sint (e + 60)) (sv_nativeReplayCache st) \<rparr>"

lemma verifyNative_step:
  assumes io: "honest_io P io" and run: "verifyNative sx t io tok auds st = (r, st')"
  shows "set (sv_jwksKeys st) \<subseteq> P \<Longrightarrow> set (sv_jwksKeys st') \<subseteq> P"
    "sv_pending st' = sv_pending st" "sv_cfg st' = sv_cfg st"
    "r = Inl e \<Longrightarrow> sv_nativeReplayCache st' = sv_nativeReplayCache st \<or>
       sv_nativeReplayCache st' = sv_nativeReplayCache (prunedCache t st)"
    "r = Inr (sub, email) \<Longrightarrow> \<exists>exp parts key. tokenId tok = Some (sub, exp) \<and> parseJwt tok = Some parts \<and>
       key \<in> set (sv_jwksKeys st') \<and> tokenProves sx (si_time io) key parts auds [] sub email \<and>
       (0 < sint exp \<longrightarrow> \<not> has_key (replayKey sub exp) (sv_nativeReplayCache (prunedCache t st)) \<and>
          sv_nativeReplayCache st' = AList.update (replayKey sub exp) exp (sv_nativeReplayCache (prunedCache t st))) \<and>
       (\<not> 0 < sint exp \<longrightarrow> sv_nativeReplayCache st' = sv_nativeReplayCache st)"
proof -
  have "(set (sv_jwksKeys st) \<subseteq> P \<longrightarrow> set (sv_jwksKeys st') \<subseteq> P) \<and> sv_pending st' = sv_pending st \<and> sv_cfg st' = sv_cfg st \<and>
    (r = Inl e \<longrightarrow> sv_nativeReplayCache st' = sv_nativeReplayCache st \<or>
       sv_nativeReplayCache st' = sv_nativeReplayCache (prunedCache t st)) \<and>
    (r = Inr (sub, email) \<longrightarrow> (\<exists>exp parts key. tokenId tok = Some (sub, exp) \<and> parseJwt tok = Some parts \<and>
       key \<in> set (sv_jwksKeys st') \<and> tokenProves sx (si_time io) key parts auds [] sub email \<and>
       (0 < sint exp \<longrightarrow> \<not> has_key (replayKey sub exp) (sv_nativeReplayCache (prunedCache t st)) \<and>
          sv_nativeReplayCache st' = AList.update (replayKey sub exp) exp (sv_nativeReplayCache (prunedCache t st))) \<and>
       (\<not> 0 < sint exp \<longrightarrow> sv_nativeReplayCache st' = sv_nativeReplayCache st)))"
  proof (cases "parseJwt tok")
    case None
    with run show ?thesis by (auto simp: verifyNative_def)
  next
    case (Some parts)
    define s where "s = jwtGetStr (jp_payloadJson parts) ''sub''"
    define x where "x = jwtGetLong (jp_payloadJson parts) ''exp''"
    define keyed where "keyed \<longleftrightarrow> s \<noteq> [] \<and> sint x > 0"
    define st1 where "st1 = (if keyed then prunedCache t st else st)"
    have id: "tokenId tok = Some (s, x)" by (simp add: tokenId_def Some s_def x_def)
    obtain q st2 where v: "verifyJwt sx io tok auds [] st1 = (q, st2)" by (cases "verifyJwt sx io tok auds [] st1")
    have unf: "verifyNative sx t io tok auds st = (if keyed \<and> has_key (replayKey s x) (sv_nativeReplayCache st1)
        then (Inl ''token replay detected'', st1)
        else case verifyJwt sx io tok auds [] st1 of (Inl e, st2) \<Rightarrow> (Inl e, st2)
          | (Inr r, st2) \<Rightarrow> (Inr r, if keyed
               then st2\<lparr> sv_nativeReplayCache := AList.update (replayKey s x) x (sv_nativeReplayCache st2) \<rparr> else st2))"
      unfolding verifyNative_def Some option.case Let_def st1_def prunedCache_def keyed_def s_def x_def by (rule refl)
    note V = verifyJwt_step [OF io v]
    have j: "jwks_step P st1 st2" by (rule V(1))
    have sub: "q = Inr (a, b) \<Longrightarrow> a = s \<and> s \<noteq> []" for a b
      using V(2) [of a b] Some by (auto simp: tokenProves_def s_def)
    from run [unfolded unf v] j V(2) Some id sub show ?thesis
      by (auto simp: jwks_step_def st1_def prunedCache_def keyed_def split: sum.splits if_splits)
  qed
  then show "set (sv_jwksKeys st) \<subseteq> P \<Longrightarrow> set (sv_jwksKeys st') \<subseteq> P"
    "sv_pending st' = sv_pending st" "sv_cfg st' = sv_cfg st"
    "r = Inl e \<Longrightarrow> sv_nativeReplayCache st' = sv_nativeReplayCache st \<or>
       sv_nativeReplayCache st' = sv_nativeReplayCache (prunedCache t st)"
    "r = Inr (sub, email) \<Longrightarrow> \<exists>exp parts key. tokenId tok = Some (sub, exp) \<and> parseJwt tok = Some parts \<and>
       key \<in> set (sv_jwksKeys st') \<and> tokenProves sx (si_time io) key parts auds [] sub email \<and>
       (0 < sint exp \<longrightarrow> \<not> has_key (replayKey sub exp) (sv_nativeReplayCache (prunedCache t st)) \<and>
          sv_nativeReplayCache st' = AList.update (replayKey sub exp) exp (sv_nativeReplayCache (prunedCache t st))) \<and>
       (\<not> 0 < sint exp \<longrightarrow> sv_nativeReplayCache st' = sv_nativeReplayCache st)"
    by blast+
qed

lemma openSession_validator: "openSession cfg io sub email s = ((b, tok), s') \<Longrightarrow> ss_validator s' = ss_validator s"
  by (auto simp: openSession_def Let_def)

lemma appleCallback_cases:
  assumes "appleCallback sx cfg io state tok s = ((code, hs, body), s')" "code \<noteq> 400"
  obtains r where "verifyCallback sx (li_now io) (li_jwks io) state tok [sc_serviceId (sv_cfg (ss_validator s))]
      (ss_validator s) = (r, ss_validator s')"
    "code = 200 \<longleftrightarrow> (\<exists>x. r = Inr x)"
    "\<forall>sub email. r = Inr (sub, email) \<longrightarrow> (\<exists>b t. openSession cfg io sub email (s\<lparr> ss_validator := ss_validator s' \<rparr>) = ((b, t), s') \<and>
       hs ! 0 = sessionCookie t)"
proof -
  obtain r v where v: "verifyCallback sx (li_now io) (li_jwks io) state tok [sc_serviceId (sv_cfg (ss_validator s))]
      (ss_validator s) = (r, v)" by (cases "verifyCallback sx (li_now io) (li_jwks io) state tok [sc_serviceId (sv_cfg (ss_validator s))] (ss_validator s)")
  show thesis
  proof (cases r)
    case (Inl e)
    with assms v have "ss_validator s' = v" "code = 401" by (auto simp: appleCallback_def split: if_splits)
    with v Inl show thesis by (intro that [of r]) auto
  next
    case (Inr x)
    obtain sub email where x: "x = (sub, email)" by (cases x)
    obtain b t s2 where o: "openSession cfg io sub email (s\<lparr> ss_validator := v \<rparr>) = ((b, t), s2)"
      by (cases "openSession cfg io sub email (s\<lparr> ss_validator := v \<rparr>)") auto
    from assms v Inr x o have "s' = s2" "code = 200" "hs ! 0 = sessionCookie t"
      by (auto simp: appleCallback_def Let_def split: if_splits)
    moreover from openSession_validator [OF o] have "ss_validator s2 = v" by simp
    ultimately show thesis using v Inr x o by (intro that [of r]) auto
  qed
qed

lemma appleNative_cases:
  assumes "appleNative sx cfg io reqBody s = ((code, hs, body), s')" "code \<noteq> 400"
  obtains r auds where "verifyNative sx (li_now io) (li_jwks io) (jsonGetString reqBody ''identity_token'') auds
      (ss_validator s) = (r, ss_validator s')"
    "code = 200 \<longleftrightarrow> (\<exists>x. r = Inr x)"
    "set auds \<subseteq> {sc_serviceId (sv_cfg (ss_validator s)), sc_iosBundleId (sv_cfg (ss_validator s))}"
proof -
  define auds where "auds = [sc_serviceId (sv_cfg (ss_validator s))] @
    (if sc_iosBundleId (sv_cfg (ss_validator s)) = [] then [] else [sc_iosBundleId (sv_cfg (ss_validator s))])"
  define tok where "tok = jsonGetString reqBody ''identity_token''"
  have a: "set auds \<subseteq> {sc_serviceId (sv_cfg (ss_validator s)), sc_iosBundleId (sv_cfg (ss_validator s))}"
    by (simp add: auds_def)
  obtain r v where v: "verifyNative sx (li_now io) (li_jwks io) tok auds (ss_validator s) = (r, v)"
    by (cases "verifyNative sx (li_now io) (li_jwks io) tok auds (ss_validator s)")
  have unf: "appleNative sx cfg io reqBody s =
      (if tok = [] then ((400, [], ''{\"error\":\"identity_token required\"}'' @ [LF]), s)
       else case verifyNative sx (li_now io) (li_jwks io) tok auds (ss_validator s) of
           (Inl e, v) \<Rightarrow> ((401, [], ''{\"error\":\"'' @ jsonEsc e @ ''\"}'' @ [LF]), s\<lparr> ss_validator := v \<rparr>)
         | (Inr (sub, email), v) \<Rightarrow>
             (case openSession cfg io sub email (s\<lparr> ss_validator := v \<rparr>) of ((isAdmin, token), s') \<Rightarrow>
                ((200, [], ''{\"ok\":true,\"token\":\"'' @ token @ ''\",\"role\":\"''
                   @ (if isAdmin then ''admin'' else ''user'') @ ''\"}'' @ [LF]), s')))"
    unfolding appleNative_def Let_def auds_def tok_def by (rule refl)
  have tok: "tok \<noteq> []" using assms by (auto simp: unf)
  show thesis
  proof (cases r)
    case (Inl e)
    with assms v tok have "ss_validator s' = v" "code = 401" by (auto simp: unf)
    with v Inl a show thesis by (intro that [of auds r]) (auto simp: tok_def)
  next
    case (Inr x)
    obtain sub email where x: "x = (sub, email)" by (cases x)
    obtain b t s2 where o: "openSession cfg io sub email (s\<lparr> ss_validator := v \<rparr>) = ((b, t), s2)"
      by (cases "openSession cfg io sub email (s\<lparr> ss_validator := v \<rparr>)") auto
    from assms v Inr x o tok have "s' = s2" "code = 200" by (auto simp: unf)
    moreover from openSession_validator [OF o] have "ss_validator s2 = v" by simp
    ultimately show thesis using v Inr a by (intro that [of auds r]) (auto simp: tok_def)
  qed
qed

lemma appleNative_bad: "appleNative sx cfg io reqBody s = ((400, hs, body), s') \<Longrightarrow> s' = s"
  by (auto simp: appleNative_def Let_def split: if_splits prod.splits sum.splits)

lemma flow_of_upd: "flow_of (FlowBegun k n t # log) = (flow_of log)(k := Some (n, t))"
  "flow_of (FlowEnded k # log) = (flow_of log)(k := None)" "flow_of (NativeOk a b # log) = flow_of log"
  by (rule ext, simp)+

lemma replay_ok_mono:
  assumes "replay_ok v log now" "now \<le> now'" "sv_nativeReplayCache v' = sv_nativeReplayCache v"
  shows "replay_ok v' log now'"
  using assms unfolding replay_ok_def by force

lemma replay_ok_prune:
  assumes "replay_ok v log now" "now \<le> t" "keys_ok (sv_nativeReplayCache v)"
  shows "replay_ok (prunedCache t v) log t"
proof -
  have "map_of (sv_nativeReplayCache (prunedCache t v)) (replayKey sub exp) = Some exp"
    if mem: "NativeOk sub exp \<in> set log" and e: "0 < sint exp" "sint exp < 2 ^ 63 - 60" and t: "t \<le> sint exp + 60" for sub exp
  proof -
    have "map_of (sv_nativeReplayCache v) (replayKey sub exp) = Some exp"
      using assms mem e t unfolding replay_ok_def by force
    then show ?thesis using sint_add_60 [OF e(2,1)] t assms(3) by (simp add: prunedCache_def map_of_erase_if)
  qed
  then show ?thesis unfolding replay_ok_def by blast
qed

lemma replay_ok_accept:
  assumes ok: "replay_ok v log t" and t: "t \<le> now"
    and new: "0 < sint exp \<Longrightarrow> \<not> has_key (replayKey sub exp) (sv_nativeReplayCache v) \<and>
      sv_nativeReplayCache v' = AList.update (replayKey sub exp) exp (sv_nativeReplayCache v)"
    and old: "\<not> 0 < sint exp \<Longrightarrow> sv_nativeReplayCache v' = sv_nativeReplayCache v"
  shows "replay_ok v' (NativeOk sub exp # log) now"
proof -
  have "map_of (sv_nativeReplayCache v') (replayKey a y) = Some y"
    if mem: "NativeOk a y \<in> set (NativeOk sub exp # log)" and y: "0 < sint y" "sint y < 2 ^ 63 - 60" "now \<le> sint y + 60" for a y
  proof (cases "a = sub \<and> y = exp")
    case True
    then show ?thesis using new y(1) by (simp add: update_conv')
  next
    case False
    then have "map_of (sv_nativeReplayCache v) (replayKey a y) = Some y" using ok mem y t unfolding replay_ok_def by auto
    then have "has_key (replayKey a y) (sv_nativeReplayCache v)" by (auto simp: has_key_def)
    then show ?thesis
      using new old \<open>map_of (sv_nativeReplayCache v) (replayKey a y) = Some y\<close>
      by (cases "0 < sint exp") (auto simp: update_conv')
  qed
  then show ?thesis unfolding replay_ok_def by blast
qed

lemma callback_siwa_ok:
  assumes ok: "siwa_ok P s log now" and io: "honest_io P (li_jwks io)"
    and run: "appleCallback sx cfg io state tok s = ((code, hs, body), s')" "code \<noteq> 400"
  shows "siwa_ok P s' (FlowEnded state # log) now"
proof -
  from run obtain r where v: "verifyCallback sx (li_now io) (li_jwks io) state tok
      [sc_serviceId (sv_cfg (ss_validator s))] (ss_validator s) = (r, ss_validator s')" by (rule appleCallback_cases)
  have k: "keys_ok (sv_pending (ss_validator s))" using ok by (simp add: siwa_ok_def)
  note V = verifyCallback_step [OF io v k]
  have "flow_of (FlowEnded state # log) k = Some (nonce, e - kTenMinutes)"
    if "map_of (sv_pending (ss_validator s')) k = Some (nonce, e)" for k nonce e
    using ok that k unfolding V(5) siwa_ok_def flow_of_upd by (auto simp: map_of_erase_if split: option.splits if_splits)
  moreover have "replay_ok (ss_validator s') (FlowEnded state # log) now"
    using ok V(2) by (simp add: siwa_ok_def replay_ok_def)
  ultimately show ?thesis using ok V(1,2,4) by (simp add: siwa_ok_def)
qed

lemma native_siwa_ok:
  assumes ok: "siwa_ok P s log now" and io: "honest_io P (li_jwks io)"
    and time: "now \<le> li_now io" "li_now io \<le> si_time (li_jwks io)"
    and run: "appleNative sx cfg io reqBody s = ((code, hs, body), s')"
  shows "code = 200 \<Longrightarrow> tokenId (jsonGetString reqBody ''identity_token'') = Some (sub, exp) \<Longrightarrow>
      siwa_ok P s' (NativeOk sub exp # log) (si_time (li_jwks io))"
    "code \<noteq> 200 \<Longrightarrow> siwa_ok P s' log (si_time (li_jwks io))"
proof -
  let ?v = "ss_validator s" and ?v' = "ss_validator s'" and ?now = "si_time (li_jwks io)"
  have later: "now \<le> ?now" using time by simp
  have k: "keys_ok (sv_nativeReplayCache ?v)" "replay_ok ?v log now" using ok by (simp_all add: siwa_ok_def)
  note pr = replay_ok_prune [OF k(2) time(1) k(1)]
  have kp: "keys_ok (sv_nativeReplayCache (prunedCache (li_now io) ?v))" using k(1) by (simp add: prunedCache_def)
  show "siwa_ok P s' log ?now" if ne: "code \<noteq> 200"
  proof (cases "code = 400")
    case True
    then have "s' = s" using run appleNative_bad by blast
    then show ?thesis using ok replay_ok_mono [OF k(2) later refl] by (simp add: siwa_ok_def)
  next
    case False
    from run False obtain r auds where v: "verifyNative sx (li_now io) (li_jwks io)
        (jsonGetString reqBody ''identity_token'') auds ?v = (r, ?v')" "code = 200 \<longleftrightarrow> (\<exists>x. r = Inr x)"
      by (rule appleNative_cases)
    with ne obtain e where "r = Inl e" by (cases r) auto
    note V = verifyNative_step(1-3) [OF io v(1)] verifyNative_step(4) [OF io v(1) this]
    have "replay_ok ?v' log ?now \<and> keys_ok (sv_nativeReplayCache ?v')"
      using V(4) replay_ok_mono [OF k(2) later] replay_ok_mono [OF pr time(2)] k(1) kp by metis
    with ok V show ?thesis by (simp add: siwa_ok_def)
  qed
  show "siwa_ok P s' (NativeOk sub exp # log) ?now"
    if c: "code = 200" and id: "tokenId (jsonGetString reqBody ''identity_token'') = Some (sub, exp)"
  proof -
    have c400: "code \<noteq> 400" using c by simp
    from run c400 obtain r auds where v: "verifyNative sx (li_now io) (li_jwks io)
        (jsonGetString reqBody ''identity_token'') auds ?v = (r, ?v')" "code = 200 \<longleftrightarrow> (\<exists>x. r = Inr x)"
      by (rule appleNative_cases)
    then obtain x where x: "r = Inr x" using c by blast
    obtain sub' email where "x = (sub', email)" by (cases x)
    with x have r: "r = Inr (sub', email)" by simp
    note V = verifyNative_step(1-3) [OF io v(1)]
    from verifyNative_step(5) [OF io v(1) r] id
    have N: "0 < sint exp \<Longrightarrow> \<not> has_key (replayKey sub exp) (sv_nativeReplayCache (prunedCache (li_now io) ?v)) \<and>
        sv_nativeReplayCache ?v' = AList.update (replayKey sub exp) exp (sv_nativeReplayCache (prunedCache (li_now io) ?v))"
      "\<not> 0 < sint exp \<Longrightarrow> sv_nativeReplayCache ?v' = sv_nativeReplayCache ?v" by auto
    have "replay_ok ?v' (NativeOk sub exp # log) ?now \<and> keys_ok (sv_nativeReplayCache ?v')"
    proof (cases "0 < sint exp")
      case True
      then show ?thesis using replay_ok_accept [OF pr time(2), of exp sub ?v'] N(1) kp by simp
    next
      case False
      then show ?thesis using replay_ok_accept [OF k(2) later, of exp sub ?v'] N(2) k(1) by simp
    qed
    with ok V show ?thesis by (simp add: siwa_ok_def flow_of_upd)
  qed
qed

lemma siwa_run_ok: "siwa_run sx cfg P s log now \<Longrightarrow> siwa_ok P s log now"
proof (induction rule: siwa_run.induct)
  case (start s c now)
  then show ?case by (simp add: siwa_ok_def initValidator_def replay_ok_def)
next
  case (begin_flow s log now t0 t sb nb resp s')
  then show ?case
    by (auto simp: siwa_ok_def appleStart_def beginFlow_def Let_def flow_of_upd replay_ok_def update_conv' map_of_erase_if
        split: option.splits if_splits)
next
  case (sessions s log now m)
  then show ?case by (simp add: siwa_ok_def)
qed (blast intro: callback_siwa_ok native_siwa_ok)+

section \<open>Lemmas: administrators\<close>

lemma findIndex_Some: "findIndex P xs = Some i \<Longrightarrow> i < length xs \<and> P (xs ! i)"
  by (induction xs arbitrary: i) (auto split: if_splits)

lemma findIndex_None: "findIndex P xs = None \<longleftrightarrow> (\<forall>x \<in> set xs. \<not> P x)"
  by (induction xs) auto

lemma saveSnapshot_same [simp]: "sa_identities (saveSnapshot ok snap st) = sa_identities st"
  by (simp add: saveSnapshot_def)

text \<open>Mail addresses stay, subjects once there stay, and a new subject came with its mail address.\<close>

definition pins :: "(string \<times> string) set \<Rightarrow> SiwaAdminIdentity list \<Rightarrow> SiwaAdminIdentity list \<Rightarrow> bool" where
  "pins C ids ids' \<longleftrightarrow>
     length ids' = length ids \<and>
     (\<forall>i < length ids. ai_email (ids' ! i) = ai_email (ids ! i) \<and>
        (ai_sub (ids ! i) \<noteq> [] \<longrightarrow> ai_sub (ids' ! i) = ai_sub (ids ! i)) \<and>
        (ai_sub (ids' ! i) \<noteq> ai_sub (ids ! i) \<longrightarrow>
           (\<exists>email. (ai_sub (ids' ! i), email) \<in> C \<and> siwaEmailsEqual (ai_email (ids ! i)) email)))"

lemma pins_refl [simp]: "pins C ids ids"
  by (simp add: pins_def)

lemma pins_trans:
  assumes "pins C a b" "pins D b c"
  shows "pins (C \<union> D) a c"
  using assms unfolding pins_def by (metis UnCI)

lemma matchAndPin_pins:
  assumes "matchAndPin ok sub email st = (b, st')" "sub \<noteq> []"
  shows "pins {(sub, email)} (sa_identities st) (sa_identities st')"
    "b \<Longrightarrow> \<exists>i \<in> set (sa_identities st'). ai_sub i = sub"
    "b \<longleftrightarrow> (\<exists>i \<in> set (sa_identities st). ai_sub i = sub \<or> ai_sub i = [] \<and> email \<noteq> [] \<and> siwaEmailsEqual (ai_email i) email)"
proof -
  let ?ids = "sa_identities st"
  have "pins {(sub, email)} ?ids (sa_identities st') \<and> (b \<longrightarrow> (\<exists>i \<in> set (sa_identities st'). ai_sub i = sub)) \<and>
    b = (\<exists>i \<in> set ?ids. ai_sub i = sub \<or> ai_sub i = [] \<and> email \<noteq> [] \<and> siwaEmailsEqual (ai_email i) email)"
  proof (cases "findIndex (\<lambda>i. ai_sub i \<noteq> [] \<and> ai_sub i = sub) ?ids")
    case (Some i)
    note i = findIndex_Some [OF Some]
    from i have "?ids ! i \<in> set ?ids" by simp
    with assms Some i show ?thesis by (auto simp: matchAndPin_def matchAdminIdentity_def)
  next
    case None
    then have no: "\<forall>i \<in> set ?ids. ai_sub i \<noteq> sub" using assms(2) by (auto simp: findIndex_None)
    show ?thesis
    proof (cases "email \<noteq> [] \<and> findIndex (\<lambda>i. ai_sub i = [] \<and> siwaEmailsEqual (ai_email i) email) ?ids \<noteq> None")
      case False
      then have "matchAdminIdentity ?ids sub email = None" using None by (auto simp: matchAdminIdentity_def)
      then have st: "\<not> b" "st' = st" using assms(1) by (auto simp: matchAndPin_def)
      from False have "email = [] \<or> (\<forall>i \<in> set ?ids. \<not> (ai_sub i = [] \<and> siwaEmailsEqual (ai_email i) email))"
        by (simp add: findIndex_None)
      with st no show ?thesis by auto
    next
      case True
      then obtain i where e: "email \<noteq> []" and f: "findIndex (\<lambda>i. ai_sub i = [] \<and> siwaEmailsEqual (ai_email i) email) ?ids = Some i"
        by auto
      note i = findIndex_Some [OF f]
      from i have mem: "?ids ! i \<in> set ?ids" by simp
      let ?new = "(?ids ! i)\<lparr> ai_sub := sub \<rparr>"
      from assms None e f i have st: "b" "sa_identities st' = ?ids[i := ?new]"
        by (auto simp: matchAndPin_def matchAdminIdentity_def Let_def)
      have "\<exists>j \<in> set (?ids[i := ?new]). ai_sub j = sub"
        by (rule bexI [of _ ?new]) (use i in \<open>simp_all add: set_update_memI\<close>)
      moreover have "\<exists>j \<in> set ?ids. ai_sub j = sub \<or> ai_sub j = [] \<and> email \<noteq> [] \<and> siwaEmailsEqual (ai_email j) email"
        by (rule bexI [OF _ mem]) (use i e in simp)
      moreover have "pins {(sub, email)} ?ids (?ids[i := ?new])"
        using i by (auto simp: pins_def nth_list_update)
      ultimately show ?thesis using st by simp
    qed
  qed
  then show "pins {(sub, email)} ?ids (sa_identities st')"
    "b \<Longrightarrow> \<exists>i \<in> set (sa_identities st'). ai_sub i = sub"
    "b \<longleftrightarrow> (\<exists>i \<in> set ?ids. ai_sub i = sub \<or> ai_sub i = [] \<and> email \<noteq> [] \<and> siwaEmailsEqual (ai_email i) email)" by blast+
qed

text \<open>A sequence of sign-ins: the subjects that were found to be administrators, and the store after it.\<close>

fun signIns :: "(bool \<times> string \<times> string) list \<Rightarrow> SiwaAdminStore \<Rightarrow> string set \<times> SiwaAdminStore" where
  "signIns [] st = ({}, st)"
| "signIns ((ok, sub, email) # cs) st =
     (case matchAndPin ok sub email st of (b, st1) \<Rightarrow>
        (case signIns cs st1 of (subs, st2) \<Rightarrow> (if b then insert sub subs else subs, st2)))"

lemma pins_sub: "pins C ids ids' \<Longrightarrow> s \<noteq> [] \<Longrightarrow> \<exists>i \<in> set ids. ai_sub i = s \<Longrightarrow> \<exists>i \<in> set ids'. ai_sub i = s"
  unfolding pins_def by (metis in_set_conv_nth)

lemma signIns_pins:
  assumes "signIns cs st = (subs, st')" "\<forall>(ok, sub, email) \<in> set cs. sub \<noteq> []"
  shows "pins (snd ` set cs) (sa_identities st) (sa_identities st') \<and>
    (\<forall>s \<in> subs. s \<noteq> [] \<and> (\<exists>i \<in> set (sa_identities st'). ai_sub i = s))"
  using assms
proof (induction cs arbitrary: st subs)
  case (Cons c cs)
  obtain ok sub email where c: "c = (ok, sub, email)" by (cases c)
  obtain b st1 where m: "matchAndPin ok sub email st = (b, st1)" by (cases "matchAndPin ok sub email st")
  obtain subs1 st2 where r: "signIns cs st1 = (subs1, st2)" by (cases "signIns cs st1")
  from Cons.prems have sub: "sub \<noteq> []" and st': "st2 = st'" "subs = (if b then insert sub subs1 else subs1)"
    by (auto simp: c m r)
  have IH: "pins (snd ` set cs) (sa_identities st1) (sa_identities st') \<and>
      (\<forall>s \<in> subs1. s \<noteq> [] \<and> (\<exists>i \<in> set (sa_identities st'). ai_sub i = s))"
    using Cons.IH [of st1 subs1] r Cons.prems(2) st'(1) by simp
  note M = matchAndPin_pins [OF m sub]
  have "pins (snd ` set (c # cs)) (sa_identities st) (sa_identities st')"
    using pins_trans [OF M(1) conjunct1 [OF IH]] by (simp add: c)
  moreover have "\<exists>i \<in> set (sa_identities st'). ai_sub i = sub" if b
    by (rule pins_sub [OF conjunct1 [OF IH] sub M(2) [OF that]])
  ultimately show ?case using IH sub st'(2) by auto
qed simp

lemma openSession_admin:
  assumes "openSession cfg io sub email s = ((b, tok), s')" "sub \<noteq> []"
  shows "b \<longleftrightarrow> (\<exists>a. ss_admins s = Some a \<and> (\<exists>i \<in> set (sa_identities a).
    ai_sub i = sub \<or> ai_sub i = [] \<and> email \<noteq> [] \<and> siwaEmailsEqual (ai_email i) email))"
proof (cases "ss_admins s")
  case None
  with assms show ?thesis by (auto simp: openSession_def Let_def)
next
  case (Some a)
  obtain b' a' where m: "matchAndPin (li_saveOk io) sub email a = (b', a')" by (cases "matchAndPin (li_saveOk io) sub email a")
  with assms(1) Some have "b = b'" by (auto simp: openSession_def Let_def)
  with matchAndPin_pins(3) [OF m assms(2)] Some show ?thesis by auto
qed

lemma openSession_session:
  assumes "openSession cfg io sub email s = ((b, tok), s')"
  shows "map_of (ss_sessions s') tok = Some (newSession cfg (li_session io) b sub)"
proof -
  have s': "s' = snd (openSession cfg io sub email s)" and f: "fst (openSession cfg io sub email s) = (b, tok)"
    using assms by simp_all
  from f show ?thesis unfolding s' by (auto simp: openSession_def createIdentitySession_def Let_def update_conv')
qed

text \<open>A state value that is not pending opens nothing.\<close>

lemma callback_used_up:
  assumes "map_of (sv_pending (ss_validator s)) state = None" "keys_ok (sv_pending (ss_validator s))"
  shows "fst (fst (appleCallback sx cfg io state tok s)) \<noteq> 200"
proof -
  have "map_of (sv_pending (sweepPending (li_now io) (ss_validator s))) state = None"
    using assms by (simp add: map_of_erase_if)
  then show ?thesis by (simp add: appleCallback_def verifyCallback_def Let_def)
qed

section \<open>Properties\<close>

lemma sha256Hex_nonempty: "length (sx_sha256 sx (str_bytes d)) = 32 \<Longrightarrow> sha256Hex sx d \<noteq> []"
  by (cases "sx_sha256 sx (str_bytes d)") (simp_all add: sha256Hex_def hexEncode_def)

text \<open>
  C9.  A web sign-in with Apple opens a session only for a state value that was issued at most ten minutes
  before and not used since, with a token that a published key of Apple signs, for this service, not
  expired by more than thirty seconds, and bound to that sign-in by its nonce.  The session carries the
  subject of the token, and the admin role exactly if the subject or an unpinned mail address is configured.
  The state value is used up.
\<close>

theorem siwa_web_login_sound:
  assumes run: "siwa_run sx cfg published s log now" and io: "honest_io published (li_jwks io)"
    and login: "appleCallback sx cfg io state tok s = ((200, hs, body), s')"
    and sha: "\<forall>b. length (sx_sha256 sx b) = 32"
  shows "(\<exists>nonce t parts key sub email token isAdmin.
      flow_of log state = Some (nonce, t) \<and> li_now io \<le> t + kTenMinutes \<and>
      parseJwt tok = Some parts \<and> key \<in> published \<and>
      tokenProves sx (si_time (li_jwks io)) key parts [sc_serviceId (sv_cfg (ss_validator s))] (sha256Hex sx nonce) sub email \<and>
      jwtGetStr (jp_payloadJson parts) ''nonce'' = sha256Hex sx nonce \<and>
      hs ! 0 = sessionCookie token \<and>
      map_of (ss_sessions s') token = Some (newSession cfg (li_session io) isAdmin sub) \<and>
      isAdmin = (\<exists>a. ss_admins s = Some a \<and> (\<exists>i \<in> set (sa_identities a).
        ai_sub i = sub \<or> ai_sub i = [] \<and> email \<noteq> [] \<and> siwaEmailsEqual (ai_email i) email))) \<and>
    fst (fst (appleCallback sx cfg io' state tok' s')) \<noteq> 200"
proof -
  let ?v = "ss_validator s"
  have c: "(200 :: nat) \<noteq> 400" by simp
  obtain r where v: "verifyCallback sx (li_now io) (li_jwks io) state tok [sc_serviceId (sv_cfg ?v)] ?v = (r, ss_validator s')"
    and ok: "(200 :: nat) = 200 \<longleftrightarrow> (\<exists>x. r = Inr x)"
    and session: "\<forall>sub email. r = Inr (sub, email) \<longrightarrow>
      (\<exists>b t. openSession cfg io sub email (s\<lparr> ss_validator := ss_validator s' \<rparr>) = ((b, t), s') \<and> hs ! 0 = sessionCookie t)"
    by (rule appleCallback_cases [OF login c])
  from ok obtain x where x: "r = Inr x" by blast
  obtain sub email where "x = (sub, email)" by (cases x)
  with x have r: "r = Inr (sub, email)" by simp
  note inv = siwa_run_ok [OF run]
  have k: "keys_ok (sv_pending ?v)" using inv by (simp add: siwa_ok_def)
  note V = verifyCallback_step(1-5) [OF io v k] verifyCallback_step(6) [OF io v k r]
  from V(6) obtain nonce e parts key where p: "map_of (sv_pending (sweepPending (li_now io) ?v)) state = Some (nonce, e)"
    "parseJwt tok = Some parts" "key \<in> set (sv_jwksKeys (ss_validator s'))"
    "tokenProves sx (si_time (li_jwks io)) key parts [sc_serviceId (sv_cfg ?v)] (sha256Hex sx nonce) sub email" by blast
  have key: "key \<in> published" using p(3) V(1) inv by (auto simp: siwa_ok_def)
  have e: "map_of (sv_pending ?v) state = Some (nonce, e) \<and> li_now io \<le> e"
    using p(1) k by (auto simp: map_of_erase_if split: option.splits if_splits)
  then have begun: "flow_of log state = Some (nonce, e - kTenMinutes)" using inv by (simp add: siwa_ok_def)
  have nonce: "jwtGetStr (jp_payloadJson parts) ''nonce'' = sha256Hex sx nonce"
    using p(4) sha256Hex_nonempty sha by (simp add: tokenProves_def)
  have sub: "sub \<noteq> []" using p(4) by (simp add: tokenProves_def)
  obtain b token where o: "openSession cfg io sub email (s\<lparr> ss_validator := ss_validator s' \<rparr>) = ((b, token), s')"
    "hs ! 0 = sessionCookie token" using session r by blast
  have "map_of (ss_sessions s') token = Some (newSession cfg (li_session io) b sub)"
    by (rule openSession_session [OF o(1)])
  moreover have "b = (\<exists>a. ss_admins s = Some a \<and> (\<exists>i \<in> set (sa_identities a).
      ai_sub i = sub \<or> ai_sub i = [] \<and> email \<noteq> [] \<and> siwaEmailsEqual (ai_email i) email))"
    using openSession_admin [OF o(1) sub] by simp
  moreover have "fst (fst (appleCallback sx cfg io' state tok' s')) \<noteq> 200"
    by (rule callback_used_up) (use V(4,5) in simp_all)
  ultimately show ?thesis using begun e p(2,4) key nonce o(2)
    by (intro conjI exI [of _ nonce] exI [of _ "e - kTenMinutes"] exI [of _ parts] exI [of _ key] exI [of _ sub]
        exI [of _ email] exI [of _ token] exI [of _ b]) simp_all
qed

text \<open>
  C25.  A native sign-in with Apple never accepts a token twice: while the system clock does not go back, a
  token with the subject and expiry of one accepted before is refused, up to the expiry of the cache entry
  and after it.  An accepted token is signed by a published key, for this service or its app, not expired by
  more than thirty seconds, and names a subject.
\<close>

theorem siwa_native_single_use:
  assumes run: "siwa_run sx cfg published s log now" and io: "honest_io published (li_jwks io)"
    and time: "now \<le> li_now io" "li_now io \<le> si_time (li_jwks io)"
    and login: "appleNative sx cfg io reqBody s = ((200, hs, body), s')"
    and id: "tokenId (jsonGetString reqBody ''identity_token'') = Some (sub, exp)"
    and range: "0 < sint exp" "sint exp < 2 ^ 63 - 60"
  shows "NativeOk sub exp \<notin> set log \<and> si_time (li_jwks io) \<le> sint exp + 30 \<and>
    (\<exists>parts key email auds. parseJwt (jsonGetString reqBody ''identity_token'') = Some parts \<and> key \<in> published \<and>
       set auds \<subseteq> {sc_serviceId (sv_cfg (ss_validator s)), sc_iosBundleId (sv_cfg (ss_validator s))} \<and>
       tokenProves sx (si_time (li_jwks io)) key parts auds [] sub email)"
proof -
  let ?v = "ss_validator s"
  have c: "(200 :: nat) \<noteq> 400" by simp
  obtain r auds where v: "verifyNative sx (li_now io) (li_jwks io) (jsonGetString reqBody ''identity_token'') auds ?v
      = (r, ss_validator s')"
    and ok: "(200 :: nat) = 200 \<longleftrightarrow> (\<exists>x. r = Inr x)"
    and auds: "set auds \<subseteq> {sc_serviceId (sv_cfg ?v), sc_iosBundleId (sv_cfg ?v)}"
    by (rule appleNative_cases [OF login c])
  from ok obtain x where x: "r = Inr x" by blast
  obtain sub' email where "x = (sub', email)" by (cases x)
  with x have r: "r = Inr (sub', email)" by simp
  note inv = siwa_run_ok [OF run]
  from verifyNative_step(5) [OF io v r] id obtain parts key where p: "sub' = sub"
    "parseJwt (jsonGetString reqBody ''identity_token'') = Some parts" "key \<in> set (sv_jwksKeys (ss_validator s'))"
    "tokenProves sx (si_time (li_jwks io)) key parts auds [] sub email"
    "\<not> has_key (replayKey sub exp) (sv_nativeReplayCache (prunedCache (li_now io) ?v))"
    using range(1) by auto
  have key: "key \<in> published" using p(3) verifyNative_step(1) [OF io v] inv by (auto simp: siwa_ok_def)
  have "exp = jwtGetLong (jp_payloadJson parts) ''exp''" using id p(2) by (simp add: tokenId_def)
  then have fresh: "si_time (li_jwks io) \<le> sint exp + 30"
    using p(4) sint_add_30 [OF range(2,1)] by (simp add: tokenProves_def)
  have k: "keys_ok (sv_nativeReplayCache ?v)" "replay_ok ?v log now" using inv by (simp_all add: siwa_ok_def)
  have "NativeOk sub exp \<notin> set log"
  proof
    assume "NativeOk sub exp \<in> set log"
    then have "map_of (sv_nativeReplayCache (prunedCache (li_now io) ?v)) (replayKey sub exp) = Some exp"
      using replay_ok_prune [OF k(2) time(1) k(1)] range fresh time(2) unfolding replay_ok_def by force
    then show False using p(5) by (simp add: has_key_def)
  qed
  with fresh key p(2,4) auds show ?thesis by blast
qed

text \<open>
  Each configured administrator is one subject at most.  Over any sequence of sign-ins, every subject
  that was given the admin role ends up pinned to an identity, so there are at most as many of them as
  identities; mail addresses and pinned subjects never change, and a subject is pinned only to the mail
  address it signed in with.
\<close>

lemma siwa_admins_pinned:
  assumes "signIns cs st = (subs, st')" and "\<forall>(ok, sub, email) \<in> set cs. sub \<noteq> []"
  shows "subs \<subseteq> ai_sub ` set (sa_identities st') \<and> card subs \<le> length (sa_identities st) \<and>
    length (sa_identities st') = length (sa_identities st) \<and>
    (\<forall>i < length (sa_identities st).
       ai_email (sa_identities st' ! i) = ai_email (sa_identities st ! i) \<and>
       (ai_sub (sa_identities st ! i) \<noteq> [] \<longrightarrow> ai_sub (sa_identities st' ! i) = ai_sub (sa_identities st ! i)) \<and>
       (ai_sub (sa_identities st' ! i) \<noteq> ai_sub (sa_identities st ! i) \<longrightarrow>
          (\<exists>ok email. (ok, ai_sub (sa_identities st' ! i), email) \<in> set cs \<and>
             siwaEmailsEqual (ai_email (sa_identities st ! i)) email)))"
proof -
  note S = signIns_pins [OF assms]
  have sub: "subs \<subseteq> ai_sub ` set (sa_identities st')" using conjunct2 [OF S] by force
  then have "card subs \<le> card (ai_sub ` set (sa_identities st'))" by (simp add: card_mono)
  also have "\<dots> \<le> length (sa_identities st')" by (meson card_image_le card_length finite_set le_trans)
  finally have "card subs \<le> length (sa_identities st')" .
  moreover have "(a, b) \<in> snd ` set cs \<longleftrightarrow> (\<exists>ok. (ok, a, b) \<in> set cs)" for a b by force
  moreover from S have "pins (snd ` set cs) (sa_identities st) (sa_identities st')" by blast
  ultimately show ?thesis using sub unfolding pins_def by (metis (no_types, lifting))
qed

text \<open>Splitting and decoding give back what a token was built from.\<close>

lemma parseJwt_built:
  assumes "h \<noteq> []" "p \<noteq> []"
  shows "parseJwt (toBase64url h @ CHR ''.'' # toBase64url p @ CHR ''.'' # sig) =
    Some \<lparr> jp_headerB64 = toBase64url h, jp_payloadB64 = toBase64url p, jp_sigB64 = sig,
      jp_signingInput = toBase64url h @ CHR ''.'' # toBase64url p, jp_headerJson = bytes_str h, jp_payloadJson = bytes_str p \<rparr>"
proof -
  have d: "siwaBase64urlDecode (toBase64url b) = b" for b
    unfolding siwaBase64urlDecode_def by (fold fromBase64url_def) simp
  show ?thesis using assms
    by (simp add: parseJwt_def find_ch_append find_ch_from_def substr_def toBase64url_dot d Let_def)
qed

definition wSiwa :: SiwaCrypto where
  "wSiwa = \<lparr> sx_sha256 = (\<lambda>b. replicate 32 0), sx_rsaVerify = (\<lambda>n e m sig. sig = n) \<rparr>"

definition wSiwaCfg :: SiwaConfig where
  "wSiwaCfg = \<lparr> sc_serviceId = ''svc'', sc_iosBundleId = [], sc_redirectUri = ''https://a.b'', sc_adminFile = [],
     sc_domainAssocText = [] \<rparr>"

definition wServer :: SiwaServer where
  "wServer = \<lparr> ss_validator = initValidator wSiwaCfg,
     ss_admins = Some \<lparr> sa_filePath = [], sa_identities = [\<lparr> ai_email = ''a@b'', ai_sub = [] \<rparr>], sa_file = None \<rparr>,
     ss_sessions = [] \<rparr>"

definition wHeader :: string where "wHeader = ''{\"alg\":\"RS256\",\"kid\":\"k1\"}''"

definition wPayload :: string where
  "wPayload = ''{\"iss\":\"https://appleid.apple.com\",\"aud\":\"svc\",\"exp\":2000,\"sub\":\"s1\",\"email\":\"A@b\",\"nonce\":\"''
     @ replicate 64 (CHR ''0'') @ ''\"}''"

definition wToken :: string where
  "wToken = toBase64url (str_bytes wHeader) @ CHR ''.'' # toBase64url (str_bytes wPayload) @ CHR ''.'' # ''AQ''"

definition wParts :: JwtParts where
  "wParts = \<lparr> jp_headerB64 = toBase64url (str_bytes wHeader), jp_payloadB64 = toBase64url (str_bytes wPayload),
     jp_sigB64 = ''AQ'', jp_signingInput = toBase64url (str_bytes wHeader) @ CHR ''.'' # toBase64url (str_bytes wPayload),
     jp_headerJson = wHeader, jp_payloadJson = wPayload \<rparr>"

definition wJwks :: string where "wJwks = ''{\"keys\":[{\"kid\":\"k1\",\"n\":\"AQ\",\"e\":\"AQ\"}]}''"

definition wLoginIO :: LoginIO where
  "wLoginIO = \<lparr> li_now = 5, li_jwks = \<lparr> si_first = \<lparr> jt_now = 5, jt_fetch = FetchHttp 200 wJwks, jt_fetchedAt = 6 \<rparr>,
     si_again = \<lparr> jt_now = 6, jt_fetch = FetchFailed, jt_fetchedAt = 6 \<rparr>, si_time = 1990 \<rparr>,
     li_saveOk = True, li_sweep = 7, li_session = 7, li_token = [9, 9, 9] \<rparr>"

lemma wParsed: "parseJwt wToken = Some wParts"
proof -
  have "str_bytes wHeader \<noteq> []" "str_bytes wPayload \<noteq> []" by (simp_all add: wHeader_def wPayload_def str_bytes_def)
  then show ?thesis unfolding wToken_def wParts_def by (simp add: parseJwt_built)
qed

lemma wHeader_fields: "jwtGetStr wHeader ''alg'' = ''RS256''" "jwtGetStr wHeader ''kid'' = ''k1''"
  by code_simp+

lemma wPayload_fields:
  "jwtGetStr wPayload ''iss'' = ''https://appleid.apple.com''" "jwtGetStr wPayload ''aud'' = ''svc''"
  "jwtGetLong wPayload ''exp'' = 2000" "jwtGetStr wPayload ''sub'' = ''s1''" "jwtGetStr wPayload ''email'' = ''A@b''"
  "jwtGetStr wPayload ''nonce'' = replicate 64 (CHR ''0'')"
  by code_simp+

lemma wJwks_keys: "parseJwksJson wJwks = [\<lparr> jk_kid = ''k1'', jk_n = ''AQ'', jk_e = ''AQ'' \<rparr>]"
  by code_simp

lemma wRsa: "rsaVerifyRS256 wSiwa \<lparr> jk_kid = ''k1'', jk_n = ''AQ'', jk_e = ''AQ'' \<rparr> msg ''AQ''"
proof -
  have "siwaBase64urlDecode ''AQ'' = [1]" by code_simp
  then show ?thesis by (simp add: rsaVerifyRS256_def wSiwa_def)
qed

lemma webChecked: "checkToken wSiwa 1990 \<lparr> jk_kid = ''k1'', jk_n = ''AQ'', jk_e = ''AQ'' \<rparr> wParts [''svc''] nh = Inr (''s1'', ''A@b'')"
  if "nh = [] \<or> nh = replicate 64 (CHR ''0'')" for nh
proof -
  have "\<not> 1990 > sint (2000 + 30 :: u64)" by simp
  with that wRsa show ?thesis unfolding checkToken_def validateAppleClaims_def Let_def
    by (auto simp: wParts_def wPayload_fields)
qed

lemma wVerified:
  assumes "sv_jwksKeys v = []" "\<not> sv_testMode v" "nh = [] \<or> nh = replicate 64 (CHR ''0'')"
  shows "verifyJwt wSiwa (li_jwks wLoginIO) wToken [''svc''] nh v =
    (Inr (''s1'', ''A@b''), v\<lparr> sv_jwksKeys := [\<lparr> jk_kid = ''k1'', jk_n = ''AQ'', jk_e = ''AQ'' \<rparr>], sv_jwksExpiry := 6 + 3600 * kSec \<rparr>)"
proof -
  have h: "jwtGetStr (jp_headerJson wParts) ''alg'' = ''RS256''" "jwtGetStr (jp_headerJson wParts) ''kid'' = ''k1''"
    by (simp_all add: wParts_def wHeader_fields)
  show ?thesis using assms
    by (simp add: verifyJwt_def wParsed h ensureJwks_def findKey_def wLoginIO_def wJwks_keys webChecked Let_def)
qed

definition wServer1 :: SiwaServer where "wServer1 = snd (appleStart wSiwa 0 1 [1] [2] wServer)"

lemma wServer1_eq: "wServer1 = wServer\<lparr> ss_validator := (initValidator wSiwaCfg)\<lparr> sv_pending := [(''01'', (''02'', 1 + kTenMinutes))] \<rparr> \<rparr>"
proof -
  have "hexEncode [1] = ''01''" "hexEncode [2] = ''02''" by code_simp+
  then show ?thesis
    by (simp add: wServer1_def appleStart_def beginFlow_def Let_def wServer_def initValidator_def sweepPending_def erase_if_def)
qed

lemma wServer1_run: "siwa_run wSiwa cfg P wServer1 [FlowBegun ''01'' ''02'' 1] 0"
proof -
  have "siwa_run wSiwa cfg P wServer [] 0" by (rule siwa_run.start [of _ wSiwaCfg]) (simp add: wServer_def)
  moreover have "appleStart wSiwa 0 1 [1] [2] wServer = (fst (appleStart wSiwa 0 1 [1] [2] wServer), wServer1)"
    by (simp add: wServer1_def)
  moreover have "hexEncode [1] = ''01''" "hexEncode [2] = ''02''" by code_simp+
  ultimately show ?thesis using siwa_run.begin_flow by metis
qed

lemma wHonest: "honest_io {\<lparr> jk_kid = ''k1'', jk_n = ''AQ'', jk_e = ''AQ'' \<rparr>} (li_jwks wLoginIO)"
  by (simp add: honest_io_def honest_fetch_def wLoginIO_def wJwks_keys)

lemma wCallback:
  "verifyCallback wSiwa 5 (li_jwks wLoginIO) ''01'' wToken [''svc''] (ss_validator wServer1) =
    (Inr (''s1'', ''A@b''), (initValidator wSiwaCfg)\<lparr> sv_jwksKeys := [\<lparr> jk_kid = ''k1'', jk_n = ''AQ'', jk_e = ''AQ'' \<rparr>],
       sv_jwksExpiry := 6 + 3600 * kSec \<rparr>)"
proof -
  have sha: "sha256Hex wSiwa d = replicate 64 (CHR ''0'')" for d
  proof -
    have "hexEncode (replicate 32 0) = replicate 64 (CHR ''0'')" by code_simp
    then show ?thesis by (simp add: sha256Hex_def wSiwa_def)
  qed
  have p: "sv_pending (sweepPending 5 (ss_validator wServer1)) = [(''01'', (''02'', 1 + kTenMinutes))]"
    by (simp add: wServer1_eq wServer_def erase_if_def kTenMinutes_def kSec_def)
  have q: "(sweepPending 5 (ss_validator wServer1))\<lparr> sv_pending := erase ''01'' [(''01'', (''02'', 1 + kTenMinutes))] \<rparr>
      = initValidator wSiwaCfg"
    by (simp add: wServer1_eq wServer_def sweepPending_def erase_def initValidator_def)
  have v: "sv_jwksKeys (initValidator wSiwaCfg) = []" "\<not> sv_testMode (initValidator wSiwaCfg)"
    by (simp_all add: initValidator_def)
  show ?thesis unfolding verifyCallback_def Let_def p
    by (simp add: q [simplified] wVerified [OF v] sha del: sweepPending_same)
qed

lemma wCallbackOk: "fst (fst (appleCallback wSiwa demo_session_cfg wLoginIO ''01'' wToken wServer1)) = 200"
proof -
  have c: "sv_cfg (ss_validator wServer1) = wSiwaCfg" "li_now wLoginIO = 5" "sc_serviceId wSiwaCfg = ''svc''"
    by (simp_all add: wServer1_eq wServer_def initValidator_def wLoginIO_def wSiwaCfg_def)
  have "wToken \<noteq> []" by (simp add: wToken_def)
  then show ?thesis by (simp add: appleCallback_def c wCallback Let_def split: prod.split)
qed

theorem siwa_web_login_sound_witness:
  "fst (fst (appleCallback wSiwa demo_session_cfg wLoginIO ''01'' wToken
     (snd (appleCallback wSiwa demo_session_cfg wLoginIO ''01'' wToken wServer1)))) \<noteq> 200"
proof -
  obtain hs body s' where a: "appleCallback wSiwa demo_session_cfg wLoginIO ''01'' wToken wServer1 = ((200, hs, body), s')"
    using wCallbackOk by (metis prod.collapse)
  have "\<forall>b. length (sx_sha256 wSiwa b) = 32" by (simp add: wSiwa_def)
  from siwa_web_login_sound [OF wServer1_run wHonest a this, of wLoginIO wToken] a show ?thesis by simp
qed

definition wBody :: string where "wBody = ''{\"identity_token\":\"'' @ wToken @ ''\"}''"

lemma wBody_token: "jsonGetString wBody ''identity_token'' = wToken"
proof -
  have "CHR 0x22 \<notin> set wToken" "CHR 0x5C \<notin> set wToken"
    using toBase64url_plain by (simp_all add: wToken_def)
  from jsonGetString_first [OF this, of "''identity_token''" "''}''"] show ?thesis by (simp add: wBody_def)
qed

lemma wTokenId: "tokenId wToken = Some (''s1'', 2000)"
  by (simp add: tokenId_def wParsed) (simp add: wParts_def wPayload_fields)

lemma wNative:
  "fst (verifyNative wSiwa 5 (li_jwks wLoginIO) wToken [''svc''] (ss_validator wServer)) = Inr (''s1'', ''A@b'')"
proof -
  have v: "ss_validator wServer = initValidator wSiwaCfg" by (simp add: wServer_def)
  have p: "jwtGetStr (jp_payloadJson wParts) ''sub'' = ''s1''" "jwtGetLong (jp_payloadJson wParts) ''exp'' = 2000"
    by (simp_all add: wParts_def wPayload_fields)
  have c: "sv_nativeReplayCache (initValidator wSiwaCfg) = []" by (simp add: initValidator_def)
  show ?thesis unfolding v
    by (simp add: verifyNative_def wParsed p c erase_if_def Let_def wVerified initValidator_def)
qed

lemma wNativeOk: "fst (fst (appleNative wSiwa demo_session_cfg wLoginIO wBody wServer)) = 200"
proof -
  have c: "sv_cfg (ss_validator wServer) = wSiwaCfg" "li_now wLoginIO = 5" "sc_serviceId wSiwaCfg = ''svc''"
    "sc_iosBundleId wSiwaCfg = []"
    by (simp_all add: wServer_def initValidator_def wLoginIO_def wSiwaCfg_def)
  have t: "wToken \<noteq> []" by (simp add: wToken_def)
  obtain v where "verifyNative wSiwa 5 (li_jwks wLoginIO) wToken [''svc''] (ss_validator wServer) = (Inr (''s1'', ''A@b''), v)"
    using wNative by (metis prod.collapse)
  then show ?thesis using t by (simp add: appleNative_def c wBody_token Let_def split: prod.split)
qed

theorem siwa_native_single_use_witness:
  "NativeOk ''s1'' 2000 \<notin> set [] \<and> (1990 :: int) \<le> sint (2000 :: u64) + 30"
proof -
  obtain hs body s' where a: "appleNative wSiwa demo_session_cfg wLoginIO wBody wServer = ((200, hs, body), s')"
    using wNativeOk by (metis prod.collapse)
  have run: "siwa_run wSiwa demo_session_cfg {\<lparr> jk_kid = ''k1'', jk_n = ''AQ'', jk_e = ''AQ'' \<rparr>} wServer [] 0"
    by (rule siwa_run.start [of _ wSiwaCfg]) (simp add: wServer_def)
  have t: "0 \<le> li_now wLoginIO" "li_now wLoginIO \<le> si_time (li_jwks wLoginIO)" "si_time (li_jwks wLoginIO) = 1990"
    by (simp_all add: wLoginIO_def)
  have id: "tokenId (jsonGetString wBody ''identity_token'') = Some (''s1'', 2000)" by (simp add: wBody_token wTokenId)
  have "0 < sint (2000 :: u64)" "sint (2000 :: u64) < 2 ^ 63 - 60" by simp_all
  from siwa_native_single_use [OF run wHonest t(1,2) a id this] t(3) show ?thesis by simp
qed

lemma siwa_admins_pinned_witness:
  "card (fst (signIns [(True, ''s1'', ''A@b''), (True, ''s2'', ''a@b'')] (the (ss_admins wServer)))) \<le> 1"
proof -
  obtain subs st' where s: "signIns [(True, ''s1'', ''A@b''), (True, ''s2'', ''a@b'')] (the (ss_admins wServer)) = (subs, st')"
    by (cases "signIns [(True, ''s1'', ''A@b''), (True, ''s2'', ''a@b'')] (the (ss_admins wServer))")
  have "\<forall>(ok, sub, email) \<in> set [(True, ''s1'', ''A@b''), (True, ''s2'', ''a@b'')]. sub \<noteq> []" by simp
  from siwa_admins_pinned [OF s this] s show ?thesis by (simp add: wServer_def)
qed

end
