(* ===== verification/UpdateDist.thy ===== *)
theory UpdateDist
  imports Upgrade LogCtl
begin

text \<open>
  Distribution of client binaries by the server: the file names of \<open>client_push.hpp\<close>, and of
  \<open>web_dashboard.cpp\<close> the scan of the update directory that builds the manifest, the three
  \<open>/api/update/\<close> handlers that clients ask, and the handlers \<open>/admin/client/nonce\<close> and
  \<open>/admin/client/push\<close> by which a new binary arrives.

  The directory is an association list from the names of its regular files to their contents.  SHA-256,
  SHA3-256, OpenSSL, random bytes, clocks, the outcomes of file operations and what the disk keeps of a file are arguments.
\<close>

section \<open>File names\<close>

record ClientBinaryInfo =
  cb_platform :: string
  cb_version :: string
  cb_filename :: string
  cb_isWindows :: bool
  cb_valid :: bool

text \<open>The scan of the version: the number of dots and whether the last character was one.\<close>

fun versionScan :: "nat \<Rightarrow> bool \<Rightarrow> string \<Rightarrow> (nat \<times> bool) option" where
  "versionScan dots lastWasDot [] = Some (dots, lastWasDot)"
| "versionScan dots lastWasDot (c # s) =
     (if c = CHR ''.'' then (if lastWasDot then None else versionScan (dots + 1) True s)
      else if \<not> is_digit c then None
      else versionScan dots False s)"

definition has_suffix :: "string \<Rightarrow> string \<Rightarrow> bool" where
  "has_suffix suf s \<longleftrightarrow> length s > length suf \<and> drop (length s - length suf) s = suf"

definition parseClientBinaryFilename :: "string \<Rightarrow> ClientBinaryInfo" where
  "parseClientBinaryFilename name =
     (let info = \<lparr> cb_platform = [], cb_version = [], cb_filename = name, cb_isWindows = False, cb_valid = False \<rparr>;
          pre = ''ntm-client-''
      in if length name \<le> length pre \<or> take (length pre) name \<noteq> pre then info
         else let rest0 = drop (length pre) name;
                  exe = has_suffix ''.exe'' rest0;
                  rest = (if exe then take (length rest0 - 4) rest0 else rest0);
                  info1 = info\<lparr> cb_isWindows := exe \<rparr>
              in case rfind_ch CHR ''-'' rest of None \<Rightarrow> info1
              | Some lastHyp \<Rightarrow>
                  if lastHyp = 0 then info1
                  else let info2 = info1\<lparr> cb_platform := take lastHyp rest, cb_version := drop (lastHyp + 1) rest \<rparr> in
                       if cb_version info2 = [] then info2
                       else case versionScan 0 True (cb_version info2) of None \<Rightarrow> info2
                       | Some (dots, lastWasDot) \<Rightarrow>
                           if lastWasDot \<or> dots < 2 \<or> dots > 3 then info2
                           else if find_ch CHR ''-'' (cb_platform info2) = None then info2
                           else info2\<lparr> cb_valid := True \<rparr>)"

definition isKnownClientPlatform :: "string \<Rightarrow> bool" where
  "isKnownClientPlatform p \<longleftrightarrow> p = ''linux-amd64'' \<or> p = ''windows-amd64''"

section \<open>Versions\<close>

text \<open>The four numbers are \<open>int\<close>: 32-bit words read with \<open>sint\<close>; an overflow, which C++ leaves undefined,
  wraps.\<close>

fun semverNumbers :: "nat \<Rightarrow> u32 list \<Rightarrow> string \<Rightarrow> u32 list" where
  "semverNumbers part r [] = r"
| "semverNumbers part r (c # s) =
     (if c = CHR ''.'' \<and> part < 3 then semverNumbers (part + 1) r s
      else if is_digit c then semverNumbers part (r[part := r ! part * 10 + of_nat (digit_val c)]) s
      else semverNumbers part r s)"

definition semverInts :: "string \<Rightarrow> int list" where
  "semverInts v = map sint (semverNumbers 0 [0, 0, 0, 0] v)"

fun compareInts :: "int list \<Rightarrow> int list \<Rightarrow> int" where
  "compareInts (a # as) (b # bs) = (if a < b then -1 else if b < a then 1 else compareInts as bs)"
| "compareInts _ _ = 0"

definition semverCmp :: "string \<Rightarrow> string \<Rightarrow> int" where
  "semverCmp a b = compareInts (semverInts a) (semverInts b)"

section \<open>The manifest\<close>

type_synonym Directory = "(string \<times> bytes) list"

record UpdateManifestEntry =
  me_platform :: string
  me_version :: string
  me_filename :: string
  me_sha256hex :: string
  me_sigSize :: nat

text \<open>The outside world of a scan: the trust chain, which calls succeed on which names, and whether each of
  the two directory iterations does.\<close>

record 'k ScanEnv =
  sc_ossl :: "'k Ossl"
  sc_roots :: "RootKey list"
  sc_policy :: Policy
  sc_sha256 :: "bytes \<Rightarrow> bytes"
  sc_open :: "string \<Rightarrow> bool"
  sc_size :: "string \<Rightarrow> bool"
  sc_remove :: "string \<Rightarrow> bool"
  sc_iter1 :: bool
  sc_iter2 :: bool

definition readName :: "'k ScanEnv \<Rightarrow> Directory \<Rightarrow> string \<Rightarrow> bytes option" where
  "readName env dir name = (if sc_open env name then map_of dir name else None)"

definition sha256FileHex :: "'k ScanEnv \<Rightarrow> Directory \<Rightarrow> string \<Rightarrow> string" where
  "sha256FileHex env dir name =
     (case readName env dir name of None \<Rightarrow> [] | Some b \<Rightarrow> hexEncode (sc_sha256 env b))"

definition sigName :: "string \<Rightarrow> string" where "sigName name = name @ ''.sig''"

text \<open>Pass 1 for one file.\<close>

definition scanFile :: "'k ScanEnv \<Rightarrow> Directory \<Rightarrow> string \<Rightarrow> UpdateManifestEntry option" where
  "scanFile env dir name =
     (if has_suffix ''.sig'' name then None
      else let info = parseClientBinaryFilename name in
      if \<not> cb_valid info \<or> \<not> isKnownClientPlatform (cb_platform info) then None
      else if \<not> has_key (sigName name) dir then None
      else case verifyArtifactFiles (sc_ossl env) (sc_roots env) (readName env dir) name (sigName name)
                  (cb_platform info) (sc_policy env) of
        Some (Inr _) \<Rightarrow>
          (let sha = sha256FileHex env dir name in
           if sha = [] then None
           else Some \<lparr> me_platform = cb_platform info, me_version = cb_version info, me_filename = name,
                  me_sha256hex = sha,
                  me_sigSize = (if sc_size env (sigName name) then length (the (map_of dir (sigName name))) else 0) \<rparr>)
      | _ \<Rightarrow> None)"

definition scanCandidates :: "'k ScanEnv \<Rightarrow> Directory \<Rightarrow> UpdateManifestEntry list" where
  "scanCandidates env dir = (if sc_iter1 env then List.map_filter (scanFile env dir) (map fst dir) else [])"

text \<open>Pass 2: the highest version of each platform, the first one among equals.\<close>

fun keepBest :: "UpdateManifestEntry \<Rightarrow> UpdateManifestEntry list \<Rightarrow> UpdateManifestEntry list" where
  "keepBest c [] = [c]"
| "keepBest c (k # ks) =
     (if me_platform k = me_platform c
      then (if semverCmp (me_version c) (me_version k) > 0 then c # ks else k # ks)
      else k # keepBest c ks)"

definition keepers :: "UpdateManifestEntry list \<Rightarrow> UpdateManifestEntry list" where
  "keepers cs = foldl (\<lambda>ks c. keepBest c ks) [] cs"

definition keepNames :: "UpdateManifestEntry list \<Rightarrow> string set" where
  "keepNames ks = me_filename ` set ks \<union> (sigName \<circ> me_filename) ` set ks"

text \<open>All passes: the manifest and the directory after them.\<close>

definition scanUpdateDir :: "'k ScanEnv \<Rightarrow> Directory \<Rightarrow> UpdateManifestEntry list \<times> Directory" where
  "scanUpdateDir env dir =
     (let ks = keepers (scanCandidates env dir)
      in (ks, if sc_iter2 env
              then filter (\<lambda>(name, _). name \<in> keepNames ks \<or> \<not> sc_remove env name) dir else dir))"

section \<open>What clients ask\<close>

type_synonym UpdResponse = "nat \<times> (string \<times> string) list \<times> string"

text \<open>A missing parameter is empty.\<close>

definition param :: "(string \<times> string) list \<Rightarrow> string \<Rightarrow> string" where
  "param ps k = (case map_of ps k of None \<Rightarrow> [] | Some v \<Rightarrow> v)"

text \<open>The check of the public key at the start of each handler: the error, or nothing.\<close>

definition updateAuth :: "bytes set \<Rightarrow> string \<Rightarrow> (nat \<times> string) option" where
  "updateAuth allowed pubkeyHex =
     (if length pubkeyHex \<noteq> 64 then Some (400, errorBody ''pubkey must be 64 hex characters'')
      else let rawKey = hexToRaw32 pubkeyHex in
      if rawKey = [] then Some (400, errorBody ''pubkey must be valid hex'')
      else if rawKey \<notin> allowed then Some (401, errorBody ''unauthorized'')
      else None)"

definition bestEntry :: "string \<Rightarrow> UpdateManifestEntry list \<Rightarrow> UpdateManifestEntry option" where
  "bestEntry platform manifest =
     foldl (\<lambda>best m.
        if me_platform m = platform
        then (case best of None \<Rightarrow> Some m
              | Some b \<Rightarrow> if semverCmp (me_version m) (me_version b) > 0 then Some m else best)
        else best) None manifest"

definition updateJson :: "UpdateManifestEntry \<Rightarrow> string" where
  "updateJson best =
     ''{\"update_available\":true,\"version\":\"'' @ jsonEsc (me_version best) @ ''\",\"sha256\":\"'' @ jsonEsc (me_sha256hex best)
     @ ''\",\"filename\":\"'' @ jsonEsc (me_filename best) @ ''\",\"sig_size\":'' @ show_nat (me_sigSize best) @ ''}'' @ [LF]"

definition getUpdateCheck :: "bytes set \<Rightarrow> UpdateManifestEntry list \<Rightarrow> (string \<times> string) list \<Rightarrow> UpdResponse" where
  "getUpdateCheck allowed manifest ps =
     (let hs = [(''Cache-Control'', ''no-store'')]; version = param ps ''version'' in
      case updateAuth allowed (param ps ''pubkey'') of Some (code, body) \<Rightarrow> (code, hs, body)
      | None \<Rightarrow>
          (case bestEntry (param ps ''platform'') manifest of
             None \<Rightarrow> (200, hs, ''{\"update_available\":false}'' @ [LF])
           | Some best \<Rightarrow>
               if version \<noteq> [] \<and> semverCmp (me_version best) version \<le> 0
               then (200, hs, ''{\"update_available\":false}'' @ [LF])
               else (200, hs, updateJson best)))"

text \<open>\<open>GET /api/update/download\<close> and \<open>GET /api/update/download_sig\<close>.\<close>

definition serveFile :: "(string \<Rightarrow> bool) \<Rightarrow> Directory \<Rightarrow> string \<Rightarrow> string \<Rightarrow> UpdResponse" where
  "serveFile canOpen dir name missing =
     (case (if canOpen name then map_of dir name else None) of
        None \<Rightarrow> (404, [], errorBody missing)
      | Some body \<Rightarrow>
          (200, [(''Content-Disposition'', ''attachment; filename=\"'' @ name @ ''\"'')], bytes_str body))"

definition getUpdateDownload ::
  "bytes set \<Rightarrow> (string \<Rightarrow> bool) \<Rightarrow> Directory \<Rightarrow> UpdateManifestEntry list \<Rightarrow> (string \<times> string) list \<Rightarrow> UpdResponse" where
  "getUpdateDownload allowed canOpen dir manifest ps =
     (case updateAuth allowed (param ps ''pubkey'') of Some (code, body) \<Rightarrow> (code, [], body)
      | None \<Rightarrow>
          (case bestEntry (param ps ''platform'') manifest of
             None \<Rightarrow> (404, [], errorBody ''no binary for platform'')
           | Some best \<Rightarrow> serveFile canOpen dir (me_filename best) ''binary not accessible''))"

definition getUpdateDownloadSig ::
  "bytes set \<Rightarrow> (string \<Rightarrow> bool) \<Rightarrow> Directory \<Rightarrow> UpdateManifestEntry list \<Rightarrow> (string \<times> string) list \<Rightarrow> UpdResponse" where
  "getUpdateDownloadSig allowed canOpen dir manifest ps =
     (case updateAuth allowed (param ps ''pubkey'') of Some (code, body) \<Rightarrow> (code, [], body)
      | None \<Rightarrow>
          (case bestEntry (param ps ''platform'') manifest of
             None \<Rightarrow> (404, [], errorBody ''no binary for platform'')
           | Some best \<Rightarrow> serveFile canOpen dir (sigName (me_filename best)) ''signature file not accessible''))"

definition postUpdateScan :: "'k ScanEnv \<Rightarrow> Directory \<Rightarrow> (nat \<times> string) \<times> UpdateManifestEntry list \<times> Directory" where
  "postUpdateScan env dir =
     (case scanUpdateDir env dir of (ks, dir') \<Rightarrow>
        ((200, ''{\"ok\":true,\"count\":'' @ show_nat (length ks) @ ''}'' @ [LF]), ks, dir'))"

section \<open>Pushing a client binary\<close>

record UpdateServer =
  ud_dir :: Directory
  ud_manifest :: "UpdateManifestEntry list"
  ud_nonces :: NonceStore
  ud_nonceLimiter :: WebRateLimiter
  ud_pushLimiter :: WebRateLimiter

text \<open>The outside world of a request: the scan that ends a push, the policy at its verification, hashing,
  random bytes, clocks, and the file operations.\<close>

record 'k ClientPushEnv =
  cp_scan :: "'k ScanEnv"
  cp_policy :: Policy
  cp_sha3 :: "bytes \<Rightarrow> bytes"
  cp_rand :: "bytes option"
  cp_now :: int
  cp_now1 :: int
  cp_now2 :: int
  cp_write :: WriteEnv

definition platVers :: "UpdateManifestEntry list \<Rightarrow> string" where
  "platVers ms = ''{'' @ join_with '','' (map (\<lambda>m. [DQ] @ jsonEsc (me_platform m) @ [DQ, CHR '':'', DQ] @ jsonEsc (me_version m) @ [DQ]) ms) @ ''}''"

definition clientNonce :: "'k ClientPushEnv \<Rightarrow> string \<Rightarrow> UpdateServer \<Rightarrow> (nat \<times> string) \<times> UpdateServer" where
  "clientNonce env ip s =
     (case rateTryAcquire (cp_now env) ip (ud_nonceLimiter s) of
        (False, l) \<Rightarrow> ((429, errorBody ''rate limit exceeded''), s\<lparr> ud_nonceLimiter := l \<rparr>)
      | (True, l) \<Rightarrow>
          (case generate (cp_rand env) (cp_now1 env) (cp_now2 env) 300 (ud_nonces s) of
             (nonce, st) \<Rightarrow>
               (let s' = s\<lparr> ud_nonceLimiter := l, ud_nonces := st \<rparr> in
                if nonce = [] then ((500, errorBody ''nonce generation failed''), s')
                else ((200, ''{\"nonce\":\"'' @ nonce @ ''\",\"platform_versions\":'' @ platVers (ud_manifest s) @ ''}'' @ [LF]), s'))))"

record ClientPushForm =
  cf_platform :: string
  cf_version :: string
  cf_nonce :: string
  cf_auth_proof :: string
  cf_binary :: string
  cf_signature :: string

definition clientPushForm :: "(string \<times> string) list \<Rightarrow> (string \<times> string) list \<Rightarrow> ClientPushForm" where
  "clientPushForm flds fls =
     \<lparr> cf_platform = getField flds fls ''platform'', cf_version = getField flds fls ''version'',
       cf_nonce = getField flds fls ''nonce'', cf_auth_proof = getField flds fls ''auth_proof'',
       cf_binary = getField flds fls ''binary'', cf_signature = getField flds fls ''signature'' \<rparr>"

definition binaryName :: "string \<Rightarrow> string \<Rightarrow> string" where
  "binaryName platform version =
     ''ntm-client-'' @ platform @ ''-'' @ version @ (if find_str ''windows'' platform \<noteq> None then ''.exe'' else [])"

text \<open>Step (h): a write to a temporary file that fails leaves some bytes; the destructor of the stream writes
  what is still buffered and drops the error, so the disk may keep less than was written; \<open>cleanup\<close> removes
  both files.\<close>

definition dirWrite :: "bool \<Rightarrow> bytes \<Rightarrow> (nat \<Rightarrow> nat) \<Rightarrow> string \<Rightarrow> bytes \<Rightarrow> Directory \<Rightarrow> bool \<times> Directory" where
  "dirWrite ok partial kept name content d =
     (if content = [] \<or> ok then (True, AList.update name (diskKept kept content) d)
      else (False, AList.update name partial d))"

definition dirRename :: "string \<Rightarrow> string \<Rightarrow> Directory \<Rightarrow> Directory" where
  "dirRename p q d = (case map_of d p of None \<Rightarrow> d | Some b \<Rightarrow> AList.update q b (erase p d))"

definition dirCleanup :: "string \<Rightarrow> Directory \<Rightarrow> Directory" where
  "dirCleanup filename d = erase (filename @ ''.sig.upload_tmp'') (erase (filename @ ''.upload_tmp'') d)"

definition storeClientBinary :: "WriteEnv \<Rightarrow> string \<Rightarrow> bytes \<Rightarrow> bytes \<Rightarrow> Directory \<Rightarrow> (string + unit) \<times> Directory" where
  "storeClientBinary we filename bin sig d =
     (let binTmp = filename @ ''.upload_tmp''; sigTmp = filename @ ''.sig.upload_tmp'' in
      if \<not> we_openBin we then (Inl ''cannot create temp file'', dirCleanup filename d)
      else case dirWrite (we_writeBin we) (we_partial we) (we_keptBin we) binTmp bin d of
        (False, d1) \<Rightarrow> (Inl ''write failed'', dirCleanup filename d1)
      | (True, d1) \<Rightarrow>
          if \<not> we_chmod we then (Inl ''chmod failed'', dirCleanup filename d1)
          else if \<not> we_openSig we then (Inl ''cannot create sig temp file'', dirCleanup filename d1)
          else case dirWrite (we_writeSig we) (we_partial we) (we_keptSig we) sigTmp sig d1 of
            (False, d2) \<Rightarrow> (Inl ''sig write failed'', dirCleanup filename d2)
          | (True, d2) \<Rightarrow>
              if \<not> we_renameSig we then (Inl ''sig rename failed'', dirCleanup filename d2)
              else let d3 = dirRename sigTmp (filename @ ''.sig'') d2 in
                   if \<not> we_renameBin we then (Inl ''binary rename failed'', d3)
                   else (Inr (), dirRename binTmp filename d3))"

text \<open>Step (g): the first entry of the platform decides.\<close>

definition notNewer :: "Semver \<Rightarrow> string \<Rightarrow> UpdateManifestEntry list \<Rightarrow> string option" where
  "notNewer newVer platform manifest =
     (case find (\<lambda>m. me_platform m = platform) manifest of None \<Rightarrow> None
      | Some m \<Rightarrow>
          (let curVer = parseSemver (me_version m) in
           if sv_valid curVer \<and> semver_le newVer curVer
           then Some (''pushed version '' @ semver_str newVer @ '' is not newer than current '' @ semver_str curVer
                      @ '' for platform '' @ platform)
           else None))"

text \<open>Steps (b) to (h), after the nonce was consumed.\<close>

definition clientPushApply :: "'k ClientPushEnv \<Rightarrow> ClientPushForm \<Rightarrow> UpdateServer \<Rightarrow> (nat \<times> string) \<times> UpdateServer" where
  "clientPushApply env form s =
     (let binaryBytes = str_bytes (cf_binary form);
          sigBytes = str_bytes (cf_signature form);
          nonceBytes = hexDecode (cf_nonce form);
          binaryHash = cp_sha3 env binaryBytes;
          authProof = base64Decode (cf_auth_proof form);
          sc = cp_scan env
      in if nonceBytes = [] \<or> binaryHash = [] \<or> authProof = []
         then ((400, errorBody ''malformed nonce, binary, or auth_proof''), s)
         else if \<not> isKnownClientPlatform (cf_platform form) then ((400, errorBody ''unknown platform''), s)
         else case verifyArtifactBytes (sc_ossl sc) (sc_roots sc) binaryBytes sigBytes (cf_platform form) (cp_policy env) of
           Inl _ \<Rightarrow> ((403, errorBody ''binary signature verification failed''), s)
         | Inr pushTrust \<Rightarrow>
             (case verifyUpgradeAuth (sc_ossl sc) nonceBytes binaryHash authProof (vf_keySpki pushTrust) of
                Inl _ \<Rightarrow> ((403, errorBody ''auth proof verification failed''), s)
              | Inr _ \<Rightarrow>
                  (let newVer = parseSemver (cf_version form) in
                   if \<not> sv_valid newVer then ((400, errorBody ''unparseable version string''), s)
                   else case notNewer newVer (cf_platform form) (ud_manifest s) of
                     Some msg \<Rightarrow> ((409, errorBody msg), s)
                   | None \<Rightarrow>
                       (case storeClientBinary (cp_write env) (binaryName (cf_platform form) (cf_version form))
                               binaryBytes sigBytes (ud_dir s) of
                          (Inl e, d) \<Rightarrow> ((500, errorBody e), s\<lparr> ud_dir := d \<rparr>)
                        | (Inr _, d) \<Rightarrow>
                            (case scanUpdateDir sc d of (ks, d') \<Rightarrow>
                               ((200, ''{\"ok\":true,\"platform\":\"'' @ jsonEsc (cf_platform form) @ ''\",\"version\":\"''
                                   @ jsonEsc (cf_version form) @ ''\"}'' @ [LF]),
                                s\<lparr> ud_dir := d', ud_manifest := ks \<rparr>))))))"

definition clientPush ::
  "'k ClientPushEnv \<Rightarrow> string \<Rightarrow> (string \<times> string) list \<Rightarrow> (string \<times> string) list \<Rightarrow> UpdateServer \<Rightarrow>
    (nat \<times> string) \<times> UpdateServer" where
  "clientPush env ip flds fls s =
     (case rateTryAcquire (cp_now env) ip (ud_pushLimiter s) of
        (False, l) \<Rightarrow> ((429, errorBody ''rate limit exceeded''), s\<lparr> ud_pushLimiter := l \<rparr>)
      | (True, l) \<Rightarrow>
          (let s1 = s\<lparr> ud_pushLimiter := l \<rparr>; form = clientPushForm flds fls in
           if cf_platform form = [] \<or> cf_version form = [] \<or> cf_nonce form = [] \<or> cf_auth_proof form = []
              \<or> cf_binary form = [] \<or> cf_signature form = []
           then ((400, errorBody ''missing required field''), s1)
           else case consume (cp_now1 env) (cp_now2 env) (cf_nonce form) (ud_nonces s1) of
             (False, st) \<Rightarrow> ((403, errorBody ''invalid, expired, or already-used nonce''), s1\<lparr> ud_nonces := st \<rparr>)
           | (True, st) \<Rightarrow> clientPushApply env form (s1\<lparr> ud_nonces := st \<rparr>)))"

section \<open>Lemmas: versions\<close>

lemma length_semverNumbers [simp]: "length (semverNumbers p r s) = length r"
  by (induction p r s rule: semverNumbers.induct) auto

lemma length_semverInts [simp]: "length (semverInts v) = 4"
  by (simp add: semverInts_def)

lemma compareInts_refl [simp]: "compareInts a a = 0"
  by (induction a) auto

lemma compareInts_swap: "compareInts a b = - compareInts b a"
  by (induction a b rule: compareInts.induct) auto

lemma compareInts_trans:
  "compareInts a b \<le> 0 \<Longrightarrow> compareInts b c \<le> 0 \<Longrightarrow> length a = length b \<Longrightarrow> length b = length c \<Longrightarrow> compareInts a c \<le> 0"
proof (induction a b arbitrary: c rule: compareInts.induct)
  case (1 x a y b)
  from "1.prems"(4) obtain z c' where c: "c = z # c'" by (cases c) simp_all
  have "x \<le> y" using "1.prems"(1) by (simp split: if_splits)
  moreover have "y \<le> z" using "1.prems"(2) by (simp add: c split: if_splits)
  ultimately consider "x < z" | "x = y" "y = z" by linarith
  then show ?case
  proof cases
    case 1
    then show ?thesis by (simp add: c)
  next
    case 2
    have "compareInts a c' \<le> 0" by (rule "1.IH") (use 2 "1.prems" c in simp_all)
    with 2 show ?thesis by (simp add: c)
  qed
qed auto

lemma semverCmp_refl [simp]: "semverCmp a a = 0"
  by (simp add: semverCmp_def)

lemma semverCmp_total: "\<not> semverCmp a b > 0 \<longleftrightarrow> semverCmp a b \<le> 0"
  by auto

lemma semverCmp_swap: "semverCmp a b > 0 \<Longrightarrow> semverCmp b a \<le> 0"
  using compareInts_swap [of "semverInts a" "semverInts b"] by (simp add: semverCmp_def)

lemma semverCmp_trans: "semverCmp a b \<le> 0 \<Longrightarrow> semverCmp b c \<le> 0 \<Longrightarrow> semverCmp a c \<le> 0"
  unfolding semverCmp_def by (rule compareInts_trans) auto

section \<open>Lemmas: the manifest\<close>

lemma keepBest_platforms:
  "distinct (map me_platform ks) \<Longrightarrow> distinct (map me_platform (keepBest c ks))"
  "me_platform ` set (keepBest c ks) = insert (me_platform c) (me_platform ` set ks)"
proof -
  show set: "me_platform ` set (keepBest c ks) = insert (me_platform c) (me_platform ` set ks)" for ks
    by (induction ks) auto
  show "distinct (map me_platform ks) \<Longrightarrow> distinct (map me_platform (keepBest c ks))"
  proof (induction ks)
    case (Cons k ks)
    then show ?case using set [of ks] by (auto simp: image_iff)
  qed simp
qed

lemma keepBest_set: "set (keepBest c ks) \<subseteq> insert c (set ks)"
  by (induction ks) auto

lemma keepBest_upper:
  "m \<in> insert c (set ks) \<Longrightarrow> \<exists>k \<in> set (keepBest c ks). me_platform k = me_platform m \<and> semverCmp (me_version m) (me_version k) \<le> 0"
proof (induction ks)
  case (Cons k ks)
  consider (other) "me_platform k \<noteq> me_platform c" | (newer) "me_platform k = me_platform c" "semverCmp (me_version c) (me_version k) > 0"
    | (older) "me_platform k = me_platform c" "semverCmp (me_version c) (me_version k) \<le> 0" by fastforce
  then show ?case
  proof cases
    case other
    with Cons show ?thesis by (cases "m = k") auto
  next
    case newer
    with Cons.prems semverCmp_swap [OF newer(2)] show ?thesis by (cases "m = k") auto
  next
    case older
    with Cons.prems show ?thesis by (cases "m = c") auto
  qed
qed auto

lemma keepers_snoc: "keepers (cs @ [c]) = keepBest c (keepers cs)"
  by (simp add: keepers_def)

lemma keepers_best:
  "distinct (map me_platform (keepers cs)) \<and> set (keepers cs) \<subseteq> set cs \<and>
   (\<forall>c \<in> set cs. \<exists>k \<in> set (keepers cs). me_platform k = me_platform c \<and> semverCmp (me_version c) (me_version k) \<le> 0)"
proof (induction cs rule: rev_induct)
  case Nil
  show ?case by (simp add: keepers_def)
next
  case (snoc c cs)
  have "\<exists>k \<in> set (keepBest c (keepers cs)). me_platform k = me_platform m \<and> semverCmp (me_version m) (me_version k) \<le> 0"
    if m: "m \<in> set (cs @ [c])" for m
  proof (cases "m = c")
    case True
    then show ?thesis by (intro keepBest_upper) simp
  next
    case False
    with m snoc obtain k where k: "k \<in> set (keepers cs)" "me_platform k = me_platform m" "semverCmp (me_version m) (me_version k) \<le> 0"
      by auto
    from keepBest_upper [of k c "keepers cs"] k(1) obtain k' where "k' \<in> set (keepBest c (keepers cs))"
      "me_platform k' = me_platform k" "semverCmp (me_version k) (me_version k') \<le> 0" by blast
    with k show ?thesis using semverCmp_trans by metis
  qed
  with snoc keepBest_platforms(1) [of "keepers cs" c] keepBest_set [of c "keepers cs"] show ?case
    unfolding keepers_snoc by auto
qed

lemma set_map_filter: "set (List.map_filter f xs) = {y. \<exists>x \<in> set xs. f x = Some y}"
  by (force simp: List.map_filter_def)

text \<open>What an accepted file is.\<close>

lemma scanFile_Some:
  assumes "scanFile env dir name = Some m"
  shows "me_filename m = name \<and> isKnownClientPlatform (me_platform m) \<and>
    cb_valid (parseClientBinaryFilename name) \<and> me_platform m = cb_platform (parseClientBinaryFilename name) \<and>
    me_version m = cb_version (parseClientBinaryFilename name) \<and>
    (\<exists>bin sig v. map_of dir name = Some bin \<and> map_of dir (sigName name) = Some sig \<and>
       verifyArtifactBytes (sc_ossl env) (sc_roots env) bin sig (me_platform m) (sc_policy env) = Inr v \<and>
       me_sha256hex m = hexEncode (sc_sha256 env bin) \<and>
       me_sigSize m = (if sc_size env (sigName name) then length sig else 0))"
  using assms unfolding scanFile_def Let_def
  by (auto simp: verifyArtifactFiles_def readName_def sha256FileHex_def split: if_splits option.splits sum.splits)

section \<open>Lemmas: a push\<close>

text \<open>A pushed binary and its signature stand in the directory under their names.\<close>

lemma storeClientBinary_Inr:
  assumes "storeClientBinary we name bin sig d = (Inr u, d')"
  shows "map_of d' name = Some (diskKept (we_keptBin we) bin) \<and> map_of d' (sigName name) = Some (diskKept (we_keptSig we) sig)"
proof -
  have ne: "name @ x \<noteq> name" if "x \<noteq> []" for x :: string using that by simp
  from assms show ?thesis
    by (auto simp: storeClientBinary_def dirWrite_def dirRename_def sigName_def Let_def update_conv' map_of_erase
        split: if_splits)
qed

text \<open>What a push that reaches the directory has passed.\<close>

definition push_proved :: "'k ClientPushEnv \<Rightarrow> ClientPushForm \<Rightarrow> UpdateManifestEntry list \<Rightarrow> bool" where
  "push_proved env form manifest \<longleftrightarrow>
     isKnownClientPlatform (cf_platform form) \<and>
     (\<exists>v. verifyArtifactBytes (sc_ossl (cp_scan env)) (sc_roots (cp_scan env)) (str_bytes (cf_binary form))
            (str_bytes (cf_signature form)) (cf_platform form) (cp_policy env) = Inr v \<and>
          verifyUpgradeAuth (sc_ossl (cp_scan env)) (hexDecode (cf_nonce form)) (cp_sha3 env (str_bytes (cf_binary form)))
            (base64Decode (cf_auth_proof form)) (vf_keySpki v) = Inr ()) \<and>
     sv_valid (parseSemver (cf_version form)) \<and>
     (\<forall>m. find (\<lambda>m. me_platform m = cf_platform form) manifest = Some m \<longrightarrow> sv_valid (parseSemver (me_version m)) \<longrightarrow>
        \<not> semver_le (parseSemver (cf_version form)) (parseSemver (me_version m)))"

lemma clientPushApply_changes:
  assumes run: "clientPushApply env form s = ((code, body), s')"
  shows "ud_dir s' \<noteq> ud_dir s \<or> ud_manifest s' \<noteq> ud_manifest s \<or> code = 200 \<Longrightarrow> push_proved env form (ud_manifest s)"
    "code = 200 \<Longrightarrow> \<exists>d. map_of d (binaryName (cf_platform form) (cf_version form)) =
         Some (diskKept (we_keptBin (cp_write env)) (str_bytes (cf_binary form))) \<and>
       map_of d (sigName (binaryName (cf_platform form) (cf_version form))) =
         Some (diskKept (we_keptSig (cp_write env)) (str_bytes (cf_signature form))) \<and>
       scanUpdateDir (cp_scan env) d = (ud_manifest s', ud_dir s')"
    "code \<noteq> 200 \<Longrightarrow> ud_manifest s' = ud_manifest s"
    "ud_nonces s' = ud_nonces s"
proof -
  let ?bin = "str_bytes (cf_binary form)" and ?sig = "str_bytes (cf_signature form)"
  let ?name = "binaryName (cf_platform form) (cf_version form)"
  have all: "(ud_dir s' \<noteq> ud_dir s \<or> ud_manifest s' \<noteq> ud_manifest s \<or> code = 200 \<longrightarrow> push_proved env form (ud_manifest s)) \<and>
    (code = 200 \<longrightarrow> (\<exists>d u. storeClientBinary (cp_write env) ?name ?bin ?sig (ud_dir s) = (Inr u, d) \<and>
       scanUpdateDir (cp_scan env) d = (ud_manifest s', ud_dir s'))) \<and>
    (code \<noteq> 200 \<longrightarrow> ud_manifest s' = ud_manifest s) \<and> ud_nonces s' = ud_nonces s"
    using run unfolding clientPushApply_def Let_def push_proved_def
    by (auto simp: notNewer_def Let_def split: if_splits sum.splits option.splits prod.splits)
  show "ud_dir s' \<noteq> ud_dir s \<or> ud_manifest s' \<noteq> ud_manifest s \<or> code = 200 \<Longrightarrow> push_proved env form (ud_manifest s)"
    "code \<noteq> 200 \<Longrightarrow> ud_manifest s' = ud_manifest s" "ud_nonces s' = ud_nonces s" using all by blast+
  show "\<exists>d. map_of d ?name = Some (diskKept (we_keptBin (cp_write env)) ?bin) \<and>
      map_of d (sigName ?name) = Some (diskKept (we_keptSig (cp_write env)) ?sig) \<and>
      scanUpdateDir (cp_scan env) d = (ud_manifest s', ud_dir s')" if "code = 200"
    using all that storeClientBinary_Inr by metis
qed

section \<open>Properties\<close>

text \<open>
  C29.  A scan of the update directory leaves a manifest with one entry for each platform at most; every
  entry is a file of that platform's name whose bundle passes the trust chain, with its SHA-256; no accepted
  file of the platform has a higher version; the files of the manifest stay as they were, and every other
  file is gone that could be removed.
\<close>

theorem scan_manifest_best:
  assumes "sc_iter1 env" and "sc_iter2 env" and "scanUpdateDir env dir = (ks, dir')"
  shows "distinct (map me_platform ks) \<and>
    (\<forall>m \<in> set ks. isKnownClientPlatform (me_platform m) \<and>
       (\<exists>bin sig v. map_of dir (me_filename m) = Some bin \<and> map_of dir (sigName (me_filename m)) = Some sig \<and>
          map_of dir' (me_filename m) = Some bin \<and> map_of dir' (sigName (me_filename m)) = Some sig \<and>
          me_sha256hex m = hexEncode (sc_sha256 env bin) \<and>
          verifyArtifactBytes (sc_ossl env) (sc_roots env) bin sig (me_platform m) (sc_policy env) = Inr v)) \<and>
    (\<forall>name c. scanFile env dir name = Some c \<longrightarrow>
       (\<exists>m \<in> set ks. me_platform m = me_platform c \<and> semverCmp (me_version c) (me_version m) \<le> 0)) \<and>
    (\<forall>name. map_of dir' name = (if name \<in> keepNames ks \<or> \<not> sc_remove env name then map_of dir name else None))"
proof -
  let ?cs = "scanCandidates env dir"
  have ks: "ks = keepers ?cs" and dir': "dir' = filter (\<lambda>(name, _). name \<in> keepNames ks \<or> \<not> sc_remove env name) dir"
    using assms by (auto simp: scanUpdateDir_def Let_def)
  have cand: "c \<in> set ?cs \<longleftrightarrow> (\<exists>name. scanFile env dir name = Some c)" for c
  proof -
    have "scanFile env dir name = Some c \<Longrightarrow> name \<in> set (map fst dir)" for name
      using scanFile_Some [of env dir name c] by (force dest: map_of_SomeD)
    then show ?thesis using assms(1) by (auto simp: scanCandidates_def set_map_filter)
  qed
  note best = keepers_best [of ?cs, folded ks]
  have lookup: "map_of dir' name = (if name \<in> keepNames ks \<or> \<not> sc_remove env name then map_of dir name else None)" for name
    unfolding dir' using map_of_filter_key [of "\<lambda>n. n \<in> keepNames ks \<or> \<not> sc_remove env n" dir] by (simp add: case_prod_beta')
  have "isKnownClientPlatform (me_platform m) \<and>
      (\<exists>bin sig v. map_of dir (me_filename m) = Some bin \<and> map_of dir (sigName (me_filename m)) = Some sig \<and>
         map_of dir' (me_filename m) = Some bin \<and> map_of dir' (sigName (me_filename m)) = Some sig \<and>
         me_sha256hex m = hexEncode (sc_sha256 env bin) \<and>
         verifyArtifactBytes (sc_ossl env) (sc_roots env) bin sig (me_platform m) (sc_policy env) = Inr v)"
    if m: "m \<in> set ks" for m
  proof -
    from m best have "m \<in> set ?cs" by blast
    then obtain name where n: "scanFile env dir name = Some m" by (auto simp: cand)
    have keep: "me_filename m \<in> keepNames ks" "sigName (me_filename m) \<in> keepNames ks"
      using m by (auto simp: keepNames_def)
    with scanFile_Some [OF n] show ?thesis by (auto simp: lookup)
  qed
  moreover have "\<exists>m \<in> set ks. me_platform m = me_platform c \<and> semverCmp (me_version c) (me_version m) \<le> 0"
    if "scanFile env dir name = Some c" for name c
    using best cand that by blast
  ultimately show ?thesis using best lookup by blast
qed

definition demo_scan :: "bytes ScanEnv" where
  "demo_scan = \<lparr> sc_ossl = demo_ossl, sc_roots = rs_keys demo_roots, sc_policy = acceptPolicy 0 3,
     sc_sha256 = (\<lambda>b. replicate 32 0), sc_open = (\<lambda>_. True), sc_size = (\<lambda>_. True), sc_remove = (\<lambda>_. True),
     sc_iter1 = True, sc_iter2 = True \<rparr>"

definition demo_name :: string where "demo_name = ''ntm-client-linux-amd64-1.2.3''"

definition demo_dir :: Directory where
  "demo_dir = [(demo_name, [5]), (sigName demo_name, printBundle demo_bundle), (''notes'', [1])]"

lemma demo_scanned: "\<exists>c. scanFile demo_scan demo_dir demo_name = Some c"
proof -
  have n: "\<not> has_suffix ''.sig'' demo_name" "parseClientBinaryFilename demo_name =
      \<lparr> cb_platform = ''linux-amd64'', cb_version = ''1.2.3'', cb_filename = demo_name, cb_isWindows = False, cb_valid = True \<rparr>"
    by (code_simp, code_simp)
  have d: "map_of demo_dir demo_name = Some [5]" "map_of demo_dir (sigName demo_name) = Some (printBundle demo_bundle)"
    by (simp_all add: demo_dir_def sigName_def)
  have e: "readName demo_scan demo_dir = map_of demo_dir" by (rule ext) (simp add: readName_def demo_scan_def)
  have p: "kServerPlatform = ''linux-amd64''" by (simp add: kServerPlatform_def)
  have v: "verifyArtifactFiles (sc_ossl demo_scan) (sc_roots demo_scan) (map_of demo_dir) demo_name (sigName demo_name)
      ''linux-amd64'' (sc_policy demo_scan) = Some (Inr \<lparr> vf_delegationVersion = 7, vf_expires = civil_seconds demo_time,
        vf_keyId = ''b1'', vf_keySpki = [9] \<rparr>)"
    using demo_artifact unfolding p by (simp add: verifyArtifactFiles_def d demo_scan_def)
  have h: "hexEncode (sc_sha256 demo_scan [5]) \<noteq> []" by (simp add: demo_scan_def hexEncode_def)
  show ?thesis unfolding scanFile_def Let_def
    using n(1) h by (simp add: n(2) isKnownClientPlatform_def has_key_def d e v sha256FileHex_def)
qed

theorem scan_manifest_best_witness:
  "fst (scanUpdateDir demo_scan demo_dir) \<noteq> [] \<and> map_of (snd (scanUpdateDir demo_scan demo_dir)) ''notes'' = None"
proof -
  obtain ks dir' where s: "scanUpdateDir demo_scan demo_dir = (ks, dir')" by (cases "scanUpdateDir demo_scan demo_dir")
  have i: "sc_iter1 demo_scan" "sc_iter2 demo_scan" by (simp_all add: demo_scan_def)
  note T = scan_manifest_best [OF i s]
  have "ks \<noteq> []" using T demo_scanned by auto
  moreover have "''notes'' \<notin> keepNames ks"
  proof
    assume n: "''notes'' \<in> keepNames ks"
    obtain c where c: "c \<in> set ks" "''notes'' = me_filename c \<or> ''notes'' = sigName (me_filename c)"
      using n by (auto simp: keepNames_def)
    then have "map_of demo_dir (sigName (me_filename c)) \<noteq> None" using T by auto
    moreover have "map_of demo_dir (sigName ''notes'') = None" by (simp add: demo_dir_def sigName_def demo_name_def)
    moreover have "sigName x \<noteq> ''notes''" for x
    proof
      assume "sigName x = ''notes''"
      then have "drop (length (sigName x) - 4) (sigName x) = drop 1 ''notes''" by simp
      then show False by (simp add: sigName_def)
    qed
    ultimately show False using c(2) by metis
  qed
  ultimately show ?thesis using T s by (simp add: demo_scan_def)
qed

text \<open>
  C13.  A pushed client binary reaches the update directory or the manifest only when the rate limiter
  admitted the request, a live unused nonce was consumed, the bundle passes the trust chain for a known
  platform, the same build key signed the nonce with the hash of the binary, and the version is newer than
  the one of the manifest.  The answer is 200 exactly when both files were stored (as far as the disk kept
  what was written) and the directory was
  scanned again; otherwise the manifest is unchanged.  The nonce of an accepted push is spent.
\<close>

theorem client_push_safe:
  assumes "clientPush env ip flds fls s = ((code, body), s')"
  shows "(ud_dir s' \<noteq> ud_dir s \<or> ud_manifest s' \<noteq> ud_manifest s \<or> code = 200 \<longrightarrow>
      fst (rateTryAcquire (cp_now env) ip (ud_pushLimiter s)) \<and>
      fst (consume (cp_now1 env) (cp_now2 env) (cf_nonce (clientPushForm flds fls)) (ud_nonces s)) \<and>
      push_proved env (clientPushForm flds fls) (ud_manifest s)) \<and>
    (code = 200 \<longrightarrow>
      (let name = binaryName (cf_platform (clientPushForm flds fls)) (cf_version (clientPushForm flds fls)) in
       \<exists>d. map_of d name = Some (diskKept (we_keptBin (cp_write env)) (str_bytes (cf_binary (clientPushForm flds fls)))) \<and>
         map_of d (sigName name) = Some (diskKept (we_keptSig (cp_write env)) (str_bytes (cf_signature (clientPushForm flds fls)))) \<and>
         scanUpdateDir (cp_scan env) d = (ud_manifest s', ud_dir s'))) \<and>
    (code \<noteq> 200 \<longrightarrow> ud_manifest s' = ud_manifest s) \<and>
    (keys_ok (ud_nonces s) \<and> code = 200 \<longrightarrow> \<not> fst (consume u' u (cf_nonce (clientPushForm flds fls)) (ud_nonces s')))"
proof -
  let ?form = "clientPushForm flds fls"
  obtain ok l where rl: "rateTryAcquire (cp_now env) ip (ud_pushLimiter s) = (ok, l)"
    by (cases "rateTryAcquire (cp_now env) ip (ud_pushLimiter s)")
  obtain used st where cn: "consume (cp_now1 env) (cp_now2 env) (cf_nonce ?form) (ud_nonces s) = (used, st)"
    by (cases "consume (cp_now1 env) (cp_now2 env) (cf_nonce ?form) (ud_nonces s)")
  define s2 where "s2 = s\<lparr> ud_pushLimiter := l, ud_nonces := st \<rparr>"
  have s2: "ud_dir s2 = ud_dir s" "ud_manifest s2 = ud_manifest s" "ud_nonces s2 = st" by (simp_all add: s2_def)
  show ?thesis
  proof (cases "ok \<and> used \<and> clientPushApply env ?form s2 = ((code, body), s')")
    case True
    then have a: "clientPushApply env ?form s2 = ((code, body), s')" by blast
    have sp: "keys_ok (ud_nonces s) \<Longrightarrow> \<not> fst (consume u' u (cf_nonce ?form) st)"
      using cn True by (intro consume_spends [of "ud_nonces s"]) simp_all
    from clientPushApply_changes [OF a] True sp rl cn show ?thesis unfolding s2 Let_def by simp
  next
    case False
    then have "ud_dir s' = ud_dir s \<and> ud_manifest s' = ud_manifest s \<and> code \<noteq> 200"
      using assms rl cn unfolding clientPush_def Let_def s2_def by (cases ok; cases used) (auto split: if_splits)
    then show ?thesis by simp
  qed
qed

definition demo_push_env :: "bytes ClientPushEnv" where
  "demo_push_env = \<lparr> cp_scan = demo_scan, cp_policy = acceptPolicy 0 3, cp_sha3 = (\<lambda>_. [1]), cp_rand = None,
     cp_now = 0, cp_now1 = 0, cp_now2 = 0, cp_write = ue_write demo_upgrade_env \<rparr>"

definition demo_update_server :: UpdateServer where
  "demo_update_server = \<lparr> ud_dir = [], ud_manifest = [], ud_nonces = [(''07'', \<lparr> ne_expiry = 5, ne_spent = False \<rparr>)],
     ud_nonceLimiter = newRateLimiter 5, ud_pushLimiter = newRateLimiter 1 \<rparr>"

definition demo_push_fields :: "(string \<times> string) list" where "demo_push_fields = (''platform'', kServerPlatform) # demo_fields"

lemma demo_push_form: "clientPushForm demo_push_fields demo_files = \<lparr> cf_platform = kServerPlatform, cf_version = demo_version 2,
    cf_nonce = ''07'', cf_auth_proof = base64 [9], cf_binary = [CHR 0x05], cf_signature = bytes_str (printBundle demo_bundle) \<rparr>"
  by (simp add: clientPushForm_def getField_def demo_push_fields_def demo_fields_def demo_files_def)

lemma demo_push_apply: "ud_manifest s = [] \<Longrightarrow>
  fst (fst (clientPushApply demo_push_env (clientPushForm demo_push_fields demo_files) s)) = 200"
proof -
  assume m: "ud_manifest s = []"
  have v: "sv_valid (parseSemver (demo_version 2))" by (simp add: demo_version_def parseSemver_str)
  have b: "base64Decode (base64 [9]) = [9]" using b64.dec_enc [of "[9]"] by simp
  have h: "hexDecode ''07'' = [7]" by (simp add: hexDecode_def nibble_def in_range_def code_of_def)
  have f: "str_bytes [CHR 0x05] = [5]" by (simp add: str_bytes_def code_of_def)
  have a: "verifyUpgradeAuth demo_ossl [7] [1] [9] [9] = Inr ()" by (simp add: verifyUpgradeAuth_def demo_ossl_def)
  have k: "isKnownClientPlatform kServerPlatform" by (simp add: isKnownClientPlatform_def kServerPlatform_def)
  obtain d where w: "storeClientBinary (cp_write demo_push_env) (binaryName kServerPlatform (demo_version 2)) [5]
      (printBundle demo_bundle) (ud_dir s) = (Inr (), d)"
    by (simp add: demo_push_env_def demo_upgrade_env_def storeClientBinary_def dirWrite_def all_steps_def Let_def)
  have e: "sc_ossl (cp_scan demo_push_env) = demo_ossl" "sc_roots (cp_scan demo_push_env) = rs_keys demo_roots"
    "cp_policy demo_push_env = acceptPolicy 0 3" "cp_sha3 demo_push_env x = [1]" for x
    by (simp_all add: demo_push_env_def demo_scan_def)
  show ?thesis unfolding clientPushApply_def Let_def demo_push_form
    by (simp add: b h f v a e w k m notNewer_def demo_artifact split: prod.split del: base64.simps)
qed

theorem client_push_safe_witness:
  "push_proved demo_push_env (clientPushForm demo_push_fields demo_files) [] \<and>
    fst (fst (clientPush demo_push_env ''10.0.0.1'' demo_push_fields demo_files demo_update_server)) = 200"
proof -
  obtain code body s' where p: "clientPush demo_push_env ''10.0.0.1'' demo_push_fields demo_files demo_update_server = ((code, body), s')"
    by (metis surj_pair)
  have "demo_version 2 \<noteq> []" by (simp add: demo_version_def semver_str_def)
  moreover have "bytes_str (printBundle demo_bundle) \<noteq> []" by (simp add: printBundle_def bundleLines_def)
  ultimately have c: "fst (fst (clientPush demo_push_env ''10.0.0.1'' demo_push_fields demo_files demo_update_server)) = 200"
    using demo_push_apply
    by (simp add: clientPush_def Let_def demo_push_form rateTryAcquire_def demo_update_server_def newRateLimiter_def popDrained_def
        consume_def purgeExpiredLocked_def erase_if_def demo_push_env_def [abs_def] at_or_def kServerPlatform_def)
  have "ud_manifest demo_update_server = []" by (simp add: demo_update_server_def)
  with client_push_safe [OF p] c p show ?thesis by simp
qed

end
