(* ===== verification/Updater.thy ===== *)
theory Updater
  imports UpdateDist DataLoop
begin

text \<open>
  The client's own update: \<open>updater.cpp\<close> (one check cycle with its stages, the periodic schedule), the HTTP
  and JSON helpers of \<open>client_http_util.hpp\<close>, and the error texts of \<open>trust.hpp\<close>.  The Linux branch is
  modelled.

  A connection is the list of chunks that arrive on it; an empty chunk or the end of the list ends it.  What
  the network answers to a request path, the private key, OpenSSL, SHA-256, the clock, the outcomes of
  file operations and what the disk keeps of a download are arguments.  Removing a temporary file is taken to succeed.
\<close>

section \<open>HTTP helpers\<close>

record ParsedUrl =
  pu_host :: string
  pu_port :: string
  pu_path :: string
  pu_ok :: bool

definition parseHttpUrl :: "string \<Rightarrow> ParsedUrl" where
  "parseHttpUrl url =
     (let none = \<lparr> pu_host = [], pu_port = [], pu_path = [], pu_ok = False \<rparr>; pre = ''http://'' in
      if length url \<le> length pre \<or> take (length pre) url \<noteq> pre then none
      else let rest = drop (length pre) url;
               hostPort = (case find_ch CHR ''/'' rest of None \<Rightarrow> rest | Some i \<Rightarrow> take i rest);
               path = (case find_ch CHR ''/'' rest of None \<Rightarrow> ''/'' | Some i \<Rightarrow> drop i rest);
               (host, port) = (case rfind_ch CHR '':'' hostPort of None \<Rightarrow> (hostPort, ''80'')
                 | Some i \<Rightarrow> (take i hostPort, drop (i + 1) hostPort))
           in \<lparr> pu_host = host, pu_port = port, pu_path = path, pu_ok = (host \<noteq> [] \<and> port \<noteq> []) \<rparr>)"

definition extractHttpBody :: "string \<Rightarrow> string" where
  "extractHttpBody response =
     (case find_str (CRLF @ CRLF) response of None \<Rightarrow> []
      | Some pos \<Rightarrow>
          (let ws = (\<lambda>c. c = CR \<or> c = LF \<or> c = SP \<or> c = TAB);
               body = ltrim ws (rtrim ws (drop (pos + 4) response));
               body1 = (case find_ch LF body of None \<Rightarrow> body | Some nl \<Rightarrow> if nl \<le> 7 then drop (nl + 1) body else body)
           in rtrim ws body1))"

definition buildGetRequest :: "string \<Rightarrow> string \<Rightarrow> string" where
  "buildGetRequest path host =
     ''GET '' @ path @ '' HTTP/1.0'' @ CRLF @ ''Host: '' @ host @ CRLF @ ''Connection: close'' @ CRLF @ CRLF"

definition hasValidHostname :: "string \<Rightarrow> bool" where
  "hasValidHostname host \<longleftrightarrow> CR \<notin> set host \<and> LF \<notin> set host"

text \<open>The text of a string up to its closing quote; \<open>None\<close> if there is none.\<close>

fun jsonStrText :: "string \<Rightarrow> string option" where
  "jsonStrText [] = None"
| "jsonStrText [c] = (if c = DQ then Some [] else None)"
| "jsonStrText (c # e # s) =
     (if c = CHR 0x5C then map_option ((#) e) (jsonStrText s)
      else if c = DQ then Some []
      else map_option ((#) c) (jsonStrText (e # s)))"

definition jsonStr :: "string \<Rightarrow> string \<Rightarrow> string" where
  "jsonStr json key =
     (case find_str (DQ # key @ [DQ, CHR '':'', DQ]) json of None \<Rightarrow> []
      | Some pos \<Rightarrow> (case jsonStrText (drop (pos + (length key + 4)) json) of None \<Rightarrow> [] | Some v \<Rightarrow> v))"

definition jsonAfter :: "string \<Rightarrow> string \<Rightarrow> string option" where
  "jsonAfter json key =
     map_option (\<lambda>pos. dropWhile (\<lambda>c. c = SP \<or> c = TAB) (drop (pos + (length key + 3)) json))
       (find_str (DQ # key @ [DQ, CHR '':'']) json)"

definition jsonBool :: "string \<Rightarrow> string \<Rightarrow> bool \<Rightarrow> bool" where
  "jsonBool json key d =
     (case jsonAfter json key of None \<Rightarrow> d
      | Some r \<Rightarrow> if starts_with ''true'' r then True else if starts_with ''false'' r then False else d)"

text \<open>\<open>strtoll\<close> and \<open>strtol\<close>: \<open>None\<close> if nothing was converted; an out-of-range value is clamped.
  \<open>std::stoll\<close> throws there.\<close>

definition strtoll :: "string \<Rightarrow> int option" where
  "strtoll s =
     (let s1 = dropWhile is_space s;
          neg = (s1 \<noteq> [] \<and> hd s1 = CHR ''-'');
          s2 = (if s1 \<noteq> [] \<and> hd s1 \<in> {CHR ''-'', CHR ''+''} then tl s1 else s1);
          ds = takeWhile is_digit s2;
          v = (if neg then - int (dec_val ds) else int (dec_val ds))
      in if ds = [] then None else Some (max (- (2 ^ 63)) (min (2 ^ 63 - 1) v)))"

definition stoll :: "string \<Rightarrow> int option" where
  "stoll s =
     (let s1 = dropWhile is_space s;
          neg = (s1 \<noteq> [] \<and> hd s1 = CHR ''-'');
          s2 = (if s1 \<noteq> [] \<and> hd s1 \<in> {CHR ''-'', CHR ''+''} then tl s1 else s1);
          ds = takeWhile is_digit s2;
          v = (if neg then - int (dec_val ds) else int (dec_val ds))
      in if ds = [] \<or> v < - (2 ^ 63) \<or> v > 2 ^ 63 - 1 then None else Some v)"

definition jsonInt :: "string \<Rightarrow> string \<Rightarrow> int \<Rightarrow> int" where
  "jsonInt json key d =
     (case jsonAfter json key of None \<Rightarrow> d
      | Some r \<Rightarrow> (case strtoll r of None \<Rightarrow> d | Some v \<Rightarrow> v))"

text \<open>The cast to \<open>int\<close> keeps the low 32 bits.\<close>

definition parseHttpStatus :: "string \<Rightarrow> int" where
  "parseHttpStatus response =
     (if length response < 12 \<or> take 5 response \<noteq> ''HTTP/'' then 0
      else case find_ch SP response of None \<Rightarrow> 0
      | Some sp \<Rightarrow> (case strtoll (drop (sp + 1) response) of None \<Rightarrow> 0 | Some v \<Rightarrow> sint (of_int v :: u32)))"

definition parseHttpBody :: "string \<Rightarrow> string" where
  "parseHttpBody response =
     (case find_str (CRLF @ CRLF) response of None \<Rightarrow> [] | Some sep \<Rightarrow> drop (sep + 4) response)"

section \<open>Requests\<close>

text \<open>One request: whether the connection is made and the request written, and the chunks that arrive.\<close>

record HttpTry =
  ht_connect :: bool
  ht_write :: bool
  ht_chunks :: "string list"

fun ssl_read :: "nat \<Rightarrow> string list \<Rightarrow> string \<times> string list" where
  "ssl_read n [] = ([], [])"
| "ssl_read n (c # cs) = (take n c, if length c \<le> n then cs else drop n c # cs)"

definition pending_bytes :: "string list \<Rightarrow> nat" where
  "pending_bytes cs = sum_list (map length cs)"

lemma ssl_read_less: "ssl_read n cs = (r, cs') \<Longrightarrow> r \<noteq> [] \<Longrightarrow> pending_bytes cs' < pending_bytes cs"
  by (cases cs) (auto simp: pending_bytes_def split: if_splits)

function sslRead :: "nat \<Rightarrow> string \<Rightarrow> string list \<Rightarrow> string" where
  "sslRead limit out cs =
     (if length out < limit
      then (case ssl_read 8192 cs of (r, cs') \<Rightarrow> if r = [] then out else sslRead limit (out @ r) cs')
      else out)"
  by pat_completeness auto
termination by (relation "measure (\<lambda>(_, _, cs). pending_bytes cs)") (auto dest: ssl_read_less [OF sym])

declare sslRead.simps [simp del]

definition httpsGet :: "string \<Rightarrow> HttpTry \<Rightarrow> int \<times> string" where
  "httpsGet host t =
     (if \<not> hasValidHostname host \<or> \<not> ht_connect t \<or> \<not> ht_write t then (0, [])
      else let resp = sslRead (2 * 1024 * 1024) [] (ht_chunks t) in (parseHttpStatus resp, parseHttpBody resp))"

text \<open>The headers, byte by byte, up to the empty line.\<close>

function readHeaders :: "string \<Rightarrow> string list \<Rightarrow> string \<times> string list" where
  "readHeaders headers cs =
     (if length headers < 16384
      then (case ssl_read 1 cs of (r, cs') \<Rightarrow>
              if r = [] then (headers, cs')
              else let h = headers @ r in
                   if length h \<ge> 4 \<and> drop (length h - 4) h = CRLF @ CRLF then (h, cs') else readHeaders h cs')
      else (headers, cs))"
  by pat_completeness auto
termination by (relation "measure (\<lambda>(_, cs). pending_bytes cs)") (auto dest: ssl_read_less [OF sym])

declare readHeaders.simps [simp del]

definition kAbsoluteMaxBytes :: nat where "kAbsoluteMaxBytes = 256 * 1024 * 1024"

text \<open>Streaming to the file: what it holds and whether all went well; \<open>fw\<close> says which \<open>fwrite\<close> succeeds, by
  the bytes written before.\<close>

function streamBody :: "(nat \<Rightarrow> bool) \<Rightarrow> int \<Rightarrow> string \<Rightarrow> string list \<Rightarrow> bool \<times> string" where
  "streamBody fw expectedSize acc cs =
     (case ssl_read 65536 cs of (r, cs') \<Rightarrow>
        if r = [] then (True, acc)
        else if \<not> fw (length acc) then (False, acc)
        else let acc' = acc @ r in
             if length acc' > kAbsoluteMaxBytes then (False, acc')
             else if expectedSize > 0 \<and> int (length acc') \<ge> expectedSize then (True, acc')
             else streamBody fw expectedSize acc' cs')"
  by pat_completeness auto
termination by (relation "measure (\<lambda>(_, _, _, cs). pending_bytes cs)") (auto dest: ssl_read_less [OF sym])

declare streamBody.simps [simp del]

text \<open>The status and the file system after a download; \<open>kept\<close> is what the unchecked \<open>fclose\<close> leaves of the
  bytes written.\<close>

definition httpsGetToFile ::
  "string \<Rightarrow> HttpTry \<Rightarrow> (string \<Rightarrow> bool) \<Rightarrow> (nat \<Rightarrow> bool) \<Rightarrow> (nat \<Rightarrow> nat) \<Rightarrow> string \<Rightarrow> int \<Rightarrow> file_system \<Rightarrow>
    int \<times> file_system" where
  "httpsGetToFile host t canOpen fw kept destPath expectedSize fs =
     (if \<not> hasValidHostname host \<or> \<not> ht_connect t \<or> \<not> ht_write t then (0, fs)
      else case readHeaders [] (ht_chunks t) of (headers, cs) \<Rightarrow>
        (let status = parseHttpStatus headers in
         if status \<noteq> 200 then (status, fs)
         else if \<not> canOpen destPath then (0, fs)
         else case streamBody fw expectedSize [] cs of (ok, content) \<Rightarrow>
           (if ok then 200 else 0, fs(destPath \<mapsto> diskKept kept (str_bytes content)))))"

section \<open>Error texts of the trust chain\<close>

text \<open>\<open>oe\<close> is what \<open>opensslErrors()\<close> yields.\<close>

fun sigErrorText :: "string \<Rightarrow> SigError \<Rightarrow> string" where
  "sigErrorText oe BinaryEmpty = ''binary data is empty''"
| "sigErrorText oe SignatureEmpty = ''signature data is empty''"
| "sigErrorText oe KeyLoadFailed = ''failed to load public key: '' @ oe"
| "sigErrorText oe CtxFailed = ''EVP_MD_CTX_new failed''"
| "sigErrorText oe InitFailed = ''EVP_DigestVerifyInit failed: '' @ oe"
| "sigErrorText oe VerifyFailed = ''signature verification failed: '' @ oe"

abbreviation APOS :: string where "APOS \<equiv> [CHR 0x27]"

fun trustErrorText :: "string \<Rightarrow> TrustError \<Rightarrow> string" where
  "trustErrorText oe DelegationTooLarge = ''delegation too large''"
| "trustErrorText oe DelegationMalformedLines = ''delegation: malformed lines''"
| "trustErrorText oe DelegationLineCount = ''delegation: wrong number of lines''"
| "trustErrorText oe DelegationBadHeader = ''delegation: bad header''"
| "trustErrorText oe DelegationBadVersion = ''delegation: bad version''"
| "trustErrorText oe DelegationBadExpires = ''delegation: bad expires''"
| "trustErrorText oe DelegationBadKeyLine = ''delegation: bad key line''"
| "trustErrorText oe DelegationBadKeyId = ''delegation: bad key id''"
| "trustErrorText oe DelegationUnknownPlatform = ''delegation: unknown platform''"
| "trustErrorText oe DelegationUnsupportedAlgorithm = ''delegation: unsupported algorithm''"
| "trustErrorText oe (DelegationNotSpki k) = ''delegation: key '' @ APOS @ k @ APOS @ '' is not an ML-DSA-65 SPKI''"
| "trustErrorText oe DelegationDuplicateKeyId = ''delegation: duplicate key id''"
| "trustErrorText oe BundleTooLarge = ''signature bundle too large''"
| "trustErrorText oe BundleNotNtmsig2 = ''not an NTMSIG 2 signature bundle (legacy or corrupt .sig)''"
| "trustErrorText oe BundleLineCount = ''bundle: wrong number of lines''"
| "trustErrorText oe BundleBadDelegation = ''bundle: bad delegation line''"
| "trustErrorText oe BundleBadRootSig = ''bundle: bad root-sig line''"
| "trustErrorText oe BundleRootSigsNotAscending = ''bundle: root-sig ids not strictly ascending''"
| "trustErrorText oe BundleBadKeyId = ''bundle: bad key-id line''"
| "trustErrorText oe BundleBadSignature = ''bundle: bad signature line''"
| "trustErrorText oe (RootSignatures v t) =
     ''delegation has '' @ show_nat v @ '' valid root signature(s); '' @ show_nat t @ '' required''"
| "trustErrorText oe (DelegationExpired v) = ''delegation v'' @ show_nat (unat v) @ '' has expired''"
| "trustErrorText oe (RollbackRejected v m) =
     ''delegation v'' @ show_nat (unat v) @ '' is older than v'' @ show_nat (unat m) @ '' (rollback rejected)''"
| "trustErrorText oe (KeyNotInDelegation k) = ''key '' @ APOS @ k @ APOS @ '' is not in the delegation''"
| "trustErrorText oe (KeyScope k p q) = ''key '' @ APOS @ k @ APOS @ '' is scoped to '' @ p @ '', not '' @ q"
| "trustErrorText oe (BinarySignature e) = ''binary signature: '' @ sigErrorText oe e"

section \<open>The update cycle\<close>

datatype UpdateTrigger = Periodic | ServerPush

text \<open>The configuration and the outside world of a cycle.  \<open>ev_net\<close> answers a request path; \<open>ev_rawKey\<close> is the
  public key of the identity file, if it can be read.\<close>

record 'k CycleEnv =
  ev_inProgress :: bool
  ev_exeDir :: string
  ev_rawKey :: "bytes option"
  ev_platform :: string
  ev_version :: string
  ev_server :: string
  ev_net :: "string \<Rightarrow> HttpTry"
  ev_canOpen :: "string \<Rightarrow> bool"
  ev_fwrite :: "nat \<Rightarrow> bool"
  ev_kept :: "string \<Rightarrow> nat \<Rightarrow> nat"
  ev_canRead :: "string \<Rightarrow> bool"
  ev_sha256 :: "bytes \<Rightarrow> bytes"
  ev_ossl :: "'k Ossl"
  ev_roots :: "RootKey list"
  ev_policy :: Policy
  ev_opensslErrors :: string
  ev_chmod :: bool
  ev_renameBin :: bool
  ev_renameSig :: bool
  ev_now :: int
  ev_argv :: bool
  ev_execv :: bool

definition pubkeyHexFromPem :: "'k CycleEnv \<Rightarrow> string" where
  "pubkeyHexFromPem env =
     (case ev_rawKey env of None \<Rightarrow> [] | Some raw \<Rightarrow> if length raw = 32 then hexEncode raw else [])"

definition updatePath :: "string \<Rightarrow> 'k CycleEnv \<Rightarrow> string" where
  "updatePath what env = ''/api/update/'' @ what @ ''?platform='' @ ev_platform env @ ''&pubkey='' @ pubkeyHexFromPem env"

definition checkPath :: "'k CycleEnv \<Rightarrow> string" where
  "checkPath env = ''/api/update/check?platform='' @ ev_platform env @ ''&version='' @ ev_version env
     @ ''&pubkey='' @ pubkeyHexFromPem env"

definition statePath :: "string \<Rightarrow> string" where "statePath dir = dir @ ''/ntm-client.update-state''"
definition pendingPath :: "string \<Rightarrow> string" where "pendingPath dir = dir @ ''/ntm-client.pending''"
definition pendingSigPath :: "string \<Rightarrow> string" where "pendingSigPath dir = pendingPath dir @ ''.sig''"
definition targetPath :: "string \<Rightarrow> string" where "targetPath dir = dir @ ''/ntm-client''"
definition targetSigPath :: "string \<Rightarrow> string" where "targetSigPath dir = dir @ ''/ntm-client.sig''"

definition readLastCheck :: "(string \<Rightarrow> bool) \<Rightarrow> string \<Rightarrow> file_system \<Rightarrow> int" where
  "readLastCheck canRead dir fs =
     (case (if canRead (statePath dir) then fs (statePath dir) else None) of None \<Rightarrow> 0
      | Some content \<Rightarrow>
          (case splitNl (bytes_str content) of (ls, rest) \<Rightarrow>
             (case List.map_filter (\<lambda>l. if starts_with ''last_check='' l then stoll (drop 11 l) else None)
                     (ls @ (if rest = [] then [] else [rest])) of
                [] \<Rightarrow> 0 | t # _ \<Rightarrow> t)))"

definition writeLastCheck :: "(string \<Rightarrow> bool) \<Rightarrow> string \<Rightarrow> int \<Rightarrow> file_system \<Rightarrow> file_system" where
  "writeLastCheck canOpen dir t fs =
     (if canOpen (statePath dir) then fs(statePath dir \<mapsto> str_bytes (''last_check='' @ show_int t @ [LF])) else fs)"

definition cleanupStaleFiles :: "string \<Rightarrow> file_system \<Rightarrow> file_system" where
  "cleanupStaleFiles dir fs = fs(pendingPath dir := None)"

definition fileSha256Hex :: "'k CycleEnv \<Rightarrow> string \<Rightarrow> file_system \<Rightarrow> string option" where
  "fileSha256Hex env path fs =
     (if ev_canRead env path then map_option (\<lambda>b. hexEncode (ev_sha256 env b)) (fs path) else None)"

text \<open>Reading for the verification: an empty file fails.\<close>

definition readVec :: "'k CycleEnv \<Rightarrow> string \<Rightarrow> file_system \<Rightarrow> bytes option" where
  "readVec env path fs =
     (if ev_canRead env path then (case fs path of None \<Rightarrow> None | Some b \<Rightarrow> if b = [] then None else Some b) else None)"

definition applyUpdateLinux :: "'k CycleEnv \<Rightarrow> file_system \<Rightarrow> bool \<times> file_system" where
  "applyUpdateLinux env fs =
     (let dir = ev_exeDir env in
      if \<not> ev_chmod env \<or> \<not> ev_renameBin env then (False, fs)
      else let fs1 = rename_file (pendingPath dir) (targetPath dir) fs in
           (True, if fs1 (pendingSigPath dir) \<noteq> None \<and> ev_renameSig env
                  then rename_file (pendingSigPath dir) (targetSigPath dir) fs1 else fs1))"

text \<open>The stages, from the last one back; each yields what the callbacks are told and the file system.\<close>

definition applying :: "'k CycleEnv \<Rightarrow> string \<Rightarrow> file_system \<Rightarrow> UpdEvent list \<times> file_system" where
  "applying env newVer fs =
     (case applyUpdateLinux env fs of
        (False, fs1) \<Rightarrow> ([UpdStage ''applying'', UpdErr ''applying'' ''apply-failed''], fs1(pendingPath (ev_exeDir env) := None))
      | (True, fs1) \<Rightarrow>
          ([UpdStage ''applying'', UpdStage ''restarting'', UpdDone newVer]
           @ (if ev_argv env \<and> ev_execv env then [] else [UpdErr ''exec'' ''execv-failed'']), fs1))"

definition verifyingSignature :: "'k CycleEnv \<Rightarrow> string \<Rightarrow> file_system \<Rightarrow> UpdEvent list \<times> file_system" where
  "verifyingSignature env newVer fs =
     (let dir = ev_exeDir env;
          discard = fs(pendingPath dir := None, pendingSigPath dir := None);
          at = (\<lambda>(evs, fs'). (UpdStage ''verifying_signature'' # evs, fs'))
      in case (readVec env (pendingPath dir) fs, readVec env (pendingSigPath dir) fs) of
           (Some bin, Some sig) \<Rightarrow>
             (case verifyArtifactBytes (ev_ossl env) (ev_roots env) bin sig (ev_platform env) (ev_policy env) of
                Inl e \<Rightarrow> at ([UpdErr ''verifying_signature'' (trustErrorText (ev_opensslErrors env) e)], discard)
              | Inr _ \<Rightarrow> at (applying env newVer fs))
         | _ \<Rightarrow> at ([UpdErr ''verifying_signature'' ''io-read-error''], discard))"

definition downloadingSignature :: "'k CycleEnv \<Rightarrow> string \<Rightarrow> string \<Rightarrow> file_system \<Rightarrow> UpdEvent list \<times> file_system" where
  "downloadingSignature env body newVer fs =
     (let dir = ev_exeDir env;
          expected = jsonInt body ''sig_size'' 0;
          at = (\<lambda>(evs, fs'). (UpdStage ''downloading_signature'' # evs, fs'))
      in case httpsGetToFile (ev_server env) (ev_net env (updatePath ''download_sig'' env)) (ev_canOpen env) (ev_fwrite env) (ev_kept env (pendingSigPath dir))
                (pendingSigPath dir) (if expected > 0 then expected else 10 * 1024 * 1024) (fs(pendingSigPath dir := None)) of
           (status, fs1) \<Rightarrow>
             if status \<noteq> 200
             then at ([UpdErr ''downloading_signature'' (''http-'' @ show_int status)],
                      fs1(pendingPath dir := None, pendingSigPath dir := None))
             else at (verifyingSignature env newVer fs1))"

definition verifyingSha256 :: "'k CycleEnv \<Rightarrow> string \<Rightarrow> string \<Rightarrow> file_system \<Rightarrow> UpdEvent list \<times> file_system" where
  "verifyingSha256 env body newVer fs =
     (let dir = ev_exeDir env; at = (\<lambda>(evs, fs'). (UpdStage ''verifying_sha256'' # evs, fs')) in
      if fileSha256Hex env (pendingPath dir) fs \<noteq> Some (jsonStr body ''sha256'')
      then at ([UpdErr ''verifying_sha256'' ''hash-mismatch''], fs(pendingPath dir := None))
      else at (downloadingSignature env body newVer fs))"

definition downloadingBinary :: "'k CycleEnv \<Rightarrow> string \<Rightarrow> string \<Rightarrow> int \<Rightarrow> file_system \<Rightarrow> UpdEvent list \<times> file_system" where
  "downloadingBinary env body newVer sz fs =
     (let dir = ev_exeDir env; at = (\<lambda>(evs, fs'). (UpdStage ''downloading_binary'' # evs, fs')) in
      case httpsGetToFile (ev_server env) (ev_net env (updatePath ''download'' env)) (ev_canOpen env) (ev_fwrite env) (ev_kept env (pendingPath dir))
             (pendingPath dir) sz (fs(pendingPath dir := None)) of
        (status, fs1) \<Rightarrow>
          if status \<noteq> 200
          then at ([UpdErr ''downloading_binary'' (''http-'' @ show_int status)], fs1(pendingPath dir := None))
          else at (verifyingSha256 env body newVer fs1))"

definition kMaxUpdateBytes :: int where "kMaxUpdateBytes = 64 * 1024 * 1024"

text \<open>The answer to the check.\<close>

definition checkAnswer :: "'k CycleEnv \<Rightarrow> int \<Rightarrow> string \<Rightarrow> file_system \<Rightarrow> UpdEvent list \<times> file_system" where
  "checkAnswer env status body fs =
     (if status = 0 then ([UpdErr ''network'' ''connection-error''], fs)
      else if status \<noteq> 200 then ([UpdErr ''network'' (''http-'' @ show_int status)], fs)
      else if \<not> jsonBool body ''update_available'' False then ([UpdNoop ''no_update_available''], fs)
      else let newVer = jsonStr body ''version'';
               sha256 = jsonStr body ''sha256'';
               sz = jsonInt body ''size'' 0
           in if newVer = [] \<or> length sha256 \<noteq> 64 then ([UpdErr ''network'' ''malformed-check-response''], fs)
              else if sz > kMaxUpdateBytes then ([UpdErr ''network'' ''size-cap-exceeded''], fs)
              else downloadingBinary env body newVer sz fs)"

definition doOneCheckCycle :: "'k CycleEnv \<Rightarrow> UpdateTrigger \<Rightarrow> file_system \<Rightarrow> UpdEvent list \<times> file_system" where
  "doOneCheckCycle env trigger fs =
     (if ev_inProgress env then ([UpdNoop ''in_progress''], fs)
      else if ev_exeDir env = [] then ([UpdErr ''network'' ''cannot-determine-exe-dir''], fs)
      else if pubkeyHexFromPem env = [] then ([UpdErr ''network'' ''cannot-derive-pubkey''], fs)
      else case httpsGet (ev_server env) (ev_net env (checkPath env)) of (status, body) \<Rightarrow>
        (case checkAnswer env status body
                (if trigger = Periodic then writeLastCheck (ev_canOpen env) (ev_exeDir env) (ev_now env) fs else fs) of
           (evs, fs') \<Rightarrow> (UpdStage ''checking'' # evs, fs')))"

text \<open>The schedule: the interval from two random bytes, and one round of the loop.\<close>

definition checkInterval :: "byte \<Rightarrow> byte \<Rightarrow> int" where
  "checkInterval j0 j1 = 82800 - (int (unat j0 * 256 + unat j1)) mod 3601"

definition updaterRound :: "'k CycleEnv \<Rightarrow> int \<Rightarrow> int \<Rightarrow> file_system \<Rightarrow> UpdEvent list \<times> file_system" where
  "updaterRound env interval now fs =
     (if now - readLastCheck (ev_canRead env) (ev_exeDir env) fs < interval then ([], fs)
      else doOneCheckCycle env Periodic fs)"

section \<open>Lemmas: what a cycle leaves behind\<close>

abbreviation reports_done :: "UpdEvent list \<Rightarrow> bool" where
  "reports_done evs \<equiv> \<exists>v. UpdDone v \<in> set evs"

text \<open>The files of the download and of the installation.\<close>

definition cycle_files :: "string \<Rightarrow> string set" where
  "cycle_files dir = {pendingPath dir, pendingSigPath dir, targetPath dir, targetSigPath dir}"

text \<open>What a finished download must have led to.\<close>

definition installed :: "'k CycleEnv \<Rightarrow> string \<Rightarrow> file_system \<Rightarrow> file_system \<Rightarrow> bool" where
  "installed env body fs fs' \<longleftrightarrow>
     (let dir = ev_exeDir env in
      \<exists>bin sig v. hexEncode (ev_sha256 env bin) = jsonStr body ''sha256'' \<and>
        verifyArtifactBytes (ev_ossl env) (ev_roots env) bin sig (ev_platform env) (ev_policy env) = Inr v \<and>
        fs' (targetPath dir) = Some bin \<and>
        fs' (targetSigPath dir) = (if ev_renameSig env then Some sig else fs (targetSigPath dir)))"

definition outcome_ok :: "'k CycleEnv \<Rightarrow> string \<Rightarrow> file_system \<Rightarrow> UpdEvent list \<times> file_system \<Rightarrow> bool" where
  "outcome_ok env body fs r \<longleftrightarrow>
     (let dir = ev_exeDir env in
      (\<forall>p. p \<notin> cycle_files dir \<longrightarrow> snd r p = fs p) \<and> snd r (pendingPath dir) = None \<and>
      (if reports_done (fst r) then installed env body fs (snd r)
       else snd r (targetPath dir) = fs (targetPath dir) \<and> snd r (targetSigPath dir) = fs (targetSigPath dir)))"

lemma path_neq [simp]:
  "pendingPath d \<noteq> pendingSigPath d" "pendingPath d \<noteq> targetPath d" "pendingPath d \<noteq> targetSigPath d"
  "pendingPath d \<noteq> statePath d" "pendingSigPath d \<noteq> pendingPath d" "pendingSigPath d \<noteq> targetPath d"
  "pendingSigPath d \<noteq> targetSigPath d" "pendingSigPath d \<noteq> statePath d" "targetPath d \<noteq> pendingPath d"
  "targetPath d \<noteq> pendingSigPath d" "targetPath d \<noteq> targetSigPath d" "targetPath d \<noteq> statePath d"
  "targetSigPath d \<noteq> pendingPath d" "targetSigPath d \<noteq> pendingSigPath d" "targetSigPath d \<noteq> targetPath d"
  "targetSigPath d \<noteq> statePath d" "statePath d \<noteq> pendingPath d" "statePath d \<noteq> pendingSigPath d"
  "statePath d \<noteq> targetPath d" "statePath d \<noteq> targetSigPath d"
  by (simp_all add: pendingPath_def pendingSigPath_def targetPath_def targetSigPath_def statePath_def)

lemma outcome_stage [simp]: "outcome_ok env body fs (UpdStage s # evs, fs') = outcome_ok env body fs (evs, fs')"
  by (simp add: outcome_ok_def)

lemma outcome_stage_case [simp]:
  "outcome_ok env body fs (case r of (evs, fs') \<Rightarrow> (UpdStage s # evs, fs')) = outcome_ok env body fs r"
  by (cases r) simp

text \<open>A stage that only touched the downloads and gave up.\<close>

lemma outcome_discard:
  assumes "\<not> reports_done evs" and "fs' (pendingPath (ev_exeDir env)) = None"
    and "\<And>p. p \<noteq> pendingPath (ev_exeDir env) \<Longrightarrow> p \<noteq> pendingSigPath (ev_exeDir env) \<Longrightarrow> fs' p = fs p"
  shows "outcome_ok env body fs (evs, fs')"
  using assms by (auto simp: outcome_ok_def cycle_files_def Let_def)

lemma outcome_weaken:
  assumes "outcome_ok env body fs1 r"
    and "\<And>p. p \<noteq> pendingPath (ev_exeDir env) \<Longrightarrow> p \<noteq> pendingSigPath (ev_exeDir env) \<Longrightarrow> fs1 p = fs p"
  shows "outcome_ok env body fs r"
proof -
  have "installed env body fs1 = installed env body fs" by (simp add: installed_def assms(2) fun_eq_iff)
  then show ?thesis using assms by (simp add: outcome_ok_def cycle_files_def Let_def split: if_splits)
qed

lemma applying_outcome:
  assumes "fs (pendingPath (ev_exeDir env)) = Some bin" and "fs (pendingSigPath (ev_exeDir env)) = Some sig"
    and "hexEncode (ev_sha256 env bin) = jsonStr body ''sha256''"
    and "verifyArtifactBytes (ev_ossl env) (ev_roots env) bin sig (ev_platform env) (ev_policy env) = Inr v"
  shows "outcome_ok env body fs (applying env newVer fs)"
proof (cases "ev_chmod env \<and> ev_renameBin env")
  case False
  then show ?thesis unfolding applying_def applyUpdateLinux_def by (simp add: outcome_discard Let_def)
next
  case True
  let ?d = "ev_exeDir env"
  define fs1 where "fs1 = rename_file (pendingPath ?d) (targetPath ?d) fs"
  define fs2 where "fs2 = (if ev_renameSig env then rename_file (pendingSigPath ?d) (targetSigPath ?d) fs1 else fs1)"
  have f1: "fs1 (pendingSigPath ?d) = Some sig"
    using assms by (simp add: fs1_def rename_file_def)
  have "applying env newVer fs = ([UpdStage ''applying'', UpdStage ''restarting'', UpdDone newVer]
      @ (if ev_argv env \<and> ev_execv env then [] else [UpdErr ''exec'' ''execv-failed'']), fs2)"
    using True f1 by (simp add: applying_def applyUpdateLinux_def Let_def fs1_def [symmetric] fs2_def)
  moreover have "installed env body fs fs2" unfolding installed_def Let_def
    using assms f1 by (intro exI [of _ bin] exI [of _ sig] exI [of _ v]) (simp add: fs2_def fs1_def rename_file_def)
  moreover have "fs2 (pendingPath ?d) = None" "\<And>p. p \<notin> cycle_files ?d \<Longrightarrow> fs2 p = fs p"
    using assms f1 by (simp_all add: fs2_def fs1_def rename_file_def cycle_files_def)
  ultimately show ?thesis by (auto simp: outcome_ok_def)
qed

lemma readVec_Some: "readVec env p fs = Some b \<Longrightarrow> fs p = Some b"
  by (auto simp: readVec_def split: if_splits option.splits)

lemma verifyingSignature_outcome:
  assumes "fs (pendingPath (ev_exeDir env)) = Some bin" and "hexEncode (ev_sha256 env bin) = jsonStr body ''sha256''"
  shows "outcome_ok env body fs (verifyingSignature env newVer fs)"
proof -
  let ?d = "ev_exeDir env"
  have give_up: "outcome_ok env body fs ([UpdErr s e], fs(pendingPath ?d := None, pendingSigPath ?d := None))" for s e
    by (rule outcome_discard) simp_all
  show ?thesis
  proof (cases "readVec env (pendingPath ?d) fs")
    case (Some b)
    note b = this
    show ?thesis
    proof (cases "readVec env (pendingSigPath ?d) fs")
      case (Some sig)
      show ?thesis
      proof (cases "verifyArtifactBytes (ev_ossl env) (ev_roots env) b sig (ev_platform env) (ev_policy env)")
        case (Inr v)
        have "b = bin" using readVec_Some [OF b] assms by simp
        then have "outcome_ok env body fs (applying env newVer fs)"
          using readVec_Some [OF Some] assms Inr by (intro applying_outcome) simp_all
        then show ?thesis using Inr b Some by (simp add: verifyingSignature_def Let_def)
      qed (simp add: verifyingSignature_def Let_def b Some give_up)
    qed (simp add: verifyingSignature_def Let_def b give_up)
  qed (simp add: verifyingSignature_def Let_def give_up)
qed

text \<open>A download touches its destination only, and a status of 200 means the file was written.\<close>

lemma httpsGetToFile_other: "httpsGetToFile host t co fw kp dest sz fs = (st, fs') \<Longrightarrow> p \<noteq> dest \<Longrightarrow> fs' p = fs p"
  by (auto simp: httpsGetToFile_def Let_def split: if_splits prod.splits)

lemma downloadingSignature_outcome:
  assumes "fs (pendingPath (ev_exeDir env)) = Some bin" and "hexEncode (ev_sha256 env bin) = jsonStr body ''sha256''"
  shows "outcome_ok env body fs (downloadingSignature env body newVer fs)"
proof -
  let ?d = "ev_exeDir env"
  obtain st fs1 where g: "httpsGetToFile (ev_server env) (ev_net env (updatePath ''download_sig'' env)) (ev_canOpen env) (ev_fwrite env) (ev_kept env (pendingSigPath ?d))
      (pendingSigPath ?d) (if jsonInt body ''sig_size'' 0 > 0 then jsonInt body ''sig_size'' 0 else 10 * 1024 * 1024)
      (fs(pendingSigPath ?d := None)) = (st, fs1)" by (metis surj_pair)
  have same: "p \<noteq> pendingSigPath ?d \<Longrightarrow> fs1 p = fs p" for p using httpsGetToFile_other [OF g] by simp
  show ?thesis
  proof (cases "st = 200")
    case False
    then show ?thesis using g same
      by (auto simp: downloadingSignature_def Let_def intro!: outcome_discard)
  next
    case True
    have "outcome_ok env body fs1 (verifyingSignature env newVer fs1)"
      using assms same [of "pendingPath ?d"] by (intro verifyingSignature_outcome) simp_all
    then have "outcome_ok env body fs (verifyingSignature env newVer fs1)" by (rule outcome_weaken) (simp add: same)
    with True g show ?thesis by (simp add: downloadingSignature_def Let_def split del: if_split)
  qed
qed

lemma verifyingSha256_outcome: "outcome_ok env body fs (verifyingSha256 env body newVer fs)"
proof (cases "fileSha256Hex env (pendingPath (ev_exeDir env)) fs = Some (jsonStr body ''sha256'')")
  case False
  then show ?thesis by (simp add: verifyingSha256_def outcome_discard)
next
  case True
  then obtain bin where "fs (pendingPath (ev_exeDir env)) = Some bin" "hexEncode (ev_sha256 env bin) = jsonStr body ''sha256''"
    by (auto simp: fileSha256Hex_def split: if_splits)
  then show ?thesis using True downloadingSignature_outcome [of fs env bin body newVer] by (simp add: verifyingSha256_def)
qed

lemma downloadingBinary_outcome: "outcome_ok env body fs (downloadingBinary env body newVer sz fs)"
proof -
  let ?d = "ev_exeDir env"
  obtain st fs1 where g: "httpsGetToFile (ev_server env) (ev_net env (updatePath ''download'' env)) (ev_canOpen env) (ev_fwrite env) (ev_kept env (pendingPath ?d))
      (pendingPath ?d) sz (fs(pendingPath ?d := None)) = (st, fs1)" by (metis surj_pair)
  have same: "p \<noteq> pendingPath ?d \<Longrightarrow> fs1 p = fs p" for p using httpsGetToFile_other [OF g] by simp
  show ?thesis
  proof (cases "st = 200")
    case False
    then show ?thesis using g same by (auto simp: downloadingBinary_def Let_def intro!: outcome_discard)
  next
    case True
    have "outcome_ok env body fs (verifyingSha256 env body newVer fs1)"
      by (rule outcome_weaken [OF verifyingSha256_outcome]) (simp add: same)
    with True g show ?thesis by (simp add: downloadingBinary_def Let_def)
  qed
qed

text \<open>An answer that offers no acceptable update, and one that does.\<close>

definition offers_update :: "int \<Rightarrow> string \<Rightarrow> bool" where
  "offers_update status body \<longleftrightarrow>
     status = 200 \<and> jsonBool body ''update_available'' False \<and> jsonStr body ''version'' \<noteq> [] \<and>
     length (jsonStr body ''sha256'') = 64 \<and> jsonInt body ''size'' 0 \<le> kMaxUpdateBytes"

lemma checkAnswer_cases:
  "checkAnswer env status body fs =
     (if offers_update status body then downloadingBinary env body (jsonStr body ''version'') (jsonInt body ''size'' 0) fs
      else (fst (checkAnswer env status body fs), fs))"
  by (simp add: checkAnswer_def offers_update_def Let_def)

lemma checkAnswer_quiet:
  assumes "\<not> offers_update status body" and "checkAnswer env status body fs = (evs, fs')"
  shows "\<not> reports_done evs" and "UpdStage x \<notin> set evs" and "fs' = fs"
  using assms by (auto simp: checkAnswer_def offers_update_def Let_def split: if_splits)

lemma writeLastCheck_other: "p \<noteq> statePath d \<Longrightarrow> writeLastCheck co d t fs p = fs p"
  by (simp add: writeLastCheck_def)

end
