(* ===== verification/UpdateFlow.thy ===== *)
theory UpdateFlow
  imports Updater
begin

text \<open>
  The update of a client from end to end: the handlers of \<open>UpdateDist\<close> answer the requests of the cycle of
  \<open>Updater\<close>.  First the client's HTTP reader on a well-formed answer, however it is cut into chunks, then its
  JSON reader on the server's check answer, then the composition.  Last, the control line \<open>update_now\<close> of theory
  \<open>LogCtl\<close> with the cycle it runs.
\<close>

section \<open>Lemmas: reading an answer\<close>

abbreviation EOH :: string where "EOH \<equiv> CRLF @ CRLF"

lemma find_str_length: "find_str p s = Some i \<Longrightarrow> i + length p \<le> length s"
proof (induction s arbitrary: i)
  case (Cons x xs)
  show ?case
  proof (cases "starts_with p (x # xs)")
    case True
    then obtain r where "x # xs = p @ r" by (auto simp: starts_with_iff)
    then have "length p \<le> length (x # xs)" by (metis le_add1 length_append)
    with True Cons.prems show ?thesis by simp
  next
    case False
    then show ?thesis using Cons by auto
  qed
qed (simp split: if_splits)

lemma find_str_extend: "find_str p s = Some i \<Longrightarrow> find_str p (s @ t) = Some i"
proof (induction s arbitrary: i)
  case Nil
  then show ?case by (cases t) (auto simp: starts_with_def split: if_splits)
next
  case (Cons x xs)
  show ?case
  proof (cases "starts_with p (x # xs)")
    case True
    then have "starts_with p (x # xs @ t)" by (simp add: starts_with_iff) (metis append.assoc append_Cons)
    with True Cons.prems show ?thesis by simp
  next
    case False
    then obtain j where j: "find_str p xs = Some j" "i = Suc j" using Cons.prems by auto
    have "length p \<le> length (x # xs)" using find_str_length [OF j(1)] by simp
    then have "take (length p) (x # xs @ t) = take (length p) (x # xs)" by (metis append_Cons take_append append_Nil2 diff_is_0_eq take0)
    with False j Cons.IH [OF j(1)] show ?thesis by (simp add: starts_with_def)
  qed
qed

lemma length_bytes_str [simp]: "length (bytes_str b) = length b"
  by (simp add: bytes_str_def)

lemma append_eq_take: "a @ r = h @ b \<Longrightarrow> length a \<le> length h \<Longrightarrow> a = take (length a) h"
  by (metis append_eq_conv_conj append_Nil2 diff_is_0_eq take0 take_append)

lemma ssl_read_chunks:
  assumes "ssl_read n cs = (r, cs')" and "[] \<notin> set cs" and "0 < n"
  shows "r @ concat cs' = concat cs" and "[] \<notin> set cs'" and "r = [] \<longleftrightarrow> cs = []" and "length r \<le> n"
  using assms by (cases cs; auto split: if_splits)+

lemma sslRead_all:
  "[] \<notin> set cs \<Longrightarrow> length out + length (concat cs) \<le> limit \<Longrightarrow> sslRead limit out cs = out @ concat cs"
proof (induction limit out cs rule: sslRead.induct)
  case (1 limit out cs)
  obtain r cs' where r: "ssl_read 8192 cs = (r, cs')" by (cases "ssl_read 8192 cs")
  note c = ssl_read_chunks [OF r 1(2)]
  show ?case
  proof (cases "r = []")
    case True
    then show ?thesis using c r by (subst sslRead.simps) simp
  next
    case False
    have e: "r @ concat cs' = concat cs" and ne: "[] \<notin> set cs'" using c by simp_all
    have len: "length (concat cs) = length r + length (concat cs')" using arg_cong [OF e, of length] by simp
    moreover have "0 < length r" using False by simp
    ultimately have l: "length out < limit" and l2: "length (out @ r) + length (concat cs') \<le> limit"
      using 1(3) unfolding length_append by linarith+
    have "sslRead limit (out @ r) cs' = (out @ r) @ concat cs'" by (rule 1(1) [OF l r [symmetric] False ne l2])
    then show ?thesis using l r False e by (subst sslRead.simps) simp
  qed
qed

text \<open>The header loop stops right after the first empty line.\<close>

lemma readHeaders_stops:
  assumes "find_str EOH (h @ EOH) = Some (length h)" and "length h + 4 \<le> 16384"
  shows "[] \<notin> set cs \<Longrightarrow> acc @ concat cs = h @ EOH @ body \<Longrightarrow> length acc < length h + 4 \<Longrightarrow>
    \<exists>cs'. readHeaders acc cs = (h @ EOH, cs') \<and> concat cs' = body \<and> [] \<notin> set cs'"
proof (induction acc cs rule: readHeaders.induct)
  case (1 acc cs)
  obtain r cs' where r: "ssl_read 1 cs = (r, cs')" by (cases "ssl_read 1 cs")
  note c = ssl_read_chunks [OF r 1(2), simplified]
  have "concat cs \<noteq> []" using arg_cong [OF 1(3), of length] 1(4) by (intro notI) simp
  then have "r \<noteq> []" using c by auto
  then obtain x where x: "r = [x]" using c(4) by (cases r) auto
  have e: "(acc @ [x]) @ concat cs' = (h @ EOH) @ body" using c(1) 1(3) x by simp
  have l: "length acc < 16384" using 1(4) assms(2) by simp
  show ?case
  proof (cases "length (acc @ [x]) = length (h @ EOH)")
    case True
    then have "acc @ [x] = h @ EOH" "concat cs' = body" using e by (metis append_eq_append_conv)+
    then show ?thesis using r x l c by (subst readHeaders.simps) simp
  next
    case False
    then have short: "length (acc @ [x]) < length h + 4" using 1(4) by simp
    have ns: "\<not> (length (acc @ [x]) \<ge> 4 \<and> drop (length (acc @ [x]) - 4) (acc @ [x]) = EOH)"
    proof
      assume a: "length (acc @ [x]) \<ge> 4 \<and> drop (length (acc @ [x]) - 4) (acc @ [x]) = EOH"
      define q where "q = take (length (acc @ [x]) - 4) (acc @ [x])"
      have "acc @ [x] = q @ EOH" unfolding q_def using a by (metis append_take_drop_id)
      moreover have "acc @ [x] = take (length (acc @ [x])) (h @ EOH)" using short by (intro append_eq_take [OF e]) simp
      ultimately have "h @ EOH = q @ EOH @ drop (length (acc @ [x])) (h @ EOH)"
        by (metis append.assoc append_take_drop_id)
      then obtain i where "find_str EOH (h @ EOH) = Some i" "i \<le> length q" using find_str_append_le by metis
      then have "length h \<le> length q" using assms(1) by simp
      moreover have "length q + 4 = length (acc @ [x])" using \<open>acc @ [x] = q @ EOH\<close> by simp
      ultimately show False using short by simp
    qed
    have "readHeaders acc cs = readHeaders (acc @ [x]) cs'" using ns r x l by (subst readHeaders.simps) (auto simp: Let_def)
    moreover have "\<exists>cs''. readHeaders (acc @ [x]) cs' = (h @ EOH, cs'') \<and> concat cs'' = body \<and> [] \<notin> set cs''"
    proof (rule 1(1) [OF l r [symmetric] _ _ ns c(2)])
      show "(acc @ [x]) @ concat cs' = h @ EOH @ body" using e by simp
    qed (simp_all add: x short del: length_append)
    ultimately show ?thesis by simp
  qed
qed

lemma streamBody_all:
  "(\<And>k. fw k) \<Longrightarrow> [] \<notin> set cs \<Longrightarrow> length acc + length (concat cs) \<le> kAbsoluteMaxBytes \<Longrightarrow>
   sz \<le> 0 \<or> int (length acc + length (concat cs)) \<le> sz \<Longrightarrow> streamBody fw sz acc cs = (True, acc @ concat cs)"
proof (induction fw sz acc cs rule: streamBody.induct)
  case (1 fw sz acc cs)
  obtain r cs' where r: "ssl_read 65536 cs = (r, cs')" by (cases "ssl_read 65536 cs")
  note c = ssl_read_chunks [OF r 1(3), simplified]
  show ?case
  proof (cases "r = []")
    case True
    then show ?thesis using c r by (subst streamBody.simps) simp
  next
    case False
    have len: "length (concat cs) = length r + length (concat cs')" using arg_cong [OF c(1), of length] by simp
    have cap: "\<not> length (acc @ r) > kAbsoluteMaxBytes" using 1(4) len by simp
    show ?thesis
    proof (cases "sz > 0 \<and> int (length (acc @ r)) \<ge> sz")
      case True
      then have "length (concat cs') = 0" using 1(5) len unfolding length_append by linarith
      then have "concat cs' = []" by (simp only: length_0_conv)
      then have "concat cs = r" using c(1) by (metis append_Nil2)
      with True False r cap 1(2) show ?thesis by (subst streamBody.simps) simp
    next
      case go: False
      have "streamBody fw sz (acc @ r) cs' = (True, (acc @ r) @ concat cs')"
        by (rule 1(1) [OF r [symmetric] False _ refl cap go 1(2) c(2)]) (use 1(2,4,5) len in \<open>simp_all add: add.assoc\<close>)
      with False r cap 1(2) go c show ?thesis by (subst streamBody.simps) (auto simp: Let_def)
    qed
  qed
qed

text \<open>A response that arrives complete: any header text that does not hold an empty line, any chunks.\<close>

definition carries :: "HttpTry \<Rightarrow> UpdResponse \<Rightarrow> bool" where
  "carries t resp \<longleftrightarrow>
     ht_connect t \<and> ht_write t \<and> [] \<notin> set (ht_chunks t) \<and>
     (case resp of (code, _, body) \<Rightarrow>
        \<exists>hs. find_str EOH ((''HTTP/1.1 '' @ show_nat code @ SP # hs) @ EOH)
               = Some (length (''HTTP/1.1 '' @ show_nat code @ SP # hs)) \<and>
             length hs < 16000 \<and>
             concat (ht_chunks t) = ''HTTP/1.1 '' @ show_nat code @ SP # hs @ EOH @ body)"

lemma show_200: "show_nat 200 = ''200''" by code_simp

lemma status_200: "parseHttpStatus (''HTTP/1.1 200 '' @ r) = 200"
  by (simp add: parseHttpStatus_def strtoll_def is_space_def is_digit_def in_range_def code_of_def dec_val_def digit_val_def Let_def)

lemma carries_200:
  assumes "carries t (200, hd1, body)"
  obtains h where "find_str EOH ((''HTTP/1.1 200 '' @ h) @ EOH) = Some (length (''HTTP/1.1 200 '' @ h))" "length h < 16000"
    "concat (ht_chunks t) = (''HTTP/1.1 200 '' @ h) @ EOH @ body" "ht_connect t" "ht_write t" "[] \<notin> set (ht_chunks t)"
  using assms unfolding carries_def by (auto simp: show_200)

lemma parseHttpBody_at: "find_str EOH (h @ EOH) = Some (length h) \<Longrightarrow> parseHttpBody (h @ EOH @ body) = body"
  using find_str_extend [of EOH "h @ EOH" "length h" body] by (simp add: parseHttpBody_def)

lemma httpsGet_carries:
  assumes "carries t (200, hd1, body)" and "hasValidHostname host" and "length body \<le> 2 ^ 20"
  shows "httpsGet host t = (200, body)"
proof (rule carries_200 [OF assms(1)])
  fix h
  assume h: "find_str EOH ((''HTTP/1.1 200 '' @ h) @ EOH) = Some (length (''HTTP/1.1 200 '' @ h))" "length h < 16000"
    and c: "concat (ht_chunks t) = (''HTTP/1.1 200 '' @ h) @ EOH @ body"
    and t: "ht_connect t" "ht_write t" and ne: "[] \<notin> set (ht_chunks t)"
  have "sslRead (2 * 1024 * 1024) [] (ht_chunks t) = [] @ concat (ht_chunks t)"
    using h(2) assms(3) by (intro sslRead_all [OF ne]) (simp only: c, simp)
  then have r: "sslRead (2 * 1024 * 1024) [] (ht_chunks t) = ''HTTP/1.1 200 '' @ h @ EOH @ body"
    by (simp only: c append.assoc append_Nil)
  have "parseHttpBody (''HTTP/1.1 200 '' @ h @ EOH @ body) = body"
    using parseHttpBody_at [OF h(1), of body] by (simp only: append.assoc)
  then show ?thesis using t assms(2) status_200 [of "h @ EOH @ body"] unfolding httpsGet_def Let_def r by simp
qed

lemma httpsGetToFile_carries:
  assumes "carries t (200, hd1, body)" and "hasValidHostname host" and "canOpen dest" and "\<And>k. fw k"
    and "length body \<le> kAbsoluteMaxBytes" and "sz \<le> 0 \<or> int (length body) \<le> sz"
  shows "httpsGetToFile host t canOpen fw (\<lambda>n. n) dest sz fs = (200, fs(dest \<mapsto> str_bytes body))"
proof (rule carries_200 [OF assms(1)])
  fix h
  assume h: "find_str EOH ((''HTTP/1.1 200 '' @ h) @ EOH) = Some (length (''HTTP/1.1 200 '' @ h))" "length h < 16000"
    and c: "concat (ht_chunks t) = (''HTTP/1.1 200 '' @ h) @ EOH @ body"
    and t: "ht_connect t" "ht_write t" and ne: "[] \<notin> set (ht_chunks t)"
  obtain cs' where r: "readHeaders [] (ht_chunks t) = ((''HTTP/1.1 200 '' @ h) @ EOH, cs')" "concat cs' = body" "[] \<notin> set cs'"
    using readHeaders_stops [OF h(1) _ ne, of "[]" body] h(2) c by auto
  have "streamBody fw sz [] cs' = (True, body)"
    using streamBody_all [of fw cs' "[]" sz] assms(4,5,6) r by simp
  with r(1) t assms(2,3) status_200 [of "h @ EOH"] show ?thesis by (simp add: httpsGetToFile_def Let_def)
qed

section \<open>Lemmas: reading the check answer\<close>

text \<open>The text after the first occurrence of a pattern.\<close>

definition after :: "string \<Rightarrow> string \<Rightarrow> string option" where
  "after p s = map_option (\<lambda>i. drop (i + length p) s) (find_str p s)"

lemma after_Cons: "\<not> starts_with p (c # s) \<Longrightarrow> after p (c # s) = after p s"
  by (simp add: after_def option.map_comp comp_def)

lemma after_here: "after p (p @ s) = Some s"
  using find_str_append_le [of p "[]" s] by (auto simp: after_def)

text \<open>Between quotes: a quoted key is found as the token it is.\<close>

lemma after_skip: "DQ \<notin> set t \<Longrightarrow> after (DQ # p) (t @ s) = after (DQ # p) s"
proof (induction t)
  case (Cons c t)
  then have "\<not> starts_with (DQ # p) (c # t @ s)" by (auto simp: starts_with_def)
  with Cons show ?case by (simp add: after_Cons)
qed simp

lemma take_prefix_at:
  assumes "k @ c # q = take n u"
  shows "take (length k) u = k" and "length k < length u" and "u ! length k = c"
proof -
  have l: "length k < n" "length k < length u" using arg_cong [OF assms, of length] by auto
  have "take (length k) (take n u) = k" using assms by (metis append_eq_conv_conj)
  then show "take (length k) u = k" using l by (simp add: min_def)
  have "take n u ! length k = c" using assms by (metis nth_append_length)
  then show "u ! length k = c" using l by simp
  show "length k < length u" by (rule l)
qed

lemma quoted_cases:
  assumes "DQ \<notin> set k" and "DQ \<notin> set t" and "k @ DQ # q = take n (t @ DQ # s)"
  shows "t = k"
proof -
  note u = take_prefix_at [OF assms(3)]
  have "\<not> length k < length t" using u(3) assms(2) by (metis nth_append nth_mem)
  moreover have "\<not> length t < length k"
  proof
    assume l: "length t < length k"
    have "k ! length t = take (length k) (t @ DQ # s) ! length t" by (simp only: u(1))
    then have "k ! length t = DQ" using l by (simp only: nth_take nth_append_length)
    then show False using assms(1) nth_mem [OF l] by simp
  qed
  ultimately show ?thesis using u(1) by simp
qed

lemma after_token:
  assumes "DQ \<notin> set k" and "DQ \<notin> set t"
  shows "after (DQ # k @ DQ # q) (DQ # t @ DQ # s) =
    (if t = k \<and> starts_with q s then Some (drop (length q) s) else after (DQ # k @ DQ # q) (DQ # s))"
proof (cases "t = k \<and> starts_with q s")
  case True
  then obtain r where "s = q @ r" by (auto simp: starts_with_iff)
  with True after_here [of "DQ # k @ DQ # q" r] show ?thesis by simp
next
  case False
  have "\<not> starts_with (DQ # k @ DQ # q) (DQ # t @ DQ # s)"
  proof
    assume a: "starts_with (DQ # k @ DQ # q) (DQ # t @ DQ # s)"
    then have e: "k @ DQ # q = take (length k + 1 + length q) (t @ DQ # s)" by (simp add: starts_with_def)
    then have "t = k" by (rule quoted_cases [OF assms])
    with a have "starts_with q s" by (auto simp: starts_with_iff)
    with False \<open>t = k\<close> show False by simp
  qed
  then show ?thesis using False after_skip [OF assms(2), of "k @ DQ # q" "DQ # s"] by (auto simp: after_Cons)
qed

lemma after_last: "DQ \<notin> set s \<Longrightarrow> after (DQ # k @ DQ # q) (DQ # s) = None"
proof -
  assume d: "DQ \<notin> set s"
  have "\<not> starts_with (DQ # k @ DQ # q) (DQ # s)" using d by (auto simp: starts_with_iff)
  moreover have "after (DQ # k @ DQ # q) s = None"
    using after_skip [OF d, of "k @ DQ # q" "[]"] by (simp add: after_def)
  ultimately show ?thesis by (simp add: after_Cons)
qed

lemma pattern_lengths:
  "length (DQ # key @ DQ # [CHR '':'', DQ]) = length key + 4" "length (DQ # key @ DQ # [CHR '':'']) = length key + 3"
  by simp_all

lemma jsonStr_after: "jsonStr json key =
    (case after (DQ # key @ DQ # [CHR '':'', DQ]) json of None \<Rightarrow> []
     | Some r \<Rightarrow> (case jsonStrText r of None \<Rightarrow> [] | Some v \<Rightarrow> v))"
  unfolding jsonStr_def after_def pattern_lengths by (simp split: option.split)

lemma jsonAfter_after: "jsonAfter json key =
    map_option (dropWhile (\<lambda>c. c = SP \<or> c = TAB)) (after (DQ # key @ DQ # [CHR '':'']) json)"
  unfolding jsonAfter_def after_def pattern_lengths by (simp add: option.map_comp comp_def)

lemma jsonStrText_plain:
  "DQ \<notin> set t \<Longrightarrow> CHR 0x5C \<notin> set t \<Longrightarrow> jsonStrText (t @ DQ # r) = Some t"
proof (induction t)
  case Nil
  show ?case by (cases r) simp_all
next
  case (Cons c t)
  then show ?case by (cases "t @ DQ # r") auto
qed

text \<open>The answer of \<open>getUpdateCheck\<close> for an entry whose texts need no escaping.\<close>

definition plain :: "string \<Rightarrow> bool" where
  "plain t \<longleftrightarrow> (\<forall>c \<in> set t. c \<noteq> DQ \<and> c \<noteq> CHR 0x5C \<and> 0x20 \<le> code_of c)"

lemma plain_simps [simp]: "plain []" "plain (c # t) \<longleftrightarrow> c \<noteq> DQ \<and> c \<noteq> CHR 0x5C \<and> 0x20 \<le> code_of c \<and> plain t"
  "plain (s @ t) \<longleftrightarrow> plain s \<and> plain t"
  by (auto simp: plain_def)

lemma plain_free: "plain t \<Longrightarrow> DQ \<notin> set t" "plain t \<Longrightarrow> CHR 0x5C \<notin> set t"
  by (auto simp: plain_def)

lemma jsonEsc_plain: "plain t \<Longrightarrow> jsonEsc t = t"
  by (induction t) (auto simp: jsonEsc_def code_of_def)

definition plain_entry :: "UpdateManifestEntry \<Rightarrow> bool" where
  "plain_entry m \<longleftrightarrow> plain (me_version m) \<and> plain (me_sha256hex m) \<and> plain (me_filename m)"

lemma updateJson_tokens:
  assumes "plain_entry m"
  shows "updateJson m = ''{'' @ DQ # ''update_available'' @ DQ # '':true,'' @ DQ # ''version'' @ DQ # '':'' @ DQ # me_version m
    @ DQ # '','' @ DQ # ''sha256'' @ DQ # '':'' @ DQ # me_sha256hex m @ DQ # '','' @ DQ # ''filename'' @ DQ # '':''
    @ DQ # me_filename m @ DQ # '','' @ DQ # ''sig_size'' @ DQ # '':'' @ show_nat (me_sigSize m) @ ''}'' @ [LF]"
  using assms by (simp add: updateJson_def plain_entry_def jsonEsc_plain)

lemma colon_quote: "DQ \<notin> set sep \<Longrightarrow> starts_with [CHR '':'', DQ] (sep @ DQ # s) \<longleftrightarrow> sep = '':''"
  by (cases sep; cases "tl sep") (auto simp: starts_with_def)

lemma colon: "sep \<noteq> [] \<Longrightarrow> starts_with '':'' (sep @ s) \<longleftrightarrow> hd sep = CHR '':''"
  by (cases sep) (auto simp: starts_with_def)

lemma show_nat_no_quote: "DQ \<notin> set (show_nat n)"
  using show_nat_digits [of n] by (auto simp: is_digit_def in_range_def code_of_def)

lemma not_digit_brace: "\<not> is_digit CHR ''}''" by (simp add: is_digit_def in_range_def code_of_def)

lemma strtoll_show_nat:
  assumes "n < 2 ^ 63" and "r = [] \<or> \<not> is_digit (hd r)"
  shows "strtoll (show_nat n @ r) = Some (int n)"
proof -
  obtain d ds where ds: "show_nat n = d # ds" by (cases "show_nat n") auto
  have d: "is_digit d" using show_nat_hd [of n] ds by simp
  have "takeWhile is_digit (show_nat n @ r) = show_nat n"
    using show_nat_digits [of n] assms(2) by (cases r) (auto simp: takeWhile_append)
  moreover have "dropWhile is_space (show_nat n @ r) = show_nat n @ r" using is_digit_not_space [OF d] ds by simp
  moreover have "hd (show_nat n @ r) = d" "show_nat n @ r \<noteq> []" using ds by simp_all
  ultimately show ?thesis using is_digit_not_sign [OF d] assms(1) by (simp add: strtoll_def Let_def)
qed

lemma updateJson_fields:
  assumes "plain_entry m"
  shows "jsonStr (updateJson m) ''version'' = me_version m" and "jsonStr (updateJson m) ''sha256'' = me_sha256hex m"
    and "jsonBool (updateJson m) ''update_available'' False" and "jsonInt (updateJson m) ''size'' 0 = 0"
    and "me_sigSize m < 2 ^ 63 \<Longrightarrow> jsonInt (updateJson m) ''sig_size'' 0 = int (me_sigSize m)"
proof -
  have free: "DQ \<notin> set (me_version m)" "DQ \<notin> set (me_sha256hex m)" "DQ \<notin> set (me_filename m)"
    and bs: "CHR 0x5C \<notin> set (me_version m)" "CHR 0x5C \<notin> set (me_sha256hex m)"
    using assms by (auto simp: plain_entry_def plain_free)
  note step = updateJson_tokens [OF assms] after_token after_skip after_last colon_quote colon free show_nat_no_quote
  have "\<exists>r. after (DQ # ''version'' @ DQ # [CHR '':'', DQ]) (updateJson m) = Some (me_version m @ DQ # r)"
    by (simp add: step del: append_Cons append_Nil) simp
  then show "jsonStr (updateJson m) ''version'' = me_version m"
    by (auto simp: jsonStr_after jsonStrText_plain free bs)
  have "\<exists>r. after (DQ # ''sha256'' @ DQ # [CHR '':'', DQ]) (updateJson m) = Some (me_sha256hex m @ DQ # r)"
    by (simp add: step del: append_Cons append_Nil) simp
  then show "jsonStr (updateJson m) ''sha256'' = me_sha256hex m"
    by (auto simp: jsonStr_after jsonStrText_plain free bs)
  have "\<exists>r. after (DQ # ''update_available'' @ DQ # [CHR '':'']) (updateJson m) = Some (''true'' @ r)"
    by (simp add: step del: append_Cons append_Nil) simp
  then show "jsonBool (updateJson m) ''update_available'' False"
    by (auto simp: jsonBool_def jsonAfter_after starts_with_def)
  have "after (DQ # ''size'' @ DQ # [CHR '':'']) (updateJson m) = None"
    by (simp add: step del: append_Cons append_Nil)
  then show "jsonInt (updateJson m) ''size'' 0 = 0" by (simp add: jsonInt_def jsonAfter_after)
  have "after (DQ # ''sig_size'' @ DQ # [CHR '':'']) (updateJson m) = Some (show_nat (me_sigSize m) @ ''}'' @ [LF])"
    by (simp add: step del: append_Cons append_Nil)
  moreover have "dropWhile (\<lambda>c. c = SP \<or> c = TAB) (show_nat n @ r) = show_nat n @ r" for n r
    using show_nat_hd [of n] show_nat_nonempty [of n] by (cases "show_nat n") (auto simp: is_digit_def in_range_def code_of_def)
  ultimately show "jsonInt (updateJson m) ''sig_size'' 0 = int (me_sigSize m)" if "me_sigSize m < 2 ^ 63"
    using that strtoll_show_nat [of "me_sigSize m" "''}'' @ [LF]"] not_digit_brace by (simp add: jsonInt_def jsonAfter_after)
qed

lemma updateJson_length:
  assumes "plain_entry m" and "me_sigSize m < 2 ^ 63"
  shows "length (updateJson m) \<le> length (me_version m) + length (me_sha256hex m) + length (me_filename m) + 100"
proof -
  have "me_sigSize m < 10 ^ Suc 19" using assms(2) by simp
  then have "length (show_nat (me_sigSize m)) \<le> Suc 19" by (rule length_show_nat)
  then show ?thesis by (simp add: updateJson_tokens [OF assms(1)])
qed

section \<open>Lemmas: what the server publishes\<close>

lemma versionScan_plain: "versionScan d l v \<noteq> None \<Longrightarrow> plain v"
proof (induction v arbitrary: d l)
  case (Cons c v)
  have "c = CHR ''.'' \<or> is_digit c" using Cons.prems by (auto split: if_splits)
  then have "c \<noteq> DQ \<and> c \<noteq> CHR 0x5C \<and> 0x20 \<le> code_of c" by (auto simp: is_digit_def in_range_def code_of_def)
  with Cons show ?case by (auto split: if_splits)
qed simp

lemma rfind_ch_Some: "rfind_ch c s = Some i \<Longrightarrow> i < length s \<and> s ! i = c"
  by (induction s arbitrary: i) (auto split: option.splits if_splits)

lemma plain_dash: "plain (CHR ''-'' # s) \<longleftrightarrow> plain s"
  by (simp add: code_of_def)

lemma parsed_name_plain:
  assumes "cb_valid (parseClientBinaryFilename name)" and "isKnownClientPlatform (cb_platform (parseClientBinaryFilename name))"
  shows "plain name" and "plain (cb_version (parseClientBinaryFilename name))" and "cb_version (parseClientBinaryFilename name) \<noteq> []"
    and "length (cb_version (parseClientBinaryFilename name)) \<le> length name"
proof -
  let ?pre = "''ntm-client-''"
  define rest0 where "rest0 = drop (length ?pre) name"
  define rest where "rest = (if has_suffix ''.exe'' rest0 then take (length rest0 - 4) rest0 else rest0)"
  note parse = parseClientBinaryFilename_def [of name, unfolded Let_def, folded rest0_def, folded rest_def]
  have pre: "take (length ?pre) name = ?pre"
  proof (rule ccontr)
    assume "take (length ?pre) name \<noteq> ?pre"
    then show False using assms(1) unfolding parseClientBinaryFilename_def Let_def by (simp only: if_True simp_thms ClientBinaryInfo.simps)
  qed
  obtain i where i: "rfind_ch CHR ''-'' rest = Some i" and v: "drop (i + 1) rest \<noteq> []" "versionScan 0 True (drop (i + 1) rest) \<noteq> None"
    and p: "cb_platform (parseClientBinaryFilename name) = take i rest" "cb_version (parseClientBinaryFilename name) = drop (i + 1) rest"
    using assms(1) unfolding parse by (simp split: if_split_asm option.split_asm prod.split_asm)
  have plain_v: "plain (drop (i + 1) rest)" by (rule versionScan_plain [OF v(2)])
  have "plain (take i rest)" using assms(2) unfolding p isKnownClientPlatform_def by (auto simp: code_of_def)
  then have "plain (take i rest @ CHR ''-'' # drop (i + 1) rest)" using plain_v by (simp add: plain_dash del: plain_simps(2))
  moreover have "rest = take i rest @ CHR ''-'' # drop (i + 1) rest" using rfind_ch_Some [OF i] split_at [of i rest] by simp
  ultimately have "plain rest" by (rule ssubst [rotated])
  moreover have "rest0 = rest \<or> rest0 = rest @ ''.exe''"
  proof (cases "has_suffix ''.exe'' rest0")
    case True
    then have "drop (length rest0 - 4) rest0 = ''.exe''" by (simp add: has_suffix_def numeral_eq_Suc)
    then show ?thesis using True append_take_drop_id [of "length rest0 - 4" rest0] by (simp add: rest_def)
  qed (simp add: rest_def)
  ultimately have "plain rest0" by (auto simp: code_of_def)
  moreover have "name = ?pre @ rest0" unfolding rest0_def using pre by (metis append_take_drop_id)
  ultimately show "plain name" by (simp add: code_of_def)
  show "plain (cb_version (parseClientBinaryFilename name))" "cb_version (parseClientBinaryFilename name) \<noteq> []"
    using plain_v v(1) unfolding p by simp_all
  have "length rest \<le> length name" by (simp add: rest_def rest0_def)
  then show "length (cb_version (parseClientBinaryFilename name)) \<le> length name" unfolding p by simp
qed

lemma hexEncode_plain: "plain (hexEncode b)"
proof -
  have "plain kHex" by (simp add: kHex_def code_of_def)
  then show ?thesis using set_hexEncode [of b] unfolding plain_def by blast
qed

lemma scanFile_plain: "scanFile env dir name = Some m \<Longrightarrow>
    plain_entry m \<and> me_version m \<noteq> [] \<and> length (me_version m) \<le> length (me_filename m)"
  using scanFile_Some [of env dir name m] parsed_name_plain [of name] by (auto simp: plain_entry_def hexEncode_plain)

lemma bestEntry_Some: "bestEntry p ms = Some m \<Longrightarrow> m \<in> set ms \<and> me_platform m = p"
proof -
  have "foldl (\<lambda>best m. if me_platform m = p then (case best of None \<Rightarrow> Some m
      | Some b \<Rightarrow> if semverCmp (me_version m) (me_version b) > 0 then Some m else best) else best) b0 ms = Some m
    \<Longrightarrow> b0 = Some m \<or> m \<in> set ms \<and> me_platform m = p" for b0
    by (induction ms arbitrary: b0) (auto split: if_splits option.splits)
  then show "bestEntry p ms = Some m \<Longrightarrow> m \<in> set ms \<and> me_platform m = p" unfolding bestEntry_def by blast
qed

lemma updateAuth_allowed: "raw \<in> allowed \<Longrightarrow> length raw = 32 \<Longrightarrow> updateAuth allowed (hexEncode raw) = None"
  by (auto simp: updateAuth_def hexToRaw32_def hexLoop_hexEncode Let_def)

lemma verified_sizes:
  assumes "verifyArtifactBytes ossl roots bin sig platform policy = Inr v"
  shows "bin \<noteq> []" and "sig \<noteq> []" and "length sig \<le> kMaxBundleBytes"
proof -
  show "bin \<noteq> []" using assms by (auto simp: verifyArtifactBytes_def verifyBundleWithRoots_def verifySignatureWithKeyBytes_def
        Let_def split: sum.splits if_splits option.splits)
  have "\<exists>b. parseBundle sig = Inr b"
    using assms by (auto simp: verifyArtifactBytes_def verifyBundleWithRoots_def split: sum.splits)
  then show "sig \<noteq> []" "length sig \<le> kMaxBundleBytes"
    by (auto simp: parseBundle_def splitLines_def bytes_str_def split: if_splits)
qed

text \<open>The entry that the handlers find after a scan.\<close>

lemma published:
  assumes "scanUpdateDir senv dir = (manifest, dir')" and "bestEntry platform manifest = Some m"
  shows "plain_entry m" and "me_version m \<noteq> []" and "length (me_version m) \<le> length (me_filename m)"
    and "\<exists>bin sig. map_of dir (me_filename m) = Some bin \<and> map_of dir' (me_filename m) = Some bin \<and>
      map_of dir (sigName (me_filename m)) = Some sig \<and> map_of dir' (sigName (me_filename m)) = Some sig \<and>
      me_sha256hex m = hexEncode (sc_sha256 senv bin) \<and> (me_sigSize m = length sig \<or> me_sigSize m = 0)"
proof -
  have m: "m \<in> set manifest" using bestEntry_Some [OF assms(2)] by blast
  have manifest: "manifest = keepers (scanCandidates senv dir)" using assms(1) by (simp add: scanUpdateDir_def Let_def)
  then have "m \<in> set (scanCandidates senv dir)" using m keepers_best [of "scanCandidates senv dir"] by blast
  then obtain name where n: "scanFile senv dir name = Some m"
    by (auto simp: scanCandidates_def set_map_filter split: if_splits)
  show "plain_entry m" "me_version m \<noteq> []" "length (me_version m) \<le> length (me_filename m)" using scanFile_plain [OF n] by simp_all
  have "map_of dir' x = map_of dir x" if "x \<in> keepNames manifest" for x
    using assms(1) that map_of_filter_key [of "\<lambda>y. y \<in> keepNames manifest \<or> \<not> sc_remove senv y" dir]
    by (auto simp: scanUpdateDir_def Let_def case_prod_beta')
  then have "map_of dir' (me_filename m) = map_of dir (me_filename m)"
    "map_of dir' (sigName (me_filename m)) = map_of dir (sigName (me_filename m))"
    using m by (auto simp: keepNames_def)
  then show "\<exists>bin sig. map_of dir (me_filename m) = Some bin \<and> map_of dir' (me_filename m) = Some bin \<and>
      map_of dir (sigName (me_filename m)) = Some sig \<and> map_of dir' (sigName (me_filename m)) = Some sig \<and>
      me_sha256hex m = hexEncode (sc_sha256 senv bin) \<and> (me_sigSize m = length sig \<or> me_sigSize m = 0)"
    using scanFile_Some [OF n] by auto
qed

section \<open>The cycle against the server\<close>

text \<open>A client whose own file operations succeed and whose disk keeps what was written.\<close>

definition update_ready :: "'k CycleEnv \<Rightarrow> bool" where
  "update_ready env \<longleftrightarrow>
     \<not> ev_inProgress env \<and> ev_exeDir env \<noteq> [] \<and> hasValidHostname (ev_server env) \<and> ev_canOpen env = (\<lambda>_. True) \<and>
     ev_fwrite env = (\<lambda>_. True) \<and> ev_kept env = (\<lambda>_ n. n) \<and> ev_canRead env = (\<lambda>_. True) \<and> ev_chmod env \<and> ev_renameBin env \<and> ev_renameSig env"

text \<open>The network carries the requests of the cycle to the handlers and their answers back.\<close>

definition answered :: "'k CycleEnv \<Rightarrow> bytes set \<Rightarrow> (string \<Rightarrow> bool) \<Rightarrow> Directory \<Rightarrow> UpdateManifestEntry list \<Rightarrow> bool" where
  "answered env allowed canOpen dir manifest \<longleftrightarrow>
     (let platform = (''platform'', ev_platform env); pubkey = (''pubkey'', pubkeyHexFromPem env) in
      carries (ev_net env (checkPath env)) (getUpdateCheck allowed manifest [platform, (''version'', ev_version env), pubkey]) \<and>
      carries (ev_net env (updatePath ''download'' env)) (getUpdateDownload allowed canOpen dir manifest [platform, pubkey]) \<and>
      carries (ev_net env (updatePath ''download_sig'' env)) (getUpdateDownloadSig allowed canOpen dir manifest [platform, pubkey]))"

lemma verifyingSignature_succeeds:
  assumes "update_ready env" and "fs (pendingPath (ev_exeDir env)) = Some bin" and "fs (pendingSigPath (ev_exeDir env)) = Some sig"
    and "verifyArtifactBytes (ev_ossl env) (ev_roots env) bin sig (ev_platform env) (ev_policy env) = Inr v"
    and "verifyingSignature env newVer fs = (evs, fs')"
  shows "UpdDone newVer \<in> set evs" and "fs' (targetPath (ev_exeDir env)) = Some bin"
    and "fs' (targetSigPath (ev_exeDir env)) = Some sig"
proof -
  let ?d = "ev_exeDir env"
  have r: "readVec env (pendingPath ?d) fs = Some bin" "readVec env (pendingSigPath ?d) fs = Some sig"
    using assms(1,2,3) verified_sizes [OF assms(4)] by (simp_all add: readVec_def update_ready_def)
  obtain evs1 where a: "applying env newVer fs = (evs1, fs')" and e: "evs = UpdStage ''verifying_signature'' # evs1"
    using assms(5) unfolding verifyingSignature_def Let_def by (auto simp: r assms(4) split: prod.splits)
  have "applying env newVer fs = ([UpdStage ''applying'', UpdStage ''restarting'', UpdDone newVer]
      @ (if ev_argv env \<and> ev_execv env then [] else [UpdErr ''exec'' ''execv-failed'']),
      rename_file (pendingSigPath ?d) (targetSigPath ?d) (rename_file (pendingPath ?d) (targetPath ?d) fs))"
    using assms(1,3) by (simp add: applying_def applyUpdateLinux_def Let_def update_ready_def rename_file_def)
  with a e assms(2,3) show "UpdDone newVer \<in> set evs" "fs' (targetPath ?d) = Some bin" "fs' (targetSigPath ?d) = Some sig"
    by (auto simp: rename_file_def)
qed

lemma downloads_succeed:
  assumes "update_ready env" and "carries (ev_net env (updatePath ''download'' env)) (200, hd1, bytes_str bin)"
    and "carries (ev_net env (updatePath ''download_sig'' env)) (200, hd2, bytes_str sig)"
    and "hexEncode (ev_sha256 env bin) = jsonStr body ''sha256''" and "length bin \<le> kAbsoluteMaxBytes"
    and "jsonInt body ''sig_size'' 0 = int (length sig) \<or> jsonInt body ''sig_size'' 0 = 0"
    and "verifyArtifactBytes (ev_ossl env) (ev_roots env) bin sig (ev_platform env) (ev_policy env) = Inr v"
    and "downloadingBinary env body newVer 0 fs = (evs, fs')"
  shows "UpdDone newVer \<in> set evs" and "fs' (targetPath (ev_exeDir env)) = Some bin"
    and "fs' (targetSigPath (ev_exeDir env)) = Some sig"
proof -
  let ?d = "ev_exeDir env"
  note sz = verified_sizes [OF assms(7)]
  have h: "hasValidHostname (ev_server env)" and o: "ev_canOpen env p" and w: "ev_fwrite env k" and c: "ev_canRead env p"
    and kp: "ev_kept env p = (\<lambda>n. n)" for p k
    using assms(1) by (simp_all add: update_ready_def)
  define fs1 where "fs1 = fs(pendingPath ?d \<mapsto> bin)"
  define fs2 where "fs2 = fs1(pendingSigPath ?d \<mapsto> sig)"
  have g1: "httpsGetToFile (ev_server env) (ev_net env (updatePath ''download'' env)) (ev_canOpen env) (ev_fwrite env) (ev_kept env (pendingPath ?d))
      (pendingPath ?d) 0 (fs(pendingPath ?d := None)) = (200, fs1)"
    using httpsGetToFile_carries [OF assms(2) h, of "ev_canOpen env" "pendingPath ?d" "ev_fwrite env" 0] o w kp assms(5)
    by (simp add: fs1_def)
  have bound: "length (bytes_str sig) \<le> kAbsoluteMaxBytes" "int (length sig) \<le> 10 * 1024 * 1024"
    using sz(3) by (simp_all add: kMaxBundleBytes_def kAbsoluteMaxBytes_def)
  have g2: "httpsGetToFile (ev_server env) (ev_net env (updatePath ''download_sig'' env)) (ev_canOpen env) (ev_fwrite env) (ev_kept env (pendingSigPath ?d))
      (pendingSigPath ?d) (if jsonInt body ''sig_size'' 0 > 0 then jsonInt body ''sig_size'' 0 else 10 * 1024 * 1024)
      (fs1(pendingSigPath ?d := None)) = (200, fs2)"
    using httpsGetToFile_carries [OF assms(3) h, of "ev_canOpen env" "pendingSigPath ?d" "ev_fwrite env"] o w kp bound assms(6)
    by (auto simp: fs2_def)
  have s: "fileSha256Hex env (pendingPath ?d) fs1 = Some (jsonStr body ''sha256'')"
    using c assms(4) by (simp add: fileSha256Hex_def fs1_def)
  obtain evs1 where v: "verifyingSignature env newVer fs2 = (evs1, fs')" and e: "\<exists>before. evs = before @ evs1"
    using assms(8) unfolding downloadingBinary_def verifyingSha256_def downloadingSignature_def Let_def
    by (force simp: g1 g2 s split: prod.splits)
  have "fs2 (pendingPath ?d) = Some bin" "fs2 (pendingSigPath ?d) = Some sig" by (simp_all add: fs2_def fs1_def)
  from verifyingSignature_succeeds [OF assms(1) this assms(7) v] e
  show "UpdDone newVer \<in> set evs" "fs' (targetPath ?d) = Some bin" "fs' (targetSigPath ?d) = Some sig" by auto
qed

lemma cycle_succeeds:
  assumes "update_ready env" and "pubkeyHexFromPem env \<noteq> []"
    and "carries (ev_net env (checkPath env)) (200, hd0, body)" and "length body \<le> 2 ^ 20"
    and "offers_update 200 body" and "jsonInt body ''size'' 0 = 0"
    and "carries (ev_net env (updatePath ''download'' env)) (200, hd1, bytes_str bin)"
    and "carries (ev_net env (updatePath ''download_sig'' env)) (200, hd2, bytes_str sig)"
    and "hexEncode (ev_sha256 env bin) = jsonStr body ''sha256''" and "length bin \<le> kAbsoluteMaxBytes"
    and "jsonInt body ''sig_size'' 0 = int (length sig) \<or> jsonInt body ''sig_size'' 0 = 0"
    and "verifyArtifactBytes (ev_ossl env) (ev_roots env) bin sig (ev_platform env) (ev_policy env) = Inr v"
  shows "\<exists>evs fs'. doOneCheckCycle env trigger fs = (evs, fs') \<and> UpdDone (jsonStr body ''version'') \<in> set evs \<and>
    fs' (targetPath (ev_exeDir env)) = Some bin \<and> fs' (targetSigPath (ev_exeDir env)) = Some sig"
proof -
  have get: "httpsGet (ev_server env) (ev_net env (checkPath env)) = (200, body)"
    using assms(1) by (intro httpsGet_carries [OF assms(3) _ assms(4)]) (simp add: update_ready_def)
  define fs1 where "fs1 = (if trigger = Periodic then writeLastCheck (ev_canOpen env) (ev_exeDir env) (ev_now env) fs else fs)"
  obtain evs fs' where d: "downloadingBinary env body (jsonStr body ''version'') 0 fs1 = (evs, fs')" by (metis surj_pair)
  have "doOneCheckCycle env trigger fs = (UpdStage ''checking'' # evs, fs')"
    using assms(1,2,5,6) get d checkAnswer_cases [of env 200 body fs1]
    by (auto simp: doOneCheckCycle_def update_ready_def fs1_def)
  with downloads_succeed [OF assms(1,7,8,9,10,11,12) d] show ?thesis by auto
qed


section \<open>Example data and properties\<close>

text \<open>A network that carries every request of the client to the handlers and every answer in one chunk.\<close>

definition carried :: "UpdResponse \<Rightarrow> HttpTry" where
  "carried resp = \<lparr> ht_connect = True, ht_write = True,
     ht_chunks = [''HTTP/1.1 '' @ show_nat (fst resp) @ SP # ''OK'' @ EOH @ snd (snd resp)] \<rparr>"

lemma find_EOH: "CR \<notin> set t \<Longrightarrow> find_str EOH (t @ EOH) = Some (length t)"
  by (induction t) (auto simp: starts_with_def)

lemma show_nat_no_CR: "CR \<notin> set (show_nat n)"
  using show_nat_digits [of n] by (auto simp: is_digit_def in_range_def code_of_def)

lemma carries_carried: "carries (carried resp) resp"
proof -
  have "CR \<notin> set (''HTTP/1.1 '' @ show_nat (fst resp) @ SP # ''OK'')" by (simp add: show_nat_no_CR)
  from find_EOH [OF this] show ?thesis
    by (auto simp: carries_def carried_def split: prod.split intro!: exI [of _ "''OK''"])
qed

definition demo_client0 :: "bytes CycleEnv" where
  "demo_client0 = \<lparr> ev_inProgress = False, ev_exeDir = ''/opt/ntm'', ev_rawKey = Some (replicate 32 7), ev_platform = ''linux-amd64'',
     ev_version = ''1.0.0'', ev_server = ''ntm.example'', ev_net = (\<lambda>_. carried (404, [], [])), ev_canOpen = (\<lambda>_. True),
     ev_fwrite = (\<lambda>_. True), ev_kept = (\<lambda>_ n. n), ev_canRead = (\<lambda>_. True), ev_sha256 = (\<lambda>_. replicate 32 0), ev_ossl = demo_ossl,
     ev_roots = rs_keys demo_roots, ev_policy = acceptPolicy 0 3, ev_opensslErrors = [], ev_chmod = True,
     ev_renameBin = True, ev_renameSig = True, ev_now = 100, ev_argv = True, ev_execv = True \<rparr>"

definition demo_client :: "bytes CycleEnv" where
  "demo_client =
     (let ms = fst (scanUpdateDir demo_scan demo_dir); dir = snd (scanUpdateDir demo_scan demo_dir);
          allowed = {replicate 32 7}; e = demo_client0;
          platform = (''platform'', ev_platform e); pubkey = (''pubkey'', pubkeyHexFromPem e)
      in e\<lparr> ev_net := (\<lambda>path.
           if path = checkPath e
           then carried (getUpdateCheck allowed ms [platform, (''version'', ev_version e), pubkey])
           else if path = updatePath ''download'' e
           then carried (getUpdateDownload allowed (\<lambda>_. True) dir ms [platform, pubkey])
           else carried (getUpdateDownloadSig allowed (\<lambda>_. True) dir ms [platform, pubkey])) \<rparr>)"

lemma demo_paths: "updatePath ''download'' e \<noteq> checkPath e" "updatePath ''download_sig'' e \<noteq> checkPath e"
  "updatePath ''download_sig'' e \<noteq> updatePath ''download'' e"
  by (simp_all add: checkPath_def updatePath_def)

lemma demo_client_simps:
  "ev_platform demo_client = ''linux-amd64''" "ev_version demo_client = ''1.0.0''" "ev_rawKey demo_client = Some (replicate 32 7)"
  "ev_sha256 demo_client = (\<lambda>_. replicate 32 0)" "ev_ossl demo_client = demo_ossl" "ev_roots demo_client = rs_keys demo_roots"
  "ev_policy demo_client = acceptPolicy 0 3"
  "checkPath demo_client = checkPath demo_client0" "updatePath x demo_client = updatePath x demo_client0"
  "pubkeyHexFromPem demo_client = pubkeyHexFromPem demo_client0"
  by (simp_all add: demo_client_def demo_client0_def Let_def checkPath_def updatePath_def pubkeyHexFromPem_def)

lemma demo_client0_fields: "ev_platform demo_client0 = ''linux-amd64''" "ev_version demo_client0 = ''1.0.0''"
  by (simp_all add: demo_client0_def)

lemma demo_iter: "sc_iter1 demo_scan"
  by (simp add: demo_scan_def)

lemma demo_names: "map fst demo_dir = [demo_name, sigName demo_name, ''notes'']"
  by (simp add: demo_dir_def)

lemma demo_ready: "update_ready demo_client"
  by (simp add: update_ready_def demo_client_def demo_client0_def Let_def hasValidHostname_def)

lemma demo_answered: "answered demo_client {replicate 32 7} (\<lambda>_. True) (snd (scanUpdateDir demo_scan demo_dir))
    (fst (scanUpdateDir demo_scan demo_dir))"
  unfolding answered_def Let_def demo_client_simps
  by (simp add: demo_client_def demo_client0_fields Let_def demo_paths carries_carried)

text \<open>The scan of the example directory publishes one entry.\<close>

lemma demo_scan_entry:
  assumes "scanFile demo_scan demo_dir demo_name = Some c"
  shows "fst (scanUpdateDir demo_scan demo_dir) = [c]" and "me_platform c = ''linux-amd64''" and "me_version c = ''1.2.3''"
    and "me_filename c = demo_name"
proof -
  have n: "cb_platform (parseClientBinaryFilename demo_name) = ''linux-amd64''"
    "cb_version (parseClientBinaryFilename demo_name) = ''1.2.3''" "has_suffix ''.sig'' (sigName demo_name)"
    "\<not> cb_valid (parseClientBinaryFilename ''notes'')"
    by (code_simp, code_simp, code_simp, code_simp)
  show "me_platform c = ''linux-amd64''" "me_version c = ''1.2.3''" "me_filename c = demo_name"
    using scanFile_Some [OF assms] n by simp_all
  have "scanFile demo_scan demo_dir (sigName demo_name) = None" "scanFile demo_scan demo_dir ''notes'' = None"
    using n(3,4) by (simp_all add: scanFile_def Let_def)
  then have "scanCandidates demo_scan demo_dir = [c]"
    using assms demo_iter by (simp add: scanCandidates_def demo_names List.map_filter_def)
  then show "fst (scanUpdateDir demo_scan demo_dir) = [c]" by (simp add: scanUpdateDir_def Let_def keepers_def)
qed

lemma doOneCheckCycle_outcome:
  assumes "doOneCheckCycle env trigger fs = (evs, fs')"
  shows "(reports_done evs \<longrightarrow>
      (\<exists>body. httpsGet (ev_server env) (ev_net env (checkPath env)) = (200, body) \<and> offers_update 200 body \<and>
         installed env body fs fs')) \<and>
    (\<not> reports_done evs \<longrightarrow>
      fs' (targetPath (ev_exeDir env)) = fs (targetPath (ev_exeDir env)) \<and>
      fs' (targetSigPath (ev_exeDir env)) = fs (targetSigPath (ev_exeDir env))) \<and>
    (\<forall>p. p \<notin> cycle_files (ev_exeDir env) \<longrightarrow> (trigger = Periodic \<longrightarrow> p \<noteq> statePath (ev_exeDir env)) \<longrightarrow> fs' p = fs p) \<and>
    (UpdStage ''downloading_binary'' \<in> set evs \<longrightarrow> fs' (pendingPath (ev_exeDir env)) = None)"
proof (cases "ev_inProgress env \<or> ev_exeDir env = [] \<or> pubkeyHexFromPem env = []")
  case True
  then show ?thesis using assms by (auto simp: doOneCheckCycle_def split: if_splits)
next
  case False
  let ?d = "ev_exeDir env"
  obtain status body where g: "httpsGet (ev_server env) (ev_net env (checkPath env)) = (status, body)" by (metis surj_pair)
  define fs1 where "fs1 = (if trigger = Periodic then writeLastCheck (ev_canOpen env) ?d (ev_now env) fs else fs)"
  have same: "(trigger = Periodic \<longrightarrow> p \<noteq> statePath ?d) \<Longrightarrow> fs1 p = fs p" for p by (simp add: fs1_def writeLastCheck_other)
  have same': "p \<in> cycle_files ?d \<Longrightarrow> fs1 p = fs p" for p
    by (rule same) (auto simp: cycle_files_def statePath_def pendingPath_def pendingSigPath_def targetPath_def targetSigPath_def)
  obtain evs1 where c: "checkAnswer env status body fs1 = (evs1, fs')" and evs: "evs = UpdStage ''checking'' # evs1"
    using assms False g unfolding doOneCheckCycle_def fs1_def by (auto split: prod.splits)
  show ?thesis
  proof (cases "offers_update status body")
    case False
    with checkAnswer_quiet [OF False c] same evs show ?thesis by (auto simp: cycle_files_def)
  next
    case True
    then have "outcome_ok env body fs1 (evs1, fs')"
      using c checkAnswer_cases [of env status body fs1] downloadingBinary_outcome [of env body fs1] by simp
    moreover have "installed env body fs1 fs' = installed env body fs fs'" by (simp add: installed_def same)
    moreover have "status = 200" using True by (simp add: offers_update_def)
    ultimately show ?thesis using g True evs same
      by (auto simp: outcome_ok_def Let_def cycle_files_def split: if_splits)
  qed
qed

section \<open>A pushed update\<close>

text \<open>The cycle that a control line \<open>update_now\<close> runs, on the files of the logger: the paths that
  \<open>doOneCheckCycle\<close> can write under this trigger get their new contents (\<open>pushedCycle_files\<close>).  The log messages of the cycle are
  left out.\<close>

definition fsOf :: "Files \<Rightarrow> file_system" where
  "fsOf fs p = map_option str_bytes (map_of fs p)"

definition putFile :: "file_system \<Rightarrow> string \<Rightarrow> Files \<Rightarrow> Files" where
  "putFile f p fs = (case f p of None \<Rightarrow> AList.delete p fs | Some b \<Rightarrow> AList.update p (bytes_str b) fs)"

definition cyclePaths :: "string \<Rightarrow> string list" where
  "cyclePaths dir = [pendingPath dir, pendingSigPath dir, targetPath dir, targetSigPath dir]"

definition pushedCycle :: "'k CycleEnv \<Rightarrow> Logger \<Rightarrow> UpdEvent list \<times> Logger" where
  "pushedCycle env = (\<lambda>(l, fs).
     case doOneCheckCycle env ServerPush (fsOf fs) of
       (evs, f) \<Rightarrow> (evs, (l, fold (putFile f) (cyclePaths (ev_exeDir env)) fs)))"

lemma fsOf_putFile: "fsOf (putFile f p fs) q = (if q = p then f p else fsOf fs q)"
  by (auto simp: fsOf_def putFile_def update_conv' delete_conv' split: option.split)

lemma fsOf_put_all: "fsOf (fold (putFile f) ps fs) q = (if q \<in> set ps then f q else fsOf fs q)"
  by (induction ps arbitrary: fs) (auto simp: fsOf_putFile)

lemma fsOf_same: "fsOf fs p = fsOf fs' p \<Longrightarrow> map_of fs p = map_of fs' p"
  unfolding fsOf_def by (metis bytes_str_str_bytes option.inj_map_strong option.map_ident_strong option.map_comp)

lemma set_cyclePaths: "set (cyclePaths dir) = cycle_files dir"
  by (auto simp: cyclePaths_def cycle_files_def)

lemma pushedCycle_files:
  assumes "doOneCheckCycle env ServerPush (fsOf fs) = (evs, f)"
  shows "\<exists>fs'. pushedCycle env (l, fs) = (evs, (l, fs')) \<and> fsOf fs' = f"
proof -
  let ?fs' = "fold (putFile f) (cyclePaths (ev_exeDir env)) fs"
  have "fsOf ?fs' q = f q" for q
    using doOneCheckCycle_outcome [OF assms] by (auto simp: fsOf_put_all set_cyclePaths)
  then show ?thesis using assms by (auto simp: pushedCycle_def)
qed

text \<open>
  C10.  One update cycle, whatever the server, the network and the file operations do: when it reports an
  update as done, the check answer was 200 and offered an update, the installed binary has the SHA-256 of
  that answer, and the downloaded signature passed the trust chain for exactly these bytes (the signature
  file is replaced with it when the rename succeeds).  When it does not, the installed binary and its
  signature are untouched.  Besides these and the downloads, only the time of the last check may change, and
  no pending binary is left behind by an offered update.
\<close>

theorem update_installs_verified:
  assumes "doOneCheckCycle env trigger fs = (evs, fs')"
  shows "(reports_done evs \<longrightarrow>
      (\<exists>body. httpsGet (ev_server env) (ev_net env (checkPath env)) = (200, body) \<and> offers_update 200 body \<and>
         installed env body fs fs')) \<and>
    (\<not> reports_done evs \<longrightarrow>
      fs' (targetPath (ev_exeDir env)) = fs (targetPath (ev_exeDir env)) \<and>
      fs' (targetSigPath (ev_exeDir env)) = fs (targetSigPath (ev_exeDir env))) \<and>
    (\<forall>p. p \<notin> insert (statePath (ev_exeDir env)) (cycle_files (ev_exeDir env)) \<longrightarrow> fs' p = fs p) \<and>
    (UpdStage ''downloading_binary'' \<in> set evs \<longrightarrow> fs' (pendingPath (ev_exeDir env)) = None)"
  using doOneCheckCycle_outcome [OF assms] by auto

theorem update_installs_verified_witness:
  "\<exists>evs fs'. doOneCheckCycle demo_client Periodic Map.empty = (evs, fs') \<and>
    (reports_done evs \<longrightarrow> installed demo_client (snd (httpsGet (ev_server demo_client) (ev_net demo_client (checkPath demo_client)))) Map.empty fs') \<and>
    fs' ''/etc/passwd'' = None"
proof -
  obtain evs fs' where r: "doOneCheckCycle demo_client Periodic Map.empty = (evs, fs')" by (metis surj_pair)
  have "ev_exeDir demo_client = ''/opt/ntm''" by (simp add: demo_client_def demo_client0_def Let_def)
  then have "''/etc/passwd'' \<notin> insert (statePath (ev_exeDir demo_client)) (cycle_files (ev_exeDir demo_client))"
    by (simp add: statePath_def cycle_files_def pendingPath_def pendingSigPath_def targetPath_def targetSigPath_def)
  with update_installs_verified [OF r] r show ?thesis by auto
qed

text \<open>
  C11.  A client whose key the server allows and for whose platform the server's scan published a file newer
  than the client: when the network carries the requests and answers of one cycle, cut into any chunks, the
  client's file operations succeed and its policy accepts the published file, the cycle installs exactly the
  server's binary and signature and reports that version as done.
\<close>

theorem update_end_to_end:
  assumes scan: "scanUpdateDir senv dir = (manifest, dir')" and best: "bestEntry (ev_platform env) manifest = Some m"
    and newer: "semverCmp (me_version m) (ev_version env) > 0"
    and key: "ev_rawKey env = Some raw" "length raw = 32" "raw \<in> allowed"
    and net: "answered env allowed (\<lambda>_. True) dir' manifest" and ready: "update_ready env"
    and sha: "ev_sha256 env = sc_sha256 senv" "\<And>b. length (ev_sha256 env b) = 32"
    and small: "length (me_filename m) \<le> 255" "\<And>b. map_of dir (me_filename m) = Some b \<Longrightarrow> length b \<le> kAbsoluteMaxBytes"
    and accepts: "\<And>bin sig. map_of dir (me_filename m) = Some bin \<Longrightarrow> map_of dir (sigName (me_filename m)) = Some sig \<Longrightarrow>
      \<exists>v. verifyArtifactBytes (ev_ossl env) (ev_roots env) bin sig (ev_platform env) (ev_policy env) = Inr v"
  shows "\<exists>bin sig evs fs'. map_of dir (me_filename m) = Some bin \<and> map_of dir (sigName (me_filename m)) = Some sig \<and>
    doOneCheckCycle env trigger fs = (evs, fs') \<and> UpdDone (me_version m) \<in> set evs \<and>
    fs' (targetPath (ev_exeDir env)) = Some bin \<and> fs' (targetSigPath (ev_exeDir env)) = Some sig"
proof -
  note pub = published [OF scan best]
  obtain bin sig where b: "map_of dir (me_filename m) = Some bin" "map_of dir' (me_filename m) = Some bin"
    and s: "map_of dir (sigName (me_filename m)) = Some sig" "map_of dir' (sigName (me_filename m)) = Some sig"
    and h: "me_sha256hex m = hexEncode (sc_sha256 senv bin)" and z: "me_sigSize m = length sig \<or> me_sigSize m = 0"
    using pub(4) by blast
  obtain v where v: "verifyArtifactBytes (ev_ossl env) (ev_roots env) bin sig (ev_platform env) (ev_policy env) = Inr v"
    using accepts [OF b(1) s(1)] by blast
  note fields = updateJson_fields [OF pub(1)]
  have sz: "length sig < 2 ^ 63" using verified_sizes(3) [OF v] by (simp add: kMaxBundleBytes_def)
  then have sigsz: "jsonInt (updateJson m) ''sig_size'' 0 = int (length sig) \<or> jsonInt (updateJson m) ''sig_size'' 0 = 0"
    using z fields(5) by auto
  have "me_sigSize m < 2 ^ 63" using z sz by auto
  note len = updateJson_length [OF pub(1) this]
  have "length (me_sha256hex m) = 64" unfolding h length_hexEncode sha(1) [symmetric] sha(2) by simp
  then have check_small: "length (updateJson m) \<le> 2 ^ 20" using len pub(3) small(1) by simp
  have hex: "pubkeyHexFromPem env = hexEncode raw" using key by (simp add: pubkeyHexFromPem_def)
  have auth: "updateAuth allowed (hexEncode raw) = None" by (rule updateAuth_allowed [OF key(3,2)])
  have answers: "carries (ev_net env (checkPath env)) (200, [(''Cache-Control'', ''no-store'')], updateJson m)"
    "\<exists>hd1. carries (ev_net env (updatePath ''download'' env)) (200, hd1, bytes_str bin)"
    "\<exists>hd1. carries (ev_net env (updatePath ''download_sig'' env)) (200, hd1, bytes_str sig)"
    using net best newer b s unfolding answered_def Let_def hex
    by (auto simp: getUpdateCheck_def getUpdateDownload_def getUpdateDownloadSig_def serveFile_def param_def auth)
  have offers: "offers_update 200 (updateJson m)"
    using fields h pub(2) sha by (simp add: offers_update_def kMaxUpdateBytes_def)
  from answers obtain hd1 hd2 where dl: "carries (ev_net env (updatePath ''download'' env)) (200, hd1, bytes_str bin)"
    "carries (ev_net env (updatePath ''download_sig'' env)) (200, hd2, bytes_str sig)" by blast
  have "pubkeyHexFromPem env \<noteq> []" "hexEncode (ev_sha256 env bin) = jsonStr (updateJson m) ''sha256''"
    using hex key(2) fields(2) h sha(1) by auto
  from cycle_succeeds [OF ready this(1) answers(1) check_small offers fields(4) dl this(2) small(2) [OF b(1)] sigsz v, of trigger fs]
  show ?thesis using fields(1) b(1) s(1) by auto
qed

theorem update_end_to_end_witness:
  "\<exists>evs fs'. doOneCheckCycle demo_client ServerPush Map.empty = (evs, fs') \<and> UpdDone ''1.2.3'' \<in> set evs \<and>
    fs' ''/opt/ntm/ntm-client'' = Some [5]"
proof -
  obtain c where c: "scanFile demo_scan demo_dir demo_name = Some c" using demo_scanned by blast
  note e = demo_scan_entry [OF c]
  obtain ms dir' where s: "scanUpdateDir demo_scan demo_dir = (ms, dir')" by (metis surj_pair)
  have ms: "ms = [c]" using e(1) s by simp
  have d: "map_of demo_dir demo_name = Some [5]" "map_of demo_dir (sigName demo_name) = Some (printBundle demo_bundle)"
    by (simp_all add: demo_dir_def sigName_def)
  have cmp: "semverCmp ''1.2.3'' ''1.0.0'' > 0" by code_simp
  have t: "targetPath (ev_exeDir demo_client) = ''/opt/ntm/ntm-client''"
    by (simp add: demo_client_def demo_client0_def Let_def targetPath_def)
  have "\<exists>bin sig evs fs'. map_of demo_dir (me_filename c) = Some bin \<and> map_of demo_dir (sigName (me_filename c)) = Some sig \<and>
    doOneCheckCycle demo_client ServerPush Map.empty = (evs, fs') \<and> UpdDone (me_version c) \<in> set evs \<and>
    fs' (targetPath (ev_exeDir demo_client)) = Some bin \<and> fs' (targetSigPath (ev_exeDir demo_client)) = Some sig"
  proof (rule update_end_to_end [OF s, where raw = "replicate 32 7" and allowed = "{replicate 32 7}"])
    show "bestEntry (ev_platform demo_client) ms = Some c" by (simp add: ms bestEntry_def e demo_client_simps)
    show "answered demo_client {replicate 32 7} (\<lambda>_. True) dir' ms" using demo_answered s by simp
    show "length (me_filename c) \<le> 255" by (simp add: e demo_name_def)
    show "\<And>b. map_of demo_dir (me_filename c) = Some b \<Longrightarrow> length b \<le> kAbsoluteMaxBytes" by (simp add: e d kAbsoluteMaxBytes_def)
    show "\<exists>v. verifyArtifactBytes (ev_ossl demo_client) (ev_roots demo_client) bin sig (ev_platform demo_client) (ev_policy demo_client) = Inr v"
      if "map_of demo_dir (me_filename c) = Some bin" "map_of demo_dir (sigName (me_filename c)) = Some sig" for bin sig
      using that demo_artifact by (simp add: e d demo_client_simps kServerPlatform_def)
  qed (use e cmp in \<open>simp_all add: demo_client_simps demo_ready demo_scan_def\<close>)
  then show ?thesis by (auto simp: e d t)
qed

text \<open>
  C17.  What a control line can reach, whatever the server (or an attacker in its place) sends, whatever
  the network answers and whichever file operations fail.  A line that runs no update cycle changes or
  deletes only files directly in the log directory with the logger's prefix, and its answer is the same
  as if the log directory were the whole file system, so that no other file can be read or even probed.
  The only line that reaches further is a well-formed \<open>update_now\<close> on a client with automatic updates: it
  runs one cycle of the updater, which besides changes only the pending and the installed binary with
  their signatures, and replaces the installed binary only by a verified one.
\<close>

theorem ctrl_line_confined:
  assumes "path_ok (fst s)" "CHR ''/'' \<notin> set (ce_dateStr env)" "ce_cycle env = pushedCycle cenv"
    and "processCtrlLine env line s = (out, s')"
  shows "lg_logDir (fst s') = lg_logDir (fst s) \<and> path_ok (fst s') \<and>
    (\<forall>p. map_of (snd s') p \<noteq> map_of (snd s) p \<longrightarrow> log_file (lg_logDir (fst s)) p \<or>
       (\<exists>r. runsUpdate env r line) \<and> p \<in> cycle_files (ev_exeDir cenv)) \<and>
    ((\<forall>r. \<not> runsUpdate env r line) \<longrightarrow>
       fst (processCtrlLine env line (fst s, dirView (lg_logDir (fst s)) (snd s))) = out) \<and>
    (\<forall>r evs f. runsUpdate env r line \<longrightarrow> doOneCheckCycle cenv ServerPush (fsOf (snd s)) = (evs, f) \<longrightarrow>
       out = respLine (''upd '' @ r @ '' ack'') # map (updLine r) evs \<and> fsOf (snd s') = f \<and>
       (f (targetPath (ev_exeDir cenv)) = fsOf (snd s) (targetPath (ev_exeDir cenv)) \<or>
        (\<exists>body. httpsGet (ev_server cenv) (ev_net cenv (checkPath cenv)) = (200, body) \<and> offers_update 200 body \<and>
           installed cenv body (fsOf (snd s)) f)))"
proof (cases "\<exists>r. runsUpdate env r line")
  case False
  then have "\<forall>r. \<not> runsUpdate env r line" by blast
  from this ctrl_line_no_update [OF assms(1,2) this] show ?thesis by (simp add: assms(4) confined_def)
next
  case True
  then obtain r where r: "runsUpdate env r line" by blast
  obtain evs f where c: "doOneCheckCycle cenv ServerPush (fsOf (snd s)) = (evs, f)" by (metis surj_pair)
  from pushedCycle_files [OF c, of "fst s"]
  obtain fs' where p: "pushedCycle cenv s = (evs, (fst s, fs'))" "fsOf fs' = f" by auto
  have u: "processCtrlLine env line s = (respLine (''upd '' @ r1 @ '' ack'') # map (updLine r1) evs, (fst s, fs'))"
    if "runsUpdate env r1 line" for r1
    using runsUpdate_line [OF that, of s] that by (simp add: updateNow_def runsUpdate_def assms(3) p)
  then have s': "s' = (fst s, fs')" using r assms(4) by simp
  have "p \<in> cycle_files (ev_exeDir cenv)" if "map_of fs' p \<noteq> map_of (snd s) p" for p
    using doOneCheckCycle_outcome [OF c] fsOf_same [of fs' p "snd s"] that p(2) by auto
  then show ?thesis using u r c p(2) assms(1,4) doOneCheckCycle_outcome [OF c] by (auto simp: s')
qed

text \<open>One line outside the log directory, and one pushed update that replaces the binary.\<close>

definition demo_push :: CtrlEnv where
  "demo_push = demo_ctrl\<lparr> ce_cycle := pushedCycle demo_client \<rparr>"

theorem ctrl_line_confined_witness:
  "fst (processCtrlLine demo_push ''C log_get r1 ../etc/passwd''
     (fst demo_logger, (''/l/../etc/passwd'', ''root'') # snd demo_logger)) =
   [''L err r1 bad_filename invalid-or-missing-filename'' @ [LF]] \<and>
   map_of (snd (snd (processCtrlLine demo_push ''C update_now r1 x''
     (fst demo_logger, (''/l/../etc/passwd'', ''root'') # snd demo_logger)))) ''/l/../etc/passwd'' = Some ''root''"
proof -
  let ?s = "(fst demo_logger, (''/l/../etc/passwd'', ''root'') # snd demo_logger)"
  have ok: "path_ok (fst ?s)" "CHR ''/'' \<notin> set (ce_dateStr demo_push)" "ce_cycle demo_push = pushedCycle demo_client"
    by (simp_all add: path_ok_def demo_logger_def demo_push_def demo_ctrl_def pathForDate_def)
  have v: "dirView (lg_logDir (fst ?s)) (snd ?s) = snd demo_logger"
    by (simp add: dirView_def demo_logger_def entryName_def Let_def)
  have g: "fst (processCtrlLine demo_push ''C log_get r1 ../etc/passwd'' demo_logger) =
      [''L err r1 bad_filename invalid-or-missing-filename'' @ [LF]]"
    using processCtrlLine_args [of "''log_get''" "''r1''" demo_push "''../etc/passwd''" demo_logger]
    by (simp add: kCtrlReqIdMaxLen_def ctrlCommand_def badFilename_def errLine_def respLine_def kLogRespLinePrefix_def)
  have n: "\<not> runsUpdate demo_push r ''C log_get r1 ../etc/passwd''" for r by (auto simp: runsUpdate_def)
  have "fst (processCtrlLine demo_push ''C log_get r1 ../etc/passwd'' ?s) =
      [''L err r1 bad_filename invalid-or-missing-filename'' @ [LF]]"
    using ctrl_line_confined [OF ok prod.collapse [symmetric], of "''C log_get r1 ../etc/passwd''"] v g n by simp
  moreover have l: "\<not> log_file (lg_logDir (fst ?s)) ''/l/../etc/passwd''"
    by (auto simp: log_file_def demo_logger_def fileOf_def logPrefix_def)
  moreover have "ev_exeDir demo_client = ''/opt/ntm''" by (simp add: demo_client_def demo_client0_def Let_def)
  then have c: "''/l/../etc/passwd'' \<notin> cycle_files (ev_exeDir demo_client)"
    by (simp add: cycle_files_def pendingPath_def pendingSigPath_def targetPath_def targetSigPath_def)
  have "map_of (snd (snd (processCtrlLine demo_push ''C update_now r1 x'' ?s))) ''/l/../etc/passwd'' =
      map_of (snd ?s) ''/l/../etc/passwd''"
    using ctrl_line_confined [OF ok prod.collapse [symmetric], of "''C update_now r1 x''"] l c by metis
  ultimately show ?thesis by simp
qed

end
