(* ===== verification/JsonText.thy ===== *)
theory JsonText
  imports LogCtl
begin

text \<open>
  What the JSON documents of \<open>web_dashboard.cpp\<close> mean.  The code writes them by appending texts; here is a
  strict reader of JSON (RFC 8259: the text must be UTF-8; numbers without fraction and exponent, no \<open>\u\<close>
  escapes, neither of which the server writes) and the lemmas by which a document that is appended from its parts is read back as the
  value it stands for.
\<close>

section \<open>Values and their reader\<close>

datatype Json = JNull | JBool bool | JNum int | JStr string | JArr "Json list" | JObj "(string \<times> Json) list"

definition is_jws :: "char \<Rightarrow> bool" where
  "is_jws c \<longleftrightarrow> c = SP \<or> c = TAB \<or> c = LF \<or> c = CR"

definition skip_ws :: "string \<Rightarrow> string" where "skip_ws s = dropWhile is_jws s"

definition unescape :: "char \<Rightarrow> char option" where
  "unescape e =
     (if e = CHR 0x22 \<or> e = CHR 0x5C \<or> e = CHR ''/'' then Some e
      else if e = CHR ''n'' then Some LF else if e = CHR ''r'' then Some CR else if e = CHR ''t'' then Some TAB
      else if e = CHR ''b'' then Some (CHR 0x08) else if e = CHR ''f'' then Some (CHR 0x0C) else None)"

text \<open>The rest of a string after its opening quote: its characters and what follows.\<close>

fun read_chars :: "string \<Rightarrow> (string \<times> string) option" where
  "read_chars [] = None"
| "read_chars (c # s) =
     (if c = CHR 0x22 then Some ([], s)
      else if c = CHR 0x5C then
        (case s of [] \<Rightarrow> None
         | e # s' \<Rightarrow> (case unescape e of None \<Rightarrow> None
             | Some u \<Rightarrow> map_option (\<lambda>(t, r). (u # t, r)) (read_chars s')))
      else if code_of c < 0x20 then None
      else map_option (\<lambda>(t, r). (c # t, r)) (read_chars s))"

definition read_digits :: "string \<Rightarrow> (nat \<times> string) option" where
  "read_digits s =
     (let ds = takeWhile is_digit s in
      if ds = [] \<or> (hd ds = CHR ''0'' \<and> length ds > 1) then None else Some (dec_val ds, dropWhile is_digit s))"

definition read_number :: "string \<Rightarrow> (Json \<times> string) option" where
  "read_number s =
     (if s \<noteq> [] \<and> hd s = CHR ''-'' then map_option (\<lambda>(n, r). (JNum (- int n), r)) (read_digits (tl s))
      else map_option (\<lambda>(n, r). (JNum (int n), r)) (read_digits s))"

definition read_word :: "string \<Rightarrow> Json \<Rightarrow> string \<Rightarrow> (Json \<times> string) option" where
  "read_word w v s = (if starts_with w s then Some (v, drop (length w) s) else None)"

text \<open>The fuel bounds the nesting and the length of arrays and objects; the length of the text is enough.\<close>

fun read_value :: "nat \<Rightarrow> string \<Rightarrow> (Json \<times> string) option"
  and read_elems :: "nat \<Rightarrow> string \<Rightarrow> (Json list \<times> string) option"
  and read_members :: "nat \<Rightarrow> string \<Rightarrow> ((string \<times> Json) list \<times> string) option" where
  "read_value 0 s = None"
| "read_value (Suc n) s =
     (case skip_ws s of [] \<Rightarrow> None
      | c # r \<Rightarrow>
          if c = CHR 0x22 then map_option (\<lambda>(t, r'). (JStr t, r')) (read_chars r)
          else if c = CHR ''['' then
            (case skip_ws r of
               [] \<Rightarrow> None
             | d # r' \<Rightarrow> if d = CHR '']'' then Some (JArr [], r')
                        else map_option (\<lambda>(vs, r''). (JArr vs, r'')) (read_elems n r))
          else if c = CHR 0x7B then
            (case skip_ws r of
               [] \<Rightarrow> None
             | d # r' \<Rightarrow> if d = CHR 0x7D then Some (JObj [], r')
                        else map_option (\<lambda>(ms, r''). (JObj ms, r'')) (read_members n r))
          else if c = CHR ''t'' then read_word ''true'' (JBool True) (c # r)
          else if c = CHR ''f'' then read_word ''false'' (JBool False) (c # r)
          else if c = CHR ''n'' then read_word ''null'' JNull (c # r)
          else read_number (c # r))"
| "read_elems 0 s = None"
| "read_elems (Suc n) s =
     (case read_value n s of None \<Rightarrow> None
      | Some (v, r) \<Rightarrow>
          (case skip_ws r of [] \<Rightarrow> None
           | c # r' \<Rightarrow> if c = CHR '','' then map_option (\<lambda>(vs, r''). (v # vs, r'')) (read_elems n r')
                      else if c = CHR '']'' then Some ([v], r') else None))"
| "read_members 0 s = None"
| "read_members (Suc n) s =
     (case skip_ws s of [] \<Rightarrow> None
      | q # r \<Rightarrow>
          if q \<noteq> CHR 0x22 then None
          else (case read_chars r of None \<Rightarrow> None
            | Some (k, r1) \<Rightarrow>
                (case skip_ws r1 of [] \<Rightarrow> None
                 | c # r2 \<Rightarrow>
                     if c \<noteq> CHR '':'' then None
                     else (case read_value n r2 of None \<Rightarrow> None
                       | Some (v, r3) \<Rightarrow>
                           (case skip_ws r3 of [] \<Rightarrow> None
                            | d # r4 \<Rightarrow>
                                if d = CHR '','' then map_option (\<lambda>(ms, r5). ((k, v) # ms, r5)) (read_members n r4)
                                else if d = CHR 0x7D then Some ([(k, v)], r4) else None)))))"

text \<open>The grammar alone, on the bytes of a document.\<close>

definition read_grammar :: "string \<Rightarrow> Json option" where
  "read_grammar s =
     (case read_value (length s) s of None \<Rightarrow> None | Some (v, r) \<Rightarrow> if skip_ws r = [] then Some v else None)"

text \<open>Well-formed UTF-8 (RFC 3629): the ranges of the bytes that must follow a first byte, and the texts that
  start inside a sequence with these ranges still to come.  The reader of JSON refuses every other document.\<close>

definition byte_in :: "nat \<times> nat \<Rightarrow> char \<Rightarrow> bool" where
  "byte_in r c \<longleftrightarrow> fst r \<le> code_of c \<and> code_of c \<le> snd r"

abbreviation tail_byte :: "nat \<times> nat" where "tail_byte \<equiv> (0x80, 0xBF)"

definition utf8_lead :: "char \<Rightarrow> (nat \<times> nat) list option" where
  "utf8_lead c =
     (let n = code_of c in
      if n < 0x80 then Some []
      else if 0xC2 \<le> n \<and> n \<le> 0xDF then Some [tail_byte]
      else if n = 0xE0 then Some [(0xA0, 0xBF), tail_byte]
      else if n = 0xED then Some [(0x80, 0x9F), tail_byte]
      else if 0xE1 \<le> n \<and> n \<le> 0xEF then Some [tail_byte, tail_byte]
      else if n = 0xF0 then Some [(0x90, 0xBF), tail_byte, tail_byte]
      else if n = 0xF4 then Some [(0x80, 0x8F), tail_byte, tail_byte]
      else if 0xF1 \<le> n \<and> n \<le> 0xF3 then Some [tail_byte, tail_byte, tail_byte]
      else None)"

fun utf8_from :: "(nat \<times> nat) list \<Rightarrow> string \<Rightarrow> bool" where
  "utf8_from rs [] \<longleftrightarrow> rs = []"
| "utf8_from [] (c # s) \<longleftrightarrow> (case utf8_lead c of None \<Rightarrow> False | Some rs \<Rightarrow> utf8_from rs s)"
| "utf8_from (r # rs) (c # s) \<longleftrightarrow> byte_in r c \<and> utf8_from rs s"

abbreviation utf8 :: "string \<Rightarrow> bool" where "utf8 \<equiv> utf8_from []"

definition read_json :: "string \<Rightarrow> Json option" where
  "read_json s = (if utf8 s then read_grammar s else None)"

text \<open>A value all of whose texts are UTF-8.\<close>

primrec json_utf8 :: "Json \<Rightarrow> bool" where
  "json_utf8 JNull = True"
| "json_utf8 (JBool b) = True"
| "json_utf8 (JNum i) = True"
| "json_utf8 (JStr t) = utf8 t"
| "json_utf8 (JArr vs) = list_all id (map json_utf8 vs)"
| "json_utf8 (JObj ms) = list_all (\<lambda>kb. utf8 (fst kb) \<and> snd kb) (map (map_prod id json_utf8) ms)"

definition if_utf8 :: "Json \<Rightarrow> Json option" where
  "if_utf8 v = (if json_utf8 v then Some v else None)"

section \<open>The encoding of a document and of its texts\<close>

text \<open>An ASCII byte is never part of a longer sequence, so it splits a text.\<close>

abbreviation ascii :: "char \<Rightarrow> bool" where "ascii c \<equiv> code_of c < 0x80"

abbreviation high_ranges :: "(nat \<times> nat) list \<Rightarrow> bool" where "high_ranges rs \<equiv> \<forall>r \<in> set rs. 0x80 \<le> fst r"

lemma utf8_lead_high: "utf8_lead c = Some rs \<Longrightarrow> high_ranges rs"
  by (auto simp: utf8_lead_def Let_def split: if_splits)

lemma utf8_lead_ascii: "ascii c \<Longrightarrow> utf8_lead c = Some []"
  by (simp add: utf8_lead_def)

lemma utf8_ascii: "ascii c \<Longrightarrow> utf8 (c # s) = utf8 s"
  by (simp add: utf8_lead_ascii)

lemma utf8_from_split:
  "ascii x \<Longrightarrow> high_ranges rs \<Longrightarrow> utf8_from rs (p @ x # q) \<longleftrightarrow> utf8_from rs p \<and> utf8 q"
proof (induction p arbitrary: rs)
  case Nil
  then show ?case by (cases rs) (auto simp: utf8_lead_ascii byte_in_def)
next
  case (Cons c p)
  then show ?case by (cases rs) (auto split: option.split dest: utf8_lead_high)
qed

lemma utf8_split: "ascii x \<Longrightarrow> utf8 (p @ x # q) \<longleftrightarrow> utf8 p \<and> utf8 q"
  using utf8_from_split [of x "[]"] by simp

text \<open>A document is UTF-8 exactly if the texts that are read from it are.\<close>

lemma ascii_simps: "ascii (CHR 0x22)" "ascii (CHR 0x5C)" "ascii LF" "ascii CR" "ascii TAB" "ascii SP" "ascii CHR ''/''" "ascii (CHR 0x08)"
  "ascii (CHR 0x0C)" "ascii CHR ''n''" "ascii CHR ''r''" "ascii CHR ''t''" "ascii CHR ''b''" "ascii CHR ''f''" "ascii CHR ''[''"
  "ascii CHR '']''" "ascii (CHR 0x7B)" "ascii (CHR 0x7D)" "ascii CHR '',''" "ascii CHR '':''" "ascii CHR ''-''"
  by (simp_all add: code_of_def)

lemma unescape_ascii: "unescape e = Some u \<Longrightarrow> ascii e \<and> ascii u"
  by (auto simp: unescape_def ascii_simps split: if_splits)

lemma read_chars_utf8: "read_chars s = Some (t, r) \<Longrightarrow> utf8 (p @ s) \<longleftrightarrow> utf8 (p @ t) \<and> utf8 r"
proof (induction s arbitrary: p t rule: read_chars.induct)
  case (2 c s)
  consider "c = CHR 0x22" | e s' u where "c = CHR 0x5C" "s = e # s'" "unescape e = Some u" | "c \<noteq> CHR 0x22" "c \<noteq> CHR 0x5C" "\<not> code_of c < 0x20"
    using "2.prems" by (auto split: if_splits list.splits option.splits)
  then show ?case
  proof cases
    case 1
    then show ?thesis using "2.prems" by (simp add: utf8_split ascii_simps)
  next
    case (2 e s' u)
    then obtain t' where t: "read_chars s' = Some (t', r)" "t = u # t'" using "2.prems" by auto
    have "utf8 ([] @ s') \<longleftrightarrow> utf8 ([] @ t') \<and> utf8 r" using 2 t by (intro "2.IH"(1)) auto
    then show ?thesis using unescape_ascii [OF 2(3)] by (simp add: 2 t utf8_split utf8_ascii ascii_simps del: utf8_from.simps)
  next
    case 3
    then obtain t' where t: "read_chars s = Some (t', r)" "t = c # t'" using "2.prems" by auto
    have "utf8 ((p @ [c]) @ s) \<longleftrightarrow> utf8 ((p @ [c]) @ t') \<and> utf8 r" using 3 t by (intro "2.IH"(2)) auto
    then show ?thesis by (simp add: t)
  qed
qed simp

lemma jws_ascii: "is_jws c \<Longrightarrow> ascii c"
  by (auto simp: is_jws_def ascii_simps)

lemma skip_ws_utf8: "utf8 (skip_ws s) = utf8 s"
  by (induction s) (simp_all add: skip_ws_def utf8_ascii [OF jws_ascii] del: utf8_from.simps(2))

lemma digit_ascii: "is_digit c \<Longrightarrow> ascii c"
  by (simp add: is_digit_def in_range_def code_of_def)

lemma digits_utf8: "utf8 (dropWhile is_digit s) = utf8 s"
  by (induction s) (simp_all add: utf8_ascii [OF digit_ascii] del: utf8_from.simps(2))

lemma read_digits_utf8: "read_digits s = Some (n, r) \<Longrightarrow> utf8 s = utf8 r"
  by (auto simp: read_digits_def Let_def digits_utf8 split: if_splits)

lemma read_number_utf8: "read_number s = Some (v, r) \<Longrightarrow> utf8 s \<longleftrightarrow> json_utf8 v \<and> utf8 r"
  by (cases s) (auto simp: read_number_def utf8_ascii ascii_simps dest: read_digits_utf8 split: if_splits simp del: utf8_from.simps(2))

lemma read_word_utf8:
  assumes "read_word w v s = Some (v', r)" and "\<forall>c \<in> set w. ascii c" and "json_utf8 v"
  shows "utf8 s \<longleftrightarrow> json_utf8 v' \<and> utf8 r"
proof -
  have "s = w @ r" and "v' = v"
    using assms(1) by (auto simp: read_word_def starts_with_def split: if_splits) (metis append_take_drop_id)
  moreover have "utf8 (w @ r) = utf8 r" using assms(2) by (induction w) (simp_all add: utf8_ascii del: utf8_from.simps(2))
  ultimately show ?thesis using assms(3) by simp
qed

lemma ascii_letters: "ascii CHR ''u''" "ascii CHR ''e''" "ascii CHR ''a''" "ascii CHR ''l''" "ascii CHR ''s''"
  by (simp_all add: code_of_def)

lemma skip_ws_ascii: "skip_ws s = c # x \<Longrightarrow> ascii c \<Longrightarrow> utf8 s = utf8 x"
  using skip_ws_utf8 [of s] by (simp add: utf8_ascii del: utf8_from.simps(2))

lemma json_utf8_JArr: "json_utf8 (JArr vs) = list_all json_utf8 vs"
  by (simp add: list_all_iff)

lemma json_utf8_JObj: "json_utf8 (JObj ms) = list_all (\<lambda>(k, v). utf8 k \<and> json_utf8 v) ms"
  by (auto simp: list_all_iff)

lemma read_grammar_step_utf8:
  "read_value n s = Some (v, r) \<Longrightarrow> utf8 s \<longleftrightarrow> json_utf8 v \<and> utf8 r"
  "read_elems n s = Some (vs, r) \<Longrightarrow> utf8 s \<longleftrightarrow> list_all json_utf8 vs \<and> utf8 r"
  "read_members n s = Some (ms, r) \<Longrightarrow> utf8 s \<longleftrightarrow> list_all (\<lambda>(k, v). utf8 k \<and> json_utf8 v) ms \<and> utf8 r"
proof (induction n arbitrary: s v r vs ms)
  case (Suc n)
  note IH = Suc.IH and asc = skip_ws_ascii ascii_simps
  {
    case 1
    note prems = 1
    then obtain c x where c: "skip_ws s = c # x" by (cases "skip_ws s") auto
    consider "c = CHR 0x22" | "c = CHR ''[''" | "c = CHR 0x7B" | "c \<in> {CHR ''t'', CHR ''f'', CHR ''n''}"
      | "c \<notin> {CHR 0x22, CHR ''['', CHR 0x7B, CHR ''t'', CHR ''f'', CHR ''n''}" by blast
    then show ?case
    proof cases
      case 1
      then obtain t where "read_chars x = Some (t, r)" "v = JStr t" using prems c by auto
      then show ?thesis using asc c 1 read_chars_utf8 [of x t r "[]"] by simp
    next
      case 2
      then show ?thesis using prems c skip_ws_ascii [OF c] IH(2) [of x]
        by (auto simp: ascii_simps json_utf8_JArr dest: skip_ws_ascii split: list.splits if_splits simp del: json_utf8.simps(5))
    next
      case 3
      then show ?thesis using prems c skip_ws_ascii [OF c] IH(3) [of x]
        by (auto simp: ascii_simps json_utf8_JObj dest: skip_ws_ascii split: list.splits if_splits simp del: json_utf8.simps(6))
    next
      case 4
      have "utf8 (c # x) = utf8 s" using skip_ws_utf8 [of s] c by simp
      with 4 show ?thesis using prems c by (auto simp: ascii_simps ascii_letters dest!: read_word_utf8)
    next
      case 5
      then have "read_number (c # x) = Some (v, r)" using prems c by simp
      from read_number_utf8 [OF this] show ?thesis using skip_ws_utf8 [of s] c by simp
    qed
  next
    case 2
    note prems = 2
    then obtain v r1 where v: "read_value n s = Some (v, r1)" by (auto split: option.splits)
    then obtain c x where c: "skip_ws r1 = c # x" using prems by (cases "skip_ws r1") auto
    show ?case using prems IH(1) [OF v] v c skip_ws_ascii [OF c] IH(2) [of x]
      by (auto simp: ascii_simps split: if_splits)
  next
    case 3
    note prems = 3
    then obtain x where x: "skip_ws s = CHR 0x22 # x" by (auto split: list.splits if_splits)
    then obtain k r1 where k: "read_chars x = Some (k, r1)" using prems by (auto split: option.splits)
    then obtain y where y: "skip_ws r1 = CHR '':'' # y" using prems x by (auto split: list.splits if_splits)
    then obtain v r3 where v: "read_value n y = Some (v, r3)" using prems x k by (auto split: option.splits)
    then obtain d z where d: "skip_ws r3 = d # z" using prems x k y by (cases "skip_ws r3") auto
    have "utf8 s \<longleftrightarrow> utf8 k \<and> json_utf8 v \<and> utf8 r3"
      using skip_ws_ascii [OF x] read_chars_utf8 [OF k, of "[]"] skip_ws_ascii [OF y] IH(1) [OF v] by (simp add: ascii_simps)
    then show ?case using prems x k y v d skip_ws_ascii [OF d] IH(3) [of z]
      by (auto simp: ascii_simps split: if_splits)
  }
qed simp_all

lemma read_json_grammar:
  assumes "read_grammar s = Some v"
  shows "read_json s = if_utf8 v"
proof -
  obtain r where r: "read_value (length s) s = Some (v, r)" "skip_ws r = []"
    using assms by (auto simp: read_grammar_def split: option.splits if_splits)
  have "utf8 r" using skip_ws_utf8 [of r] r(2) by simp
  then show ?thesis using read_grammar_step_utf8(1) [OF r(1)] assms by (simp add: read_json_def if_utf8_def)
qed

section \<open>Documents that are appended\<close>

text \<open>The characters of a text that \<open>jsonEsc\<close> keeps.\<close>

definition kept :: "string \<Rightarrow> string" where
  "kept s = filter (\<lambda>c. \<not> code_of c < 0x20 \<or> c = LF \<or> c = CR \<or> c = TAB) s"

lemma read_chars_jsonEsc: "read_chars (jsonEsc t @ CHR 0x22 # r) = Some (kept t, r)"
proof (induction t)
  case (Cons c t)
  then show ?case by (simp add: jsonEsc_def kept_def unescape_def code_of_def)
qed (simp add: jsonEsc_def kept_def)

text \<open>A text that is read as a value, whatever closes it.\<close>

definition closes :: "string \<Rightarrow> bool" where
  "closes r \<longleftrightarrow> r = [] \<or> \<not> is_digit (hd r)"

definition reads :: "string \<Rightarrow> Json \<Rightarrow> bool" where
  "reads s v \<longleftrightarrow> (\<forall>r n. closes r \<longrightarrow> length s \<le> n \<longrightarrow> read_value n (s @ r) = Some (v, r))"

abbreviation blank :: "string \<Rightarrow> bool" where "blank w \<equiv> \<forall>c \<in> set w. is_jws c"

lemma skip_ws_blank [simp]: "blank w \<Longrightarrow> skip_ws (w @ s) = skip_ws s"
  by (simp add: skip_ws_def dropWhile_append)

lemma skip_ws_Cons [simp]: "\<not> is_jws c \<Longrightarrow> skip_ws (c # s) = c # s"
  by (simp add: skip_ws_def)

lemma skip_ws_append: "skip_ws s \<noteq> [] \<Longrightarrow> skip_ws (s @ r) = skip_ws s @ r"
  by (auto simp: skip_ws_def dropWhile_append)

lemma jws_simps [simp]: "\<not> is_jws (CHR 0x22)" "\<not> is_jws CHR ''[''" "\<not> is_jws CHR '']''" "\<not> is_jws (CHR 0x7B)"
  "\<not> is_jws (CHR 0x7D)" "\<not> is_jws CHR '',''" "\<not> is_jws CHR '':''" "\<not> is_jws CHR ''t''" "\<not> is_jws CHR ''f''" "\<not> is_jws CHR ''n''"
  "is_jws SP" "is_jws LF" "is_jws CR" "is_jws TAB"
  by (simp_all add: is_jws_def)

text \<open>The reader by the first character of a value.\<close>

lemma read_value_quote: "skip_ws s = CHR 0x22 # r \<Longrightarrow> read_value (Suc n) s = map_option (\<lambda>(t, r'). (JStr t, r')) (read_chars r)"
  by simp

lemma read_value_bracket: "skip_ws s = CHR ''['' # r \<Longrightarrow> read_value (Suc n) s =
    (case skip_ws r of [] \<Rightarrow> None
     | d # r' \<Rightarrow> if d = CHR '']'' then Some (JArr [], r') else map_option (\<lambda>(vs, r''). (JArr vs, r'')) (read_elems n r))"
  by simp

lemma read_value_brace: "skip_ws s = CHR 0x7B # r \<Longrightarrow> read_value (Suc n) s =
    (case skip_ws r of [] \<Rightarrow> None
     | d # r' \<Rightarrow> if d = CHR 0x7D then Some (JObj [], r') else map_option (\<lambda>(ms, r''). (JObj ms, r'')) (read_members n r))"
  by simp

lemma read_value_words:
  "skip_ws s = CHR ''t'' # r \<Longrightarrow> read_value (Suc n) s = read_word ''true'' (JBool True) (CHR ''t'' # r)"
  "skip_ws s = CHR ''f'' # r \<Longrightarrow> read_value (Suc n) s = read_word ''false'' (JBool False) (CHR ''f'' # r)"
  "skip_ws s = CHR ''n'' # r \<Longrightarrow> read_value (Suc n) s = read_word ''null'' JNull (CHR ''n'' # r)"
  by simp_all

lemma read_value_other:
  "skip_ws s = c # r \<Longrightarrow> c \<notin> {CHR 0x22, CHR ''['', CHR 0x7B, CHR ''t'', CHR ''f'', CHR ''n''} \<Longrightarrow>
    read_value (Suc n) s = read_number (c # r)"
  by simp

lemma read_value_end: "skip_ws s = [] \<Longrightarrow> read_value (Suc n) s = None"
  by simp

declare read_value.simps [simp del] read_elems.simps [simp del] read_members.simps [simp del]

lemma read_value_0 [simp]: "read_value 0 s = None"
  by (simp add: read_value.simps)

lemma read_value_blank: "blank w \<Longrightarrow> read_value n (w @ s) = read_value n s"
  by (cases n) (simp_all add: read_value.simps)

lemma reads_blank: "blank w \<Longrightarrow> reads s v \<Longrightarrow> reads (w @ s) v"
  by (simp add: reads_def read_value_blank)

lemma readsI:
  assumes "s \<noteq> []" and "\<And>n r. closes r \<Longrightarrow> length s \<le> Suc n \<Longrightarrow> read_value (Suc n) (s @ r) = Some (v, r)"
  shows "reads s v"
  unfolding reads_def
proof (intro allI impI)
  fix r n assume "closes r" and n: "length s \<le> n"
  from n assms(1) obtain m where "n = Suc m" by (cases n) auto
  with assms(2) \<open>closes r\<close> n show "read_value n (s @ r) = Some (v, r)" by simp
qed

lemma readsD: "reads s v \<Longrightarrow> closes r \<Longrightarrow> length s \<le> n \<Longrightarrow> read_value n (s @ r) = Some (v, r)"
  by (simp add: reads_def)

lemma read_number_bracket: "read_number (CHR '']'' # r) = None" "read_number (CHR 0x7D # r) = None"
  by (simp_all add: read_number_def read_digits_def is_digit_def in_range_def code_of_def)

lemma reads_start:
  assumes "reads s v"
  obtains c x where "skip_ws s = c # x" "c \<noteq> CHR '']''" "c \<noteq> CHR 0x7D"
proof -
  have r: "read_value (Suc (length s)) s = Some (v, [])" using readsD [OF assms, of "[]"] by (simp add: closes_def)
  then obtain c x where c: "skip_ws s = c # x" by (cases "skip_ws s") (simp_all add: read_value_end)
  have "c \<noteq> CHR '']''"
  proof
    assume "c = CHR '']''"
    then show False using r c by (simp add: read_value_other read_number_bracket)
  qed
  moreover have "c \<noteq> CHR 0x7D"
  proof
    assume "c = CHR 0x7D"
    then show False using r c by (simp add: read_value_other read_number_bracket)
  qed
  ultimately show thesis using that c by blast
qed

section \<open>Scalars\<close>

lemma reads_string [intro]: "reads (CHR 0x22 # jsonEsc t @ [CHR 0x22]) (JStr (kept t))"
  by (rule readsI) (use read_chars_jsonEsc [of t] in \<open>simp_all add: read_value_quote\<close>)

definition plain_text :: "string \<Rightarrow> bool" where
  "plain_text t \<longleftrightarrow> (\<forall>c \<in> set t. c \<noteq> CHR 0x22 \<and> c \<noteq> CHR 0x5C \<and> 0x20 \<le> code_of c)"

lemma plain_text_Cons: "plain_text (c # t) \<longleftrightarrow> (c \<noteq> CHR 0x22 \<and> c \<noteq> CHR 0x5C \<and> 0x20 \<le> code_of c) \<and> plain_text t"
  by (simp add: plain_text_def)

lemma plain_text_Nil [simp]: "plain_text []"
  by (simp add: plain_text_def)

lemma code_of_controls: "code_of LF < 0x20" "code_of CR < 0x20" "code_of TAB < 0x20"
  by (simp_all add: code_of_def)

lemma jsonEsc_plain_char:
  assumes "c \<noteq> CHR 0x22" and "c \<noteq> CHR 0x5C" and "0x20 \<le> code_of c"
  shows "jsonEsc (c # t) = c # jsonEsc t"
proof -
  have "c \<noteq> LF" "c \<noteq> CR" "c \<noteq> TAB" using assms(3) code_of_controls by (metis not_less)+
  with assms show ?thesis by (simp add: jsonEsc_def)
qed

lemma jsonEsc_plain_text: "plain_text t \<Longrightarrow> jsonEsc t = t"
proof (induction t)
  case (Cons c t)
  then show ?case using jsonEsc_plain_char [of c t] by (simp add: plain_text_Cons)
qed (simp add: jsonEsc_def)

lemma kept_plain_text: "plain_text t \<Longrightarrow> kept t = t"
  unfolding kept_def plain_text_def by (rule filter_True) (simp add: not_less)

lemma reads_plain [intro]: "plain_text t \<Longrightarrow> reads (CHR 0x22 # t @ [CHR 0x22]) (JStr t)"
  using reads_string [of t] by (simp add: jsonEsc_plain_text kept_plain_text)

lemma show_nat_hd_pos: "0 < n \<Longrightarrow> hd (show_nat n) \<noteq> CHR ''0''"
proof (induction n rule: show_nat.induct)
  case (1 n)
  show ?case
  proof (cases "n < 10")
    case True
    then have "code_of (digit_char n) = 48 + n" by simp
    with 1(2) True show ?thesis by (auto simp: show_nat.simps [of n] simp del: code_of_digit_char)
  next
    case False
    then have "hd (show_nat n) = hd (show_nat (n div 10))" by (subst show_nat.simps) simp
    with 1 False show ?thesis by simp
  qed
qed

lemma show_nat_no_zero: "\<not> (hd (show_nat n) = CHR ''0'' \<and> length (show_nat n) > 1)"
proof (cases "n = 0")
  case True
  then show ?thesis by (simp add: show_nat.simps [of 0])
next
  case False
  with show_nat_hd_pos [of n] show ?thesis by simp
qed

lemma read_digits_show: "closes r \<Longrightarrow> read_digits (show_nat n @ r) = Some (n, r)"
proof -
  assume r: "closes r"
  have t: "takeWhile is_digit (show_nat n @ r) = show_nat n" and d: "dropWhile is_digit (show_nat n @ r) = r"
    using show_nat_digits [of n] r by (cases r; auto simp: closes_def takeWhile_append dropWhile_append)+
  have "\<not> (hd (show_nat n) = CHR ''0'' \<and> length (show_nat n) > 1)" by (rule show_nat_no_zero)
  then show ?thesis by (simp add: read_digits_def Let_def t d)
qed

lemma digit_start:
  assumes "is_digit c"
  shows "\<not> is_jws c" "c \<noteq> CHR 0x22" "c \<noteq> CHR ''[''" "c \<noteq> CHR 0x7B" "c \<noteq> CHR ''t''" "c \<noteq> CHR ''f''" "c \<noteq> CHR ''n''" "c \<noteq> CHR ''-''"
  using assms by (auto simp: is_jws_def is_digit_def in_range_def code_of_def)

lemma reads_nat [intro]: "reads (show_nat m) (JNum (int m))"
proof (rule readsI)
  fix n r assume r: "closes r"
  obtain c s where s: "show_nat m = c # s" by (cases "show_nat m") auto
  have d: "is_digit c" using show_nat_hd [of m] s by simp
  have "read_number (show_nat m @ r) = Some (JNum (int m), r)"
    using read_digits_show [OF r, of m] digit_start [OF d] s by (simp add: read_number_def)
  then show "read_value (Suc n) (show_nat m @ r) = Some (JNum (int m), r)"
    using digit_start [OF d] s by (simp add: read_value_other)
qed simp

lemma reads_int [intro]: "reads (show_int i) (JNum i)"
proof (cases "i < 0")
  case True
  show ?thesis
  proof (rule readsI)
    fix n r assume r: "closes r"
    have "read_number (show_int i @ r) = Some (JNum i, r)"
      using read_digits_show [OF r, of "nat (- i)"] True by (simp add: read_number_def show_int_def)
    moreover have "skip_ws (show_int i @ r) = CHR ''-'' # show_nat (nat (- i)) @ r"
      using True by (simp add: show_int_def skip_ws_def is_jws_def)
    ultimately show "read_value (Suc n) (show_int i @ r) = Some (JNum i, r)"
      using True by (simp add: read_value_other show_int_def)
  qed (use True in \<open>simp add: show_int_def\<close>)
next
  case False
  then show ?thesis using reads_nat [of "nat i"] by (simp add: show_int_def)
qed

lemma reads_word: "reads ''true'' (JBool True)" "reads ''false'' (JBool False)" "reads ''null'' JNull"
  by (rule readsI; simp add: read_value_words read_word_def starts_with_def)+

definition show_bool :: "bool \<Rightarrow> string" where "show_bool b = (if b then ''true'' else ''false'')"

lemma reads_bool [intro]: "reads (show_bool b) (JBool b)"
  by (simp add: show_bool_def reads_word)

section \<open>Arrays and objects\<close>

text \<open>An array of element texts, and an object of members: what stands before the key, the key, and the
  text after the colon; \<open>post\<close> stands before the closing bracket.\<close>

definition jarr :: "string list \<Rightarrow> string \<Rightarrow> string" where
  "jarr ts post = ''['' @ join_with '','' ts @ post @ '']''"

definition jmember :: "string \<times> string \<times> string \<Rightarrow> string" where
  "jmember m = (case m of (pre, k, t) \<Rightarrow> pre @ CHR 0x22 # k @ CHR 0x22 # '':'' @ t)"

definition jobj :: "(string \<times> string \<times> string) list \<Rightarrow> string \<Rightarrow> string" where
  "jobj ms post = CHR 0x7B # join_with '','' (map jmember ms) @ post @ [CHR 0x7D]"

lemma closes_simps [simp]: "closes (CHR '','' # s)" "closes (CHR '']'' # s)" "closes (CHR 0x7D # s)" "closes []"
  by (simp_all add: closes_def is_digit_def in_range_def code_of_def)

lemma jws_not_digit: "is_jws c \<Longrightarrow> \<not> is_digit c"
  using digit_start(1) by blast

lemma closes_blank: "blank w \<Longrightarrow> closes s \<Longrightarrow> closes (w @ s)"
  by (cases w) (simp_all add: closes_def jws_not_digit)

lemma read_elems_more:
  "read_value n s = Some (v, CHR '','' # r) \<Longrightarrow>
    read_elems (Suc n) s = map_option (\<lambda>(vs, r'). (v # vs, r')) (read_elems n r)"
  by (simp add: read_elems.simps)

lemma read_elems_last:
  "read_value n s = Some (v, post @ CHR '']'' # r) \<Longrightarrow> blank post \<Longrightarrow> read_elems (Suc n) s = Some ([v], r)"
  by (simp add: read_elems.simps)

lemma read_elems_join:
  assumes "list_all2 reads ts vs" and "ts \<noteq> []" and "blank post" and "length (join_with '','' ts @ post) < n"
  shows "read_elems n (join_with '','' ts @ post @ CHR '']'' # r) = Some (vs, r)"
  using assms
proof (induction ts arbitrary: vs n)
  case (Cons t ts)
  obtain v vs' where v: "vs = v # vs'" "reads t v" "list_all2 reads ts vs'" using Cons.prems(1) by (cases vs) auto
  obtain n' where n: "n = Suc n'" using Cons.prems(4) by (cases n) auto
  show ?case
  proof (cases ts)
    case Nil
    have "closes (post @ CHR '']'' # r)" by (rule closes_blank [OF Cons.prems(3)]) simp
    then have "read_value n' (t @ post @ CHR '']'' # r) = Some (v, post @ CHR '']'' # r)"
      using Cons.prems(4) n Nil by (intro readsD [OF v(2)]) simp_all
    from read_elems_last [OF this Cons.prems(3)] show ?thesis using Nil v by (simp add: n)
  next
    case c: (Cons u us)
    have "read_value n' (t @ CHR '','' # join_with '','' ts @ post @ CHR '']'' # r)
        = Some (v, CHR '','' # join_with '','' ts @ post @ CHR '']'' # r)"
      using Cons.prems(4) n c by (intro readsD [OF v(2)]) simp_all
    note more = read_elems_more [OF this]
    have "read_elems n' (join_with '','' ts @ post @ CHR '']'' # r) = Some (vs', r)"
      using Cons.prems(4) n c by (intro Cons.IH [OF v(3) _ Cons.prems(3)]) simp_all
    with more c v(1) show ?thesis by (simp add: n)
  qed
qed simp

lemma join_start:
  assumes "ts \<noteq> []"
  obtains x where "join_with '','' ts = hd ts @ x"
  using assms by (cases ts; cases "tl ts") auto

lemma reads_jarr:
  assumes "list_all2 reads ts vs" and "blank post"
  shows "reads (jarr ts post) (JArr vs)"
proof (rule readsI)
  fix n r assume "closes r" and n: "length (jarr ts post) \<le> Suc n"
  show "read_value (Suc n) (jarr ts post @ r) = Some (JArr vs, r)"
  proof (cases "ts = []")
    case True
    then show ?thesis using assms by (simp add: jarr_def read_value_bracket)
  next
    case False
    have "reads (hd ts) (hd vs)" using assms(1) False by (cases ts; cases vs) auto
    then obtain c x where c: "skip_ws (hd ts) = c # x" "c \<noteq> CHR '']''" by (rule reads_start)
    obtain y where y: "join_with '','' ts = hd ts @ y" by (rule join_start [OF False])
    have "skip_ws (join_with '','' ts @ post @ CHR '']'' # r) = c # x @ y @ post @ CHR '']'' # r"
      using c skip_ws_append [of "hd ts"] by (simp add: y)
    moreover have "read_elems n (join_with '','' ts @ post @ CHR '']'' # r) = Some (vs, r)"
      using n by (intro read_elems_join [OF assms(1) False assms(2)]) (simp add: jarr_def)
    ultimately show ?thesis using c(2) by (simp add: jarr_def read_value_bracket)
  qed
qed (simp add: jarr_def)

text \<open>Members: a blank prefix, a key without special characters, a value.\<close>

definition member_reads :: "string \<times> string \<times> string \<Rightarrow> string \<times> Json \<Rightarrow> bool" where
  "member_reads m kv \<longleftrightarrow> (case m of (pre, k, t) \<Rightarrow> blank pre \<and> plain_text k \<and> fst kv = k \<and> reads t (snd kv))"

lemma read_members_key:
  assumes "blank pre" and "plain_text k" and "read_value n (t @ r) = Some (v, r)"
  shows "read_members (Suc n) (jmember (pre, k, t) @ r) =
    (case skip_ws r of [] \<Rightarrow> None
     | d # r4 \<Rightarrow>
         if d = CHR '','' then map_option (\<lambda>(ms, r5). ((k, v) # ms, r5)) (read_members n r4)
         else if d = CHR 0x7D then Some ([(k, v)], r4) else None)"
  using read_chars_jsonEsc [of k "CHR '':'' # t @ r"] assms
  by (simp add: read_members.simps jmember_def jsonEsc_plain_text kept_plain_text cong: list.case_cong option.case_cong)

lemma read_members_join:
  assumes "list_all2 member_reads ms kvs" and "ms \<noteq> []" and "blank post" and "length (join_with '','' (map jmember ms) @ post) < n"
  shows "read_members n (join_with '','' (map jmember ms) @ post @ CHR 0x7D # r) = Some (kvs, r)"
  using assms
proof (induction ms arbitrary: kvs n)
  case (Cons m ms)
  obtain pre k t where m: "m = (pre, k, t)" by (cases m)
  obtain kv kvs' where kv: "kvs = kv # kvs'" "member_reads m kv" "list_all2 member_reads ms kvs'"
    using Cons.prems(1) by (cases kvs) simp_all
  obtain v where v: "kvs = (k, v) # kvs'" "blank pre" "plain_text k" "reads t v" "list_all2 member_reads ms kvs'"
    using kv m by (cases kv) (simp add: member_reads_def)
  obtain n' where n: "n = Suc n'" using Cons.prems(4) by (cases n) auto
  show ?case
  proof (cases ms)
    case Nil
    have "closes (post @ CHR 0x7D # r)" by (rule closes_blank [OF Cons.prems(3)]) simp
    then have "read_value n' (t @ post @ CHR 0x7D # r) = Some (v, post @ CHR 0x7D # r)"
      using Cons.prems(4) n Nil m by (intro readsD [OF v(4)]) (simp_all add: jmember_def)
    from read_members_key [OF v(2,3) this] show ?thesis using Nil v(1,5) Cons.prems(3) m by (simp add: n)
  next
    case c: (Cons u us)
    let ?rest = "join_with '','' (map jmember ms) @ post @ CHR 0x7D # r"
    have "read_value n' (t @ CHR '','' # ?rest) = Some (v, CHR '','' # ?rest)"
      using Cons.prems(4) n c m by (intro readsD [OF v(4)]) (simp_all add: jmember_def)
    note key = read_members_key [OF v(2,3) this]
    have "read_members n' ?rest = Some (kvs', r)"
      using Cons.prems(4) n c by (intro Cons.IH [OF v(5) _ Cons.prems(3)]) simp_all
    with key c v(1) m show ?thesis by (simp add: n)
  qed
qed simp

lemma reads_jobj:
  assumes "list_all2 member_reads ms kvs" and "blank post"
  shows "reads (jobj ms post) (JObj kvs)"
proof (rule readsI)
  fix n r assume "closes r" and n: "length (jobj ms post) \<le> Suc n"
  show "read_value (Suc n) (jobj ms post @ r) = Some (JObj kvs, r)"
  proof (cases ms)
    case Nil
    then show ?thesis using assms by (simp add: jobj_def read_value_brace)
  next
    case (Cons m ms')
    obtain pre k t where m: "m = (pre, k, t)" by (cases m)
    have pre: "blank pre" using assms(1) Cons m by (auto simp: member_reads_def list_all2_Cons1)
    obtain y where y: "join_with '','' (map jmember ms) = jmember m @ y"
      using join_start [of "map jmember ms"] Cons by auto
    have "skip_ws (join_with '','' (map jmember ms) @ post @ CHR 0x7D # r)
        = CHR 0x22 # k @ CHR 0x22 # '':'' @ t @ y @ post @ CHR 0x7D # r"
      using pre by (simp add: y m jmember_def)
    moreover have "read_members n (join_with '','' (map jmember ms) @ post @ CHR 0x7D # r) = Some (kvs, r)"
      using n Cons by (intro read_members_join [OF assms(1) _ assms(2)]) (simp_all add: jobj_def)
    ultimately show ?thesis by (simp add: jobj_def read_value_brace)
  qed
qed (simp add: jobj_def)

text \<open>A whole document, with blanks around it: the value, or nothing when a text is not UTF-8.\<close>

lemma read_grammar_reads:
  assumes "reads s v" and "blank post"
  shows "read_grammar (s @ post) = Some v"
proof -
  have "closes post" using closes_blank [OF assms(2), of "[]"] by simp
  then have "read_value (length (s @ post)) (s @ post) = Some (v, post)" by (intro readsD [OF assms(1)]) simp_all
  moreover have "skip_ws post = []" using skip_ws_blank [OF assms(2), of "[]"] by (simp add: skip_ws_def)
  ultimately show ?thesis by (simp add: read_grammar_def)
qed

lemma read_json_reads: "reads s v \<Longrightarrow> blank post \<Longrightarrow> read_json (s @ post) = if_utf8 v"
  by (intro read_json_grammar read_grammar_reads)

section \<open>The shapes the dashboard writes\<close>

text \<open>A quoted and escaped string, an object on one line, and a document of one member a line; the
  \<open>first\<close> flags of the loops put a comma between the elements.\<close>

definition jstr :: "string \<Rightarrow> string" where
  "jstr t = CHR 0x22 # jsonEsc t @ [CHR 0x22]"

definition rowObj :: "(string \<times> string) list \<Rightarrow> string" where
  "rowObj kvs = ''{'' @ join_with '','' (map (\<lambda>(k, t). CHR 0x22 # k @ [CHR 0x22] @ '':'' @ t) kvs) @ ''}''"

definition lineDoc :: "(string \<times> string) list \<Rightarrow> string" where
  "lineDoc kvs =
     ''{'' @ join_with '','' (map (\<lambda>(k, t). [LF] @ ''  '' @ CHR 0x22 # k @ [CHR 0x22] @ '': '' @ t) kvs) @ [LF] @ ''}'' @ [LF]"

text \<open>An array of rows, each on a line of its own.\<close>

definition rowArr :: "string list \<Rightarrow> string" where
  "rowArr rows = ''['' @ join_with '','' (map (\<lambda>r. [LF] @ ''    '' @ r) rows) @ [LF] @ ''  ]''"

definition pairs_read :: "(string \<times> string) list \<Rightarrow> (string \<times> Json) list \<Rightarrow> bool" where
  "pairs_read = list_all2 (\<lambda>(k, t) (k', v). k = k' \<and> plain_text k \<and> reads t v)"

lemma pairs_read_simps [simp]:
  "pairs_read [] []"
  "pairs_read ((k, t) # kts) ((k', v) # kvs) \<longleftrightarrow> (k = k' \<and> plain_text k \<and> reads t v) \<and> pairs_read kts kvs"
  by (simp_all add: pairs_read_def)

lemma pairs_read_append: "pairs_read a b \<Longrightarrow> pairs_read c d \<Longrightarrow> pairs_read (a @ c) (b @ d)"
  by (simp add: pairs_read_def list_all2_appendI)

lemma reads_jstr [intro, simp]: "reads (jstr t) (JStr (kept t))"
  unfolding jstr_def by (rule reads_string)

lemma reads_quoted: "plain_text t \<Longrightarrow> reads (CHR 0x22 # t @ [CHR 0x22]) (JStr t)"
  by (rule reads_plain)

lemma reads_row:
  assumes "pairs_read kts kvs"
  shows "reads (rowObj kts) (JObj kvs)"
proof -
  have "rowObj kts = jobj (map (\<lambda>(k, t). ([], k, t)) kts) []"
    by (simp add: rowObj_def jobj_def jmember_def comp_def split_def)
  moreover have "list_all2 member_reads (map (\<lambda>(k, t). ([], k, t)) kts) kvs"
    using assms unfolding pairs_read_def
    by (auto simp: list_all2_map1 member_reads_def elim!: list_all2_mono)
  ultimately show ?thesis using reads_jobj [of _ kvs "[]"] by simp
qed

lemma reads_rowArr:
  assumes "list_all2 reads rows vs"
  shows "reads (rowArr rows) (JArr vs)"
proof -
  have "rowArr rows = jarr (map (\<lambda>r. [LF] @ ''    '' @ r) rows) ([LF] @ ''  '')"
    by (simp add: rowArr_def jarr_def)
  moreover have "list_all2 reads (map (\<lambda>r. [LF] @ ''    '' @ r) rows) vs"
    using assms reads_blank [of "[LF] @ ''    ''"]
    by (auto simp: list_all2_map1 elim!: list_all2_mono)
  ultimately show ?thesis using reads_jarr [of _ vs "[LF] @ ''  ''"] by simp
qed

lemma reads_rowArr_map:
  assumes "\<And>x. x \<in> set xs \<Longrightarrow> reads (f x) (g x)"
  shows "reads (rowArr (map f xs)) (JArr (map g xs))"
  by (rule reads_rowArr) (simp add: list_all2_map1 list_all2_map2 list_all2_same assms)

lemma read_lineDoc:
  assumes "pairs_read kts kvs"
  shows "read_grammar (lineDoc kts) = Some (JObj kvs)"
proof -
  have "lineDoc kts = jobj (map (\<lambda>(k, t). ([LF] @ ''  '', k, SP # t)) kts) [LF] @ [LF]"
    by (simp add: lineDoc_def jobj_def jmember_def comp_def split_def)
  moreover have "list_all2 member_reads (map (\<lambda>(k, t). ([LF] @ ''  '', k, SP # t)) kts) kvs"
    using assms reads_blank [of "[SP]"] unfolding pairs_read_def
    by (auto simp: list_all2_map1 member_reads_def elim!: list_all2_mono)
  ultimately show ?thesis using read_grammar_reads [OF reads_jobj, of _ kvs "[LF]" "[LF]"] by simp
qed

lemma plain_text_append [simp]: "plain_text (a @ b) \<longleftrightarrow> plain_text a \<and> plain_text b"
  by (auto simp: plain_text_def)

lemma plain_text_digits: "\<forall>c \<in> set t. is_digit c \<Longrightarrow> plain_text t"
  by (auto simp: plain_text_def is_digit_iff code_of_def)

lemma plain_show_nat [simp]: "plain_text (show_nat n)"
  by (rule plain_text_digits) (rule show_nat_digits)

end
