(* ===== verification/Summary.thy ===== *)
theory Summary
  imports JsonText Traffic Lan IpRange UpdateDist "HOL-Library.Multiset"
begin

text \<open>
  The summary of the dashboard, \<open>buildSummaryJson\<close> of \<open>web_dashboard.cpp\<close>: the flows of the traffic store are
  shown under display names, grouped, classified as overhead, local or internet traffic, sorted, truncated and
  written as one JSON document with the interfaces, the health of the clients, the rejected protocol versions
  and the update manifest.

  \<open>isLanIP\<close>, \<open>inet_pton\<close> and the clock, which is read three times, are arguments.  A \<open>std::unordered_map\<close> is an
  association list; as its order is arbitrary, the stable sort below stands for any result of \<open>std::sort\<close>.
\<close>

section \<open>Names\<close>

definition kApiVersion :: nat where "kApiVersion = 14"
definition kWireProtoVersion :: nat where "kWireProtoVersion = 4"
definition kServerVersion :: string where "kServerVersion = ''3.0.0.0''"

record SummaryEnv =
  se_isLanIP :: "string \<Rightarrow> bool"
  se_pton4 :: pton4
  se_pton6 :: pton6
  se_resolver :: "IPRangeResolver option"
  se_nicknames :: "(string \<times> string) list"
  se_registry :: "ClientRegistry option"
  se_serverIps :: "MonitoringIpSet option"
  se_dashboardIps :: "MonitoringIpSet option"
  se_hidden :: "HiddenEntitiesStore option"
  se_manifest :: "UpdateManifestEntry list"
  se_demoEnabled :: bool
  se_snapshotSec :: int
  se_nowSec :: int
  se_healthSec :: int

definition isHexClientId :: "string \<Rightarrow> bool" where
  "isHexClientId s \<longleftrightarrow>
     length s = 64 \<and> list_all (\<lambda>c. in_range CHR ''0'' CHR ''9'' c \<or> in_range CHR ''a'' CHR ''f'' c) s"

text \<open>\<open>parseReporterScoped\<close>: the scope and the address of a key \<open>@[scope]:ip\<close>.\<close>

definition parseReporterScoped :: "string \<Rightarrow> (string \<times> string) option" where
  "parseReporterScoped s =
     (if length s < 5 \<or> s ! 0 \<noteq> CHR ''@'' \<or> s ! 1 \<noteq> CHR ''['' then None
      else case find_ch_from CHR '']'' 2 s of
        None \<Rightarrow> None
      | Some cb \<Rightarrow>
          if cb + 1 \<ge> length s \<or> s ! (cb + 1) \<noteq> CHR '':'' then None
          else Some (substr 2 (cb - 2) s, drop (cb + 2) s))"

definition displayClient :: "SummaryEnv \<Rightarrow> string \<Rightarrow> string" where
  "displayClient env s =
     (if isHexClientId s then (case map_of (se_nicknames env) s of Some n \<Rightarrow> n | None \<Rightarrow> s) else s)"

definition resolveEntityMain :: "SummaryEnv \<Rightarrow> string \<Rightarrow> string" where
  "resolveEntityMain env s =
     (if isHexClientId s then (case map_of (se_nicknames env) s of Some n \<Rightarrow> n | None \<Rightarrow> s)
      else case parseReporterScoped s of
        Some (scope, _) \<Rightarrow>
          if scope = ''null'' then ''LAN (no internet)'' else ''LAN ('' @ scope @ '')''
      | None \<Rightarrow> if se_isLanIP env s then ''Local Devices'' else s)"

text \<open>The address sets of the server and the dashboards, with the entities of their public addresses.\<close>

definition addEntityStrings :: "SummaryEnv \<Rightarrow> string list \<Rightarrow> string list" where
  "addEntityStrings env ips =
     (case se_resolver env of
        None \<Rightarrow> ips
      | Some resolver \<Rightarrow>
          ips @ filter (\<lambda>e. \<not> isUnknownEntity e)
                  (map (entityFor (se_pton4 env) (se_pton6 env) resolver) (filter (\<lambda>k. \<not> se_isLanIP env k) ips)))"

definition ipSnap :: "SummaryEnv \<Rightarrow> MonitoringIpSet option \<Rightarrow> string list" where
  "ipSnap env ips = addEntityStrings env (case ips of None \<Rightarrow> [] | Some s \<Rightarrow> monitoringIpSet s)"

definition isInfraEndpoint :: "SummaryEnv \<Rightarrow> string \<Rightarrow> bool" where
  "isInfraEndpoint env key =
     (let k = (case parseReporterScoped key of Some (_, lanIp) \<Rightarrow> lanIp | None \<Rightarrow> key) in
      k \<in> set (ipSnap env (se_serverIps env)) \<or> k \<in> set (ipSnap env (se_dashboardIps env)))"

text \<open>A percentage with two digits, in 64-bit arithmetic.\<close>

definition fmtPct :: "u64 \<Rightarrow> u64 \<Rightarrow> string" where
  "fmtPct num denom =
     (if denom = 0 then ''0.00''
      else let pct100 = (num * 10000) div denom;
               frac = pct100 mod 100
           in show_nat (unat (pct100 div 100)) @ ''.'' @ (if frac < 10 then ''0'' else '''') @ show_nat (unat frac))"

text \<open>The two halves of a \<open>client|interface\<close> key.\<close>

definition splitKey :: "string \<Rightarrow> string \<times> string" where
  "splitKey k = (case find_ch CHR ''|'' k of None \<Rightarrow> ([], k) | Some sep \<Rightarrow> (take sep k, drop (sep + 1) k))"

definition ifaceHidden :: "SummaryEnv \<Rightarrow> string \<Rightarrow> string \<Rightarrow> bool" where
  "ifaceHidden env client iface =
     (case se_hidden env of None \<Rightarrow> False | Some h \<Rightarrow> isIfaceHidden h client iface)"

section \<open>Grouping\<close>

record SummaryKey =
  sk_client :: string
  sk_iface :: string
  sk_src :: string
  sk_dst :: string

type_synonym Groups = "(SummaryKey \<times> Counter) list"

record LanStats =
  outPkts :: u64
  outBytes :: u64
  inPkts :: u64
  inBytes :: u64

definition LanStats0 :: LanStats where
  "LanStats0 = \<lparr> outPkts = 0, outBytes = 0, inPkts = 0, inBytes = 0 \<rparr>"

record SummaryAcc =
  summaryGroups :: Groups
  internetGroups :: Groups
  localGroups :: Groups
  overheadGroups :: Groups
  totalAllBytes :: u64
  overheadBytes :: u64
  overheadPkts :: u64
  localBytes :: u64
  localPkts :: u64
  lanMap :: "(string \<times> LanStats) list"

definition SummaryAcc0 :: SummaryAcc where
  "SummaryAcc0 = \<lparr> summaryGroups = [], internetGroups = [], localGroups = [], overheadGroups = [], totalAllBytes = 0,
     overheadBytes = 0, overheadPkts = 0, localBytes = 0, localPkts = 0, lanMap = [] \<rparr>"

definition groupAdd :: "SummaryKey \<Rightarrow> Counter \<Rightarrow> Groups \<Rightarrow> Groups" where
  "groupAdd k ctr g = upd_at Counter0 k (\<lambda>c. addCounter c ctr) g"

definition lanOut :: "Counter \<Rightarrow> LanStats \<Rightarrow> LanStats" where
  "lanOut ctr ls = ls\<lparr> outPkts := outPkts ls + packets ctr, outBytes := outBytes ls + octets ctr \<rparr>"

definition lanIn :: "Counter \<Rightarrow> LanStats \<Rightarrow> LanStats" where
  "lanIn ctr ls = ls\<lparr> inPkts := inPkts ls + packets ctr, inBytes := inBytes ls + octets ctr \<rparr>"

definition isOverhead :: "SummaryEnv \<Rightarrow> FlowKey \<Rightarrow> bool" where
  "isOverhead env fk \<longleftrightarrow> isInfraEndpoint env (fk_src fk) \<or> isInfraEndpoint env (fk_dst fk) \<or>
     (isHexClientId (fk_src fk) \<and> isHexClientId (fk_dst fk))"

definition unidentified :: "SummaryEnv \<Rightarrow> string \<Rightarrow> bool" where
  "unidentified env s \<longleftrightarrow> parseReporterScoped s \<noteq> None \<or> se_isLanIP env s"

definition endpointLocal :: "SummaryEnv \<Rightarrow> string \<Rightarrow> bool" where
  "endpointLocal env s \<longleftrightarrow> unidentified env s \<or> isHexClientId s"

definition rowKey :: "SummaryEnv \<Rightarrow> string \<Rightarrow> string \<Rightarrow> FlowKey \<Rightarrow> SummaryKey" where
  "rowKey env dispCli iface fk =
     \<lparr> sk_client = dispCli, sk_iface = iface, sk_src = resolveEntityMain env (fk_src fk),
       sk_dst = resolveEntityMain env (fk_dst fk) \<rparr>"

text \<open>The body of the inner loop, for one entity flow of a client's interface.\<close>

definition addEntityFlow :: "SummaryEnv \<Rightarrow> string \<Rightarrow> string \<Rightarrow> FlowKey \<times> Counter \<Rightarrow> SummaryAcc \<Rightarrow> SummaryAcc" where
  "addEntityFlow env dispCli iface e acc =
     (case e of (fk, ctr) \<Rightarrow>
        let k = rowKey env dispCli iface fk;
            acc0 = acc\<lparr> totalAllBytes := totalAllBytes acc + octets ctr \<rparr>
        in if isOverhead env fk
           then acc0\<lparr> overheadPkts := overheadPkts acc0 + packets ctr, overheadBytes := overheadBytes acc0 + octets ctr,
                      overheadGroups := groupAdd k ctr (overheadGroups acc0) \<rparr>
           else let acc1 = acc0\<lparr> summaryGroups := groupAdd k ctr (summaryGroups acc0) \<rparr>;
                    acc2 = (if endpointLocal env (fk_src fk) \<and> endpointLocal env (fk_dst fk)
                            then acc1\<lparr> localGroups := groupAdd k ctr (localGroups acc1),
                                       localPkts := localPkts acc1 + packets ctr, localBytes := localBytes acc1 + octets ctr \<rparr>
                            else acc1\<lparr> internetGroups := groupAdd k ctr (internetGroups acc1) \<rparr>);
                    acc3 = (if unidentified env (fk_src fk)
                            then acc2\<lparr> lanMap := upd_at LanStats0 (fk_src fk) (lanOut ctr) (lanMap acc2) \<rparr> else acc2)
                in if unidentified env (fk_dst fk)
                   then acc3\<lparr> lanMap := upd_at LanStats0 (fk_dst fk) (lanIn ctr) (lanMap acc3) \<rparr> else acc3)"

definition addInterface :: "SummaryEnv \<Rightarrow> string \<times> CounterMap \<Rightarrow> SummaryAcc \<Rightarrow> SummaryAcc" where
  "addInterface env kv acc =
     (case splitKey (fst kv) of (client, iface) \<Rightarrow>
        if ifaceHidden env client iface then acc
        else fold (addEntityFlow env (displayClient env client) iface) (snd kv) acc)"

definition groupFlows :: "SummaryEnv \<Rightarrow> InterfaceCounterFlows \<Rightarrow> SummaryAcc" where
  "groupFlows env flows = fold (addInterface env) flows SummaryAcc0"

section \<open>Rows\<close>

record SummaryRow =
  sr_key :: SummaryKey
  sr_packets :: u64
  sr_bytes :: u64

text \<open>Descending by a 64-bit weight, equal weights in the order of the container.\<close>

definition sortDesc :: "('r \<Rightarrow> u64) \<Rightarrow> 'r list \<Rightarrow> 'r list" where
  "sortDesc w rows = rev (sort_key w (rev rows))"

definition truncateRows :: "nat \<Rightarrow> 'r list \<Rightarrow> 'r list \<times> bool" where
  "truncateRows maxEntityLines rows =
     (if maxEntityLines > 0 \<and> length rows > maxEntityLines then (take maxEntityLines rows, True) else (rows, False))"

definition groupRows :: "Groups \<Rightarrow> SummaryRow list" where
  "groupRows g = map (\<lambda>(k, c). \<lparr> sr_key = k, sr_packets = packets c, sr_bytes = octets c \<rparr>) g"

definition topRows :: "nat \<Rightarrow> Groups \<Rightarrow> SummaryRow list \<times> bool" where
  "topRows maxEntityLines g = truncateRows maxEntityLines (sortDesc sr_bytes (groupRows g))"

definition topLan :: "nat \<Rightarrow> (string \<times> LanStats) list \<Rightarrow> (string \<times> LanStats) list \<times> bool" where
  "topLan maxEntityLines m = truncateRows maxEntityLines (sortDesc (\<lambda>(_, l). outBytes l + inBytes l) m)"

section \<open>The document\<close>

abbreviation num :: "u64 \<Rightarrow> string" where "num w \<equiv> show_nat (unat w)"

definition quoted :: "string \<Rightarrow> string" where "quoted t = CHR 0x22 # t @ [CHR 0x22]"

definition interfaceRow :: "SummaryEnv \<Rightarrow> string \<times> Counter \<Rightarrow> string" where
  "interfaceRow env kv =
     (case splitKey (fst kv) of (client, iface) \<Rightarrow>
        rowObj [(''client'', jstr (displayClient env client)), (''client_id'', jstr client), (''iface'', jstr iface),
                (''packets'', num (packets (snd kv))), (''bytes'', num (octets (snd kv)))])"

definition shownInterfaces :: "SummaryEnv \<Rightarrow> InterfaceTotals \<Rightarrow> InterfaceTotals" where
  "shownInterfaces env totals = filter (\<lambda>kv. case splitKey (fst kv) of (c, i) \<Rightarrow> \<not> ifaceHidden env c i) totals"

definition entityRow :: "SummaryRow \<Rightarrow> string" where
  "entityRow r =
     rowObj [(''client'', jstr (sk_client (sr_key r))), (''iface'', jstr (sk_iface (sr_key r))),
             (''packets'', num (sr_packets r)), (''bytes'', num (sr_bytes r)),
             (''src_entity'', jstr (sk_src (sr_key r))), (''dst_entity'', jstr (sk_dst (sr_key r)))]"

definition shareObj :: "u64 \<Rightarrow> u64 \<Rightarrow> u64 \<Rightarrow> string" where
  "shareObj pkts bs allBytes =
     rowObj [(''packets'', num pkts), (''bytes'', num bs), (''pct_of_total_bytes'', quoted (fmtPct bs allBytes))]"

text \<open>The address and the reporter of a LAN row.\<close>

definition lanNames :: "string \<Rightarrow> string \<times> string" where
  "lanNames key =
     (case parseReporterScoped key of
        Some (scope, ip) \<Rightarrow> (ip, if scope = ''null'' then ''no internet'' else scope)
      | None \<Rightarrow> (key, []))"

definition lanRow :: "string \<times> LanStats \<Rightarrow> string" where
  "lanRow kv =
     (case kv of (key, l) \<Rightarrow> case lanNames key of (ip, by) \<Rightarrow>
        rowObj [(''ip'', jstr ip), (''reported_by'', jstr by), (''out_packets'', num (outPkts l)),
                (''out_bytes'', num (outBytes l)), (''in_packets'', num (inPkts l)), (''in_bytes'', num (inBytes l))])"

definition healthStale :: "int \<Rightarrow> ClientHealthStats \<Rightarrow> bool" where
  "healthStale nowSec hs \<longleftrightarrow> reportedAtSec hs \<ge> 0 \<and> nowSec - reportedAtSec hs > 90"

definition healthRow :: "SummaryEnv \<Rightarrow> string \<times> ClientHealthStats \<Rightarrow> string" where
  "healthRow env kv =
     (case kv of (clientId, hs) \<Rightarrow>
        rowObj
          ([(''client'', jstr (displayClient env clientId)), (''client_id'', jstr clientId),
            (''version'', jstr (if hs_version hs = [] then ''?'' else hs_version hs)),
            (''platform'', jstr (hs_platform hs)), (''pcap_recv'', num (pcapRecv hs)), (''pcap_drop'', num (pcapDrop hs)),
            (''pcap_drop_pct'', quoted (fmtPct (pcapDrop hs) (pcapRecv hs + pcapDrop hs))),
            (''buf_drop'', num (bufDrop hs)), (''buf_drop_pct'', quoted (fmtPct (bufDrop hs) (pcapRecv hs))),
            (''reported_at'', show_int (reportedAtSec hs)), (''stale'', show_bool (healthStale (se_healthSec env) hs))] @
           (if wireProtoVersion hs > 0
            then [(''wire_proto_version'', show_nat (unat (wireProtoVersion hs))),
                  (''wire_proto_ok'', show_bool (unat (wireProtoVersion hs) = kWireProtoVersion))] else []) @
           (if aggIntervalMs hs > 0
            then [(''agg_interval_ms'', show_nat (unat (aggIntervalMs hs))),
                  (''agg_flows'', show_nat (unat (aggFlows hs)))] else [])))"

definition shownHealth :: "SummaryEnv \<Rightarrow> (string \<times> ClientHealthStats) list" where
  "shownHealth env =
     (case se_registry env of None \<Rightarrow> []
      | Some reg \<Rightarrow> filter (\<lambda>(c, _). case se_hidden env of None \<Rightarrow> True | Some h \<Rightarrow> \<not> isClientHidden h c) (clientHealth reg))"

definition rejectionRow :: "ProtoRejectionRecord \<Rightarrow> string" where
  "rejectionRow r =
     rowObj [(''peer_ip'', jstr (pr_peerIp r)), (''attempted_auth_version'', show_nat (unat (pr_attemptedVersion r))),
             (''at'', show_int (pr_atSec r))]"

definition manifestRow :: "UpdateManifestEntry \<Rightarrow> string" where
  "manifestRow m =
     rowObj [(''platform'', jstr (me_platform m)), (''version'', jstr (me_version m)),
             (''filename'', jstr (me_filename m)), (''sha256'', jstr (me_sha256hex m))]"

definition buildSummaryJson :: "SummaryEnv \<Rightarrow> nat \<Rightarrow> TrafficStats \<Rightarrow> string" where
  "buildSummaryJson env maxEntityLines st =
     (let snap = snapshot st;
          acc = groupFlows env (sn_entityFlows snap);
          (rows, truncated) = topRows maxEntityLines (summaryGroups acc);
          (internetRows, truncatedInternet) = topRows maxEntityLines (internetGroups acc);
          (localRows, truncatedLocal) = topRows maxEntityLines (localGroups acc);
          (overheadRows, truncatedOverhead) = topRows maxEntityLines (overheadGroups acc);
          (lanRows, truncatedLan) = topLan maxEntityLines (lanMap acc)
      in lineDoc
           [(''api_version'', show_nat kApiVersion),
            (''server_version'', quoted kServerVersion),
            (''server_wire_proto_version'', show_nat kWireProtoVersion),
            (''demo_server_enabled'', show_bool (se_demoEnabled env)),
            (''window_start'', show_int (windowStartSec (se_snapshotSec env) (sn_minDay snap))),
            (''generated_at'', show_int (se_nowSec env)),
            (''interfaces'', rowArr (map (interfaceRow env) (shownInterfaces env (sn_totals snap)))),
            (''entities'', rowArr (map entityRow rows)),
            (''truncated'', show_bool truncated),
            (''entities_internet'', rowArr (map entityRow internetRows)),
            (''truncated_internet'', show_bool truncatedInternet),
            (''entities_local'', rowArr (map entityRow localRows)),
            (''truncated_local'', show_bool truncatedLocal),
            (''local_summary'', shareObj (localPkts acc) (localBytes acc) (totalAllBytes acc)),
            (''overhead_entities'', rowArr (map entityRow overheadRows)),
            (''truncated_overhead'', show_bool truncatedOverhead),
            (''overhead_summary'', shareObj (overheadPkts acc) (overheadBytes acc) (totalAllBytes acc)),
            (''entities_lan'', rowArr (map lanRow lanRows)),
            (''truncated_lan'', show_bool truncatedLan),
            (''client_health'', rowArr (map (healthRow env) (shownHealth env))),
            (''proto_rejected_clients'',
              rowArr (map rejectionRow (case se_registry env of None \<Rightarrow> [] | Some reg \<Rightarrow> protoRejections reg))),
            (''update_manifest'', rowArr (map manifestRow (se_manifest env)))])"

section \<open>What the groups hold\<close>

text \<open>The entity flows that are not hidden, with the key of their row, and their class.\<close>

type_synonym VisibleFlow = "SummaryKey \<times> FlowKey \<times> Counter"

definition visibleFlows :: "SummaryEnv \<Rightarrow> InterfaceCounterFlows \<Rightarrow> VisibleFlow list" where
  "visibleFlows env flows =
     concat (map (\<lambda>kv. case splitKey (fst kv) of (client, iface) \<Rightarrow>
       if ifaceHidden env client iface then []
       else map (\<lambda>(fk, ctr). (rowKey env (displayClient env client) iface fk, fk, ctr)) (snd kv)) flows)"

datatype FlowClass = Overhead | Local | Internet

definition flowClass :: "SummaryEnv \<Rightarrow> FlowKey \<Rightarrow> FlowClass" where
  "flowClass env fk =
     (if isOverhead env fk then Overhead
      else if endpointLocal env (fk_src fk) \<and> endpointLocal env (fk_dst fk) then Local else Internet)"

text \<open>The packets and octets of the flows that satisfy a predicate.\<close>

definition flowSum :: "(SummaryKey \<Rightarrow> FlowKey \<Rightarrow> bool) \<Rightarrow> VisibleFlow list \<Rightarrow> Counter" where
  "flowSum P xs =
     (let cs = map (\<lambda>(_, _, c). c) (filter (\<lambda>(k, fk, _). P k fk) xs) in
      \<lparr> packets = sum_list (map packets cs), octets = sum_list (map octets cs) \<rparr>)"

lemma flowSum_Nil [simp]: "flowSum P [] = Counter0"
  by (simp add: flowSum_def Counter0_def)

lemma addCounter_0 [simp]: "addCounter c Counter0 = c" "addCounter Counter0 c = c"
  by (simp_all add: addCounter_def Counter0_def)

lemma flowSum_Cons [simp]:
  "flowSum P ((k, fk, c) # xs) = (if P k fk then addCounter c (flowSum P xs) else flowSum P xs)"
  by (simp add: flowSum_def addCounter_def)

lemma addCounter_assoc: "addCounter (addCounter a b) c = addCounter a (addCounter b c)"
  by (simp add: addCounter_def add.assoc)

text \<open>One step of the inner loop on a visible flow, and the two loops as one.\<close>

definition addFlow :: "SummaryEnv \<Rightarrow> VisibleFlow \<Rightarrow> SummaryAcc \<Rightarrow> SummaryAcc" where
  "addFlow env x acc =
     (case x of (k, fk, ctr) \<Rightarrow>
        \<lparr> summaryGroups = (if flowClass env fk \<noteq> Overhead then groupAdd k ctr (summaryGroups acc) else summaryGroups acc),
          internetGroups = (if flowClass env fk = Internet then groupAdd k ctr (internetGroups acc) else internetGroups acc),
          localGroups = (if flowClass env fk = Local then groupAdd k ctr (localGroups acc) else localGroups acc),
          overheadGroups = (if flowClass env fk = Overhead then groupAdd k ctr (overheadGroups acc) else overheadGroups acc),
          totalAllBytes = totalAllBytes acc + octets ctr,
          overheadBytes = (if flowClass env fk = Overhead then overheadBytes acc + octets ctr else overheadBytes acc),
          overheadPkts = (if flowClass env fk = Overhead then overheadPkts acc + packets ctr else overheadPkts acc),
          localBytes = (if flowClass env fk = Local then localBytes acc + octets ctr else localBytes acc),
          localPkts = (if flowClass env fk = Local then localPkts acc + packets ctr else localPkts acc),
          lanMap =
            (let m = (if flowClass env fk \<noteq> Overhead \<and> unidentified env (fk_src fk)
                      then upd_at LanStats0 (fk_src fk) (lanOut ctr) (lanMap acc) else lanMap acc)
             in if flowClass env fk \<noteq> Overhead \<and> unidentified env (fk_dst fk)
                then upd_at LanStats0 (fk_dst fk) (lanIn ctr) m else m) \<rparr>)"

lemma addEntityFlow_addFlow:
  "addEntityFlow env disp iface (fk, ctr) acc = addFlow env (rowKey env disp iface fk, fk, ctr) acc"
  by (cases acc) (simp add: addEntityFlow_def addFlow_def flowClass_def Let_def)

lemma fold_addEntityFlow:
  "fold (addEntityFlow env disp iface) es acc = fold (addFlow env) (map (\<lambda>(fk, ctr). (rowKey env disp iface fk, fk, ctr)) es) acc"
  by (induction es arbitrary: acc) (auto simp: addEntityFlow_addFlow)

lemma groupFlows_fold: "groupFlows env flows = fold (addFlow env) (visibleFlows env flows) SummaryAcc0"
proof -
  have "fold (addInterface env) flows acc = fold (addFlow env) (visibleFlows env flows) acc" for acc
  proof (induction flows arbitrary: acc)
    case (Cons kv flows)
    have "addInterface env kv acc = fold (addFlow env) (visibleFlows env [kv]) acc"
      by (simp add: addInterface_def visibleFlows_def fold_addEntityFlow split: prod.split)
    moreover have "visibleFlows env (kv # flows) = visibleFlows env [kv] @ visibleFlows env flows"
      by (simp add: visibleFlows_def)
    ultimately show ?case using Cons.IH by simp
  qed (simp add: visibleFlows_def)
  then show ?thesis by (simp add: groupFlows_def)
qed

text \<open>A group container after a sequence of flows.\<close>

definition groupAll :: "(FlowKey \<Rightarrow> bool) \<Rightarrow> VisibleFlow list \<Rightarrow> Groups \<Rightarrow> Groups" where
  "groupAll P xs g = fold (\<lambda>(k, fk, ctr) g. if P fk then groupAdd k ctr g else g) xs g"

lemma groupAll_Cons [simp]: "groupAll P ((k, fk, ctr) # xs) g = groupAll P xs (if P fk then groupAdd k ctr g else g)"
  by (simp add: groupAll_def)

lemma groupAll_Nil [simp]: "groupAll P [] g = g"
  by (simp add: groupAll_def)

lemma groupAll_exact:
  "at_or Counter0 k (groupAll P xs g) = addCounter (at_or Counter0 k g) (flowSum (\<lambda>k' fk. k' = k \<and> P fk) xs)"
proof (induction xs arbitrary: g)
  case (Cons x xs)
  obtain k' fk ctr where x: "x = (k', fk, ctr)" by (cases x)
  show ?case using Cons.IH by (auto simp: x groupAdd_def addCounter_assoc)
qed simp

lemma groupAll_keys_ok: "keys_ok g \<Longrightarrow> keys_ok (groupAll P xs g)"
proof (induction xs arbitrary: g)
  case (Cons x xs)
  obtain k fk ctr where x: "x = (k, fk, ctr)" by (cases x)
  show ?case using Cons.prems by (auto simp: x groupAdd_def intro!: Cons.IH)
qed simp

lemma groupAll_has_key:
  "has_key k (groupAll P xs g) \<longleftrightarrow> has_key k g \<or> (\<exists>fk ctr. (k, fk, ctr) \<in> set xs \<and> P fk)"
proof (induction xs arbitrary: g)
  case (Cons x xs)
  obtain k' fk ctr where x: "x = (k', fk, ctr)" by (cases x)
  show ?case using Cons.IH by (auto simp: x groupAdd_def)
qed simp

lemma fold_addFlow_groups:
  "summaryGroups (fold (addFlow env) xs acc) = groupAll (\<lambda>fk. flowClass env fk \<noteq> Overhead) xs (summaryGroups acc)"
  "internetGroups (fold (addFlow env) xs acc) = groupAll (\<lambda>fk. flowClass env fk = Internet) xs (internetGroups acc)"
  "localGroups (fold (addFlow env) xs acc) = groupAll (\<lambda>fk. flowClass env fk = Local) xs (localGroups acc)"
  "overheadGroups (fold (addFlow env) xs acc) = groupAll (\<lambda>fk. flowClass env fk = Overhead) xs (overheadGroups acc)"
  by (induction xs arbitrary: acc) (auto simp: addFlow_def split: prod.split)

lemma fold_addFlow_sums:
  "totalAllBytes (fold (addFlow env) xs acc) = totalAllBytes acc + octets (flowSum (\<lambda>_ _. True) xs)"
  "overheadBytes (fold (addFlow env) xs acc) = overheadBytes acc + octets (flowSum (\<lambda>_ fk. flowClass env fk = Overhead) xs)"
  "overheadPkts (fold (addFlow env) xs acc) = overheadPkts acc + packets (flowSum (\<lambda>_ fk. flowClass env fk = Overhead) xs)"
  "localBytes (fold (addFlow env) xs acc) = localBytes acc + octets (flowSum (\<lambda>_ fk. flowClass env fk = Local) xs)"
  "localPkts (fold (addFlow env) xs acc) = localPkts acc + packets (flowSum (\<lambda>_ fk. flowClass env fk = Local) xs)"
  by (induction xs arbitrary: acc) (auto simp: addFlow_def addCounter_def Counter0_def split: prod.split)

lemma lanStats_simps [simp]:
  "outBytes (lanOut c l) = outBytes l + octets c" "outPkts (lanOut c l) = outPkts l + packets c"
  "inBytes (lanOut c l) = inBytes l" "inPkts (lanOut c l) = inPkts l"
  "inBytes (lanIn c l) = inBytes l + octets c" "inPkts (lanIn c l) = inPkts l + packets c"
  "outBytes (lanIn c l) = outBytes l" "outPkts (lanIn c l) = outPkts l"
  by (simp_all add: lanOut_def lanIn_def)

abbreviation lanFlow :: "SummaryEnv \<Rightarrow> string \<Rightarrow> FlowKey \<Rightarrow> bool" where
  "lanFlow env ip fk \<equiv> flowClass env fk \<noteq> Overhead \<and> unidentified env ip"

lemma fold_addFlow_lan:
  "outBytes (at_or LanStats0 ip (lanMap (fold (addFlow env) xs acc))) =
     outBytes (at_or LanStats0 ip (lanMap acc)) + octets (flowSum (\<lambda>_ fk. fk_src fk = ip \<and> lanFlow env ip fk) xs)"
  "inBytes (at_or LanStats0 ip (lanMap (fold (addFlow env) xs acc))) =
     inBytes (at_or LanStats0 ip (lanMap acc)) + octets (flowSum (\<lambda>_ fk. fk_dst fk = ip \<and> lanFlow env ip fk) xs)"
  "outPkts (at_or LanStats0 ip (lanMap (fold (addFlow env) xs acc))) =
     outPkts (at_or LanStats0 ip (lanMap acc)) + packets (flowSum (\<lambda>_ fk. fk_src fk = ip \<and> lanFlow env ip fk) xs)"
  "inPkts (at_or LanStats0 ip (lanMap (fold (addFlow env) xs acc))) =
     inPkts (at_or LanStats0 ip (lanMap acc)) + packets (flowSum (\<lambda>_ fk. fk_dst fk = ip \<and> lanFlow env ip fk) xs)"
  by (induction xs arbitrary: acc) (auto simp: addFlow_def addCounter_def Counter0_def Let_def split: prod.split)

lemma fold_addFlow_lan_keys:
  "keys_ok (lanMap acc) \<Longrightarrow> keys_ok (lanMap (fold (addFlow env) xs acc))"
  "has_key ip (lanMap (fold (addFlow env) xs acc)) \<longleftrightarrow> has_key ip (lanMap acc) \<or>
     (\<exists>(_, fk, _) \<in> set xs. (fk_src fk = ip \<or> fk_dst fk = ip) \<and> lanFlow env ip fk)"
  by (induction xs arbitrary: acc) (auto simp: addFlow_def Let_def split: prod.split)

text \<open>The three classes share out all octets.\<close>

lemma flowSum_classes:
  "octets (flowSum (\<lambda>_ _. True) xs) =
     octets (flowSum (\<lambda>_ fk. flowClass env fk = Internet) xs) + octets (flowSum (\<lambda>_ fk. flowClass env fk = Local) xs) +
     octets (flowSum (\<lambda>_ fk. flowClass env fk = Overhead) xs)"
proof (induction xs)
  case (Cons x xs)
  obtain k fk c where x: "x = (k, fk, c)" by (cases x)
  show ?case using Cons.IH by (cases "flowClass env fk") (simp_all add: x addCounter_def)
qed (simp add: Counter0_def)

section \<open>What the rows show\<close>

lemma sortDesc_mset [simp]: "mset (sortDesc w rows) = mset rows"
  by (simp add: sortDesc_def)

lemma sortDesc_sorted: "sorted_wrt (\<lambda>a b. w b \<le> w a) (sortDesc w rows)"
proof -
  have "sorted_wrt (\<lambda>a b. w a \<le> w b) (sort_key w (rev rows))"
    using sorted_sort_key [of w "rev rows"] by (simp add: sorted_map)
  then show ?thesis by (simp add: sortDesc_def sorted_wrt_rev)
qed

lemma truncateRows_split:
  assumes "truncateRows m rows = (rs, flag)"
  shows "\<exists>dropped. rs @ dropped = rows \<and> (flag \<longleftrightarrow> dropped \<noteq> []) \<and> (flag \<longrightarrow> length rs = m)"
proof (cases "m > 0 \<and> length rows > m")
  case True
  then have "rs = take m rows" "flag" using assms by (auto simp: truncateRows_def)
  then show ?thesis using True by (intro exI [of _ "drop m rows"]) simp
next
  case False
  then have "rs = rows" "\<not> flag" using assms by (auto simp: truncateRows_def)
  then show ?thesis by simp
qed

lemma topRows_split:
  assumes "topRows m g = (rs, flag)"
  shows "\<exists>dropped. mset (rs @ dropped) = mset (groupRows g) \<and> sorted_wrt (\<lambda>a b. sr_bytes b \<le> sr_bytes a) (rs @ dropped) \<and>
    (flag \<longleftrightarrow> dropped \<noteq> []) \<and> (flag \<longrightarrow> length rs = m)"
proof -
  obtain dropped where "rs @ dropped = sortDesc sr_bytes (groupRows g)" "flag \<longleftrightarrow> dropped \<noteq> []" "flag \<longrightarrow> length rs = m"
    using truncateRows_split [of m] assms unfolding topRows_def by blast
  with sortDesc_sorted [of sr_bytes "groupRows g"] sortDesc_mset [of sr_bytes "groupRows g"]
  show ?thesis by (metis (no_types, lifting))
qed

lemma groupRows_keys: "map sr_key (groupRows g) = map fst g"
  by (simp add: groupRows_def comp_def split_def)

lemma groupRows_counter:
  assumes "keys_ok g" and "r \<in> set (groupRows g)"
  shows "at_or Counter0 (sr_key r) g = \<lparr> packets = sr_packets r, octets = sr_bytes r \<rparr>"
proof -
  obtain k c where r: "(k, c) \<in> set g" "r = \<lparr> sr_key = k, sr_packets = packets c, sr_bytes = octets c \<rparr>"
    using assms(2) by (auto simp: groupRows_def)
  have "map_of g k = Some c" using assms(1) r(1) by (simp add: keys_ok_def)
  then show ?thesis using r(2) by (cases c) (simp add: at_or_def)
qed

text \<open>The container of each class.\<close>

definition groupsOf :: "FlowClass \<Rightarrow> SummaryAcc \<Rightarrow> Groups" where
  "groupsOf c acc = (case c of Internet \<Rightarrow> internetGroups acc | Local \<Rightarrow> localGroups acc | Overhead \<Rightarrow> overheadGroups acc)"

lemma groupsOf_all: "groupsOf c (groupFlows env flows) = groupAll (\<lambda>fk. flowClass env fk = c) (visibleFlows env flows) []"
  by (cases c) (simp_all add: groupsOf_def groupFlows_fold fold_addFlow_groups SummaryAcc0_def)

text \<open>
  \<open>rows_of m P rows flag xs\<close>: what a table of the flows with \<open>P\<close> shows of the flows \<open>xs\<close>.  The rows, with some that
  are dropped, are one for each group of these flows with equal display names, in descending order of bytes;
  each carries the packets and bytes of all flows of its group.  Rows are dropped only beyond the limit \<open>m\<close>, and
  the flag says so.
\<close>

definition rows_of :: "nat \<Rightarrow> (FlowKey \<Rightarrow> bool) \<Rightarrow> SummaryRow list \<Rightarrow> bool \<Rightarrow> VisibleFlow list \<Rightarrow> bool" where
  "rows_of m P rows flag xs \<longleftrightarrow>
     (\<exists>dropped. sorted_wrt (\<lambda>a b. sr_bytes b \<le> sr_bytes a) (rows @ dropped) \<and> distinct (map sr_key (rows @ dropped)) \<and>
        sr_key ` set (rows @ dropped) = {k. \<exists>fk ctr. (k, fk, ctr) \<in> set xs \<and> P fk} \<and>
        (\<forall>r \<in> set (rows @ dropped). \<lparr> packets = sr_packets r, octets = sr_bytes r \<rparr> =
           flowSum (\<lambda>k fk. k = sr_key r \<and> P fk) xs) \<and>
        (flag \<longleftrightarrow> dropped \<noteq> []) \<and> (flag \<longrightarrow> length rows = m))"

lemma topRows_rows_of:
  assumes "topRows m (groupAll P xs []) = (rows, flag)"
  shows "rows_of m P rows flag xs"
proof -
  let ?g = "groupAll P xs []"
  obtain dropped where d: "mset (rows @ dropped) = mset (groupRows ?g)"
      "sorted_wrt (\<lambda>a b. sr_bytes b \<le> sr_bytes a) (rows @ dropped)" "flag \<longleftrightarrow> dropped \<noteq> []" "flag \<longrightarrow> length rows = m"
    using topRows_split [OF assms] by blast
  have ok: "keys_ok ?g" by (rule groupAll_keys_ok) simp
  have s: "set (rows @ dropped) = set (groupRows ?g)" by (rule mset_eq_setD [OF d(1)])
  have "mset (map sr_key (rows @ dropped)) = mset (map fst ?g)"
    using d(1) groupRows_keys [of ?g] by (metis mset_map)
  then have dist: "distinct (map sr_key (rows @ dropped))"
    using ok unfolding keys_ok_def by (metis mset_eq_imp_distinct_iff)
  have "sr_key ` set (rows @ dropped) = fst ` set ?g"
    using groupRows_keys [of ?g] s by (metis list.set_map)
  also have "\<dots> = {k. has_key k ?g}" by (auto simp: has_key_iff)
  finally have keys: "sr_key ` set (rows @ dropped) = {k. \<exists>fk ctr. (k, fk, ctr) \<in> set xs \<and> P fk}"
    by (simp add: groupAll_has_key)
  have "\<lparr> packets = sr_packets r, octets = sr_bytes r \<rparr> = flowSum (\<lambda>k fk. k = sr_key r \<and> P fk) xs"
    if "r \<in> set (rows @ dropped)" for r
  proof -
    have "r \<in> set (groupRows ?g)" using that unfolding s .
    from groupRows_counter [OF ok this, symmetric] show ?thesis by (simp add: groupAll_exact)
  qed
  with d dist keys show ?thesis unfolding rows_of_def by blast
qed

text \<open>
  The same for the LAN table: one row for each unidentified address that a flow outside overhead names, with
  what it sent and what it received.
\<close>

definition lan_rows_of :: "SummaryEnv \<Rightarrow> nat \<Rightarrow> (string \<times> LanStats) list \<Rightarrow> bool \<Rightarrow> VisibleFlow list \<Rightarrow> bool" where
  "lan_rows_of env m rows flag xs \<longleftrightarrow>
     (\<exists>dropped. sorted_wrt (\<lambda>a b. outBytes (snd b) + inBytes (snd b) \<le> outBytes (snd a) + inBytes (snd a)) (rows @ dropped) \<and>
        distinct (map fst (rows @ dropped)) \<and>
        fst ` set (rows @ dropped) = {ip. \<exists>(_, fk, _) \<in> set xs. (fk_src fk = ip \<or> fk_dst fk = ip) \<and> lanFlow env ip fk} \<and>
        (\<forall>(ip, l) \<in> set (rows @ dropped).
           \<lparr> packets = outPkts l, octets = outBytes l \<rparr> = flowSum (\<lambda>_ fk. fk_src fk = ip \<and> lanFlow env ip fk) xs \<and>
           \<lparr> packets = inPkts l, octets = inBytes l \<rparr> = flowSum (\<lambda>_ fk. fk_dst fk = ip \<and> lanFlow env ip fk) xs) \<and>
        (flag \<longleftrightarrow> dropped \<noteq> []) \<and> (flag \<longrightarrow> length rows = m))"

lemma topLan_rows_of:
  assumes "topLan m (lanMap (groupFlows env flows)) = (rows, flag)"
  shows "lan_rows_of env m rows flag (visibleFlows env flows)"
proof -
  let ?w = "\<lambda>kv. outBytes (snd kv) + inBytes (snd kv)"
  let ?xs = "visibleFlows env flows"
  define g where "g = lanMap (groupFlows env flows)"
  have g: "g = lanMap (fold (addFlow env) ?xs SummaryAcc0)" by (simp add: g_def groupFlows_fold)
  have w: "(\<lambda>(_, l). outBytes l + inBytes l) = ?w" by (simp add: fun_eq_iff split_def)
  obtain dropped where d: "rows @ dropped = sortDesc ?w g" "flag \<longleftrightarrow> dropped \<noteq> []" "flag \<longrightarrow> length rows = m"
    using truncateRows_split [OF assms [unfolded topLan_def w]] unfolding g_def by blast
  have m: "mset (rows @ dropped) = mset g" by (simp only: d(1) sortDesc_mset)
  have s: "set (rows @ dropped) = set g" by (rule mset_eq_setD [OF m])
  have ok: "keys_ok g" unfolding g by (rule fold_addFlow_lan_keys) (simp add: SummaryAcc0_def)
  have "mset (map fst (rows @ dropped)) = mset (map fst g)" using m by (metis mset_map)
  then have dist: "distinct (map fst (rows @ dropped))"
    using ok unfolding keys_ok_def by (metis mset_eq_imp_distinct_iff)
  have "fst ` set (rows @ dropped) = {ip. has_key ip g}" unfolding s by (auto simp: has_key_iff)
  then have keys: "fst ` set (rows @ dropped) =
      {ip. \<exists>(_, fk, _) \<in> set ?xs. (fk_src fk = ip \<or> fk_dst fk = ip) \<and> lanFlow env ip fk}"
    by (simp add: g fold_addFlow_lan_keys) (simp add: SummaryAcc0_def)
  have "\<forall>(ip, l) \<in> set (rows @ dropped).
      \<lparr> packets = outPkts l, octets = outBytes l \<rparr> = flowSum (\<lambda>_ fk. fk_src fk = ip \<and> lanFlow env ip fk) ?xs \<and>
      \<lparr> packets = inPkts l, octets = inBytes l \<rparr> = flowSum (\<lambda>_ fk. fk_dst fk = ip \<and> lanFlow env ip fk) ?xs"
  proof (clarify, intro conjI)
    fix ip l assume "(ip, l) \<in> set (rows @ dropped)"
    then have "map_of g ip = Some l" using ok unfolding s by (simp add: keys_ok_def)
    then have l: "l = at_or LanStats0 ip (lanMap (fold (addFlow env) ?xs SummaryAcc0))" by (simp add: at_or_def g)
    show "\<lparr> packets = outPkts l, octets = outBytes l \<rparr> = flowSum (\<lambda>_ fk. fk_src fk = ip \<and> lanFlow env ip fk) ?xs"
      "\<lparr> packets = inPkts l, octets = inBytes l \<rparr> = flowSum (\<lambda>_ fk. fk_dst fk = ip \<and> lanFlow env ip fk) ?xs"
      unfolding l by (simp_all add: fold_addFlow_lan) (simp_all add: SummaryAcc0_def LanStats0_def)
  qed
  moreover have "sorted_wrt (\<lambda>a b. ?w b \<le> ?w a) (rows @ dropped)" unfolding d(1) by (rule sortDesc_sorted)
  ultimately show ?thesis using d(2,3) dist keys unfolding lan_rows_of_def by blast
qed

section \<open>What the document says\<close>

abbreviation numJ :: "u64 \<Rightarrow> Json" where "numJ w \<equiv> JNum (int (unat w))"
abbreviation strJ :: "string \<Rightarrow> Json" where "strJ t \<equiv> JStr (kept t)"

definition interfaceJ :: "SummaryEnv \<Rightarrow> string \<times> Counter \<Rightarrow> Json" where
  "interfaceJ env kv =
     (case splitKey (fst kv) of (client, iface) \<Rightarrow>
        JObj [(''client'', strJ (displayClient env client)), (''client_id'', strJ client), (''iface'', strJ iface),
              (''packets'', numJ (packets (snd kv))), (''bytes'', numJ (octets (snd kv)))])"

definition entityJ :: "SummaryRow \<Rightarrow> Json" where
  "entityJ r =
     JObj [(''client'', strJ (sk_client (sr_key r))), (''iface'', strJ (sk_iface (sr_key r))),
           (''packets'', numJ (sr_packets r)), (''bytes'', numJ (sr_bytes r)),
           (''src_entity'', strJ (sk_src (sr_key r))), (''dst_entity'', strJ (sk_dst (sr_key r)))]"

definition shareJ :: "u64 \<Rightarrow> u64 \<Rightarrow> u64 \<Rightarrow> Json" where
  "shareJ pkts bs allBytes =
     JObj [(''packets'', numJ pkts), (''bytes'', numJ bs), (''pct_of_total_bytes'', JStr (fmtPct bs allBytes))]"

definition lanJ :: "string \<times> LanStats \<Rightarrow> Json" where
  "lanJ kv =
     (case kv of (key, l) \<Rightarrow> case lanNames key of (ip, reporter) \<Rightarrow>
        JObj [(''ip'', strJ ip), (''reported_by'', strJ reporter), (''out_packets'', numJ (outPkts l)),
              (''out_bytes'', numJ (outBytes l)), (''in_packets'', numJ (inPkts l)), (''in_bytes'', numJ (inBytes l))])"

definition healthJ :: "SummaryEnv \<Rightarrow> string \<times> ClientHealthStats \<Rightarrow> Json" where
  "healthJ env kv =
     (case kv of (clientId, hs) \<Rightarrow>
        JObj
          ([(''client'', strJ (displayClient env clientId)), (''client_id'', strJ clientId),
            (''version'', strJ (if hs_version hs = [] then ''?'' else hs_version hs)),
            (''platform'', strJ (hs_platform hs)), (''pcap_recv'', numJ (pcapRecv hs)), (''pcap_drop'', numJ (pcapDrop hs)),
            (''pcap_drop_pct'', JStr (fmtPct (pcapDrop hs) (pcapRecv hs + pcapDrop hs))),
            (''buf_drop'', numJ (bufDrop hs)), (''buf_drop_pct'', JStr (fmtPct (bufDrop hs) (pcapRecv hs))),
            (''reported_at'', JNum (reportedAtSec hs)), (''stale'', JBool (healthStale (se_healthSec env) hs))] @
           (if wireProtoVersion hs > 0
            then [(''wire_proto_version'', JNum (int (unat (wireProtoVersion hs)))),
                  (''wire_proto_ok'', JBool (unat (wireProtoVersion hs) = kWireProtoVersion))] else []) @
           (if aggIntervalMs hs > 0
            then [(''agg_interval_ms'', JNum (int (unat (aggIntervalMs hs)))),
                  (''agg_flows'', JNum (int (unat (aggFlows hs))))] else [])))"

definition rejectionJ :: "ProtoRejectionRecord \<Rightarrow> Json" where
  "rejectionJ r =
     JObj [(''peer_ip'', strJ (pr_peerIp r)), (''attempted_auth_version'', JNum (int (unat (pr_attemptedVersion r)))),
           (''at'', JNum (pr_atSec r))]"

definition manifestJ :: "UpdateManifestEntry \<Rightarrow> Json" where
  "manifestJ m =
     JObj [(''platform'', strJ (me_platform m)), (''version'', strJ (me_version m)),
           (''filename'', strJ (me_filename m)), (''sha256'', strJ (me_sha256hex m))]"

definition summaryJ :: "SummaryEnv \<Rightarrow> nat \<Rightarrow> TrafficStats \<Rightarrow> Json" where
  "summaryJ env m st =
     (let snap = snapshot st; acc = groupFlows env (sn_entityFlows snap);
          table = (\<lambda>g. JArr (map entityJ (fst (topRows m g)))); cut = (\<lambda>g. JBool (snd (topRows m g)))
      in JObj
           [(''api_version'', JNum 14), (''server_version'', JStr ''3.0.0.0''), (''server_wire_proto_version'', JNum 4),
            (''demo_server_enabled'', JBool (se_demoEnabled env)),
            (''window_start'', JNum (windowStartSec (se_snapshotSec env) (sn_minDay snap))),
            (''generated_at'', JNum (se_nowSec env)),
            (''interfaces'', JArr (map (interfaceJ env) (shownInterfaces env (sn_totals snap)))),
            (''entities'', table (summaryGroups acc)), (''truncated'', cut (summaryGroups acc)),
            (''entities_internet'', table (internetGroups acc)), (''truncated_internet'', cut (internetGroups acc)),
            (''entities_local'', table (localGroups acc)), (''truncated_local'', cut (localGroups acc)),
            (''local_summary'', shareJ (localPkts acc) (localBytes acc) (totalAllBytes acc)),
            (''overhead_entities'', table (overheadGroups acc)), (''truncated_overhead'', cut (overheadGroups acc)),
            (''overhead_summary'', shareJ (overheadPkts acc) (overheadBytes acc) (totalAllBytes acc)),
            (''entities_lan'', JArr (map lanJ (fst (topLan m (lanMap acc))))),
            (''truncated_lan'', JBool (snd (topLan m (lanMap acc)))),
            (''client_health'', JArr (map (healthJ env) (shownHealth env))),
            (''proto_rejected_clients'',
              JArr (map rejectionJ (case se_registry env of None \<Rightarrow> [] | Some reg \<Rightarrow> protoRejections reg))),
            (''update_manifest'', JArr (map manifestJ (se_manifest env)))])"

lemma plain_literal:
  "plain_text ''client''" "plain_text ''client_id''" "plain_text ''iface''" "plain_text ''packets''" "plain_text ''bytes''"
  "plain_text ''src_entity''" "plain_text ''dst_entity''" "plain_text ''pct_of_total_bytes''" "plain_text ''ip''"
  "plain_text ''reported_by''" "plain_text ''out_packets''" "plain_text ''out_bytes''" "plain_text ''in_packets''"
  "plain_text ''in_bytes''" "plain_text ''version''" "plain_text ''platform''" "plain_text ''pcap_recv''"
  "plain_text ''pcap_drop''" "plain_text ''pcap_drop_pct''" "plain_text ''buf_drop''" "plain_text ''buf_drop_pct''"
  "plain_text ''reported_at''" "plain_text ''stale''" "plain_text ''wire_proto_version''" "plain_text ''wire_proto_ok''"
  "plain_text ''agg_interval_ms''" "plain_text ''agg_flows''" "plain_text ''peer_ip''"
  "plain_text ''attempted_auth_version''" "plain_text ''at''" "plain_text ''filename''" "plain_text ''sha256''"
  by (simp_all add: plain_text_def code_of_def)

lemma plain_top_literal:
  "plain_text ''api_version''" "plain_text ''server_version''" "plain_text ''server_wire_proto_version''"
  "plain_text ''demo_server_enabled''" "plain_text ''window_start''" "plain_text ''generated_at''" "plain_text ''interfaces''"
  "plain_text ''entities''" "plain_text ''truncated''" "plain_text ''entities_internet''" "plain_text ''truncated_internet''"
  "plain_text ''entities_local''" "plain_text ''truncated_local''" "plain_text ''local_summary''"
  "plain_text ''overhead_entities''" "plain_text ''truncated_overhead''" "plain_text ''overhead_summary''"
  "plain_text ''entities_lan''" "plain_text ''truncated_lan''" "plain_text ''client_health''"
  "plain_text ''proto_rejected_clients''" "plain_text ''update_manifest''" "plain_text ''3.0.0.0''"
  by (simp_all add: plain_text_def code_of_def)

lemma plain_fmtPct: "plain_text (fmtPct a b)"
proof -
  have "plain_text ''.''" "plain_text ''0''" "plain_text ''0.00''" by (simp_all add: plain_text_def code_of_def)
  then show ?thesis unfolding fmtPct_def Let_def by (auto simp del: append_Cons append_Nil)
qed

lemma reads_quoted_text: "plain_text t \<Longrightarrow> reads (quoted t) (JStr t)"
  unfolding quoted_def by (rule reads_quoted)

lemma reads_unat: "reads (show_nat (unat w)) (JNum (uint w))"
  using reads_nat [of "unat w"] by simp

lemmas json_reads = reads_unat reads_jstr reads_nat reads_int reads_bool reads_quoted_text [OF plain_fmtPct]

lemma reads_interface: "reads (interfaceRow env kv) (interfaceJ env kv)"
  by (cases "splitKey (fst kv)") (simp add: interfaceRow_def interfaceJ_def, rule reads_row, simp add: plain_literal json_reads)

lemma reads_entity: "reads (entityRow r) (entityJ r)"
  unfolding entityRow_def entityJ_def by (rule reads_row) (simp add: plain_literal json_reads)

lemma reads_share: "reads (shareObj a b c) (shareJ a b c)"
  unfolding shareObj_def shareJ_def by (rule reads_row) (simp add: plain_literal json_reads)

lemma reads_lan: "reads (lanRow kv) (lanJ kv)"
  by (cases kv; cases "lanNames (fst kv)")
    (simp add: lanRow_def lanJ_def, rule reads_row, simp add: plain_literal json_reads)

lemma reads_rejection: "reads (rejectionRow r) (rejectionJ r)"
  unfolding rejectionRow_def rejectionJ_def by (rule reads_row) (simp add: plain_literal json_reads)

lemma reads_manifest: "reads (manifestRow m) (manifestJ m)"
  unfolding manifestRow_def manifestJ_def by (rule reads_row) (simp add: plain_literal json_reads)

lemma reads_health: "reads (healthRow env kv) (healthJ env kv)"
proof -
  obtain c hs where kv: "kv = (c, hs)" by (cases kv)
  show ?thesis
    unfolding kv healthRow_def healthJ_def prod.case
    by (intro reads_row pairs_read_append) (simp_all add: plain_literal json_reads)
qed

section \<open>Properties\<close>

text \<open>
  C18.  The tables of the dashboard account for the traffic exactly.  Whatever the flows, names, hidden entities
  and address sets are, the table of all traffic (without overhead) and the internet, local and overhead tables
  hold one row for each group of visible flows of
  their class with equal display names, in descending order of bytes, with the packets and bytes of exactly these
  flows; only rows beyond the limit, and then the smallest, are dropped, and the \<open>truncated\<close> flag says so.  The three
  classes share out all bytes of the visible flows, the two summaries hold the packets and bytes of their class.
  The LAN table holds one row for each unidentified address that a flow outside overhead names, with the packets
  and bytes that it sent and received in these flows, sorted and truncated likewise (all in 64-bit arithmetic).
\<close>

theorem summary_rows_exact:
  assumes "acc = groupFlows env flows" and "xs = visibleFlows env flows"
    and "topRows m (summaryGroups acc) = (allRows, allFlag)"
    and "topRows m (groupsOf c acc) = (rows, flag)"
    and "topLan m (lanMap acc) = (lanRows, lanFlag)"
  shows "rows_of m (\<lambda>fk. flowClass env fk \<noteq> Overhead) allRows allFlag xs \<and>
    rows_of m (\<lambda>fk. flowClass env fk = c) rows flag xs \<and>
    lan_rows_of env m lanRows lanFlag xs \<and>
    totalAllBytes acc = octets (flowSum (\<lambda>_ fk. flowClass env fk = Internet) xs) + localBytes acc + overheadBytes acc \<and>
    \<lparr> packets = localPkts acc, octets = localBytes acc \<rparr> = flowSum (\<lambda>_ fk. flowClass env fk = Local) xs \<and>
    \<lparr> packets = overheadPkts acc, octets = overheadBytes acc \<rparr> = flowSum (\<lambda>_ fk. flowClass env fk = Overhead) xs"
proof (intro conjI)
  show "rows_of m (\<lambda>fk. flowClass env fk \<noteq> Overhead) allRows allFlag xs"
    by (rule topRows_rows_of) (use assms in \<open>simp add: groupFlows_fold fold_addFlow_groups SummaryAcc0_def\<close>)
  show "rows_of m (\<lambda>fk. flowClass env fk = c) rows flag xs"
    by (rule topRows_rows_of) (use assms in \<open>simp add: groupsOf_all\<close>)
  show "lan_rows_of env m lanRows lanFlag xs"
    unfolding assms(2) by (rule topLan_rows_of) (use assms in simp)
  have sums: "localBytes acc = octets (flowSum (\<lambda>_ fk. flowClass env fk = Local) xs)"
    "overheadBytes acc = octets (flowSum (\<lambda>_ fk. flowClass env fk = Overhead) xs)"
    "localPkts acc = packets (flowSum (\<lambda>_ fk. flowClass env fk = Local) xs)"
    "overheadPkts acc = packets (flowSum (\<lambda>_ fk. flowClass env fk = Overhead) xs)"
    by (simp_all add: assms(1,2) groupFlows_fold fold_addFlow_sums SummaryAcc0_def)
  then show "\<lparr> packets = localPkts acc, octets = localBytes acc \<rparr> = flowSum (\<lambda>_ fk. flowClass env fk = Local) xs"
    "\<lparr> packets = overheadPkts acc, octets = overheadBytes acc \<rparr> = flowSum (\<lambda>_ fk. flowClass env fk = Overhead) xs"
    by simp_all
  have "totalAllBytes acc = octets (flowSum (\<lambda>_ _. True) xs)"
    by (simp add: assms(1,2) groupFlows_fold fold_addFlow_sums SummaryAcc0_def)
  then show "totalAllBytes acc = octets (flowSum (\<lambda>_ fk. flowClass env fk = Internet) xs) + localBytes acc + overheadBytes acc"
    unfolding sums using flowSum_classes [of xs env] by simp
qed

definition demo_summary_env :: SummaryEnv where
  "demo_summary_env =
     \<lparr> se_isLanIP = (\<lambda>s. s = ''10.0.0.2''), se_pton4 = (\<lambda>_. None), se_pton6 = (\<lambda>_. None), se_resolver = None, se_nicknames = [],
       se_registry = None, se_serverIps = Some [(''10.0.0.9'', 0)], se_dashboardIps = None,
       se_hidden = Some \<lparr> hiddenClients = [''h''], hiddenIfaces = [] \<rparr>, se_manifest = [], se_demoEnabled = False,
       se_snapshotSec = 7, se_nowSec = 7, se_healthSec = 7 \<rparr>"

definition demo_summary_flows :: InterfaceCounterFlows where
  "demo_summary_flows =
     [(''c|eth0'', [(\<lparr> fk_src = ''10.0.0.2'', fk_dst = ''AS1'' \<rparr>, \<lparr> packets = 1, octets = 60 \<rparr>),
                    (\<lparr> fk_src = ''10.0.0.9'', fk_dst = ''AS1'' \<rparr>, \<lparr> packets = 2, octets = 90 \<rparr>)]),
      (''h|eth0'', [(\<lparr> fk_src = ''10.0.0.2'', fk_dst = ''AS1'' \<rparr>, \<lparr> packets = 1, octets = 5 \<rparr>)])]"

abbreviation demo_row :: SummaryRow where
  "demo_row \<equiv> \<lparr> sr_key = \<lparr> sk_client = ''c'', sk_iface = ''eth0'', sk_src = ''Local Devices'', sk_dst = ''AS1'' \<rparr>,
     sr_packets = 1, sr_bytes = 60 \<rparr>"

abbreviation demo_lan_row :: "string \<times> LanStats" where
  "demo_lan_row \<equiv> (''10.0.0.2'', \<lparr> outPkts = 1, outBytes = 60, inPkts = 0, inBytes = 0 \<rparr>)"

lemma demo_summary_rows:
  "topRows 0 (summaryGroups (groupFlows demo_summary_env demo_summary_flows)) = ([demo_row], False)"
  "topRows 0 (groupsOf Internet (groupFlows demo_summary_env demo_summary_flows)) = ([demo_row], False)"
  "topLan 0 (lanMap (groupFlows demo_summary_env demo_summary_flows)) = ([demo_lan_row], False)"
  by code_simp+

theorem summary_rows_exact_witness:
  "rows_of 0 (\<lambda>fk. flowClass demo_summary_env fk = Internet) [demo_row] False (visibleFlows demo_summary_env demo_summary_flows) \<and>
   lan_rows_of demo_summary_env 0 [demo_lan_row] False (visibleFlows demo_summary_env demo_summary_flows)"
  using summary_rows_exact [OF refl refl demo_summary_rows] by blast

text \<open>
  C19.  The summary is always one document of the JSON grammar that stands for exactly the
  interfaces, tables, totals, health reports, rejections and manifest entries that the server holds, each text
  without its control characters other than line feed, carriage return and tab, which the code drops: no name of a
  client, an interface, an entity or a platform can break out of its string, whatever its bytes.  A strict reader,
  which refuses every document that is not UTF-8, reads it back if and only if all these texts are UTF-8; the code
  does not check that they are, so one client can make the summary unreadable (a defect).
\<close>

theorem summary_is_json:
  "read_grammar (buildSummaryJson env m st) = Some (summaryJ env m st) \<and>
   read_json (buildSummaryJson env m st) = (if json_utf8 (summaryJ env m st) then Some (summaryJ env m st) else None)"
proof -
  let ?acc = "groupFlows env (sn_entityFlows (snapshot st))"
  note rows = reads_rowArr_map [where f = "interfaceRow env" and g = "interfaceJ env", OF reads_interface]
    reads_rowArr_map [where f = entityRow and g = entityJ, OF reads_entity]
    reads_rowArr_map [where f = lanRow and g = lanJ, OF reads_lan]
    reads_rowArr_map [where f = "healthRow env" and g = "healthJ env", OF reads_health]
    reads_rowArr_map [where f = rejectionRow and g = rejectionJ, OF reads_rejection]
    reads_rowArr_map [where f = manifestRow and g = manifestJ, OF reads_manifest]
  have fixed: "reads (show_nat kApiVersion) (JNum 14)" "reads (show_nat kWireProtoVersion) (JNum 4)"
    "reads (quoted kServerVersion) (JStr ''3.0.0.0'')"
    using reads_nat [of 14] reads_nat [of 4] reads_quoted_text [OF plain_top_literal(23)]
    by (simp_all add: kApiVersion_def kWireProtoVersion_def kServerVersion_def)
  have "read_grammar (buildSummaryJson env m st) = Some (summaryJ env m st)"
    unfolding buildSummaryJson_def summaryJ_def Let_def split_def
    by (rule read_lineDoc) (simp add: plain_top_literal rows fixed json_reads reads_share)
  then show ?thesis using read_json_grammar by (simp add: if_utf8_def)
qed

end
