(* ===== verification/TextFiles.thy ===== *)
theory TextFiles
  imports Prelude
begin

text \<open>
  Reading text files line by line: \<open>std::getline\<close> on a whole file, the blanks of configuration lines, and the
  clamped numbers of the two configuration files.
\<close>

section \<open>Lines\<close>

text \<open>The loop \<open>while (std::getline(f, line))\<close>: a text after the last line feed is a line of its own.\<close>

fun linesFrom :: "string \<Rightarrow> string \<Rightarrow> string list" where
  "linesFrom cur [] = (if cur = [] then [] else [cur])"
| "linesFrom cur (c # s) = (if c = LF then cur # linesFrom [] s else linesFrom (cur @ [c]) s)"

definition fileLines :: "string \<Rightarrow> string list" where
  "fileLines s = linesFrom [] s"

abbreviation isBlank :: "char \<Rightarrow> bool" where "isBlank c \<equiv> c = SP \<or> c = TAB"
abbreviation isLineEnd :: "char \<Rightarrow> bool" where "isLineEnd c \<equiv> c = CR \<or> c = LF"

lemma linesFrom_line: "LF \<notin> set l \<Longrightarrow> linesFrom cur (l @ LF # s) = (cur @ l) # linesFrom [] s"
  by (induction l arbitrary: cur) auto

lemma fileLines_line [simp]: "LF \<notin> set l \<Longrightarrow> fileLines (l @ LF # s) = l # fileLines s"
  by (simp add: fileLines_def linesFrom_line)

lemma fileLines_Nil [simp]: "fileLines [] = []"
  by (simp add: fileLines_def)

lemma linesFrom_append: "linesFrom cur (a @ LF # s) = linesFrom cur (a @ [LF]) @ linesFrom [] s"
  by (induction a arbitrary: cur) auto

lemma fileLines_append:
  assumes "a = [] \<or> last a = LF"
  shows "fileLines (a @ s) = fileLines a @ fileLines s"
proof (cases "a = []")
  case False
  with assms obtain a' where "a = a' @ [LF]" by (metis append_butlast_last_id)
  then show ?thesis using linesFrom_append [of "[]" a' s] by (simp add: fileLines_def)
qed simp

lemma linesFrom_no_LF: "LF \<notin> set cur \<Longrightarrow> l \<in> set (linesFrom cur s) \<Longrightarrow> LF \<notin> set l"
proof (induction s arbitrary: cur)
  case (Cons c s)
  from Cons.prems show ?case using Cons.IH [of "[]"] Cons.IH [of "cur @ [c]"] by (simp split: if_splits) auto
qed (simp split: if_splits)

lemma fileLines_no_LF: "l \<in> set (fileLines s) \<Longrightarrow> LF \<notin> set l"
  using linesFrom_no_LF [of "[]"] by (simp add: fileLines_def)

section \<open>Settings\<close>

text \<open>A key and its value, \<open>None\<close> for a line without one: blank lines, comments, lines without \<open>=\<close>.  A value of
  blanks only stays as it is.\<close>

definition stripValue :: "string \<Rightarrow> string" where
  "stripValue v = (if ltrim isBlank v = [] then v else ltrim isBlank v)"

definition keyValue :: "string \<Rightarrow> (string \<times> string) option" where
  "keyValue line =
     (let t = ltrim isBlank line in
      if t = [] \<or> hd t = CHR ''#'' then None
      else case find_ch CHR ''='' t of None \<Rightarrow> None
      | Some eq \<Rightarrow> Some (rtrim isBlank (take eq t), stripValue (drop (eq + 1) t)))"

text \<open>\<open>std::clamp\<close> and the \<open>std::min\<close>/\<open>std::max\<close> pairs, on the value of \<open>std::stoul\<close>.\<close>

definition clampTo :: "u64 \<Rightarrow> u64 \<Rightarrow> u64 \<Rightarrow> u64" where
  "clampTo lo hi n = (if n < lo then lo else if hi < n then hi else n)"

lemma clampTo_bounds: "lo \<le> hi \<Longrightarrow> lo \<le> clampTo lo hi n \<and> clampTo lo hi n \<le> hi"
  by (simp add: clampTo_def not_less)

definition lowerIn :: "string list \<Rightarrow> string \<Rightarrow> bool" where
  "lowerIn ws v \<longleftrightarrow> lowercase v \<in> set ws"

text \<open>A narrowing cast keeps a value that fits.\<close>

lemma ucast_between:
  assumes "a \<le> n" and "n \<le> (b :: u64)" and "unat b < 2 ^ LENGTH('a)"
  shows "ucast a \<le> (ucast n :: 'a::len word)" and "(ucast n :: 'a word) \<le> ucast b"
proof -
  have "unat a \<le> unat n" "unat n \<le> unat b" using assms(1,2) by (simp_all add: word_le_nat_alt)
  then show "ucast a \<le> (ucast n :: 'a word)" "(ucast n :: 'a word) \<le> ucast b"
    using assms(3) by (simp_all add: word_le_nat_alt unat_ucast)
qed

lemma ucast_clamp:
  assumes "lo \<le> hi" and "unat hi < 2 ^ LENGTH('a)"
  shows "ucast lo \<le> (ucast (clampTo lo hi n) :: 'a::len word)" and "(ucast (clampTo lo hi n) :: 'a word) \<le> ucast hi"
  using clampTo_bounds [OF assms(1), of n] ucast_between [OF _ _ assms(2)] by blast+

end
