(* ===== verification/Admin.thy ===== *)
theory Admin
  imports Summary WebSession WebJson TextFiles Codecs
begin

text \<open>
  The administration handlers of \<open>registerWebHandlers\<close> (\<open>web_dashboard.cpp\<close>) and the files they keep: the allowed
  keys (\<open>loadAllowedKeys\<close> of \<open>server_core.cpp\<close>, registration of a client), the hidden entities
  (\<open>saveHiddenEntities\<close>, \<open>loadHiddenEntities\<close>, hiding and unhiding), purging a client, the demo switch, and the
  documents about history, monitors, clients and their configuration.  The pre-routing handler (theory
  \<open>WebSession\<close>) has let the request through.

  A file is its contents, \<open>None\<close> if it does not exist.  The outcome of a write is an argument: whether the file
  opens, the state of the stream that the code tests, and how many bytes reach the file.
\<close>

section \<open>Allowed keys\<close>

text \<open>The set of keys is a list without duplicates.\<close>

record AllowedClientsStore =
  ac_keys :: "bytes list"
  ac_nicknames :: "(string \<times> string) list"

definition AllowedClients0 :: AllowedClientsStore where
  "AllowedClients0 = \<lparr> ac_keys = [], ac_nicknames = [] \<rparr>"

definition hexCharAny :: "char \<Rightarrow> bool" where
  "hexCharAny c \<longleftrightarrow> in_range CHR ''0'' CHR ''9'' c \<or> in_range CHR ''a'' CHR ''f'' c \<or> in_range CHR ''A'' CHR ''F'' c"

definition hexCharLower :: "char \<Rightarrow> bool" where
  "hexCharLower c \<longleftrightarrow> in_range CHR ''0'' CHR ''9'' c \<or> in_range CHR ''a'' CHR ''f'' c"

definition hexDigitVal :: "char \<Rightarrow> byte" where
  "hexDigitVal c =
     (if code_of c \<ge> code_of CHR ''a'' then of_nat (code_of c - code_of CHR ''a'' + 10)
      else if code_of c \<ge> code_of CHR ''A'' then of_nat (code_of c - code_of CHR ''A'' + 10)
      else of_nat (code_of c - code_of CHR ''0''))"

fun rawOfHex :: "string \<Rightarrow> bytes" where
  "rawOfHex (h # l # r) = (push_bit 4 (hexDigitVal h) OR hexDigitVal l) # rawOfHex r"
| "rawOfHex _ = []"

definition badNickname :: "string \<Rightarrow> bool" where
  "badNickname n \<longleftrightarrow> length n > 64 \<or> list_ex (\<lambda>c. c = CHR ''|'' \<or> code_of c < 0x20) n"

text \<open>A line of the file: its key and its nickname.\<close>

definition parseKeyLine :: "string \<Rightarrow> (bytes \<times> string option) option" where
  "parseKeyLine line =
     (let l = rtrim isLineEnd line in
      if l = [] \<or> hd l = CHR ''#'' then None
      else if length l < 64 then None
      else if length l > 64 \<and> \<not> isBlank (l ! 64) then None
      else if \<not> list_all hexCharAny (take 64 l) then None
      else let n = rtrim isBlank (ltrim isBlank (drop 64 l))
           in Some (rawOfHex (take 64 l), if n \<noteq> [] \<and> \<not> badNickname n then Some n else None))"

definition addKeyLine :: "string \<Rightarrow> AllowedClientsStore \<Rightarrow> AllowedClientsStore" where
  "addKeyLine line st =
     (case parseKeyLine line of None \<Rightarrow> st
      | Some (raw, nick) \<Rightarrow>
          st\<lparr> ac_keys := List.insert raw (ac_keys st),
              ac_nicknames := (case nick of None \<Rightarrow> ac_nicknames st
                               | Some n \<Rightarrow> AList.update (hexEncode raw) n (ac_nicknames st)) \<rparr>)"

definition loadAllowedKeys :: "(string \<Rightarrow> string option) \<Rightarrow> string \<Rightarrow> AllowedClientsStore" where
  "loadAllowedKeys fs path =
     (if path = [] then AllowedClients0
      else case fs path of None \<Rightarrow> AllowedClients0
      | Some contents \<Rightarrow> fold addKeyLine (fileLines contents) AllowedClients0)"

section \<open>Registration of a client\<close>

record WriteOutcome =
  wo_open :: bool
  wo_good :: bool
  wo_kept :: nat

record KeyAdmin =
  ka_limiter :: WebRateLimiter
  ka_store :: AllowedClientsStore
  ka_file :: "string option"

definition rateExceeded :: UpdResponse where
  "rateExceeded = (429, [(''Retry-After'', ''60'')], errorBody ''rate limit exceeded'')"

abbreviation refused :: "nat \<Rightarrow> string \<Rightarrow> UpdResponse" where
  "refused code e \<equiv> (code, [], errorBody e)"

definition clientKeyLine :: "string \<Rightarrow> string \<Rightarrow> string" where
  "clientKeyLine pubkeyHex nickname = pubkeyHex @ (if nickname \<noteq> [] then SP # nickname else []) @ [LF]"

text \<open>Opening for appending creates the file.\<close>

definition appendTo :: "WriteOutcome \<Rightarrow> string \<Rightarrow> string option \<Rightarrow> string option" where
  "appendTo io text f = Some ((case f of None \<Rightarrow> [] | Some c \<Rightarrow> c) @ take (wo_kept io) text)"

definition storeKey :: "string \<Rightarrow> string \<Rightarrow> AllowedClientsStore \<Rightarrow> AllowedClientsStore" where
  "storeKey pubkeyHex nickname store =
     store\<lparr> ac_keys := List.insert (rawOfHex pubkeyHex) (ac_keys store),
            ac_nicknames := (if nickname \<noteq> [] then AList.update pubkeyHex nickname (ac_nicknames store)
                             else ac_nicknames store) \<rparr>"

definition registerKey :: "WriteOutcome \<Rightarrow> string \<Rightarrow> string \<Rightarrow> string \<Rightarrow> KeyAdmin \<Rightarrow> UpdResponse \<times> KeyAdmin" where
  "registerKey io path pubkeyHex nickname st =
     (let rawKey = rawOfHex pubkeyHex; store = ka_store st in
      if rawKey \<in> set (ac_keys store) then (refused 409 ''pubkey already registered'', st)
      else if path \<noteq> [] \<and> \<not> wo_open io then (refused 500 ''server error: cannot write keys file'', st)
      else let st1 = (if path \<noteq> [] then st\<lparr> ka_file := appendTo io (clientKeyLine pubkeyHex nickname) (ka_file st) \<rparr> else st) in
        if path \<noteq> [] \<and> \<not> wo_good io then (refused 500 ''server error: cannot write keys file'', st1)
        else ((200, [], ''{\"ok\":true,\"client_id\":\"'' @ jsonEsc pubkeyHex @ ''\"}'' @ [LF]),
              st1\<lparr> ka_store := storeKey pubkeyHex nickname store \<rparr>))"

definition clientRegister :: "int \<Rightarrow> string \<Rightarrow> WriteOutcome \<Rightarrow> string \<Rightarrow> string \<Rightarrow> KeyAdmin \<Rightarrow> UpdResponse \<times> KeyAdmin" where
  "clientRegister now ip io path body st =
     (case rateTryAcquire now ip (ka_limiter st) of (ok, limiter) \<Rightarrow>
        let st1 = st\<lparr> ka_limiter := limiter \<rparr>;
            pubkeyHex = jsonGetString body ''pubkey''; nickname = jsonGetString body ''nickname''
        in if \<not> ok then (rateExceeded, st1)
           else if length pubkeyHex \<noteq> 64 then (refused 400 ''pubkey must be 64 hex characters'', st1)
           else if \<not> list_all hexCharLower pubkeyHex then (refused 400 ''pubkey must be lowercase hex'', st1)
           else if length nickname > 64 then (refused 400 ''nickname too long (max 64 characters)'', st1)
           else if list_ex (\<lambda>c. c = CHR ''|'' \<or> code_of c < 0x20) nickname
             then (refused 400 ''nickname contains invalid characters'', st1)
           else registerKey io path pubkeyHex nickname st1)"

section \<open>Hidden entities\<close>

definition hiddenText :: "HiddenEntitiesStore \<Rightarrow> string" where
  "hiddenText h =
     lineDoc [(''hidden_clients'', rowArr (map jstr (hiddenClients h))),
              (''hidden_interfaces'', rowArr (map (\<lambda>(c, i). rowObj [(''client_id'', jstr c), (''iface'', jstr i)]) (hiddenIfaces h)))]"

text \<open>The write is not tested: only a file that does not open fails.\<close>

definition saveHiddenEntities :: "WriteOutcome \<Rightarrow> string \<Rightarrow> HiddenEntitiesStore \<Rightarrow> string option \<Rightarrow> bool \<times> string option" where
  "saveHiddenEntities io path h f =
     (if path = [] then (True, f)
      else if \<not> wo_open io then (False, f)
      else (True, Some (take (wo_kept io) (hiddenText h))))"

text \<open>The reader works on suffixes of the contents instead of positions.  The texts between quotes, in front of the
  closing bracket.\<close>

function quotedTexts :: "string \<Rightarrow> string list" where
  "quotedTexts t =
     (case find_ch CHR 0x22 t of None \<Rightarrow> []
      | Some q1 \<Rightarrow> case find_ch CHR 0x22 (drop (q1 + 1) t) of None \<Rightarrow> []
        | Some n \<Rightarrow> take n (drop (q1 + 1) t) # quotedTexts (drop (q1 + 1 + n + 1) t))"
  by pat_completeness auto
termination
proof (relation "measure length", goal_cases)
  case (2 t q1 n)
  from find_ch_Some [OF 2(1)] have "q1 < length t" by simp
  then show ?case by simp
qed simp

declare quotedTexts.simps [simp del]

text \<open>Inserting the texts into a set drops duplicates.\<close>

definition loadClients :: "string \<Rightarrow> string list" where
  "loadClients content =
     (case find_str (CHR 0x22 # ''hidden_clients'' @ [CHR 0x22]) content of None \<Rightarrow> []
      | Some arrStart \<Rightarrow> case find_ch CHR ''['' (drop arrStart content) of None \<Rightarrow> []
        | Some n \<Rightarrow> case find_ch CHR '']'' (drop (arrStart + n) content) of None \<Rightarrow> []
          | Some k \<Rightarrow> remdups (filter (\<lambda>x. length x = 64) (quotedTexts (take (k - 1) (drop (arrStart + n + 1) content)))))"

text \<open>\<open>extractVal\<close>, and the objects: \<open>n\<close> is the distance to the last closing bracket of the file.\<close>

definition extractVal :: "string \<Rightarrow> string \<Rightarrow> string" where
  "extractVal obj key =
     (case find_str (CHR 0x22 # key @ [CHR 0x22]) obj of None \<Rightarrow> []
      | Some k \<Rightarrow> let t = drop (k + length key + 2) obj in
          case find_ch CHR '':'' t of None \<Rightarrow> []
          | Some col \<Rightarrow> let u = drop (col + 1) t in
              case find_ch CHR 0x22 u of None \<Rightarrow> []
              | Some q1 \<Rightarrow> let v = drop (q1 + 1) u in
                  case find_ch CHR 0x22 v of None \<Rightarrow> [] | Some q2 \<Rightarrow> take q2 v)"

function loadObjects :: "nat \<Rightarrow> string \<Rightarrow> (string \<times> string) list" where
  "loadObjects n t =
     (if n = 0 then []
      else case find_ch (CHR 0x7B) t of None \<Rightarrow> []
      | Some ob \<Rightarrow> case find_ch (CHR 0x7D) (drop ob t) of None \<Rightarrow> []
        | Some k \<Rightarrow>
            if ob \<ge> n then []
            else let obj = take (k + 1) (drop ob t); cb = ob + k;
                     clientId = extractVal obj ''client_id''; iface = extractVal obj ''iface''
                 in (if length clientId = 64 \<and> iface \<noteq> [] then [(clientId, iface)] else [])
                    @ loadObjects (n - (cb + 1)) (drop (cb + 1) t))"
  by pat_completeness auto
termination by (relation "measure fst") auto

declare loadObjects.simps [simp del]

definition loadIfaces :: "string \<Rightarrow> (string \<times> string) list" where
  "loadIfaces content =
     (case find_str (CHR 0x22 # ''hidden_interfaces'' @ [CHR 0x22]) content of None \<Rightarrow> []
      | Some arrStart \<Rightarrow> case find_ch CHR ''['' (drop arrStart content) of None \<Rightarrow> []
        | Some n \<Rightarrow> let t = drop (arrStart + n + 1) content in
            case rfind_ch CHR '']'' t of None \<Rightarrow> [] | Some rb \<Rightarrow> remdups (loadObjects rb t))"

definition loadHiddenEntities :: "(string \<Rightarrow> string option) \<Rightarrow> string \<Rightarrow> HiddenEntitiesStore" where
  "loadHiddenEntities fs path =
     (if path = [] then \<lparr> hiddenClients = [], hiddenIfaces = [] \<rparr>
      else case fs path of None \<Rightarrow> \<lparr> hiddenClients = [], hiddenIfaces = [] \<rparr>
      | Some content \<Rightarrow> \<lparr> hiddenClients = loadClients content, hiddenIfaces = loadIfaces content \<rparr>)"

record HiddenAdmin =
  ha_store :: HiddenEntitiesStore
  ha_file :: "string option"

definition hiddenAnswer :: "bool \<Rightarrow> UpdResponse" where
  "hiddenAnswer hidden = (200, [], ''{\"ok\":true,\"hidden\":'' @ show_bool hidden @ ''}'' @ [LF])"

text \<open>Saving the changed store and answering; the change stays in memory when the file does not open.\<close>

definition saveAndAnswer :: "WriteOutcome \<Rightarrow> string \<Rightarrow> HiddenEntitiesStore \<Rightarrow> bool \<Rightarrow> HiddenAdmin \<Rightarrow> UpdResponse \<times> HiddenAdmin" where
  "saveAndAnswer io path h hidden st =
     (case saveHiddenEntities io path h (ha_file st) of (ok, f) \<Rightarrow>
        (if ok then hiddenAnswer hidden else refused 500 ''server error: cannot write hidden entities file'',
         st\<lparr> ha_store := h, ha_file := f \<rparr>))"

definition hexId :: "string \<Rightarrow> bool" where
  "hexId s \<longleftrightarrow> length s = 64 \<and> set s \<subseteq> set ''0123456789abcdef''"

definition hideClient :: "WriteOutcome \<Rightarrow> string \<Rightarrow> string \<Rightarrow> HiddenAdmin \<Rightarrow> UpdResponse \<times> HiddenAdmin" where
  "hideClient io path body st =
     (let clientId = jsonGetString body ''client_id''; action = jsonGetString body ''action''; h = ha_store st in
      if \<not> hexId clientId then (refused 400 ''client_id must be 64 lowercase hex chars'', st)
      else if action \<noteq> ''hide'' \<and> action \<noteq> ''unhide'' then (refused 400 ''action must be hide or unhide'', st)
      else let h' = h\<lparr> hiddenClients := (if action = ''hide'' then List.insert clientId (hiddenClients h)
                                        else removeAll clientId (hiddenClients h)) \<rparr>
           in saveAndAnswer io path h' (clientId \<in> set (hiddenClients h')) st)"

definition hideInterface :: "WriteOutcome \<Rightarrow> string \<Rightarrow> string \<Rightarrow> HiddenAdmin \<Rightarrow> UpdResponse \<times> HiddenAdmin" where
  "hideInterface io path body st =
     (let clientId = jsonGetString body ''client_id''; iface = jsonGetString body ''iface'';
          action = jsonGetString body ''action''; h = ha_store st in
      if \<not> hexId clientId then (refused 400 ''client_id must be 64 lowercase hex chars'', st)
      else if iface = [] \<or> length iface > kMaxIfaceLabelLen
        then (refused 400 (''iface must be 1'' @ [CHR 0xE2, CHR 0x80, CHR 0x93] @ ''64 characters''), st)
      else if action \<noteq> ''hide'' \<and> action \<noteq> ''unhide'' then (refused 400 ''action must be hide or unhide'', st)
      else let h' = h\<lparr> hiddenIfaces := (if action = ''hide'' then List.insert (clientId, iface) (hiddenIfaces h)
                                        else removeAll (clientId, iface) (hiddenIfaces h)) \<rparr>
           in saveAndAnswer io path h' ((clientId, iface) \<in> set (hiddenIfaces h')) st)"

section \<open>Purging a client, and the demo switch\<close>

text \<open>From a display name to a client: a nickname, then a raw id.\<close>

definition resolveClient :: "(string \<times> string) list \<Rightarrow> string \<Rightarrow> string" where
  "resolveClient nicknames clientName =
     (let byNick = (case find (\<lambda>(_, n). n = clientName) nicknames of None \<Rightarrow> [] | Some (k, _) \<Rightarrow> k);
          byHex = (if byNick = [] \<and> length clientName = 64 \<and> list_all hexCharLower clientName then clientName else byNick)
      in if byHex = [] then (case find (\<lambda>(k, _). k = clientName) nicknames of None \<Rightarrow> [] | Some (k, _) \<Rightarrow> k) else byHex)"

definition adminPurge :: "(string \<Rightarrow> u64) \<Rightarrow> (string \<times> string) list \<Rightarrow> int \<Rightarrow> string \<Rightarrow> string \<Rightarrow> WebRateLimiter \<Rightarrow> TrafficStats \<Rightarrow>
    UpdResponse \<times> WebRateLimiter \<times> TrafficStats" where
  "adminPurge hash nicknames now ip body limiter st =
     (case rateTryAcquire now ip limiter of (ok, limiter') \<Rightarrow>
        let clientName = jsonGetString body ''client''; id = resolveClient nicknames clientName in
        if \<not> ok then (rateExceeded, limiter', st)
        else if clientName = [] then (refused 400 ''bad request: client field required'', limiter', st)
        else if id = [] then (refused 404 ''client not found'', limiter', st)
        else ((200, [], ''{\"ok\":true,\"client_id\":\"'' @ jsonEsc id @ ''\",\"message\":\"client data purged\"}'' @ [LF]),
              limiter', snd (purgeClient hash id st)))"

text \<open>The switch: the first \<open>t\<close> or \<open>f\<close> after the field decides; switching on ends the running demo session.\<close>

definition adminDemo :: "string \<Rightarrow> bool \<times> int \<Rightarrow> UpdResponse \<times> (bool \<times> int)" where
  "adminDemo body st =
     (case find_str (CHR 0x22 # ''enabled'' @ [CHR 0x22]) body of
        None \<Rightarrow> (refused 400 ''missing enabled field'', st)
      | Some pos \<Rightarrow>
          (case dropWhile (\<lambda>c. c \<noteq> CHR ''t'' \<and> c \<noteq> CHR ''f'') (drop (pos + 9) body) of
             [] \<Rightarrow> (refused 400 ''enabled must be true or false'', st)
           | c # _ \<Rightarrow>
               (let enabled = (c = CHR ''t'') in
                ((200, [], ''{\"ok\":true,\"demo_enabled\":'' @ show_bool enabled @ ''}'' @ [LF]),
                 (enabled, if enabled then 0 else snd st)))))"

section \<open>Documents\<close>

definition flatArr :: "string list \<Rightarrow> string" where
  "flatArr rows = ''['' @ join_with '','' rows @ '']''"

definition historyBucketRow :: "HistoryBucket \<Rightarrow> string" where
  "historyBucketRow b =
     rowObj [(''t'', num (hb_t b)), (''in_bytes'', num (hb_inOctets b)), (''out_bytes'', num (hb_outOctets b)),
             (''in_packets'', num (hb_inPackets b)), (''out_packets'', num (hb_outPackets b))]"

definition historyMinutes :: "string \<Rightarrow> int" where
  "historyMinutes mStr =
     (if mStr = [] then 0
      else let m = (case stoi mStr of None \<Rightarrow> 0 | Some v \<Rightarrow> v) in
           if m < 1 \<or> m > int kMinuteSlots then 0 else m)"

abbreviation noStore :: "(string \<times> string) list" where "noStore \<equiv> [(''Cache-Control'', ''no-store'')]"

definition clientHistoryDoc :: "(string \<Rightarrow> u64) \<Rightarrow> int \<Rightarrow> (string \<times> string) list \<Rightarrow> TrafficStats \<Rightarrow> UpdResponse" where
  "clientHistoryDoc hash nowSec ps st =
     (let clientId = param ps ''client_id'' in
      if length clientId \<noteq> 64 \<or> \<not> set clientId \<subseteq> set ''0123456789abcdefABCDEF''
      then (400, noStore, ''{\"error\":\"client_id must be 64 hex characters\"}'')
      else let snap = snapshotHistory hash nowSec clientId (historyMinutes (param ps ''minutes'')) st in
           (200, noStore,
            rowObj [(''client_id'', quoted (hist_clientId snap)), (''bucket_seconds'', show_nat (hist_bucketSeconds snap)),
                    (''window_days'', show_nat (hist_windowDays snap)),
                    (''buckets'', flatArr (map historyBucketRow (hist_buckets snap)))]))"

definition monitorsDoc :: "int \<Rightarrow> MonitoringIpSet option \<Rightarrow> UpdResponse" where
  "monitorsDoc now ips =
     (200, noStore, rowObj [(''wire_agents'', ''[]''),
             (''dashboard_clients'',
               flatArr (map (\<lambda>(ip, seen). rowObj [(''ip'', jstr ip), (''last_seen'', show_int seen), (''active'', show_bool (now - seen \<le> 300))])
                 (case ips of None \<Rightarrow> [] | Some s \<Rightarrow> s)))] @ [LF])"

definition clientsDoc :: "AllowedClientsStore \<Rightarrow> ClientRegistry \<Rightarrow> string" where
  "clientsDoc store reg =
     rowObj [(''clients'',
       flatArr (map (\<lambda>(c, n). rowObj [(''client_id'', jstr c), (''nickname'', jstr n), (''connected'', show_bool (has_key c (clientHealth reg)))])
         (ac_nicknames store)))] @ [LF]"

definition configObj :: "ClientHealthStats \<Rightarrow> string" where
  "configObj hs =
     rowObj [(''transport'', jstr (cfgTransport hs)), (''compress'', show_bool (cfgCompress hs = 1)),
             (''send_buffer'', show_nat (unat (cfgSendBuffer hs))), (''auto_update'', show_bool (cfgAutoUpdate hs = 1)),
             (''reconnect_attempts'', show_nat (unat (cfgReconnectAttempts hs))),
             (''reconnect_interval'', show_nat (unat (cfgReconnectInterval hs))),
             (''agg_target_lines'', show_nat (unat (cfgAggTarget hs))), (''agg_min_ms'', show_nat (unat (cfgAggMinMs hs))),
             (''agg_max_ms'', show_nat (unat (cfgAggMaxMs hs))), (''agg_max_flows'', show_nat (unat (cfgAggMaxFlows hs)))]"

definition clientConfigDoc :: "AllowedClientsStore \<Rightarrow> ClientRegistry \<Rightarrow> (string \<times> string) list \<Rightarrow> nat \<times> string" where
  "clientConfigDoc store reg ps =
     (let clientId = param ps ''client_id'' in
      if \<not> hexId clientId then (400, errorBody ''client_id must be 64 lowercase hex chars'')
      else let nickname = (case map_of (ac_nicknames store) clientId of None \<Rightarrow> [] | Some n \<Rightarrow> n);
               health = map_of (clientHealth reg) clientId
           in (200, rowObj [(''client_id'', jstr clientId), (''nickname'', jstr nickname),
                            (''connected'', show_bool (health \<noteq> None)),
                            (''config'', case health of None \<Rightarrow> ''null''
                               | Some hs \<Rightarrow> if cfgTransport hs \<noteq> [] then configObj hs else ''null'')] @ [LF]))"

definition hiddenDoc :: "HiddenEntitiesStore \<Rightarrow> string" where
  "hiddenDoc h =
     rowObj [(''hidden_clients'', flatArr (map jstr (hiddenClients h))),
             (''hidden_interfaces'', flatArr (map (\<lambda>(c, i). rowObj [(''client_id'', jstr c), (''iface'', jstr i)]) (hiddenIfaces h)))] @ [LF]"

section \<open>Lemmas: searching\<close>

lemma find_str_drop_prefix:
  "p \<noteq> [] \<Longrightarrow> hd p \<notin> set x \<Longrightarrow> find_str p (x @ s) = map_option (\<lambda>i. length x + i) (find_str p s)"
proof (induction x)
  case (Cons c x)
  obtain d q where "p = d # q" using Cons.prems(1) by (cases p) auto
  with Cons show ?case by (cases "find_str p s") auto
qed (cases "find_str p s", simp_all)

section \<open>Lemmas: hexadecimal keys\<close>

lemma hexDigitVal_kHex: "n < 16 \<Longrightarrow> hexDigitVal (kHex ! n) = of_nat n"
proof -
  have "list_all (\<lambda>n. hexDigitVal (kHex ! n) = of_nat n) [0..<16]" by code_simp
  then show "n < 16 \<Longrightarrow> ?thesis" by (simp add: list_all_iff)
qed

lemma rawOfHex_hexEncode [simp]: "rawOfHex (hexEncode bs) = bs"
proof (induction bs)
  case (Cons b bs)
  with join_nibbles [of b] show ?case by (simp add: hexEncode_def hexDigitVal_kHex)
qed (simp add: hexEncode_def)

lemma hexCharLower_kHex:
  assumes "hexCharLower c"
  obtains n where "n < 16" "c = kHex ! n"
proof -
  have "list_all (\<lambda>k. \<exists>n \<in> set [0..<16]. char_of k = kHex ! n) ([48..<58] @ [97..<103])"
    unfolding set_upt by code_simp
  moreover have "code_of CHR ''a'' = 97" "code_of CHR ''f'' = 102" by (simp_all add: code_of_def)
  then have "48 \<le> code_of c \<and> code_of c < 58 \<or> 97 \<le> code_of c \<and> code_of c < 103"
    using assms by (auto simp: hexCharLower_def in_range_def)
  then have "code_of c \<in> set ([48..<58] @ [97..<103])" unfolding set_append set_upt by auto
  ultimately have "\<exists>n \<in> set [0..<16]. char_of (code_of c) = kHex ! n" by (simp only: list_all_iff)
  then show ?thesis using that by (auto simp: code_of_def)
qed

lemma unat_low_nibble: "unat ((w :: byte) AND 0xF) = unat w mod 16"
proof -
  have "(0xF :: byte) = mask 4" by (simp add: mask_eq_exp_minus_1)
  then have "w AND 0xF = take_bit 4 w" by (simp only: take_bit_eq_mask)
  then have "unat (w AND 0xF) = take_bit 4 (unat w)" by (simp only: unsigned_take_bit_eq)
  then show ?thesis by (simp add: take_bit_eq_mod)
qed

lemma hexEncode_byte:
  assumes "a < 16" "b < 16"
  shows "hexEncode (of_nat (16 * a + b) # bs) = kHex ! a # kHex ! b # hexEncode bs"
proof -
  have u: "unat (of_nat (16 * a + b) :: byte) = 16 * a + b" 
    by (subst unat_of_nat) (use assms in simp)
  have "unat (drop_bit 4 (of_nat (16 * a + b) :: byte) AND 0xF) = a" "unat ((of_nat (16 * a + b) :: byte) AND 0xF) = b"
    unfolding unat_low_nibble unat_drop_bit u using assms by simp_all
  then show ?thesis unfolding hexEncode_def by simp
qed

lemma hexEncode_rawOfHex:
  assumes "list_all hexCharLower h" and "even (length h)"
  shows "hexEncode (rawOfHex h) = h"
proof -
  have "\<exists>bs. h = hexEncode bs" using assms
  proof (induction h rule: rawOfHex.induct)
    case (1 c d r)
    from 1 obtain bs where "r = hexEncode bs" by auto
    moreover obtain a where "a < 16" "c = kHex ! a" using 1(2) by (auto elim: hexCharLower_kHex)
    moreover obtain b where "b < 16" "d = kHex ! b" using 1(2) by (auto elim: hexCharLower_kHex)
    ultimately show ?case using hexEncode_byte by metis
  next
    case "2_1"
    have "[] = hexEncode []" by (simp add: hexEncode_def)
    then show ?case by blast
  qed simp
  then show ?thesis by auto
qed

lemma lower_hex_char:
  assumes "hexCharLower c"
  shows "hexCharAny c" "c \<noteq> LF" "c \<noteq> CR" "c \<noteq> CHR ''#''" "c \<noteq> SP" "c \<noteq> TAB" "c \<noteq> CHR 0x22" "c \<noteq> CHR 0x5C"
    "c \<noteq> CHR '',''" "c \<noteq> CHR '']''" "c \<noteq> CHR ''h''" "c \<noteq> CHR ''i''" "0x20 \<le> code_of c"
  using assms by (auto simp: hexCharLower_def hexCharAny_def in_range_def code_of_def)

section \<open>Lemmas: the keys file\<close>

text \<open>A nickname that the registration accepts and the file keeps as it is.\<close>

definition nick_ok :: "string \<Rightarrow> bool" where
  "nick_ok n \<longleftrightarrow> \<not> badNickname n \<and> (n = [] \<or> hd n \<noteq> SP \<and> last n \<noteq> SP)"

lemma nick_chars:
  assumes "nick_ok n" and "c \<in> set n"
  shows "c \<noteq> LF" "c \<noteq> CR" "c \<noteq> TAB"
proof -
  have "\<not> code_of c < 0x20" using assms by (auto simp: nick_ok_def badNickname_def list_ex_iff)
  then show "c \<noteq> LF" "c \<noteq> CR" "c \<noteq> TAB" using code_of_controls by auto
qed

lemma parseKeyLine_keyLine:
  assumes "list_all hexCharLower h" and "length h = 64" and "nick_ok n"
  shows "parseKeyLine (h @ (if n \<noteq> [] then SP # n else [])) = Some (rawOfHex h, if n \<noteq> [] then Some n else None)"
proof -
  let ?l = "h @ (if n \<noteq> [] then SP # n else [])"
  have h: "c \<in> set h \<Longrightarrow> hexCharLower c" for c using assms(1) by (simp add: list_all_iff)
  have h0: "h \<noteq> []" using assms(2) by auto
  have "last ?l \<in> set h \<union> set n" using h0 by (cases "n = []") auto
  then have "\<not> isLineEnd (last ?l)" using lower_hex_char [OF h] nick_chars [OF assms(3)] by blast
  then have l: "rtrim isLineEnd ?l = ?l" by (intro rtrim_id) simp
  have hd: "hd ?l \<noteq> CHR ''#''" using h0 lower_hex_char(4) [OF h [OF hd_in_set]] by simp
  have all: "list_all hexCharAny h" using lower_hex_char(1) [OF h] by (simp add: list_all_iff)
  have n: "rtrim isBlank (ltrim isBlank (SP # n)) = n" if n0: "n \<noteq> []"
  proof -
    have "hd n \<in> set n" "last n \<in> set n" using n0 by simp_all
    then have "\<not> isBlank (hd n)" "\<not> isBlank (last n)"
      using assms(3) n0 nick_chars(3) [OF assms(3)] by (auto simp: nick_ok_def)
    then have "ltrim isBlank (SP # n) = n" by (cases n) (simp_all add: ltrim_def)
    then show ?thesis using \<open>\<not> isBlank (last n)\<close> by (simp add: rtrim_id)
  qed
  have bad: "\<not> badNickname n" using assms(3) by (simp add: nick_ok_def)
  show ?thesis
  proof (cases "n = []")
    case True
    then show ?thesis using assms(2) l hd all h0 by (simp add: parseKeyLine_def Let_def ltrim_def)
  next
    case False
    then have d: "drop 64 ?l = SP # n" "take 64 ?l = h" "?l ! 64 = SP" using assms(2) by (simp_all add: nth_append)
    show ?thesis unfolding parseKeyLine_def Let_def l d using False n bad all hd h0 assms(2) by simp
  qed
qed

definition same_store :: "AllowedClientsStore \<Rightarrow> AllowedClientsStore \<Rightarrow> bool" where
  "same_store a b \<longleftrightarrow> set (ac_keys a) = set (ac_keys b) \<and> map_of (ac_nicknames a) = map_of (ac_nicknames b)"

text \<open>The file, which ends with a line feed, holds what the memory holds.\<close>

definition keys_persisted :: "string \<Rightarrow> KeyAdmin \<Rightarrow> bool" where
  "keys_persisted path st \<longleftrightarrow>
     (\<exists>c. ka_file st = Some c \<and> (c = [] \<or> last c = LF) \<and> same_store (ka_store st) (loadAllowedKeys (\<lambda>_. Some c) path))"

lemma loadAllowedKeys_append:
  assumes "c = [] \<or> last c = LF" and "list_all hexCharLower h" and "length h = 64" and "nick_ok n" and "path \<noteq> []"
  shows "loadAllowedKeys (\<lambda>_. Some (c @ clientKeyLine h n)) path =
    addKeyLine (h @ (if n \<noteq> [] then SP # n else [])) (loadAllowedKeys (\<lambda>_. Some c) path)"
proof -
  let ?l = "h @ (if n \<noteq> [] then SP # n else [])"
  have "LF \<notin> set ?l" using assms(2) lower_hex_char(2) nick_chars(1) [OF assms(4)] by (auto simp: list_all_iff)
  moreover have "clientKeyLine h n = ?l @ LF # []" "fileLines [] = []" by (simp_all add: clientKeyLine_def)
  ultimately have "fileLines (clientKeyLine h n) = [?l]" using fileLines_line [of ?l "[]"] by metis
  then show ?thesis using assms(5) by (simp add: loadAllowedKeys_def fileLines_append [OF assms(1)])
qed

text \<open>What \<open>registerKey\<close> does to a valid key.\<close>

lemma registerKey_ok:
  assumes "registerKey io path h n st = ((code, hdrs, resp), st')"
  shows "code = 200 \<longleftrightarrow> rawOfHex h \<notin> set (ac_keys (ka_store st)) \<and> (path \<noteq> [] \<longrightarrow> wo_open io \<and> wo_good io)"
    and "ka_store st' = (if code = 200 then storeKey h n (ka_store st) else ka_store st)"
    and "ka_file st' = (if path \<noteq> [] \<and> rawOfHex h \<notin> set (ac_keys (ka_store st)) \<and> wo_open io
      then appendTo io (clientKeyLine h n) (ka_file st) else ka_file st)"
    and "code = 200 \<or> code = 500 \<or> ka_file st' = ka_file st"
  using assms by (auto simp: registerKey_def Let_def split: if_splits)

lemma storeKey_maps:
  "set (ac_keys (storeKey h n s)) = insert (rawOfHex h) (set (ac_keys s))"
  "map_of (ac_nicknames (storeKey h n s)) = (if n = [] then map_of (ac_nicknames s) else (map_of (ac_nicknames s))(h \<mapsto> n))"
  by (simp_all add: storeKey_def update_conv')

lemma addKeyLine_store:
  assumes "list_all hexCharLower h" and "length h = 64" and "nick_ok n" and "same_store a b"
  shows "same_store (storeKey h n a)
    (addKeyLine (h @ (if n \<noteq> [] then SP # n else [])) b)"
proof -
  have "hexEncode (rawOfHex h) = h" by (rule hexEncode_rawOfHex [OF assms(1)]) (simp add: assms(2))
  then show ?thesis
    using assms(4) by (simp add: storeKey_def addKeyLine_def parseKeyLine_keyLine [OF assms(1-3)] same_store_def update_conv')
qed

section \<open>Property: registration\<close>

text \<open>
  C26.  Registering a client.  A request is answered with 200 exactly if the rate limiter admits it, its key is 64
  lowercase hexadecimal digits and new, its nickname is allowed, and, when there is a keys file, this opened and the
  stream was good after the write.  Then its key is allowed, under the id that is its hexadecimal form, and
  no other key or nickname is added, dropped or changed.  The file is changed only by appending what the disk kept of
  the line of this key, and only when the answer is 200 or a write failed (500).  A restart keeps the registration,
  loading the file gives the keys and nicknames in memory, provided that the whole line reached the file, the
  file held what the memory held and ended with a line feed before, and the nickname has no blank at its ends: the
  code ensures none of these (defects).  Any other answer leaves the allowed keys and nicknames alone.
\<close>

theorem register_persists:
  assumes "clientRegister now ip io path body st = ((code, hdrs, resp), st')"
    and "h = jsonGetString body ''pubkey''" and "n = jsonGetString body ''nickname''"
  shows "(code = 200 \<longleftrightarrow> fst (rateTryAcquire now ip (ka_limiter st)) \<and> length h = 64 \<and> list_all hexCharLower h \<and>
      \<not> badNickname n \<and> rawOfHex h \<notin> set (ac_keys (ka_store st)) \<and> (path \<noteq> [] \<longrightarrow> wo_open io \<and> wo_good io)) \<and>
    (code = 200 \<longrightarrow> hexEncode (rawOfHex h) = h \<and>
      set (ac_keys (ka_store st')) = insert (rawOfHex h) (set (ac_keys (ka_store st))) \<and>
      map_of (ac_nicknames (ka_store st')) =
        (if n = [] then map_of (ac_nicknames (ka_store st)) else (map_of (ac_nicknames (ka_store st))) (h \<mapsto> n)) \<and>
      ka_file st' = (if path = [] then ka_file st else appendTo io (clientKeyLine h n) (ka_file st))) \<and>
    (code = 200 \<and> path \<noteq> [] \<and> length (clientKeyLine h n) \<le> wo_kept io \<and> keys_persisted path st \<and>
      (n = [] \<or> hd n \<noteq> SP \<and> last n \<noteq> SP) \<longrightarrow> keys_persisted path st') \<and>
    (code \<noteq> 200 \<longrightarrow> ka_store st' = ka_store st) \<and>
    (code \<noteq> 200 \<longrightarrow> ka_file st' = ka_file st \<or>
       code = 500 \<and> path \<noteq> [] \<and> ka_file st' = appendTo io (clientKeyLine h n) (ka_file st))"
proof -
  obtain ok lim where r: "rateTryAcquire now ip (ka_limiter st) = (ok, lim)" by (cases "rateTryAcquire now ip (ka_limiter st)")
  let ?st = "st\<lparr> ka_limiter := lim \<rparr>"
  define good where "good \<longleftrightarrow> ok \<and> length h = 64 \<and> list_all hexCharLower h \<and> \<not> badNickname n"
  have reg: "clientRegister now ip io path body st = (if good then registerKey io path h n ?st else clientRegister now ip io path body st)"
    by (simp add: clientRegister_def Let_def r assms(2,3) good_def badNickname_def)
  show ?thesis
  proof (cases good)
    case False
    then have "code \<noteq> 200" "ka_store st' = ka_store st" "ka_file st' = ka_file st"
      using assms(1) unfolding clientRegister_def Let_def r assms(2,3) good_def badNickname_def
      by (auto simp: rateExceeded_def split: if_splits)
    then show ?thesis using False unfolding good_def r by auto
  next
    case True
    then have h: "list_all hexCharLower h" "length h = 64" and bad: "\<not> badNickname n" and okr: ok
      by (simp_all add: good_def)
    have rk: "registerKey io path h n ?st = ((code, hdrs, resp), st')" using reg assms(1) True by simp
    note ok = registerKey_ok [OF rk]
    have hex: "hexEncode (rawOfHex h) = h" by (rule hexEncode_rawOfHex [OF h(1)]) (simp add: h(2))
    have kept: "keys_persisted path st'"
      if p: "code = 200" "path \<noteq> []" "length (clientKeyLine h n) \<le> wo_kept io" "keys_persisted path st"
        "n = [] \<or> hd n \<noteq> SP \<and> last n \<noteq> SP"
    proof -
      have nick: "nick_ok n" using bad p(5) by (simp add: nick_ok_def)
      obtain c where c: "ka_file st = Some c" "c = [] \<or> last c = LF" "same_store (ka_store st) (loadAllowedKeys (\<lambda>_. Some c) path)"
        using p(4) by (auto simp: keys_persisted_def)
      have f: "ka_file st' = Some (c @ clientKeyLine h n)" using ok(1,3) p(1-3) c(1) by (simp add: appendTo_def)
      have st': "ka_store st' = storeKey h n (ka_store st)" using ok(2) p(1) by simp
      have "same_store (ka_store st') (loadAllowedKeys (\<lambda>_. Some (c @ clientKeyLine h n)) path)"
        unfolding loadAllowedKeys_append [OF c(2) h nick p(2)] st' by (rule addKeyLine_store [OF h nick c(3)])
      with f show ?thesis unfolding keys_persisted_def by (intro exI [of _ "c @ clientKeyLine h n"]) (simp add: clientKeyLine_def)
    qed
    show ?thesis using ok hex h bad okr kept by (auto simp: storeKey_maps r)
  qed
qed

definition demo_key_body :: string where
  "demo_key_body = ''{\"pubkey\":\"'' @ replicate 64 (CHR ''0'') @ ''\"}''"

definition demo_key_admin :: KeyAdmin where
  "demo_key_admin = \<lparr> ka_limiter = newRateLimiter 0, ka_store = AllowedClients0, ka_file = Some [] \<rparr>"

lemma demo_key_line: "length (clientKeyLine (replicate 64 (CHR ''0'')) []) = 65"
  by (simp add: clientKeyLine_def)

lemma demo_key_fields:
  "jsonGetString demo_key_body ''pubkey'' = replicate 64 (CHR ''0'')" "jsonGetString demo_key_body ''nickname'' = []"
proof -
  let ?h = "replicate 64 (CHR ''0'')"
  have "demo_key_body = CHR ''{'' # CHR 0x22 # ''pubkey'' @ CHR 0x22 # CHR '':'' # CHR 0x22 # ?h @ CHR 0x22 # ''}''"
    by (simp add: demo_key_body_def)
  then show "jsonGetString demo_key_body ''pubkey'' = ?h"
    using jsonGetString_first [of ?h "''pubkey''" "''}''"] by simp
  have h: "?h = CHR ''0'' # replicate 63 (CHR ''0'')" by (simp flip: replicate_Suc)
  have "find_str (CHR 0x22 # ''nickname'' @ [CHR 0x22]) demo_key_body = None"
    unfolding demo_key_body_def h by (simp add: find_str_drop_prefix)
  then show "jsonGetString demo_key_body ''nickname'' = []"
    unfolding jsonGetString_def by (subst jsonSearch.simps) simp
qed

theorem register_persists_witness:
  "\<exists>hdrs resp st'. clientRegister 0 ''1.2.3.4'' \<lparr> wo_open = True, wo_good = True, wo_kept = 200 \<rparr> ''keys'' demo_key_body demo_key_admin
      = ((200, hdrs, resp), st') \<and> keys_persisted ''keys'' st' \<and> set (ac_keys (ka_store st')) = {replicate 32 0}"
proof -
  let ?h = "replicate 64 (CHR ''0'')"
  let ?io = "\<lparr> wo_open = True, wo_good = True, wo_kept = 200 \<rparr>"
  obtain a st' where a: "clientRegister 0 ''1.2.3.4'' ?io ''keys'' demo_key_body demo_key_admin = (a, st')"
    by (cases "clientRegister 0 ''1.2.3.4'' ?io ''keys'' demo_key_body demo_key_admin") blast
  obtain code hdrs resp where "a = (code, hdrs, resp)" by (cases a)
  with a have r: "clientRegister 0 ''1.2.3.4'' ?io ''keys'' demo_key_body demo_key_admin = ((code, hdrs, resp), st')" by simp
  have "hexEncode (replicate 32 0) = ?h" by code_simp
  then have raw: "rawOfHex ?h = replicate 32 0" by (metis rawOfHex_hexEncode)
  have hex: "list_all hexCharLower ?h" by (simp add: list_all_iff hexCharLower_def in_range_def)
  have "code = 200"
    using r hex by (simp add: clientRegister_def demo_key_fields demo_key_admin_def rateTryAcquire_def newRateLimiter_def Let_def
        registerKey_def AllowedClients0_def badNickname_def)
  moreover have "keys_persisted ''keys'' demo_key_admin"
    by (simp add: keys_persisted_def demo_key_admin_def loadAllowedKeys_def same_store_def)
  moreover have "set (ac_keys (ka_store demo_key_admin)) = {}" by (simp add: demo_key_admin_def AllowedClients0_def)
  ultimately show ?thesis
    using register_persists [OF r refl refl] r raw by (auto simp: demo_key_fields demo_key_line)
qed

section \<open>Lemmas: the file of hidden entities\<close>

lemma map_option_plus_0 [simp]: "map_option ((+) (0 :: nat)) x = x"
  by (cases x) simp_all

lemma find_ch_drop_prefix: "c \<notin> set w \<Longrightarrow> find_ch c (w @ s) = map_option (\<lambda>i. length w + i) (find_ch c s)"
proof (induction w)
  case (Cons a w)
  have "map_option Suc (map_option (\<lambda>i. length w + i) x) = map_option (\<lambda>i. length (a # w) + i) x" for x :: "nat option"
    by (cases x) simp_all
  with Cons show ?case by auto
qed simp

lemma join_Cons: "join_with sep (x # xs) = x @ (if xs = [] then [] else sep @ join_with sep xs)"
  by (cases xs) simp_all

lemma quotedTexts_skip: "DQ \<notin> set w \<Longrightarrow> quotedTexts (w @ s) = quotedTexts s"
proof -
  assume "DQ \<notin> set w"
  then have f: "find_ch DQ (w @ s) = map_option (\<lambda>i. length w + i) (find_ch DQ s)" by (rule find_ch_drop_prefix)
  show ?thesis
  proof (cases "find_ch DQ s")
    case None
    with f have "find_ch DQ (w @ s) = None" by (simp only: option.map)
    with None show ?thesis by (subst (1 2) quotedTexts.simps) (simp only: option.case)
  next
    case (Some q)
    with f show ?thesis by (subst (1 2) quotedTexts.simps) (simp add: f del: find_ch_None split: option.split)
  qed
qed

lemma quotedTexts_none: "DQ \<notin> set w \<Longrightarrow> quotedTexts w = []"
  using quotedTexts_skip [of w "[]"] by (simp add: quotedTexts.simps [of "[]"])

lemma quotedTexts_text: "DQ \<notin> set c \<Longrightarrow> quotedTexts (DQ # c @ DQ # r) = c # quotedTexts r"
  by (subst quotedTexts.simps) (simp add: find_ch_append)

definition clientRow :: "string \<Rightarrow> string" where
  "clientRow c = LF # ''    '' @ DQ # c @ [DQ]"

lemma quotedTexts_row: "DQ \<notin> set c \<Longrightarrow> quotedTexts (clientRow c @ s) = c # quotedTexts s"
  using quotedTexts_skip [of "LF # ''    ''" "DQ # c @ DQ # s"] by (simp add: clientRow_def quotedTexts_text)

lemma quotedTexts_rows:
  assumes "\<forall>c \<in> set cs. DQ \<notin> set c" and "DQ \<notin> set tail"
  shows "quotedTexts (join_with '','' (map clientRow cs) @ tail) = cs"
  using assms(1)
proof (induction cs)
  case Nil
  then show ?case using quotedTexts_none [OF assms(2)] by simp
next
  case (Cons c cs)
  have "quotedTexts ('','' @ join_with '','' (map clientRow cs) @ tail) = quotedTexts (join_with '','' (map clientRow cs) @ tail)"
    by (rule quotedTexts_skip) simp
  with Cons quotedTexts_none [OF assms(2)] show ?case by (simp add: join_Cons quotedTexts_row)
qed

text \<open>A key that starts with \<open>h\<close> is not found in the rows of clients.\<close>

lemma find_str_mismatch: "d \<noteq> e \<Longrightarrow> find_str (DQ # d # p) (DQ # e # s) = map_option Suc (find_str (DQ # d # p) (e # s))"
  by simp

lemma find_str_row:
  assumes "hexId c" and "e \<noteq> CHR ''h''"
  shows "find_str (DQ # CHR ''h'' # p) (clientRow c @ e # s) =
    map_option (\<lambda>i. length (clientRow c) + i) (find_str (DQ # CHR ''h'' # p) (e # s))"
proof -
  let ?p = "DQ # CHR ''h'' # p"
  have hex: "DQ \<notin> set c" "CHR ''h'' \<notin> set c" "c \<noteq> []" using assms(1) by (auto simp: hexId_def)
  then obtain d c' where c: "c = d # c'" "d \<noteq> CHR ''h''" by (cases c) auto
  have "find_str ?p (DQ # c @ DQ # e # s) = map_option (\<lambda>i. Suc (length c + Suc i)) (find_str ?p (e # s))"
    using find_str_drop_prefix [of ?p c "DQ # e # s"] hex(1) assms(2) c
    by (cases "find_str ?p (e # s)") (simp_all del: find_str.simps add: find_str_mismatch)
  then show ?thesis
    using find_str_drop_prefix [of ?p "LF # ''    ''" "DQ # c @ DQ # e # s"]
    by (cases "find_str ?p (e # s)") (simp_all add: clientRow_def del: find_str.simps)
qed

lemma find_str_rows:
  assumes "\<forall>c \<in> set cs. hexId c"
  shows "find_str (DQ # CHR ''h'' # p) (join_with '','' (map clientRow cs) @ LF # r) =
    map_option (\<lambda>i. length (join_with '','' (map clientRow cs)) + i) (find_str (DQ # CHR ''h'' # p) (LF # r))"
  using assms
proof (induction cs)
  case Nil
  show ?case by (simp only: list.map join_with.simps append_Nil list.size map_option_plus_0)
next
  case (Cons c cs)
  let ?p = "DQ # CHR ''h'' # p" and ?rest = "join_with '','' (map clientRow cs) @ LF # r"
  have c: "hexId c" using Cons.prems by simp
  show ?case
  proof (cases "cs = []")
    case True
    then show ?thesis using find_str_row [OF c, of LF p r] by simp
  next
    case False
    have "find_str ?p (CHR '','' # ?rest) = map_option Suc (find_str ?p ?rest)" by simp
    with find_str_row [OF c, of "CHR '',''" p ?rest] Cons False show ?thesis
      by (cases "find_str ?p (LF # r)") (simp_all add: join_Cons del: find_str.simps)
  qed
qed

text \<open>The objects of interfaces.\<close>

definition ifaceObj :: "string \<times> string \<Rightarrow> string" where
  "ifaceObj p = ''{\"client_id\":\"'' @ fst p @ ''\",\"iface\":\"'' @ snd p @ ''\"}''"

definition ifaceRow :: "string \<times> string \<Rightarrow> string" where
  "ifaceRow p = LF # ''    '' @ ifaceObj p"

definition iface_ok :: "string \<times> string \<Rightarrow> bool" where
  "iface_ok p \<longleftrightarrow> hexId (fst p) \<and> snd p \<noteq> [] \<and> plain_text (snd p) \<and> CHR 0x7D \<notin> set (snd p)"

lemma hexId_chars:
  assumes "hexId c"
  shows "DQ \<notin> set c" "CHR 0x7B \<notin> set c" "CHR 0x7D \<notin> set c" "CHR '']'' \<notin> set c" "plain_text c" "length c = 64"
  using assms by (auto simp: hexId_def plain_text_def code_of_def)

lemma extractVal_at:
  assumes "find_str (DQ # key @ [DQ]) obj = Some (length pre)" and "obj = pre @ DQ # key @ DQ # CHR '':'' # DQ # v @ DQ # r"
    and "DQ \<notin> set v"
  shows "extractVal obj key = v"
proof -
  have "drop (length pre + length key + 2) obj = CHR '':'' # DQ # v @ DQ # r" by (simp add: assms(2))
  then show ?thesis by (simp add: extractVal_def assms(1) Let_def find_ch_append assms(3))
qed

lemma extract_ifaceObj:
  assumes "iface_ok p"
  shows "extractVal (ifaceObj p) ''client_id'' = fst p" "extractVal (ifaceObj p) ''iface'' = snd p"
proof -
  obtain c i where p: "p = (c, i)" by (cases p)
  have c: "DQ \<notin> set c" using assms hexId_chars by (simp add: iface_ok_def p)
  have "c \<noteq> []" "CHR ''i'' \<notin> set c" using assms by (auto simp: iface_ok_def p hexId_def)
  then have no_i: "\<not> starts_with (CHR ''i'' # q) (c @ z)" for q z by (cases c) auto
  have i: "DQ \<notin> set i" using assms by (auto simp: iface_ok_def p plain_text_def)
  show "extractVal (ifaceObj p) ''client_id'' = fst p"
  proof (rule extractVal_at)
    show "find_str (DQ # ''client_id'' @ [DQ]) (ifaceObj p) = Some (length ''{'')"
      by (simp add: ifaceObj_def)
    show "ifaceObj p = ''{'' @ DQ # ''client_id'' @ DQ # CHR '':'' # DQ # fst p @ DQ # '',\"iface\":\"'' @ snd p @ ''\"}''"
      by (simp add: ifaceObj_def)
  qed (simp add: p c)
  show "extractVal (ifaceObj p) ''iface'' = snd p"
  proof (rule extractVal_at)
    show "find_str (DQ # ''iface'' @ [DQ]) (ifaceObj p) = Some (length (''{\"client_id\":\"'' @ fst p @ ''\",''))"
      using find_str_drop_prefix [of "DQ # ''iface'' @ [DQ]" "c" "''\",\"iface\":\"'' @ i @ ''\"}''"] c no_i
      by (simp add: ifaceObj_def p)
    show "ifaceObj p = (''{\"client_id\":\"'' @ fst p @ ''\",'') @ DQ # ''iface'' @ DQ # CHR '':'' # DQ # snd p @ DQ # ''}''"
      by (simp add: ifaceObj_def)
  qed (simp add: p i)
qed

lemma loadObjects_skip: "d \<noteq> CHR 0x7B \<Longrightarrow> loadObjects (Suc n) (d # s) = loadObjects n s"
  by (cases "n = 0"; subst (1 2) loadObjects.simps)
    (auto simp del: find_ch_None simp add: Let_def split: option.split)

lemma loadObjects_row:
  assumes "iface_ok p"
  shows "loadObjects (length (ifaceRow p) + n) (ifaceRow p @ s) = p # loadObjects n s"
proof -
  have c: "CHR 0x7D \<notin> set (fst p)" "CHR 0x7D \<notin> set (snd p)" "length (fst p) = 64" "snd p \<noteq> []"
    using assms hexId_chars by (auto simp: iface_ok_def)
  let ?body = "''{\"client_id\":\"'' @ fst p @ ''\",\"iface\":\"'' @ snd p @ ''\"''"
  have obj: "ifaceObj p = ?body @ [CHR 0x7D]" by (simp add: ifaceObj_def)
  have "CHR 0x7D \<notin> set ?body" using c by simp
  moreover have "ifaceObj p @ s = ?body @ CHR 0x7D # s" by (simp add: ifaceObj_def)
  ultimately have k: "find_ch (CHR 0x7D) (ifaceObj p @ s) = Some (length ?body)" using find_ch_append by metis
  have row: "loadObjects (length (ifaceObj p) + n) (ifaceObj p @ s) = p # loadObjects n s"
  proof -
    have ob: "find_ch (CHR 0x7B) (ifaceObj p @ s) = Some 0" by (simp add: ifaceObj_def)
    have len: "length (ifaceObj p) = length ?body + 1" by (simp only: obj length_append list.size)
    have "take (length ?body + 1) (ifaceObj p @ s) = ifaceObj p" "drop (length ?body + 1) (ifaceObj p @ s) = s"
      unfolding len [symmetric] by simp_all
    then show ?thesis
      by (subst loadObjects.simps) (simp add: ob k len extract_ifaceObj [OF assms] c Let_def del: find_ch.simps)
  qed
  have "loadObjects (length (ifaceRow p) + n) (ifaceRow p @ s) = loadObjects (length (ifaceObj p) + n) (ifaceObj p @ s)"
    by (simp add: ifaceRow_def loadObjects_skip)
  with row show ?thesis by simp
qed

lemma loadObjects_rows:
  assumes "\<forall>p \<in> set ps. iface_ok p" and "CHR 0x7B \<notin> set tail"
  shows "loadObjects (length (join_with '','' (map ifaceRow ps)) + n) (join_with '','' (map ifaceRow ps) @ tail) = ps"
proof -
  have "find_ch (CHR 0x7B) tail = None" using assms(2) by simp
  then have none: "loadObjects n tail = []" by (subst loadObjects.simps) (simp only: option.case if_cancel)
  show ?thesis using assms(1)
  proof (induction ps)
    case Nil
    then show ?case by (simp add: none)
  next
    case (Cons p ps)
    show ?case
    proof (cases "ps = []")
      case True
      then show ?thesis using loadObjects_row [of p n tail] Cons.prems none by simp
    next
      case False
      let ?j = "join_with '','' (map ifaceRow ps)"
      have "loadObjects (length (ifaceRow p) + Suc (length ?j + n)) (ifaceRow p @ CHR '','' # ?j @ tail) = p # ps"
        using loadObjects_row [of p "Suc (length ?j + n)" "CHR '','' # ?j @ tail"] Cons by (simp add: loadObjects_skip)
      with False show ?thesis by (simp add: join_Cons add.assoc)
    qed
  qed
qed

section \<open>Properties: hidden entities\<close>

text \<open>A store whose names survive the file: identifiers of clients, and interface names without quotes, backslashes,
  control characters and closing braces.\<close>

definition hidden_ok :: "HiddenEntitiesStore \<Rightarrow> bool" where
  "hidden_ok h \<longleftrightarrow> distinct (hiddenClients h) \<and> distinct (hiddenIfaces h) \<and> (\<forall>c \<in> set (hiddenClients h). hexId c) \<and>
     (\<forall>p \<in> set (hiddenIfaces h). iface_ok p)"

lemma hiddenText_parts:
  assumes "hidden_ok h"
  shows "hiddenText h = (''{'' @ LF # ''  \"hidden_clients\": ['') @ join_with '','' (map clientRow (hiddenClients h)) @
    (LF # ''  ],'' @ LF # ''  \"hidden_interfaces\": ['') @ join_with '','' (map ifaceRow (hiddenIfaces h)) @
    (LF # ''  ]'' @ LF # ''}'' @ [LF])"
proof -
  have c: "map (\<lambda>r. LF # SP # SP # SP # SP # r) (map jstr (hiddenClients h)) = map clientRow (hiddenClients h)"
    using assms hexId_chars(5) by (simp add: hidden_ok_def jstr_def clientRow_def jsonEsc_plain_text)
  have i: "map (\<lambda>r. LF # SP # SP # SP # SP # r) (map (\<lambda>(c, i). rowObj [(''client_id'', jstr c), (''iface'', jstr i)]) (hiddenIfaces h))
      = map ifaceRow (hiddenIfaces h)"
    using assms hexId_chars(5)
    by (auto simp: hidden_ok_def jstr_def ifaceRow_def ifaceObj_def jsonEsc_plain_text iface_ok_def rowObj_def)
  show ?thesis
    by (simp add: hiddenText_def lineDoc_def rowArr_def c i del: map_map)
qed

lemma load_hiddenText:
  assumes "hidden_ok h"
  shows "loadClients (hiddenText h) = hiddenClients h" "loadIfaces (hiddenText h) = hiddenIfaces h"
proof -
  let ?C = "join_with '','' (map clientRow (hiddenClients h))" and ?I = "join_with '','' (map ifaceRow (hiddenIfaces h))"
  let ?T = "LF # ''  ]'' @ LF # ''}'' @ [LF]"
  have ids: "\<forall>c \<in> set (hiddenClients h). hexId c" "\<forall>p \<in> set (hiddenIfaces h). iface_ok p"
    using assms by (simp_all add: hidden_ok_def)
  note parts = hiddenText_parts [OF assms]
  have join_set: "x \<in> set (join_with '','' rs) \<Longrightarrow> x = CHR '','' \<or> (\<exists>r \<in> set rs. x \<in> set r)" for x rs
    by (induction rs) (auto simp: join_Cons split: if_splits)
  have C: "CHR '']'' \<notin> set ?C" using join_set ids(1) hexId_chars(4) by (fastforce simp: clientRow_def)
  have "find_ch CHR '']'' (CHR ''['' # ?C @ LF # ''  ],'' @ s) = Some (length ?C + 4)" for s
    using find_ch_append [of "CHR '']''" "CHR ''['' # ?C @ LF # ''  ''" "'','' @ s"] C by simp
  then show "loadClients (hiddenText h) = hiddenClients h"
    using quotedTexts_rows [of "hiddenClients h" "LF # ''  ''"] ids(1) hexId_chars(1,6) assms
    by (simp add: loadClients_def parts hidden_ok_def)
  have key: "find_str (DQ # ''hidden_interfaces'' @ [DQ]) (hiddenText h) = Some (length ?C + 31)"
    using find_str_rows [OF ids(1), of "''idden_interfaces'' @ [DQ]"]
    by (simp add: parts)
  define pre where "pre = ''{'' @ LF # ''  \"hidden_clients\": ['' @ ?C @ LF # ''  ],'' @ LF # ''  ''"
  have pre: "length pre = length ?C + 31" by (simp add: pre_def)
  have parts': "hiddenText h = pre @ DQ # ''hidden_interfaces'' @ DQ # '': ['' @ ?I @ ?T" by (simp add: parts pre_def)
  have b: "find_ch CHR ''['' (drop (length ?C + 31) (hiddenText h)) = Some 21" by (simp add: parts' pre [symmetric])
  have "length ?C + 31 + 21 + 1 = length pre + 22" using pre by simp
  then have t: "drop (length ?C + 31 + 21 + 1) (hiddenText h) = ?I @ ?T" by (simp only: parts') simp
  have r: "rfind_ch CHR '']'' (?I @ ?T) = Some (length ?I + 3)"
    using rfind_ch_append [of "CHR '']''" "LF # ''}'' @ [LF]" "?I @ LF # ''  ''"] by simp
  have o: "loadObjects (length ?I + 3) (?I @ ?T) = hiddenIfaces h" by (rule loadObjects_rows [OF ids(2)]) simp
  show "loadIfaces (hiddenText h) = hiddenIfaces h"
    using assms unfolding loadIfaces_def key option.case b Let_def t r o by (simp add: hidden_ok_def)
qed

definition hidden_persisted :: "string \<Rightarrow> HiddenAdmin \<Rightarrow> bool" where
  "hidden_persisted path st \<longleftrightarrow> hidden_ok (ha_store st) \<and> loadHiddenEntities (\<lambda>_. ha_file st) path = ha_store st"

lemma saved_persisted:
  assumes "hidden_ok h" and "path \<noteq> []" and "wo_open io" and "length (hiddenText h) \<le> wo_kept io"
    and "saveAndAnswer io path h b st = (answer, st')"
  shows "answer = hiddenAnswer b \<and> ha_store st' = h \<and> hidden_persisted path st'"
  using assms load_hiddenText [OF assms(1)]
  by (auto simp: saveAndAnswer_def saveHiddenEntities_def hidden_persisted_def loadHiddenEntities_def)

text \<open>
  What a request to hide or unhide does, with \<open>valid\<close> its check and \<open>h\<close> the store after the change: the change is made
  exactly if the request is valid, a valid request is answered with 200 unless the file does not open (500), and the
  file then holds what the disk kept of the new text.  When it kept all of it and the loader undoes the names, a
  restart gives the store that is in memory.
\<close>

definition hide_effect ::
  "WriteOutcome \<Rightarrow> string \<Rightarrow> bool \<Rightarrow> HiddenEntitiesStore \<Rightarrow> HiddenAdmin \<Rightarrow> nat \<Rightarrow> HiddenAdmin \<Rightarrow> bool" where
  "hide_effect io path valid h st code st' \<longleftrightarrow>
     code = (if \<not> valid then 400 else if path \<noteq> [] \<and> \<not> wo_open io then 500 else 200) \<and>
     ha_store st' = (if valid then h else ha_store st) \<and>
     ha_file st' = (if valid \<and> path \<noteq> [] \<and> wo_open io then Some (take (wo_kept io) (hiddenText h)) else ha_file st) \<and>
     (code = 200 \<and> path \<noteq> [] \<and> length (hiddenText h) \<le> wo_kept io \<and> hidden_ok h \<longrightarrow> hidden_persisted path st')"

lemma saveAndAnswer_effect:
  assumes "saveAndAnswer io path h b st = ((code, hdrs, resp), st')"
  shows "hide_effect io path True h st code st'"
proof -
  have eff: "code = (if path \<noteq> [] \<and> \<not> wo_open io then 500 else 200)" "ha_store st' = h"
    "ha_file st' = (if path \<noteq> [] \<and> wo_open io then Some (take (wo_kept io) (hiddenText h)) else ha_file st)"
    using assms by (auto simp: saveAndAnswer_def saveHiddenEntities_def hiddenAnswer_def split: if_splits)
  have "hidden_persisted path st'"
    if "code = 200" "path \<noteq> []" "length (hiddenText h) \<le> wo_kept io" "hidden_ok h"
    using saved_persisted [OF that(4,2) _ that(3) assms] that(1,2) eff(1) by (auto split: if_splits)
  with eff show ?thesis by (simp add: hide_effect_def)
qed

lemma refused_effect: "\<not> valid \<Longrightarrow> hide_effect io path valid h st 400 st"
  by (simp add: hide_effect_def)

definition valid_action :: "string \<Rightarrow> bool" where
  "valid_action a \<longleftrightarrow> a = ''hide'' \<or> a = ''unhide''"

definition hide_or_show :: "bool \<Rightarrow> 'a \<Rightarrow> 'a list \<Rightarrow> 'a list" where
  "hide_or_show hide x xs = (if hide then List.insert x xs else removeAll x xs)"

lemma hide_or_show_set [simp]: "set (hide_or_show hide x xs) = (if hide then insert x (set xs) else set xs - {x})"
  by (simp add: hide_or_show_def)

lemma hide_or_show_distinct [simp]: "distinct xs \<Longrightarrow> distinct (hide_or_show hide x xs)"
  by (simp add: hide_or_show_def distinct_removeAll)

text \<open>
  C27.  Hiding and unhiding a client, and an interface of a client.  A request is refused (400) without any change
  unless its id is 64 lowercase hexadecimal digits, its action is known and, for an interface, its name has 1 to 64
  characters.  Otherwise exactly the named client, or the named interface of the named client, is now hidden or shown
  as the action says; the answer is 200 unless the file does not open, then it is 500, and the change stays in memory
  only (a defect).  After 200 the file holds what the disk kept of the new text, and loading it gives the store that
  is in memory, provided that the disk kept all of it (the code does not test the write, a defect), and that the
  interface names, old and new, are free of quotes, backslashes, control characters and closing braces, which the loader
  does not undo (a defect).
\<close>

theorem hidden_persists:
  assumes "hideClient io path body st = ((code1, hdrs1, resp1), st1)" and "hideInterface io path body st = ((code2, hdrs2, resp2), st2)"
    and "c = jsonGetString body ''client_id''" and "i = jsonGetString body ''iface''"
    and "action = jsonGetString body ''action''" and "hide \<longleftrightarrow> action = ''hide''"
  shows "(\<exists>h1. hide_effect io path (hexId c \<and> valid_action action) h1 st code1 st1 \<and>
      hiddenIfaces h1 = hiddenIfaces (ha_store st) \<and>
      set (hiddenClients h1) = (if hide then insert c (set (hiddenClients (ha_store st))) else set (hiddenClients (ha_store st)) - {c}) \<and>
      (hexId c \<and> hidden_ok (ha_store st) \<longrightarrow> hidden_ok h1)) \<and>
    (\<exists>h2. hide_effect io path (hexId c \<and> i \<noteq> [] \<and> length i \<le> 64 \<and> valid_action action) h2 st code2 st2 \<and>
      hiddenClients h2 = hiddenClients (ha_store st) \<and>
      set (hiddenIfaces h2) = (if hide then insert (c, i) (set (hiddenIfaces (ha_store st))) else set (hiddenIfaces (ha_store st)) - {(c, i)}) \<and>
      (iface_ok (c, i) \<and> hidden_ok (ha_store st) \<longrightarrow> hidden_ok h2))"
proof (intro conjI)
  let ?h = "ha_store st"
  let ?h1 = "?h\<lparr> hiddenClients := hide_or_show hide c (hiddenClients ?h) \<rparr>"
  let ?h2 = "?h\<lparr> hiddenIfaces := hide_or_show hide (c, i) (hiddenIfaces ?h) \<rparr>"
  have 1: "hide_effect io path (hexId c \<and> valid_action action) ?h1 st code1 st1"
  proof (cases "hexId c \<and> valid_action action")
    case True
    then have "\<exists>b. saveAndAnswer io path ?h1 b st = ((code1, hdrs1, resp1), st1)"
      using assms(1) by (auto simp: hideClient_def Let_def hide_or_show_def valid_action_def assms(3-6) split: if_splits)
    then show ?thesis using True saveAndAnswer_effect by auto
  next
    case False
    then have "code1 = 400" "st1 = st"
      using assms(1) by (auto simp: hideClient_def Let_def valid_action_def assms(3-6) split: if_splits)
    then show ?thesis using refused_effect [OF False] by simp
  qed
  have ok1: "hexId c \<and> hidden_ok ?h \<longrightarrow> hidden_ok ?h1" by (auto simp: hidden_ok_def)
  show "\<exists>h1. hide_effect io path (hexId c \<and> valid_action action) h1 st code1 st1 \<and> hiddenIfaces h1 = hiddenIfaces ?h \<and>
      set (hiddenClients h1) = (if hide then insert c (set (hiddenClients ?h)) else set (hiddenClients ?h) - {c}) \<and>
      (hexId c \<and> hidden_ok ?h \<longrightarrow> hidden_ok h1)"
    by (rule exI [of _ ?h1]) (use 1 ok1 in simp)
  let ?valid2 = "hexId c \<and> i \<noteq> [] \<and> length i \<le> 64 \<and> valid_action action"
  have 2: "hide_effect io path ?valid2 ?h2 st code2 st2"
  proof (cases ?valid2)
    case True
    then have "\<exists>b. saveAndAnswer io path ?h2 b st = ((code2, hdrs2, resp2), st2)"
      using assms(2)
      by (auto simp: hideInterface_def Let_def hide_or_show_def valid_action_def kMaxIfaceLabelLen_def assms(3-6) split: if_splits)
    then show ?thesis using True saveAndAnswer_effect by auto
  next
    case False
    then have "code2 = 400" "st2 = st"
      using assms(2)
      by (auto simp: hideInterface_def Let_def valid_action_def kMaxIfaceLabelLen_def not_le assms(3-6) split: if_splits)
    then show ?thesis using refused_effect [OF False] by simp
  qed
  have ok2: "iface_ok (c, i) \<and> hidden_ok ?h \<longrightarrow> hidden_ok ?h2" by (auto simp: hidden_ok_def)
  show "\<exists>h2. hide_effect io path ?valid2 h2 st code2 st2 \<and> hiddenClients h2 = hiddenClients ?h \<and>
      set (hiddenIfaces h2) = (if hide then insert (c, i) (set (hiddenIfaces ?h)) else set (hiddenIfaces ?h) - {(c, i)}) \<and>
      (iface_ok (c, i) \<and> hidden_ok ?h \<longrightarrow> hidden_ok h2)"
    by (rule exI [of _ ?h2]) (use 2 ok2 in simp)
qed

definition demo_id :: string where "demo_id = replicate 64 (CHR ''0'')"

definition demo_hide_body :: string where
  "demo_hide_body = ''{\"action\":\"hide\",\"iface\":\"eth0\",\"client_id\":\"'' @ demo_id @ ''\"}''"

lemma demo_hide_fields:
  "jsonGetString demo_hide_body ''client_id'' = demo_id" "jsonGetString demo_hide_body ''iface'' = ''eth0''"
  "jsonGetString demo_hide_body ''action'' = ''hide''"
proof -
  have plain: "CHR 0x22 \<notin> set demo_id" "CHR 0x5C \<notin> set demo_id" by (simp_all add: demo_id_def)
  show "jsonGetString demo_hide_body ''client_id'' = demo_id" "jsonGetString demo_hide_body ''iface'' = ''eth0''"
    "jsonGetString demo_hide_body ''action'' = ''hide''"
    unfolding jsonGetString_def demo_hide_body_def
    by (subst jsonSearch.simps, simp add: jsonChars_plain [OF plain, of "''}''", simplified] jsonUnescape_def)+
qed

definition demo_hidden :: HiddenAdmin where
  "demo_hidden = \<lparr> ha_store = \<lparr> hiddenClients = [], hiddenIfaces = [] \<rparr>, ha_file = None \<rparr>"

definition demo_hidden_io :: WriteOutcome where
  "demo_hidden_io = \<lparr> wo_open = True, wo_good = True,
     wo_kept = length (hiddenText \<lparr> hiddenClients = [demo_id], hiddenIfaces = [] \<rparr>) +
       length (hiddenText \<lparr> hiddenClients = [], hiddenIfaces = [(demo_id, ''eth0'')] \<rparr>) \<rparr>"

theorem hidden_persists_witness:
  "\<exists>st1 st2. snd (hideClient demo_hidden_io ''hidden'' demo_hide_body demo_hidden) = st1 \<and> hidden_persisted ''hidden'' st1 \<and>
     isClientHidden (ha_store st1) demo_id \<and>
     snd (hideInterface demo_hidden_io ''hidden'' demo_hide_body demo_hidden) = st2 \<and> hidden_persisted ''hidden'' st2 \<and>
     (demo_id, ''eth0'') \<in> set (hiddenIfaces (ha_store st2))"
proof -
  have id: "hexId demo_id" by (simp add: hexId_def demo_id_def)
  obtain st1 where 1: "hideClient demo_hidden_io ''hidden'' demo_hide_body demo_hidden = (hiddenAnswer True, st1)"
    and s1: "ha_store st1 = \<lparr> hiddenClients = [demo_id], hiddenIfaces = [] \<rparr>"
    using id by (simp add: hideClient_def demo_hide_fields Let_def saveAndAnswer_def saveHiddenEntities_def demo_hidden_io_def
        demo_hidden_def)
  obtain st2 where 2: "hideInterface demo_hidden_io ''hidden'' demo_hide_body demo_hidden = (hiddenAnswer True, st2)"
    and s2: "ha_store st2 = \<lparr> hiddenClients = [], hiddenIfaces = [(demo_id, ''eth0'')] \<rparr>"
    using id by (simp add: hideInterface_def demo_hide_fields Let_def saveAndAnswer_def saveHiddenEntities_def demo_hidden_io_def
        demo_hidden_def kMaxIfaceLabelLen_def)
  have i: "iface_ok (demo_id, ''eth0'')" using id by (simp add: iface_ok_def plain_text_def code_of_def)
  have ok: "hidden_ok (ha_store demo_hidden)" by (simp add: hidden_ok_def demo_hidden_def)
  note eff = hidden_persists [OF 1 [unfolded hiddenAnswer_def] 2 [unfolded hiddenAnswer_def] refl refl refl refl]
  obtain h1 h2 where h: "hide_effect demo_hidden_io ''hidden'' True h1 demo_hidden 200 st1" "hidden_ok h1"
      "hide_effect demo_hidden_io ''hidden'' True h2 demo_hidden 200 st2" "hidden_ok h2"
    using eff id i ok by (auto simp: demo_hide_fields valid_action_def)
  have "h1 = ha_store st1" "h2 = ha_store st2" using h(1,3) by (simp_all add: hide_effect_def)
  then have "hidden_persisted ''hidden'' st1" "hidden_persisted ''hidden'' st2"
    using h by (simp_all add: hide_effect_def s1 s2 demo_hidden_io_def)
  then show ?thesis using 1 2 by (simp add: s1 s2 isClientHidden_def)
qed

section \<open>The documents are JSON\<close>

lemma reads_flatArr_map:
  assumes "\<And>x. x \<in> set xs \<Longrightarrow> reads (f x) (g x)"
  shows "reads (flatArr (map f xs)) (JArr (map g xs))"
proof -
  have "flatArr (map f xs) = jarr (map f xs) []" by (simp add: flatArr_def jarr_def)
  moreover have "list_all2 reads (map f xs) (map g xs)"
    by (simp add: list_all2_map1 list_all2_map2 list_all2_same assms)
  ultimately show ?thesis using reads_jarr [of _ "map g xs" "[]"] by simp
qed

lemma reads_flatArr_Nil: "reads ''[]'' (JArr [])"
  using reads_flatArr_map [of "[] :: string list" id JStr] by (simp add: flatArr_def)

lemma read_rowDoc: "pairs_read kts kvs \<Longrightarrow> read_json (rowObj kts @ [LF]) = if_utf8 (JObj kvs)"
  by (rule read_json_reads [OF reads_row]) simp_all

lemma plain_admin_literal:
  "plain_text ''clients''" "plain_text ''nickname''" "plain_text ''connected''" "plain_text ''config''"
  "plain_text ''hidden_clients''" "plain_text ''hidden_interfaces''" "plain_text ''wire_agents''" "plain_text ''dashboard_clients''"
  "plain_text ''last_seen''" "plain_text ''active''" "plain_text ''transport''" "plain_text ''compress''" "plain_text ''send_buffer''"
  "plain_text ''auto_update''" "plain_text ''reconnect_attempts''" "plain_text ''reconnect_interval''"
  "plain_text ''agg_target_lines''" "plain_text ''agg_min_ms''" "plain_text ''agg_max_ms''" "plain_text ''agg_max_flows''"
  "plain_text ''bucket_seconds''" "plain_text ''window_days''" "plain_text ''buckets''" "plain_text ''t''"
  by (simp_all add: plain_text_def code_of_def)

lemmas admin_literals = plain_literal plain_admin_literal json_reads reads_flatArr_Nil

definition hiddenPairJ :: "string \<times> string \<Rightarrow> Json" where
  "hiddenPairJ p = JObj [(''client_id'', strJ (fst p)), (''iface'', strJ (snd p))]"

lemma hiddenDoc_json:
  "read_json (hiddenDoc h) = if_utf8 (JObj [(''hidden_clients'', JArr (map strJ (hiddenClients h))),
     (''hidden_interfaces'', JArr (map hiddenPairJ (hiddenIfaces h)))])"
proof -
  have "reads (case p of (c, i) \<Rightarrow> rowObj [(''client_id'', jstr c), (''iface'', jstr i)]) (hiddenPairJ p)" for p
    by (cases p) (simp add: hiddenPairJ_def, rule reads_row, simp add: admin_literals)
  note rows = reads_flatArr_map [where f = "\<lambda>(c, i). rowObj [(''client_id'', jstr c), (''iface'', jstr i)]" and g = hiddenPairJ, OF this]
  show ?thesis unfolding hiddenDoc_def
    by (rule read_rowDoc) (simp add: admin_literals rows reads_flatArr_map)
qed

definition clientJ :: "ClientRegistry \<Rightarrow> string \<times> string \<Rightarrow> Json" where
  "clientJ reg p =
     JObj [(''client_id'', strJ (fst p)), (''nickname'', strJ (snd p)), (''connected'', JBool (has_key (fst p) (clientHealth reg)))]"

lemma clientsDoc_json:
  "read_json (clientsDoc store reg) = if_utf8 (JObj [(''clients'', JArr (map (clientJ reg) (ac_nicknames store)))])"
proof -
  let ?f = "\<lambda>(c, n). rowObj [(''client_id'', jstr c), (''nickname'', jstr n), (''connected'', show_bool (has_key c (clientHealth reg)))]"
  have "reads (?f p) (clientJ reg p)" for p
    by (cases p) (simp add: clientJ_def, rule reads_row, simp add: admin_literals)
  note rows = reads_flatArr_map [where f = ?f and g = "clientJ reg", OF this]
  show ?thesis unfolding clientsDoc_def
    by (rule read_rowDoc) (simp add: admin_literals rows)
qed

definition configJ :: "ClientHealthStats \<Rightarrow> Json" where
  "configJ hs =
     JObj [(''transport'', strJ (cfgTransport hs)), (''compress'', JBool (cfgCompress hs = 1)),
           (''send_buffer'', JNum (uint (cfgSendBuffer hs))), (''auto_update'', JBool (cfgAutoUpdate hs = 1)),
           (''reconnect_attempts'', JNum (uint (cfgReconnectAttempts hs))),
           (''reconnect_interval'', JNum (uint (cfgReconnectInterval hs))),
           (''agg_target_lines'', JNum (uint (cfgAggTarget hs))), (''agg_min_ms'', JNum (uint (cfgAggMinMs hs))),
           (''agg_max_ms'', JNum (uint (cfgAggMaxMs hs))), (''agg_max_flows'', JNum (uint (cfgAggMaxFlows hs)))]"

lemma reads_config: "reads (configObj hs) (configJ hs)"
  unfolding configObj_def configJ_def by (rule reads_row) (simp add: admin_literals)

lemma clientConfigDoc_json:
  assumes "hexId (param ps ''client_id'')" and "clientConfigDoc store reg ps = (code, body)"
  shows "code = 200 \<and> read_json body = if_utf8 (JObj [(''client_id'', strJ (param ps ''client_id'')),
    (''nickname'', strJ (case map_of (ac_nicknames store) (param ps ''client_id'') of None \<Rightarrow> [] | Some n \<Rightarrow> n)),
    (''connected'', JBool (has_key (param ps ''client_id'') (clientHealth reg))),
    (''config'', case map_of (clientHealth reg) (param ps ''client_id'') of None \<Rightarrow> JNull
       | Some hs \<Rightarrow> if cfgTransport hs \<noteq> [] then configJ hs else JNull)])"
proof -
  let ?health = "map_of (clientHealth reg) (param ps ''client_id'')"
  have c: "reads (case ?health of None \<Rightarrow> ''null'' | Some hs \<Rightarrow> if cfgTransport hs \<noteq> [] then configObj hs else ''null'')
      (case ?health of None \<Rightarrow> JNull | Some hs \<Rightarrow> if cfgTransport hs \<noteq> [] then configJ hs else JNull)"
    by (simp add: reads_word reads_config split: option.split)
  have "body = rowObj [(''client_id'', jstr (param ps ''client_id'')),
      (''nickname'', jstr (case map_of (ac_nicknames store) (param ps ''client_id'') of None \<Rightarrow> [] | Some n \<Rightarrow> n)),
      (''connected'', show_bool (?health \<noteq> None)),
      (''config'', case ?health of None \<Rightarrow> ''null'' | Some hs \<Rightarrow> if cfgTransport hs \<noteq> [] then configObj hs else ''null'')] @ [LF]"
    and "code = 200"
    using assms by (simp_all add: clientConfigDoc_def Let_def)
  moreover have "read_json (rowObj [(''client_id'', jstr (param ps ''client_id'')),
      (''nickname'', jstr (case map_of (ac_nicknames store) (param ps ''client_id'') of None \<Rightarrow> [] | Some n \<Rightarrow> n)),
      (''connected'', show_bool (?health \<noteq> None)),
      (''config'', case ?health of None \<Rightarrow> ''null'' | Some hs \<Rightarrow> if cfgTransport hs \<noteq> [] then configObj hs else ''null'')] @ [LF])
    = if_utf8 (JObj [(''client_id'', strJ (param ps ''client_id'')),
      (''nickname'', strJ (case map_of (ac_nicknames store) (param ps ''client_id'') of None \<Rightarrow> [] | Some n \<Rightarrow> n)),
      (''connected'', JBool (?health \<noteq> None)),
      (''config'', case ?health of None \<Rightarrow> JNull | Some hs \<Rightarrow> if cfgTransport hs \<noteq> [] then configJ hs else JNull)])"
    by (rule read_rowDoc) (simp only: pairs_read_simps admin_literals c simp_thms)
  ultimately show ?thesis by (simp only: has_key_def simp_thms)
qed

end
