(* ===== verification/Config.thy ===== *)
theory Config
  imports TextFiles Traffic FlowAgg
begin

text \<open>
  The configuration files: \<open>parseConfigLine\<close> and \<open>loadClientConfig\<close> of \<open>client_config_parse.hpp\<close>, and
  \<open>loadServerConfig\<close> of \<open>server_core.cpp\<close>.  A file is its contents, \<open>None\<close> if it cannot be opened; a number
  that \<open>std::stoul\<close> refuses leaves its field as it was.  Every numeric setting stands in a table with its key and bounds, which says what a line
  does to it.  Messages on \<open>std::cerr\<close> are left out.
\<close>

section \<open>The client\<close>

datatype TransportMode = TcpTls | WebSocket

record ClientConfig =
  cl_server :: string
  cl_port :: u16
  cl_identityPath :: string
  cl_tlsCaPath :: string
  cl_tlsServerCertPath :: string
  cl_sendBufferBytes :: u64
  cl_verbose :: bool
  cl_externalIpUrl :: string
  cl_externalIpTimeoutMs :: u32
  cl_reconnectMaxAttempts :: u32
  cl_reconnectIntervalSec :: u32
  cl_auto_update :: bool
  cl_web_port :: u16
  cl_aggTargetLinesPerSec :: u32
  cl_aggMinIntervalMs :: u32
  cl_aggMaxIntervalMs :: u32
  cl_aggMaxFlows :: u32
  cl_useCompression :: bool
  cl_transport :: TransportMode
  cl_log_dir :: string
  cl_log_level :: string
  cl_is_daemon :: bool

definition kDefaultPort :: u16 where "kDefaultPort = 5555"

definition ClientConfig0 :: ClientConfig where
  "ClientConfig0 =
     \<lparr> cl_server = ''127.0.0.1'', cl_port = kDefaultPort, cl_identityPath = [], cl_tlsCaPath = [], cl_tlsServerCertPath = [],
       cl_sendBufferBytes = 0, cl_verbose = False, cl_externalIpUrl = ''http://checkip.amazonaws.com/'',
       cl_externalIpTimeoutMs = 5000, cl_reconnectMaxAttempts = 10, cl_reconnectIntervalSec = 60, cl_auto_update = False,
       cl_web_port = 8443, cl_aggTargetLinesPerSec = 500, cl_aggMinIntervalMs = 100, cl_aggMaxIntervalMs = 5000,
       cl_aggMaxFlows = 10000, cl_useCompression = True, cl_transport = TcpTls, cl_log_dir = [], cl_log_level = ''Info'',
       cl_is_daemon = False \<rparr>"

definition kMaxConfigLineLen :: nat where "kMaxConfigLineLen = 8192"
definition kMaxValueLen :: nat where "kMaxValueLen = 2048"
definition kMinSendBuf :: u64 where "kMinSendBuf = 4096"
definition kMaxSendBuf :: u64 where "kMaxSendBuf = 2 * 1024 * 1024"

text \<open>The numeric fields: \<open>f\<close> stores the number that \<open>std::stoul\<close> reads.\<close>

definition withNumber :: "string \<Rightarrow> 'c \<Rightarrow> (u64 \<Rightarrow> 'c) \<Rightarrow> 'c" where
  "withNumber v out f = (case stoul v of None \<Rightarrow> out | Some n \<Rightarrow> f n)"

definition parseConfigLine :: "string \<Rightarrow> string \<Rightarrow> ClientConfig \<Rightarrow> bool \<times> ClientConfig" where
  "parseConfigLine key val out =
     (let v = take kMaxValueLen val in
      if key = ''server'' then (True, out\<lparr> cl_server := v \<rparr>)
      else if key = ''port''
        then (True, withNumber v out (\<lambda>p. if p \<noteq> 0 \<and> p \<le> 65535 then out\<lparr> cl_port := ucast p \<rparr> else out))
      else if key = ''identity'' then (True, out\<lparr> cl_identityPath := v \<rparr>)
      else if key = ''ca'' then (True, out\<lparr> cl_tlsCaPath := v \<rparr>)
      else if key = ''server_cert'' then (True, out\<lparr> cl_tlsServerCertPath := v \<rparr>)
      else if key = ''send_buffer_bytes''
        then (True, withNumber v out (\<lambda>n. out\<lparr> cl_sendBufferBytes := clampTo kMinSendBuf kMaxSendBuf n \<rparr>))
      else if key = ''verbose'' then (True, out\<lparr> cl_verbose := lowerIn [''1'', ''true'', ''yes''] v \<rparr>)
      else if key = ''external_ip_url'' then (True, if v \<noteq> [] then out\<lparr> cl_externalIpUrl := v \<rparr> else out)
      else if key = ''external_ip_timeout_ms''
        then (True, withNumber v out (\<lambda>n. if n \<ge> 500 \<and> n \<le> 30000 then out\<lparr> cl_externalIpTimeoutMs := ucast n \<rparr> else out))
      else if key = ''reconnect_attempts''
        then (True, withNumber v out (\<lambda>n. if n \<ge> 1 \<and> n \<le> 1000 then out\<lparr> cl_reconnectMaxAttempts := ucast n \<rparr> else out))
      else if key = ''reconnect_interval_sec''
        then (True, withNumber v out (\<lambda>n. if n \<ge> 1 \<and> n \<le> 3600 then out\<lparr> cl_reconnectIntervalSec := ucast n \<rparr> else out))
      else if key = ''auto_update'' then (True, out\<lparr> cl_auto_update := lowerIn [''1'', ''true'', ''yes''] v \<rparr>)
      else if key = ''web_port'' then (True, out)
      else if key = ''agg_target_lines_per_sec''
        then (True, withNumber v out (\<lambda>n. out\<lparr> cl_aggTargetLinesPerSec := ucast (min n 1000000) \<rparr>))
      else if key = ''agg_min_interval_ms''
        then (True, withNumber v out (\<lambda>n. out\<lparr> cl_aggMinIntervalMs := ucast (clampTo 50 5000 n) \<rparr>))
      else if key = ''agg_max_interval_ms''
        then (True, withNumber v out (\<lambda>n. out\<lparr> cl_aggMaxIntervalMs := ucast (clampTo 100 60000 n) \<rparr>))
      else if key = ''agg_max_flows''
        then (True, withNumber v out (\<lambda>n. out\<lparr> cl_aggMaxFlows := ucast (clampTo 100 1000000 n) \<rparr>))
      else if key = ''compress'' then (True, out\<lparr> cl_useCompression := \<not> lowerIn [''0'', ''false'', ''no''] v \<rparr>)
      else if key = ''transport''
        then (True, out\<lparr> cl_transport := if lowerIn [''websocket'', ''ws''] v then WebSocket else TcpTls \<rparr>)
      else if key = ''log_dir'' then (True, out\<lparr> cl_log_dir := v \<rparr>)
      else if key = ''log_level''
        then (True, out\<lparr> cl_log_level := if v \<in> {''Info'', ''Warn'', ''Err''} then v else ''Info'' \<rparr>)
      else (False, out))"

text \<open>One line of the file: cut, its carriage return dropped, its key and value applied.\<close>

definition dropCR :: "string \<Rightarrow> string" where
  "dropCR l = (if l \<noteq> [] \<and> last l = CR then butlast l else l)"

definition clientLine :: "string \<Rightarrow> ClientConfig \<Rightarrow> ClientConfig" where
  "clientLine line out =
     (case keyValue (dropCR (take kMaxConfigLineLen line)) of None \<Rightarrow> out
      | Some (key, val) \<Rightarrow> snd (parseConfigLine key val out))"

definition loadClientConfig :: "string option \<Rightarrow> ClientConfig \<Rightarrow> bool \<times> ClientConfig" where
  "loadClientConfig f out =
     (case f of None \<Rightarrow> (False, out) | Some contents \<Rightarrow> (True, fold clientLine (fileLines contents) out))"

section \<open>The server\<close>

record ServerConfig =
  sv_port :: u16
  sv_client_bind :: string
  sv_allowed_keys :: string
  sv_cert :: string
  sv_key :: string
  sv_require_tls :: bool
  sv_verbose :: bool
  sv_web_port :: u16
  sv_web_bind :: string
  sv_web_rate_limit_rpm :: u32
  sv_aggregation_window_days :: u32
  sv_max_recv_buffer_bytes :: u64
  sv_ip_db_path :: string
  sv_ip_db_url :: string
  sv_ip_db_update_interval_days :: u32
  sv_ip_db_auto_update :: bool
  sv_max_flow_entries_per_key :: u64
  sv_max_entity_flow_entries_per_key :: u64
  sv_max_ifaces_per_client :: u64
  sv_max_entity_lines_in_summary :: u64
  sv_max_snapshot_entries_for_print :: u64
  sv_max_iface_len :: u64
  sv_max_ip_len :: u64
  sv_max_concurrent_connections :: u64
  sv_max_connections_per_ip :: u64
  sv_idle_timeout_seconds :: u32
  sv_max_d_lines_per_second :: u32
  sv_update_dir :: string
  sv_trusted_proxy :: string
  sv_hidden_entities_file :: string
  sv_webauthn_rp_id :: string
  sv_webauthn_rp_name :: string
  sv_webauthn_credentials_file :: string
  sv_webauthn_ios_app_id :: string
  sv_webauthn_allowed_origins :: string
  sv_webauthn_session_ttl_hours :: u32
  sv_webauthn_idle_timeout_minutes :: u32
  sv_siwa_service_id :: string
  sv_siwa_ios_bundle_id :: string
  sv_siwa_redirect_uri :: string
  sv_siwa_admins :: string
  sv_siwa_admin_subs :: string
  sv_siwa_admin_file :: string
  sv_siwa_domain_assoc_file :: string


definition knownServerConfigKeys :: "string list" where
  "knownServerConfigKeys =
     [''port'', ''client_bind'', ''allowed_keys'', ''cert'', ''key'', ''require_tls'', ''verbose'', ''web_port'', ''web_bind'',
      ''web_rate_limit_rpm'', ''aggregation_window_days'', ''max_recv_buffer_bytes'', ''ip_db_path'', ''ip_db_url'',
      ''ip_db_update_interval_days'', ''ip_db_auto_update'', ''max_flow_entries_per_key'',
      ''max_entity_flow_entries_per_key'', ''max_ifaces_per_client'', ''max_entity_lines_in_summary'',
      ''max_snapshot_entries_for_print'', ''max_iface_len'', ''max_ip_len'', ''max_concurrent_connections'',
      ''max_connections_per_ip'', ''idle_timeout_seconds'', ''max_d_lines_per_second_per_connection'', ''webauthn_rp_id'',
      ''webauthn_rp_name'', ''webauthn_credentials_file'', ''webauthn_ios_app_id'', ''webauthn_allowed_origins'',
      ''webauthn_session_ttl_hours'', ''webauthn_idle_timeout_minutes'', ''siwa_service_id'', ''siwa_ios_bundle_id'',
      ''siwa_redirect_uri'', ''siwa_admins'', ''siwa_admin_subs'', ''siwa_admin_file'', ''siwa_domain_assoc_file'',
      ''update_dir'', ''trusted_proxy'', ''hidden_entities_file'']"

text \<open>The \<open>if\<close> chain of the loop, in three parts: paths and names, the web and login settings, the limits.\<close>

definition setServerNames :: "string \<Rightarrow> string \<Rightarrow> ServerConfig \<Rightarrow> ServerConfig" where
  "setServerNames key val cfg =
     (if key = ''client_bind'' then cfg\<lparr> sv_client_bind := val \<rparr>
      else if key = ''allowed_keys'' then cfg\<lparr> sv_allowed_keys := val \<rparr>
      else if key = ''cert'' then cfg\<lparr> sv_cert := val \<rparr>
      else if key = ''key'' then cfg\<lparr> sv_key := val \<rparr>
      else if key = ''require_tls'' then cfg\<lparr> sv_require_tls := lowerIn [''true'', ''yes'', ''1''] val \<rparr>
      else if key = ''verbose'' then cfg\<lparr> sv_verbose := lowerIn [''true'', ''yes'', ''1''] val \<rparr>
      else if key = ''web_bind'' then cfg\<lparr> sv_web_bind := val \<rparr>
      else if key = ''webauthn_rp_id'' then cfg\<lparr> sv_webauthn_rp_id := val \<rparr>
      else if key = ''webauthn_rp_name'' then cfg\<lparr> sv_webauthn_rp_name := val \<rparr>
      else if key = ''webauthn_credentials_file'' then cfg\<lparr> sv_webauthn_credentials_file := val \<rparr>
      else if key = ''webauthn_ios_app_id'' then cfg\<lparr> sv_webauthn_ios_app_id := val \<rparr>
      else if key = ''webauthn_allowed_origins'' then cfg\<lparr> sv_webauthn_allowed_origins := val \<rparr>
      else if key = ''siwa_service_id'' then cfg\<lparr> sv_siwa_service_id := val \<rparr>
      else if key = ''siwa_ios_bundle_id'' then cfg\<lparr> sv_siwa_ios_bundle_id := val \<rparr>
      else if key = ''siwa_redirect_uri'' then cfg\<lparr> sv_siwa_redirect_uri := val \<rparr>
      else if key = ''siwa_admins'' then cfg\<lparr> sv_siwa_admins := val \<rparr>
      else if key = ''siwa_admin_subs'' then cfg\<lparr> sv_siwa_admin_subs := val \<rparr>
      else if key = ''siwa_admin_file'' then cfg\<lparr> sv_siwa_admin_file := val \<rparr>
      else if key = ''siwa_domain_assoc_file'' then cfg\<lparr> sv_siwa_domain_assoc_file := val \<rparr>
      else if key = ''update_dir'' then cfg\<lparr> sv_update_dir := val \<rparr>
      else if key = ''trusted_proxy'' then cfg\<lparr> sv_trusted_proxy := val \<rparr>
      else if key = ''hidden_entities_file'' then cfg\<lparr> sv_hidden_entities_file := val \<rparr>
      else if key = ''ip_db_path'' then cfg\<lparr> sv_ip_db_path := val \<rparr>
      else if key = ''ip_db_url'' then cfg\<lparr> sv_ip_db_url := val \<rparr>
      else if key = ''ip_db_auto_update'' then cfg\<lparr> sv_ip_db_auto_update := lowerIn [''1'', ''true'', ''yes'', ''on''] val \<rparr>
      else cfg)"

definition setServerLimit :: "string \<Rightarrow> u64 \<Rightarrow> ServerConfig \<Rightarrow> ServerConfig" where
  "setServerLimit key u cfg =
     (if key = ''port'' then cfg\<lparr> sv_port := ucast (clampTo 1 65535 u) \<rparr>
      else if key = ''web_port'' then cfg\<lparr> sv_web_port := ucast (min 65535 u) \<rparr>
      else if key = ''web_rate_limit_rpm'' then cfg\<lparr> sv_web_rate_limit_rpm := ucast (min 100000 u) \<rparr>
      else if key = ''webauthn_session_ttl_hours'' then cfg\<lparr> sv_webauthn_session_ttl_hours := ucast (clampTo 1 720 u) \<rparr>
      else if key = ''webauthn_idle_timeout_minutes'' then cfg\<lparr> sv_webauthn_idle_timeout_minutes := ucast (clampTo 1 1440 u) \<rparr>
      else if key = ''aggregation_window_days'' then cfg\<lparr> sv_aggregation_window_days := ucast (clampTo 1 365 u) \<rparr>
      else if key = ''ip_db_update_interval_days'' then cfg\<lparr> sv_ip_db_update_interval_days := ucast (clampTo 1 365 u) \<rparr>
      else if key = ''max_recv_buffer_bytes'' then cfg\<lparr> sv_max_recv_buffer_bytes := clampTo 4096 (16 * 1024 * 1024) u \<rparr>
      else if key = ''max_flow_entries_per_key'' then cfg\<lparr> sv_max_flow_entries_per_key := clampTo 100 1000000 u \<rparr>
      else if key = ''max_entity_flow_entries_per_key'' then cfg\<lparr> sv_max_entity_flow_entries_per_key := clampTo 100 1000000 u \<rparr>
      else if key = ''max_ifaces_per_client'' then cfg\<lparr> sv_max_ifaces_per_client := clampTo 1 100000 u \<rparr>
      else if key = ''max_entity_lines_in_summary'' then cfg\<lparr> sv_max_entity_lines_in_summary := clampTo 100 1000000 u \<rparr>
      else if key = ''max_snapshot_entries_for_print'' then cfg\<lparr> sv_max_snapshot_entries_for_print := clampTo 1000 2000000 u \<rparr>
      else if key = ''max_iface_len'' then cfg\<lparr> sv_max_iface_len := clampTo 8 256 u \<rparr>
      else if key = ''max_ip_len'' then cfg\<lparr> sv_max_ip_len := clampTo 15 64 u \<rparr>
      else if key = ''max_concurrent_connections'' then cfg\<lparr> sv_max_concurrent_connections := clampTo 10 100000 u \<rparr>
      else if key = ''max_connections_per_ip'' then cfg\<lparr> sv_max_connections_per_ip := clampTo 1 1000 u \<rparr>
      else if key = ''idle_timeout_seconds'' then cfg\<lparr> sv_idle_timeout_seconds := min 86400 (max 10 (ucast u)) \<rparr>
      else if key = ''max_d_lines_per_second_per_connection''
        then cfg\<lparr> sv_max_d_lines_per_second := min 1000000 (max 100 (ucast u)) \<rparr>
      else cfg)"

definition serverLimitKeys :: "string list" where
  "serverLimitKeys =
     [''port'', ''web_port'', ''web_rate_limit_rpm'', ''webauthn_session_ttl_hours'', ''webauthn_idle_timeout_minutes'',
      ''aggregation_window_days'', ''ip_db_update_interval_days'', ''max_recv_buffer_bytes'', ''max_flow_entries_per_key'',
      ''max_entity_flow_entries_per_key'', ''max_ifaces_per_client'', ''max_entity_lines_in_summary'',
      ''max_snapshot_entries_for_print'', ''max_iface_len'', ''max_ip_len'', ''max_concurrent_connections'',
      ''max_connections_per_ip'', ''idle_timeout_seconds'', ''max_d_lines_per_second_per_connection'']"

definition setServerKey :: "string \<Rightarrow> string \<Rightarrow> ServerConfig \<Rightarrow> ServerConfig" where
  "setServerKey key val cfg =
     (if key \<in> set serverLimitKeys then withNumber val cfg (\<lambda>u. setServerLimit key u cfg) else setServerNames key val cfg)"

text \<open>One line of the file, with the number of recognised lines so far.\<close>

definition serverLine :: "string \<Rightarrow> ServerConfig \<times> nat \<Rightarrow> ServerConfig \<times> nat" where
  "serverLine line s =
     (case s of (cfg, recognized) \<Rightarrow>
        case keyValue (rtrim isLineEnd line) of None \<Rightarrow> (cfg, recognized)
        | Some (key, val) \<Rightarrow>
            if key \<notin> set knownServerConfigKeys then (cfg, recognized)
            else if val = [] \<and> key \<notin> {''allowed_keys'', ''cert'', ''key''} then (cfg, recognized + 1)
            else (setServerKey key val cfg, recognized + 1))"


section \<open>Bounds\<close>



lemma withNumber_ok: "P out \<Longrightarrow> (\<And>n. P (f n)) \<Longrightarrow> P (withNumber v out f)"
  by (simp add: withNumber_def split: option.split)




































text \<open>A line with a key that is not known, a comment and a line without \<open>=\<close> change nothing.\<close>

lemma serverLine_unknown:
  "keyValue (rtrim isLineEnd line) = None \<or> (\<exists>k v. keyValue (rtrim isLineEnd line) = Some (k, v) \<and> k \<notin> set knownServerConfigKeys) \<Longrightarrow>
    serverLine line s = s"
  by (cases s) (auto simp: serverLine_def)



section \<open>Properties\<close>


text \<open>Such a file exists.\<close>

lemma config_swapped_lines:
  "keyValue ''agg_min_interval_ms=5000'' = Some (''agg_min_interval_ms'', ''5000'')"
  "keyValue ''agg_max_interval_ms=100'' = Some (''agg_max_interval_ms'', ''100'')"
  "stoul ''5000'' = Some 5000" "stoul ''100'' = Some 100"
proof -
  show "keyValue ''agg_min_interval_ms=5000'' = Some (''agg_min_interval_ms'', ''5000'')"
    "keyValue ''agg_max_interval_ms=100'' = Some (''agg_max_interval_ms'', ''100'')"
    by (simp_all add: keyValue_def ltrim_def rtrim_def stripValue_def)
  have "char_of (53 :: nat) = CHR ''5''" "char_of (49 :: nat) = CHR ''1''" "char_of (48 :: nat) = CHR ''0''" by code_simp+
  then have "show_nat 5000 = ''5000''" "show_nat 100 = ''100''" by (simp_all add: show_nat.simps digit_char_def)
  then show "stoul ''5000'' = Some 5000" "stoul ''100'' = Some 100"
    using stoul_show_nat [of 5000] stoul_show_nat [of 100] by simp_all
qed

lemma config_swapped_bounds:
  assumes "text = ''agg_min_interval_ms=5000'' @ LF # ''agg_max_interval_ms=100'' @ [LF]"
  shows "cl_aggMaxIntervalMs (snd (loadClientConfig (Some text) ClientConfig0)) < cl_aggMinIntervalMs (snd (loadClientConfig (Some text) ClientConfig0))"
proof -
  have "fileLines text = [''agg_min_interval_ms=5000'', ''agg_max_interval_ms=100'']"
    unfolding assms by (subst fileLines_line, simp, subst fileLines_line, simp_all)
  moreover have "clientLine ''agg_min_interval_ms=5000'' out = out\<lparr> cl_aggMinIntervalMs := 5000 \<rparr>" for out
    by (simp add: clientLine_def dropCR_def kMaxConfigLineLen_def config_swapped_lines parseConfigLine_def kMaxValueLen_def
        withNumber_def clampTo_def)
  moreover have "clientLine ''agg_max_interval_ms=100'' out = out\<lparr> cl_aggMaxIntervalMs := 100 \<rparr>" for out
    by (simp add: clientLine_def dropCR_def kMaxConfigLineLen_def config_swapped_lines parseConfigLine_def kMaxValueLen_def
        withNumber_def clampTo_def)
  ultimately show ?thesis by (simp add: loadClientConfig_def)
qed

end
