(* ===== verification/Connections.thy ===== *)
theory Connections
  imports Auth DataLoop Limiter "HOL-Library.Multiset" "HOL-Library.Sublist"
begin

text \<open>
  How connections enter and leave the server (\<open>server_core.cpp\<close>): one round of the accept loop of
  \<open>runServer\<close> with its limits and the choice of a worker by ALPN and the first bytes, the exit guards of
  the workers, and the workers themselves, \<open>connectionThread\<close>, \<open>wsConnectionThread\<close> and the keep-alive
  loop of \<open>httpWebThread\<close>.

  The outcomes of system and OpenSSL calls are fields of the arguments.  Log messages are left out.
\<close>

section \<open>The accept loop\<close>

datatype Route = WebSocketRoute | WireRoute | WebRoute

text \<open>\<open>alpnSelectCallback\<close>: the first offer that equals the selected protocol, or a static text.\<close>

function alpnFind :: "string \<Rightarrow> bytes \<Rightarrow> string option" where
  "alpnFind selected [] = None"
| "alpnFind selected (len # p) =
     (if length p < unat len then None
      else if bytes_str (take (unat len) p) = selected then Some (bytes_str (take (unat len) p))
      else alpnFind selected (drop (unat len) p))"
  by pat_completeness auto
termination by (relation "measure (length \<circ> snd)") auto

definition alpnSelectCallback :: "bytes \<Rightarrow> string" where
  "alpnSelectCallback inp =
     (case alpnFind (selectAlpnFromClientList inp) inp of Some out \<Rightarrow> out | None \<Rightarrow> ''http/1.1'')"

text \<open>\<open>available\<close> is what \<open>SSL_peek\<close> can see; it is asked for as many bytes as the prefix has.\<close>

definition routeOf :: "string \<Rightarrow> string \<Rightarrow> Route" where
  "routeOf alpn waiting =
     (let wsPrefix = ''GET '' @ kWsPath in
      if take (length wsPrefix) waiting = wsPrefix then WebSocketRoute
      else if alpn = ''ntm-wire'' then WireRoute
      else WebRoute)"

datatype Errno = EINTR | ECONNABORTED | EPROTO | EAGAIN | EWOULDBLOCK | EMFILE | ENFILE | OtherErrno

text \<open>What happened to an accepted peer: its file descriptor and address, the outcomes of \<open>SSL_new\<close>,
  \<open>SSL_set_fd\<close>, \<open>SSL_accept\<close> and of the creation of the thread, the negotiated protocol (empty when
  the client sent no ALPN) and the bytes that wait on the connection.\<close>

record Peer =
  pe_fd :: nat
  pe_ntop :: "string option"
  pe_raw :: u32
  pe_sslNew :: bool
  pe_setFd :: bool
  pe_handshake :: bool
  pe_alpn :: string
  pe_waiting :: string
  pe_spawned :: bool

datatype PollResult = PollFailed Errno | PollTimeout | PollNoInput | AcceptFailed Errno | PeerAccepted Peer

record Worker =
  wk_fd :: nat
  wk_ip :: string
  wk_route :: Route
  wk_done :: bool

text \<open>The state of the accept loop, with the client descriptors that are open.\<close>

record Server =
  sv_running :: bool
  sv_active :: nat
  sv_limiter :: PerIPConnectionLimiter
  sv_workers :: "Worker list"
  sv_fds :: "nat list"

definition Server0 :: "nat \<Rightarrow> Server" where
  "Server0 perIP = \<lparr> sv_running = True, sv_active = 0, sv_limiter = newConnLimiter perIP, sv_workers = [], sv_fds = [] \<rparr>"

definition peerKey :: "string option \<Rightarrow> u32 \<Rightarrow> string" where
  "peerKey ntop raw = (case ntop of Some s \<Rightarrow> s | None \<Rightarrow> ''raw:'' @ show_nat (unat raw))"

definition reapFinishedWorkers :: "Server \<Rightarrow> Server" where
  "reapFinishedWorkers sv = sv\<lparr> sv_workers := filter (\<lambda>w. \<not> wk_done w) (sv_workers sv) \<rparr>"

definition closeFd :: "nat \<Rightarrow> Server \<Rightarrow> Server" where
  "closeFd fd sv = sv\<lparr> sv_fds := remove1 fd (sv_fds sv) \<rparr>"

text \<open>The ways out after the connection was counted: close, release the address, count down.\<close>

definition dropPeer :: "nat \<Rightarrow> string \<Rightarrow> Server \<Rightarrow> Server" where
  "dropPeer fd ip sv =
     (closeFd fd sv)\<lparr> sv_limiter := connRelease ip (sv_limiter sv), sv_active := sv_active sv - 1 \<rparr>"

datatype Decision = Idle | Stopped | LimitReached | PerIpReached | TlsFailed | SpawnFailed | Spawned Route

definition acceptPeer :: "nat \<Rightarrow> Peer \<Rightarrow> Server \<Rightarrow> Decision \<times> Server" where
  "acceptPeer maxConn p sv =
     (let fd = pe_fd p; opened = sv\<lparr> sv_fds := fd # sv_fds sv \<rparr> in
      if sv_active sv \<ge> maxConn then (LimitReached, closeFd fd opened)
      else let ip = peerKey (pe_ntop p) (pe_raw p) in
        case connTryAcquire ip (sv_limiter sv) of (ok, limiter) \<Rightarrow>
          if \<not> ok then (PerIpReached, (closeFd fd opened)\<lparr> sv_limiter := limiter \<rparr>)
          else let counted = opened\<lparr> sv_limiter := limiter, sv_active := sv_active sv + 1 \<rparr> in
            if \<not> (pe_sslNew p \<and> pe_setFd p \<and> pe_handshake p) then (TlsFailed, dropPeer fd ip counted)
            else if \<not> pe_spawned p then (SpawnFailed, dropPeer fd ip counted)
            else let route = routeOf (pe_alpn p) (pe_waiting p) in
              (Spawned route, counted\<lparr> sv_workers := sv_workers sv @
                 [\<lparr> wk_fd = fd, wk_ip = ip, wk_route = route, wk_done = False \<rparr>] \<rparr>))"

definition acceptIteration :: "nat \<Rightarrow> PollResult \<Rightarrow> Server \<Rightarrow> Decision \<times> Server" where
  "acceptIteration maxConn r sv =
     (case r of
        PollFailed e \<Rightarrow> if e = EINTR then (Idle, sv) else (Stopped, sv\<lparr> sv_running := False \<rparr>)
      | PollTimeout \<Rightarrow> (Idle, reapFinishedWorkers sv)
      | PollNoInput \<Rightarrow> (Idle, reapFinishedWorkers sv)
      | AcceptFailed e \<Rightarrow>
          if e \<in> {EINTR, ECONNABORTED, EPROTO} then (Idle, reapFinishedWorkers sv)
          else if e \<in> {EAGAIN, EWOULDBLOCK} then (Idle, reapFinishedWorkers sv)
          else if e \<in> {EMFILE, ENFILE} then (Idle, reapFinishedWorkers sv)
          else (Stopped, (reapFinishedWorkers sv)\<lparr> sv_running := False \<rparr>)
      | PeerAccepted p \<Rightarrow> acceptPeer maxConn p (reapFinishedWorkers sv))"

text \<open>The guards of a worker, in the order in which they are destroyed: close the connection, release
  the address, count down, set the flag.\<close>

definition workerExit :: "nat \<Rightarrow> Server \<Rightarrow> Server" where
  "workerExit i sv =
     (let w = sv_workers sv ! i in
      (dropPeer (wk_fd w) (wk_ip w) sv)\<lparr> sv_workers := (sv_workers sv)[i := w\<lparr> wk_done := True \<rparr>] \<rparr>)"

text \<open>The operating system gives an accepted connection a descriptor that is not open.\<close>

definition fresh_fd :: "PollResult \<Rightarrow> Server \<Rightarrow> bool" where
  "fresh_fd r sv = (case r of PeerAccepted p \<Rightarrow> pe_fd p \<notin> set (sv_fds sv) | _ \<Rightarrow> True)"

text \<open>Rounds of the accept loop and ends of workers, in any order.\<close>

inductive serving :: "nat \<Rightarrow> nat \<Rightarrow> Server \<Rightarrow> bool" for maxConn perIP where
  start: "serving maxConn perIP (Server0 perIP)"
| round: "serving maxConn perIP sv \<Longrightarrow> sv_running sv \<Longrightarrow> fresh_fd r sv \<Longrightarrow>
    acceptIteration maxConn r sv = (d, sv') \<Longrightarrow> serving maxConn perIP sv'"
| leave: "serving maxConn perIP sv \<Longrightarrow> i < length (sv_workers sv) \<Longrightarrow> \<not> wk_done (sv_workers sv ! i) \<Longrightarrow>
    serving maxConn perIP (workerExit i sv)"

abbreviation openWorkers :: "Server \<Rightarrow> Worker list" where
  "openWorkers sv \<equiv> filter (\<lambda>w. \<not> wk_done w) (sv_workers sv)"

section \<open>The workers\<close>

text \<open>The outcomes of the calls that a worker makes around its loop: setting socket timeouts, drawing the
  nonce, the writes, and the clocks.\<close>

record ConnIO =
  io_upgradeWrite :: bool
  io_authTimeout :: bool
  io_nonce :: "bytes option"
  io_nonceWrite :: bool
  io_okWrite :: bool
  io_capsWrite :: bool
  io_loopTimeout :: bool
  io_atSec :: int
  io_sessionStart :: int
  io_loopStart :: int

text \<open>The end of a worker's run: it has returned, it is still in its loop, or a counter of the store is
  undefined.  All other clients' records are shared, so the state is the \<open>World\<close>.\<close>

datatype ThreadEnd = Returned World | Looping World | Broken TrafficError

text \<open>\<open>ZlibInflater\<close> is there only if compression was negotiated.\<close>

definition inflaterFor :: "byte \<Rightarrow> ('z \<Rightarrow> string \<Rightarrow> (string \<times> 'z) option) \<Rightarrow> 'z \<Rightarrow> string \<Rightarrow> (string \<times> 'z) option" where
  "inflaterFor caps inflate z b = (if caps AND kCapZlib \<noteq> 0 then inflate z b else Some (b, z))"

definition sessionEnv :: "LineEnv \<Rightarrow> string \<Rightarrow> LineEnv" where
  "sessionEnv env clientId = env\<lparr> le_clientId := clientId \<rparr>"

text \<open>After the result bytes: register, poll timeout, loop; the guards clean up on every way out.\<close>

definition sessionPhase :: "LoopConfig \<Rightarrow> LineEnv \<Rightarrow> ('z \<Rightarrow> string \<Rightarrow> (string \<times> 'z) option) \<Rightarrow> 'z \<Rightarrow> ConnIO \<Rightarrow> Tick list \<Rightarrow>
    byte \<Rightarrow> World \<Rightarrow> ThreadEnd" where
  "sessionPhase cfg env inflate z io ticks caps w =
     (let w1 = openSession env w in
      if \<not> io_loopTimeout io then Returned (closeSession env w1)
      else case runWireDataLoop cfg env (inflaterFor caps inflate) (io_sessionStart io) ticks
                  (Session0 (io_loopStart io) w1) w1 z of
          Ended s w2 \<Rightarrow> Returned (closeSession env w2)
        | Going s w2 z' \<Rightarrow> Looping w2
        | Undefined e \<Rightarrow> Broken e)"

definition rejectSession :: "LineEnv \<Rightarrow> ConnIO \<Rightarrow> AuthRun \<Rightarrow> World \<Rightarrow> World" where
  "rejectSession env io r w =
     w\<lparr> w_registry := recordRejection (le_clientIp env) (ar_attemptedVersion r) (io_atSec io) (w_registry w) \<rparr>"

text \<open>The part that both kinds of connection share, over their \<open>readFn\<close>: the writes that it makes and its end.\<close>

definition serveClient :: "'s readFn \<Rightarrow> LoopConfig \<Rightarrow> LineEnv \<Rightarrow> (bytes \<Rightarrow> bytes \<Rightarrow> bytes \<Rightarrow> bool) \<Rightarrow> bytes list \<Rightarrow>
    ('z \<Rightarrow> string \<Rightarrow> (string \<times> 'z) option) \<Rightarrow> 'z \<Rightarrow> ConnIO \<Rightarrow> Tick list \<Rightarrow> 's \<Rightarrow> World \<Rightarrow> bytes list \<times> ThreadEnd" where
  "serveClient readFn cfg env verify keys inflate z io ticks s w =
     (if \<not> io_authTimeout io then ([], Returned w)
      else case verifyClientAuth readFn (io_nonceWrite io) (io_nonce io) verify keys s of (r, _) \<Rightarrow>
        let sent = (if ar_sent r = [] then [] else [ar_sent r]) in
        if ar_clientId r = [] then (sent @ [[kAuthResultReject]], Returned (rejectSession env io r w))
        else if \<not> io_okWrite io then (sent @ [[kAuthResultOk]], Returned w)
        else if ar_isV3 r \<and> \<not> io_capsWrite io then (sent @ map (\<lambda>b. [b]) (authReply r), Returned w)
        else (sent @ map (\<lambda>b. [b]) (authReply r),
              sessionPhase cfg (sessionEnv env (ar_clientId r)) inflate z io ticks (ar_negotiatedCaps r) w))"

definition connectionThread :: "LoopConfig \<Rightarrow> LineEnv \<Rightarrow> (bytes \<Rightarrow> bytes \<Rightarrow> bytes \<Rightarrow> bool) \<Rightarrow> bytes list \<Rightarrow>
    ('z \<Rightarrow> string \<Rightarrow> (string \<times> 'z) option) \<Rightarrow> 'z \<Rightarrow> ConnIO \<Rightarrow> Tick list \<Rightarrow> bytes \<Rightarrow> World \<Rightarrow> bytes list \<times> ThreadEnd" where
  "connectionThread = serveClient tls_readExact"

text \<open>\<open>wsReadHttpRequest\<close>: byte by byte up to an empty line, or up to 16384 bytes; nothing if the stream
  ends before.\<close>

definition endOfHead :: bytes where "endOfHead = str_bytes (CRLF @ CRLF)"

fun readHead :: "nat \<Rightarrow> bytes \<Rightarrow> bytes \<Rightarrow> bytes \<times> bytes" where
  "readHead 0 req inp = (req, inp)"
| "readHead (Suc n) req [] = ([], [])"
| "readHead (Suc n) req (c # inp) =
     (let req' = req @ [c] in
      if length req' \<ge> 4 \<and> drop (length req' - 4) req' = endOfHead then (req', inp) else readHead n req' inp)"

definition wsReadHttpRequest :: "bytes \<Rightarrow> bytes \<times> bytes" where
  "wsReadHttpRequest inp = readHead 16384 [] inp"

definition resp404 :: string where
  "resp404 = ''HTTP/1.1 404 Not Found'' @ CRLF @ ''Content-Length: 0'' @ CRLF @ ''Connection: close'' @ CRLF @ CRLF"

definition resp400 :: string where
  "resp400 = ''HTTP/1.1 400 Bad Request'' @ CRLF @ ''Content-Length: 0'' @ CRLF @ ''Connection: close'' @ CRLF @ CRLF"

text \<open>The bytes that the connection carries to the client, write by write, and the end.  \<open>e\<close> is what a
  read finds at the end of the input.\<close>

definition wsConnectionThread :: "(string \<Rightarrow> string) \<Rightarrow> StreamEnd \<Rightarrow> LoopConfig \<Rightarrow> LineEnv \<Rightarrow> (bytes \<Rightarrow> bytes \<Rightarrow> bytes \<Rightarrow> bool) \<Rightarrow>
    bytes list \<Rightarrow> ('z \<Rightarrow> string \<Rightarrow> (string \<times> 'z) option) \<Rightarrow> 'z \<Rightarrow> ConnIO \<Rightarrow> Tick list \<Rightarrow> bytes \<Rightarrow> World \<Rightarrow> bytes list \<times> ThreadEnd" where
  "wsConnectionThread sha1b64 e cfg env verify keys inflate z io ticks inp w =
     (case wsReadHttpRequest inp of (req, rest) \<Rightarrow>
        if req = [] then ([], Returned w)
        else case wsAnswer sha1b64 (bytes_str req) of
          Reply404 \<Rightarrow> ([str_bytes resp404], Returned w)
        | Reply400 \<Rightarrow> ([str_bytes resp400], Returned w)
        | Reply101 resp \<Rightarrow>
            if \<not> io_upgradeWrite io then ([str_bytes resp], Returned w)
            else (case serveClient (\<lambda>n. ws_readExact n e n) cfg env verify keys inflate z io ticks
                         \<lparr> ws_buf = [], ws_bufPos = 0, ws_timedOut = False, ws_in = rest \<rparr> w of
                    (sent, ending) \<Rightarrow> (str_bytes resp # map writeFrame sent, ending)))"

text \<open>The keep-alive loop of \<open>httpWebThread\<close>.  \<open>process_request\<close> (the HTTP library) returns whether it
  succeeded and whether the connection is to be closed; the result is the \<open>isLast\<close> of each call.\<close>

fun keepAliveLoop :: "nat \<Rightarrow> (bool \<times> bool) list \<Rightarrow> bool list" where
  "keepAliveLoop 0 rs = []"
| "keepAliveLoop (Suc keepAlive) [] = []"
| "keepAliveLoop (Suc keepAlive) ((ok, connClosed) # rs) =
     (let isLast = (keepAlive = 0) in
      isLast # (if \<not> ok then [] else if connClosed \<or> isLast then [] else keepAliveLoop keepAlive rs))"

section \<open>Lemmas: the accept loop\<close>

lemma alpnFind_Some: "alpnFind s inp = Some out \<Longrightarrow> out = s"
  by (induction s inp rule: alpnFind.induct) (auto split: if_splits)

lemma str_bytes_of_bytes_str [simp]: "str_bytes (bytes_str q) = q"
proof (induction q)
  case (Cons b q)
  have "unat b < 256" using unsigned_less [of b] by simp
  then have "word_of_nat (code_of (char_of (unat b))) = b" by (simp add: code_of_def)
  with Cons show ?case by (simp add: bytes_str_def str_bytes_def)
qed (simp add: bytes_str_def str_bytes_def)

lemma alpn_entry_match:
  fixes len :: byte
  assumes "length proto = 8" "unat len \<le> length p"
  shows "len = 8 \<and> take 8 p = str_bytes proto \<longleftrightarrow> bytes_str (take (unat len) p) = proto"
proof
  assume "len = 8 \<and> take 8 p = str_bytes proto"
  then show "bytes_str (take (unat len) p) = proto" by simp
next
  assume e: "bytes_str (take (unat len) p) = proto"
  then have t: "take (unat len) p = str_bytes proto" by (metis str_bytes_of_bytes_str)
  then have "length (take (unat len) p) = 8" using assms(1) by simp
  with assms(2) have "unat len = 8" by simp
  then have "len = 8" by (simp add: word_unat_eq_iff)
  with t show "len = 8 \<and> take 8 p = str_bytes proto" by simp
qed

lemma alpn_offered_found: "length proto = 8 \<Longrightarrow> alpn_offered proto inp \<longleftrightarrow> alpnFind proto inp = Some proto"
proof (induction proto inp rule: alpn_offered.induct)
  case (2 proto len p)
  show ?case
  proof (cases "length p < unat len")
    case False
    then have m: "len = 8 \<and> take 8 p = str_bytes proto \<longleftrightarrow> bytes_str (take (unat len) p) = proto"
      using alpn_entry_match [of proto len p] 2(2) by simp
    show ?thesis
    proof (cases "bytes_str (take (unat len) p) = proto")
      case True
      then show ?thesis using m False by (subst alpn_offered.simps, subst alpnFind.simps) (simp only: if_True if_False simp_thms)
    next
      case other: False
      then show ?thesis using m False 2
        by (subst alpn_offered.simps, subst alpnFind.simps) (simp only: if_False simp_thms)
    qed
  qed simp
qed simp

lemma alpnSelectCallback_selects: "alpnSelectCallback inp = selectAlpnFromClientList inp"
proof -
  have "length kAlpnNtmWire = 8" "length kAlpnHttp11 = 8" by (simp_all add: kAlpnNtmWire_def kAlpnHttp11_def)
  note found = this [THEN alpn_offered_found, of inp]
  show ?thesis
  proof (cases "alpnFind (selectAlpnFromClientList inp) inp")
    case None
    then show ?thesis using found
      by (auto simp: alpnSelectCallback_def selectAlpnFromClientList_def kAlpnHttp11_def split: if_splits)
  next
    case (Some out)
    then show ?thesis using alpnFind_Some [OF Some] by (simp add: alpnSelectCallback_def)
  qed
qed

text \<open>The books of the accept loop: the limiter knows the addresses of the open workers, the counter
  their number, and the open descriptors are theirs.\<close>

definition books_ok :: "nat \<Rightarrow> nat \<Rightarrow> Server \<Rightarrow> bool" where
  "books_ok maxConn perIP sv \<longleftrightarrow>
     (\<exists>opened. conns perIP (sv_limiter sv) opened \<and> mset opened = mset (map wk_ip (openWorkers sv))) \<and>
     sv_active sv = length (openWorkers sv) \<and> sv_active sv \<le> maxConn \<and>
     mset (sv_fds sv) = mset (map wk_fd (openWorkers sv)) \<and> distinct (sv_fds sv)"

lemma server_simps [simp]:
  "sv_active (reapFinishedWorkers sv) = sv_active sv" "sv_limiter (reapFinishedWorkers sv) = sv_limiter sv"
  "sv_fds (reapFinishedWorkers sv) = sv_fds sv" "sv_running (reapFinishedWorkers sv) = sv_running sv"
  "openWorkers (reapFinishedWorkers sv) = openWorkers sv"
  by (simp_all add: reapFinishedWorkers_def)

lemma books_okI:
  assumes "conns perIP (sv_limiter sv') opened" "mset opened = mset (map wk_ip (openWorkers sv))"
    "books_ok maxConn perIP sv" "sv_active sv' = sv_active sv" "sv_fds sv' = sv_fds sv" "sv_workers sv' = sv_workers sv"
  shows "books_ok maxConn perIP sv'"
  using assms by (auto simp: books_ok_def)

lemma books_ok_cong:
  assumes "books_ok maxConn perIP sv" "sv_limiter sv' = sv_limiter sv" "sv_active sv' = sv_active sv"
    "sv_fds sv' = sv_fds sv" "openWorkers sv' = openWorkers sv"
  shows "books_ok maxConn perIP sv'"
  using assms by (simp add: books_ok_def)

lemma books_reap: "books_ok maxConn perIP sv \<Longrightarrow> books_ok maxConn perIP (reapFinishedWorkers sv)"
  by (rule books_ok_cong) simp_all

lemma conns_step:
  assumes "conns n l opened" "connTryAcquire ip l = (ok, l')"
  shows "conns n l' (if ok then ip # opened else opened)"
  using assms conns.admit [of n l opened ip l'] conns.refuse [of n l opened ip l'] by (cases ok) auto

lemma conns_undo:
  assumes "conns n l opened" "connTryAcquire ip l = (True, l')"
  shows "conns n (connRelease ip l') opened"
  using conns.finish [OF conns.admit [OF assms], of ip] by simp

lemma books_accept:
  assumes b: "books_ok maxConn perIP sv" and fd: "pe_fd p \<notin> set (sv_fds sv)"
    and step: "acceptPeer maxConn p sv = (d, sv')"
  shows "books_ok maxConn perIP sv'"
proof -
  let ?ip = "peerKey (pe_ntop p) (pe_raw p)"
  obtain opened where o: "conns perIP (sv_limiter sv) opened" "mset opened = mset (map wk_ip (openWorkers sv))"
    using b by (auto simp: books_ok_def)
  obtain ok l where l: "connTryAcquire ?ip (sv_limiter sv) = (ok, l)" by fastforce
  note c = conns_step [OF o(1) l]
  show ?thesis
  proof (cases "maxConn \<le> sv_active sv")
    case True
    with step b show ?thesis by (auto simp: acceptPeer_def Let_def closeFd_def books_ok_def)
  next
    case room: False
    show ?thesis
    proof (cases ok)
      case False
      with step room l c o(2) b show ?thesis by (auto simp: acceptPeer_def Let_def closeFd_def books_ok_def)
    next
      case True
      note u = conns_undo [OF o(1), of ?ip l]
      show ?thesis
      proof (cases "pe_sslNew p \<and> pe_setFd p \<and> pe_handshake p \<and> pe_spawned p")
        case False
        with True step room l have "sv_limiter sv' = connRelease ?ip l" and same: "sv_active sv' = sv_active sv"
          "sv_fds sv' = sv_fds sv" "sv_workers sv' = sv_workers sv"
          by (auto simp: acceptPeer_def Let_def closeFd_def dropPeer_def split: if_splits)
        moreover have "conns perIP (connRelease ?ip l) opened" using u l True by simp
        ultimately show ?thesis using books_okI [of perIP sv' opened sv maxConn] o(2) b by simp
      next
        case alive: True
        have "mset (?ip # opened) = add_mset ?ip (mset (map wk_ip (openWorkers sv)))" using o(2) by simp
        with True step room l c b fd alive show ?thesis
          by (auto simp: acceptPeer_def Let_def books_ok_def intro!: exI [of _ "?ip # opened"])
      qed
    qed
  qed
qed

lemma mset_filter_update:
  assumes "i < length ws" "P (ws ! i)" "\<not> P w"
  shows "mset (filter P (ws[i := w])) = mset (filter P ws) - {# ws ! i #}"
  using assms by (simp add: mset_update)

lemma image_mset_minus: "x \<in># M \<Longrightarrow> image_mset f (M - {# x #}) = image_mset f M - {# f x #}"
  by (simp add: image_mset_Diff)

lemma books_leave:
  assumes b: "books_ok maxConn perIP sv" and i: "i < length (sv_workers sv)" "\<not> wk_done (sv_workers sv ! i)"
  shows "books_ok maxConn perIP (workerExit i sv)"
proof -
  let ?w = "sv_workers sv ! i" and ?M = "mset (openWorkers sv)"
  obtain opened where o: "conns perIP (sv_limiter sv) opened" "mset opened = image_mset wk_ip ?M"
    using b by (auto simp: books_ok_def)
  have w: "?w \<in># ?M" using i by (simp add: set_conv_nth) blast
  have u: "mset (openWorkers (workerExit i sv)) = ?M - {# ?w #}"
    using mset_filter_update [of i "sv_workers sv" "\<lambda>w. \<not> wk_done w" "?w\<lparr> wk_done := True \<rparr>"] i
    by (simp add: workerExit_def Let_def)
  have "wk_ip ?w \<in> set opened" using w o(2) by (metis image_eqI set_image_mset set_mset_mset)
  then have "conns perIP (connRelease (wk_ip ?w) (sv_limiter sv)) (remove1 (wk_ip ?w) opened)"
    by (rule conns.finish [OF o(1)])
  moreover have "mset (remove1 (wk_ip ?w) opened) = image_mset wk_ip (?M - {# ?w #})"
    using w o(2) by (simp add: image_mset_minus)
  moreover have "mset (remove1 (wk_fd ?w) (sv_fds sv)) = image_mset wk_fd (?M - {# ?w #})"
    using b w by (simp add: books_ok_def image_mset_minus)
  moreover have "length (openWorkers (workerExit i sv)) = length (openWorkers sv) - 1"
    using u w by (metis size_Diff_singleton size_mset)
  ultimately show ?thesis
    using b u by (auto simp: books_ok_def workerExit_def dropPeer_def closeFd_def Let_def)
qed

lemma books_round:
  assumes b: "books_ok maxConn perIP sv" and fresh: "fresh_fd r sv" and step: "acceptIteration maxConn r sv = (d, sv')"
  shows "books_ok maxConn perIP sv'"
proof (cases r)
  case (PeerAccepted p)
  with fresh step books_accept [OF books_reap [OF b], of p d sv'] show ?thesis
    by (simp add: acceptIteration_def fresh_fd_def)
next
  case (PollFailed e)
  with step b books_ok_cong [OF b, of "sv\<lparr> sv_running := False \<rparr>"] show ?thesis
    by (auto simp: acceptIteration_def split: if_splits)
next
  case (AcceptFailed e)
  with step books_reap [OF b] books_ok_cong [OF books_reap [OF b], of "(reapFinishedWorkers sv)\<lparr> sv_running := False \<rparr>"]
  show ?thesis by (auto simp: acceptIteration_def split: if_splits)
qed (use step books_reap [OF b] in \<open>auto simp: acceptIteration_def\<close>)

lemma serving_books: "serving maxConn perIP sv \<Longrightarrow> books_ok maxConn perIP sv"
proof (induction rule: serving.induct)
  case start
  then show ?case using conns.start by (auto simp: books_ok_def Server0_def)
next
  case (round sv r d sv')
  then show ?case using books_round by blast
next
  case (leave sv i)
  then show ?case using books_leave by blast
qed

lemma count_list_ips: "mset opened = mset (map wk_ip ws) \<Longrightarrow> count_list opened ip = length (filter (\<lambda>w. wk_ip w = ip) ws)"
proof -
  assume m: "mset opened = mset (map wk_ip ws)"
  have "count (mset xs) x = count_list xs x" for xs and x :: string by (induction xs) auto
  with m have "count_list opened ip = count_list (map wk_ip ws) ip" by metis
  also have "\<dots> = length (filter (\<lambda>w. wk_ip w = ip) ws)" by (induction ws) auto
  finally show ?thesis .
qed

lemma acceptPeer_spawned:
  "(\<exists>route. fst (acceptPeer maxConn p sv) = Spawned route) \<longleftrightarrow>
     sv_active sv < maxConn \<and> fst (connTryAcquire (peerKey (pe_ntop p) (pe_raw p)) (sv_limiter sv)) \<and>
     pe_sslNew p \<and> pe_setFd p \<and> pe_handshake p \<and> pe_spawned p"
  by (auto simp: acceptPeer_def Let_def not_less split: prod.splits)

section \<open>Properties: the accept loop\<close>

text \<open>
  C21.  The accept loop keeps its books in every history of rounds and worker exits, whatever fails in
  between: the counter is the number of live workers and never exceeds the limit, the open descriptors
  are exactly those of the live workers (none leaks and none is closed twice), no address exceeds its
  share, and a peer gets a worker exactly if there is room, its address has room and TLS succeeds.
\<close>

theorem connections_accounted:
  assumes "serving maxConn perIP sv"
  shows "sv_active sv = length (openWorkers sv) \<and> sv_active sv \<le> maxConn \<and>
    mset (sv_fds sv) = mset (map wk_fd (openWorkers sv)) \<and> distinct (sv_fds sv) \<and>
    (\<forall>ip. ip = [] \<or> length (filter (\<lambda>w. wk_ip w = ip) (openWorkers sv)) \<le> max perIP 1) \<and>
    (\<forall>p. (\<exists>route. fst (acceptPeer maxConn p sv) = Spawned route) \<longleftrightarrow>
       length (openWorkers sv) < maxConn \<and>
       (peerKey (pe_ntop p) (pe_raw p) = [] \<or>
        length (filter (\<lambda>w. wk_ip w = peerKey (pe_ntop p) (pe_raw p)) (openWorkers sv)) < max perIP 1) \<and>
       pe_sslNew p \<and> pe_setFd p \<and> pe_handshake p \<and> pe_spawned p)"
proof -
  have b: "books_ok maxConn perIP sv" using assms by (rule serving_books)
  then obtain opened where o: "conns perIP (sv_limiter sv) opened" "mset opened = mset (map wk_ip (openWorkers sv))"
    by (auto simp: books_ok_def)
  note limit = conn_limit [OF o(1), unfolded count_list_ips [OF o(2)]]
  have room: "fst (connTryAcquire ip (sv_limiter sv)) \<longleftrightarrow>
      ip = [] \<or> length (filter (\<lambda>w. wk_ip w = ip) (openWorkers sv)) < max perIP 1" for ip
    using limit [of ip] by (cases "ip = []") (auto simp: connTryAcquire_def)
  from b have "sv_active sv = length (openWorkers sv)" by (simp add: books_ok_def)
  with b limit show ?thesis unfolding acceptPeer_spawned room books_ok_def by auto
qed

definition demo_peer :: "nat \<Rightarrow> string \<Rightarrow> bool \<Rightarrow> Peer" where
  "demo_peer fd ip tls = \<lparr> pe_fd = fd, pe_ntop = Some ip, pe_raw = 0, pe_sslNew = True, pe_setFd = True, pe_handshake = tls,
     pe_alpn = ''ntm-wire'', pe_waiting = ''GET /ntm-ws HTTP/1.1'', pe_spawned = True \<rparr>"

text \<open>One open connection is all that one address may have; another address still gets in.\<close>

theorem connections_accounted_witness:
  "\<exists>sv. serving 2 1 sv \<and> sv_fds sv = [7] \<and>
    (\<nexists>route. fst (acceptPeer 2 (demo_peer 8 ''10.0.0.1'' True) sv) = Spawned route) \<and>
    (\<exists>route. fst (acceptPeer 2 (demo_peer 8 ''10.0.0.2'' True) sv) = Spawned route)"
proof -
  obtain d sv where a: "acceptIteration 2 (PeerAccepted (demo_peer 7 ''10.0.0.1'' True)) (Server0 1) = (d, sv)"
    by fastforce
  then have s: "serving 2 1 sv"
    by (rule serving.round [OF serving.start, rotated 2]) (simp_all add: Server0_def fresh_fd_def)
  have sv: "sv_workers sv = [\<lparr> wk_fd = 7, wk_ip = ''10.0.0.1'', wk_route = WebSocketRoute, wk_done = False \<rparr>]" "sv_fds sv = [7]"
    using a by (auto simp: acceptIteration_def acceptPeer_def Let_def Server0_def reapFinishedWorkers_def demo_peer_def
        connTryAcquire_def newConnLimiter_def peerKey_def routeOf_def kWsPath_def)
  from connections_accounted [OF s] s show ?thesis
    by (intro exI [of _ sv] conjI) (simp_all add: sv demo_peer_def peerKey_def)
qed

section \<open>Lemmas: the workers\<close>

text \<open>What a session of one client may do to the others.  Its own keys in the store start with its id
  and \<open>|\<close>; the days of the others, without the buckets that hold nothing of them, may only leave the
  window at its old end.\<close>

definition foreignDays :: "string \<Rightarrow> TrafficStatsShard \<Rightarrow> DayBucket list" where
  "foreignDays c sh = filter (\<lambda>b. b \<noteq> DayBucket0 (db_dayIndex b)) (map (purgeBucket c) (dayBuckets sh))"

definition traffic_kept :: "(string \<Rightarrow> u64) \<Rightarrow> string \<Rightarrow> TrafficStats \<Rightarrow> TrafficStats \<Rightarrow> bool" where
  "traffic_kept hash c st st' \<longleftrightarrow>
     (\<forall>i. i \<noteq> shardIndex hash c \<longrightarrow> shards st' i = shards st i) \<and>
     (let sh = shards st (shardIndex hash c); sh' = shards st' (shardIndex hash c) in
        suffix (foreignDays c sh') (foreignDays c sh) \<and>
        (\<forall>c'. c' \<noteq> c \<longrightarrow> map_of (clientIfaces sh') c' = map_of (clientIfaces sh) c' \<and>
           map_of (ifaceRejectCount sh') c' = map_of (ifaceRejectCount sh) c' \<and>
           map_of (clientHistory sh') c' = map_of (clientHistory sh) c'))"

text \<open>No address is given to another client.  Another client can lose an address to this one only if it is
  the peer's own address or a LAN address, which an A-line may announce.\<close>

definition ips_kept :: "LineEnv \<Rightarrow> (string \<times> string) list \<Rightarrow> (string \<times> string) list \<Rightarrow> bool" where
  "ips_kept env m m' \<longleftrightarrow>
     (\<forall>ip. (map_of m' ip = map_of m ip \<or> map_of m' ip = Some (le_clientId env) \<or> map_of m' ip = None) \<and>
        (map_of m ip \<noteq> Some (le_clientId env) \<longrightarrow> ip \<noteq> le_clientIp env \<longrightarrow> \<not> le_isLanIP env ip \<longrightarrow>
           map_of m' ip = map_of m ip))"

text \<open>All of it, for the client of \<open>env\<close>.\<close>

definition others_kept :: "LineEnv \<Rightarrow> World \<Rightarrow> World \<Rightarrow> bool" where
  "others_kept env w w' \<longleftrightarrow>
     (\<forall>c'. c' \<noteq> le_clientId env \<longrightarrow>
        map_of (clientHealth (w_registry w')) c' = map_of (clientHealth (w_registry w)) c' \<and>
        map_of (clientToExternalIp (w_registry w')) c' = map_of (clientToExternalIp (w_registry w)) c' \<and>
        map_of (w_updates w') c' = map_of (w_updates w) c' \<and>
        map_of (w_channels w') c' = map_of (w_channels w) c') \<and>
     protoRejections (w_registry w') = protoRejections (w_registry w) \<and>
     ips_kept env (ipToClientId (w_registry w)) (ipToClientId (w_registry w')) \<and>
     traffic_kept (le_hash env) (le_clientId env) (w_stats w) (w_stats w')"

lemma traffic_kept_refl [simp]: "traffic_kept hash c st st"
  by (simp add: traffic_kept_def Let_def)

lemma traffic_kept_trans: "traffic_kept hash c st st1 \<Longrightarrow> traffic_kept hash c st1 st2 \<Longrightarrow> traffic_kept hash c st st2"
  by (auto simp: traffic_kept_def Let_def intro: suffix_order.trans)

lemma ips_kept_refl [simp]: "ips_kept env m m"
  by (simp add: ips_kept_def)

lemma ips_kept_trans: "ips_kept env m m1 \<Longrightarrow> ips_kept env m1 m2 \<Longrightarrow> ips_kept env m m2"
  unfolding ips_kept_def by metis

lemma others_kept_refl [simp]: "others_kept env w w"
  by (simp add: others_kept_def)

lemma others_kept_trans: "others_kept env w w1 \<Longrightarrow> others_kept env w1 w2 \<Longrightarrow> others_kept env w w2"
  by (auto simp: others_kept_def intro: ips_kept_trans traffic_kept_trans)

text \<open>A packet of a client leaves the other clients of its shard alone.\<close>

lemma erase_if_upd_at: "Q k \<Longrightarrow> erase_if (\<lambda>k _. Q k) (upd_at d k f m) = erase_if (\<lambda>k _. Q k) m"
proof -
  assume "Q k"
  then have "filter (\<lambda>(k, _). \<not> Q k) (AList.update k v m) = filter (\<lambda>(k, _). \<not> Q k) m" for v by (induction m) auto
  then show ?thesis by (simp add: erase_if_def upd_at_def)
qed

lemma purgeBucket_add:
  assumes "addToBucket mf me t (ciKey c i) fk cyk ek len b = Inr b'"
  shows "purgeBucket c b' = purgeBucket c b"
proof -
  have "ownKey c (ciKey c i)" by (simp add: ownKey_def ciKey_def starts_with_def)
  then show ?thesis
    using addToBucket_InrD [OF assms] addToBucket_dayIndex [OF assms]
    by (simp add: purgeBucket_def erase_if_upd_at)
qed

lemma addPacket_kept:
  assumes "addPacket hash lan t p st = Inr (r, st')"
  shows "traffic_kept hash (pi_clientId p) st st'"
  using assms
proof (cases rule: addPacket_InrD)
  case (1 sh')
  let ?c = "pi_clientId p" and ?sh = "shards st (shardIndex hash (pi_clientId p))"
  have sh': "shards st' (shardIndex hash ?c) = sh'" by (simp add: 1(2))
  from 1(1) have "suffix (foreignDays ?c sh') (foreignDays ?c ?sh) \<and>
      (\<forall>c'. c' \<noteq> ?c \<longrightarrow> map_of (clientIfaces sh') c' = map_of (clientIfaces ?sh) c' \<and>
         map_of (ifaceRejectCount sh') c' = map_of (ifaceRejectCount ?sh) c' \<and>
         map_of (clientHistory sh') c' = map_of (clientHistory ?sh) c')"
  proof (cases rule: addPacketShard_cases)
    case rejected
    then show ?thesis by (simp add: foreignDays_def map_of_upd_at)
  next
    case (accepted older today today')
    let ?F = "\<lambda>bs. filter (\<lambda>b. b \<noteq> DayBucket0 (db_dayIndex b)) (map (purgeBucket ?c) bs)"
    have "?F (older @ [today']) = ?F (older @ [today])" by (simp add: purgeBucket_add [OF accepted(4)])
    also have "\<dots> = ?F (dayBuckets ?sh)"
    proof (cases "dayBuckets ?sh = [] \<or> db_dayIndex (last (dayBuckets ?sh)) \<noteq> dayIndexOf t")
      case True
      then have "older = dayBuckets ?sh" "today = DayBucket0 (dayIndexOf t)"
        using accepted(3) by (auto simp: openBucket_def)
      then show ?thesis by (simp add: purgeBucket_def DayBucket0_def erase_if_def)
    next
      case False
      then have "older @ [today] = dayBuckets ?sh" using accepted(3) by (auto simp: openBucket_def)
      then show ?thesis by simp
    qed
    finally have F: "?F (older @ [today']) = ?F (dayBuckets ?sh)" .
    have "suffix (?F (drop n bs)) (?F bs)" for n bs
      by (metis append_take_drop_id filter_append map_append suffixI)
    from this [of _ "older @ [today']"] have "suffix (?F (trimWindow (windowDays st) (older @ [today']))) (?F (dayBuckets ?sh))"
      unfolding trimWindow_def F [symmetric] .
    then show ?thesis by (simp add: accepted(5) foreignDays_def map_of_upd_at)
  qed
  then show ?thesis by (simp add: traffic_kept_def sh' Let_def) (simp add: 1(2))
qed

definition line_effect :: "LineEnv \<Rightarrow> World \<Rightarrow> World \<Rightarrow> bool" where
  "line_effect env w w' \<longleftrightarrow>
     registry_ok (w_registry w') \<and> others_kept env w w'"

lemma processLine_registry_ok:
  assumes "registry_ok (w_registry w)" "processLine cfg env a y l (s, w) = Inr (s', w')"
  shows "registry_ok (w_registry w')"
proof -
  have "registry_ok (w_registry (snd (handleX env a l s w)))" using assms(1) by (simp add: handleX_def Let_def)
  moreover have "registry_ok (w_registry (snd (handleA cfg env l s w)))"
    using assms(1) by (auto simp: handleA_def Let_def registry_ok_def)
  moreover have "registry_ok (w_registry w1)" if "handleD cfg env a y l s w = Inr (s1, w1)" for s1 w1
    using that assms(1) by (auto simp: handleD_def Let_def split: option.splits sum.splits if_splits prod.splits)
  moreover have "registry_ok (w_registry (handleH env y l w))" using assms(1) by (simp add: handleH_def)
  moreover have "registry_ok (w_registry (handleL env a l w))"
    using assms(1) by (auto simp: handleL_def Let_def split: option.splits)
  ultimately show ?thesis using assms by (auto simp: processLine_def split: if_splits)
qed

lemma processLine_ips:
  assumes "registry_ok (w_registry w)" "processLine cfg env a y l (s, w) = Inr (s', w')"
  shows "ips_kept env (ipToClientId (w_registry w)) (ipToClientId (w_registry w')) \<and>
    protoRejections (w_registry w') = protoRejections (w_registry w)"
proof -
  let ?P = "\<lambda>w1. ips_kept env (ipToClientId (w_registry w)) (ipToClientId (w_registry w1)) \<and>
    protoRejections (w_registry w1) = protoRejections (w_registry w)"
  have k: "keys_ok (ipToClientId (w_registry w))" using assms(1) by (simp add: registry_ok_def)
  have X: "?P (snd (handleX env a l s w))"
    by (auto simp: handleX_def announceExternal_def ips_kept_def map_of_update map_of_erase_if [OF k] Let_def
        split: option.splits)
  have A: "?P (snd (handleA cfg env l s w))" by (auto simp: handleA_def ips_kept_def map_of_update Let_def)
  have D: "?P w1" if "handleD cfg env a y l s w = Inr (s1, w1)" for s1 w1
    using that by (auto simp: handleD_def Let_def split: option.splits sum.splits if_splits)
  have H: "?P (handleH env y l w)" by (simp add: handleH_def setHealth_def)
  have L: "?P (handleL env a l w)" by (auto simp: handleL_def Let_def split: option.splits)
  from assms(2) X A D H L show ?thesis by (auto simp: processLine_def split: if_splits)
qed

lemma processLine_traffic:
  assumes "processLine cfg env a y l (s, w) = Inr (s', w')"
  shows "traffic_kept (le_hash env) (le_clientId env) (w_stats w) (w_stats w')"
proof -
  have X: "w_stats (snd (handleX env a l s w)) = w_stats w" by (simp add: handleX_def Let_def)
  have A: "w_stats (snd (handleA cfg env l s w)) = w_stats w" by (simp add: handleA_def Let_def)
  have D: "traffic_kept (le_hash env) (le_clientId env) (w_stats w) (w_stats w1)"
    if "handleD cfg env a y l s w = Inr (s1, w1)" for s1 w1
    using that addPacket_kept [where hash = "le_hash env"]
    by (fastforce simp: handleD_def Let_def packetOf_def split: option.splits sum.splits if_splits)
  have H: "w_stats (handleH env y l w) = w_stats w" by (simp add: handleH_def)
  have L: "w_stats (handleL env a l w) = w_stats w" by (auto simp: handleL_def Let_def split: option.splits)
  from assms X A D H L show ?thesis by (auto simp: processLine_def split: if_splits)
qed

lemma processLine_effect:
  assumes "registry_ok (w_registry w)" "processLine cfg env a y l (s, w) = Inr (s', w')"
  shows "line_effect env w w'"
  using processLine_others [OF _ assms(2)] processLine_registry_ok [OF assms] assms(1) processLine_ips [OF assms]
    processLine_traffic [OF assms(2)]
  by (simp add: line_effect_def same_for_others_def others_kept_def registry_ok_def)

lemma processLines_effect:
  "registry_ok (w_registry w) \<Longrightarrow> processLines cfg env a y i ls (s, w) = Inr (s', w') \<Longrightarrow> line_effect env w w'"
proof (induction ls arbitrary: i s w)
  case (Cons l ls)
  from Cons.prems(2) obtain s1 w1 where p: "processLine cfg env (a i) (y i) l (s, w) = Inr (s1, w1)"
    and r: "processLines cfg env a y (i + 1) ls (s1, w1) = Inr (s', w')" by (auto split: sum.splits)
  from processLine_effect [OF Cons.prems(1) p] have e: "line_effect env w w1" .
  with Cons.IH [OF _ r] have "line_effect env w1 w'" by (simp add: line_effect_def)
  with e show ?case by (auto simp: line_effect_def intro: others_kept_trans)
qed (simp add: line_effect_def)

lemma loopTick_effect:
  assumes "registry_ok (w_registry w)"
    and "loopTick cfg env inflate start tk s w z = Going s' w' z' \<or> loopTick cfg env inflate start tk s w z = Ended s' w'"
  shows "line_effect env w w'"
  using assms
  by (auto simp: loopTick_def Let_def line_effect_def dest: processLines_effect
      split: if_splits RecvResult.splits option.splits prod.splits sum.splits)

lemma runWireDataLoop_effect:
  "registry_ok (w_registry w) \<Longrightarrow>
    runWireDataLoop cfg env inflate start tks s w z = Going s' w' z' \<or>
    runWireDataLoop cfg env inflate start tks s w z = Ended s' w' \<Longrightarrow> line_effect env w w'"
proof (induction tks arbitrary: s w z)
  case (Cons tk tks)
  show ?case
  proof (cases "loopTick cfg env inflate start tk s w z")
    case (Going s1 w1 z1)
    with loopTick_effect [OF Cons.prems(1), of cfg env inflate start tk s z s1 w1 z1] have e: "line_effect env w w1" by simp
    have "registry_ok (w_registry w1)" using e by (simp add: line_effect_def)
    moreover have "runWireDataLoop cfg env inflate start tks s1 w1 z1 = Going s' w' z' \<or>
        runWireDataLoop cfg env inflate start tks s1 w1 z1 = Ended s' w'" using Cons.prems(2) Going by simp
    ultimately have "line_effect env w1 w'" by (rule Cons.IH)
    with e show ?thesis by (auto simp: line_effect_def intro: others_kept_trans)
  next
    case (Ended s1 w1)
    with Cons.prems loopTick_effect [OF Cons.prems(1), of cfg env inflate start tk s z s1 w1] show ?thesis by auto
  qed (use Cons.prems in simp)
qed (simp add: line_effect_def)

lemma openSession_effect: "registry_ok (w_registry w) \<Longrightarrow> line_effect env w (openSession env w)"
  by (auto simp: line_effect_def openSession_def others_kept_def registerSession_def channelAdd_def registry_ok_def
      map_of_update ips_kept_def)

lemma closeSession_effect:
  "registry_ok (w_registry w) \<Longrightarrow> le_clientId env \<noteq> [] \<Longrightarrow> line_effect env w (closeSession env w)"
  using registry_ok_ops(1) [of "w_registry w" "le_clientId env"]
  by (auto simp: line_effect_def closeSession_def others_kept_def removeClient_def channelRemove_def map_of_erase
      ips_kept_def map_of_erase_if registry_ok_def split: option.splits)

lemma closeSession_gone:
  assumes "registry_ok (w_registry w)" "le_clientId env \<noteq> []"
  shows "channelGet (le_clientId env) (w_channels (closeSession env w)) = None"
    "map_of (ipToClientId (w_registry (closeSession env w))) ip \<noteq> Some (le_clientId env)"
  using assms
  by (auto simp: closeSession_def channelGet_def channelRemove_def map_of_erase removeClient_def map_of_erase_if
      registry_ok_def split: option.splits)

lemma sessionPhase_effect:
  assumes "registry_ok (w_registry w)" "le_clientId env \<noteq> []"
    and "sessionPhase cfg env inflate z io ticks caps w = ending" "ending = Returned w' \<or> ending = Looping w'"
  shows "line_effect env w w' \<and>
    (ending = Returned w' \<longrightarrow> channelGet (le_clientId env) (w_channels w') = None \<and>
       (\<forall>ip. map_of (ipToClientId (w_registry w')) ip \<noteq> Some (le_clientId env)))"
proof -
  let ?w1 = "openSession env w"
  have o: "line_effect env w ?w1" using assms(1) by (rule openSession_effect)
  then have r1: "registry_ok (w_registry ?w1)" by (simp add: line_effect_def)
  have close: "line_effect env w (closeSession env w2)" if "line_effect env ?w1 w2" for w2
    using o that closeSession_effect [of w2 env] assms(2) unfolding line_effect_def by (metis others_kept_trans)
  show ?thesis
  proof (cases "io_loopTimeout io")
    case False
    with assms close [of ?w1] r1 closeSession_gone [OF r1 assms(2)] show ?thesis
      by (auto simp: sessionPhase_def Let_def line_effect_def)
  next
    case True
    let ?run = "runWireDataLoop cfg env (inflaterFor caps inflate) (io_sessionStart io) ticks (Session0 (io_loopStart io) ?w1) ?w1 z"
    note e = runWireDataLoop_effect [OF r1, of cfg env "inflaterFor caps inflate" "io_sessionStart io" ticks
        "Session0 (io_loopStart io) ?w1" z]
    show ?thesis
    proof (cases ?run)
      case (Ended s2 w2)
      with e have w2: "line_effect env ?w1 w2" by blast
      with True Ended assms(3,4) have "ending = Returned w'" "w' = closeSession env w2"
        by (auto simp: sessionPhase_def Let_def)
      with close [OF w2] closeSession_gone [of w2 env] w2 assms(2) show ?thesis by (simp add: line_effect_def)
    next
      case (Going s2 w2 z2)
      with e have w2: "line_effect env ?w1 w2" by blast
      with True Going assms(3,4) have "ending = Looping w'" "w' = w2" by (auto simp: sessionPhase_def Let_def)
      with o w2 show ?thesis by (auto simp: line_effect_def intro: others_kept_trans)
    qed (use True assms(3,4) in \<open>auto simp: sessionPhase_def Let_def\<close>)
  qed
qed

text \<open>What a worker may have done: nothing but a note of the rejection, or the work of a client whose key is
  allowed and which signed the nonce of this connection.\<close>

definition unauthenticated :: "World \<Rightarrow> World \<Rightarrow> bool" where
  "unauthenticated w w' \<longleftrightarrow>
     (\<exists>q. length q \<le> 20 \<and> w' = w\<lparr> w_registry := (w_registry w)\<lparr> protoRejections := q \<rparr> \<rparr>)"

text \<open>The key and the signature that a stream presents after its version byte.\<close>

definition presents :: "'s readFn \<Rightarrow> 's \<Rightarrow> bytes \<Rightarrow> bytes \<Rightarrow> bool" where
  "presents readFn s pub sig \<longleftrightarrow>
     (\<exists>v s1 extra resp s2. readFn 1 s = (Some v, s1) \<and>
        (hd v = kAuthVersionV2 \<and> extra = 0 \<or> hd v = kAuthVersionV3 \<and> extra = 1) \<and>
        readFn (kAuthPubkeyLen + kAuthSignatureLen + extra) s1 = (Some resp, s2) \<and>
        pub = take kAuthPubkeyLen resp \<and> sig = take kAuthSignatureLen (drop kAuthPubkeyLen resp))"

definition authenticated_as :: "(bytes \<Rightarrow> bytes \<Rightarrow> bool) \<Rightarrow> (bytes \<Rightarrow> bytes \<Rightarrow> bytes \<Rightarrow> bool) \<Rightarrow> bytes list \<Rightarrow> ConnIO \<Rightarrow> bytes \<Rightarrow> bool" where
  "authenticated_as presented verify keys io pub \<longleftrightarrow> pub \<in> set keys \<and> length pub = kAuthPubkeyLen \<and>
     (\<exists>nonce sig. io_nonce io = Some nonce \<and> presented pub sig \<and> verify pub (kAuthSignPrefixV2 @ nonce) sig)"

definition session_effect :: "LineEnv \<Rightarrow> string \<Rightarrow> World \<Rightarrow> ThreadEnd \<Rightarrow> World \<Rightarrow> bool" where
  "session_effect env clientId w ending w' \<longleftrightarrow>
     others_kept (sessionEnv env clientId) w w' \<and>
     (ending = Returned w' \<longrightarrow> channelGet clientId (w_channels w') = None \<and>
        (\<forall>ip. map_of (ipToClientId (w_registry w')) ip \<noteq> Some clientId))"

lemma authChallenge_presents:
  assumes "authChallenge readFn writeOk rand verify keys extra s1 = ((Some (pub, ext), sent), s2)"
  shows "\<exists>nonce resp s3. rand = Some nonce \<and> readFn (kAuthPubkeyLen + kAuthSignatureLen + extra) s1 = (Some resp, s3) \<and>
    pub = take kAuthPubkeyLen resp \<and> pub \<in> set keys \<and> length pub = kAuthPubkeyLen \<and>
    verify pub (kAuthSignPrefixV2 @ nonce) (take kAuthSignatureLen (drop kAuthPubkeyLen resp))"
  using assms by (auto simp: authChallenge_def Let_def allowedKeysContains_iff split: option.splits prod.splits if_splits)

lemma verifyClientAuth_presents:
  assumes "verifyClientAuth readFn w rand verify keys s = (r, s')" "ar_clientId r \<noteq> []"
  shows "\<exists>nonce pub sig. rand = Some nonce \<and> presents readFn s pub sig \<and> pub \<in> set keys \<and>
    length pub = kAuthPubkeyLen \<and> verify pub (kAuthSignPrefixV2 @ nonce) sig \<and> ar_clientId r = hexEncode pub"
proof -
  obtain v s1 where v: "readFn 1 s = (Some v, s1)"
    using assms by (auto simp: verifyClientAuth_def AuthRun0_def split: option.splits prod.splits if_splits)
  have "\<exists>extra pub ext sent s2. (hd v = kAuthVersionV2 \<and> extra = 0 \<or> hd v = kAuthVersionV3 \<and> extra = 1) \<and>
      authChallenge readFn w rand verify keys extra s1 = ((Some (pub, ext), sent), s2) \<and> ar_clientId r = hexEncode pub"
    using assms v
    by (fastforce simp: verifyClientAuth_def Let_def AuthRun0_def split: option.splits prod.splits if_splits)
  then show ?thesis using v unfolding presents_def by (blast dest: authChallenge_presents)
qed

lemma unauthenticated_refl: "registry_ok (w_registry w) \<Longrightarrow> unauthenticated w w"
  by (auto simp: unauthenticated_def registry_ok_def intro!: exI [of _ "protoRejections (w_registry w)"])

lemma unauthenticated_reject:
  assumes "registry_ok (w_registry w)" shows "unauthenticated w (rejectSession env io r w)"
proof -
  let ?q = "protoRejections (recordRejection (le_clientIp env) (ar_attemptedVersion r) (io_atSec io) (w_registry w))"
  have "length ?q \<le> 20" using registry_ok_ops(2) [OF assms] by (simp add: registry_ok_def)
  moreover have "rejectSession env io r w = w\<lparr> w_registry := (w_registry w)\<lparr> protoRejections := ?q \<rparr> \<rparr>"
    by (auto simp: rejectSession_def recordRejection_def Let_def)
  ultimately show ?thesis unfolding unauthenticated_def by blast
qed

lemma serveClient_gate:
  assumes w: "registry_ok (w_registry w)"
    and run: "serveClient readFn cfg env verify keys inflate z io ticks s w = (sent, ending)"
    and w': "ending = Returned w' \<or> ending = Looping w'"
  shows "ending = Returned w' \<and> unauthenticated w w' \<or>
    (\<exists>pub. authenticated_as (presents readFn s) verify keys io pub \<and> session_effect env (hexEncode pub) w ending w')"
proof -
  obtain r s' where v: "verifyClientAuth readFn (io_nonceWrite io) (io_nonce io) verify keys s = (r, s')" by fastforce
  show ?thesis
  proof (cases "io_authTimeout io \<and> ar_clientId r \<noteq> [] \<and> io_okWrite io \<and> (ar_isV3 r \<longrightarrow> io_capsWrite io)")
    case False
    with run v w' unauthenticated_refl [OF w] unauthenticated_reject [OF w, of env io r] show ?thesis
      by (auto simp: serveClient_def Let_def split: if_splits)
  next
    case True
    then have id: "ar_clientId r \<noteq> []" by blast
    obtain pub where pub: "authenticated_as (presents readFn s) verify keys io pub" "ar_clientId r = hexEncode pub"
      using verifyClientAuth_presents [OF v id] by (auto simp: authenticated_as_def)
    from run v True have "sessionPhase cfg (sessionEnv env (ar_clientId r)) inflate z io ticks (ar_negotiatedCaps r) w = ending"
      by (auto simp: serveClient_def Let_def split: if_splits)
    from sessionPhase_effect [OF w _ this w'] id have "session_effect env (hexEncode pub) w ending w'"
      by (simp add: sessionEnv_def session_effect_def line_effect_def pub(2))
    with pub(1) show ?thesis by blast
  qed
qed

text \<open>The web worker serves at most as many requests as allowed, and announces the end exactly on the last.\<close>

lemma keepAliveLoop_last:
  "length (keepAliveLoop n rs) \<le> n \<and> (\<forall>i < length (keepAliveLoop n rs). keepAliveLoop n rs ! i \<longleftrightarrow> i + 1 = n)"
proof (induction n rs rule: keepAliveLoop.induct)
  case (3 n ok closed rs)
  then show ?case by (auto simp: Let_def nth_Cons split: nat.split)
qed simp_all

section \<open>Properties: the workers\<close>

text \<open>
  C6.  Nothing is counted without authentication, over TLS and over WebSocket: whatever bytes arrive, a
  worker leaves the shared state as it is, up to the list of rejected protocol versions (at most 20), or
  the peer has sent, after its version byte, an allowed key and a signature of the nonce of this connection
  that verifies under this key.  Then the session works for the client of that key only: health, external
  address, update status and channel of every other client are as before, and so is their traffic, in
  this shard and the others, but for days that leave the window; no address is given to another client,
  and another client can lose an address to this one only if it is the peer's own or a LAN address (a
  weakness: the code overwrites it).  Once the worker has returned, no channel and no address names its client.
\<close>

theorem connection_gate:
  assumes "registry_ok (w_registry w)"
    and "connectionThread cfg env verify keys inflate z io ticks inp w = (sent, ending) \<and>
        presented = presents tls_readExact inp \<or>
      wsConnectionThread sha1b64 e cfg env verify keys inflate z io ticks inp w = (sent, ending) \<and>
        presented = presents (\<lambda>n. ws_readExact n e n)
          \<lparr> ws_buf = [], ws_bufPos = 0, ws_timedOut = False, ws_in = snd (wsReadHttpRequest inp) \<rparr>"
    and "ending = Returned w' \<or> ending = Looping w'"
  shows "ending = Returned w' \<and> unauthenticated w w' \<or>
    (\<exists>pub. authenticated_as presented verify keys io pub \<and> session_effect env (hexEncode pub) w ending w')"
  using assms(2)
proof
  assume "connectionThread cfg env verify keys inflate z io ticks inp w = (sent, ending) \<and>
    presented = presents tls_readExact inp"
  then have r: "serveClient tls_readExact cfg env verify keys inflate z io ticks inp w = (sent, ending)"
    and p: "presented = presents tls_readExact inp" by (simp_all add: connectionThread_def)
  from serveClient_gate [OF assms(1) r assms(3)] p show ?thesis by simp
next
  let ?s = "\<lparr> ws_buf = [], ws_bufPos = 0, ws_timedOut = False, ws_in = snd (wsReadHttpRequest inp) \<rparr>"
  assume ws: "wsConnectionThread sha1b64 e cfg env verify keys inflate z io ticks inp w = (sent, ending) \<and>
    presented = presents (\<lambda>n. ws_readExact n e n) ?s"
  show ?thesis
  proof (cases "ending = Returned w")
    case True
    then show ?thesis using assms(3) unauthenticated_refl [OF assms(1)] by auto
  next
    case False
    with ws obtain sent' where
      "serveClient (\<lambda>n. ws_readExact n e n) cfg env verify keys inflate z io ticks ?s w = (sent', ending)"
      by (auto simp: wsConnectionThread_def split: prod.splits UpgradeReply.splits if_splits)
    from serveClient_gate [OF assms(1) this assms(3)] ws show ?thesis by simp
  qed
qed

definition demo_conn_io :: ConnIO where
  "demo_conn_io = \<lparr> io_upgradeWrite = True, io_authTimeout = True, io_nonce = Some (replicate 32 7), io_nonceWrite = True,
     io_okWrite = True, io_capsWrite = True, io_loopTimeout = True, io_atSec = 9, io_sessionStart = 1, io_loopStart = 1 \<rparr>"

definition demo_verify :: "bytes \<Rightarrow> bytes \<Rightarrow> bytes \<Rightarrow> bool" where
  "demo_verify pub m sig \<longleftrightarrow> hd sig = hd pub"

text \<open>A client that is in.\<close>

theorem connection_gate_witness:
  "\<exists>sent w'. connectionThread demo_cfg demo_env demo_verify [replicate 32 5] noInflate () demo_conn_io []
      (3 # replicate 32 5 @ replicate 64 5 @ [0]) demo_world = (sent, Looping w') \<and>
    channelGet (hexEncode (replicate 32 5)) (w_channels w') \<noteq> None \<and>
    (\<exists>pub. authenticated_as (presents tls_readExact (3 # replicate 32 5 @ replicate 64 5 @ [0]))
         demo_verify [replicate 32 5] demo_conn_io pub \<and>
       session_effect demo_env (hexEncode pub) demo_world (Looping w') w')"
proof -
  obtain s' where v: "verifyClientAuth tls_readExact True (Some (replicate 32 7)) demo_verify [replicate 32 5]
      (3 # replicate 32 5 @ replicate 64 5 @ [0]) =
    (\<lparr> ar_clientId = hexEncode (replicate 32 5), ar_attemptedVersion = 0, ar_negotiatedCaps = 0 AND kCapZlib,
       ar_isV3 = True, ar_sent = replicate 32 7 \<rparr>, s')"
    using tlsin.verifyClientAuth_v3 [of _ "replicate 32 5" "replicate 64 5" 0 "[]" "[replicate 32 5]" demo_verify "replicate 32 7"]
    by (auto simp: auth_const_defs demo_verify_def)
  let ?w' = "openSession (sessionEnv demo_env (hexEncode (replicate 32 5))) demo_world"
  have id: "hexEncode (replicate 32 (5 :: byte)) \<noteq> []" by (simp add: hexEncode_def)
  obtain sent where run: "connectionThread demo_cfg demo_env demo_verify [replicate 32 5] noInflate () demo_conn_io []
      (3 # replicate 32 5 @ replicate 64 5 @ [0]) demo_world = (sent, Looping ?w')"
    using v id by (simp add: connectionThread_def serveClient_def demo_conn_io_def sessionPhase_def Let_def)
  have "channelGet (hexEncode (replicate 32 5)) (w_channels ?w') \<noteq> None"
    by (simp add: openSession_def sessionEnv_def channelGet_def channelAdd_def demo_world_def)
  moreover have "registry_ok (w_registry demo_world)" by (simp add: demo_world_def registry_ok_def)
  ultimately show ?thesis using connection_gate [OF _ disjI1 [OF conjI [OF run refl]], of ?w'] run by blast
qed

text \<open>Reading the head of a request line by line.\<close>

lemma endOfHead_bytes: "endOfHead = [13, 10, 13, 10]"
  by (simp add: endOfHead_def str_bytes_def code_of_def)

lemma ends_head: "length q \<ge> 4 \<and> drop (length q - 4) q = endOfHead \<longleftrightarrow> (\<exists>p. q = p @ endOfHead)"
proof
  assume "length q \<ge> 4 \<and> drop (length q - 4) q = endOfHead"
  then show "\<exists>p. q = p @ endOfHead" by (metis append_take_drop_id)
qed (auto simp: endOfHead_bytes)

lemma readHead_step:
  "readHead (Suc n) req (c # inp) = (if \<exists>p. req @ [c] = p @ endOfHead then (req @ [c], inp) else readHead n (req @ [c]) inp)"
  using ends_head [of "req @ [c]"] by (simp add: Let_def)

declare readHead.simps(3) [simp del]

lemma readHead_chars: "10 \<notin> set l \<Longrightarrow> length l \<le> n \<Longrightarrow> readHead n req (l @ inp) = readHead (n - length l) (req @ l) inp"
proof (induction l arbitrary: n req)
  case (Cons c l)
  then obtain m where m: "n = Suc m" by (cases n) auto
  have "\<nexists>p. req @ [c] = p @ endOfHead" using Cons.prems(1) by (auto simp: endOfHead_bytes dest: arg_cong [of _ _ last])
  with Cons m show ?case by (simp add: readHead_step)
qed simp

lemma readHead_line:
  assumes "l \<noteq> []" "10 \<notin> set l" "length l + 2 \<le> n"
  shows "readHead n acc (l @ 13 # 10 # inp) = readHead (n - (length l + 2)) (acc @ l @ [13, 10]) inp"
proof -
  from assms(3) obtain m where m: "n = length l + 2 + m" by (rule le_Suc_ex [THEN exE])
  have "readHead n acc ((l @ [13]) @ 10 # inp) = readHead (Suc m) (acc @ l @ [13]) (10 # inp)"
    using readHead_chars [of "l @ [13]" n acc "10 # inp"] assms(2) m by simp
  moreover have "\<nexists>p. (acc @ l @ [13]) @ [10] = p @ endOfHead"
  proof
    assume "\<exists>p. (acc @ l @ [13]) @ [10] = p @ endOfHead"
    then obtain p where "acc @ l = p @ [13, 10]" by (auto simp: endOfHead_bytes)
    then have "last l = 10" using assms(1) by (metis last_appendR last_ConsL last_ConsR list.distinct(1))
    with assms(1,2) show False by (metis last_in_set)
  qed
  ultimately show ?thesis by (simp add: m readHead_step)
qed

lemma readHead_lines:
  assumes "\<forall>l \<in> set ls. l \<noteq> [] \<and> 10 \<notin> set l" "length (concat (map (\<lambda>l. l @ [13, 10]) ls)) \<le> n"
  shows "readHead n acc (concat (map (\<lambda>l. l @ [13, 10]) ls) @ inp) =
    readHead (n - length (concat (map (\<lambda>l. l @ [13, 10]) ls))) (acc @ concat (map (\<lambda>l. l @ [13, 10]) ls)) inp"
  using assms
proof (induction ls arbitrary: n acc)
  case (Cons l ls)
  have "readHead n acc (l @ 13 # 10 # concat (map (\<lambda>l. l @ [13, 10]) ls) @ inp) =
      readHead (n - (length l + 2)) (acc @ l @ [13, 10]) (concat (map (\<lambda>l. l @ [13, 10]) ls) @ inp)"
    using Cons.prems by (intro readHead_line) auto
  with Cons.IH [of "n - (length l + 2)" "acc @ l @ [13, 10]"] Cons.prems show ?case by (simp add: add.commute)
qed simp

lemma readHead_end: "2 \<le> n \<Longrightarrow> readHead n (acc @ [13, 10]) (13 # 10 # inp) = (acc @ endOfHead, inp)"
proof -
  assume "2 \<le> n"
  then obtain m where m: "n = Suc (Suc m)" by (cases n; cases "n - 1") auto
  have "\<nexists>p. (acc @ [13, 10]) @ [13] = p @ endOfHead" by (auto simp: endOfHead_bytes dest: arg_cong [of _ _ last])
  then show ?thesis by (simp add: m readHead_step endOfHead_bytes)
qed

lemma str_bytes_LF: "10 \<in> set (str_bytes t) \<longleftrightarrow> LF \<in> set t"
proof -
  have "(10 :: byte) = word_of_nat (code_of LF)" by (simp add: code_of_def)
  moreover have "(word_of_nat (code_of c) :: byte) = word_of_nat (code_of LF) \<longleftrightarrow> c = LF" for c
    using str_bytes_inj [of "[c]" "[LF]"] by (simp add: str_bytes_def)
  ultimately show ?thesis by (auto simp: str_bytes_def image_iff)
qed

lemma str_bytes_append: "str_bytes (a @ b) = str_bytes a @ str_bytes b"
  by (simp add: str_bytes_def)

text \<open>A head of non-empty lines is read up to its empty line.\<close>

lemma readHead_head:
  assumes "ls \<noteq> []" "\<forall>l \<in> set ls. l \<noteq> [] \<and> 10 \<notin> set l" "length (concat (map (\<lambda>l. l @ [13, 10]) ls)) + 2 \<le> n"
  shows "readHead n [] ((concat (map (\<lambda>l. l @ [13, 10]) ls) @ [13, 10]) @ rest) =
    (concat (map (\<lambda>l. l @ [13, 10]) ls) @ [13, 10], rest)"
proof -
  let ?t = "concat (map (\<lambda>l. l @ [13, 10]) ls)"
  obtain l0 ls0 where "ls = ls0 @ [l0]" using assms(1) by (cases ls rule: rev_cases) auto
  then obtain x where x: "?t = x @ [13, 10]" by simp
  have "readHead n [] (?t @ 13 # 10 # rest) = readHead (n - length ?t) ?t (13 # 10 # rest)"
    using readHead_lines [OF assms(2), of n "[]" "13 # 10 # rest"] assms(3) by simp
  also have "\<dots> = (x @ endOfHead, rest)"
    using readHead_end [of "n - length ?t" x rest] assms(3) unfolding x by simp
  finally show ?thesis using x by (simp add: endOfHead_bytes)
qed

lemma str_bytes_CRLF: "str_bytes CRLF = [13, 10]"
  by (simp add: str_bytes_def code_of_def)

lemma readHead_request:
  assumes "LF \<notin> set host" "LF \<notin> set key" "length (buildUpgradeRequest host key) \<le> 16384"
  shows "wsReadHttpRequest (str_bytes (buildUpgradeRequest host key) @ rest) = (str_bytes (buildUpgradeRequest host key), rest)"
proof -
  let ?ls = "map str_bytes [''GET '' @ kWsPath @ '' HTTP/1.1'', ''Host: '' @ host, ''Upgrade: websocket'', ''Connection: Upgrade'',
    ''Sec-WebSocket-Key: '' @ key, ''Sec-WebSocket-Version: 13'']"
  have req: "str_bytes (buildUpgradeRequest host key) = concat (map (\<lambda>l. l @ [13, 10]) ?ls) @ [13, 10]"
    unfolding buildUpgradeRequest_def
    by (simp only: str_bytes_append str_bytes_CRLF list.map concat.simps append_assoc append_Nil append_Nil2)
  have "\<forall>l \<in> set ?ls. l \<noteq> [] \<and> 10 \<notin> set l"
    using assms(1,2) by (simp add: str_bytes_LF kWsPath_def) (simp add: str_bytes_def)
  moreover have "length (concat (map (\<lambda>l. l @ [13, 10]) ?ls)) + 2 \<le> 16384"
    using assms(3) arg_cong [OF req, of length] by simp
  ultimately show ?thesis
    unfolding wsReadHttpRequest_def req by (intro readHead_head) simp_all
qed

text \<open>A connection on which every system call succeeds.\<close>

definition io_fine :: "bytes \<Rightarrow> ConnIO \<Rightarrow> bool" where
  "io_fine nonce io \<longleftrightarrow> io_upgradeWrite io \<and> io_authTimeout io \<and> io_nonce io = Some nonce \<and> io_nonceWrite io \<and>
     io_okWrite io \<and> io_capsWrite io"

definition header_text :: "string \<Rightarrow> bool" where
  "header_text t \<longleftrightarrow> t \<noteq> [] \<and> SP \<notin> set t \<and> CR \<notin> set t \<and> LF \<notin> set t"

lemma serveClient_admits:
  assumes "client_ok key verify" "id_pubkey key \<in> set keys" "length nonce = kAuthNonceLen" "io_fine nonce io"
    and "id_sign key (kAuthSignPrefixV2 @ nonce) = Some sig"
    and "ws_holds s (kAuthVersionV3 # id_pubkey key @ sig @ [if compress then kCapZlib else kCapNone] @ q)"
  shows "serveClient (\<lambda>n. ws_readExact n e n) cfg env verify keys inflate z io ticks s w =
    ([nonce, [kAuthResultOk], [if compress then kCapZlib else kCapNone]],
     sessionPhase cfg (sessionEnv env (hexEncode (id_pubkey key))) inflate z io ticks (if compress then kCapZlib else kCapNone) w)"
proof -
  let ?caps = "if compress then kCapZlib else kCapNone"
  have k: "length (id_pubkey key) = kAuthPubkeyLen" "length sig = kAuthSignatureLen"
    "verify (id_pubkey key) (kAuthSignPrefixV2 @ nonce) sig"
    using assms(1,5) by (auto simp: client_ok_def) (metis option.inject)+
  from wsin.verifyClientAuth_v3 [where verify = verify and nonce = nonce, OF assms(6) k(1,2) assms(2) k(3)] obtain s' where
    "verifyClientAuth (\<lambda>n. ws_readExact n e n) True (Some nonce) verify keys s =
      (\<lparr> ar_clientId = hexEncode (id_pubkey key), ar_attemptedVersion = 0, ar_negotiatedCaps = ?caps AND kCapZlib,
         ar_isV3 = True, ar_sent = nonce \<rparr>, s')" by blast
  moreover have "?caps AND kCapZlib = ?caps" by (simp add: auth_const_defs)
  moreover have "hexEncode (id_pubkey key) \<noteq> []" "nonce \<noteq> []"
    using k(1) assms(3) by (auto simp: kAuthPubkeyLen_def kAuthNonceLen_def)
  ultimately show ?thesis using assms(4) by (simp add: serveClient_def io_fine_def authReply_def Let_def)
qed

end
