(* ===== verification/ClientTls.thy ===== *)
theory ClientTls
  imports Wire
begin

text \<open>
  Who the client talks to: the TLS context and the check of the server's certificate (\<open>client_core.cpp\<close>),
  the connection of \<open>TcpTlsTransport\<close> (\<open>client_transport_tcptls.cpp\<close>), the context that \<open>ClientConnection\<close>
  and \<open>runClient\<close> prepare (\<open>client_impl.cpp\<close>), and the updater's own connection (\<open>updater.cpp\<close>).

  Certificates are an abstract type; what OpenSSL says about them and the outcomes of its calls are fields
  of the environment.  An X.509 chain is checked by OpenSSL during the handshake if and only if the context
  asks for it.  Log messages and verbose output are left out.
\<close>

section \<open>The environment\<close>

text \<open>\<open>te_chain path c\<close>: the chain of the certificate ends in the bundle \<open>path\<close> (or, for \<open>system\<close>, in the
  store of the system).  \<open>te_handshake\<close> is everything else that the handshake needs.\<close>

record 'c TlsEnv =
  te_ctxNew :: bool
  te_loadLocations :: "string \<Rightarrow> bool"
  te_sslNew :: bool
  te_parsesAsIp :: "string \<Rightarrow> bool"
  te_chain :: "string \<Rightarrow> 'c \<Rightarrow> bool"
  te_handshake :: bool
  te_peer :: "'c option"
  te_checkIp :: "'c \<Rightarrow> string \<Rightarrow> bool"
  te_checkHost :: "'c \<Rightarrow> string \<Rightarrow> bool"
  te_readPem :: "string \<Rightarrow> 'c option"
  te_digest :: "'c \<Rightarrow> bytes option"

record TlsContext =
  tx_verifyPeer :: bool
  tx_anchors :: string
  tx_alpn :: bytes

section \<open>The context\<close>

definition createClientTLSContext :: "'c TlsEnv \<Rightarrow> string \<Rightarrow> string \<Rightarrow> TlsContext option" where
  "createClientTLSContext env caPath serverCertPath =
     (if \<not> te_ctxNew env then None
      else let useSystem = (caPath = ''system''); useCaFile = (caPath \<noteq> [] \<and> \<not> useSystem) in
        if useCaFile \<and> \<not> te_loadLocations env caPath then None
        else Some \<lparr> tx_verifyPeer = (useCaFile \<or> useSystem), tx_anchors = caPath,
                    tx_alpn = 8 # str_bytes ''ntm-wire'' \<rparr>)"

text \<open>\<open>runClient\<close> refuses to start without a bundle and without a pinned certificate.\<close>

definition startsWithoutTls :: "string \<Rightarrow> string \<Rightarrow> bool" where
  "startsWithoutTls caPath serverCertPath = (caPath = [] \<and> serverCertPath = [])"

text \<open>The constructor of \<open>ClientConnection\<close>: a context that cannot be created is reported, and the
  connection goes on without it.\<close>

definition connectionContext :: "'c TlsEnv \<Rightarrow> string \<Rightarrow> string \<Rightarrow> TlsContext option" where
  "connectionContext env caPath serverCertPath =
     (if caPath \<noteq> [] \<or> serverCertPath \<noteq> [] then createClientTLSContext env caPath serverCertPath else None)"

section \<open>The server's certificate\<close>

definition loadPemCert :: "'c TlsEnv \<Rightarrow> string \<Rightarrow> 'c option" where
  "loadPemCert env path = (if path = [] then None else te_readPem env path)"

definition sha256Fingerprint :: "'c TlsEnv \<Rightarrow> 'c \<Rightarrow> bytes option" where
  "sha256Fingerprint env cert =
     (case te_digest env cert of None \<Rightarrow> None | Some d \<Rightarrow> if length d = 32 then Some d else None)"

definition verifyServerIdentityAndPin :: "'c TlsEnv \<Rightarrow> string \<Rightarrow> string \<Rightarrow> bool" where
  "verifyServerIdentityAndPin env host pinnedServerCertPath =
     (case te_peer env of
        None \<Rightarrow> False
      | Some peer \<Rightarrow>
          let ok = (if host = [] then True
                    else if te_parsesAsIp env host then te_checkIp env peer host else te_checkHost env peer host)
          in if ok \<and> pinnedServerCertPath \<noteq> [] then
               (case loadPemCert env pinnedServerCertPath of
                  None \<Rightarrow> False
                | Some pinned \<Rightarrow>
                    (case sha256Fingerprint env peer of
                       None \<Rightarrow> False
                     | Some a \<Rightarrow> (case sha256Fingerprint env pinned of None \<Rightarrow> False | Some b \<Rightarrow> a = b)))
             else ok)"

section \<open>Connections\<close>

text \<open>\<open>SSL_connect\<close> under the verification mode of the context.\<close>

definition sslConnect :: "'c TlsEnv \<Rightarrow> TlsContext \<Rightarrow> bool" where
  "sslConnect env ctx =
     (te_handshake env \<and>
      (tx_verifyPeer ctx \<longrightarrow> (case te_peer env of None \<Rightarrow> False | Some c \<Rightarrow> te_chain env (tx_anchors ctx) c)))"

datatype ConnectError = TcpFailed | SslNewFailed | HandshakeFailed | IdentityFailed

text \<open>A connection that is up: in the clear, or secured, with the name that was sent in SNI.\<close>

datatype Link = Plaintext | Secured "string option"

definition sniName :: "'c TlsEnv \<Rightarrow> string \<Rightarrow> string option" where
  "sniName env host = (if te_parsesAsIp env host then None else Some host)"

definition tcpTlsConnect :: "'c TlsEnv \<Rightarrow> bool \<Rightarrow> TlsContext option \<Rightarrow> string \<Rightarrow> string \<Rightarrow> ConnectError + Link" where
  "tcpTlsConnect env tcpOk sslCtx host pinnedServerCertPath =
     (if \<not> tcpOk then Inl TcpFailed
      else case sslCtx of
        None \<Rightarrow> Inr Plaintext
      | Some ctx \<Rightarrow>
          if \<not> te_sslNew env then Inl SslNewFailed
          else if \<not> sslConnect env ctx then Inl HandshakeFailed
          else if \<not> verifyServerIdentityAndPin env host pinnedServerCertPath then Inl IdentityFailed
          else Inr (Secured (sniName env host)))"

text \<open>The updater's \<open>tlsConnect\<close>.\<close>

definition tlsConnect :: "'c TlsEnv \<Rightarrow> string \<Rightarrow> string \<Rightarrow> string \<Rightarrow> Link option" where
  "tlsConnect env host caPath serverCertPath =
     (case createClientTLSContext env caPath serverCertPath of
        None \<Rightarrow> None
      | Some ctx \<Rightarrow>
          if \<not> te_sslNew env then None
          else if \<not> sslConnect env ctx then None
          else if \<not> verifyServerIdentityAndPin env host serverCertPath then None
          else Some (Secured (sniName env host)))"

section \<open>Properties\<close>

text \<open>What a secured connection guarantees about the certificate at the other end.\<close>

definition server_verified :: "'c TlsEnv \<Rightarrow> string \<Rightarrow> string \<Rightarrow> string \<Rightarrow> bool" where
  "server_verified env caPath serverCertPath host \<longleftrightarrow>
     (\<exists>peer. te_peer env = Some peer \<and>
        (caPath \<noteq> [] \<longrightarrow> te_chain env caPath peer) \<and>
        (host \<noteq> [] \<longrightarrow> (if te_parsesAsIp env host then te_checkIp env peer host else te_checkHost env peer host)) \<and>
        (serverCertPath \<noteq> [] \<longrightarrow>
           (\<exists>pinned d. te_readPem env serverCertPath = Some pinned \<and> length d = 32 \<and>
              te_digest env peer = Some d \<and> te_digest env pinned = Some d)))"

lemma verifyServerIdentityAndPin_iff:
  "verifyServerIdentityAndPin env host pin \<longleftrightarrow>
     (\<exists>peer. te_peer env = Some peer \<and>
        (host \<noteq> [] \<longrightarrow> (if te_parsesAsIp env host then te_checkIp env peer host else te_checkHost env peer host)) \<and>
        (pin \<noteq> [] \<longrightarrow>
           (\<exists>pinned d. te_readPem env pin = Some pinned \<and> length d = 32 \<and>
              te_digest env peer = Some d \<and> te_digest env pinned = Some d)))"
  by (auto simp: verifyServerIdentityAndPin_def Let_def loadPemCert_def sha256Fingerprint_def split: option.splits)

lemma context_fields:
  "createClientTLSContext env ca pin = Some ctx \<Longrightarrow> tx_verifyPeer ctx \<longleftrightarrow> ca \<noteq> []"
  "createClientTLSContext env ca pin = Some ctx \<Longrightarrow> tx_anchors ctx = ca"
  by (auto simp: createClientTLSContext_def Let_def split: if_splits)

lemma secured_verified:
  assumes "createClientTLSContext env ca pin = Some ctx" "sslConnect env ctx" "verifyServerIdentityAndPin env host pin"
  shows "server_verified env ca pin host"
  using assms context_fields [OF assms(1)]
  by (auto simp: server_verified_def verifyServerIdentityAndPin_iff sslConnect_def split: option.splits)

text \<open>
  C7.  A client that starts talks to its server or, because of a defect, to anybody in the clear: when the
  connection of the data stream is up, the peer's certificate passed the chain of the configured bundle, the
  check of the host name and the pin, unless the TLS context could not be created (an unreadable bundle is
  enough); then there is no TLS at all, although \<open>runClient\<close> refuses to start without it.  The updater's
  connection has no such exception.
\<close>

theorem client_link_verified:
  assumes "\<not> startsWithoutTls caPath serverCertPath"
  shows "(\<forall>link. tcpTlsConnect env tcpOk (connectionContext env caPath serverCertPath) host serverCertPath = Inr link \<longrightarrow>
      (if createClientTLSContext env caPath serverCertPath = None then link = Plaintext
       else link = Secured (sniName env host) \<and> server_verified env caPath serverCertPath host)) \<and>
    (\<forall>link. tlsConnect env host caPath serverCertPath = Some link \<longrightarrow>
      link = Secured (sniName env host) \<and> server_verified env caPath serverCertPath host)"
  using assms
  by (auto simp: tcpTlsConnect_def tlsConnect_def connectionContext_def startsWithoutTls_def intro: secured_verified
      split: if_splits option.splits)

definition demo_tls :: "nat TlsEnv" where
  "demo_tls = \<lparr> te_ctxNew = True, te_loadLocations = (\<lambda>p. p = ''ca.pem''), te_sslNew = True, te_parsesAsIp = (\<lambda>_. False),
     te_chain = (\<lambda>p c. p = ''ca.pem'' \<and> c = 1), te_handshake = True, te_peer = Some 1, te_checkIp = (\<lambda>_ _. False),
     te_checkHost = (\<lambda>c h. c = 1 \<and> h = ''ntm''), te_readPem = (\<lambda>_. None), te_digest = (\<lambda>c. Some (replicate 32 7)) \<rparr>"

text \<open>The same server with a readable bundle and with one that cannot be read.\<close>

theorem client_link_verified_witness:
  "tcpTlsConnect demo_tls True (connectionContext demo_tls ''ca.pem'' []) ''ntm'' [] = Inr (Secured (Some ''ntm'')) \<and>
    server_verified demo_tls ''ca.pem'' [] ''ntm'' \<and>
    tcpTlsConnect demo_tls True (connectionContext demo_tls ''gone.pem'' []) ''ntm'' [] = Inr Plaintext"
proof -
  have ok: "tcpTlsConnect demo_tls True (connectionContext demo_tls ''ca.pem'' []) ''ntm'' [] = Inr (Secured (Some ''ntm''))"
    by (simp add: tcpTlsConnect_def connectionContext_def createClientTLSContext_def demo_tls_def Let_def sslConnect_def
        verifyServerIdentityAndPin_def sniName_def)
  have bad: "tcpTlsConnect demo_tls True (connectionContext demo_tls ''gone.pem'' []) ''ntm'' [] = Inr Plaintext"
    by (simp add: tcpTlsConnect_def connectionContext_def createClientTLSContext_def demo_tls_def Let_def)
  have "createClientTLSContext demo_tls ''ca.pem'' [] \<noteq> None"
    by (simp add: createClientTLSContext_def demo_tls_def Let_def)
  with client_link_verified [of "''ca.pem''" "[]" demo_tls True "''ntm''"] ok bad show ?thesis
    by (simp add: startsWithoutTls_def split: if_splits)
qed

end
