(* ===== verification/ClientTransport.thy ===== *)
theory ClientTransport
  imports Connections ClientTls Sender
begin

text \<open>
  The client's WebSocket transport (\<open>client_transport_websocket.cpp\<close>) over a TLS connection of \<open>ClientTls\<close>:
  the upgrade handshake, \<open>readExact\<close> over the frame reader, writing, and the polling of control lines.  The
  input of the connection is a list of bytes; the end of the list is the end of the connection.
\<close>

section \<open>State\<close>

record WsClient =
  wc_reader :: FrameReader
  wc_readBuf :: bytes
  wc_readBufPos :: nat

definition WsClient0 :: WsClient where
  "WsClient0 = \<lparr> wc_reader = FrameReader0, wc_readBuf = [], wc_readBufPos = 0 \<rparr>"

section \<open>The handshake\<close>

definition readHttpResponse :: "bytes \<Rightarrow> bytes \<times> bytes" where
  "readHttpResponse inp = readHead 8192 [] inp"

datatype WsConnectError = TcpLayer ConnectError | WriteFailed | NoResponse | BadResponse UpgradeError

text \<open>The result is the rest of the input.\<close>

definition doHandshake :: "(string \<Rightarrow> string) \<Rightarrow> string \<Rightarrow> bool \<Rightarrow> bytes \<Rightarrow> WsConnectError + bytes" where
  "doHandshake sha1b64 key writeOk inp =
     (if \<not> writeOk then Inl WriteFailed
      else case readHttpResponse inp of (response, rest) \<Rightarrow>
        if response = [] then Inl NoResponse
        else case checkUpgrade sha1b64 key (bytes_str response) of
          Inl e \<Rightarrow> Inl (BadResponse e)
        | Inr _ \<Rightarrow> Inr rest)"

definition wsTransportConnect :: "'c TlsEnv \<Rightarrow> bool \<Rightarrow> TlsContext option \<Rightarrow> string \<Rightarrow> string \<Rightarrow> (string \<Rightarrow> string) \<Rightarrow> string \<Rightarrow> bool \<Rightarrow>
    bytes \<Rightarrow> WsConnectError + Link \<times> bytes" where
  "wsTransportConnect env tcpOk sslCtx host pinnedServerCertPath sha1b64 key writeOk inp =
     (case tcpTlsConnect env tcpOk sslCtx host pinnedServerCertPath of
        Inl e \<Rightarrow> Inl (TcpLayer e)
      | Inr link \<Rightarrow> (case doHandshake sha1b64 key writeOk inp of
          Inl e \<Rightarrow> Inl e
        | Inr rest \<Rightarrow> Inr (link, rest)))"

section \<open>Reading and writing\<close>

definition compactBuf :: "WsClient \<Rightarrow> WsClient" where
  "compactBuf s =
     (if wc_readBufPos s > 0 \<and> wc_readBufPos s \<ge> length (wc_readBuf s)
      then s\<lparr> wc_readBuf := [], wc_readBufPos := 0 \<rparr> else s)"

definition drainReader :: "WsClient \<Rightarrow> WsClient" where
  "drainReader s =
     (if available (wc_reader s) > 0
      then case fr_take 4096 (wc_reader s) of (x, r) \<Rightarrow> s\<lparr> wc_reader := r, wc_readBuf := wc_readBuf s @ x \<rparr>
      else s)"

definition filled :: "WsClient \<Rightarrow> bool" where
  "filled s \<longleftrightarrow> available (wc_reader s) > 0 \<and> length (wc_readBuf (drainReader s)) > wc_readBufPos s"

fun fillReadBuf :: "WsClient \<Rightarrow> bytes \<Rightarrow> bool \<times> WsClient \<times> bytes" where
  "fillReadBuf s [] =
     (let s1 = compactBuf s in if filled s1 then (True, drainReader s1, []) else (False, drainReader s1, []))"
| "fillReadBuf s (raw # inp) =
     (let s1 = compactBuf s; s2 = drainReader s1 in
      if filled s1 then (True, s2, raw # inp)
      else fillReadBuf (s2\<lparr> wc_reader := feed [raw] (wc_reader s2) \<rparr>) inp)"

text \<open>Every second round takes at least one byte, so a fuel of twice the length is enough
  (\<open>wcReadExact_ok\<close>).\<close>

fun wcReadExact :: "nat \<Rightarrow> nat \<Rightarrow> WsClient \<times> bytes \<Rightarrow> bytes option \<times> WsClient \<times> bytes" where
  "wcReadExact fuel 0 c = (Some [], c)"
| "wcReadExact 0 (Suc n) c = (None, c)"
| "wcReadExact (Suc fuel) (Suc n) (s, inp) =
     (let inBuf = length (wc_readBuf s) - wc_readBufPos s in
      if inBuf = 0 then
        (case fillReadBuf s inp of
           (False, c) \<Rightarrow> (None, c)
         | (True, c) \<Rightarrow> wcReadExact fuel (Suc n) c)
      else let k = (if Suc n < inBuf then Suc n else inBuf) in
        (case wcReadExact fuel (Suc n - k) (s\<lparr> wc_readBufPos := wc_readBufPos s + k \<rparr>, inp) of
           (None, c) \<Rightarrow> (None, c)
         | (Some x, c) \<Rightarrow> (Some (take k (drop (wc_readBufPos s) (wc_readBuf s)) @ x), c)))"

abbreviation wcRead :: "nat \<Rightarrow> WsClient \<times> bytes \<Rightarrow> bytes option \<times> WsClient \<times> bytes" where
  "wcRead n \<equiv> wcReadExact (2 * n) n"

definition wcWriteExact :: "bytes \<Rightarrow> bytes \<Rightarrow> bytes" where
  "wcWriteExact maskKey p = (if p = [] then [] else buildClientFrame p maskKey)"

section \<open>Control lines\<close>

text \<open>What \<open>poll\<close> and \<open>SSL_read\<close> yield, as in \<open>Sender.PollEvent\<close>, here with the bytes of frames.  A link without
  TLS or a closed one is \<open>WsClosed\<close>.\<close>

datatype WsPoll = WsNothing | WsAgain | WsClosed | WsData bytes

definition takeCtrlLines :: "WsClient \<Rightarrow> WsClient \<times> string list" where
  "takeCtrlLines s =
     (case splitNl (bytes_str (drop (wc_readBufPos s) (wc_readBuf s))) of (ls, rest) \<Rightarrow>
        (s\<lparr> wc_readBufPos := length (wc_readBuf s) - length rest \<rparr>,
         filter (\<lambda>l. l \<noteq> []) (map (rtrim (\<lambda>c. c = CR)) ls)))"

definition drainPolled :: "WsClient \<Rightarrow> WsClient" where
  "drainPolled s =
     (if available (wc_reader s) > 0
      then case fr_take 4096 (wc_reader s) of (x, r) \<Rightarrow>
        let s1 = compactBuf (s\<lparr> wc_reader := r \<rparr>) in s1\<lparr> wc_readBuf := wc_readBuf s1 @ x \<rparr>
      else s)"

definition wsPollCtrlLines :: "WsPoll \<Rightarrow> WsClient \<Rightarrow> bool \<times> WsClient \<times> string list" where
  "wsPollCtrlLines ev s =
     (if wc_readBufPos s < length (wc_readBuf s) then (case takeCtrlLines s of (s', ls) \<Rightarrow> (True, s', ls))
      else case ev of
        WsNothing \<Rightarrow> (True, s, [])
      | WsAgain \<Rightarrow> (True, s, [])
      | WsClosed \<Rightarrow> (False, s, [])
      | WsData raw \<Rightarrow>
          (case takeCtrlLines (drainPolled (s\<lparr> wc_reader := feed raw (wc_reader s) \<rparr>)) of (s', ls) \<Rightarrow> (True, s', ls)))"

section \<open>Lemmas: the frame reader\<close>

text \<open>What a byte adds to the payload, whatever the buffer holds.\<close>

definition emits :: "FrameReader \<Rightarrow> byte \<Rightarrow> bytes" where
  "emits r b = (if fr_state r = Payload \<and> (fr_opcode r = kOpcodeBinary \<or> fr_opcode r = kOpcodeContinuation) then [b] else [])"

lemma processByte_buffer:
  "processByte (r\<lparr> fr_buf := buf, fr_readPos := pos \<rparr>) b = (processByte r b)\<lparr> fr_buf := buf @ emits r b, fr_readPos := pos \<rparr>"
  by (cases "fr_state r") (auto simp: processByte_def emits_def Let_def afterLength_def)

lemma processByte_buf: "fr_buf (processByte r b) = fr_buf r @ emits r b" "fr_readPos (processByte r b) = fr_readPos r"
proof -
  have e: "processByte r b = (processByte r b)\<lparr> fr_buf := fr_buf r @ emits r b, fr_readPos := fr_readPos r \<rparr>"
    using processByte_buffer [where r = r and buf = "fr_buf r" and pos = "fr_readPos r" and b = b] by simp
  show "fr_buf (processByte r b) = fr_buf r @ emits r b" by (subst e) simp
  show "fr_readPos (processByte r b) = fr_readPos r" by (subst e) simp
qed

fun payload :: "FrameReader \<Rightarrow> bytes \<Rightarrow> bytes" where
  "payload r [] = []"
| "payload r (b # bs) = emits r b @ payload (processByte r b) bs"

lemma payload_buffer: "payload (r\<lparr> fr_buf := buf, fr_readPos := pos \<rparr>) bs = payload r bs"
proof (induction bs arbitrary: r buf)
  case (Cons b bs)
  have "emits (r\<lparr> fr_buf := buf, fr_readPos := pos \<rparr>) b = emits r b" by (simp add: emits_def)
  with Cons.IH [where r = "processByte r b"] show ?case by (simp add: processByte_buffer)
qed simp

lemma feed_payload: "fr_buf (feed bs r) = fr_buf r @ payload r bs" "fr_readPos (feed bs r) = fr_readPos r"
  by (induction bs arbitrary: r) (simp_all add: feed_def processByte_buf)

abbreviation unread :: "FrameReader \<Rightarrow> bytes" where
  "unread r \<equiv> drop (fr_readPos r) (fr_buf r)"

lemma fr_take_parts:
  assumes "fr_readPos r \<le> length (fr_buf r)" "fr_take n r = (x, r')"
  shows "x = take n (unread r)" "unread r' = drop n (unread r)" "fr_readPos r' \<le> length (fr_buf r')" "payload r' bs = payload r bs"
proof -
  show "x = take n (unread r)" "unread r' = drop n (unread r)" "fr_readPos r' \<le> length (fr_buf r')"
    using fr_take_contents [OF assms] by simp_all
  have "r' = r\<lparr> fr_buf := fr_buf r', fr_readPos := fr_readPos r' \<rparr>"
    using assms(2) by (cases r) (auto simp: fr_take_def Let_def split: if_splits)
  then show "payload r' bs = payload r bs" using payload_buffer by metis
qed

section \<open>Lemmas: the transport is a byte stream\<close>

definition wc_ok :: "WsClient \<Rightarrow> bool" where
  "wc_ok s \<longleftrightarrow> wc_readBufPos s \<le> length (wc_readBuf s) \<and> fr_readPos (wc_reader s) \<le> length (fr_buf (wc_reader s))"

definition pending :: "WsClient \<Rightarrow> bytes" where
  "pending s = drop (wc_readBufPos s) (wc_readBuf s) @ unread (wc_reader s)"

definition wc_holds :: "WsClient \<times> bytes \<Rightarrow> bytes \<Rightarrow> bool" where
  "wc_holds c q \<longleftrightarrow> (case c of (s, inp) \<Rightarrow> wc_ok s \<and> q = pending s @ payload (wc_reader s) inp)"

lemma compactBuf_same: "wc_ok s \<Longrightarrow> wc_ok (compactBuf s) \<and> pending (compactBuf s) = pending s \<and> wc_reader (compactBuf s) = wc_reader s"
  by (auto simp: compactBuf_def wc_ok_def pending_def)

lemma filledD: "filled s \<Longrightarrow> wc_readBufPos (drainReader s) < length (wc_readBuf (drainReader s))"
  by (auto simp: filled_def drainReader_def split: prod.splits if_splits)

lemma drainReader_same:
  assumes "wc_ok s"
  shows "wc_ok (drainReader s) \<and> pending (drainReader s) = pending s \<and>
    payload (wc_reader (drainReader s)) bs = payload (wc_reader s) bs \<and>
    (\<not> filled s \<longrightarrow> wc_readBufPos s = length (wc_readBuf s) \<longrightarrow> drainReader s = s \<and> unread (wc_reader s) = [])"
proof (cases "available (wc_reader s) > 0")
  case True
  obtain x r where t: "fr_take 4096 (wc_reader s) = (x, r)" by fastforce
  note p = fr_take_parts [OF _ t]
  have "0 < length x" using p(1) True assms by (auto simp: available_def wc_ok_def)
  then have "wc_readBufPos s < length (wc_readBuf s) + length x" using assms unfolding wc_ok_def by linarith
  moreover have "x @ unread r = unread (wc_reader s)" using p(1,2) assms by (metis append_take_drop_id wc_ok_def)
  ultimately show ?thesis
    using p(3,4) True assms by (auto simp: drainReader_def t wc_ok_def pending_def filled_def)
next
  case False
  with assms show ?thesis by (auto simp: drainReader_def wc_ok_def available_def)
qed

lemma fillReadBuf_ok:
  assumes "wc_holds (s, inp) q" "q \<noteq> []" "wc_readBufPos s = length (wc_readBuf s)"
  shows "\<exists>s' inp'. fillReadBuf s inp = (True, s', inp') \<and> wc_holds (s', inp') q \<and> wc_readBufPos s' < length (wc_readBuf s')"
  using assms
proof (induction s inp rule: fillReadBuf.induct)
  case (1 s)
  let ?s1 = "compactBuf s"
  have s: "wc_ok s" "q = pending s" using "1.prems"(1) by (simp_all add: wc_holds_def)
  note c = compactBuf_same [OF s(1)]
  have pos: "wc_readBufPos ?s1 = length (wc_readBuf ?s1)" using "1.prems"(3) by (auto simp: compactBuf_def)
  note d = drainReader_same [of ?s1 "[]"]
  have f: "filled ?s1" using c d pos s(2) "1.prems"(2) by (auto simp: pending_def)
  with filledD [OF f] c d s show ?case by (simp add: Let_def wc_holds_def)
next
  case (2 s b inp)
  let ?s1 = "compactBuf s"
  have s: "wc_ok s" "q = pending s @ payload (wc_reader s) (b # inp)" using "2.prems"(1) by (simp_all add: wc_holds_def)
  note c = compactBuf_same [OF s(1)]
  have pos: "wc_readBufPos ?s1 = length (wc_readBuf ?s1)" using "2.prems"(3) by (auto simp: compactBuf_def)
  note d = drainReader_same [of ?s1 "b # inp"]
  show ?case
  proof (cases "filled ?s1")
    case True
    with filledD [OF True] c d s show ?thesis by (simp add: Let_def wc_holds_def)
  next
    case False
    with d c pos have e: "drainReader ?s1 = ?s1" "unread (wc_reader ?s1) = []" by auto
    let ?s3 = "?s1\<lparr> wc_reader := feed [b] (wc_reader ?s1) \<rparr>"
    have "wc_holds (?s3, inp) q"
      using s c e(2) pos
      by (auto simp: wc_holds_def wc_ok_def pending_def feed_def processByte_buf)
    moreover have "wc_readBufPos ?s3 = length (wc_readBuf ?s3)" using pos by simp
    ultimately show ?thesis
      using "2.IH" [OF refl refl False] "2.prems"(2) False e(1) by (simp add: Let_def)
  qed
qed


lemma wcReadExact_ok:
  "wc_holds (s, inp) q \<Longrightarrow> n \<le> length q \<Longrightarrow> 2 * n \<le> fuel + (if wc_readBufPos s < length (wc_readBuf s) then 1 else 0) \<Longrightarrow>
    \<exists>c. wcReadExact fuel n (s, inp) = (Some (take n q), c) \<and> wc_holds c (drop n q)"
proof (induction fuel arbitrary: n s inp q)
  case 0
  then show ?case by (cases n) (auto split: if_splits)
next
  case (Suc fuel)
  show ?case
  proof (cases n)
    case 0
    with Suc.prems(1) show ?thesis by simp
  next
    case n: (Suc m)
    show ?thesis
    proof (cases "wc_readBufPos s < length (wc_readBuf s)")
      case False
      with Suc.prems(1) have pos: "wc_readBufPos s = length (wc_readBuf s)" by (auto simp: wc_holds_def wc_ok_def)
      have "q \<noteq> []" using Suc.prems(2) n by auto
      from fillReadBuf_ok [OF Suc.prems(1) this pos] obtain s' inp' where
        f: "fillReadBuf s inp = (True, s', inp')" "wc_holds (s', inp') q" "wc_readBufPos s' < length (wc_readBuf s')" by blast
      have "2 * n \<le> fuel + 1" using Suc.prems(3) False by simp
      with Suc.IH [OF f(2) Suc.prems(2)] f(1,3) n pos show ?thesis by simp
    next
      case True
      let ?have = "length (wc_readBuf s) - wc_readBufPos s"
      define k where "k = (if n < ?have then n else ?have)"
      let ?s' = "s\<lparr> wc_readBufPos := wc_readBufPos s + k \<rparr>"
      have k: "0 < k" "k \<le> n" "k \<le> ?have" using True n by (auto simp: k_def)
      have q: "take k q = take k (drop (wc_readBufPos s) (wc_readBuf s))"
        using Suc.prems(1) k(3) by (simp add: wc_holds_def pending_def)
      have h: "wc_holds (?s', inp) (drop k q)"
        using Suc.prems(1) k(3) True by (auto simp: wc_holds_def wc_ok_def pending_def add.commute)
      have "2 * (n - k) \<le> fuel + (if wc_readBufPos ?s' < length (wc_readBuf ?s') then 1 else 0)"
        using Suc.prems(3) k True by auto
      moreover have "n - k \<le> length (drop k q)" using Suc.prems(2) by (simp add: diff_le_mono)
      ultimately obtain c where
        c: "wcReadExact fuel (n - k) (?s', inp) = (Some (take (n - k) (drop k q)), c)" "wc_holds c (drop (n - k) (drop k q))"
        using Suc.IH [OF h, of "n - k"] by blast
      have "take k q @ take (n - k) (drop k q) = take n q" using k(2) by (metis le_add_diff_inverse take_add)
      moreover have "wcReadExact (Suc fuel) n (s, inp) = (case wcReadExact fuel (n - k) (?s', inp) of
          (None, c) \<Rightarrow> (None, c) | (Some x, c) \<Rightarrow> (Some (take k (drop (wc_readBufPos s) (wc_readBuf s)) @ x), c))"
      proof -
        have "(if Suc m < ?have then Suc m else ?have) = k" "(?have = 0) = False" using True by (auto simp: k_def n)
        then show ?thesis by (simp only: n wcReadExact.simps Let_def if_False)
      qed
      moreover have "drop (n - k) (drop k q) = drop n q" using k(2) by simp
      ultimately show ?thesis using c q by simp
    qed
  qed
qed

interpretation wcin: byte_stream wc_holds wcRead
proof
  fix c q n assume h: "wc_holds c q" "n \<le> length q"
  obtain s inp where c: "c = (s, inp)" by (cases c)
  show "\<exists>c'. wcRead n c = (Some (take n q), c') \<and> wc_holds c' (drop n q)"
    using wcReadExact_ok [of s inp q n "2 * n"] h by (simp add: c)
qed

section \<open>Lemmas: the handshake\<close>

lemma readHttpResponse_101:
  assumes "LF \<notin> set accept" "length accept \<le> 64"
  shows "readHttpResponse (str_bytes (resp101 accept) @ rest) = (str_bytes (resp101 accept), rest)"
proof -
  let ?ls = "map str_bytes [''HTTP/1.1 101 Switching Protocols'', ''Upgrade: websocket'', ''Connection: Upgrade'',
    ''Sec-WebSocket-Accept: '' @ accept]"
  have resp: "str_bytes (resp101 accept) = concat (map (\<lambda>l. l @ [13, 10]) ?ls) @ [13, 10]"
    unfolding resp101_def
    by (simp only: str_bytes_append str_bytes_CRLF list.map concat.simps append_assoc append_Nil append_Nil2)
  have "\<forall>l \<in> set ?ls. l \<noteq> [] \<and> 10 \<notin> set l"
    using assms(1) by (simp add: str_bytes_LF) (simp add: str_bytes_def)
  moreover have "length (concat (map (\<lambda>l. l @ [13, 10]) ?ls)) + 2 \<le> 8192" using assms(2) by simp
  ultimately show ?thesis
    unfolding readHttpResponse_def resp by (intro readHead_head) simp_all
qed

text \<open>The accept value is the base64 text of a SHA-1 digest.\<close>

definition accept_text :: "(string \<Rightarrow> string) \<Rightarrow> bool" where
  "accept_text sha1b64 \<longleftrightarrow> (\<forall>x. CR \<notin> set (sha1b64 x) \<and> LF \<notin> set (sha1b64 x) \<and> length (sha1b64 x) = 28)"

lemma doHandshake_ok:
  assumes "accept_text sha1b64" "wsAnswer sha1b64 (buildUpgradeRequest host key) = Reply101 resp"
    "header_text host" "header_text key"
  shows "doHandshake sha1b64 key True (str_bytes resp @ rest) = Inr rest"
proof -
  have resp: "resp = resp101 (sha1b64 (key @ kWsGuid))"
    using assms(2,3,4) wsExtractKey_request [of host key] get_path_found [of host key]
    by (auto simp: wsAnswer_def header_text_def Let_def)
  have "checkUpgrade sha1b64 key resp = Inr ()"
    using ws_upgrade_agrees [of host key sha1b64 key] assms by (auto simp: header_text_def accept_text_def)
  moreover have "readHttpResponse (str_bytes resp @ rest) = (str_bytes resp, rest)"
    unfolding resp using assms(1) by (intro readHttpResponse_101) (auto simp: accept_text_def)
  moreover have "str_bytes resp \<noteq> []" by (simp add: resp resp101_def str_bytes_def)
  ultimately show ?thesis by (simp add: doHandshake_def)
qed

lemma wc_holds_frames:
  assumes "\<forall>p \<in> set ps. length p < 2 ^ 64"
  shows "wc_holds (WsClient0, concat (map writeFrame ps)) (concat ps)"
  using feed_writeFrames [of FrameReader0 ps] assms feed_payload(1) [of "concat (map writeFrame ps)" FrameReader0]
  by (simp add: wc_holds_def wc_ok_def pending_def WsClient0_def FrameReader0_def)

lemma client_reads_reply:
  assumes "client_ok key verify" "length nonce = kAuthNonceLen" "id_sign key (kAuthSignPrefixV2 @ nonce) = Some sig"
  shows "fst (performClientAuth wcRead True (Some (Inr key)) compress
      (WsClient0, concat (map writeFrame [nonce, [kAuthResultOk], [caps]]))) =
    (Inr caps, kAuthVersionV3 # id_pubkey key @ sig @ [if compress then kCapZlib else kCapNone])"
proof -
  have "wc_holds (WsClient0, concat (map writeFrame [nonce, [kAuthResultOk], [caps]])) (nonce @ kAuthResultOk # caps # [])"
    using wc_holds_frames [of "[nonce, [kAuthResultOk], [caps]]"] assms(2) by (simp add: kAuthNonceLen_def)
  from wcin.performClientAuth_accepted [OF this assms(2,1), of compress] assms(3) show ?thesis by auto
qed

section \<open>Lemmas: control lines\<close>

text \<open>A partial line stops the control channel (a defect): as long as bytes without a line feed are left in the
  read buffer, no poll reads from the connection, so the rest of the line never arrives.\<close>

lemma partial_line_stalls:
  assumes "wc_readBufPos s < length (wc_readBuf s)" "LF \<notin> set (bytes_str (drop (wc_readBufPos s) (wc_readBuf s)))"
  shows "wsPollCtrlLines ev s = (True, s, [])"
proof -
  have "length (bytes_str q) = length q" for q by (simp add: bytes_str_def)
  then have "takeCtrlLines s = (s, [])"
    using assms by (cases s) (simp add: takeCtrlLines_def splitNl_None)
  with assms(1) show ?thesis by (simp add: wsPollCtrlLines_def)
qed

text \<open>Two frames that carry one line: the second one is never read.\<close>

lemma partial_line_stalls_witness:
  "\<exists>s. wsPollCtrlLines (WsData (writeFrame [67, 32])) WsClient0 = (True, s, []) \<and>
    wsPollCtrlLines (WsData (writeFrame [120, 10])) s = (True, s, [])"
proof -
  let ?r = "feed (writeFrame [67, 32]) FrameReader0"
  have r: "fr_buf ?r = [67, 32]" "fr_readPos ?r = 0"
    using feed_writeFrame [of FrameReader0 "[67, 32]"] by (simp_all add: FrameReader0_def)
  obtain x r' where t: "fr_take 4096 ?r = (x, r')" by fastforce
  then have x: "x = [67, 32]" using fr_take_parts(1) [OF _ t] r by simp
  let ?s = "\<lparr> wc_reader = r', wc_readBuf = [67, 32], wc_readBufPos = 0 \<rparr>"
  have "bytes_str [67, 32] = ''C ''" using bytes_str_str_bytes [of "''C ''"] by (simp add: str_bytes_def code_of_def)
  then have nl: "LF \<notin> set (bytes_str [67, 32])" "length (bytes_str [67, 32]) = 2" by simp_all
  have "drainPolled (WsClient0\<lparr> wc_reader := ?r \<rparr>) = ?s"
    using r t x by (simp add: drainPolled_def WsClient0_def available_def compactBuf_def)
  moreover have "takeCtrlLines ?s = (?s, [])" using nl by (simp add: takeCtrlLines_def splitNl_None)
  ultimately have "wsPollCtrlLines (WsData (writeFrame [67, 32])) WsClient0 = (True, ?s, [])"
    by (simp add: wsPollCtrlLines_def WsClient0_def)
  with partial_line_stalls [of ?s] nl(1) show ?thesis by auto
qed

section \<open>Properties\<close>

text \<open>
  C14.  A client whose key is allowed gets in over WebSocket, end to end: its upgrade request and the frames
  that follow, cut anywhere, lead the server's worker into the session of its id; the client accepts the
  upgrade response, and from the frames of the server it concludes success with the capabilities that the
  session has.
\<close>

theorem ws_client_admitted:
  assumes "client_ok key verify" "id_pubkey key \<in> set keys" "length nonce = kAuthNonceLen" "io_fine nonce io"
    and "id_sign key (kAuthSignPrefixV2 @ nonce) = Some sig"
    and "header_text host" "header_text wsKey" "length (buildUpgradeRequest host wsKey) \<le> 16384" "accept_text sha1b64"
    and "caps = (if compress then kCapZlib else kCapNone)" "msg = kAuthVersionV3 # id_pubkey key @ sig @ [caps]"
    and "frames_ok fs" "concat (map fst fs) = msg @ q"
  shows "\<exists>resp sent.
    wsConnectionThread sha1b64 e cfg env verify keys inflate z io ticks
      (str_bytes (buildUpgradeRequest host wsKey) @ client_frames fs) w =
    (str_bytes resp # map writeFrame sent,
     sessionPhase cfg (sessionEnv env (hexEncode (id_pubkey key))) inflate z io ticks caps w) \<and>
    doHandshake sha1b64 wsKey True (concat (str_bytes resp # map writeFrame sent)) = Inr (concat (map writeFrame sent)) \<and>
    fst (performClientAuth wcRead True (Some (Inr key)) compress (WsClient0, concat (map writeFrame sent))) = (Inr caps, msg)"
proof -
  let ?s = "\<lparr> ws_buf = [], ws_bufPos = 0, ws_timedOut = False, ws_in = client_frames fs \<rparr>"
  obtain resp where resp: "wsAnswer sha1b64 (buildUpgradeRequest host wsKey) = Reply101 resp"
    using ws_upgrade_agrees [of host wsKey sha1b64 wsKey] assms(6,7,9) by (auto simp: header_text_def accept_text_def)
  have "ws_holds ?s (msg @ q)" using assms(12,13) by (auto simp: ws_holds_def)
  then have held: "ws_holds ?s (kAuthVersionV3 # id_pubkey key @ sig @ [if compress then kCapZlib else kCapNone] @ q)"
    by (simp add: assms(10,11))
  have ne: "str_bytes (buildUpgradeRequest host wsKey) \<noteq> []" by (simp add: buildUpgradeRequest_def str_bytes_def)
  from serveClient_admits [OF assms(1-5) held, of e cfg env inflate z ticks w]
  have "wsConnectionThread sha1b64 e cfg env verify keys inflate z io ticks
      (str_bytes (buildUpgradeRequest host wsKey) @ client_frames fs) w =
    (str_bytes resp # map writeFrame [nonce, [kAuthResultOk], [caps]],
     sessionPhase cfg (sessionEnv env (hexEncode (id_pubkey key))) inflate z io ticks caps w)"
    using readHead_request [of host wsKey "client_frames fs"] assms(4,6,7,8) resp ne
    by (simp add: wsConnectionThread_def header_text_def io_fine_def assms(10))
  moreover have "doHandshake sha1b64 wsKey True (str_bytes resp @ rest) = Inr rest" for rest
    using doHandshake_ok [OF assms(9) resp assms(6,7)] .
  moreover note client_reads_reply [OF assms(1,3,5), of compress caps]
  ultimately show ?thesis using assms(10,11)
    by (intro exI [of _ resp] exI [of _ "[nonce, [kAuthResultOk], [caps]]"]) (simp only: concat.simps simp_thms)
qed

theorem ws_client_admitted_witness:
  "\<exists>resp sent.
    wsConnectionThread (\<lambda>x. replicate 28 (CHR ''a'')) Disconnected demo_cfg demo_env demo_verify [replicate 32 5] noInflate () demo_conn_io []
      (str_bytes (buildUpgradeRequest ''ntm.example'' ''dGhlIHNhbXBsZQ=='') @
       client_frames [([3], [1, 2, 3, 4]), (replicate 32 5 @ replicate 64 5 @ [0], [0, 0, 1, 1])]) demo_world =
    (str_bytes resp # map writeFrame sent,
     Looping (openSession (sessionEnv demo_env (hexEncode (replicate 32 5))) demo_world))"
proof -
  let ?key = "\<lparr> id_pubkey = replicate 32 5, id_sign = (\<lambda>_. Some (replicate 64 5)) \<rparr>"
  let ?fs = "[([3], [1, 2, 3, 4]), (replicate 32 5 @ replicate 64 5 @ [0], [0, 0, 1, 1])] :: (bytes \<times> bytes) list"
  have "client_ok ?key demo_verify" by (simp add: client_ok_def demo_verify_def auth_const_defs)
  moreover have "io_fine (replicate 32 7) demo_conn_io" by (simp add: io_fine_def demo_conn_io_def)
  moreover have "header_text ''ntm.example''" "header_text ''dGhlIHNhbXBsZQ==''" by (simp_all add: header_text_def)
  moreover have "length (buildUpgradeRequest ''ntm.example'' ''dGhlIHNhbXBsZQ=='') \<le> 16384"
    by (simp add: buildUpgradeRequest_def kWsPath_def)
  moreover have "frames_ok ?fs" by (simp add: frames_ok_def)
  moreover have "accept_text (\<lambda>x. replicate 28 (CHR ''a''))" by (simp add: accept_text_def)
  ultimately show ?thesis
    using ws_client_admitted [of ?key demo_verify "[replicate 32 5]" "replicate 32 7" demo_conn_io "replicate 64 5" "''ntm.example''"
        "''dGhlIHNhbXBsZQ==''" "\<lambda>x. replicate 28 (CHR ''a'')" 0 False
        "3 # replicate 32 5 @ replicate 64 5 @ [0]" ?fs "[]" Disconnected demo_cfg demo_env noInflate "()" "[]" demo_world]
    by (fastforce simp: auth_const_defs sessionPhase_def Let_def demo_conn_io_def)
qed

end
