(* ===== verification/Capture.thy ===== *)
theory Capture
  imports FlowAgg
begin

text \<open>
  Which devices the client captures, and how it counts what the capture library drops (\<open>runClient\<close> and
  \<open>PacketSniffer::run\<close> of \<open>client_impl.cpp\<close>, \<open>isLoopbackIface\<close> of \<open>client_linux.cpp\<close>).  The list of devices and
  the statistics of libpcap are arguments; a capturing thread is an entry of the table of sniffers, with the
  label that it puts into D-lines.
\<close>

section \<open>Devices\<close>

record Device =
  dv_name :: "string option"
  dv_description :: "string option"
  dv_loopback :: bool
  dv_hasAddresses :: bool

type_synonym Sniffers = "(string \<times> string) list"

definition isLoopbackIface :: "Device \<Rightarrow> bool" where
  "isLoopbackIface d \<longleftrightarrow> dv_loopback d \<or> dv_name d = Some ''lo''"

definition deviceLabel :: "string \<Rightarrow> string option \<Rightarrow> string" where
  "deviceLabel name description =
     (let label = (case description of Some t \<Rightarrow> if t \<noteq> [] then t else name | None \<Rightarrow> name)
      in map (\<lambda>c. if c = SP then CHR ''-'' else c) label)"

text \<open>\<open>emplace\<close> keeps the first entry of a name.\<close>

definition addDevice :: "Device \<Rightarrow> Sniffers \<Rightarrow> Sniffers" where
  "addDevice d out =
     (case dv_name d of
        None \<Rightarrow> out
      | Some name \<Rightarrow>
          if isLoopbackIface d then out
          else if \<not> dv_hasAddresses d then out
          else if has_key name out then out
          else out @ [(name, deviceLabel name (dv_description d))])"

definition enumerateDesired :: "Device list \<Rightarrow> Sniffers" where
  "enumerateDesired devs = fold addDevice devs []"

text \<open>Sniffers of devices that are gone are stopped, new devices get one; the others go on.\<close>

definition startSniffer :: "string \<times> string \<Rightarrow> Sniffers \<Rightarrow> Sniffers" where
  "startSniffer kv sniffers = (if has_key (fst kv) sniffers then sniffers else sniffers @ [kv])"

definition syncSniffers :: "Sniffers \<Rightarrow> Sniffers \<Rightarrow> Sniffers" where
  "syncSniffers desired sniffers = fold startSniffer desired (filter (\<lambda>kv. has_key (fst kv) desired) sniffers)"

text \<open>One second of the loop of \<open>runClient\<close>; \<open>None\<close> is a failed enumeration.\<close>

definition scanSecond :: "Device list option \<Rightarrow> nat \<times> Sniffers \<Rightarrow> nat \<times> Sniffers" where
  "scanSecond devs st =
     (case st of (sinceScanSec, sniffers) \<Rightarrow>
        if sinceScanSec + 1 < 30 then (sinceScanSec + 1, sniffers)
        else (0, case devs of None \<Rightarrow> sniffers | Some d2 \<Rightarrow> syncSniffers (enumerateDesired d2) sniffers))"

section \<open>Capture statistics\<close>

record PcapCounts =
  pc_lastStatsSec :: int
  pc_prevRecv :: u32
  pc_prevDrop :: u32
  pc_totalRecv :: u64
  pc_totalDrop :: u64

definition PcapCounts0 :: PcapCounts where
  "PcapCounts0 = \<lparr> pc_lastStatsSec = 0, pc_prevRecv = 0, pc_prevDrop = 0, pc_totalRecv = 0, pc_totalDrop = 0 \<rparr>"

definition addPcapStats :: "u32 \<Rightarrow> u32 \<Rightarrow> PcapCounts \<Rightarrow> PcapCounts" where
  "addPcapStats recv dropped c =
     c\<lparr> pc_totalRecv := pc_totalRecv c + ucast recv, pc_totalDrop := pc_totalDrop c + ucast dropped \<rparr>"

text \<open>After a dispatch: \<open>stats\<close> is what \<open>pcap_stats\<close> reads, received and dropped, or \<open>None\<close>.\<close>

definition statsStep :: "int \<Rightarrow> (u32 \<times> u32) option \<Rightarrow> PcapCounts \<Rightarrow> PcapCounts" where
  "statsStep nowSec stats c =
     (if nowSec - pc_lastStatsSec c \<ge> 30 then
        let c1 = c\<lparr> pc_lastStatsSec := nowSec \<rparr> in
        case stats of
          None \<Rightarrow> c1
        | Some (recv, dropped) \<Rightarrow>
            (addPcapStats (recv - pc_prevRecv c1) (dropped - pc_prevDrop c1) c1)\<lparr> pc_prevRecv := recv, pc_prevDrop := dropped \<rparr>
      else c)"

section \<open>Lemmas\<close>

text \<open>A label never breaks a D-line apart.\<close>

lemma deviceLabel_no_space: "SP \<notin> set (deviceLabel name description)"
  by (auto simp: deviceLabel_def)

lemma startSniffer_lookup:
  "map_of (startSniffer kv m) n = (case map_of m n of Some l \<Rightarrow> Some l | None \<Rightarrow> if n = fst kv then Some (snd kv) else None)"
  by (cases kv) (auto simp: startSniffer_def has_key_def map_add_def split: option.splits)

lemma startSniffer_keys: "keys_ok m \<Longrightarrow> keys_ok (startSniffer kv m)"
  by (auto simp: startSniffer_def has_key_def keys_ok_def map_of_eq_None_iff)

lemma fold_startSniffer:
  "keys_ok m \<Longrightarrow> keys_ok (fold startSniffer kvs m) \<and>
    map_of (fold startSniffer kvs m) n = (case map_of m n of Some l \<Rightarrow> Some l | None \<Rightarrow> map_of kvs n)"
proof (induction kvs arbitrary: m)
  case (Cons kv kvs)
  from Cons.IH [OF startSniffer_keys [OF Cons.prems], of kv] show ?case
    by (cases kv) (auto simp: startSniffer_lookup split: option.splits)
qed (auto split: option.splits)

text \<open>After a scan exactly the desired devices are captured, and a device that was captured goes on under the
  label that it has.\<close>

lemma syncSniffers_exact:
  assumes "keys_ok sniffers"
  shows "keys_ok (syncSniffers desired sniffers) \<and>
    map_of (syncSniffers desired sniffers) n =
      (if has_key n desired then (case map_of sniffers n of Some l \<Rightarrow> Some l | None \<Rightarrow> map_of desired n) else None)"
proof -
  let ?kept = "filter (\<lambda>kv. has_key (fst kv) desired) sniffers"
  have kept: "keys_ok ?kept" using assms by (simp add: keys_ok_def distinct_map_filter)
  have "map_of ?kept n = (if has_key n desired then map_of sniffers n else None)"
    by (induction sniffers) auto
  with fold_startSniffer [OF kept, of desired n] show ?thesis
    by (auto simp: syncSniffers_def has_key_def split: option.splits)
qed

text \<open>The 32-bit counters of libpcap may wrap: what a sniffer adds to the shared totals is always the advance of
  its counters modulo 2^32, whatever the other sniffers have added.\<close>

lemma statsStep_advance:
  "pc_totalRecv (statsStep nowSec stats c) = pc_totalRecv c + ucast (pc_prevRecv (statsStep nowSec stats c) - pc_prevRecv c) \<and>
   pc_totalDrop (statsStep nowSec stats c) = pc_totalDrop c + ucast (pc_prevDrop (statsStep nowSec stats c) - pc_prevDrop c)"
  by (auto simp: statsStep_def Let_def addPcapStats_def split: option.split)

end
