(* ===== verification/Spec2Isabelle.thy ===== *)
theory Spec2Isabelle
  imports Auth Sender Upgrade IpRange Siwa UpdateFlow Admin Config ClientTransport Capture
begin

text \<open>
  A verification development for ntm, the network traffic monitor of this repository.

  \<^bold>\<open>The program.\<close>  A client captures packets on its interfaces, aggregates them into flows and
  streams them as text lines over TLS (or WebSocket over TLS) to a server.  The server authenticates
  the client by an Ed25519 key, parses the lines, enriches the addresses with country and network
  operator from an IP database, counts them in a sharded in-memory store and serves a web dashboard
  on the same port.  Control lines travel back on the same connection: remote log management and
  client updates.  Server and client binaries are replaced only under a two-tier trust chain.

  \<^bold>\<open>Theories and code\<close> (all files under src/src/), in the order in which they build on each other.

  \<^item> \<open>Prelude\<close>: the parts of the C++ standard library that the code uses (string searches, trimming,
    \<open>std::stoul\<close>, \<open>std::strtoull\<close>, \<open>operator[]\<close> of maps), maps as association lists, and the
    interfaces \<open>codec\<close> (a decoder inverts an encoder), \<open>stream_codec\<close> (and leaves the rest of the
    stream) and \<open>byte_stream\<close> (reads of an exact number of bytes).
  \<^item> \<open>Wire\<close>: \<open>proto_client_server.hpp\<close>, ALPN selection, \<open>parseDataLine\<close>, the client's D-line encoder.
  \<^item> \<open>Lan\<close>, \<open>Codecs\<close>, \<open>Health\<close>: \<open>isLanIP\<close> and \<open>isLanAddrV4/V6\<close>; \<open>hexEncode\<close>, \<open>hexDecode\<close>,
    \<open>base64Decode\<close>; \<open>parseHealthLine\<close> and the client's H-line.
  \<^item> \<open>Traffic\<close>: \<open>TrafficStats\<close> of \<open>ntm_types.hpp\<close>, the aggregation store: shards, day buckets, history
    rings, limits, purging, snapshots.
  \<^item> \<open>Registry\<close>: the other registries of \<open>ntm_types.hpp\<close> and the control channels.
  \<^item> \<open>WebSocket\<close>: \<open>client_websocket.hpp\<close>, the framing of \<open>client_transport_websocket.cpp\<close>, and
    \<open>WsServerStream\<close> and the upgrade request of \<open>server_core.cpp\<close>.
  \<^item> \<open>Auth\<close>: \<open>verifyClientAuth\<close> (\<open>server_core.cpp\<close>) and \<open>performClientAuth\<close> (\<open>client_core.cpp\<close>), written
    over \<open>byte_stream\<close> so that one text serves TLS and WebSocket.
  \<^item> \<open>Limiter\<close>: \<open>PerIPConnectionLimiter\<close> and \<open>WebRateLimiter\<close>.
  \<^item> \<open>DataLoop\<close>: \<open>runWireDataLoop\<close> of \<open>server_core.cpp\<close> with session start and clean-up.
  \<^item> \<open>Connections\<close>: the accept loop of \<open>runServer\<close> and the workers of \<open>server_core.cpp\<close>, which compose \<open>Auth\<close>,
    \<open>WebSocket\<close>, \<open>Limiter\<close> and \<open>DataLoop\<close> from the first byte of a connection to its clean-up.
  \<^item> \<open>ClientTls\<close>, \<open>ClientTransport\<close>: the client's TLS connection with the check of the server's certificate
    (\<open>client_core.cpp\<close>, \<open>client_transport_tcptls.cpp\<close>, \<open>updater.cpp\<close>), and its WebSocket transport
    (\<open>client_transport_websocket.cpp\<close>), which meets the workers of \<open>Connections\<close>.
  \<^item> \<open>Capture\<close>: the choice of capture devices and the capture statistics (\<open>client_impl.cpp\<close>).
  \<^item> \<open>FlowAgg\<close>: \<open>flow_aggregator.hpp\<close>, \<open>handlePacket\<close> and \<open>accumulateFlow\<close> of \<open>client_impl.cpp\<close>, with
    the 32-bit floating-point arithmetic of the adaptive interval.
  \<^item> \<open>FileLog\<close>, \<open>LogCtl\<close>: \<open>client_filelog.cpp\<close>; \<open>processCtrlLine\<close> of \<open>client_impl.cpp\<close> and the log and
    update handlers of \<open>web_dashboard.cpp\<close> at the other end of the channel.
  \<^item> \<open>Sender\<close>: \<open>senderLoop\<close> of \<open>client_impl.cpp\<close>, one iteration at a time.
  \<^item> \<open>Pipeline\<close>: the composition of sender, network, ingestion loop and store.
  \<^item> \<open>Trust\<close>: \<open>trust.hpp\<close> and \<open>server_signing.hpp\<close>: strict text parsers, delegation and bundle documents,
    \<open>verifyBundleWithRoots\<close>.
  \<^item> \<open>Upgrade\<close>: \<open>server_upgrade.hpp\<close> and the two upgrade handlers of \<open>web_dashboard.cpp\<close>.
  \<^item> \<open>IpRange\<close>: \<open>ip_range_resolver.hpp\<close>, the IP database and its updater.
  \<^item> \<open>WebSession\<close>: \<open>web_auth.hpp\<close>, the sessions of \<open>webauthn.cpp\<close>, the demo tokens and the pre-routing
    handler of \<open>web_dashboard.cpp\<close>.
  \<^item> \<open>WebAuthn\<close>: the rest of \<open>webauthn.cpp\<close>: CBOR, passkey registration and login, the credential file.
  \<^item> \<open>WebJson\<close>, \<open>Siwa\<close>: \<open>jsonGetString\<close>; \<open>siwa.hpp\<close>, \<open>siwa.cpp\<close> and their handlers, Sign in with Apple.
  \<^item> \<open>UpdateDist\<close>: \<open>client_push.hpp\<close>, and the update directory in \<open>web_dashboard.cpp\<close>: its scan, the handlers
    that clients ask, the push of a client binary.
  \<^item> \<open>Updater\<close>, \<open>UpdateFlow\<close>: \<open>updater.cpp\<close> and \<open>client_http_util.hpp\<close>, one update cycle of a client; its run
    against the handlers of \<open>UpdateDist\<close>, and as the cycle that the control line \<open>update_now\<close> of \<open>LogCtl\<close> starts.
  \<^item> \<open>JsonText\<close>, \<open>Summary\<close>: a strict reader of JSON in UTF-8, the specification of what the dashboard writes, and
    \<open>buildSummaryJson\<close> of \<open>web_dashboard.cpp\<close> with its grouping, sorting and cutting of tables.
  \<^item> \<open>TextFiles\<close>, \<open>Config\<close>: lines and \<open>key value\<close> pairs of text files; the configuration of client
    (\<open>client_config_parse.hpp\<close>) and server (\<open>server_core.cpp\<close>).
  \<^item> \<open>Admin\<close>: the administration handlers of \<open>web_dashboard.cpp\<close> (registration, hiding, purge, demo
    switch, documents) and \<open>loadAllowedKeys\<close>, \<open>loadHiddenEntities\<close> of \<open>server_core.cpp\<close>.

  \<^bold>\<open>How state and operations correspond.\<close>  A struct or class is a record with the fields of the source, an
  \<open>unordered_map\<close> an association list, an unsigned integer a word of its width, a text a list of
  characters of one byte each.  An operation is a function of the state that returns the new state; a
  throw, an early return or an error string is a value.  The operations of a shared object run under
  its mutex, so concurrent histories are sequences: \<open>inductive\<close> predicates (\<open>reachable\<close> stores of
  \<open>Traffic\<close>, runs of the limiters, of the nonces, of the gate, of the relying party and of the sign-ins) whose events
  say what happened.  Loops are structural recursion or \<open>function\<close>s with a measure; the cookie scan is a
  \<open>partial_function\<close>, and its termination is a property.  The depth bound 12 of the CBOR parser is the
  argument 13 of \<open>parseCbor\<close>; a deeper document is an error in the code as well.

  \<^bold>\<open>What the lemmas show.\<close>  End to end: the octets captured on a client are the octets counted on the
  server (\<open>Sender\<close>, \<open>Pipeline\<close>), whatever the chunks of the network, and a client installs
  the binary that the server published (\<open>UpdateFlow\<close>).  Soundness of every gate: client
  authentication and the connections behind it (\<open>Connections\<close>), the trust chain, upgrade pushes, client pushes and
  client updates, the dashboard gate, passkeys, Sign in with Apple.  Confinement: a control
  line touches log files only, or, on a client with automatic updates, runs one update cycle that replaces the binary
  by a verified one or not at all; a hostile line cannot affect other lines, a worker cannot affect other
  clients but for the addresses it announces, a packet is counted in its place and nowhere else, a client is
  removed exactly.
  Invariants: the totals of the store equal the sums of its flows, the limits of connections and
  requests and the books of the accept loop hold in every history.  Inverses: D-lines, H-lines, bundles, versions, the base64 and hex
  codecs, frames, and the files of allowed keys and hidden entities, which a restart reads back
  if the disk kept what was written.  The
  dashboard: every table of the summary accounts for the flows of the store and is cut at its largest
  rows, and the document is JSON if the names in it are UTF-8 (\<open>Summary\<close>); configuration values stay in their
  bounds and a line sets just the value it names (\<open>Config\<close>).
  The locales \<open>codec\<close>, \<open>stream_codec\<close>, \<open>byte_stream\<close>, \<open>evp_base64\<close> and
  \<open>strict_order\<close> hold the laws that clients of these interfaces use; each is interpreted on the
  definitions of the code, in the theory that provides them.

  \<^bold>\<open>Parameters.\<close>  Code that is not in the repository is an argument: OpenSSL (signatures, hashes, base64,
  random bytes), \<open>inet_pton\<close> and \<open>inet_ntop\<close>, zlib, libcurl, the clocks, the outcomes of socket and file
  operations, \<open>std::hash\<close>.  A write has two outcomes, the result that the code tests and the part of the text that
  the disk keeps, because the code tests no \<open>fclose\<close> and no destructor of a stream: the properties of pushes,
  registrations and hidden entities say what is in place in terms of that part.  Where a property needs a law of one of them, the law is a hypothesis of the
  property or the assumption of an interpreted locale.

  \<^bold>\<open>Not modelled.\<close>  Socket set-up, TLS contexts, signals, thread start and stop, and the pcap loop
  are calls of the operating system and of libraries with no logic of the repository.  The vendored
  \<open>httplib.h\<close> and the generated root keys of \<open>trust_roots.hpp\<close> are not code of the repository.  The HTML
  and JavaScript of the dashboard, the sample data of the demo, the Windows branch of the
  updater, command lines, service and platform glue are left out.
\<close>

end
